(* ===== verification/Prelude.thy ===== *)
theory Prelude
  imports "HOL-Library.Word"
begin

unbundle bit_operations_syntax

text \<open>
  Shared ground of the development: names for the C integer types, the collections of
  rewrite rules that the component theories fill and use, and the lemmas on lists, words
  and bit positions that more than one component needs.

  \<^item> \<open>cval\<close> collects the definitions of the models that a closed instance unfolds
    (constants, tables, small conversions), so that a witness is \<open>simp add: cval\<close>.
  \<^item> \<open>bitsimp\<close> collects the bit-level characterisations used by bit-by-bit proofs.
\<close>

section \<open>C integer types\<close>

type_synonym u8 = "8 word"
type_synonym u16 = "16 word"
type_synonym u32 = "32 word"
type_synonym u64 = "64 word"

text \<open>
  A C \<^verbatim>\<open>int\<close> that the code never overflows is an \<^typ>\<open>int\<close>; Isabelle's bit
  operations on \<^typ>\<open>int\<close> are those of an unbounded two's complement, so they agree
  with C's on every value of the type. A conversion to an unsigned or to a narrower type
  is written out with \<^const>\<open>word_of_int\<close>.
\<close>

named_theorems cval
named_theorems bitsimp

section \<open>C division\<close>

text \<open>C's signed division and remainder truncate towards zero.\<close>

definition cdivi :: "int \<Rightarrow> int \<Rightarrow> int" where
  "cdivi a b = sgn a * sgn b * (\<bar>a\<bar> div \<bar>b\<bar>)"

definition cmodi :: "int \<Rightarrow> int \<Rightarrow> int" where
  "cmodi a b = a - b * cdivi a b"

text \<open>The conversion of an integer to a signed 16-bit type.\<close>

definition cast_i16 :: "int \<Rightarrow> int" where
  "cast_i16 x = (x + 32768) mod 65536 - 32768"

lemma cast_i16_id [simp]: "- 32768 \<le> x \<Longrightarrow> x \<le> 32767 \<Longrightarrow> cast_i16 x = x"
  by (simp add: cast_i16_def mod_pos_pos_trivial)

text \<open>
  The bounds of the 32-bit \<^verbatim>\<open>int\<close> and the 64-bit \<^verbatim>\<open>long\<close>, and the conversion of an integer
  to \<^verbatim>\<open>int\<close>: two's complement, as GCC and Clang define it for a value that does not fit. It is
  also the value given here to a signed computation that overflows; the overflow itself is
  undefined in C, and the theorems about such code exclude it by their hypotheses.
\<close>

definition INT_MAX :: int where [cval]: "INT_MAX = 2147483647"
definition INT_MIN :: int where [cval]: "INT_MIN = - 2147483648"
definition LONG_MAX :: int where [cval]: "LONG_MAX = 9223372036854775807"
definition LONG_MIN :: int where [cval]: "LONG_MIN = - 9223372036854775808"

definition cast_i32 :: "int \<Rightarrow> int" where
  "cast_i32 x = (x + 2147483648) mod 4294967296 - 2147483648"

lemma cast_i32_id: "INT_MIN \<le> x \<Longrightarrow> x \<le> INT_MAX \<Longrightarrow> cast_i32 x = x"
  by (simp add: cast_i32_def mod_pos_pos_trivial cval)

lemma cast_i32_range: "INT_MIN \<le> cast_i32 x" "cast_i32 x \<le> INT_MAX"
  using pos_mod_sign[of 4294967296 "x + 2147483648"] pos_mod_bound[of 4294967296 "x + 2147483648"]
  by (simp_all add: cast_i32_def cval)

lemma cdivi_nonneg [simp]: "0 \<le> a \<Longrightarrow> 0 < b \<Longrightarrow> cdivi a b = a div b"
  by (cases "a = 0") (simp_all add: cdivi_def)

lemma cmodi_nonneg [simp]: "0 \<le> a \<Longrightarrow> 0 < b \<Longrightarrow> cmodi a b = a mod b"
  by (simp add: cmodi_def minus_mult_div_eq_mod)

text \<open>Quotients between two multiples of a positive divisor.\<close>

lemma div_between:
  fixes l :: int
  assumes "0 < d" "a * d \<le> l" "l < b * d"
  shows "a \<le> l div d" "l div d < b"
proof -
  have "l div d * d \<le> l" using pos_mod_sign [OF assms(1), of l] div_mult_mod_eq [of l d] by linarith
  with assms have "l div d * d < b * d" by linarith
  with assms(1) show "l div d < b" by simp
  have "a * d div d \<le> l div d" using assms by (intro zdiv_mono1) auto
  with assms(1) show "a \<le> l div d" by simp
qed

text \<open>Masks of low bits as remainders.\<close>

lemma int_and_low:
  "(k::int) AND 0x7F = k mod 128" "(k::int) AND 0xFF = k mod 256"
  "(k::int) AND 0xF = k mod 16" "(k::int) AND 0x3F = k mod 64"
  using take_bit_eq_mask [of 7 k] take_bit_eq_mask [of 8 k] take_bit_eq_mask [of 4 k]
    take_bit_eq_mask [of 6 k]
  by (simp_all add: mask_eq_exp_minus_1 take_bit_eq_mod)

lemma mod_once:
  fixes a b :: int
  shows "b \<le> a \<Longrightarrow> a < 2 * b \<Longrightarrow> a mod b = a - b"
  using mod_pos_pos_trivial [of "a - b" b] by simp

lemma div_times_bounds:
  fixes l d :: int
  assumes "0 < d"
  shows "l div d * d \<le> l" "l < l div d * d + d"
  using div_mult_mod_eq [of l d] pos_mod_bound [OF assms, of l] pos_mod_sign [OF assms, of l]
  by linarith+

section \<open>Words by exhaustion\<close>

text \<open>
  A property of a byte holds for all bytes when it holds for the 256 numerals: the form in
  which exhaustive evaluations over a byte are stated.
\<close>

lemma all_byteI:
  assumes "list_all (\<lambda>n. P (word_of_nat n :: u8)) [0..<256]"
  shows "P (w :: u8)"
proof -
  have "unat w < 256"
    using unsigned_less [of w] by simp
  then have "unat w \<in> set [0..<256]" by simp
  then have "P (word_of_nat (unat w))"
    using assms unfolding list_all_iff by (rule bspec [rotated])
  then show ?thesis by simp
qed

section \<open>Lists\<close>

lemma nth_take_drop: "i < n \<Longrightarrow> k + n \<le> length xs \<Longrightarrow> take n (drop k xs) ! i = xs ! (k + i)"
  by simp

lemma take_Suc_nth: "n < length xs \<Longrightarrow> take (Suc n) xs = take n xs @ [xs ! n]"
  by (rule take_Suc_conv_app_nth)

lemma list_update_append_nth:
  "i = length xs \<Longrightarrow> (xs @ y # ys)[i := z] = xs @ z # ys"
  by simp

text \<open>A loop that stores \<open>f i\<close> at every index of a list.\<close>

lemma length_foldl_update [simp]:
  "length (foldl (\<lambda>xs i. xs[i := f i]) xs is) = length xs"
  by (induction "is" arbitrary: xs) simp_all

lemma nth_foldl_update:
  "k < length xs \<Longrightarrow> foldl (\<lambda>xs i. xs[i := f i]) xs is ! k = (if k \<in> set is then f k else xs ! k)"
  by (induction "is" arbitrary: xs) (auto simp: nth_list_update)

text \<open>The content of a ring of values whose oldest element is at index \<open>i\<close>.\<close>

definition rotated :: "nat \<Rightarrow> 'a list \<Rightarrow> 'a list" where
  "rotated i xs = drop i xs @ take i xs"

lemma rotated_push:
  assumes "length buf = d" "i < d"
  shows "rotated i buf @ [x] = buf ! i # rotated (if i < d - 1 then i + 1 else 0) (buf[i := x])"
proof (cases "i < d - 1")
  case True
  have "take (Suc i) (buf[i := x]) = take i buf @ [x]"
    using assms by (simp add: take_Suc_nth[of i "buf[i := x]"])
  then show ?thesis using True assms by (simp add: rotated_def flip: Cons_nth_drop_Suc)
next
  case False
  then have "d = Suc i" using assms by simp
  then have "buf[i := x] = take i buf @ [x]" "drop i buf = [buf ! i]"
    using assms by (simp_all add: upd_conv_take_nth_drop flip: Cons_nth_drop_Suc)
  then show ?thesis using False by (simp add: rotated_def)
qed

section \<open>Digit sequences\<close>

text \<open>
  \<open>horner_sum f B xs\<close> is the number whose digits in base \<open>B\<close> are \<open>f\<close> of the elements of
  \<open>xs\<close>, lowest first. Overwriting a digit changes the number by the digit's weight, and the
  digits are determined by the number.
\<close>

lemma horner_sum_update:
  fixes f :: "'b \<Rightarrow> 'a::comm_ring_1"
  assumes "i < length xs"
  shows "horner_sum f B (xs[i := v]) = horner_sum f B xs + (f v - f (xs ! i)) * B ^ i"
  using assms
proof (induction xs arbitrary: i)
  case (Cons x xs)
  show ?case
  proof (cases i)
    case (Suc j)
    with Cons.prems have "horner_sum f B (xs[j := v]) = horner_sum f B xs + (f v - f (xs ! j)) * B ^ j"
      by (intro Cons.IH) simp
    with Suc show ?thesis by (simp add: distrib_left mult.left_commute)
  qed (simp add: algebra_simps)
qed simp

lemma horner_sum_zero_digits:
  assumes "\<And>x. x \<in> set xs \<Longrightarrow> f x = 0"
  shows "horner_sum f B xs = 0"
  using assms by (induction xs) auto

lemma horner_sum_digits_unique:
  fixes B :: int
  assumes "length xs = length ys" "horner_sum f B xs = horner_sum f B ys"
    and "\<And>x. x \<in> set xs \<union> set ys \<Longrightarrow> 0 \<le> f x \<and> f x < B"
  shows "map f xs = map f ys"
  using assms
proof (induction xs ys rule: list_induct2)
  case (Cons x xs y ys)
  have d: "f x mod B = f x" "f y mod B = f y"
    using Cons.prems(2) [of x] Cons.prems(2) [of y] by (simp_all add: mod_pos_pos_trivial)
  have "(f x + B * horner_sum f B xs) mod B = (f y + B * horner_sum f B ys) mod B"
    using Cons.prems(1) by simp
  then have xy: "f x = f y" using d by simp
  moreover have "B \<noteq> 0" using Cons.prems(2) [of x] by auto
  ultimately have "horner_sum f B xs = horner_sum f B ys" using Cons.prems(1) by simp
  then show ?case using Cons.IH Cons.prems(2) xy by simp
qed simp

section \<open>Joining disjoint bit fields of a word\<close>

lemma uint_or_push_bit:
  fixes x y :: "'a::len word"
  assumes "uint x < 2 ^ k" "uint y * 2 ^ k < 2 ^ LENGTH('a)"
  shows "uint (x OR push_bit k y) = uint x + uint y * 2 ^ k"
proof -
  have y: "uint (push_bit k y) = push_bit k (uint y)"
    using assms(2) by (subst unsigned_push_bit_eq) (simp add: take_bit_int_eq_self push_bit_eq_mult)
  have x: "take_bit k (uint x) = uint x"
    using assms(1) by (simp add: take_bit_int_eq_self)
  have "take_bit k (uint x) AND push_bit k (uint y) = 0"
    by (rule bit_eqI) (auto simp: bit_simps)
  then have "uint x AND push_bit k (uint y) = 0" by (simp only: x)
  then have "uint x OR push_bit k (uint y) = uint x + push_bit k (uint y)"
    by (simp add: disjunctive_add_eq_or)
  then show ?thesis unfolding uint_or y by (simp only: push_bit_eq_mult)
qed

lemma uint_less_one_iff [simp]: "uint (w :: 'a::len word) < 1 \<longleftrightarrow> w = 0"
proof -
  have "0 \<le> uint w" by simp
  then have "uint w < 1 \<longleftrightarrow> uint w = 0" by linarith
  then show ?thesis by (simp add: uint_0_iff)
qed

lemma uint_take_bit_mod: "uint (take_bit n (w :: 'a::len word)) = uint w mod 2 ^ n"
  by (subst unsigned_take_bit_eq) (simp add: take_bit_eq_mod)

lemma uint_drop_bit_div: "uint (drop_bit n (w :: 'a::len word)) = uint w div 2 ^ n"
proof -
  have "take_bit LENGTH('a) (uint w) = uint w" by (simp add: take_bit_int_eq_self)
  then show ?thesis by (subst unsigned_drop_bit_eq) (simp only: drop_bit_take_bit drop_bit_eq_div)
qed

end
