(* ===== verification/G711.thy ===== *)
theory G711
  imports Prelude
begin

unbundle bit_operations_syntax

text \<open>
  The inline A-law and mu-law routines of
  \<^verbatim>\<open>crates/fswtch-src/freeswitch/src/include/g711.h\<close>: the bit searches, and the four
  conversions between linear samples and companded bytes. Linear samples are C \<^verbatim>\<open>int\<close>s.
\<close>

section \<open>Bit searches\<close>

text \<open>One narrowing step: keep the masked half if it holds a bit, and move the index.\<close>

definition narrow :: "u32 \<Rightarrow> int \<Rightarrow> u32 \<times> int \<Rightarrow> u32 \<times> int" where
  "narrow m k = (\<lambda>(bits, i). if bits AND m \<noteq> 0 then (bits AND m, i + k) else (bits, i))"

definition top_bit :: "u32 \<Rightarrow> int" where
  "top_bit bits =
     (if bits = 0 then -1
      else snd (narrow 0xAAAAAAAA 1 (narrow 0xCCCCCCCC 2 (narrow 0xF0F0F0F0 4
             (narrow 0xFF00FF00 8 (narrow 0xFFFF0000 16 (bits, 0)))))))"

definition bottom_bit :: "u32 \<Rightarrow> int" where
  "bottom_bit bits =
     (if bits = 0 then -1
      else snd (narrow 0x55555555 (-1) (narrow 0x33333333 (-2) (narrow 0x0F0F0F0F (-4)
             (narrow 0x00FF00FF (-8) (narrow 0x0000FFFF (-16) (bits, 32)))))))"

text \<open>
  A narrowing step seen on bit positions: \<open>in_block w i h\<close> says that all bits of the word
  lie in the block of size \<open>h\<close> at \<open>i\<close>; a mask selects the upper or the lower halves.
\<close>

definition in_block :: "u32 \<Rightarrow> nat \<Rightarrow> nat \<Rightarrow> bool" where
  "in_block w i h \<longleftrightarrow> h dvd i \<and> (\<forall>j. bit w j \<longrightarrow> i \<le> j \<and> j < i + h)"

definition half_mask :: "u32 \<Rightarrow> nat \<Rightarrow> bool" where
  "half_mask m h \<longleftrightarrow> (\<forall>j<32. bit m j \<longleftrightarrow> odd (j div h))"

definition topmost :: "u32 \<Rightarrow> nat \<Rightarrow> bool" where
  "topmost w n \<longleftrightarrow> bit w n \<and> (\<forall>j. bit w j \<longrightarrow> j \<le> n)"

lemma odd_div_upper: "(2 * h) dvd i \<Longrightarrow> i \<le> j \<Longrightarrow> j < i + 2 * h \<Longrightarrow> odd (j div h) \<longleftrightarrow> i + h \<le> (j::nat)"
proof -
  assume a: "(2 * h) dvd i" "i \<le> j" "j < i + 2 * h"
  then obtain c where c: "i = 2 * h * c" by (auto elim: dvdE)
  show "odd (j div h) \<longleftrightarrow> i + h \<le> j"
  proof (cases "i + h \<le> j")
    case True
    then have "j div h = 2 * c + 1"
      using a c by (intro div_nat_eqI) (auto simp: algebra_simps)
    with True show ?thesis by simp
  next
    case False
    then have "j div h = 2 * c"
      using a c by (intro div_nat_eqI) (auto simp: algebra_simps)
    with False show ?thesis by simp
  qed
qed

lemma narrow_top:
  assumes t: "topmost w n" and b: "in_block w i (2 * h)" and m: "half_mask m h"
  shows "\<exists>w' i'. narrow m (int h) (w, int i) = (w', int i') \<and> topmost w' n \<and> in_block w' i' h"
proof -
  have bit_m: "bit w j \<Longrightarrow> bit m j \<longleftrightarrow> i + h \<le> j" for j
  proof -
    assume "bit w j"
    then have "j < 32" and "i \<le> j" "j < i + 2 * h" and "2 * h dvd i"
      using b bit_imp_le_length [of w j] by (auto simp: in_block_def)
    then show ?thesis using m odd_div_upper by (simp add: half_mask_def)
  qed
  have nz: "w AND m \<noteq> 0 \<longleftrightarrow> i + h \<le> n"
  proof
    assume "w AND m \<noteq> 0"
    then obtain j where "bit w j" "bit m j"
      by (auto simp: bit_eq_iff bit_and_iff)
    then show "i + h \<le> n" using bit_m [of j] t by (auto simp: topmost_def intro: le_trans)
  next
    assume "i + h \<le> n"
    then have "bit (w AND m) n" using t bit_m [of n] by (simp add: topmost_def bit_and_iff)
    then show "w AND m \<noteq> 0" by auto
  qed
  have dv: "h dvd i" "h dvd i + h" using b by (auto simp: in_block_def elim: dvd_mult_right)
  show ?thesis
  proof (cases "i + h \<le> n")
    case True
    have "topmost (w AND m) n" using t bit_m [of n] True by (auto simp: topmost_def bit_and_iff)
    moreover have "in_block (w AND m) (i + h) h"
      using b bit_m dv by (fastforce simp: in_block_def bit_and_iff)
    ultimately show ?thesis using True nz
      by (intro exI [of _ "w AND m"] exI [of _ "i + h"]) (simp add: narrow_def)
  next
    case False
    have "in_block w i h"
      using b t False dv by (fastforce simp: in_block_def topmost_def)
    then show ?thesis using False nz t
      by (intro exI [of _ w] exI [of _ i]) (simp add: narrow_def)
  qed
qed

lemma half_masks:
  "half_mask 0xFFFF0000 16" "half_mask 0xFF00FF00 8" "half_mask 0xF0F0F0F0 4"
  "half_mask 0xCCCCCCCC 2" "half_mask 0xAAAAAAAA 1"
  unfolding half_mask_def by (code_simp)+

lemma top_bit_topmost:
  assumes "topmost w n" shows "top_bit w = int n"
proof -
  have nz: "w \<noteq> 0" using assms by (auto simp: topmost_def)
  have "in_block w 0 32"
    using bit_imp_le_length [of w] by (auto simp: in_block_def)
  then obtain w1 i1 where 1: "narrow 0xFFFF0000 16 (w, 0) = (w1, int i1)" "topmost w1 n" "in_block w1 i1 16"
    using narrow_top [OF assms, of 0 16 "0xFFFF0000"] half_masks by auto
  obtain w2 i2 where 2: "narrow 0xFF00FF00 8 (w1, int i1) = (w2, int i2)" "topmost w2 n" "in_block w2 i2 8"
    using narrow_top [OF 1(2), of i1 8 "0xFF00FF00"] 1 half_masks by auto
  obtain w3 i3 where 3: "narrow 0xF0F0F0F0 4 (w2, int i2) = (w3, int i3)" "topmost w3 n" "in_block w3 i3 4"
    using narrow_top [OF 2(2), of i2 4 "0xF0F0F0F0"] 2 half_masks by auto
  obtain w4 i4 where 4: "narrow 0xCCCCCCCC 2 (w3, int i3) = (w4, int i4)" "topmost w4 n" "in_block w4 i4 2"
    using narrow_top [OF 3(2), of i3 2 "0xCCCCCCCC"] 3 half_masks by auto
  obtain w5 i5 where 5: "narrow 0xAAAAAAAA 1 (w4, int i4) = (w5, int i5)" "topmost w5 n" "in_block w5 i5 1"
    using narrow_top [OF 4(2), of i4 1 "0xAAAAAAAA"] 4 half_masks by auto
  have "i5 = n" using 5(2,3) by (auto simp: topmost_def in_block_def)
  then show ?thesis using nz 1 2 3 4 5 by (simp add: top_bit_def)
qed

definition lowermost :: "u32 \<Rightarrow> nat \<Rightarrow> bool" where
  "lowermost w n \<longleftrightarrow> bit w n \<and> (\<forall>j. bit w j \<longrightarrow> n \<le> j)"

definition low_mask :: "u32 \<Rightarrow> nat \<Rightarrow> bool" where
  "low_mask m h \<longleftrightarrow> (\<forall>j<32. bit m j \<longleftrightarrow> even (j div h))"

lemma narrow_low:
  assumes t: "lowermost w n" and b: "in_block w i (2 * h)" and m: "low_mask m h"
  shows "\<exists>w' i'. narrow m (- int h) (w, int (i + 2 * h)) = (w', int (i' + h)) \<and> lowermost w' n \<and> in_block w' i' h"
proof -
  have bit_m: "bit w j \<Longrightarrow> bit m j \<longleftrightarrow> j < i + h" for j
  proof -
    assume "bit w j"
    then have "j < 32" and "i \<le> j" "j < i + 2 * h" and "2 * h dvd i"
      using b bit_imp_le_length [of w j] by (auto simp: in_block_def)
    then show ?thesis using m odd_div_upper [of h i j] by (auto simp: low_mask_def)
  qed
  have nz: "w AND m \<noteq> 0 \<longleftrightarrow> n < i + h"
  proof
    assume "w AND m \<noteq> 0"
    then obtain j where "bit w j" "bit m j"
      by (auto simp: bit_eq_iff bit_and_iff)
    then show "n < i + h" using bit_m [of j] t by (auto simp: lowermost_def intro: le_less_trans)
  next
    assume "n < i + h"
    then have "bit (w AND m) n" using t bit_m [of n] by (simp add: lowermost_def bit_and_iff)
    then show "w AND m \<noteq> 0" by auto
  qed
  have dv: "h dvd i" "h dvd i + h" using b by (auto simp: in_block_def elim: dvd_mult_right)
  show ?thesis
  proof (cases "n < i + h")
    case True
    have "lowermost (w AND m) n" using t bit_m [of n] True by (auto simp: lowermost_def bit_and_iff)
    moreover have "in_block (w AND m) i h"
      using b bit_m dv by (fastforce simp: in_block_def bit_and_iff)
    ultimately show ?thesis using True nz
      by (intro exI [of _ "w AND m"] exI [of _ i]) (simp add: narrow_def)
  next
    case False
    have "in_block w (i + h) h"
      using b t False dv by (fastforce simp: in_block_def lowermost_def)
    then show ?thesis using False nz t
      by (intro exI [of _ w] exI [of _ "i + h"]) (simp add: narrow_def)
  qed
qed

lemma low_masks:
  "low_mask 0x0000FFFF 16" "low_mask 0x00FF00FF 8" "low_mask 0x0F0F0F0F 4"
  "low_mask 0x33333333 2" "low_mask 0x55555555 1"
  unfolding low_mask_def by (code_simp)+

lemma bottom_bit_lowermost:
  assumes "lowermost w n" shows "bottom_bit w = int n + 1"
proof -
  have nz: "w \<noteq> 0" using assms by (auto simp: lowermost_def)
  have "in_block w 0 32"
    using bit_imp_le_length [of w] by (auto simp: in_block_def)
  then obtain w1 i1 where 1: "narrow 0x0000FFFF (-16) (w, 32) = (w1, int (i1 + 16))" "lowermost w1 n" "in_block w1 i1 16"
    using narrow_low [OF assms, of 0 16 "0x0000FFFF"] low_masks by auto
  obtain w2 i2 where 2: "narrow 0x00FF00FF (-8) (w1, int (i1 + 16)) = (w2, int (i2 + 8))" "lowermost w2 n" "in_block w2 i2 8"
    using narrow_low [OF 1(2), of i1 8 "0x00FF00FF"] 1 low_masks by auto
  obtain w3 i3 where 3: "narrow 0x0F0F0F0F (-4) (w2, int (i2 + 8)) = (w3, int (i3 + 4))" "lowermost w3 n" "in_block w3 i3 4"
    using narrow_low [OF 2(2), of i2 4 "0x0F0F0F0F"] 2 low_masks by auto
  obtain w4 i4 where 4: "narrow 0x33333333 (-2) (w3, int (i3 + 4)) = (w4, int (i4 + 2))" "lowermost w4 n" "in_block w4 i4 2"
    using narrow_low [OF 3(2), of i3 2 "0x33333333"] 3 low_masks by auto
  obtain w5 i5 where 5: "narrow 0x55555555 (-1) (w4, int (i4 + 2)) = (w5, int (i5 + 1))" "lowermost w5 n" "in_block w5 i5 1"
    using narrow_low [OF 4(2), of i4 1 "0x55555555"] 4 low_masks by auto
  have "i5 = n" using 5(2,3) by (auto simp: lowermost_def in_block_def)
  then show ?thesis using nz 1 2 3 4 5 by (simp add: bottom_bit_def)
qed

lemma topmost_interval:
  "topmost w n \<longleftrightarrow> 2 ^ n \<le> unat w \<and> unat w < 2 ^ Suc n"
proof -
  have upper: "(\<forall>j. bit w j \<longrightarrow> j \<le> n) \<longleftrightarrow> unat w < 2 ^ Suc n"
  proof
    assume a: "\<forall>j. bit w j \<longrightarrow> j \<le> n"
    have "take_bit (Suc n) (unat w) = unat w"
      by (rule bit_eqI) (use a in \<open>auto simp: bit_take_bit_iff bit_unsigned_iff less_Suc_eq_le\<close>)
    then show "unat w < 2 ^ Suc n" by (metis take_bit_nat_less_exp)
  next
    assume "unat w < 2 ^ Suc n"
    then have t: "take_bit (Suc n) (unat w) = unat w" by (simp add: take_bit_nat_eq_self)
    show "\<forall>j. bit w j \<longrightarrow> j \<le> n"
    proof (intro allI impI)
      fix j assume "bit w j"
      then have "bit (unat w) j" by (simp add: bit_unsigned_iff)
      then have "bit (take_bit (Suc n) (unat w)) j" by (simp only: t)
      then show "j \<le> n" by (simp add: bit_take_bit_iff)
    qed
  qed
  have lower: "unat w < 2 ^ Suc n \<Longrightarrow> bit w n \<longleftrightarrow> 2 ^ n \<le> unat w"
  proof -
    assume "unat w < 2 ^ Suc n"
    then have "unat w div 2 ^ n < 2" by (simp add: div_less_iff_less_mult)
    then have "odd (unat w div 2 ^ n) \<longleftrightarrow> unat w div 2 ^ n = 1" by (cases "unat w div 2 ^ n = 0") auto
    also have "\<dots> \<longleftrightarrow> 0 < unat w div 2 ^ n" using \<open>unat w div 2 ^ n < 2\<close> by auto
    also have "\<dots> \<longleftrightarrow> 2 ^ n \<le> unat w" by (simp add: div_greater_zero_iff)
    finally have "bit (unat w) n \<longleftrightarrow> 2 ^ n \<le> unat w" by (simp add: bit_iff_odd)
    then show ?thesis by (simp add: bit_unsigned_iff)
  qed
  show ?thesis unfolding topmost_def using upper lower by blast
qed

lemma ex_interval:
  assumes "0 < (x::nat)" shows "\<exists>n. 2 ^ n \<le> x \<and> x < 2 ^ Suc n"
  using ex_power_ivl1 [of 2 x] assms by simp

lemma top_bit_interval:
  assumes "2 ^ k \<le> l" "l < 2 ^ Suc k" "k \<le> 30"
  shows "top_bit (word_of_int l) = int k"
proof -
  have "(0::int) < 2 ^ k" by simp
  with assms(1) have l0: "0 \<le> l" by linarith
  have "(2::int) ^ Suc k \<le> 2 ^ 31" using assms(3) by (intro power_increasing) auto
  with assms(2) have "l < 2 ^ 32" by simp
  with l0 have u: "unat (word_of_int l :: u32) = nat l"
    by (simp add: unat_eq_nat_uint uint_word_of_int take_bit_eq_mod)
  have "topmost (word_of_int l) k"
    unfolding topmost_interval u using assms l0
    by (auto simp: nat_less_iff le_nat_iff simp del: power_Suc)
  then show ?thesis by (rule top_bit_topmost)
qed

lemma seg_of:
  assumes "7 \<le> k" "k \<le> 30" "2 ^ k \<le> l" "l < 2 ^ Suc k"
  shows "top_bit (word_of_int (l OR 0xFF)) = int k"
proof -
  have "(0::int) < 2 ^ k" by simp
  with assms(3) have l0: "0 \<le> l" by linarith
  have "(0xFF::int) < 2 ^ Suc k"
    using power_increasing [of 8 "Suc k" "2::int"] assms(1) by simp
  then have "l OR 0xFF < 2 ^ Suc k" using assms l0 by (intro OR_upper) auto
  moreover have "2 ^ k \<le> l OR 0xFF" using assms(3) or_greater_eq [of "0xFF" l] by simp
  ultimately show ?thesis using assms(2) by (intro top_bit_interval) auto
qed

lemma seg_of_low:
  assumes "0 \<le> l" "l < 256"
  shows "top_bit (word_of_int (l OR 0xFF)) = 7"
proof -
  have "l OR 0xFF < 2 ^ 8" using assms by (intro OR_upper) auto
  moreover have "0xFF \<le> l OR 0xFF" using or_greater_eq [of l "0xFF"] assms by (simp add: or.commute)
  ultimately have "2 ^ 7 \<le> l OR 0xFF" "l OR 0xFF < 2 ^ Suc 7" by auto
  then have "top_bit (word_of_int (l OR 0xFF)) = int 7" by (intro top_bit_interval) auto
  then show ?thesis by simp
qed

text \<open>
  the portable search for the highest set bit, a binary search by masks, returns the
  position of that bit, and -1 for the zero word, which is what the \<^verbatim>\<open>bsr\<close>
  instruction of the x86 variants is used for.
\<close>

lemma top_bit_highest:
  "top_bit w = (if w = 0 then -1 else int (Max {j. bit w j}))"
proof (cases "w = 0")
  case True
  then show ?thesis by (simp add: top_bit_def)
next
  case False
  then have "0 < unat w" by (simp add: unat_gt_0)
  then obtain n where n: "topmost w n" using ex_interval topmost_interval by blast
  then have "Max {j. bit w j} = n"
    by (intro Max_eqI) (auto simp: topmost_def)
  with n False show ?thesis by (simp add: top_bit_topmost)
qed

text \<open>
  The portable search for the lowest set bit starts its index at 32 and so returns the
  position of that bit plus one (and -1 for the zero word). The header documents the
  position itself, which is what the \<^verbatim>\<open>bsf\<close> variants return.
\<close>

lemma bottom_bit_lowest_plus_one:
  "bottom_bit w = (if w = 0 then -1 else int (Min {j. bit w j}) + 1)"
proof (cases "w = 0")
  case True
  then show ?thesis by (simp add: bottom_bit_def)
next
  case False
  then obtain j where "bit w j" by (auto simp: bit_eq_iff)
  then have "lowermost w (LEAST j. bit w j)" by (auto simp: lowermost_def intro: LeastI Least_le)
  moreover have fin: "finite {j. bit w j}"
    by (rule finite_subset [of _ "{..<32}"]) (auto dest: bit_imp_le_length)
  ultimately have "Min {j. bit w j} = (LEAST j. bit w j)"
    by (intro Min_eqI) (auto simp: lowermost_def)
  with \<open>lowermost w (LEAST j. bit w j)\<close> False show ?thesis by (simp add: bottom_bit_lowermost)
qed

section \<open>Mu-law\<close>

definition ULAW_BIAS :: int where [cval]: "ULAW_BIAS = 0x84"

definition linear_to_ulaw :: "int \<Rightarrow> u8" where
  "linear_to_ulaw linear =
     (let (linear', mask) = (if linear < 0 then (ULAW_BIAS - linear, 0x7F)
                             else (ULAW_BIAS + linear, 0xFF :: int));
          seg = top_bit (word_of_int (linear' OR 0xFF)) - 7
      in if seg \<ge> 8 then word_of_int (0x7F XOR mask)
         else word_of_int ((push_bit 4 seg OR (drop_bit (nat (seg + 3)) linear' AND 0xF)) XOR mask))"

definition ulaw_to_linear :: "u8 \<Rightarrow> int" where
  "ulaw_to_linear ulaw =
     (let u = NOT ulaw;
          t = push_bit (unat (drop_bit 4 (u AND 0x70))) (push_bit 3 (uint (u AND 0x0F)) + ULAW_BIAS)
      in signed_take_bit 15 (if u AND 0x80 \<noteq> 0 then ULAW_BIAS - t else t - ULAW_BIAS))"

section \<open>A-law\<close>

definition ALAW_AMI_MASK :: int where [cval]: "ALAW_AMI_MASK = 0x55"

definition linear_to_alaw :: "int \<Rightarrow> u8" where
  "linear_to_alaw linear =
     (let (linear', mask) = (if linear \<ge> 0 then (linear, ALAW_AMI_MASK OR 0x80)
                             else (- linear - 8, ALAW_AMI_MASK));
          seg = top_bit (word_of_int (linear' OR 0xFF)) - 7
      in if seg \<ge> 8 then
           (if linear' \<ge> 0 then word_of_int (0x7F XOR mask) else word_of_int (0x00 XOR mask))
         else word_of_int ((push_bit 4 seg OR
                (drop_bit (if seg \<noteq> 0 then nat (seg + 3) else 4) linear' AND 0x0F)) XOR mask))"

definition alaw_to_linear :: "u8 \<Rightarrow> int" where
  "alaw_to_linear alaw =
     (let a = alaw XOR word_of_int ALAW_AMI_MASK;
          i = push_bit 4 (uint (a AND 0x0F));
          seg = unat (drop_bit 4 (a AND 0x70));
          i' = (if seg \<noteq> 0 then push_bit (seg - 1) (i + 0x108) else i + 8)
      in signed_take_bit 15 (if a AND 0x80 \<noteq> 0 then i' else - i'))"

subsection \<open>Mu-law: fields of a code\<close>

text \<open>The fields of a complemented mu-law code and the code they make up.\<close>

definition ulaw_seg :: "u8 \<Rightarrow> nat" where
  "ulaw_seg u = unat (drop_bit 4 (NOT u AND 0x70))"
definition ulaw_quant :: "u8 \<Rightarrow> int" where
  "ulaw_quant u = uint (NOT u AND 0x0F)"
definition ulaw_neg :: "u8 \<Rightarrow> bool" where
  "ulaw_neg u \<longleftrightarrow> NOT u AND 0x80 \<noteq> 0"

definition ulaw_word :: "nat \<Rightarrow> int \<Rightarrow> bool \<Rightarrow> u8" where
  "ulaw_word s q neg =
     word_of_int ((push_bit 4 (int s) OR q) XOR (if neg then 0x7F else 0xFF))"

lemma ulaw_fields_word_table:
  "list_all (\<lambda>s. list_all (\<lambda>q. list_all (\<lambda>neg. 
       let w = ulaw_word s q neg in ulaw_seg w = s \<and> ulaw_quant w = q \<and> ulaw_neg w = neg)
     [False, True]) [0..15]) [0..<8]"
  by code_simp

lemma ulaw_word_fields_table:
  "list_all (\<lambda>n. let w = word_of_nat n in
     ulaw_word (ulaw_seg w) (ulaw_quant w) (ulaw_neg w) = w) [0..<256]"
  by code_simp

lemma ulaw_word_fields: "ulaw_word (ulaw_seg u) (ulaw_quant u) (ulaw_neg u) = u"
  using all_byteI [OF ulaw_word_fields_table [unfolded Let_def]] .

lemma ulaw_fields_word:
  assumes "s < 8" "0 \<le> q" "q < 16"
  shows "ulaw_seg (ulaw_word s q neg) = s" "ulaw_quant (ulaw_word s q neg) = q"
    "ulaw_neg (ulaw_word s q neg) = neg"
proof -
  have "s \<in> set [0..<8]" "q \<in> set [0..15]" "neg \<in> set [False, True]" using assms by auto
  then show "ulaw_seg (ulaw_word s q neg) = s" "ulaw_quant (ulaw_word s q neg) = q"
    "ulaw_neg (ulaw_word s q neg) = neg"
    using ulaw_fields_word_table unfolding list_all_iff Let_def by blast+
qed

lemma ulaw_seg_less: "ulaw_seg u < 8"
proof -
  have "unat (NOT u AND 0x70) \<le> unat (0x70 :: u8)" by (simp only: word_le_nat_alt [symmetric] word_and_le1)
  then show ?thesis by (simp add: ulaw_seg_def drop_bit_eq_div unat_div)
qed

lemma ulaw_quant_bounds: "0 \<le> ulaw_quant u" "ulaw_quant u < 16"
proof -
  have "uint (NOT u AND 0x0F) \<le> uint (0x0F :: u8)" by (simp only: word_le_def [symmetric] word_and_le1)
  then show "0 \<le> ulaw_quant u" "ulaw_quant u < 16" by (simp_all add: ulaw_quant_def)
qed

text \<open>What a code with these fields decodes to: the biased magnitude less the bias.\<close>

definition ulaw_level :: "nat \<Rightarrow> int \<Rightarrow> int" where
  "ulaw_level s q = (8 * q + 132) * 2 ^ s - 132"

lemma ulaw_level_bounds:
  assumes "s < 8" "0 \<le> q" "q < 16"
  shows "0 \<le> ulaw_level s q" "ulaw_level s q \<le> 32124"
proof -
  have "(1::int) \<le> 2 ^ s" by simp
  moreover have "(2::int) ^ s \<le> 2 ^ 7" using assms(1) by (intro power_increasing) auto
  ultimately have "132 * 1 \<le> (8 * q + 132) * 2 ^ s" "(8 * q + 132) * 2 ^ s \<le> 252 * 128"
    using assms by (intro mult_mono; simp)+
  then show "0 \<le> ulaw_level s q" "ulaw_level s q \<le> 32124" by (simp_all add: ulaw_level_def)
qed

lemma ulaw_to_linear_fields:
  "ulaw_to_linear u =
     (if ulaw_neg u then - ulaw_level (ulaw_seg u) (ulaw_quant u)
      else ulaw_level (ulaw_seg u) (ulaw_quant u))"
proof -
  have lv: "push_bit (unat (drop_bit 4 (NOT u AND 0x70))) (push_bit 3 (uint (NOT u AND 0x0F)) + ULAW_BIAS)
      = ulaw_level (ulaw_seg u) (ulaw_quant u) + 132"
    by (simp add: ulaw_level_def ulaw_seg_def ulaw_quant_def push_bit_eq_mult ULAW_BIAS_def mult.commute)
  have "0 \<le> ulaw_level (ulaw_seg u) (ulaw_quant u)" "ulaw_level (ulaw_seg u) (ulaw_quant u) \<le> 32124"
    using ulaw_level_bounds ulaw_seg_less ulaw_quant_bounds by auto
  then show ?thesis
    unfolding ulaw_to_linear_def Let_def lv
    by (simp add: ULAW_BIAS_def signed_take_bit_int_eq_self ulaw_neg_def)
qed

lemma linear_to_ulaw_seg:
  assumes "s < 8" "2 ^ (s + 7) \<le> \<bar>x\<bar> + 132" "\<bar>x\<bar> + 132 < 2 ^ (s + 8)"
  shows "linear_to_ulaw x = ulaw_word s ((\<bar>x\<bar> + 132) div 2 ^ (s + 3) - 16) (x < 0)"
proof -
  define l where "l = \<bar>x\<bar> + 132"
  have seg: "top_bit (word_of_int (l OR 0xFF)) = int (s + 7)"
    using assms by (intro seg_of) (auto simp: l_def add.commute)
  have m: "16 \<le> l div 2 ^ (s + 3)" "l div 2 ^ (s + 3) < 32"
    using assms div_between [of "2 ^ (s + 3)" 16 l 32] by (simp_all add: l_def power_add)
  have a: "l div 2 ^ (s + 3) AND 0xF = l div 2 ^ (s + 3) - 16"
  proof -
    have "l div 2 ^ (s + 3) AND 0xF = l div 2 ^ (s + 3) mod 16" by (simp only: int_and_low)
    also have "\<dots> = l div 2 ^ (s + 3) - 16"
      using m by (intro mod_once) auto
    finally show ?thesis .
  qed
  have n: "nat (int (s + 7) - 7 + 3) = s + 3" by simp
  show ?thesis
  proof (cases "x < 0")
    case True
    then have "ULAW_BIAS - x = l" "132 - x = l" by (simp_all add: l_def ULAW_BIAS_def)
    with True seg a n assms(1) show ?thesis
      by (simp add: linear_to_ulaw_def ulaw_word_def drop_bit_eq_div flip: l_def)
  next
    case False
    then have "ULAW_BIAS + x = l" "x + 132 = l" by (simp_all add: l_def ULAW_BIAS_def)
    with False seg a n assms(1) show ?thesis
      by (simp add: linear_to_ulaw_def ulaw_word_def drop_bit_eq_div flip: l_def)
  qed
qed

text \<open>The segment of a biased magnitude.\<close>

lemma ex_seg:
  fixes l :: int
  assumes "128 \<le> l" "l < 2 ^ 15"
  shows "\<exists>s<8. 2 ^ (s + 7) \<le> l \<and> l < 2 ^ (s + 8)"
proof -
  obtain n where n: "2 ^ n \<le> nat l" "nat l < 2 ^ Suc n"
    using ex_interval [of "nat l"] assms by auto
  then have ni: "2 ^ n \<le> l" "l < 2 ^ Suc n"
    using assms by (simp_all add: le_nat_iff nat_less_iff)
  have "(2::int) ^ n < 2 ^ 15" using ni assms by linarith
  then have "n < 15" by (rule power_less_imp_less_exp [rotated]) simp
  have "(2::int) ^ 7 < 2 ^ Suc n" using ni(2) assms(1) by (simp del: power_Suc)
  then have "7 < Suc n" by (rule power_less_imp_less_exp [rotated]) simp
  with ni \<open>n < 15\<close> show ?thesis by (intro exI [of _ "n - 7"]) simp
qed

lemma linear_to_ulaw_word_ulaw_level:
  assumes "s < 8" "0 \<le> q" "q < 16"
  shows "linear_to_ulaw (ulaw_level s q) = ulaw_word s q False"
    "0 < ulaw_level s q \<Longrightarrow> linear_to_ulaw (- ulaw_level s q) = ulaw_word s q True"
proof -
  have nn: "0 \<le> ulaw_level s q" using ulaw_level_bounds assms by auto
  have "128 * 2 ^ s \<le> (8 * q + 132) * (2::int) ^ s" "(8 * q + 132) * (2::int) ^ s < 256 * 2 ^ s"
    using assms by (auto intro: mult_right_mono)
  then have r: "2 ^ (s + 7) \<le> ulaw_level s q + 132" "ulaw_level s q + 132 < 2 ^ (s + 8)"
    by (simp_all add: ulaw_level_def power_add mult.commute)
  have "(ulaw_level s q + 132) div 2 ^ (s + 3) = (8 * q + 132) div 8"
    by (simp add: ulaw_level_def power_add mult.commute)
  also have "(8 * q + 132) div 8 = q + 16" using assms by presburger
  finally have d: "(ulaw_level s q + 132) div 2 ^ (s + 3) - 16 = q" by simp
  show "linear_to_ulaw (ulaw_level s q) = ulaw_word s q False"
    using linear_to_ulaw_seg [of s "ulaw_level s q"] nn r d assms by simp
  show "0 < ulaw_level s q \<Longrightarrow> linear_to_ulaw (- ulaw_level s q) = ulaw_word s q True"
    using linear_to_ulaw_seg [of s "- ulaw_level s q"] nn r d assms by simp
qed

text \<open>
  C25: every mu-law code survives decoding and re-encoding, except the negative zero
  \<open>0x7F\<close>, which decodes to 0 and comes back as the positive zero \<open>0xFF\<close>.
\<close>

theorem ulaw_roundtrip:
  "linear_to_ulaw (ulaw_to_linear u) = (if u = 0x7F then 0xFF else u)"
proof -
  let ?s = "ulaw_seg u" and ?q = "ulaw_quant u"
  note b = ulaw_seg_less [of u] ulaw_quant_bounds [of u]
  have w: "ulaw_word ?s ?q (ulaw_neg u) = u" by (rule ulaw_word_fields)
  show ?thesis
  proof (cases "ulaw_neg u \<and> ulaw_level ?s ?q = 0")
    case True
    have "(8 * ?q + 132) * 1 \<le> (8 * ?q + 132) * 2 ^ ?s"
      using b by (intro mult_left_mono) auto
    with True b have q: "?q = 0" by (simp add: ulaw_level_def)
    with True have "(2::int) ^ ?s = 2 ^ 0" by (simp add: ulaw_level_def)
    then have s: "?s = 0" by (simp only: power_inject_exp')
    have "u = ulaw_word 0 0 True" using w True q s by simp
    then show ?thesis using True linear_to_ulaw_word_ulaw_level(1) [of 0 0]
      by (simp add: ulaw_to_linear_fields ulaw_level_def ulaw_word_def)
  next
    case False
    have "u \<noteq> 0x7F" using False
      by (auto simp: ulaw_seg_def ulaw_quant_def ulaw_neg_def ulaw_level_def)
    moreover have "0 \<le> ulaw_level ?s ?q" using ulaw_level_bounds b by auto
    ultimately show ?thesis using False w linear_to_ulaw_word_ulaw_level [OF b]
      by (cases "ulaw_neg u") (auto simp: ulaw_to_linear_fields)
  qed
qed

text \<open>The quantisation step of a segment: the distance of two neighbouring levels.\<close>

definition ulaw_step :: "nat \<Rightarrow> int" where
  "ulaw_step s = 2 ^ (s + 3)"

lemma ulaw_step_levels: "ulaw_level s (q + 1) - ulaw_level s q = ulaw_step s"
  by (simp add: ulaw_level_def ulaw_step_def power_add algebra_simps)

text \<open>
  C26: the quantisation error of mu-law. For a sample within the coder's range
  (magnitude at most 32635) the decoded value is off by at most half a quantisation step of
  the segment that its code names, and this is the segment of the sample: its magnitude and
  the bias of 132 are from 16 up to 32 steps.
\<close>

theorem ulaw_error:
  assumes "\<bar>x\<bar> \<le> 32635"
  shows "let step = ulaw_step (ulaw_seg (linear_to_ulaw x)) in
    2 * \<bar>ulaw_to_linear (linear_to_ulaw x) - x\<bar> \<le> step \<and> 16 * step \<le> \<bar>x\<bar> + 132 \<and> \<bar>x\<bar> + 132 < 32 * step"
proof -
  define l where "l = \<bar>x\<bar> + 132"
  obtain s where s: "s < 8" "2 ^ (s + 7) \<le> l" "l < 2 ^ (s + 8)"
    using ex_seg [of l] assms by (auto simp: l_def)
  define q where "q = l div 2 ^ (s + 3) - 16"
  have q: "0 \<le> q" "q < 16"
    using s div_between [of "2 ^ (s + 3)" 16 l 32] by (simp_all add: q_def power_add)
  have c: "linear_to_ulaw x = ulaw_word s q (x < 0)"
    using linear_to_ulaw_seg [of s x] s by (simp add: l_def q_def)
  have dec: "ulaw_to_linear (linear_to_ulaw x) = (if x < 0 then - ulaw_level s q else ulaw_level s q)"
    using s q by (simp add: c ulaw_to_linear_fields ulaw_fields_word)
  let ?d = "2 ^ (s + 3) :: int"
  have "l div ?d * ?d \<le> l" "l < l div ?d * ?d + ?d"
    by (rule div_times_bounds, simp)+
  then have "\<bar>ulaw_level s q + 132 - l\<bar> \<le> 4 * 2 ^ s"
    by (simp add: ulaw_level_def q_def power_add algebra_simps)
  then have e: "2 * \<bar>ulaw_level s q - \<bar>x\<bar>\<bar> \<le> ulaw_step s" by (simp add: l_def ulaw_step_def power_add)
  have seg: "ulaw_seg (linear_to_ulaw x) = s" using s q by (simp add: c ulaw_fields_word)
  have "16 * ulaw_step s \<le> \<bar>x\<bar> + 132 \<and> \<bar>x\<bar> + 132 < 32 * ulaw_step s"
    using s(2,3) by (simp add: l_def ulaw_step_def power_add)
  moreover have "2 * \<bar>ulaw_to_linear (linear_to_ulaw x) - x\<bar> \<le> ulaw_step s"
  proof (cases "x < 0")
    case True
    then have "ulaw_to_linear (linear_to_ulaw x) = - ulaw_level s q" using dec by simp
    moreover have "\<bar>- ulaw_level s q - x\<bar> = \<bar>ulaw_level s q - \<bar>x\<bar>\<bar>" using True by arith
    ultimately show ?thesis using e by simp
  next
    case False
    then have "ulaw_to_linear (linear_to_ulaw x) = ulaw_level s q" using dec by simp
    with e False show ?thesis by simp
  qed
  ultimately show ?thesis by (simp add: Let_def seg)
qed

lemma ulaw_error_witness:
  "let step = ulaw_step (ulaw_seg (linear_to_ulaw (-1000))) in
    2 * \<bar>ulaw_to_linear (linear_to_ulaw (-1000)) - (-1000)\<bar> \<le> step \<and> 16 * step \<le> \<bar>-1000\<bar> + 132 \<and> \<bar>-1000\<bar> + 132 < 32 * step"
  by (rule ulaw_error) simp

subsection \<open>A-law: fields of a code\<close>

definition alaw_seg :: "u8 \<Rightarrow> nat" where
  "alaw_seg u = unat (drop_bit 4 ((u XOR 0x55) AND 0x70))"
definition alaw_quant :: "u8 \<Rightarrow> int" where
  "alaw_quant u = uint ((u XOR 0x55) AND 0x0F)"
definition alaw_neg :: "u8 \<Rightarrow> bool" where
  "alaw_neg u \<longleftrightarrow> (u XOR 0x55) AND 0x80 = 0"

definition alaw_word :: "nat \<Rightarrow> int \<Rightarrow> bool \<Rightarrow> u8" where
  "alaw_word s q neg =
     word_of_int ((push_bit 4 (int s) OR q) XOR (if neg then 0x55 else 0xD5))"

definition alaw_level :: "nat \<Rightarrow> int \<Rightarrow> int" where
  "alaw_level s q = (if s = 0 then 16 * q + 8 else (16 * q + 264) * 2 ^ (s - 1))"

lemma alaw_fields_word_table:
  "list_all (\<lambda>s. list_all (\<lambda>q. list_all (\<lambda>neg.
       let w = alaw_word s q neg in alaw_seg w = s \<and> alaw_quant w = q \<and> alaw_neg w = neg)
     [False, True]) [0..15]) [0..<8]"
  by code_simp

lemma alaw_word_fields_table:
  "list_all (\<lambda>n. let w = word_of_nat n in
     alaw_word (alaw_seg w) (alaw_quant w) (alaw_neg w) = w) [0..<256]"
  by code_simp

lemma alaw_word_fields: "alaw_word (alaw_seg u) (alaw_quant u) (alaw_neg u) = u"
  using all_byteI [OF alaw_word_fields_table [unfolded Let_def]] .

lemma alaw_fields_word:
  assumes "s < 8" "0 \<le> q" "q < 16"
  shows "alaw_seg (alaw_word s q neg) = s" "alaw_quant (alaw_word s q neg) = q"
    "alaw_neg (alaw_word s q neg) = neg"
proof -
  have "s \<in> set [0..<8]" "q \<in> set [0..15]" "neg \<in> set [False, True]" using assms by auto
  then show "alaw_seg (alaw_word s q neg) = s" "alaw_quant (alaw_word s q neg) = q"
    "alaw_neg (alaw_word s q neg) = neg"
    using alaw_fields_word_table unfolding list_all_iff Let_def by blast+
qed

lemma alaw_seg_less: "alaw_seg u < 8"
proof -
  have "unat ((u XOR 0x55) AND 0x70) \<le> unat (0x70 :: u8)"
    by (simp only: word_le_nat_alt [symmetric] word_and_le1)
  then show ?thesis by (simp add: alaw_seg_def drop_bit_eq_div unat_div)
qed

lemma alaw_quant_bounds: "0 \<le> alaw_quant u" "alaw_quant u < 16"
proof -
  have "uint ((u XOR 0x55) AND 0x0F) \<le> uint (0x0F :: u8)"
    by (simp only: word_le_def [symmetric] word_and_le1)
  then show "0 \<le> alaw_quant u" "alaw_quant u < 16" by (simp_all add: alaw_quant_def)
qed

lemma alaw_level_bounds:
  assumes "s < 8" "0 \<le> q" "q < 16"
  shows "8 \<le> alaw_level s q" "alaw_level s q \<le> 32256"
proof -
  have "(1::int) \<le> 2 ^ (s - 1)" by simp
  moreover have "(2::int) ^ (s - 1) \<le> 2 ^ 6" using assms(1) by (intro power_increasing) auto
  ultimately have "8 * 1 \<le> (16 * q + 264) * 2 ^ (s - 1)" "(16 * q + 264) * 2 ^ (s - 1) \<le> 504 * 64"
    using assms by (intro mult_mono; simp)+
  then show "8 \<le> alaw_level s q" "alaw_level s q \<le> 32256" using assms by (simp_all add: alaw_level_def)
qed

lemma alaw_to_linear_fields:
  "alaw_to_linear u =
     (if alaw_neg u then - alaw_level (alaw_seg u) (alaw_quant u)
      else alaw_level (alaw_seg u) (alaw_quant u))"
proof -
  have lv: "(if unat (drop_bit 4 ((u XOR 0x55) AND 0x70)) \<noteq> 0
       then push_bit (unat (drop_bit 4 ((u XOR 0x55) AND 0x70)) - 1)
              (push_bit 4 (uint ((u XOR 0x55) AND 0x0F)) + 0x108)
       else push_bit 4 (uint ((u XOR 0x55) AND 0x0F)) + 8) = alaw_level (alaw_seg u) (alaw_quant u)"
    by (simp add: alaw_level_def alaw_seg_def alaw_quant_def push_bit_eq_mult mult.commute)
  have "8 \<le> alaw_level (alaw_seg u) (alaw_quant u)" "alaw_level (alaw_seg u) (alaw_quant u) \<le> 32256"
    using alaw_level_bounds alaw_seg_less alaw_quant_bounds by auto
  then show ?thesis
    unfolding alaw_to_linear_def Let_def ALAW_AMI_MASK_def word_of_int_numeral lv
    by (simp add: signed_take_bit_int_eq_self alaw_neg_def)
qed

subsection \<open>A-law: encoding\<close>

lemma linear_to_alaw_low:
  assumes "0 \<le> l" "l < 256" "x \<ge> 0 \<Longrightarrow> x = l" "x < 0 \<Longrightarrow> x = - l - 8"
  shows "linear_to_alaw x = alaw_word 0 (l div 16) (x < 0)"
proof -
  have a: "l div 16 AND 0xF = l div 16"
    using assms(1,2) unfolding int_and_low by (intro mod_pos_pos_trivial) auto
  have "x \<ge> 0 \<Longrightarrow> linear_to_alaw x = alaw_word 0 (l div 16) False"
    using assms seg_of_low [of l] a
    by (simp add: linear_to_alaw_def alaw_word_def ALAW_AMI_MASK_def drop_bit_eq_div)
  moreover have "x < 0 \<Longrightarrow> linear_to_alaw x = alaw_word 0 (l div 16) True"
    using assms seg_of_low [of l] a
    by (simp add: linear_to_alaw_def alaw_word_def ALAW_AMI_MASK_def drop_bit_eq_div)
  ultimately show ?thesis by (cases "x < 0") auto
qed

lemma linear_to_alaw_high:
  assumes "0 < s" "s < 8" "2 ^ (s + 7) \<le> l" "l < 2 ^ (s + 8)"
    and "x \<ge> 0 \<Longrightarrow> x = l" "x < 0 \<Longrightarrow> x = - l - 8"
  shows "linear_to_alaw x = alaw_word s (l div 2 ^ (s + 3) - 16) (x < 0)"
proof -
  have seg: "top_bit (word_of_int (l OR 0xFF)) = int (s + 7)"
    using assms by (intro seg_of) (auto simp: add.commute)
  have "16 \<le> l div 2 ^ (s + 3)" "l div 2 ^ (s + 3) < 32"
    using assms div_between [of "2 ^ (s + 3)" 16 l 32] by (simp_all add: power_add)
  then have a: "l div 2 ^ (s + 3) AND 0xF = l div 2 ^ (s + 3) - 16"
    unfolding int_and_low by (intro mod_once) auto
  have n: "nat (int (s + 7) - 7 + 3) = s + 3" by simp
  have "x \<ge> 0 \<Longrightarrow> linear_to_alaw x = alaw_word s (l div 2 ^ (s + 3) - 16) False"
    using assms seg a n
    by (simp add: linear_to_alaw_def alaw_word_def ALAW_AMI_MASK_def drop_bit_eq_div)
  moreover have "x < 0 \<Longrightarrow> linear_to_alaw x = alaw_word s (l div 2 ^ (s + 3) - 16) True"
    using assms seg a n
    by (simp add: linear_to_alaw_def alaw_word_def ALAW_AMI_MASK_def drop_bit_eq_div)
  ultimately show ?thesis by (cases "x < 0") auto
qed

text \<open>The seven negative samples next to zero encode as the smallest negative level.\<close>

lemma linear_to_alaw_minus_small:
  assumes "-8 < x" "x < 0" shows "linear_to_alaw x = alaw_word 0 0 True"
proof -
  have "x \<in> set [-7..-1]" using assms by auto
  moreover have "list_all (\<lambda>x. linear_to_alaw x = alaw_word 0 0 True) [-7..-1]" by code_simp
  ultimately show ?thesis unfolding list_all_iff by blast
qed

text \<open>The segment of a magnitude, and the level its code decodes to.\<close>

lemma alaw_quantise:
  fixes l :: int
  assumes "0 \<le> l" "l < 2 ^ 15" "x \<ge> 0 \<Longrightarrow> x = l" "x < 0 \<Longrightarrow> x = - l - 8"
  obtains s q where "s < 8" "0 \<le> q" "q < 16" "linear_to_alaw x = alaw_word s q (x < 0)"
    "32 * \<bar>alaw_level s q - l\<bar> \<le> max 256 l"
proof (cases "l < 256")
  case True
  have d: "l div 16 * 16 \<le> l" "l < l div 16 * 16 + 16" by (rule div_times_bounds, simp)+
  show thesis
  proof (rule that [of 0 "l div 16"])
    show "linear_to_alaw x = alaw_word 0 (l div 16) (x < 0)"
      by (rule linear_to_alaw_low) (use True assms in auto)
  qed (use True assms d in \<open>auto simp: alaw_level_def\<close>)
next
  case False
  obtain s where s: "s < 8" "2 ^ (s + 7) \<le> l" "l < 2 ^ (s + 8)"
    using ex_seg [of l] assms False by auto
  have s0: "0 < s" using s False by (cases s) auto
  have q: "16 \<le> l div 2 ^ (s + 3)" "l div 2 ^ (s + 3) < 32"
    using s div_between [of "2 ^ (s + 3)" 16 l 32] by (simp_all add: power_add)
  obtain t where t: "s = Suc t" using s0 by (cases s) auto
  let ?d = "2 ^ (s + 3) :: int"
  have d: "l div ?d * ?d \<le> l" "l < l div ?d * ?d + ?d" by (rule div_times_bounds, simp)+
  have "\<bar>alaw_level s (l div ?d - 16) - l\<bar> \<le> 8 * 2 ^ t"
    using d by (simp add: alaw_level_def t power_add algebra_simps)
  moreover have "32 * (8 * 2 ^ t) \<le> l" using s(2) by (simp add: t power_add)
  ultimately have "32 * \<bar>alaw_level s (l div ?d - 16) - l\<bar> \<le> l"
    by (intro order_trans [OF mult_left_mono [of "\<bar>alaw_level s (l div ?d - 16) - l\<bar>" "8 * 2 ^ t" 32]]) auto
  then have e: "32 * \<bar>alaw_level s (l div ?d - 16) - l\<bar> \<le> max 256 l" by simp
  show thesis
  proof (rule that [of s "l div ?d - 16"])
    show "linear_to_alaw x = alaw_word s (l div ?d - 16) (x < 0)"
      by (rule linear_to_alaw_high) (use s s0 assms in auto)
  qed (use s q e False in auto)
qed

lemma alaw_level_Suc: "alaw_level (Suc t) q = (q + 16) * (16 * 2 ^ t) + 8 * 2 ^ t"
  by (simp add: alaw_level_def algebra_simps)

lemma alaw_level_high:
  assumes "s = Suc t" "0 \<le> q" "q < 16"
  shows "2 ^ (s + 7) \<le> alaw_level s q - 8" "alaw_level s q < 2 ^ (s + 8)"
    "alaw_level s q div 2 ^ (s + 3) = q + 16" "(alaw_level s q - 8) div 2 ^ (s + 3) = q + 16"
proof -
  let ?d = "2 ^ t :: int"
  have d: "1 \<le> ?d" by simp
  have p: "(2::int) ^ (s + 3) = 16 * ?d" "(2::int) ^ (s + 7) = 256 * ?d" "(2::int) ^ (s + 8) = 512 * ?d"
    by (simp_all add: assms(1) power_add)
  have "16 * (16 * ?d) \<le> (q + 16) * (16 * ?d)" "(q + 16) * (16 * ?d) \<le> 31 * (16 * ?d)"
    using assms by (intro mult_right_mono; simp)+
  with d show "2 ^ (s + 7) \<le> alaw_level s q - 8" "alaw_level s q < 2 ^ (s + 8)"
    unfolding p unfolding assms(1) alaw_level_Suc by linarith+
  show "alaw_level s q div 2 ^ (s + 3) = q + 16"
    unfolding p unfolding assms(1) alaw_level_Suc using d
    by (intro int_div_pos_eq [where r = "8 * ?d"]) (simp_all add: algebra_simps)
  show "(alaw_level s q - 8) div 2 ^ (s + 3) = q + 16"
    unfolding p unfolding assms(1) alaw_level_Suc using d
    by (intro int_div_pos_eq [where r = "8 * ?d - 8"]) (simp_all add: algebra_simps add_pos_pos)
qed

lemma linear_to_alaw_level:
  assumes "s < 8" "0 \<le> q" "q < 16"
  shows "linear_to_alaw (alaw_level s q) = alaw_word s q False"
    "linear_to_alaw (- alaw_level s q) = alaw_word s q True"
proof -
  have l8: "8 \<le> alaw_level s q" using alaw_level_bounds assms by auto
  have "linear_to_alaw (alaw_level s q) = alaw_word s q False \<and>
    linear_to_alaw (- alaw_level s q) = alaw_word s q True"
  proof (cases s)
    case 0
    have "linear_to_alaw (16 * q + 8) = alaw_word 0 ((16 * q + 8) div 16) (16 * q + 8 < 0)"
      "linear_to_alaw (- (16 * q + 8)) = alaw_word 0 (16 * q div 16) (- (16 * q + 8) < 0)"
      using assms by (intro linear_to_alaw_low; simp)+
    moreover have "(16 * q + 8) div 16 = q" by presburger
    ultimately show ?thesis using 0 assms by (simp add: alaw_level_def)
  next
    case (Suc t)
    note h = alaw_level_high [OF Suc assms(2,3)]
    have "linear_to_alaw (alaw_level s q) =
        alaw_word s (alaw_level s q div 2 ^ (s + 3) - 16) (alaw_level s q < 0)"
      using Suc assms h l8 by (intro linear_to_alaw_high) auto
    moreover have "linear_to_alaw (- alaw_level s q) =
        alaw_word s ((alaw_level s q - 8) div 2 ^ (s + 3) - 16) (- alaw_level s q < 0)"
      using Suc assms h l8 by (intro linear_to_alaw_high) auto
    ultimately show ?thesis using l8 unfolding h by simp
  qed
  then show "linear_to_alaw (alaw_level s q) = alaw_word s q False"
    "linear_to_alaw (- alaw_level s q) = alaw_word s q True" by auto
qed

text \<open>C27: every A-law code survives decoding and re-encoding.\<close>

theorem alaw_roundtrip: "linear_to_alaw (alaw_to_linear u) = u"
  using linear_to_alaw_level [OF alaw_seg_less alaw_quant_bounds, of u u] alaw_word_fields [of u]
  by (cases "alaw_neg u") (auto simp: alaw_to_linear_fields)

text \<open>
  the quantisation error of A-law over all 16-bit samples: at most \<open>max 8 (|x| / 32)\<close>
  for a non-negative sample, and 8 more for a negative one, because the encoder takes
  \<open>-x - 8\<close> as the magnitude.
\<close>

lemma alaw_error:
  assumes "- 32768 \<le> x" "x \<le> 32767"
  shows "32 * \<bar>alaw_to_linear (linear_to_alaw x) - x\<bar> \<le> max 256 \<bar>x\<bar> + (if x < 0 then 256 else 0)"
proof (cases "-8 < x \<and> x < 0")
  case True
  then have "alaw_to_linear (linear_to_alaw x) = - 8"
    by (simp add: linear_to_alaw_minus_small alaw_to_linear_fields alaw_fields_word alaw_level_def)
  with True show ?thesis by auto
next
  case False
  define l where "l = (if x < 0 then - x - 8 else x)"
  obtain s q where sq: "s < 8" "0 \<le> q" "q < 16"
    "linear_to_alaw x = alaw_word s q (x < 0)" "32 * \<bar>alaw_level s q - l\<bar> \<le> max 256 l"
  proof (rule alaw_quantise [of l x])
    show "0 \<le> l" "l < 2 ^ 15" "x \<ge> 0 \<Longrightarrow> x = l" "x < 0 \<Longrightarrow> x = - l - 8"
      using assms False by (auto simp: l_def)
  qed
  then have dec: "alaw_to_linear (linear_to_alaw x) = (if x < 0 then - alaw_level s q else alaw_level s q)"
    by (simp add: alaw_to_linear_fields alaw_fields_word)
  show ?thesis
  proof (cases "x < 0")
    case True
    have "\<bar>- alaw_level s q - x\<bar> \<le> \<bar>alaw_level s q - l\<bar> + 8" using True by (simp add: l_def)
    moreover have "max 256 l \<le> max 256 \<bar>x\<bar>" using True by (simp add: l_def)
    ultimately have "32 * \<bar>- alaw_level s q - x\<bar> \<le> max 256 \<bar>x\<bar> + 256" using sq(5) by linarith
    then show ?thesis using True dec by simp
  next
    case f: False
    with sq(5) dec show ?thesis by (simp add: l_def)
  qed
qed

lemma alaw_error_witness:
  "32 * \<bar>alaw_to_linear (linear_to_alaw (-12345)) - (-12345)\<bar> \<le> 12345 + 256"
  using alaw_error [of "-12345"] by (simp del: abs_le_iff)

end
