(* ===== verification/Bitpack.thy ===== *)
theory Bitpack
  imports Prelude "HOL-Library.Monad_Syntax"
begin

unbundle bit_operations_syntax

text \<open>
  The bit packer of \<^verbatim>\<open>crates/fswtch-src/freeswitch/src/include/switch_bitpack.h\<close>
  (struct and mode in \<^verbatim>\<open>switch_types.h\<close>): frames of 1 to 8 bits are packed into
  bytes, low bits first (RFC3551) or high bits first (AAL2), and unpacked again.

  The buffer a \<^verbatim>\<open>switch_bitpack_t\<close> points to is the list \<open>bp_buf\<close> of the bytes that
  really are there, and \<open>bp_cur\<close> is the offset of \<^verbatim>\<open>cur\<close> from \<^verbatim>\<open>buf\<close>. An access
  outside the list, and a failed \<^verbatim>\<open>switch_assert\<close>, is the result \<^const>\<open>None\<close>. The
  parameter \<open>oob\<close> is the byte that lies behind the mask table: the unpacker reads one
  element past \<^verbatim>\<open>SWITCH_REVERSE_BITPACKED_MASKS\<close>, and the theorems hold for every value.
\<close>

section \<open>State\<close>

datatype bitpack_mode = RFC3551 | AAL2

record bitpack =
  bp_buf :: "u8 list"
  bp_buflen :: u32
  bp_cur :: nat
  bp_bytes :: u32
  bp_bits_tot :: u32
  bp_bits_cur :: u8
  bp_bits_rem :: u8
  bp_frame_bits :: u8
  bp_shiftby :: u8
  bp_this_byte :: u8
  bp_under :: u8
  bp_over :: u8
  bp_mode :: bitpack_mode

definition BITPACKED_MASKS :: "u8 list" where [cval]:
  "BITPACKED_MASKS = [0, 1, 3, 7, 15, 31, 63, 127, 255]"

definition REVERSE_BITPACKED_MASKS :: "u8 list" where [cval]:
  "REVERSE_BITPACKED_MASKS = [255, 254, 252, 248, 240, 224, 192, 128]"

text \<open>A read of a mask table; \<open>oob\<close> is what lies behind it.\<close>

definition mask_at :: "u8 list \<Rightarrow> u8 \<Rightarrow> u8 \<Rightarrow> u8" where
  "mask_at tab oob i = (if unat i < length tab then tab ! unat i else oob)"

text \<open>\<^verbatim>\<open>*cur |= v\<close> and \<^verbatim>\<open>*cur <<= n\<close>.\<close>

definition cur_or :: "u8 \<Rightarrow> bitpack \<Rightarrow> bitpack option" where
  "cur_or v p = (if bp_cur p < length (bp_buf p)
     then Some (p\<lparr>bp_buf := (bp_buf p)[bp_cur p := bp_buf p ! bp_cur p OR v]\<rparr>) else None)"

definition cur_shl :: "u8 \<Rightarrow> bitpack \<Rightarrow> bitpack option" where
  "cur_shl n p = (if bp_cur p < length (bp_buf p)
     then Some (p\<lparr>bp_buf := (bp_buf p)[bp_cur p := push_bit (unat n) (bp_buf p ! bp_cur p)]\<rparr>) else None)"

section \<open>Operations\<close>

definition switch_bitpack_init ::
  "bitpack option \<Rightarrow> u8 \<Rightarrow> u8 list option \<Rightarrow> u32 \<Rightarrow> bitpack_mode \<Rightarrow>
     (int \<times> bitpack option) option" where
  "switch_bitpack_init pack bitlen buf buflen mode =
     (case (pack, buf) of
        (Some p, Some mem) \<Rightarrow>
          (if bitlen > 8 \<or> buflen = 0 then Some (-1, pack)
           else if length mem < unat buflen then None
           else Some (0, Some \<lparr>bp_buf = replicate (unat buflen) 0 @ drop (unat buflen) mem, bp_buflen = buflen,
                          bp_cur = 0, bp_bytes = 0, bp_bits_tot = 0, bp_bits_cur = 0, bp_bits_rem = 0,
                          bp_frame_bits = bitlen, bp_shiftby = 0, bp_this_byte = 0, bp_under = 0,
                          bp_over = 0, bp_mode = mode\<rparr>))
      | _ \<Rightarrow> Some (-1, pack))"

definition pack_check_over :: "u8 \<Rightarrow> bitpack \<Rightarrow> bitpack option" where
  "pack_check_over oob pack =
     (if bp_over pack \<noteq> 0 then do {
        let p = pack\<lparr>bp_bits_cur := bp_over pack\<rparr>;
        p \<leftarrow> (if bp_mode p = RFC3551 then
                (if bp_over p > 8 then None
                 else cur_or (push_bit (unat (bp_under p))
                        (bp_this_byte p AND mask_at BITPACKED_MASKS oob (bp_over p))) p)
              else
                (let mask = 8 - bp_over p in
                 if mask \<ge> 8 then None
                 else cur_shl (bp_over p) p \<bind>
                      cur_or (drop_bit (unat mask)
                        (bp_this_byte p AND mask_at REVERSE_BITPACKED_MASKS oob mask))));
        Some (p\<lparr>bp_cur := Suc (bp_cur p), bp_bytes := bp_bytes p + 1, bp_over := 0, bp_under := 0\<rparr>)
      } else Some pack)"

definition switch_bitpack_done :: "u8 \<Rightarrow> bitpack \<Rightarrow> (int \<times> bitpack) option" where
  "switch_bitpack_done oob pack = do {
     p \<leftarrow> (if bp_bits_cur pack \<noteq> 0 \<and> bp_bits_cur pack < 8 then
             let p = pack\<lparr>bp_bytes := bp_bytes pack + 1\<rparr> in
             if bp_mode p = AAL2 then cur_shl (8 - bp_bits_cur p) p else Some p
           else Some pack);
     p \<leftarrow> (if bp_over p \<noteq> 0 then pack_check_over oob p else Some p);
     Some (0, p)
   }"

text \<open>
  The loop of \<^verbatim>\<open>switch_bitpack_out\<close>. Every iteration but the last stores a frame and
  advances \<^verbatim>\<open>cur\<close>, so the model stops at the latest at the end of the buffer.
\<close>

function out_loop :: "u8 \<Rightarrow> bitpack \<Rightarrow> bitpack option" where
  "out_loop oob p =
     (if bp_bits_cur p > 8 then Some p
      else
        let nxt = bp_bits_cur p + bp_frame_bits p in
        if nxt > 8 then
          (let ovr = nxt - 8; und = bp_frame_bits p - ovr;
               q = p\<lparr>bp_over := ovr, bp_under := und\<rparr> in
           if bp_mode p = RFC3551 then
             (let mask = 8 - und in
              cur_or (drop_bit (unat mask) (bp_this_byte p AND mask_at REVERSE_BITPACKED_MASKS oob mask)) q)
           else cur_shl und q \<bind> cur_or (bp_this_byte p AND mask_at BITPACKED_MASKS oob und))
        else
          (let sh = (if bp_mode p = RFC3551 then bp_bits_cur p else 8 - nxt) in
           case cur_or (drop_bit (unat sh) (bp_this_byte p) AND mask_at BITPACKED_MASKS oob (bp_frame_bits p)) p of
             None \<Rightarrow> None
           | Some q \<Rightarrow> out_loop oob (q\<lparr>bp_cur := Suc (bp_cur q), bp_bits_cur := nxt, bp_bytes := bp_bytes q + 1\<rparr>)))"
  by pat_completeness auto
termination
  by (relation "measure (\<lambda>(oob, p). length (bp_buf p) - bp_cur p)")
     (auto simp: cur_or_def split: if_splits)

declare out_loop.simps [simp del]

definition switch_bitpack_out :: "u8 \<Rightarrow> bitpack \<Rightarrow> u8 \<Rightarrow> (int \<times> bitpack) option" where
  "switch_bitpack_out oob unpack b =
     (if of_nat (bp_cur unpack) > bp_buflen unpack then Some (-1, unpack)
      else do {
        p \<leftarrow> pack_check_over oob (unpack\<lparr>bp_bits_cur := 0, bp_this_byte := b\<rparr>);
        p \<leftarrow> out_loop oob p;
        Some (0, p)
      })"

definition switch_bitpack_in :: "u8 \<Rightarrow> bitpack \<Rightarrow> u8 \<Rightarrow> (int \<times> bitpack) option" where
  "switch_bitpack_in oob pack b =
     (let nxt = unat (bp_bits_cur pack) + unat (bp_frame_bits pack) in
      if of_nat (bp_cur pack) > bp_buflen pack then Some (-1, pack)
      else
        let p = pack\<lparr>bp_bits_tot := bp_bits_tot pack + ucast (bp_frame_bits pack)\<rparr> in
        if nxt > 8 then do {
          let rm = 8 - bp_bits_cur p;
          let nx = bp_frame_bits p - rm;
          p \<leftarrow> (if bp_mode p = RFC3551 then do {
                  q \<leftarrow> cur_or (push_bit (unat (bp_shiftby p)) (b AND mask_at BITPACKED_MASKS oob rm)) p;
                  q \<leftarrow> cur_or (drop_bit (unat rm) b) (q\<lparr>bp_cur := Suc (bp_cur q)\<rparr>);
                  Some (q\<lparr>bp_bits_cur := nx, bp_shiftby := nx\<rparr>)
                } else do {
                  q \<leftarrow> cur_shl rm p;
                  q \<leftarrow> cur_or (drop_bit (unat nx) b) q;
                  q \<leftarrow> cur_or (b AND mask_at BITPACKED_MASKS oob nx) (q\<lparr>bp_cur := Suc (bp_cur q)\<rparr>);
                  Some (q\<lparr>bp_bits_cur := nx\<rparr>)
                });
          Some (0, p\<lparr>bp_bytes := bp_bytes p + 1\<rparr>)
        } else do {
          p \<leftarrow> (if bp_mode p = RFC3551 then do {
                  q \<leftarrow> cur_or (push_bit (unat (bp_shiftby p)) b) p;
                  Some (q\<lparr>bp_shiftby := bp_shiftby q + bp_frame_bits q\<rparr>)
                } else cur_shl (bp_frame_bits p) p \<bind> cur_or b);
          Some (0, if nxt = 8 then p\<lparr>bp_cur := Suc (bp_cur p), bp_bytes := bp_bytes p + 1,
                                   bp_bits_cur := 0, bp_shiftby := 0\<rparr>
                   else p\<lparr>bp_bits_cur := word_of_nat nxt\<rparr>)
        })"

text \<open>Packing and unpacking a sequence of values; a call that reports a full buffer stops it.\<close>

fun pack_all :: "u8 \<Rightarrow> bitpack \<Rightarrow> u8 list \<Rightarrow> bitpack option" where
  "pack_all oob p [] = Some p"
| "pack_all oob p (b # bs) =
     (case switch_bitpack_in oob p b of
        Some (r, q) \<Rightarrow> (if r = 0 then pack_all oob q bs else None) | None \<Rightarrow> None)"

fun unpack_all :: "u8 \<Rightarrow> bitpack \<Rightarrow> u8 list \<Rightarrow> bitpack option" where
  "unpack_all oob p [] = Some p"
| "unpack_all oob p (b # bs) =
     (case switch_bitpack_out oob p b of
        Some (r, q) \<Rightarrow> (if r = 0 then unpack_all oob q bs else None) | None \<Rightarrow> None)"

section \<open>Mask tables\<close>

lemma mask_at_low:
  assumes "unat i \<le> 8"
  shows "mask_at BITPACKED_MASKS oob i = mask (unat i)"
proof -
  have "unat i \<in> {0, 1, 2, 3, 4, 5, 6, 7, 8}" using assms by auto
  then show ?thesis by (auto simp: mask_at_def BITPACKED_MASKS_def mask_eq_exp_minus_1)
qed

lemma drop_bit_high_mask:
  fixes b :: u8
  assumes "unat i \<le> 8"
  shows "drop_bit (unat i) (b AND mask_at REVERSE_BITPACKED_MASKS oob i) = drop_bit (unat i) b"
proof (cases "unat i = 8")
  case True
  have "drop_bit 8 c = 0" for c :: u8
    by (rule bit_eqI) (auto simp: bit_drop_bit_eq dest: bit_imp_le_length)
  with True show ?thesis by simp
next
  case False
  then have "unat i \<in> {0, 1, 2, 3, 4, 5, 6, 7}" using assms by auto
  moreover have "255 = NOT (mask 0 :: u8)" "254 = NOT (mask 1 :: u8)" "252 = NOT (mask 2 :: u8)"
    "248 = NOT (mask 3 :: u8)" "240 = NOT (mask 4 :: u8)" "224 = NOT (mask 5 :: u8)"
    "192 = NOT (mask 6 :: u8)" "128 = NOT (mask 7 :: u8)"
    by (simp_all add: mask_eq_exp_minus_1)
  ultimately have "mask_at REVERSE_BITPACKED_MASKS oob i = NOT (mask (unat i))"
    by (auto simp: mask_at_def REVERSE_BITPACKED_MASKS_def)
  then show ?thesis
    by (simp only: , intro bit_eqI) (auto simp: bit_simps dest: bit_imp_le_length)
qed

lemma uint_and_low_mask:
  "unat i \<le> 8 \<Longrightarrow> uint (b AND mask_at BITPACKED_MASKS oob i) = uint b mod 2 ^ unat i"
  by (simp add: mask_at_low uint_take_bit_mod flip: take_bit_eq_mask)

section \<open>RFC3551 packing\<close>

definition rfc_pack_inv :: "nat \<Rightarrow> nat \<Rightarrow> bitpack \<Rightarrow> bool" where
  "rfc_pack_inv fb n p \<longleftrightarrow>
     bp_mode p = RFC3551 \<and> unat (bp_frame_bits p) = fb \<and> 0 < fb \<and> fb \<le> 8 \<and>
     bp_buflen p = of_nat (length (bp_buf p)) \<and> length (bp_buf p) < 2 ^ 32 \<and>
     bp_shiftby p = bp_bits_cur p \<and> unat (bp_bits_cur p) < 8 \<and>
     8 * bp_cur p + unat (bp_bits_cur p) = fb * n \<and> bp_bytes p = of_nat (bp_cur p) \<and> bp_over p = 0 \<and>
     (bp_cur p < length (bp_buf p) \<longrightarrow> uint (bp_buf p ! bp_cur p) < 2 ^ unat (bp_bits_cur p)) \<and>
     (\<forall>i. bp_cur p < i \<and> i < length (bp_buf p) \<longrightarrow> bp_buf p ! i = 0)"

lemma guard_ok:
  assumes "i < n" "n < 2 ^ 32"
  shows "\<not> (of_nat i > (of_nat n :: u32))"
  using assms by (simp add: word_less_nat_alt take_bit_nat_eq_self unat_of_nat not_less)

lemma rfc_pack_step:
  assumes inv: "rfc_pack_inv fb n p" and b: "uint b < 2 ^ fb" and room: "fb * Suc n \<le> 8 * length (bp_buf p)"
  shows "\<exists>q. switch_bitpack_in oob p b = Some (0, q) \<and> rfc_pack_inv fb (Suc n) q \<and>
    length (bp_buf q) = length (bp_buf p) \<and>
    horner_sum uint 256 (bp_buf q) = horner_sum uint 256 (bp_buf p) + uint b * 2 ^ (fb * n)"
proof -
  define t where "t = unat (bp_bits_cur p)"
  define c where "c = bp_cur p"
  note I = inv [unfolded rfc_pack_inv_def, folded t_def c_def]
  have tb: "bp_bits_cur p = of_nat t" "bp_shiftby p = of_nat t" using I by (simp_all add: t_def)
  have fbw: "bp_frame_bits p = of_nat fb" using I by auto
  have un: "unat (of_nat t :: u8) = t" "unat (of_nat fb :: u8) = fb"
    using I by (simp_all add: unat_of_nat)
  have c: "c < length (bp_buf p)" using I room by auto
  have g: "\<not> (of_nat (bp_cur p) > bp_buflen p)"
    using guard_ok [OF c] I by (simp add: c_def)
  have w: "2 ^ (fb * n) = 2 ^ t * (256::int) ^ c"
  proof -
    have "(2::int) ^ (fb * n) = 2 ^ (8 * c + t)" using I by simp
    then show ?thesis by (simp add: power_add power_mult)
  qed
  show ?thesis
  proof (cases "t + fb > 8")
    case False
    have "uint b * 2 ^ t < 2 ^ fb * 2 ^ t" using b by simp
    also have "\<dots> \<le> 2 ^ 8"
      unfolding power_add [symmetric] using False by (intro power_increasing) auto
    finally have s: "uint (bp_buf p ! c OR push_bit t b) = uint (bp_buf p ! c) + uint b * 2 ^ t"
      using I c by (intro uint_or_push_bit) auto
    have u: "horner_sum uint 256 ((bp_buf p)[c := bp_buf p ! c OR push_bit t b]) =
        horner_sum uint 256 (bp_buf p) + uint b * 2 ^ (fb * n)"
      by (simp only: horner_sum_update [OF c] s w) (simp add: algebra_simps)
    have "(uint b + 1) * 2 ^ t \<le> 2 ^ fb * 2 ^ t" using b by (intro mult_right_mono) auto
    then have hb: "uint (bp_buf p ! c) + uint b * 2 ^ t < 2 ^ (t + fb)"
      using I c by (simp add: distrib_right power_add mult.commute)
    define B where "B = (bp_buf p)[c := bp_buf p ! c OR push_bit t b]"
    have n8: "unat (of_nat (t + fb) :: u8) = t + fb" using False by (simp add: unat_of_nat del: of_nat_add)
    let ?q = "p\<lparr>bp_bits_tot := bp_bits_tot p + ucast (bp_frame_bits p), bp_buf := B\<rparr>"
    let ?r = "if t + fb = 8 then ?q\<lparr>bp_cur := Suc c, bp_bytes := bp_bytes p + 1, bp_bits_cur := 0, bp_shiftby := 0\<rparr>
       else ?q\<lparr>bp_shiftby := of_nat (t + fb), bp_bits_cur := of_nat (t + fb)\<rparr>"
    have "switch_bitpack_in oob p b = Some (0, ?r)"
      using g False I c
      by (simp add: switch_bitpack_in_def cur_or_def Let_def B_def tb fbw un c_def [symmetric])
    moreover have "rfc_pack_inv fb (Suc n) ?r"
    proof (cases "t + fb = 8")
      case True
      then show ?thesis using I c by (auto simp: rfc_pack_inv_def B_def c_def)
    next
      case ne: False
      then show ?thesis using I c n8 False s hb by (auto simp: rfc_pack_inv_def B_def c_def)
    qed
    ultimately show ?thesis using u by (intro exI [of _ ?r]) (auto simp: B_def)
  next
    case True
    define r where "r = 8 - t"
    define x where "x = t + fb - 8"
    have rt: "r + t = 8" "r \<le> 8" "x + r = fb" "x < 8" using I True by (auto simp: r_def x_def)
    have rw: "8 - bp_bits_cur p = of_nat r" "unat (of_nat r :: u8) = r" "unat (of_nat x :: u8) = x"
    proof -
      show "8 - bp_bits_cur p = of_nat r" using I by (simp add: tb r_def of_nat_diff)
      show "unat (of_nat r :: u8) = r" "unat (of_nat x :: u8) = x" using rt by (simp_all add: unat_of_nat)
    qed
    have xw: "bp_frame_bits p - of_nat r = of_nat x"
      unfolding fbw rt(3) [symmetric] by simp
    have c1: "Suc c < length (bp_buf p)" using I room True by (auto simp: add_mult_distrib)
    define lo where "lo = b AND mask_at BITPACKED_MASKS oob (of_nat r)"
    define hi where "hi = drop_bit r b"
    have lo: "uint lo = uint b mod 2 ^ r" using rt rw by (simp add: lo_def uint_and_low_mask)
    have hi: "uint hi = uint b div 2 ^ r" by (simp add: hi_def uint_drop_bit_div)
    have "uint lo * 2 ^ t < 2 ^ r * 2 ^ t" by (simp add: lo)
    also have "\<dots> = 2 ^ 8" by (simp only: power_add [symmetric] rt)
    finally have s: "uint (bp_buf p ! c OR push_bit t lo) = uint (bp_buf p ! c) + uint lo * 2 ^ t"
      using I c by (intro uint_or_push_bit) auto
    define B where "B = (bp_buf p)[c := bp_buf p ! c OR push_bit t lo]"
    have Bc: "B ! Suc c = 0" "Suc c < length B" using I c1 by (simp_all add: B_def)
    have "uint b < 2 ^ r * 2 ^ x" using b rt by (simp add: add.commute flip: power_add)
    then have hx: "uint hi < 2 ^ x"
      unfolding hi using div_between(2) [of "2 ^ r" 0 "uint b" "2 ^ x"] by (simp add: mult.commute)
    define C where "C = B[Suc c := B ! Suc c OR hi]"
    have u: "horner_sum uint 256 C = horner_sum uint 256 (bp_buf p) + uint b * 2 ^ (fb * n)"
    proof -
      have "horner_sum uint 256 C = horner_sum uint 256 (bp_buf p) +
          (uint lo * 2 ^ t * 256 ^ c + uint hi * 256 ^ Suc c)"
        unfolding C_def horner_sum_update [OF Bc(2)] unfolding B_def horner_sum_update [OF c]
        using Bc(1) by (simp add: s B_def)
      also have "uint lo * 2 ^ t * 256 ^ c + uint hi * 256 ^ Suc c =
          (uint lo + uint hi * 2 ^ r) * (2 ^ t * 256 ^ c)"
      proof -
        have "(256::int) = 2 ^ r * 2 ^ t" by (simp only: power_add [symmetric] rt) simp
        then have "(256::int) ^ Suc c = 2 ^ r * 2 ^ t * 256 ^ c" by simp
        then show ?thesis by (simp add: algebra_simps)
      qed
      also have "uint lo + uint hi * 2 ^ r = uint b"
        unfolding lo hi by (metis add.commute div_mult_mod_eq)
      finally show ?thesis by (simp add: w)
    qed
    let ?r = "p\<lparr>bp_bits_tot := bp_bits_tot p + ucast (bp_frame_bits p), bp_buf := C, bp_cur := Suc c,
        bp_bits_cur := of_nat x, bp_shiftby := of_nat x, bp_bytes := bp_bytes p + 1\<rparr>"
    have "switch_bitpack_in oob p b = Some (0, ?r)"
      using g True I c Bc
      by (simp add: switch_bitpack_in_def cur_or_def Let_def C_def B_def tb fbw un rw xw
           lo_def hi_def rw(1) [unfolded tb] xw [unfolded fbw] c_def [symmetric])
    moreover have "rfc_pack_inv fb (Suc n) ?r"
      using I c1 rt rw hx Bc by (auto simp: rfc_pack_inv_def C_def B_def)
    ultimately show ?thesis using u by (intro exI [of _ ?r]) (auto simp: C_def B_def)
  qed
qed

lemma cur_in_range:
  fixes a :: nat
  assumes "a * c \<le> x" "x < a * n"
  shows "c < n"
proof -
  have "a * c < a * n" using assms by (rule le_less_trans)
  then show ?thesis using mult_less_cancel1 by blast
qed

lemma mod_div_weights:
  fixes a :: int
  shows "a mod d * w + a div d * (w * d) = a * w"
proof -
  have "a mod d * w + a div d * (w * d) = (a mod d + a div d * d) * w"
    by (simp only: ring_distribs mult_ac)
  then show ?thesis by (simp only: mod_div_mult_eq)
qed

lemma rfc_pack_all:
  assumes "rfc_pack_inv fb n p" "\<And>b. b \<in> set bs \<Longrightarrow> uint b < 2 ^ fb"
    and "fb * (n + length bs) \<le> 8 * length (bp_buf p)"
  shows "\<exists>q. pack_all oob p bs = Some q \<and> rfc_pack_inv fb (n + length bs) q \<and>
    length (bp_buf q) = length (bp_buf p) \<and>
    horner_sum uint 256 (bp_buf q) =
      horner_sum uint 256 (bp_buf p) + 2 ^ (fb * n) * horner_sum uint (2 ^ fb) bs"
  using assms
proof (induction bs arbitrary: p n)
  case Nil
  then show ?case by simp
next
  case (Cons b bs)
  have "fb * Suc n \<le> fb * (n + length (b # bs))" by (intro mult_le_mono2) simp
  with Cons.prems(3) have "fb * Suc n \<le> 8 * length (bp_buf p)" by (rule order_trans [rotated])
  then obtain q where q: "switch_bitpack_in oob p b = Some (0, q)" "rfc_pack_inv fb (Suc n) q"
    "length (bp_buf q) = length (bp_buf p)"
    "horner_sum uint 256 (bp_buf q) = horner_sum uint 256 (bp_buf p) + uint b * 2 ^ (fb * n)"
    using rfc_pack_step [OF Cons.prems(1), of b oob] Cons.prems(2) by auto
  obtain r where r: "pack_all oob q bs = Some r" "rfc_pack_inv fb (Suc n + length bs) r"
    "length (bp_buf r) = length (bp_buf q)"
    "horner_sum uint 256 (bp_buf r) =
      horner_sum uint 256 (bp_buf q) + 2 ^ (fb * Suc n) * horner_sum uint (2 ^ fb) bs"
    using Cons.IH [OF q(2)] Cons.prems(2,3) q(3) by auto
  have "horner_sum uint 256 (bp_buf r) = horner_sum uint 256 (bp_buf p) +
      2 ^ (fb * n) * horner_sum uint (2 ^ fb) (b # bs)"
    by (simp add: r(4) q(4) power_add algebra_simps)
  with q r show ?case by (intro exI [of _ r]) simp
qed

section \<open>RFC3551 unpacking\<close>

definition rfc_unpack_inv :: "nat \<Rightarrow> nat \<Rightarrow> bitpack \<Rightarrow> bool" where
  "rfc_unpack_inv fb m p \<longleftrightarrow>
     bp_mode p = RFC3551 \<and> unat (bp_frame_bits p) = fb \<and> 0 < fb \<and> fb \<le> 8 \<and>
     bp_buflen p = of_nat (length (bp_buf p)) \<and> length (bp_buf p) < 2 ^ 32 \<and>
     (if bp_over p = 0 then bp_under p = 0 else unat (bp_under p) + unat (bp_over p) = fb) \<and>
     fb * bp_cur p + unat (bp_under p) = 8 * m \<and>
     (bp_cur p < length (bp_buf p) \<longrightarrow> uint (bp_buf p ! bp_cur p) < 2 ^ unat (bp_under p)) \<and>
     (\<forall>i. bp_cur p < i \<and> i < length (bp_buf p) \<longrightarrow> bp_buf p ! i = 0) \<and>
     (\<forall>i < min (bp_cur p) (length (bp_buf p)). uint (bp_buf p ! i) < 2 ^ fb)"

text \<open>Inside a call: \<open>t\<close> bits of the current byte \<open>b\<close> are consumed, all at frame borders.\<close>

definition rfc_loop_inv :: "nat \<Rightarrow> nat \<Rightarrow> u8 \<Rightarrow> nat \<Rightarrow> bitpack \<Rightarrow> bool" where
  "rfc_loop_inv fb m b t p \<longleftrightarrow>
     bp_mode p = RFC3551 \<and> unat (bp_frame_bits p) = fb \<and> 0 < fb \<and> fb \<le> 8 \<and>
     bp_buflen p = of_nat (length (bp_buf p)) \<and> length (bp_buf p) < 2 ^ 32 \<and>
     bp_this_byte p = b \<and> bp_bits_cur p = of_nat t \<and> t \<le> 8 \<and> fb * bp_cur p = 8 * m + t \<and>
     (\<forall>i. bp_cur p \<le> i \<and> i < length (bp_buf p) \<longrightarrow> bp_buf p ! i = 0) \<and>
     (\<forall>i < min (bp_cur p) (length (bp_buf p)). uint (bp_buf p ! i) < 2 ^ fb)"

lemma rfc_check_over:
  assumes inv: "rfc_unpack_inv fb m p" and room: "8 * Suc m < fb * length (bp_buf p)"
    and p: "bp_this_byte p = b" "bp_bits_cur p = 0"
  shows "\<exists>q t. pack_check_over oob p = Some q \<and> rfc_loop_inv fb m b t q \<and>
    length (bp_buf q) = length (bp_buf p) \<and>
    horner_sum uint (2 ^ fb) (bp_buf q) =
      horner_sum uint (2 ^ fb) (bp_buf p) + uint b mod 2 ^ t * 2 ^ (8 * m)"
proof (cases "bp_over p = 0")
  case True
  have "rfc_loop_inv fb m b 0 p" using inv p True
    by (auto simp: rfc_loop_inv_def rfc_unpack_inv_def le_less)
  with True show ?thesis by (intro exI [of _ p] exI [of _ 0]) (simp add: pack_check_over_def)
next
  case False
  define t where "t = unat (bp_over p)"
  define u where "u = unat (bp_under p)"
  define c where "c = bp_cur p"
  note I = inv [unfolded rfc_unpack_inv_def, folded u_def t_def c_def]
  have ut: "u + t = fb" "t \<le> 8" using I False by auto
  have ov: "bp_over p = of_nat t" by (simp add: t_def)
  have tn: "unat (of_nat t :: u8) = t" using ut by (simp add: unat_of_nat)
  have c: "c < length (bp_buf p)"
  using _ room
  proof (rule cur_in_range)
    show "fb * c \<le> 8 * Suc m" using I by (simp add: mult_le_mono2)
  qed
  define v where "v = b AND mask_at BITPACKED_MASKS oob (bp_over p)"
  have v: "uint v = uint b mod 2 ^ t" using ut by (simp add: v_def uint_and_low_mask flip: t_def)
  have vl: "uint v < 2 ^ t" by (simp add: v)
  have "uint v * 2 ^ u < 2 ^ t * 2 ^ u" using vl by simp
  also have "\<dots> \<le> 2 ^ 8"
    unfolding power_add [symmetric] using ut I by (intro power_increasing) auto
  finally have s: "uint (bp_buf p ! c OR push_bit u v) = uint (bp_buf p ! c) + uint v * 2 ^ u"
    using I c by (intro uint_or_push_bit) auto
  have "(uint v + 1) * 2 ^ u \<le> 2 ^ t * 2 ^ u" using vl by (intro mult_right_mono) auto
  then have sl: "uint (bp_buf p ! c OR push_bit u v) < 2 ^ fb"
    using I c by (simp add: s distrib_right ut(1) [symmetric] power_add mult.commute)
  define B where "B = (bp_buf p)[c := bp_buf p ! c OR push_bit u v]"
  let ?q = "p\<lparr>bp_bits_cur := of_nat t, bp_buf := B, bp_cur := Suc c, bp_bytes := bp_bytes p + 1,
      bp_over := 0, bp_under := 0\<rparr>"
  have "pack_check_over oob p = Some ?q"
    using False I c p ut tn unfolding pack_check_over_def cur_or_def
    by (simp add: B_def v_def ov word_less_nat_alt flip: c_def u_def)
  moreover have "rfc_loop_inv fb m b t ?q"
    using I c p ut sl by (auto simp: rfc_loop_inv_def B_def nth_list_update less_Suc_eq)
  moreover have "horner_sum uint (2 ^ fb) B =
      horner_sum uint (2 ^ fb) (bp_buf p) + uint b mod 2 ^ t * 2 ^ (8 * m)"
  proof -
    have "(2::int) ^ (8 * m) = 2 ^ u * (2 ^ fb) ^ c" using I by (simp flip: power_mult power_add add: add.commute)
    then show ?thesis unfolding B_def horner_sum_update [OF c] s by (simp add: v algebra_simps)
  qed
  ultimately show ?thesis by (intro exI [of _ ?q] exI [of _ t]) (simp add: B_def)
qed

lemma rfc_out_loop:
  assumes "rfc_loop_inv fb m b t p" "8 * Suc m < fb * length (bp_buf p)"
  shows "\<exists>q. out_loop oob p = Some q \<and> rfc_unpack_inv fb (Suc m) q \<and>
    length (bp_buf q) = length (bp_buf p) \<and>
    horner_sum uint (2 ^ fb) (bp_buf q) =
      horner_sum uint (2 ^ fb) (bp_buf p) + uint b div 2 ^ t * 2 ^ (8 * m + t)"
  using assms
proof (induction "8 - t" arbitrary: t p rule: less_induct)
  case less
  define c where "c = bp_cur p"
  note I = less.prems(1) [unfolded rfc_loop_inv_def, folded c_def]
  have tn: "unat (of_nat t :: u8) = t" "unat (of_nat fb :: u8) = fb"
    using I by (simp_all add: unat_of_nat)
  have fbw: "bp_frame_bits p = of_nat fb" using I by auto
  have nn: "unat (of_nat (t + fb) :: u8) = t + fb" using I by (simp add: unat_of_nat del: of_nat_add)
  have c: "c < length (bp_buf p)"
  using _ less.prems(2)
  proof (rule cur_in_range)
    show "fb * c \<le> 8 * Suc m" using I by (simp add: mult_le_mono2)
  qed
  have bc: "bp_buf p ! c = 0" using I c by simp
  have w: "(2::int) ^ (8 * m + t) = (2 ^ fb) ^ c" using I by (simp flip: power_mult)
  have db: "uint (drop_bit t b) = uint b div 2 ^ t" by (rule uint_drop_bit_div)
  have b8: "uint b < 2 ^ 8" using uint_lt2p [of b] by simp
  show ?case
  proof (cases "t + fb > 8")
    case True
    define u where "u = 8 - t"
    define v where "v = t + fb - 8"
    have uv: "u + t = 8" "u + v = fb" "0 < v" "v \<le> 8" using True I by (auto simp: u_def v_def)
    have vw: "of_nat (t + fb) - 8 = (of_nat v :: u8)" using True by (simp add: v_def of_nat_diff)
    have uw: "of_nat fb - of_nat v = (of_nat u :: u8)" unfolding uv(2) [symmetric] by simp
    have tw: "8 - of_nat u = (of_nat t :: u8)"
      using uv(1) by (metis add_diff_cancel_left' of_nat_add of_nat_numeral)
    have n: "unat (of_nat u :: u8) = u" "unat (of_nat v :: u8) = v" using uv by (simp_all add: unat_of_nat)
    have d: "drop_bit t (b AND mask_at REVERSE_BITPACKED_MASKS oob (of_nat t)) = drop_bit t b"
      using drop_bit_high_mask [of "of_nat t" b oob] I by (simp add: tn)
    define B where "B = (bp_buf p)[c := drop_bit t b]"
    let ?q = "p\<lparr>bp_over := of_nat v, bp_under := of_nat u, bp_buf := B\<rparr>"
    have "out_loop oob p = Some ?q"
      using True I c bc nn
      by (subst out_loop.simps)
         (simp add: Let_def word_less_nat_alt tn fbw vw uw tw d [unfolded drop_bit_and] B_def cur_or_def del: of_nat_add
               flip: c_def of_nat_add)
    moreover have "rfc_unpack_inv fb (Suc m) ?q"
    proof -
      have "uint b < 2 ^ u * 2 ^ t" using b8 uv(1) by (simp flip: power_add)
      then have "uint (drop_bit t b) < 2 ^ u"
        unfolding db using div_between(2) [of "2 ^ t" 0 "uint b" "2 ^ u"] by simp
      moreover have "(of_nat v :: u8) \<noteq> 0" using n uv(3) by (metis less_numeral_extra(3) unat_0)
      ultimately show ?thesis using I c uv n
        by (auto simp: rfc_unpack_inv_def B_def c_def nth_list_update)
    qed
    moreover have "horner_sum uint (2 ^ fb) B =
        horner_sum uint (2 ^ fb) (bp_buf p) + uint b div 2 ^ t * 2 ^ (8 * m + t)"
      unfolding B_def horner_sum_update [OF c] w db by (simp add: bc)
    ultimately show ?thesis by (intro exI [of _ ?q]) (simp add: B_def)
  next
    case False
    define v where "v = drop_bit t b AND mask_at BITPACKED_MASKS oob (of_nat fb)"
    have v: "uint v = uint b div 2 ^ t mod 2 ^ fb"
      using I by (simp add: v_def uint_and_low_mask tn db)
    define B where "B = (bp_buf p)[c := v]"
    let ?p = "p\<lparr>bp_buf := B, bp_cur := Suc c, bp_bits_cur := of_nat (t + fb), bp_bytes := bp_bytes p + 1\<rparr>"
    have step: "out_loop oob p = out_loop oob ?p"
      using False I c bc nn
      by (subst out_loop.simps)
         (simp add: Let_def word_less_nat_alt tn fbw B_def v_def cur_or_def del: of_nat_add
               flip: c_def of_nat_add)
    have inv: "rfc_loop_inv fb m b (t + fb) ?p"
      using I c False v by (auto simp: rfc_loop_inv_def B_def nth_list_update less_Suc_eq)
    have "0 < fb" "t + fb \<le> 8" using I False by auto
    then have "8 - (t + fb) < 8 - t" by simp
    then obtain q where q: "out_loop oob ?p = Some q" "rfc_unpack_inv fb (Suc m) q"
      "length (bp_buf q) = length B"
      "horner_sum uint (2 ^ fb) (bp_buf q) =
        horner_sum uint (2 ^ fb) B + uint b div 2 ^ (t + fb) * 2 ^ (8 * m + (t + fb))"
      using less.hyps [OF _ inv] less.prems(2) by (auto simp: B_def)
    have "horner_sum uint (2 ^ fb) B = horner_sum uint (2 ^ fb) (bp_buf p) + uint v * 2 ^ (8 * m + t)"
      unfolding B_def horner_sum_update [OF c] w by (simp add: bc)
    moreover have "uint v * 2 ^ (8 * m + t) + uint b div 2 ^ (t + fb) * 2 ^ (8 * m + (t + fb)) =
        uint b div 2 ^ t * 2 ^ (8 * m + t)"
    proof -
      have "uint b div 2 ^ (t + fb) = uint b div 2 ^ t div 2 ^ fb"
        unfolding power_add by (rule zdiv_zmult2_eq) simp
      moreover have "(2::int) ^ (8 * m + (t + fb)) = 2 ^ (8 * m + t) * 2 ^ fb"
        by (simp only: power_add [symmetric] add.assoc)
      ultimately show ?thesis unfolding v by (simp only: mod_div_weights)
    qed
    ultimately show ?thesis using q step by (intro exI [of _ q]) (simp add: B_def)
  qed
qed

lemma rfc_unpack_step:
  assumes inv: "rfc_unpack_inv fb m p" and room: "8 * Suc m < fb * length (bp_buf p)"
  shows "\<exists>q. switch_bitpack_out oob p b = Some (0, q) \<and> rfc_unpack_inv fb (Suc m) q \<and>
    length (bp_buf q) = length (bp_buf p) \<and>
    horner_sum uint (2 ^ fb) (bp_buf q) = horner_sum uint (2 ^ fb) (bp_buf p) + uint b * 2 ^ (8 * m)"
proof -
  have c: "bp_cur p < length (bp_buf p)"
  using _ room
  proof (rule cur_in_range)
    show "fb * bp_cur p \<le> 8 * Suc m" using inv unfolding rfc_unpack_inv_def by simp
  qed
  let ?p = "p\<lparr>bp_bits_cur := 0, bp_this_byte := b\<rparr>"
  have g: "\<not> (of_nat (bp_cur p) > bp_buflen p)"
    using guard_ok [OF c] inv by (simp add: rfc_unpack_inv_def)
  have "rfc_unpack_inv fb m ?p" using inv by (simp add: rfc_unpack_inv_def)
  then obtain q t where q: "pack_check_over oob ?p = Some q" "rfc_loop_inv fb m b t q"
    "length (bp_buf q) = length (bp_buf p)"
    "horner_sum uint (2 ^ fb) (bp_buf q) = horner_sum uint (2 ^ fb) (bp_buf p) + uint b mod 2 ^ t * 2 ^ (8 * m)"
    using rfc_check_over [of fb m ?p b oob] room by auto
  obtain r where r: "out_loop oob q = Some r" "rfc_unpack_inv fb (Suc m) r"
    "length (bp_buf r) = length (bp_buf q)"
    "horner_sum uint (2 ^ fb) (bp_buf r) =
      horner_sum uint (2 ^ fb) (bp_buf q) + uint b div 2 ^ t * 2 ^ (8 * m + t)"
    using rfc_out_loop [OF q(2), of oob] room q(3) by auto
  have "uint b mod 2 ^ t * 2 ^ (8 * m) + uint b div 2 ^ t * 2 ^ (8 * m + t) = uint b * 2 ^ (8 * m)"
    unfolding power_add by (rule mod_div_weights)
  then show ?thesis using q r g by (intro exI [of _ r]) (simp add: switch_bitpack_out_def)
qed

lemma rfc_unpack_all:
  assumes "rfc_unpack_inv fb m p" "8 * (m + length bs) < fb * length (bp_buf p)"
  shows "\<exists>q. unpack_all oob p bs = Some q \<and> rfc_unpack_inv fb (m + length bs) q \<and>
    length (bp_buf q) = length (bp_buf p) \<and>
    horner_sum uint (2 ^ fb) (bp_buf q) =
      horner_sum uint (2 ^ fb) (bp_buf p) + 2 ^ (8 * m) * horner_sum uint 256 bs"
  using assms
proof (induction bs arbitrary: p m)
  case Nil
  then show ?case by simp
next
  case (Cons b bs)
  have "8 * Suc m < fb * length (bp_buf p)" using Cons.prems(2) by simp
  then obtain q where q: "switch_bitpack_out oob p b = Some (0, q)" "rfc_unpack_inv fb (Suc m) q"
    "length (bp_buf q) = length (bp_buf p)"
    "horner_sum uint (2 ^ fb) (bp_buf q) = horner_sum uint (2 ^ fb) (bp_buf p) + uint b * 2 ^ (8 * m)"
    using rfc_unpack_step [OF Cons.prems(1), of oob b] by auto
  obtain r where r: "unpack_all oob q bs = Some r" "rfc_unpack_inv fb (Suc m + length bs) r"
    "length (bp_buf r) = length (bp_buf q)"
    "horner_sum uint (2 ^ fb) (bp_buf r) =
      horner_sum uint (2 ^ fb) (bp_buf q) + 2 ^ (8 * Suc m) * horner_sum uint 256 bs"
    using Cons.IH [OF q(2)] Cons.prems(2) q(3) by auto
  have "horner_sum uint (2 ^ fb) (bp_buf r) = horner_sum uint (2 ^ fb) (bp_buf p) +
      2 ^ (8 * m) * horner_sum uint 256 (b # bs)"
    by (simp add: r(4) q(4) power_add algebra_simps)
  with q r show ?case by (intro exI [of _ r]) simp
qed

section \<open>Whole buffers\<close>

lemma init_simps:
  "switch_bitpack_init (Some p0) k (Some mem) n md = Some (0, Some p) \<longleftrightarrow>
     k \<le> 8 \<and> n \<noteq> 0 \<and> unat n \<le> length mem \<and>
     p = \<lparr>bp_buf = replicate (unat n) 0 @ drop (unat n) mem, bp_buflen = n,
          bp_cur = 0, bp_bytes = 0, bp_bits_tot = 0, bp_bits_cur = 0, bp_bits_rem = 0,
          bp_frame_bits = k, bp_shiftby = 0, bp_this_byte = 0, bp_under = 0,
          bp_over = 0, bp_mode = md\<rparr>"
  by (auto simp: switch_bitpack_init_def not_le not_less)

lemma init_rfc:
  assumes "switch_bitpack_init (Some p0) k (Some mem) n RFC3551 = Some (0, Some p)"
    and "k \<noteq> 0" "length mem = unat n"
  shows "rfc_pack_inv (unat k) 0 p" "rfc_unpack_inv (unat k) 0 p"
    "length (bp_buf p) = unat n" "horner_sum uint B (bp_buf p) = (0::int)"
proof -
  have k: "0 < unat k" "unat k \<le> 8"
    using assms by (auto simp: init_simps word_le_nat_alt unat_gt_0)
  have n: "unat n < 2 ^ 32" using unsigned_less [of n] by simp
  show "rfc_pack_inv (unat k) 0 p" "rfc_unpack_inv (unat k) 0 p" "length (bp_buf p) = unat n"
    using assms k n by (auto simp: init_simps rfc_pack_inv_def rfc_unpack_inv_def)
  show "horner_sum uint B (bp_buf p) = (0::int)"
    using assms by (intro horner_sum_zero_digits) (auto simp: init_simps)
qed

lemma rfc_done_bytes:
  assumes "rfc_pack_inv fb n p"
  shows "switch_bitpack_done oob p = Some (0, p\<lparr>bp_bytes := of_nat ((fb * n + 7) div 8)\<rparr>)"
proof -
  define t where "t = unat (bp_bits_cur p)"
  have I: "fb * n = 8 * bp_cur p + t" "t < 8" "bp_bytes p = of_nat (bp_cur p)" "bp_mode p = RFC3551"
    "bp_over p = 0"
    using assms by (simp_all add: rfc_pack_inv_def t_def)
  show ?thesis
  proof (cases "t = 0")
    case True
    then have "bp_bits_cur p = 0" "(fb * n + 7) div 8 = bp_cur p"
      using I by (simp_all add: t_def unat_eq_0)
    then show ?thesis using I by (simp add: switch_bitpack_done_def)
  next
    case False
    have d: "(fb * n + 7) div 8 = Suc (bp_cur p)" unfolding I(1) using I(2) False by simp
    have "bp_bits_cur p \<noteq> 0" "bp_bits_cur p < 8"
      using False I(2) by (auto simp: t_def word_less_nat_alt)
    then show ?thesis unfolding d using I(3,4,5) by (simp add: switch_bitpack_done_def)
  qed
qed

lemma rfc_unpack_digits:
  assumes "rfc_unpack_inv fb m p" "x \<in> set (bp_buf p)"
  shows "uint x < 2 ^ fb"
proof -
  obtain i where i: "i < length (bp_buf p)" "x = bp_buf p ! i" using assms(2) by (metis in_set_conv_nth)
  have u: "(2::int) ^ unat (bp_under p) \<le> 2 ^ fb"
    using assms(1) by (intro power_increasing) (auto simp: rfc_unpack_inv_def split: if_splits)
  consider "i < bp_cur p" | "i = bp_cur p" | "bp_cur p < i" by linarith
  then show ?thesis
  proof cases
    case 2
    then have "uint x < 2 ^ unat (bp_under p)" using assms(1) i by (simp add: rfc_unpack_inv_def)
    then show ?thesis using u by linarith
  qed (use assms(1) i in \<open>simp_all add: rfc_unpack_inv_def\<close>)
qed

text \<open>A packer over an all-zero buffer of \<open>n\<close> bytes, as \<^verbatim>\<open>switch_bitpack_init\<close> leaves it.\<close>

definition empty_pack :: "u8 \<Rightarrow> u32 \<Rightarrow> bitpack_mode \<Rightarrow> bitpack" where
  "empty_pack k n md = \<lparr>bp_buf = replicate (unat n) 0, bp_buflen = n, bp_cur = 0, bp_bytes = 0,
     bp_bits_tot = 0, bp_bits_cur = 0, bp_bits_rem = 0, bp_frame_bits = k, bp_shiftby = 0,
     bp_this_byte = 0, bp_under = 0, bp_over = 0, bp_mode = md\<rparr>"

section \<open>Properties\<close>

text \<open>
  C24: RFC3551 packing lays the frames out as the digits of one number: after a packer has
  been initialised and fed frames that fit into the buffer, no call fails or leaves the
  buffer, the bytes read as a little-endian number are the frames read as a number in base
  \<open>2 ^ bitlen\<close>, and \<^verbatim>\<open>switch_bitpack_done\<close> reports the number of bytes in use.
\<close>

theorem bitpack_rfc_value:
  assumes "switch_bitpack_init (Some p0) bitlen (Some mem) buflen RFC3551 = Some (0, Some p)"
    and "bitlen \<noteq> 0" "length mem = unat buflen"
    and "\<forall>b \<in> set bs. uint b < 2 ^ unat bitlen" "unat bitlen * length bs \<le> 8 * length mem"
  shows "\<exists>q. (do { q \<leftarrow> pack_all oob p bs; switch_bitpack_done oob q }) = Some (0, q) \<and>
    length (bp_buf q) = length mem \<and>
    horner_sum uint 256 (bp_buf q) = horner_sum uint (2 ^ unat bitlen) bs \<and>
    bp_bytes q = of_nat ((unat bitlen * length bs + 7) div 8)"
proof -
  note i = init_rfc [OF assms(1-3)]
  obtain q where q: "pack_all oob p bs = Some q" "rfc_pack_inv (unat bitlen) (length bs) q"
    "length (bp_buf q) = length (bp_buf p)"
    "horner_sum uint 256 (bp_buf q) = horner_sum uint (2 ^ unat bitlen) bs"
    using rfc_pack_all [OF i(1), of bs oob] assms(3-5) i(3,4) by auto
  then show ?thesis using assms(3) i(3) by (simp add: rfc_done_bytes [OF q(2)])
qed

lemma bitpack_rfc_value_witness:
  "\<exists>q. (do { q \<leftarrow> pack_all 0 (empty_pack 5 2 RFC3551) [17, 3, 30]; switch_bitpack_done 0 q }) = Some (0, q) \<and>
    length (bp_buf q) = length [7, 9 :: u8] \<and> horner_sum uint 256 (bp_buf q) = 17 + 3 * 32 + 30 * 1024 \<and> bp_bytes q = 2"
proof -
  have "switch_bitpack_init (Some (empty_pack 0 0 AAL2)) 5 (Some [7, 9]) 2 RFC3551 = Some (0, Some (empty_pack 5 2 RFC3551))"
    by (simp add: init_simps empty_pack_def)
  from bitpack_rfc_value [OF this, of "[17, 3, 30]" 0] show ?thesis by (simp del: pack_all.simps)
qed

text \<open>
  C23: Unpacking inverts packing: the bytes of a packed RFC3551 buffer, unpacked with the same
  frame size into a frame buffer that is large enough, give back the packed frames, followed
  by zero frames.
\<close>

theorem bitpack_rfc_roundtrip:
  assumes "switch_bitpack_init (Some p0) bitlen (Some mem) buflen RFC3551 = Some (0, Some p)"
    and "switch_bitpack_init (Some u0) bitlen (Some mem') buflen' RFC3551 = Some (0, Some u)"
    and "bitlen \<noteq> 0" "length mem = unat buflen" "length mem' = unat buflen'"
    and "\<forall>b \<in> set bs. uint b < 2 ^ unat bitlen" "unat bitlen * length bs \<le> 8 * length mem"
    and "8 * length mem < unat bitlen * length mem'"
  shows "\<exists>q r. pack_all oob p bs = Some q \<and> unpack_all oob u (bp_buf q) = Some r \<and>
    bp_buf r = bs @ replicate (length mem' - length bs) 0"
proof -
  let ?fb = "unat bitlen" and ?z = "replicate (length mem' - length bs) (0 :: u8)"
  note i = init_rfc [OF assms(1,3,4)] and j = init_rfc [OF assms(2,3,5)]
  obtain q where q: "pack_all oob p bs = Some q"
    "length (bp_buf q) = length (bp_buf p)"
    "horner_sum uint 256 (bp_buf q) = horner_sum uint (2 ^ ?fb) bs"
    using rfc_pack_all [OF i(1), of bs oob] assms(4,6,7) i(3,4) by auto
  obtain r where r: "unpack_all oob u (bp_buf q) = Some r" "rfc_unpack_inv ?fb (length (bp_buf q)) r"
    "length (bp_buf r) = length (bp_buf u)"
    "horner_sum uint (2 ^ ?fb) (bp_buf r) = horner_sum uint 256 (bp_buf q)"
    using rfc_unpack_all [OF j(2), of "bp_buf q" oob] assms(4,5,8) i(3) j(3,4) q(2) by auto
  have "?fb * length bs < ?fb * length mem'" using assms(7,8) by (rule le_less_trans)
  then have l: "length bs < length mem'" using mult_less_cancel1 by blast
  have d: "x \<in> set (bp_buf r) \<Longrightarrow> uint x < 2 ^ ?fb" for x
    using rfc_unpack_digits [OF r(2)] by blast
  have "map uint (bp_buf r) = map uint (bs @ ?z)"
  proof (rule horner_sum_digits_unique [where B = "2 ^ ?fb"])
    show "length (bp_buf r) = length (bs @ ?z)" using r(3) j(3) assms(5) l by simp
    have "horner_sum uint (2 ^ ?fb) ?z = (0::int)" by (rule horner_sum_zero_digits) simp
    then show "horner_sum uint (2 ^ ?fb) (bp_buf r) = horner_sum uint (2 ^ ?fb) (bs @ ?z)"
      using r(4) q(3) by (simp add: horner_sum_append)
    fix x assume "x \<in> set (bp_buf r) \<union> set (bs @ ?z)"
    then show "0 \<le> uint x \<and> uint x < 2 ^ ?fb" using d assms(6) by auto
  qed
  then have "bp_buf r = bs @ ?z" by (simp only: inj_map_eq_map [OF injI [OF word_uint_eqI]])
  with q r show ?thesis by blast
qed

lemma bitpack_rfc_roundtrip_witness:
  "\<exists>q r. pack_all 0 (empty_pack 5 2 RFC3551) [17, 3, 30] = Some q \<and>
    unpack_all 0 (empty_pack 5 4 RFC3551) (bp_buf q) = Some r \<and> bp_buf r = [17, 3, 30, 0]"
proof -
  have "switch_bitpack_init (Some (empty_pack 0 0 AAL2)) 5 (Some [7, 9]) 2 RFC3551 = Some (0, Some (empty_pack 5 2 RFC3551))"
    "switch_bitpack_init (Some (empty_pack 0 0 AAL2)) 5 (Some [1, 2, 3, 4]) 4 RFC3551 = Some (0, Some (empty_pack 5 4 RFC3551))"
    by (simp_all add: init_simps empty_pack_def)
  from bitpack_rfc_roundtrip [OF this, of "[17, 3, 30]" 0] show ?thesis by (simp del: pack_all.simps)
qed

text \<open>
  C28: A full buffer is not reported: the guard of both directions compares \<^verbatim>\<open>cur - buf\<close> with
  \<^verbatim>\<open>>\<close> instead of \<^verbatim>\<open>>=\<close>, so when every byte of the buffer is written the next call passes
  the guard, and writes behind the buffer.
\<close>

theorem bitpack_full_not_reported:
  assumes "length (bp_buf p) < 2 ^ 32" "bp_buflen p = of_nat (length (bp_buf p))"
    and "bp_cur p = length (bp_buf p)" "bp_frame_bits p \<le> 8" "bp_bits_cur p \<le> 8"
  shows "switch_bitpack_in oob p b = None \<and> switch_bitpack_out oob p b = None"
proof
  have g: "\<not> (of_nat (bp_cur p) > bp_buflen p)" using assms by simp
  have o: "cur_or v q = None" "cur_shl v q = None" if "bp_cur q = bp_cur p" "bp_buf q = bp_buf p" for v q
    using that assms(3) by (simp_all add: cur_or_def cur_shl_def)
  show "switch_bitpack_in oob p b = None" using g o by (simp add: switch_bitpack_in_def Let_def)
  have "out_loop oob q = None" if "bp_cur q = bp_cur p" "bp_buf q = bp_buf p" "bp_bits_cur q = 0" for q
    using that o by (subst out_loop.simps) (simp add: Let_def)
  then show "switch_bitpack_out oob p b = None" using g o
    by (simp add: switch_bitpack_out_def pack_check_over_def Let_def)
qed

lemma bitpack_full_not_reported_witness:
  "\<exists>p. pack_all 0 (empty_pack 8 2 RFC3551) [17, 3] = Some p \<and>
    switch_bitpack_in 0 p 5 = None \<and> switch_bitpack_out 0 p 5 = None"
proof -
  let ?p = "(empty_pack 8 2 RFC3551)\<lparr>bp_buf := [17, 3], bp_cur := 2, bp_bytes := 2, bp_bits_tot := 16\<rparr>"
  have "pack_all 0 (empty_pack 8 2 RFC3551) [17, 3] = Some ?p"
    by code_simp
  moreover have "switch_bitpack_in 0 ?p 5 = None \<and> switch_bitpack_out 0 ?p 5 = None"
    by (rule bitpack_full_not_reported) (simp_all add: empty_pack_def)
  ultimately show ?thesis by blast
qed

lemma out_loop_zero_bits:
  "bp_frame_bits p = 0 \<Longrightarrow> bp_bits_cur p = 0 \<Longrightarrow> out_loop oob p = None"
proof (induction "length (bp_buf p) - bp_cur p" arbitrary: p rule: less_induct)
  case less
  have m: "mask_at BITPACKED_MASKS oob 0 = 0" by (simp add: mask_at_def BITPACKED_MASKS_def)
  show ?case
  proof (cases "cur_or 0 p")
    case None
    with less.prems m show ?thesis by (subst out_loop.simps) (simp add: Let_def)
  next
    case (Some q)
    then have "out_loop oob (q\<lparr>bp_cur := Suc (bp_cur q), bp_bits_cur := 0, bp_bytes := bp_bytes q + 1\<rparr>) = None"
      using less.prems by (intro less.hyps) (auto simp: cur_or_def split: if_splits)
    with Some less.prems m show ?thesis by (subst out_loop.simps) (simp add: Let_def)
  qed
qed

text \<open>
  \<^verbatim>\<open>switch_bitpack_init\<close> accepts a frame size of 0 bits, and with it
  \<^verbatim>\<open>switch_bitpack_out\<close> never leaves its loop inside the buffer: each round advances \<^verbatim>\<open>cur\<close>
  and not \<^verbatim>\<open>bits_cur\<close>, so that every call runs over the end.
\<close>

lemma bitpack_zero_bits_overruns:
  "switch_bitpack_init (Some p0) 0 (Some mem) buflen md = Some (0, Some p) \<Longrightarrow>
     switch_bitpack_out oob p b = None"
  by (auto simp: init_simps switch_bitpack_out_def pack_check_over_def out_loop_zero_bits)

lemma bitpack_zero_bits_overruns_witness:
  "switch_bitpack_out 0 (empty_pack 0 3 AAL2) 200 = None"
proof (rule bitpack_zero_bits_overruns)
  show "switch_bitpack_init (Some (empty_pack 1 1 AAL2)) 0 (Some [1, 2, 3]) 3 AAL2 = Some (0, Some (empty_pack 0 3 AAL2))"
    by (simp add: init_simps empty_pack_def)
qed

end
