(* ===== verification/Uuidv7.thy ===== *)
theory Uuidv7
  imports Prelude
begin

unbundle bit_operations_syntax

text \<open>
  UUID version 7 as in
  \<^verbatim>\<open>crates/fswtch-src/freeswitch/src/include/private/switch_uuidv7_pvt.h\<close>:
  generation from a time stamp, random bytes and the preceding UUID, and the textual form.
  A UUID is the list of its 16 bytes. \<^verbatim>\<open>uuid_out\<close> and \<^verbatim>\<open>uuid_prev\<close> may be the same array
  in the code; it reads \<^verbatim>\<open>uuid_prev\<close> completely before the first write, so passing its
  value loses nothing. A C string is the list of the characters before its NUL.
\<close>

section \<open>Generation\<close>

definition STATUS_UNPRECEDENTED :: int where [cval]: "STATUS_UNPRECEDENTED = 0"
definition STATUS_NEW_TIMESTAMP :: int where [cval]: "STATUS_NEW_TIMESTAMP = 1"
definition STATUS_COUNTER_INC :: int where [cval]: "STATUS_COUNTER_INC = 2"
definition STATUS_TIMESTAMP_INC :: int where [cval]: "STATUS_TIMESTAMP_INC = 3"
definition STATUS_CLOCK_ROLLBACK :: int where [cval]: "STATUS_CLOCK_ROLLBACK = 4"
definition STATUS_ERR_TIMESTAMP :: int where [cval]: "STATUS_ERR_TIMESTAMP = -1"
definition STATUS_ERR_TIMESTAMP_OVERFLOW :: int where [cval]: "STATUS_ERR_TIMESTAMP_OVERFLOW = -2"

definition MAX_TIMESTAMP :: u64 where [cval]: "MAX_TIMESTAMP = push_bit 48 1 - 1"
definition MAX_COUNTER :: u64 where [cval]: "MAX_COUNTER = push_bit 42 1 - 1"

text \<open>The two reads of the preceding UUID.\<close>

definition prev_timestamp :: "u8 list \<Rightarrow> u64" where
  "prev_timestamp prev = foldl (\<lambda>t i. push_bit 8 t OR ucast (prev ! i)) 0 [0..<6]"

definition prev_counter :: "u8 list \<Rightarrow> u64" where
  "prev_counter prev =
     (let c = ucast (prev ! 6 AND 0x0f);
          c = push_bit 8 c OR ucast (prev ! 7);
          c = push_bit 6 c OR ucast (prev ! 8 AND 0x3f);
          c = push_bit 8 c OR ucast (prev ! 9);
          c = push_bit 8 c OR ucast (prev ! 10)
      in push_bit 8 c OR ucast (prev ! 11))"

text \<open>The writes: the counter bytes, the time stamp, the random bytes, version and variant.\<close>

definition put_counter :: "u64 \<Rightarrow> u8 list \<Rightarrow> u8 list" where
  "put_counter c out = out[6 := ucast (drop_bit 38 c), 7 := ucast (drop_bit 30 c), 8 := ucast (drop_bit 24 c),
     9 := ucast (drop_bit 16 c), 10 := ucast (drop_bit 8 c), 11 := ucast c]"

definition put_timestamp :: "u64 \<Rightarrow> u8 list \<Rightarrow> u8 list" where
  "put_timestamp t out = out[0 := ucast (drop_bit 40 t), 1 := ucast (drop_bit 32 t), 2 := ucast (drop_bit 24 t),
     3 := ucast (drop_bit 16 t), 4 := ucast (drop_bit 8 t), 5 := ucast t]"

definition put_random :: "nat \<Rightarrow> u8 list \<Rightarrow> u8 list \<Rightarrow> u8 list" where
  "put_random i0 rand out = foldl (\<lambda>out i. out[i := rand ! (i - i0)]) out [i0..<16]"

definition put_version :: "u8 list \<Rightarrow> u8 list" where
  "put_version out = (let out = out[6 := 0x70 OR (out ! 6 AND 0x0f)] in out[8 := 0x80 OR (out ! 8 AND 0x3f)])"

definition put_rest :: "int \<Rightarrow> u64 \<Rightarrow> u8 list \<Rightarrow> u8 list \<Rightarrow> int \<times> u8 list" where
  "put_rest status timestamp rand out =
     (status, put_version (put_random (if status = STATUS_COUNTER_INC then 12 else 6) rand (put_timestamp timestamp out)))"

definition uuidv7_generate :: "u8 list \<Rightarrow> u64 \<Rightarrow> u8 list \<Rightarrow> u8 list option \<Rightarrow> int \<times> u8 list" where
  "uuidv7_generate out unix_ts_ms rand prev =
     (if unix_ts_ms > MAX_TIMESTAMP then (STATUS_ERR_TIMESTAMP, out)
      else case prev of
        None \<Rightarrow> put_rest STATUS_UNPRECEDENTED unix_ts_ms rand out
      | Some p \<Rightarrow>
          (let timestamp = prev_timestamp p in
           if unix_ts_ms > timestamp then put_rest STATUS_NEW_TIMESTAMP unix_ts_ms rand out
           else if unix_ts_ms + 10000 < timestamp then put_rest STATUS_CLOCK_ROLLBACK unix_ts_ms rand out
           else
             (let counter = prev_counter p in
              if counter < MAX_COUNTER
              then put_rest STATUS_COUNTER_INC timestamp rand (put_counter (counter + 1) out)
              else if timestamp + 1 > MAX_TIMESTAMP then (STATUS_ERR_TIMESTAMP_OVERFLOW, out)
              else put_rest STATUS_TIMESTAMP_INC (timestamp + 1) rand out)))"

definition uuidv7_status_n_rand_consumed :: "int \<Rightarrow> int" where
  "uuidv7_status_n_rand_consumed status = (if status = STATUS_COUNTER_INC then 4 else 10)"

section \<open>Text\<close>

definition DIGITS :: string where [cval]: "DIGITS = ''0123456789abcdef''"

definition uuidv7_to_string :: "u8 list \<Rightarrow> string" where
  "uuidv7_to_string uuid =
     concat (map (\<lambda>i. [DIGITS ! unat (drop_bit 4 (uuid ! i)), DIGITS ! unat (uuid ! i AND 15)] @
       (if i = 3 \<or> i = 5 \<or> i = 7 \<or> i = 9 then ''-'' else [])) [0..<16])"

text \<open>The chain of comparisons of a character with the 22 digits, as a table.\<close>

definition hex_digit :: "char \<Rightarrow> u8" where
  "hex_digit c =
     (case map_of (zip ''0123456789abcdefABCDEF''
            [0, 1, 2, 3, 4, 5, 6, 7, 8, 9, 10, 11, 12, 13, 14, 15, 10, 11, 12, 13, 14, 15]) c of
        Some x \<Rightarrow> x | None \<Rightarrow> 0xff)"

text \<open>\<^verbatim>\<open>*string\<close>: behind the last character stands the NUL.\<close>

definition str_hd :: "string \<Rightarrow> char" where
  "str_hd s = (case s of [] \<Rightarrow> CHR 0x00 | c # _ \<Rightarrow> c)"

fun from_string_loop :: "nat list \<Rightarrow> string \<Rightarrow> u8 list \<Rightarrow> int \<times> u8 list" where
  "from_string_loop [] s out = (if str_hd s \<noteq> CHR 0x00 then (-1, out) else (0, out))"
| "from_string_loop (i # is) s out =
     (let x = hex_digit (str_hd s); s = tl s in
      if x = 0xff then (-1, out)
      else
        let out = (if i AND 1 = 0 then out[i div 2 := push_bit 4 x] else out[i div 2 := out ! (i div 2) OR x]) in
        if i = 7 \<or> i = 11 \<or> i = 15 \<or> i = 19 then
          (if str_hd s \<noteq> CHR ''-'' then (-1, out) else from_string_loop is (tl s) out)
        else from_string_loop is s out)"

definition uuidv7_from_string :: "string \<Rightarrow> u8 list \<Rightarrow> int \<times> u8 list" where
  "uuidv7_from_string s out = from_string_loop [0..<32] s out"

section \<open>Fields of a UUID\<close>

text \<open>A UUID as the big-endian number its bytes form, which \<^verbatim>\<open>memcmp\<close> compares.\<close>

definition uuid_value :: "u8 list \<Rightarrow> int" where
  "uuid_value u = horner_sum uint 256 (rev u)"

definition uuid_valid :: "u8 list \<Rightarrow> bool" where
  "uuid_valid u \<longleftrightarrow> length u = 16 \<and> drop_bit 4 (u ! 6) = 7 \<and> drop_bit 6 (u ! 8) = 2"

lemma uint_join:
  fixes c :: u64 and b :: u8
  assumes "uint b < 2 ^ k" "k \<le> 8" "uint c * 2 ^ k < 2 ^ 64"
  shows "uint (push_bit k c OR ucast b) = uint c * 2 ^ k + uint b"
proof -
  have b: "uint (ucast b :: u64) = uint b" 
    by (simp add: unsigned_ucast_eq take_bit_int_eq_self order_less_le_trans [OF uint_lt2p])
  have "uint (ucast b OR push_bit k c) = uint (ucast b :: u64) + uint c * 2 ^ k"
    using assms by (intro uint_or_push_bit) (simp_all add: b)
  then show ?thesis by (simp add: or.commute b)
qed

lemma uint_u8: "0 \<le> uint (b :: u8)" "uint (b :: u8) < 256"
  using uint_lt2p [of b] by auto

lemma uint_low_byte:
  fixes b :: u8
  shows "uint (b AND 0x0f) = uint b mod 16" "uint (b AND 0x3f) = uint b mod 64"
  using uint_take_bit_mod [of 4 b] uint_take_bit_mod [of 6 b]
  by (simp_all add: take_bit_eq_mask mask_eq_exp_minus_1)

lemma upt_six: "[0..<6] = [0, 1, 2, 3, 4, 5 :: nat]"
  by (simp add: upt_rec)

lemma prev_timestamp_value:
  "uint (prev_timestamp u) = uint (u ! 0) * 2 ^ 40 + uint (u ! 1) * 2 ^ 32 + uint (u ! 2) * 2 ^ 24 +
     uint (u ! 3) * 2 ^ 16 + uint (u ! 4) * 2 ^ 8 + uint (u ! 5)"
proof -
  note b = uint_u8 [of "u ! 0"] uint_u8 [of "u ! 1"] uint_u8 [of "u ! 2"] uint_u8 [of "u ! 3"]
    uint_u8 [of "u ! 4"] uint_u8 [of "u ! 5"]
  define t0 :: u64 where "t0 = push_bit 8 0 OR ucast (u ! 0)"
  define t1 where "t1 = push_bit 8 t0 OR ucast (u ! 1)"
  define t2 where "t2 = push_bit 8 t1 OR ucast (u ! 2)"
  define t3 where "t3 = push_bit 8 t2 OR ucast (u ! 3)"
  define t4 where "t4 = push_bit 8 t3 OR ucast (u ! 4)"
  define t5 where "t5 = push_bit 8 t4 OR ucast (u ! 5)"
  have "uint t0 = uint (u ! 0)" unfolding t0_def using b by (subst uint_join) auto
  moreover from this have "uint t1 = uint t0 * 2 ^ 8 + uint (u ! 1)" unfolding t1_def using b by (intro uint_join) auto
  moreover from calculation have "uint t2 = uint t1 * 2 ^ 8 + uint (u ! 2)" unfolding t2_def using b by (intro uint_join) auto
  moreover from calculation have "uint t3 = uint t2 * 2 ^ 8 + uint (u ! 3)" unfolding t3_def using b by (intro uint_join) auto
  moreover from calculation have "uint t4 = uint t3 * 2 ^ 8 + uint (u ! 4)" unfolding t4_def using b by (intro uint_join) auto
  moreover from calculation have "uint t5 = uint t4 * 2 ^ 8 + uint (u ! 5)" unfolding t5_def using b by (intro uint_join) auto
  moreover have "prev_timestamp u = t5"
    by (simp only: prev_timestamp_def upt_six foldl.simps t0_def t1_def t2_def t3_def t4_def t5_def)
  ultimately show ?thesis by simp
qed

lemma prev_counter_value:
  "uint (prev_counter u) = uint (u ! 6) mod 16 * 2 ^ 38 + uint (u ! 7) * 2 ^ 30 +
     (uint (u ! 8) mod 64 * 2 ^ 24 + uint (u ! 9) * 2 ^ 16 + uint (u ! 10) * 2 ^ 8 + uint (u ! 11))"
proof -
  define m6 m8 where "m6 = uint (u ! 6) mod 16" and "m8 = uint (u ! 8) mod 64"
  have m: "0 \<le> m6" "m6 < 16" "0 \<le> m8" "m8 < 64" by (simp_all add: m6_def m8_def)
  note b = m uint_u8 [of "u ! 6"] uint_u8 [of "u ! 7"] uint_u8 [of "u ! 8"] uint_u8 [of "u ! 9"]
    uint_u8 [of "u ! 10"] uint_u8 [of "u ! 11"] uint_low_byte(1) [of "u ! 6", folded m6_def]
    uint_low_byte(2) [of "u ! 8", folded m8_def]
  define t0 :: u64 where "t0 = ucast (u ! 6 AND 0x0f)"
  define t1 where "t1 = push_bit 8 t0 OR ucast (u ! 7)"
  define t2 where "t2 = push_bit 6 t1 OR ucast (u ! 8 AND 0x3f)"
  define t3 where "t3 = push_bit 8 t2 OR ucast (u ! 9)"
  define t4 where "t4 = push_bit 8 t3 OR ucast (u ! 10)"
  define t5 where "t5 = push_bit 8 t4 OR ucast (u ! 11)"
  have "uint t0 = m6"
    using uint_join [of "u ! 6 AND 0x0f" 8 0] b by (simp add: t0_def)
  moreover from this have "uint t1 = uint t0 * 2 ^ 8 + uint (u ! 7)" unfolding t1_def using b by (intro uint_join) auto
  moreover from calculation have "uint t2 = uint t1 * 2 ^ 6 + m8"
    unfolding t2_def using b by (subst uint_join) auto
  moreover from calculation have "uint t3 = uint t2 * 2 ^ 8 + uint (u ! 9)" unfolding t3_def using b by (intro uint_join) auto
  moreover from calculation have "uint t4 = uint t3 * 2 ^ 8 + uint (u ! 10)" unfolding t4_def using b by (intro uint_join) auto
  moreover from calculation have "uint t5 = uint t4 * 2 ^ 8 + uint (u ! 11)" unfolding t5_def using b by (intro uint_join) auto
  moreover have "prev_counter u = t5"
    by (simp only: prev_counter_def Let_def t0_def t1_def t2_def t3_def t4_def t5_def)
  ultimately show ?thesis by (simp add: m6_def m8_def)
qed


lemma uint_byte_of: "uint (ucast (drop_bit k (t :: u64)) :: u8) = uint t div 2 ^ k mod 256"
proof -
  have "uint (ucast (drop_bit k t) :: u8) = take_bit 8 (uint (drop_bit k t))"
    by (subst unsigned_ucast_eq) simp
  then show ?thesis by (simp only: uint_drop_bit_div take_bit_eq_mod) simp
qed

lemma uint_byte_of_0: "uint (ucast (t :: u64) :: u8) = uint t mod 256"
  using uint_byte_of [of 0 t] by simp

text \<open>A number below \<open>2 ^ 48\<close> and its base-256 digits.\<close>

lemma digits_48:
  fixes t :: int
  assumes "0 \<le> t" "t < 2 ^ 48"
  shows "t div 2 ^ 40 mod 256 * 2 ^ 40 + t div 2 ^ 32 mod 256 * 2 ^ 32 + t div 2 ^ 24 mod 256 * 2 ^ 24 +
    t div 2 ^ 16 mod 256 * 2 ^ 16 + t div 2 ^ 8 mod 256 * 2 ^ 8 + t mod 256 = t"
proof -
  define a1 where "a1 = t div 256"
  define a2 where "a2 = a1 div 256"
  define a3 where "a3 = a2 div 256"
  define a4 where "a4 = a3 div 256"
  define a5 where "a5 = a4 div 256"
  have d: "t div 2 ^ 8 = a1" "t div 2 ^ 16 = a2" "t div 2 ^ 24 = a3" "t div 2 ^ 32 = a4" "t div 2 ^ 40 = a5"
    by (simp_all add: a1_def a2_def a3_def a4_def a5_def flip: zdiv_zmult2_eq)
  have "a5 < 256" unfolding d(5) [symmetric] using div_between(2) [of "2 ^ 40" 0 t 256] assms by simp
  moreover have "0 \<le> a5" unfolding d(5) [symmetric] using assms by (simp add: pos_imp_zdiv_nonneg_iff)
  ultimately have m: "a5 mod 256 = a5" by simp
  have "t mod 256 = t - 256 * a1" "a1 mod 256 = a1 - 256 * a2" "a2 mod 256 = a2 - 256 * a3"
    "a3 mod 256 = a3 - 256 * a4" "a4 mod 256 = a4 - 256 * a5"
    by (simp_all add: minus_mult_div_eq_mod a1_def a2_def a3_def a4_def a5_def)
  then show ?thesis unfolding d m by simp
qed

lemma prev_timestamp_put:
  assumes "length out = 16" "t \<le> MAX_TIMESTAMP"
  shows "prev_timestamp (put_timestamp t out) = t"
proof -
  have "uint t < 2 ^ 48" using assms(2) by (simp add: word_le_def MAX_TIMESTAMP_def)
  then have "uint (prev_timestamp (put_timestamp t out)) = uint t"
    using digits_48 [of "uint t"] assms(1)
    by (simp add: prev_timestamp_value put_timestamp_def uint_byte_of uint_byte_of_0 uint_drop_bit_div)
  then show ?thesis by (rule word_uint_eqI)
qed


lemma digits_counter:
  fixes c :: int
  assumes "0 \<le> c" "c < 2 ^ 42"
  shows "c div 2 ^ 38 mod 256 mod 16 * 2 ^ 38 + c div 2 ^ 30 mod 256 * 2 ^ 30 +
    (c div 2 ^ 24 mod 256 mod 64 * 2 ^ 24 + c div 2 ^ 16 mod 256 * 2 ^ 16 + c div 2 ^ 8 mod 256 * 2 ^ 8 + c mod 256) = c"
proof -
  define a1 where "a1 = c div 256"
  define a2 where "a2 = a1 div 256"
  define a3 where "a3 = a2 div 256"
  define a4 where "a4 = a3 div 64"
  define a5 where "a5 = a4 div 256"
  have d: "c div 2 ^ 8 = a1" "c div 2 ^ 16 = a2" "c div 2 ^ 24 = a3" "c div 2 ^ 30 = a4" "c div 2 ^ 38 = a5"
    by (simp_all add: a1_def a2_def a3_def a4_def a5_def flip: zdiv_zmult2_eq)
  have "a5 < 16" unfolding d(5) [symmetric] using div_between(2) [of "2 ^ 38" 0 c 16] assms by simp
  moreover have "0 \<le> a5" unfolding d(5) [symmetric] using assms by (simp add: pos_imp_zdiv_nonneg_iff)
  ultimately have m: "a5 mod 256 mod 16 = a5" by simp
  have n: "a3 mod 256 mod 64 = a3 mod 64" by (simp add: mod_mod_cancel)
  have "c mod 256 = c - 256 * a1" "a1 mod 256 = a1 - 256 * a2" "a2 mod 256 = a2 - 256 * a3"
    "a3 mod 64 = a3 - 64 * a4" "a4 mod 256 = a4 - 256 * a5"
    by (simp_all add: minus_mult_div_eq_mod a1_def a2_def a3_def a4_def a5_def)
  then show ?thesis unfolding d m n by simp
qed

lemma prev_counter_put:
  assumes "length out = 16" "c \<le> MAX_COUNTER"
  shows "prev_counter (put_counter c out) = c"
proof -
  have "uint c < 2 ^ 42" using assms(2) by (simp add: word_le_def MAX_COUNTER_def)
  then have "uint (prev_counter (put_counter c out)) = uint c"
    using digits_counter [of "uint c"] assms(1)
    by (simp add: prev_counter_value put_counter_def uint_byte_of uint_byte_of_0 uint_drop_bit_div)
  then show ?thesis by (rule word_uint_eqI)
qed

lemma length_puts [simp]:
  "length (put_counter c out) = length out" "length (put_timestamp t out) = length out"
  "length (put_random i rand out) = length out" "length (put_version out) = length out"
  by (simp_all add: put_counter_def put_timestamp_def put_version_def put_random_def Let_def)

lemma nth_put_random:
  "length out = 16 \<Longrightarrow> k < 16 \<Longrightarrow> put_random i0 rand out ! k = (if i0 \<le> k then rand ! (k - i0) else out ! k)"
  by (simp add: put_random_def nth_foldl_update)

lemma nth_put_version:
  "length out = 16 \<Longrightarrow> k < 16 \<Longrightarrow> put_version out ! k =
     (if k = 6 then 0x70 OR (out ! 6 AND 0x0f) else if k = 8 then 0x80 OR (out ! 8 AND 0x3f) else out ! k)"
  by (simp add: put_version_def Let_def)

lemma version_bits:
  "drop_bit 4 (0x70 OR (b AND 0x0f)) = (7 :: u8)" "drop_bit 6 (0x80 OR (b AND 0x3f)) = (2 :: u8)"
  "(0x70 OR (b AND 0x0f)) AND 0x0f = (b :: u8) AND 0x0f" "(0x80 OR (b AND 0x3f)) AND 0x3f = (b :: u8) AND 0x3f"
  by (simp_all add: drop_bit_or drop_bit_and bit.conj_disj_distrib2 and.assoc)

lemma put_version_fields:
  assumes "length u = 16"
  shows "uuid_valid (put_version u)" "prev_timestamp (put_version u) = prev_timestamp u"
    "prev_counter (put_version u) = prev_counter u"
  using assms
  by (simp_all add: uuid_valid_def prev_timestamp_def prev_counter_def upt_six nth_put_version version_bits)

lemma put_rest_fields:
  assumes "length out = 16" "t \<le> MAX_TIMESTAMP"
  shows "uuid_valid (snd (put_rest st t rand out))" "prev_timestamp (snd (put_rest st t rand out)) = t"
    "st = STATUS_COUNTER_INC \<Longrightarrow> prev_counter (snd (put_rest st t rand out)) = prev_counter out"
proof -
  have r: "prev_timestamp (put_random i rand u) = prev_timestamp u" if "6 \<le> i" "length u = 16" for i u
    using that by (simp add: prev_timestamp_def upt_six nth_put_random)
  show "uuid_valid (snd (put_rest st t rand out))" "prev_timestamp (snd (put_rest st t rand out)) = t"
    using assms r by (simp_all add: put_rest_def put_version_fields prev_timestamp_put)
  show "st = STATUS_COUNTER_INC \<Longrightarrow> prev_counter (snd (put_rest st t rand out)) = prev_counter out"
    using assms
    by (simp add: put_rest_def put_version_fields) (simp add: prev_counter_def nth_put_random put_timestamp_def)
qed


section \<open>Order\<close>

lemma list_16:
  assumes "length u = 16"
  shows "u = [u!0, u!1, u!2, u!3, u!4, u!5, u!6, u!7, u!8, u!9, u!10, u!11, u!12, u!13, u!14, u!15]"
  using assms by (intro nth_equalityI) (auto simp: nth_Cons' less_Suc_eq numeral_eq_Suc)

text \<open>The number of a valid UUID, from its time stamp, its counter and its last four bytes.\<close>

lemma uuid_value_fields:
  assumes "uuid_valid u"
  shows "\<exists>r. 0 \<le> r \<and> r < 2 ^ 32 \<and> uuid_value u =
    uint (prev_timestamp u) * 2 ^ 80 + 7 * 2 ^ 76 + uint (prev_counter u) div 2 ^ 30 * 2 ^ 64 + 2 * 2 ^ 62 +
    uint (prev_counter u) mod 2 ^ 30 * 2 ^ 32 + r"
proof -
  define r where "r = uint (u ! 12) * 2 ^ 24 + uint (u ! 13) * 2 ^ 16 + uint (u ! 14) * 2 ^ 8 + uint (u ! 15)"
  note b = uint_u8 [of "u ! 7"] uint_u8 [of "u ! 9"]
    uint_u8 [of "u ! 10"] uint_u8 [of "u ! 11"] uint_u8 [of "u ! 12"] uint_u8 [of "u ! 13"]
    uint_u8 [of "u ! 14"] uint_u8 [of "u ! 15"]
  define m6 m8 where "m6 = uint (u ! 6) mod 16" and "m8 = uint (u ! 8) mod 64"
  have m: "0 \<le> m6" "m6 < 16" "0 \<le> m8" "m8 < 64" by (simp_all add: m6_def m8_def)
  have d6: "uint (u ! 6) = 7 * 16 + m6"
  proof -
    have "uint (u ! 6) div 2 ^ 4 = 7" using assms uint_drop_bit_div [of 4 "u ! 6"] by (simp add: uuid_valid_def)
    then show ?thesis using div_mult_mod_eq [of "uint (u ! 6)" 16] by (simp add: m6_def)
  qed
  have d8: "uint (u ! 8) = 2 * 64 + m8"
  proof -
    have "uint (u ! 8) div 2 ^ 6 = 2" using assms uint_drop_bit_div [of 6 "u ! 8"] by (simp add: uuid_valid_def)
    then show ?thesis using div_mult_mod_eq [of "uint (u ! 8)" 64] by (simp add: m8_def)
  qed
  define l where "l = m8 * 2 ^ 24 + uint (u ! 9) * 2 ^ 16 + uint (u ! 10) * 2 ^ 8 + uint (u ! 11)"
  define h where "h = m6 * 2 ^ 8 + uint (u ! 7)"
  have l: "0 \<le> l" "l < 2 ^ 30" using b m by (simp_all add: l_def)
  have c: "uint (prev_counter u) = h * 2 ^ 30 + l"
    by (simp add: prev_counter_value h_def l_def m6_def m8_def)
  have q: "uint (prev_counter u) div 2 ^ 30 = h" "uint (prev_counter u) mod 2 ^ 30 = l"
    unfolding c using l by (simp_all add: div_pos_pos_trivial mod_pos_pos_trivial)
  have "uuid_value u = horner_sum uint 256 (rev [u!0, u!1, u!2, u!3, u!4, u!5, u!6, u!7, u!8, u!9, u!10, u!11, u!12, u!13, u!14, u!15])"
    unfolding uuid_value_def by (subst list_16) (use assms in \<open>simp_all add: uuid_valid_def\<close>)
  also have "\<dots> = uint (prev_timestamp u) * 2 ^ 80 + 7 * 2 ^ 76 + h * 2 ^ 64 + 2 * 2 ^ 62 + l * 2 ^ 32 + r"
    unfolding prev_timestamp_value by (simp add: d6 d8 h_def l_def r_def)
  finally show ?thesis unfolding q using b by (intro exI [of _ r]) (simp add: r_def)
qed

lemma prev_counter_bound: "uint (prev_counter u) < 2 ^ 42"
proof -
  define m6 m8 where "m6 = uint (u ! 6) mod 16" and "m8 = uint (u ! 8) mod 64"
  have "m6 < 16" "m8 < 64" by (simp_all add: m6_def m8_def)
  then show ?thesis
    using uint_u8 [of "u ! 7"] uint_u8 [of "u ! 9"] uint_u8 [of "u ! 10"] uint_u8 [of "u ! 11"]
    unfolding prev_counter_value m6_def [symmetric] m8_def [symmetric] by simp
qed

lemma uuid_less:
  assumes "uuid_valid u" "uuid_valid v"
    and "prev_timestamp u < prev_timestamp v \<or>
      prev_timestamp u = prev_timestamp v \<and> prev_counter u < prev_counter v"
  shows "uuid_value u < uuid_value v"
proof -
  define tu tv cu cv where "tu = uint (prev_timestamp u)" and "tv = uint (prev_timestamp v)"
    and "cu = uint (prev_counter u)" and "cv = uint (prev_counter v)"
  define hu lu hv lv where "hu = cu div 2 ^ 30" and "lu = cu mod 2 ^ 30" and "hv = cv div 2 ^ 30" and "lv = cv mod 2 ^ 30"
  have c: "cu = hu * 2 ^ 30 + lu" "cv = hv * 2 ^ 30 + lv" "0 \<le> lu" "lu < 2 ^ 30" "0 \<le> lv" "lv < 2 ^ 30"
    by (simp_all add: hu_def lu_def hv_def lv_def)
  obtain r where r: "0 \<le> r" "r < 2 ^ 32" "uuid_value u = tu * 2 ^ 80 + 7 * 2 ^ 76 + hu * 2 ^ 64 + 2 * 2 ^ 62 + lu * 2 ^ 32 + r"
    using uuid_value_fields [OF assms(1)] unfolding tu_def hu_def lu_def cu_def by blast
  obtain s where s: "0 \<le> s" "s < 2 ^ 32" "uuid_value v = tv * 2 ^ 80 + 7 * 2 ^ 76 + hv * 2 ^ 64 + 2 * 2 ^ 62 + lv * 2 ^ 32 + s"
    using uuid_value_fields [OF assms(2)] unfolding tv_def hv_def lv_def cv_def by blast
  have h: "hu < 2 ^ 12" "0 \<le> hv"
    using prev_counter_bound [of u] prev_counter_bound [of v] div_between(2) [of "2 ^ 30" 0 cu "2 ^ 12"]
    by (simp_all add: hu_def hv_def cu_def cv_def pos_imp_zdiv_nonneg_iff)
  have "tu < tv \<or> tu = tv \<and> cu < cv"
    using assms(3) by (auto simp: tu_def tv_def cu_def cv_def word_less_def)
  moreover have "hu < hv \<or> hu = hv \<and> lu < lv" if "cu < cv"
    using that c by (cases hu hv rule: linorder_cases) auto
  ultimately consider "tu < tv" | "tu = tv" "hu < hv" | "tu = tv" "hu = hv" "lu < lv" by blast
  then show ?thesis
  proof cases
    case 1
    then show ?thesis using r s c h by (simp) 
  next
    case 2
    then show ?thesis using r s c by (simp)
  next
    case 3
    then show ?thesis using r s by (simp)
  qed
qed

lemma counter_le_max: "prev_counter u \<le> MAX_COUNTER"
  using prev_counter_bound [of u] by (simp add: word_le_def MAX_COUNTER_def)

lemma timestamp_le_max: "prev_timestamp u \<le> MAX_TIMESTAMP"
  using uint_u8 [of "u ! 0"] uint_u8 [of "u ! 1"] uint_u8 [of "u ! 2"] uint_u8 [of "u ! 3"]
    uint_u8 [of "u ! 4"] uint_u8 [of "u ! 5"]
  by (simp add: word_le_def MAX_TIMESTAMP_def prev_timestamp_value)

lemma word_suc_less:
  fixes c :: "'a::len word"
  assumes "c < m" shows "c < c + 1" "c + 1 \<le> m"
proof -
  have "unat m < 2 ^ LENGTH('a)" by (rule unsigned_less)
  then have "Suc (unat c) < 2 ^ LENGTH('a)" using assms unfolding word_less_nat_alt by linarith
  then have "unat (c + 1) = Suc (unat c)" by (simp add: unat_word_ariths)
  then show "c < c + 1" "c + 1 \<le> m"
    using assms by (simp_all add: word_less_nat_alt word_le_nat_alt)
qed

text \<open>
  C29: With a valid preceding UUID, a generation whose clock has gone back by at most ten
  seconds and which does not run out of time stamps reports one of the three monotonic
  statuses, and produces a valid version 7 UUID that is greater than the preceding one,
  the bytes read as a big-endian number.
\<close>

theorem uuidv7_monotonic:
  assumes "uuid_valid prev" "length out = 16" "ts \<le> MAX_TIMESTAMP"
    and "prev_timestamp prev \<le> ts + 10000"
    and "prev_timestamp prev < MAX_TIMESTAMP \<or> prev_counter prev < MAX_COUNTER"
  shows "case uuidv7_generate out ts rand (Some prev) of (status, u) \<Rightarrow>
    status \<in> {STATUS_NEW_TIMESTAMP, STATUS_COUNTER_INC, STATUS_TIMESTAMP_INC} \<and>
    uuid_valid u \<and> uuid_value prev < uuid_value u"
proof -
  let ?t = "prev_timestamp prev" and ?c = "prev_counter prev"
  have s: "fst (put_rest st t rand out') = st" for st t out' by (simp add: put_rest_def)
  consider (new) "ts > ?t" | (inc) "\<not> ts > ?t" "?c < MAX_COUNTER"
    | (tinc) "\<not> ts > ?t" "\<not> ?c < MAX_COUNTER" "?t < MAX_TIMESTAMP" using assms(5) by blast
  then show ?thesis
  proof cases
    case new
    let ?u = "put_rest STATUS_NEW_TIMESTAMP ts rand out"
    have "uuidv7_generate out ts rand (Some prev) = ?u"
      using new assms(3) by (simp add: uuidv7_generate_def Let_def leD)
    moreover have "uuid_value prev < uuid_value (snd ?u)"
      using assms new by (intro uuid_less) (simp_all add: put_rest_fields)
    ultimately show ?thesis using s assms by (simp add: split_beta put_rest_fields)
  next
    case inc
    let ?o = "put_counter (?c + 1) out"
    let ?u = "put_rest STATUS_COUNTER_INC ?t rand ?o"
    have t: "?t \<le> MAX_TIMESTAMP" by (rule timestamp_le_max)
    have "uuidv7_generate out ts rand (Some prev) = ?u"
      using inc assms(3,4) by (simp add: uuidv7_generate_def Let_def leD)
    moreover have "uuid_value prev < uuid_value (snd ?u)"
      using assms inc t word_suc_less [OF inc(2)]
      by (intro uuid_less) (simp_all add: put_rest_fields prev_counter_put)
    ultimately show ?thesis using s assms t by (simp add: split_beta put_rest_fields)
  next
    case tinc
    let ?u = "put_rest STATUS_TIMESTAMP_INC (?t + 1) rand out"
    note t = word_suc_less [OF tinc(3)]
    have "uuidv7_generate out ts rand (Some prev) = ?u"
      using tinc assms(3,4) t by (simp add: uuidv7_generate_def Let_def leD)
    moreover have "uuid_value prev < uuid_value (snd ?u)"
      using assms tinc t by (intro uuid_less) (simp_all add: put_rest_fields)
    ultimately show ?thesis using s assms t by (simp add: split_beta put_rest_fields)
  qed
qed

lemma uuidv7_monotonic_witness:
  "let prev = [1, 143, 0, 17, 34, 51, 0x7f, 0xff, 0xbf, 0xff, 0xff, 0xff, 9, 9, 9, 9] in
   case uuidv7_generate prev 0x018f00112000 [1, 2, 3, 4, 5, 6, 7, 8, 9, 10] (Some prev) of (status, u) \<Rightarrow>
    status \<in> {STATUS_NEW_TIMESTAMP, STATUS_COUNTER_INC, STATUS_TIMESTAMP_INC} \<and>
    uuid_valid u \<and> uuid_value prev < uuid_value u"
  unfolding Let_def by (rule uuidv7_monotonic) code_simp+

section \<open>Printing and parsing\<close>

text \<open>The text of byte \<open>i\<close>, and the text from byte \<open>k\<close> on.\<close>

definition byte_text :: "nat \<Rightarrow> u8 \<Rightarrow> string" where
  "byte_text i b = [DIGITS ! unat (drop_bit 4 b), DIGITS ! unat (b AND 15)] @
     (if i = 3 \<or> i = 5 \<or> i = 7 \<or> i = 9 then ''-'' else [])"

definition text_from :: "nat \<Rightarrow> u8 list \<Rightarrow> string" where
  "text_from k u = concat (map (\<lambda>i. byte_text i (u ! i)) [k..<16])"

lemma to_string_text_from: "uuidv7_to_string u = text_from 0 u"
  by (simp add: uuidv7_to_string_def text_from_def byte_text_def)

lemma text_from_step: "k < 16 \<Longrightarrow> text_from k u = byte_text k (u ! k) @ text_from (Suc k) u"
  by (simp add: text_from_def upt_conv_Cons)

lemma nibble_bound: "unat (drop_bit 4 (b :: u8)) < 16" "unat ((b :: u8) AND 15) < 16"
proof -
  have "b AND 15 = take_bit 4 b" by (simp add: take_bit_eq_mask mask_eq_exp_minus_1)
  then have "unat (b AND 15) = take_bit 4 (unat b)" by (simp only: unsigned_take_bit_eq)
  then show "unat (b AND 15) < 16" using take_bit_nat_less_exp [of 4 "unat b"] by simp
  have "uint (drop_bit 4 b) < 16"
    unfolding uint_drop_bit_div using div_between(2) [of "2 ^ 4" 0 "uint b" 16] uint_u8 [of b] by simp
  moreover have "uint (drop_bit 4 b) = int (unat (drop_bit 4 b))" by (rule uint_nat)
  ultimately show "unat (drop_bit 4 b) < 16" by linarith
qed

lemma hex_digit_nibble: "unat (x :: u8) < 16 \<Longrightarrow> hex_digit (DIGITS ! unat x) = x"
proof -
  assume "unat x < 16"
  then have "unat x \<in> set [0..<16]" by simp
  moreover have "\<forall>n \<in> set [0..<16]. hex_digit (DIGITS ! n) = of_nat n" by code_simp
  ultimately have "hex_digit (DIGITS ! unat x) = of_nat (unat x)" by (rule bspec [rotated])
  then show ?thesis by simp
qed

lemma hex_digit_DIGITS:
  "hex_digit (DIGITS ! unat (drop_bit 4 b)) = drop_bit 4 b" "hex_digit (DIGITS ! unat (b AND 15)) = b AND 15"
  "drop_bit 4 b \<noteq> 0xff" "b AND 15 \<noteq> 0xff"
  using nibble_bound [of b] by (auto simp: hex_digit_nibble)

lemma nibbles: "push_bit 4 (drop_bit 4 b) OR (b AND 15) = (b :: u8)"
proof -
  have l: "uint (b AND 15) = uint b mod 16" using uint_low_byte(1) [of b] by simp
  have h: "uint (drop_bit 4 b) = uint b div 16" using uint_drop_bit_div [of 4 b] by simp
  have "uint b div 16 * 16 < 256" using div_times_bounds(1) [of 16 "uint b"] uint_u8 [of b] by linarith
  then have "uint ((b AND 15) OR push_bit 4 (drop_bit 4 b)) = uint b mod 16 + uint b div 16 * 2 ^ 4"
    using uint_or_push_bit [of "b AND 15" 4 "drop_bit 4 b"] l h by (simp only: l h) simp
  then have "uint (push_bit 4 (drop_bit 4 b) OR (b AND 15)) = uint b" by (simp add: or.commute)
  then show ?thesis by (rule word_uint_eqI)
qed

lemma index_bits: "(2 * k) AND 1 = 0" "Suc (2 * k) AND 1 = 1" for k :: nat
  by (simp_all add: and_one_eq)

lemma upt_pair: "k < 16 \<Longrightarrow> [2 * k..<32] = 2 * k # Suc (2 * k) # [2 * Suc k..<32]"
  by (simp add: upt_conv_Cons)

text \<open>Two rounds of the parser loop, for the two digits of byte \<open>k\<close>.\<close>

lemma loop_pair:
  assumes "k < 16" "k < length out"
  shows "from_string_loop [2 * k..<32] s out =
    (let h = hex_digit (str_hd s); l = hex_digit (str_hd (tl s));
         out' = out[k := push_bit 4 h OR l]; s' = tl (tl s)
     in if h = 0xff then (-1, out) else if l = 0xff then (-1, out[k := push_bit 4 h])
        else if k = 3 \<or> k = 5 \<or> k = 7 \<or> k = 9
          then (if str_hd s' = CHR ''-'' then from_string_loop [2 * Suc k..<32] (tl s') out' else (-1, out'))
        else from_string_loop [2 * Suc k..<32] s' out')"
proof -
  have "2 * k \<noteq> 7" "2 * k \<noteq> 11" "2 * k \<noteq> 15" "2 * k \<noteq> 19" by presburger+
  then show ?thesis
    unfolding upt_pair [OF assms(1)] from_string_loop.simps index_bits using assms
    by (auto simp: Let_def)
qed

lemma parse_text_from:
  assumes "length u = 16" "k \<le> 16" "length out = 16"
  shows "from_string_loop [2 * k..<32] (text_from k u) out = (0, take k out @ drop k u)"
  using assms(2,3)
proof (induction k arbitrary: out rule: inc_induct)
  case base
  then show ?case using assms(1) by (simp add: text_from_def str_hd_def)
next
  case (step k)
  have "take (Suc k) (out[k := u ! k]) @ drop (Suc k) u = take k out @ drop k u"
    using step assms(1) by (simp add: take_Suc_conv_app_nth Cons_nth_drop_Suc)
  then show ?case
    using step assms(1)
    by (subst loop_pair)
       (auto simp: Let_def text_from_step byte_text_def str_hd_def hex_digit_DIGITS nibbles)
qed

definition hex_lower :: "char \<Rightarrow> char" where
  "hex_lower c =
     (if c = CHR ''A'' then CHR ''a'' else if c = CHR ''B'' then CHR ''b'' else if c = CHR ''C'' then CHR ''c''
      else if c = CHR ''D'' then CHR ''d'' else if c = CHR ''E'' then CHR ''e''
      else if c = CHR ''F'' then CHR ''f'' else c)"

lemma hex_lower_props:
  "hex_digit (hex_lower c) = hex_digit c" "hex_lower c = CHR ''-'' \<longleftrightarrow> c = CHR ''-''"
  "hex_lower c = CHR 0x00 \<longleftrightarrow> c = CHR 0x00"
  by (simp_all add: hex_lower_def) (simp add: hex_digit_def)

lemma str_hd_lower: "str_hd (map hex_lower s) = hex_lower (str_hd s)"
  by (cases s) (simp_all add: str_hd_def hex_lower_def)

lemma loop_lower: "from_string_loop is (map hex_lower s) out = from_string_loop is s out"
  by (induction "is" arbitrary: s out)
     (simp_all add: str_hd_lower hex_lower_props Let_def flip: map_tl)

lemma hex_digit_valid:
  assumes "hex_digit c \<noteq> 0xff"
  shows "unat (hex_digit c) < 16 \<and> DIGITS ! unat (hex_digit c) = hex_lower c"
proof -
  have "c \<in> set ''0123456789abcdefABCDEF''"
  proof (rule ccontr)
    assume "c \<notin> set ''0123456789abcdefABCDEF''"
    then have "hex_digit c = 0xff" unfolding hex_digit_def by simp
    with assms show False by (rule notE)
  qed
  then show ?thesis
    unfolding list.set insert_iff
    apply (elim disjE)
    apply (simp_all only:)
    apply (simp_all add: hex_digit_def hex_lower_def DIGITS_def)
    done
qed

lemma nibbles_inv:
  fixes h l :: u8
  assumes "unat h < 16" "unat l < 16"
  shows "drop_bit 4 (push_bit 4 h OR l) = h" "(push_bit 4 h OR l) AND 15 = l"
proof -
  have b: "uint h < 16" "uint l < 16" using assms unfolding unat_eq_nat_uint by linarith+
  have v: "uint (push_bit 4 h OR l) = uint l + uint h * 16"
    using uint_or_push_bit [of l 4 h] b by (simp add: or.commute)
  have "uint (drop_bit 4 (push_bit 4 h OR l)) = (uint l + uint h * 16) div 2 ^ 4"
    by (simp only: uint_drop_bit_div v)
  also have "\<dots> = uint h" using b by auto
  finally show "drop_bit 4 (push_bit 4 h OR l) = h" by (rule word_uint_eqI)
  have "uint ((push_bit 4 h OR l) AND 15) = (uint l + uint h * 16) mod 16"
    using uint_low_byte(1) [of "push_bit 4 h OR l"] v by simp
  also have "\<dots> = uint l" using b by auto
  finally show "(push_bit 4 h OR l) AND 15 = l" by (rule word_uint_eqI)
qed

lemma str_hd_nonzero: "str_hd s \<noteq> CHR 0x00 \<Longrightarrow> s = str_hd s # tl s"
  by (cases s) (simp_all add: str_hd_def)

lemma set_tl: "set (tl xs) \<subseteq> set xs"
  by (cases xs) auto

lemma parse_ok_text:
  assumes "k \<le> 16" "length out = 16" "from_string_loop [2 * k..<32] s out = (0, v)"
    and "CHR 0x00 \<notin> set s"
  shows "length v = 16 \<and> take k v = take k out \<and> map hex_lower s = text_from k v"
  using assms
proof (induction k arbitrary: s out rule: inc_induct)
  case base
  then show ?case by (cases s) (auto simp: text_from_def str_hd_def split: if_splits)
next
  case (step k)
  let ?h = "hex_digit (str_hd s)" and ?l = "hex_digit (str_hd (tl s))"
  let ?o = "out[k := push_bit 4 ?h OR ?l]" and ?s = "tl (tl s)"
  define dash where "dash \<longleftrightarrow> k = 3 \<or> k = 5 \<or> k = 7 \<or> k = 9"
  let ?r = "if dash then tl ?s else ?s"
  have z: "hex_digit (CHR 0x00) = 0xff" by (simp add: hex_digit_def)
  have d: "?h \<noteq> 0xff" "?l \<noteq> 0xff"
    "dash \<Longrightarrow> str_hd ?s = CHR ''-''"
    "from_string_loop [2 * Suc k..<32] ?r ?o = (0, v)"
    using step.prems step.hyps
    by (simp_all add: loop_pair [of k, folded dash_def] Let_def del: from_string_loop.simps split: if_splits)
  have "CHR 0x00 \<notin> set ?r" using step.prems(3) set_tl [of s] set_tl [of "tl s"] set_tl [of ?s] by auto
  then have IH: "length v = 16 \<and> take (Suc k) v = take (Suc k) ?o \<and> map hex_lower ?r = text_from (Suc k) v"
    using d(4) step.prems(1) by (intro step.IH) auto
  have vk: "v ! k = push_bit 4 ?h OR ?l"
  proof -
    have "take (Suc k) v ! k = take (Suc k) ?o ! k" using IH by simp
    then show ?thesis using step.hyps step.prems(1) by simp
  qed
  have "take k (take (Suc k) v) = take k (take (Suc k) ?o)" using IH by simp
  then have "take k v = take k out" by simp
  moreover have "map hex_lower s = text_from k v"
  proof -
    have "str_hd s \<noteq> CHR 0x00" "str_hd (tl s) \<noteq> CHR 0x00" using d(1,2) z by auto
    then have "s = str_hd s # str_hd (tl s) # ?s" using str_hd_nonzero by simp
    then have "map hex_lower s = [hex_lower (str_hd s), hex_lower (str_hd (tl s))] @ map hex_lower ?s"
      by (metis append_Cons append_Nil list.simps(9))
    also have "map hex_lower ?s = (if dash then ''-'' else []) @ map hex_lower ?r"
    proof (cases "dash")
      case True
      then have "?s = CHR ''-'' # tl ?s" using str_hd_nonzero [of ?s] d(3) by simp
      then have "map hex_lower ?s = hex_lower CHR ''-'' # map hex_lower (tl ?s)" by (metis list.simps(9))
      then show ?thesis using True by (simp add: hex_lower_def)
    qed simp
    also have "[hex_lower (str_hd s), hex_lower (str_hd (tl s))] @ (if dash then ''-'' else []) @ map hex_lower ?r =
        byte_text k (v ! k) @ map hex_lower ?r"
      unfolding byte_text_def vk dash_def
      using hex_digit_valid [OF d(1)] hex_digit_valid [OF d(2)] by (simp only: nibbles_inv append_assoc)
    finally show ?thesis using IH step.hyps by (simp add: text_from_step)
  qed
  ultimately show ?case using IH by blast
qed

text \<open>
  C30: the textual form: \<^verbatim>\<open>uuidv7_from_string\<close> accepts exactly the texts that
  \<^verbatim>\<open>uuidv7_to_string\<close> prints, up to the case of the hexadecimal letters, and returns the
  UUID that prints as that text; every UUID survives printing and parsing.
\<close>

theorem uuidv7_text_roundtrip:
  assumes "length out = 16" "CHR 0x00 \<notin> set s"
  shows "uuidv7_from_string s out = (0, u) \<longleftrightarrow> length u = 16 \<and> map hex_lower s = uuidv7_to_string u"
proof
  assume "uuidv7_from_string s out = (0, u)"
  then have "from_string_loop [2 * 0..<32] s out = (0, u)"
    by (simp only: uuidv7_from_string_def mult_0_right)
  then show "length u = 16 \<and> map hex_lower s = uuidv7_to_string u"
    using parse_ok_text [of 0 out s u] assms unfolding to_string_text_from by blast
next
  assume u: "length u = 16 \<and> map hex_lower s = uuidv7_to_string u"
  have "from_string_loop [2 * 0..<32] (text_from 0 u) out = (0, take 0 out @ drop 0 u)"
    using u assms by (intro parse_text_from) auto
  then have "from_string_loop [0..<32] (map hex_lower s) out = (0, u)"
    using u by (simp only: to_string_text_from mult_0_right take_0 drop_0 append_Nil)
  then show "uuidv7_from_string s out = (0, u)"
    by (simp only: loop_lower uuidv7_from_string_def)
qed

lemma uuidv7_text_roundtrip_witness:
  "uuidv7_from_string ''018F0011-2233-7fff-bfff-ffff0909090a'' (replicate 16 0) =
     (0, [1, 143, 0, 17, 34, 51, 0x7f, 0xff, 0xbf, 0xff, 0xff, 0xff, 9, 9, 9, 10])"
proof -
  have "uuidv7_to_string [1, 143, 0, 17, 34, 51, 0x7f, 0xff, 0xbf, 0xff, 0xff, 0xff, 9, 9, 9, 10] =
      map hex_lower ''018F0011-2233-7fff-bfff-ffff0909090a''"
    by code_simp
  then show ?thesis by (subst uuidv7_text_roundtrip) simp_all
qed

end
