(* ===== verification/Ascii_Case.thy ===== *)
theory Ascii_Case
  imports Prelude
begin

unbundle bit_operations_syntax

text \<open>
  The case conversions of \<^verbatim>\<open>crates/fswtch-src/freeswitch/src/include/switch_utils.h\<close>, which
  treat four or eight bytes of a string at once in an integer register. A C string is the
  list of its bytes before the NUL; the registers are loaded and stored as on a
  little-endian machine.
\<close>

section \<open>Registers\<close>

definition switch_toupper :: "u32 \<Rightarrow> u32" where
  "switch_toupper eax =
     (let ebx = (0x7f7f7f7f AND eax) + 0x05050505;
          ebx = (0x7f7f7f7f AND ebx) + 0x1a1a1a1a;
          ebx = drop_bit 2 (ebx AND NOT eax) AND 0x20202020
      in eax - ebx)"

definition switch_tolower :: "u32 \<Rightarrow> u32" where
  "switch_tolower eax =
     (let ebx = (0x7f7f7f7f AND eax) + 0x25252525;
          ebx = (0x7f7f7f7f AND ebx) + 0x1a1a1a1a;
          ebx = drop_bit 2 (ebx AND NOT eax) AND 0x20202020
      in eax + ebx)"

definition switch_toupper64 :: "u64 \<Rightarrow> u64" where
  "switch_toupper64 eax =
     (let ebx = (0x7f7f7f7f7f7f7f7f AND eax) + 0x0505050505050505;
          ebx = (0x7f7f7f7f7f7f7f7f AND ebx) + 0x1a1a1a1a1a1a1a1a;
          ebx = drop_bit 2 (ebx AND NOT eax) AND 0x2020202020202020
      in eax - ebx)"

definition switch_tolower64 :: "u64 \<Rightarrow> u64" where
  "switch_tolower64 eax =
     (let ebx = (0x7f7f7f7f7f7f7f7f AND eax) + 0x2525252525252525;
          ebx = (0x7f7f7f7f7f7f7f7f AND ebx) + 0x1a1a1a1a1a1a1a1a;
          ebx = drop_bit 2 (ebx AND NOT eax) AND 0x2020202020202020
      in eax + ebx)"

section \<open>Strings\<close>

definition load_le :: "u8 list \<Rightarrow> 'a::len word" where
  "load_le bs = word_of_int (horner_sum uint 256 bs)"

definition store_le :: "'a::len word \<Rightarrow> u8 list" where
  "store_le (w :: 'a::len word) = map (\<lambda>i. ucast (drop_bit (8 * i) w)) [0..<LENGTH('a) div 8]"

text \<open>
  One byte through the 32-bit routine: the argument is a C \<^verbatim>\<open>char\<close>, which is sign-extended,
  and the result is cut to its lowest byte.
\<close>

definition toupper_char :: "u8 \<Rightarrow> u8" where
  "toupper_char c = ucast (switch_toupper (scast c))"

definition tolower_char :: "u8 \<Rightarrow> u8" where
  "tolower_char c = ucast (switch_tolower (scast c))"

text \<open>The two variants of the loops: eight bytes at a time when \<^verbatim>\<open>FS_64BIT\<close> is defined, else four.\<close>

fun switch_toupper_max64 :: "u8 list \<Rightarrow> u8 list" where
  "switch_toupper_max64 s =
     (if length s > 8 then store_le (switch_toupper64 (load_le (take 8 s))) @ switch_toupper_max64 (drop 8 s)
      else map toupper_char s)"

fun switch_tolower_max64 :: "u8 list \<Rightarrow> u8 list" where
  "switch_tolower_max64 s =
     (if length s > 8 then store_le (switch_tolower64 (load_le (take 8 s))) @ switch_tolower_max64 (drop 8 s)
      else map tolower_char s)"

fun switch_toupper_max32 :: "u8 list \<Rightarrow> u8 list" where
  "switch_toupper_max32 s =
     (if length s > 4 then store_le (switch_toupper (load_le (take 4 s))) @ switch_toupper_max32 (drop 4 s)
      else map toupper_char s)"

fun switch_tolower_max32 :: "u8 list \<Rightarrow> u8 list" where
  "switch_tolower_max32 s =
     (if length s > 4 then store_le (switch_tolower (load_le (take 4 s))) @ switch_tolower_max32 (drop 4 s)
      else map tolower_char s)"

declare switch_toupper_max64.simps [simp del] switch_tolower_max64.simps [simp del]
  switch_toupper_max32.simps [simp del] switch_tolower_max32.simps [simp del]

section \<open>What they promise\<close>

definition ascii_upper :: "u8 \<Rightarrow> u8" where
  "ascii_upper b = (if 97 \<le> b \<and> b \<le> 122 then b - 32 else b)"

definition ascii_lower :: "u8 \<Rightarrow> u8" where
  "ascii_lower b = (if 65 \<le> b \<and> b \<le> 90 then b + 32 else b)"

section \<open>Lanes\<close>

text \<open>
  \<open>lanes n bs\<close>: the bytes \<open>bs\<close> fill the register exactly. The bitwise operations, and
  additions and subtractions without a carry between bytes, act on each byte on its own.
\<close>

definition lanes :: "'a::len itself \<Rightarrow> u8 list \<Rightarrow> bool" where
  "lanes _ bs \<longleftrightarrow> 8 * length bs = LENGTH('a)"

lemma bit_load:
  assumes "lanes TYPE('a::len) bs"
  shows "bit (load_le bs :: 'a word) n \<longleftrightarrow> n div 8 < length bs \<and> bit (bs ! (n div 8)) (n mod 8)"
proof -
  have "bit (horner_sum uint (2 ^ LENGTH(8)) bs) n \<longleftrightarrow> n div 8 < length bs \<and> bit (bs ! (n div 8)) (n mod 8)"
    by (subst bit_horner_sum_uint_exp_iff) simp
  then show ?thesis using assms by (auto simp: load_le_def lanes_def bit_word_of_int_iff)
qed

lemma load_and:
  assumes "lanes TYPE('a::len) as" "length bs = length as"
  shows "load_le as AND (load_le bs :: 'a word) = load_le (map2 (AND) as bs)"
  using assms by (intro bit_word_eqI) (auto simp: bit_load lanes_def bit_and_iff)

lemma load_not:
  assumes "lanes TYPE('a::len) as"
  shows "NOT (load_le as :: 'a word) = load_le (map NOT as)"
  using assms by (intro bit_word_eqI) (auto simp: bit_load lanes_def bit_not_iff)

lemma load_shift:
  assumes "lanes TYPE('a::len) as"
  shows "drop_bit 2 (load_le as :: 'a word) AND load_le (map (\<lambda>_. 0x20) as) = load_le (map (\<lambda>a. drop_bit 2 a AND 0x20) as)"
proof (rule bit_word_eqI)
  fix n
  have b: "bit (0x20 :: u8) j \<longleftrightarrow> j = 5" for j
  proof -
    have "(0x20 :: u8) = 2 ^ 5" by simp
    then show ?thesis by (simp only: bit_exp_iff) (auto simp: possible_bit_def)
  qed
  show "bit (drop_bit 2 (load_le as :: 'a word) AND load_le (map (\<lambda>_. 0x20) as)) n \<longleftrightarrow>
    bit (load_le (map (\<lambda>a. drop_bit 2 a  AND 0x20) as) :: 'a word) n"
  proof (cases "n mod 8 = 5")
    case True
    then have "(n + 2) div 8 = n div 8" "(n + 2) mod 8 = 7" by presburger+
    with True assms show ?thesis
      by (auto simp: bit_load lanes_def bit_and_iff bit_drop_bit_eq b add.commute)
  next
    case False
    then have "\<not> bit (0x20 :: u8) (n mod 8)" by (simp only: b) simp
    with assms show ?thesis by (auto simp: bit_load lanes_def bit_and_iff)
  qed
qed

lemma load_add:
  assumes "lanes TYPE('a::len) as" "length bs = length as"
    and "\<And>i. i < length as \<Longrightarrow> uint (as ! i) + uint (bs ! i) < 256"
  shows "load_le as + (load_le bs :: 'a word) = load_le (map2 (+) as bs)"
proof -
  have "horner_sum uint 256 as + horner_sum uint 256 bs = (horner_sum uint 256 (map2 (+) as bs) :: int)"
    using assms(2,3)
  proof (induction as arbitrary: bs)
    case (Cons a as)
    then obtain b bs' where b: "bs = b # bs'" by (cases bs) auto
    have "uint (a + b) = uint a + uint b" using Cons.prems(2) [of 0] b by (simp add: uint_plus_simple_iff uint_word_ariths)
    moreover have "horner_sum uint 256 as + horner_sum uint 256 bs' = (horner_sum uint 256 (map2 (+) as bs') :: int)"
      using Cons.prems b Cons.prems(2) [of "Suc _"] by (intro Cons.IH) auto
    ultimately show ?case using b by simp
  qed simp
  then show ?thesis by (simp add: load_le_def flip: of_int_add)
qed

lemma load_sub:
  assumes "lanes TYPE('a::len) as" "length bs = length as"
    and "\<And>i. i < length as \<Longrightarrow> uint (bs ! i) \<le> uint (as ! i)"
  shows "load_le as - (load_le bs :: 'a word) = load_le (map2 (-) as bs)"
proof -
  have "horner_sum uint 256 as - horner_sum uint 256 bs = (horner_sum uint 256 (map2 (-) as bs) :: int)"
    using assms(2,3)
  proof (induction as arbitrary: bs)
    case (Cons a as)
    then obtain b bs' where b: "bs = b # bs'" by (cases bs) auto
    have "uint (a - b) = uint a - uint b" using Cons.prems(2) [of 0] b by (simp add: uint_sub_if')
    moreover have "horner_sum uint 256 as - horner_sum uint 256 bs' = (horner_sum uint 256 (map2 (-) as bs') :: int)"
      using Cons.prems b Cons.prems(2) [of "Suc _"] by (intro Cons.IH) auto
    ultimately show ?case using b by simp
  qed simp
  then show ?thesis by (simp add: load_le_def flip: of_int_diff)
qed


text \<open>One lane of the two routines, and what it computes.\<close>

definition upper_lane :: "u8 \<Rightarrow> u8" where
  "upper_lane a = a - (drop_bit 2 (((0x7f AND ((0x7f AND a) + 0x05)) + 0x1a) AND NOT a) AND 0x20)"

definition lower_lane :: "u8 \<Rightarrow> u8" where
  "lower_lane a = a + (drop_bit 2 (((0x7f AND ((0x7f AND a) + 0x25)) + 0x1a) AND NOT a) AND 0x20)"

lemma lane_masks:
  "drop_bit 2 (((0x7f AND ((0x7f AND a) + 0x05)) + 0x1a) AND NOT a) AND 0x20 = (if 97 \<le> a \<and> a \<le> 122 then 0x20 else (0 :: u8))"
  "drop_bit 2 (((0x7f AND ((0x7f AND a) + 0x25)) + 0x1a) AND NOT a) AND 0x20 = (if 65 \<le> a \<and> a \<le> 90 then 0x20 else (0 :: u8))"
  by (rule all_byteI [of _ a], code_simp)+

lemma uint_and_7f: "uint (0x7f AND (a :: u8)) < 128"
proof -
  have "0x7f AND a = take_bit 7 a" by (simp add: take_bit_eq_mask mask_eq_exp_minus_1 and.commute)
  then show ?thesis by (simp only: uint_take_bit_mod) simp
qed

lemma lane_facts:
  fixes a :: u8
  shows "uint (0x7f AND a) + 0x05 < 256" "uint (0x7f AND a) + 0x25 < 256"
    "uint (0x7f AND ((0x7f AND a) + 0x05)) + 0x1a < 256" "uint (0x7f AND ((0x7f AND a) + 0x25)) + 0x1a < 256"
    "uint (drop_bit 2 (((0x7f AND ((0x7f AND a) + 0x05)) + 0x1a) AND NOT a) AND 0x20) \<le> uint a"
    "uint a + uint (drop_bit 2 (((0x7f AND ((0x7f AND a) + 0x25)) + 0x1a) AND NOT a) AND 0x20) < 256"
  using uint_and_7f [of a] uint_and_7f [of "(0x7f AND a) + 0x05"] uint_and_7f [of "(0x7f AND a) + 0x25"] uint_lt2p [of a]
  unfolding lane_masks by (auto simp: word_le_def)

lemma upper_lane: "upper_lane a = ascii_upper a"
  unfolding upper_lane_def lane_masks ascii_upper_def by simp

lemma lower_lane: "lower_lane a = ascii_lower a"
  unfolding lower_lane_def lane_masks ascii_lower_def by simp

lemma map2_const: "length bs = length as \<Longrightarrow> map2 f as (map (\<lambda>_. c) bs) = map (\<lambda>a. f a c) as"
  by (induction as bs rule: list_induct2') auto

lemma map2_const': "length bs = length as \<Longrightarrow> map2 f (map (\<lambda>_. c) bs) as = map (\<lambda>a. f c a) as"
  by (induction as bs rule: list_induct2') auto

lemma map2_map: "map2 f (map g as) (map h as) = map (\<lambda>a. f (g a) (h a)) as"
  by (induction as) auto


text \<open>The register routines on registers filled with bytes.\<close>

lemma pattern:
  assumes "lanes TYPE('a::len) as" "w = (load_le (replicate (length as) c) :: 'a word)"
  shows "w = load_le (map (\<lambda>_. c) as)"
  using assms(2) by (simp add: map_replicate_const)

definition upper_reg :: "'a::len word \<Rightarrow> 'a word \<Rightarrow> 'a word \<Rightarrow> 'a word \<Rightarrow> 'a word \<Rightarrow> 'a word" where
  "upper_reg m7f m05 m1a m20 eax =
     eax - (drop_bit 2 (((m7f AND ((m7f AND eax) + m05)) + m1a) AND NOT eax) AND m20)"

definition lower_reg :: "'a::len word \<Rightarrow> 'a word \<Rightarrow> 'a word \<Rightarrow> 'a word \<Rightarrow> 'a word \<Rightarrow> 'a word" where
  "lower_reg m7f m25 m1a m20 eax =
     eax + (drop_bit 2 (((m7f AND ((m7f AND eax) + m25)) + m1a) AND NOT eax) AND m20)"

lemma reg_mask:
  assumes l: "lanes TYPE('a::len) as" and f: "\<And>a :: u8. uint (0x7f AND a) + uint (k :: u8) < 256"
    and g: "\<And>a. uint (0x7f AND ((0x7f AND a) + k)) + 0x1a < 256"
  shows "drop_bit 2 (((load_le (map (\<lambda>_. 0x7f) as) AND ((load_le (map (\<lambda>_. 0x7f) as) AND load_le as) +
      load_le (map (\<lambda>_. k) as))) + load_le (map (\<lambda>_. 0x1a) as)) AND NOT (load_le as :: 'a word)) AND
      load_le (map (\<lambda>_. 0x20) as) =
    load_le (map (\<lambda>a. drop_bit 2 (((0x7f AND ((0x7f AND a) + k)) + 0x1a) AND NOT a) AND 0x20) as)"
proof -
  have uint_1a: "uint (0x1a :: u8) = 0x1a" by simp
  have l': "lanes TYPE('a) (map h as)" for h using l by (simp add: lanes_def)
  have 1: "load_le (map (\<lambda>_. 0x7f) as) AND (load_le as :: 'a word) = load_le (map (\<lambda>a. 0x7f AND a) as)"
    using l' by (subst load_and) (simp_all add: map2_const')
  have 2: "load_le (map (\<lambda>a. 0x7f AND a) as) + (load_le (map (\<lambda>_. k) as) :: 'a word) =
      load_le (map (\<lambda>a. (0x7f AND a) + k) as)"
    using l' by (subst load_add) (simp_all only: map2_map length_map nth_map f)
  have 3: "load_le (map (\<lambda>_. 0x7f) as) AND (load_le (map (\<lambda>a. (0x7f AND a) + k) as) :: 'a word) =
      load_le (map (\<lambda>a. 0x7f AND ((0x7f AND a) + k)) as)"
    using l' by (subst load_and) (simp_all only: map2_map length_map)
  have 4: "load_le (map (\<lambda>a. 0x7f AND ((0x7f AND a) + k)) as) + (load_le (map (\<lambda>_. 0x1a) as) :: 'a word) =
      load_le (map (\<lambda>a. (0x7f AND ((0x7f AND a) + k)) + 0x1a) as)"
    using l' g by (subst load_add) (simp_all only: map2_map length_map nth_map uint_1a)
  have 5: "load_le (map (\<lambda>a. (0x7f AND ((0x7f AND a) + k)) + 0x1a) as) AND (load_le (map NOT as) :: 'a word) =
      load_le (map (\<lambda>a. ((0x7f AND ((0x7f AND a) + k)) + 0x1a) AND NOT a) as)"
    using l' by (subst load_and) (simp_all only: map2_map length_map)
  have 6: "drop_bit 2 (load_le (map (\<lambda>a. ((0x7f AND ((0x7f AND a) + k)) + 0x1a) AND NOT a) as) :: 'a word) AND
        load_le (map (\<lambda>_. 0x20) as) =
      load_le (map (\<lambda>a. drop_bit 2 (((0x7f AND ((0x7f AND a) + k)) + 0x1a) AND NOT a) AND 0x20) as)"
    using load_shift [OF l'] by (simp only: map_map comp_def)
  show ?thesis by (simp only: load_not [OF l] 1 2 3 4 5 6)
qed


lemma map2_id: "map2 f as (map h as) = map (\<lambda>a. f a (h a)) as"
  by (induction as) auto

lemma uint_lits: "uint (0x05 :: u8) = 0x05" "uint (0x25 :: u8) = 0x25" by simp_all

lemma upper_reg_lanes:
  assumes l: "lanes TYPE('a::len) as"
  shows "upper_reg (load_le (map (\<lambda>_. 0x7f) as)) (load_le (map (\<lambda>_. 0x05) as)) (load_le (map (\<lambda>_. 0x1a) as))
    (load_le (map (\<lambda>_. 0x20) as)) (load_le as :: 'a word) = load_le (map ascii_upper as)"
proof -
  let ?m = "load_le (map (\<lambda>a. drop_bit 2 (((0x7f AND ((0x7f AND a) + 0x05)) + 0x1a) AND NOT a) AND 0x20) as) :: 'a word"
  have "upper_reg (load_le (map (\<lambda>_. 0x7f) as)) (load_le (map (\<lambda>_. 0x05) as)) (load_le (map (\<lambda>_. 0x1a) as))
      (load_le (map (\<lambda>_. 0x20) as)) (load_le as) = load_le as - ?m"
    unfolding upper_reg_def by (subst reg_mask [OF l]) (simp_all only: uint_lits lane_facts)
  also have "load_le as - ?m = load_le (map2 (-) as (map (\<lambda>a. drop_bit 2 (((0x7f AND ((0x7f AND a) + 0x05)) + 0x1a) AND NOT a) AND 0x20) as))"
    by (intro load_sub [OF l]) (simp_all only: length_map nth_map lane_facts)
  also have "\<dots> = load_le (map upper_lane as)"
    by (simp only: map2_id upper_lane_def [abs_def])
  finally show ?thesis by (simp only: ext [of upper_lane ascii_upper, OF upper_lane])
qed

lemma lower_reg_lanes:
  assumes l: "lanes TYPE('a::len) as"
  shows "lower_reg (load_le (map (\<lambda>_. 0x7f) as)) (load_le (map (\<lambda>_. 0x25) as)) (load_le (map (\<lambda>_. 0x1a) as))
    (load_le (map (\<lambda>_. 0x20) as)) (load_le as :: 'a word) = load_le (map ascii_lower as)"
proof -
  let ?m = "load_le (map (\<lambda>a. drop_bit 2 (((0x7f AND ((0x7f AND a) + 0x25)) + 0x1a) AND NOT a) AND 0x20) as) :: 'a word"
  have "lower_reg (load_le (map (\<lambda>_. 0x7f) as)) (load_le (map (\<lambda>_. 0x25) as)) (load_le (map (\<lambda>_. 0x1a) as))
      (load_le (map (\<lambda>_. 0x20) as)) (load_le as) = load_le as + ?m"
    unfolding lower_reg_def by (subst reg_mask [OF l]) (simp_all only: uint_lits lane_facts)
  also have "load_le as + ?m = load_le (map2 (+) as (map (\<lambda>a. drop_bit 2 (((0x7f AND ((0x7f AND a) + 0x25)) + 0x1a) AND NOT a) AND 0x20) as))"
    by (intro load_add [OF l]) (simp_all only: length_map nth_map lane_facts)
  also have "\<dots> = load_le (map lower_lane as)"
    by (simp only: map2_id lower_lane_def [abs_def])
  finally show ?thesis by (simp only: ext [of lower_lane ascii_lower, OF lower_lane])
qed

lemma length_4: "length as = 4 \<Longrightarrow> map (\<lambda>_. c) as = [c, c, c, c]"
  by (simp add: map_replicate_const numeral_eq_Suc)

lemma length_8: "length as = 8 \<Longrightarrow> map (\<lambda>_. c) as = [c, c, c, c, c, c, c, c]"
  by (simp add: map_replicate_const numeral_eq_Suc)

lemma toupper_lanes: "length as = 4 \<Longrightarrow> switch_toupper (load_le as) = load_le (map ascii_upper as)"
  using upper_reg_lanes [where 'a = 32, of as]
  by (simp add: lanes_def length_4 upper_reg_def switch_toupper_def Let_def) (simp add: load_le_def)


lemma tolower_lanes: "length as = 4 \<Longrightarrow> switch_tolower (load_le as) = load_le (map ascii_lower as)"
  using lower_reg_lanes [where 'a = 32, of as]
  by (simp add: lanes_def length_4 lower_reg_def switch_tolower_def Let_def) (simp add: load_le_def)

lemma toupper64_lanes: "length as = 8 \<Longrightarrow> switch_toupper64 (load_le as) = load_le (map ascii_upper as)"
  using upper_reg_lanes [where 'a = 64, of as]
  by (simp add: lanes_def length_8 upper_reg_def switch_toupper64_def Let_def) (simp add: load_le_def)

lemma tolower64_lanes: "length as = 8 \<Longrightarrow> switch_tolower64 (load_le as) = load_le (map ascii_lower as)"
  using lower_reg_lanes [where 'a = 64, of as]
  by (simp add: lanes_def length_8 lower_reg_def switch_tolower64_def Let_def) (simp add: load_le_def)

lemma store_load:
  assumes "lanes TYPE('a::len) as"
  shows "store_le (load_le as :: 'a word) = as"
proof (rule nth_equalityI)
  show l: "length (store_le (load_le as :: 'a word)) = length as"
    using assms by (simp add: store_le_def lanes_def flip: assms [unfolded lanes_def])
  fix i assume "i < length (store_le (load_le as :: 'a word))"
  then have i: "i < length as" by (simp only: l)
  moreover have "i < LENGTH('a) div 8" using i assms by (simp add: lanes_def flip: assms [unfolded lanes_def])
  moreover have "ucast (drop_bit (8 * i) (load_le as :: 'a word)) = as ! i"
    using i by (intro bit_word_eqI) (simp add: bit_ucast_iff bit_drop_bit_eq bit_load [OF assms])
  ultimately show "store_le (load_le as :: 'a word) ! i = as ! i" by (simp add: store_le_def)
qed

lemma scast_load: "(scast (c :: u8) :: u32) = load_le [c, if bit c 7 then -1 else 0, if bit c 7 then -1 else 0, if bit c 7 then -1 else 0]"
  (is "_ = load_le ?l")
proof (rule bit_word_eqI)
  fix n assume "n < LENGTH(32)"
  then have n: "n < 32" by simp
  have l: "lanes TYPE(32) ?l" by (simp add: lanes_def)
  show "bit (scast c :: u32) n \<longleftrightarrow> bit (load_le ?l :: u32) n"
  proof (cases "n < 8")
    case True
    then have "n div 8 = 0" "n mod 8 = n" by auto
    then show ?thesis using True by (simp add: bit_load [OF l] bit_word_scast_iff)
  next
    case False
    then have "n div 8 \<in> {1, 2, 3}" using n by auto
    then have h: "?l ! (n div 8) = (if bit c 7 then -1 else 0)" by auto
    have "\<not> bit c n" using False bit_imp_le_length [of c n] by auto
    moreover have "n div 8 < length ?l" using n by auto
    ultimately show ?thesis using False n
      by (simp only: bit_load [OF l] bit_word_scast_iff h) (cases "bit c 7", auto)
  qed
qed

lemma ucast_load: "(ucast (load_le [a, b, c, d] :: u32) :: u8) = a"
proof (rule bit_word_eqI)
  fix n assume "n < LENGTH(8)"
  then have "n div 8 = 0" "n mod 8 = n" "n < 8" by auto
  moreover have "lanes TYPE(32) [a, b, c, d]" by (simp add: lanes_def)
  ultimately show "bit (ucast (load_le [a, b, c, d] :: u32) :: u8) n \<longleftrightarrow> bit a n"
    by (simp add: bit_ucast_iff bit_load)
qed

lemma char_case: "toupper_char c = ascii_upper c" "tolower_char c = ascii_lower c"
  unfolding toupper_char_def tolower_char_def scast_load
  by (subst toupper_lanes tolower_lanes, simp, simp only: list.map ucast_load)+

lemma case_max_bytewise_eqs:
  "switch_toupper_max64 s = map ascii_upper s" "switch_tolower_max64 s = map ascii_lower s"
  "switch_toupper_max32 s = map ascii_upper s" "switch_tolower_max32 s = map ascii_lower s"
proof -
  have t: "map f (take n s) @ map f (drop n s) = map f s" for f :: "u8 \<Rightarrow> u8" and n and s
    by (simp flip: map_append)
  show "switch_toupper_max64 s = map ascii_upper s"
  proof (induction s rule: switch_toupper_max64.induct)
    case (1 s)
    then show ?case by (subst switch_toupper_max64.simps)
      (auto simp: toupper64_lanes store_load lanes_def char_case t)
  qed
  show "switch_tolower_max64 s = map ascii_lower s"
  proof (induction s rule: switch_tolower_max64.induct)
    case (1 s)
    then show ?case by (subst switch_tolower_max64.simps)
      (auto simp: tolower64_lanes store_load lanes_def char_case t)
  qed
  show "switch_toupper_max32 s = map ascii_upper s"
  proof (induction s rule: switch_toupper_max32.induct)
    case (1 s)
    then show ?case by (subst switch_toupper_max32.simps)
      (auto simp: toupper_lanes store_load lanes_def char_case t)
  qed
  show "switch_tolower_max32 s = map ascii_lower s"
  proof (induction s rule: switch_tolower_max32.induct)
    case (1 s)
    then show ?case by (subst switch_tolower_max32.simps)
      (auto simp: tolower_lanes store_load lanes_def char_case t)
  qed
qed

text \<open>
  C31: converting a string in place with the register routines, eight or four bytes at a
  time and the rest one by one, is converting each byte on its own: letters of the ASCII
  alphabet change case, and every other byte, those above 127 included, stays.
\<close>

theorem case_max_bytewise:
  "switch_toupper_max64 s = map ascii_upper s \<and> switch_tolower_max64 s = map ascii_lower s \<and>
   switch_toupper_max32 s = map ascii_upper s \<and> switch_tolower_max32 s = map ascii_lower s"
  by (simp only: case_max_bytewise_eqs simp_thms)

end
