(* ===== verification/Hashing.thy ===== *)
theory Hashing
  imports Ascii_Case
begin

unbundle bit_operations_syntax

text \<open>
  The inline parts of the hash table,
  \<^verbatim>\<open>crates/fswtch-src/freeswitch/src/include/switch_hashtable.h\<close> (key hashes and key
  comparisons) and \<^verbatim>\<open>private/switch_hashtable_private.h\<close> (the mixing step and the bucket
  index). A \<^verbatim>\<open>void *\<close> key is its value: a 32-bit number, or the bytes of a C string before
  the NUL. \<^verbatim>\<open>strcmp\<close> and \<^verbatim>\<open>strcasecmp\<close> are those of the C locale.
\<close>

section \<open>Comparisons of the C library\<close>

fun strcmp :: "u8 list \<Rightarrow> u8 list \<Rightarrow> int" where
  "strcmp [] [] = 0"
| "strcmp [] (b # _) = - uint b"
| "strcmp (a # _) [] = uint a"
| "strcmp (a # as) (b # bs) = (if a \<noteq> b then uint a - uint b else if a = 0 then 0 else strcmp as bs)"

definition strcasecmp :: "u8 list \<Rightarrow> u8 list \<Rightarrow> int" where
  "strcasecmp a b = strcmp (map ascii_lower a) (map ascii_lower b)"

section \<open>Keys\<close>

definition switch_hash_default_int :: "u32 \<Rightarrow> u32" where
  "switch_hash_default_int x =
     (let x = (drop_bit 16 x XOR x) * 0x45d9f3b;
          x = (drop_bit 16 x XOR x) * 0x45d9f3b
      in drop_bit 16 x XOR x)"

definition switch_hash_equalkeys_int :: "u32 \<Rightarrow> u32 \<Rightarrow> int" where
  "switch_hash_equalkeys_int k1 k2 = (if k1 = k2 then 1 else 0)"

definition switch_hash_equalkeys :: "u8 list \<Rightarrow> u8 list \<Rightarrow> int" where
  "switch_hash_equalkeys k1 k2 = (if strcmp k1 k2 \<noteq> 0 then 0 else 1)"

definition switch_hash_equalkeys_ci :: "u8 list \<Rightarrow> u8 list \<Rightarrow> int" where
  "switch_hash_equalkeys_ci k1 k2 = (if strcasecmp k1 k2 \<noteq> 0 then 0 else 1)"

definition hash_step :: "u32 \<Rightarrow> u32 \<Rightarrow> u32" where
  "hash_step h c = c + push_bit 6 h + push_bit 16 h - h"

fun hash_loop :: "u32 \<Rightarrow> u8 list \<Rightarrow> u32" where
  "hash_loop h [] = h"
| "hash_loop h (b # bs) = (if b = 0 then h else hash_loop (hash_step h (ucast b)) bs)"

definition switch_hash_default :: "u8 list \<Rightarrow> u32" where
  "switch_hash_default ky = hash_loop 0 ky"

fun hash_loop_ci :: "u32 \<Rightarrow> u8 list \<Rightarrow> u32" where
  "hash_loop_ci h [] = h"
| "hash_loop_ci h (b # bs) =
     (let c = switch_tolower (ucast b) in if c = 0 then h else hash_loop_ci (hash_step h c) bs)"

definition switch_hash_default_ci :: "u8 list \<Rightarrow> u32" where
  "switch_hash_default_ci ky = hash_loop_ci 0 ky"

section \<open>Buckets\<close>

text \<open>\<^verbatim>\<open>hash(h, k)\<close>, with the table's \<^verbatim>\<open>hashfn\<close> as an argument, and \<^verbatim>\<open>indexFor\<close>.\<close>

definition mix :: "u32 \<Rightarrow> u32" where
  "mix i =
     (let i = i + NOT (push_bit 9 i);
          i = i XOR (drop_bit 14 i OR push_bit 18 i);
          i = i + push_bit 4 i
      in i XOR (drop_bit 10 i OR push_bit 22 i))"

definition hashtable_hash :: "('k \<Rightarrow> u32) \<Rightarrow> 'k \<Rightarrow> u32" where
  "hashtable_hash hashfn k = mix (hashfn k)"

definition indexFor :: "u32 \<Rightarrow> u32 \<Rightarrow> u32" where
  "indexFor tablelength hashvalue = hashvalue mod tablelength"

section \<open>The contract of a key type\<close>

text \<open>
  What the table needs of the functions it is created with: the comparison is an
  equivalence, and equal keys have the same hash. Then equal keys fall into one bucket of
  every table, whatever its length, and a search for either finds the other.
\<close>

locale key_type =
  fixes hashfn :: "'k \<Rightarrow> u32" and eqfn :: "'k \<Rightarrow> 'k \<Rightarrow> int"
  assumes eq_refl: "eqfn k k \<noteq> 0"
    and eq_sym: "eqfn k1 k2 \<noteq> 0 \<Longrightarrow> eqfn k2 k1 \<noteq> 0"
    and eq_trans: "eqfn k1 k2 \<noteq> 0 \<Longrightarrow> eqfn k2 k3 \<noteq> 0 \<Longrightarrow> eqfn k1 k3 \<noteq> 0"
    and eq_hash: "eqfn k1 k2 \<noteq> 0 \<Longrightarrow> hashfn k1 = hashfn k2"
begin

definition bucket :: "u32 \<Rightarrow> 'k \<Rightarrow> u32" where
  "bucket n k = indexFor n (hashtable_hash hashfn k)"

lemma same_bucket: "eqfn k1 k2 \<noteq> 0 \<Longrightarrow> bucket n k1 = bucket n k2"
  by (simp add: bucket_def hashtable_hash_def eq_hash)

lemma other_bucket_differs: "bucket n k1 \<noteq> bucket n k2 \<Longrightarrow> eqfn k1 k2 = 0"
  using same_bucket by blast

lemma bucket_less: "n \<noteq> 0 \<Longrightarrow> bucket n k < n"
  by (simp add: bucket_def indexFor_def word_less_nat_alt unat_mod unat_gt_0)

end

text \<open>The characters of a C string: those before the first NUL.\<close>

definition cstr :: "u8 list \<Rightarrow> u8 list" where
  "cstr s = takeWhile (\<lambda>c. c \<noteq> 0) s"

lemma cstr_simps [simp]: "cstr [] = []" "cstr (a # s) = (if a = 0 then [] else a # cstr s)"
  by (simp_all add: cstr_def)

lemma strcmp_eq_0: "strcmp a b = 0 \<longleftrightarrow> cstr a = cstr b"
  by (induction a b rule: strcmp.induct) (auto simp: uint_0_iff dest: word_uint_eqI)

lemma ascii_lower_eq_0 [simp]: "ascii_lower a = 0 \<longleftrightarrow> a = 0"
  by (auto simp: ascii_lower_def simp flip: eq_neg_iff_add_eq_0)

lemma cstr_lower: "cstr (map ascii_lower s) = map ascii_lower (cstr s)"
  by (induction s) auto

lemma hash_loop_foldl: "hash_loop h s = foldl hash_step h (map ucast (cstr s))"
  by (induction h s rule: hash_loop.induct) auto

lemma tolower_ucast: "switch_tolower (ucast b) = ucast (ascii_lower b)"
proof -
  have "ucast c = (load_le [c, 0, 0, 0] :: u32)" for c by (simp add: load_le_def word_of_int_uint)
  then show ?thesis using tolower_lanes [of "[b, 0, 0, 0]"] by (simp add: ascii_lower_def)
qed

lemma ucast_u32_eq_0: "(ucast (b :: u8) :: u32) = 0 \<longleftrightarrow> b = 0"
proof -
  have "uint (ucast b :: u32) = uint b"
    by (simp add: unsigned_ucast_eq take_bit_int_eq_self order_less_le_trans [OF uint_lt2p])
  then show ?thesis by (metis uint_0_iff)
qed

lemma hash_loop_ci_foldl: "hash_loop_ci h s = foldl hash_step h (map ucast (cstr (map ascii_lower s)))"
  by (induction h s rule: hash_loop_ci.induct) (auto simp: Let_def tolower_ucast ucast_u32_eq_0)

interpretation int_keys: key_type switch_hash_default_int switch_hash_equalkeys_int
  by unfold_locales (simp_all add: switch_hash_equalkeys_int_def split: if_splits)

interpretation str_keys: key_type switch_hash_default switch_hash_equalkeys
  by unfold_locales
     (simp_all add: switch_hash_equalkeys_def strcmp_eq_0 switch_hash_default_def hash_loop_foldl split: if_splits)

interpretation ci_keys: key_type switch_hash_default_ci switch_hash_equalkeys_ci
  by unfold_locales
     (simp_all add: switch_hash_equalkeys_ci_def strcasecmp_def strcmp_eq_0 switch_hash_default_ci_def
        hash_loop_ci_foldl split: if_splits)

section \<open>Properties\<close>

lemma xorshift_inv: "drop_bit 16 (drop_bit 16 x XOR x) XOR (drop_bit 16 x XOR x) = (x :: u32)"
proof -
  have "drop_bit 32 x = 0"
    by (rule bit_word_eqI) (auto simp: bit_drop_bit_eq dest: bit_imp_le_length)
  then show ?thesis by (simp add: drop_bit_xor xor.assoc [symmetric])
qed

text \<open>
  the hash of integer keys loses nothing: different 32-bit keys have different hashes.
\<close>

lemma hash_int_injective: "switch_hash_default_int x = switch_hash_default_int y \<longleftrightarrow> x = y"
proof
  let ?s = "\<lambda>x :: u32. drop_bit 16 x XOR x" and ?m = "\<lambda>x :: u32. x * 0x45d9f3b"
  have s: "?s x = ?s y \<Longrightarrow> x = y" for x y using xorshift_inv by metis
  have m: "?m x = ?m y \<Longrightarrow> x = y" for x y
  proof -
    assume "?m x = ?m y"
    then have "x * (0x45d9f3b * 0x119de1f3) = y * (0x45d9f3b * 0x119de1f3)"
      by (simp only: mult.assoc [symmetric])
    moreover have "(0x45d9f3b * 0x119de1f3 :: u32) = 1" by code_simp
    ultimately show "x = y" by (simp only: mult_1_right)
  qed
  assume "switch_hash_default_int x = switch_hash_default_int y"
  then have "?s (?m (?s (?m (?s x)))) = ?s (?m (?s (?m (?s y))))"
    by (simp only: switch_hash_default_int_def Let_def)
  then show "x = y" by (blast dest: s m)
qed simp

text \<open>
  keys that compare equal without regard to case go to the same bucket, of every
  table; the bucket exists.
\<close>

lemma ci_keys_same_bucket:
  assumes "switch_hash_equalkeys_ci k1 k2 \<noteq> 0" "n \<noteq> 0"
  shows "indexFor n (hashtable_hash switch_hash_default_ci k1) = indexFor n (hashtable_hash switch_hash_default_ci k2) \<and>
    indexFor n (hashtable_hash switch_hash_default_ci k1) < n"
  using ci_keys.same_bucket [OF assms(1), of n] ci_keys.bucket_less [OF assms(2), of k1]
  by (simp add: ci_keys.bucket_def)

lemma ci_keys_same_bucket_witness:
  "indexFor 65 (hashtable_hash switch_hash_default_ci [67, 97, 108, 108]) =
     indexFor 65 (hashtable_hash switch_hash_default_ci [99, 65, 76, 76]) \<and>
   indexFor 65 (hashtable_hash switch_hash_default_ci [67, 97, 108, 108]) < 65"
  by (rule ci_keys_same_bucket)
     (simp_all add: switch_hash_equalkeys_ci_def strcasecmp_def ascii_lower_def)

text \<open>
  The mixing step throws half of the hash values away. Where the Java original shifts,
  it rotates, and \<open>x XOR rotate x\<close> has the same value for \<open>x\<close> and its complement; so every
  hash \<open>u\<close> collides with another one, \<open>- u - 0xf7fbfdff\<close>, for every table length.
\<close>

lemma mix_two_to_one: "mix (- u - 0xf7fbfdff) = mix u \<and> - u - 0xf7fbfdff \<noteq> u"
proof
  have n: "(- u - 0xf7fbfdff) + NOT (push_bit 9 (- u - 0xf7fbfdff)) = NOT (u + NOT (push_bit 9 u))"
    by (simp add: push_bit_eq_mult not_eq_complement)
  have r: "NOT x XOR (drop_bit 14 (NOT x) OR push_bit 18 (NOT x)) = x XOR (drop_bit 14 x OR push_bit 18 x)" for x :: u32
    by (rule bit_word_eqI)
       (auto simp: bit_xor_iff bit_or_iff bit_not_iff bit_drop_bit_eq bit_push_bit_iff possible_bit_def
          dest: bit_imp_le_length)
  show "mix (- u - 0xf7fbfdff) = mix u"
    unfolding mix_def Let_def n r by (rule refl)
  show "- u - 0xf7fbfdff \<noteq> u"
  proof
    assume "- u - 0xf7fbfdff = u"
    then have "- u - 0xf7fbfdff + u = u + u" by (simp only:)
    then have "- 0xf7fbfdff = 2 * u" by simp
    then have "odd (2 * u) = odd (- 0xf7fbfdff :: u32)" by (simp only:)
    then show False by simp
  qed
qed

end
