(* ===== verification/C_String.thy ===== *)
theory C_String
  imports Prelude "HOL-Library.Sublist"
begin

text \<open>
  The functions of the C string library that the inline helpers use, in the C locale. A
  string is the list of its characters before the NUL, a pointer into it an offset, and
  the character at the end offset is the NUL.
\<close>

abbreviation NUL :: char where "NUL \<equiv> CHR 0x00"

definition c_at :: "string \<Rightarrow> nat \<Rightarrow> char" where
  "c_at s i = (if i < length s then s ! i else NUL)"

definition strchr :: "string \<Rightarrow> char \<Rightarrow> nat option" where
  "strchr s c = (if c = NUL then Some (length s)
     else if c \<in> set s then Some (length (takeWhile (\<lambda>x. x \<noteq> c) s)) else None)"

definition strrchr :: "string \<Rightarrow> char \<Rightarrow> nat option" where
  "strrchr s c = (if c = NUL then Some (length s)
     else if c \<in> set s then Some (length s - Suc (length (takeWhile (\<lambda>x. x \<noteq> c) (rev s)))) else None)"

text \<open>\<^verbatim>\<open>strstr(s, q) != NULL\<close>.\<close>

fun strstr :: "string \<Rightarrow> string \<Rightarrow> bool" where
  "strstr [] q = (q = [])"
| "strstr (c # s) q = (take (length q) (c # s) = q \<or> strstr s q)"

definition tolower :: "char \<Rightarrow> char" where
  "tolower c = (let n = of_char c :: nat in if 65 \<le> n \<and> n \<le> 90 then char_of (n + 32) else c)"

definition toupper :: "char \<Rightarrow> char" where
  "toupper c = (let n = of_char c :: nat in if 97 \<le> n \<and> n \<le> 122 then char_of (n - 32) else c)"

text \<open>\<^verbatim>\<open>!strcasecmp(a, b)\<close>.\<close>

definition strcaseeq :: "string \<Rightarrow> string \<Rightarrow> bool" where
  "strcaseeq a b \<longleftrightarrow> map tolower a = map tolower b"

definition isspace :: "char \<Rightarrow> bool" where
  "isspace c \<longleftrightarrow> c \<in> set [CHR '' '', CHR 0x09, CHR 0x0A, CHR 0x0B, CHR 0x0C, CHR 0x0D]"

definition isdigit :: "char \<Rightarrow> bool" where
  "isdigit c \<longleftrightarrow> (let n = of_char c :: nat in 48 \<le> n \<and> n \<le> 57)"

definition digits_value :: "string \<Rightarrow> int" where
  "digits_value ds = foldl (\<lambda>v d. 10 * v + (of_char d - 48)) 0 ds"

text \<open>
  \<^verbatim>\<open>atoi\<close> as glibc has it: \<^verbatim>\<open>(int) strtol(s, NULL, 10)\<close>. The number saturates at the bounds
  of the 64-bit \<^verbatim>\<open>long\<close>, and its low 32 bits are the result.
\<close>

definition decimal_value :: "string \<Rightarrow> int" where
  "decimal_value s =
     (let s = dropWhile isspace s in
      case s of
        [] \<Rightarrow> 0
      | c # t \<Rightarrow>
          if c = CHR ''-'' then - digits_value (takeWhile isdigit t)
          else if c = CHR ''+'' then digits_value (takeWhile isdigit t)
          else digits_value (takeWhile isdigit s))"

definition atoi :: "string \<Rightarrow> int" where
  "atoi s = cast_i32 (max LONG_MIN (min LONG_MAX (decimal_value s)))"

lemma atoi_id: "INT_MIN \<le> decimal_value s \<Longrightarrow> decimal_value s \<le> INT_MAX \<Longrightarrow> atoi s = decimal_value s"
  by (simp add: atoi_def cast_i32_id cval)

lemma atoi_wraps: "atoi ''4294967295'' = -1" "atoi ''9223372036854775808'' = -1"
  by (simp_all add: atoi_def decimal_value_def isspace_def isdigit_def digits_value_def cast_i32_def cval)

section \<open>Facts\<close>

lemma takeWhile_neq_less: "c \<in> set s \<Longrightarrow> length (takeWhile (\<lambda>x. x \<noteq> c) s) < length s"
  by (induction s) auto

lemma strchr_Some:
  assumes "strchr s c = Some i" "c \<noteq> NUL"
  shows "i < length s" "s ! i = c" "c \<notin> set (take i s)"
proof -
  have c: "c \<in> set s" and i: "i = length (takeWhile (\<lambda>x. x \<noteq> c) s)"
    using assms by (auto simp: strchr_def split: if_splits)
  show l: "i < length s" unfolding i using c by (rule takeWhile_neq_less)
  show "s ! i = c" unfolding i using l i nth_length_takeWhile [of "\<lambda>x. x \<noteq> c" s] by simp
  have "take i s = takeWhile (\<lambda>x. x \<noteq> c) s" unfolding i by (rule takeWhile_eq_take [symmetric])
  then show "c \<notin> set (take i s)" by (auto dest: set_takeWhileD)
qed

lemma strchr_None: "c \<noteq> NUL \<Longrightarrow> strchr s c = None \<longleftrightarrow> c \<notin> set s"
  by (simp add: strchr_def)

lemma strrchr_Some:
  assumes "strrchr s c = Some i" "c \<noteq> NUL"
  shows "i < length s" "s ! i = c"
proof -
  let ?k = "length (takeWhile (\<lambda>x. x \<noteq> c) (rev s))"
  have c: "c \<in> set s" and i: "i = length s - Suc ?k"
    using assms by (auto simp: strrchr_def split: if_splits)
  have k: "?k < length (rev s)" using c by (intro takeWhile_neq_less) simp
  then show "i < length s" by (simp add: i)
  have "rev s ! ?k = c" using k nth_length_takeWhile [of "\<lambda>x. x \<noteq> c" "rev s"] by simp
  then show "s ! i = c" using k by (simp add: i rev_nth)
qed

lemma strrchr_None: "c \<noteq> NUL \<Longrightarrow> strrchr s c = None \<longleftrightarrow> c \<notin> set s"
  by (simp add: strrchr_def)

lemma strstr_sublist: "strstr s q \<longleftrightarrow> sublist q s"
proof (induction s)
  case (Cons c s)
  have "take (length q) (c # s) = q \<longleftrightarrow> prefix q (c # s)"
    by (metis append_eq_conv_conj prefix_def)
  with Cons show ?case by (simp add: sublist_Cons_right)
qed simp

lemma case_idem:
  "toupper (toupper c) = toupper c" "tolower (tolower c) = tolower c"
  by (auto simp: toupper_def tolower_def Let_def)

end
