(* ===== verification/Switch_Strings.thy ===== *)
theory Switch_Strings
  imports C_String
begin

unbundle bit_operations_syntax

text \<open>
  The inline string helpers of
  \<^verbatim>\<open>crates/fswtch-src/freeswitch/src/include/switch_utils.h\<close>. A \<^verbatim>\<open>char *\<close> that may be NULL
  is an option; a function that edits its argument in place returns the edited string, and
  a returned pointer into the argument is an offset or the suffix it points to.
\<close>

section \<open>Tests\<close>

definition zstr :: "string option \<Rightarrow> bool" where
  "zstr s = (case s of None \<Rightarrow> True | Some t \<Rightarrow> t = [])"

definition switch_is_moh :: "string option \<Rightarrow> bool" where
  "switch_is_moh s = (if zstr s \<or> strcaseeq (the s) ''silence'' \<or> strcaseeq (the s) ''indicate_hold'' then False else True)"

fun strict_loop :: "char \<Rightarrow> string option \<Rightarrow> nat \<Rightarrow> string \<Rightarrow> nat option" where
  "strict_loop ch allowed i [] = Some i"
| "strict_loop ch allowed i (c # p) =
     (if c = ch then Some i
      else if (case allowed of None \<Rightarrow> True | Some a \<Rightarrow> c \<in> set a) then strict_loop ch allowed (Suc i) p
      else None)"

definition switch_strchr_strict :: "string \<Rightarrow> char \<Rightarrow> string option \<Rightarrow> nat option" where
  "switch_strchr_strict s ch allowed = (if s = [] then None else strict_loop ch allowed 0 s)"

text \<open>The loop at a pointer to a backslash.\<close>

fun escaped_loop :: "string \<Rightarrow> bool" where
  "escaped_loop [] = False"
| "escaped_loop (c # i) =
     (if c = CHR 0x5C then
        (if c_at i 0 \<in> set [CHR 0x5C, CHR ''n'', CHR ''s'', CHR ''t'', CHR 0x27] then True
         else case strchr i (CHR 0x5C) of None \<Rightarrow> False | Some j \<Rightarrow> escaped_loop (drop j i))
      else False)"

definition switch_string_has_escaped_data :: "string \<Rightarrow> bool" where
  "switch_string_has_escaped_data s =
     (case strchr s (CHR 0x5C) of None \<Rightarrow> False | Some i \<Rightarrow> escaped_loop (drop i s))"

fun switch_is_digit_string :: "string \<Rightarrow> bool" where
  "switch_is_digit_string [] = True"
| "switch_is_digit_string (c # s) =
     (if of_char c < (48::nat) \<or> of_char c > (57::nat) then False else switch_is_digit_string s)"

text \<open>\<^verbatim>\<open>switch_is_number\<close> is not in the repository: the argument \<open>is_number\<close>.\<close>

definition switch_true :: "(string \<Rightarrow> bool) \<Rightarrow> string option \<Rightarrow> bool" where
  "switch_true is_number expr =
     (case expr of None \<Rightarrow> False
      | Some e \<Rightarrow> strcaseeq e ''yes'' \<or> strcaseeq e ''on'' \<or> strcaseeq e ''true'' \<or> strcaseeq e ''t'' \<or>
          strcaseeq e ''enabled'' \<or> strcaseeq e ''active'' \<or> strcaseeq e ''allow'' \<or>
          (is_number e \<and> atoi e \<noteq> 0))"

definition switch_false :: "(string \<Rightarrow> bool) \<Rightarrow> string option \<Rightarrow> bool" where
  "switch_false is_number expr =
     (case expr of None \<Rightarrow> False
      | Some e \<Rightarrow> strcaseeq e ''no'' \<or> strcaseeq e ''off'' \<or> strcaseeq e ''false'' \<or> strcaseeq e ''f'' \<or>
          strcaseeq e ''disabled'' \<or> strcaseeq e ''inactive'' \<or> strcaseeq e ''disallow'' \<or>
          (is_number e \<and> atoi e = 0))"

definition SWITCH_URL_UNSAFE :: string where [cval]:
  "SWITCH_URL_UNSAFE = [CHR 0x0D, CHR 0x0A] @ '' #%&+:;<=>?@['' @ [CHR 0x5C] @ '']^`{|}'' @ [CHR 0x22]"

fun url_loop :: "string \<Rightarrow> bool" where
  "url_loop [] = False"
| "url_loop (c # p) =
     (if c = CHR ''%'' \<and> length p > 1 \<and>
         strchr ''0123456789ABCDEF'' (c_at p 0) \<noteq> None \<and> strchr ''0123456789ABCDEF'' (c_at p 1) \<noteq> None
      then url_loop (tl p)
      else if strchr SWITCH_URL_UNSAFE c \<noteq> None then True
      else url_loop p)"

definition switch_needs_url_encode :: "string \<Rightarrow> bool" where
  "switch_needs_url_encode s = url_loop s"

section \<open>Numbers\<close>

definition switch_round_to_step :: "u32 \<Rightarrow> u32 \<Rightarrow> u32 option" where
  "switch_round_to_step num step =
     (if num = 0 then Some 0
      else if step = 0 then None
      else let r = num mod step; x = num - r in Some (if r > step div 2 then x + step else x))"

definition switch_itodtmf :: "u8 \<Rightarrow> u8" where
  "switch_itodtmf i = (if sint i > 9 \<and> sint i < 14 then i + 55 else i + 48)"

definition switch_dtmftoi :: "string \<Rightarrow> int" where
  "switch_dtmftoi s =
     (let r = atoi s in
      if r = 0 then (let l = of_char (tolower (c_at s 0)) :: int in if l > 96 \<and> l < 101 then l - 87 else r)
      else r)"

definition switch_known_bitrate :: "u8 \<Rightarrow> u32" where
  "switch_known_bitrate payload =
     (if payload = 0 then 64000 else if payload = 3 then 13200 else if payload = 4 then 6300
      else if payload = 7 then 2400 else if payload = 8 then 64000 else if payload = 9 then 64000
      else if payload = 18 then 8000 else 0)"

definition is_dtmf :: "int \<Rightarrow> bool" where
  "is_dtmf key \<longleftrightarrow> (key > 47 \<and> key < 58) \<or> (key > 64 \<and> key < 69) \<or> (key > 96 \<and> key < 101) \<or>
     key = 35 \<or> key = 42 \<or> key = 87 \<or> key = 119 \<or> key = 70 \<or> key = 102"

definition switch_safe_atoi :: "string option \<Rightarrow> int \<Rightarrow> int" where
  "switch_safe_atoi nptr dft = (case nptr of None \<Rightarrow> dft | Some s \<Rightarrow> atoi s)"

section \<open>Cleaning\<close>

function cut_at :: "string \<Rightarrow> string" where
  "cut_at s = (case strrchr s (CHR ''@'') of None \<Rightarrow> s | Some q \<Rightarrow> cut_at (take q s))"
  by pat_completeness auto
termination by (relation "measure length") (auto dest: strrchr_Some)

text \<open>The characters \<open>c\<close> are those of \<^verbatim>\<open>warp\<close>, none of them the NUL.\<close>

function skip_past :: "char \<Rightarrow> string \<Rightarrow> string" where
  "skip_past c p = (if c = NUL then p
     else case strchr p c of None \<Rightarrow> p | Some q \<Rightarrow> skip_past c (drop (Suc q) p))"
  by pat_completeness auto
termination by (relation "measure (length \<circ> snd)") (auto dest: strchr_Some)

declare cut_at.simps [simp del] skip_past.simps [simp del]

definition switch_sanitize_number :: "string \<Rightarrow> string" where
  "switch_sanitize_number number =
     (if strchr number (CHR ''/'') = None \<and> strchr number (CHR '':'') = None \<and> strchr number (CHR ''@'') = None
      then number
      else foldl (\<lambda>p c. skip_past c p) (cut_at number) ''/:'')"

fun var_check_loop :: "bool \<Rightarrow> nat list \<Rightarrow> nat option \<Rightarrow> string \<Rightarrow> bool \<times> string" where
  "var_check_loop disable [] dol s = (False, s)"
| "var_check_loop disable (p # ps) dol s =
     (if s ! p = CHR ''$'' then var_check_loop disable ps (Some p) s
      else case dol of
        None \<Rightarrow> var_check_loop disable ps None s
      | Some d \<Rightarrow>
          if s ! p = CHR ''{'' then
            (if disable then var_check_loop disable ps None (s[d := CHR ''%'']) else (True, s))
          else if s ! p \<noteq> CHR 0x5C then var_check_loop disable ps None s
          else var_check_loop disable ps dol s)"

definition switch_string_var_check :: "string option \<Rightarrow> bool \<Rightarrow> bool \<times> string option" where
  "switch_string_var_check s disable =
     (case s of None \<Rightarrow> (False, None)
      | Some s \<Rightarrow> map_prod id Some (var_check_loop disable [0..<length s] None s))"

fun var_check_const_loop :: "bool \<Rightarrow> string \<Rightarrow> bool" where
  "var_check_const_loop dol [] = False"
| "var_check_const_loop dol (c # p) =
     (if c = CHR ''$'' then var_check_const_loop True p
      else if dol then
        (if c = CHR ''{'' then True
         else if c \<noteq> CHR 0x5C then var_check_const_loop False p
         else var_check_const_loop dol p)
      else var_check_const_loop dol p)"

definition switch_string_var_check_const :: "string option \<Rightarrow> bool" where
  "switch_string_var_check_const s = (case s of None \<Rightarrow> False | Some s \<Rightarrow> var_check_const_loop False s)"

definition switch_var_clean_string :: "string option \<Rightarrow> string option" where
  "switch_var_clean_string s = snd (switch_string_var_check s True)"

definition switch_clean_string :: "string \<Rightarrow> string" where
  "switch_clean_string s =
     map (\<lambda>c. let x = of_char c :: nat in if x < 32 \<and> c \<noteq> CHR 0x0A \<and> c \<noteq> CHR 0x0D then CHR '' '' else c) s"

definition clean_name_char :: "char \<Rightarrow> char" where
  "clean_name_char c =
     (let x = of_char c :: nat in
      if x < 32 \<or> c = CHR 0x27 \<or> c = CHR 0x22 \<or> c = CHR ''<'' \<or> c = CHR ''>'' \<or> c = CHR 0x5C \<or>
         c = CHR '':'' \<or> c = CHR ''@'' \<or> c = CHR ''/'' then CHR '' '' else c)"

text \<open>The loop of \<^verbatim>\<open>switch_clean_name_string\<close>: \<open>at_start\<close> is \<open>p == s\<close>; the result is what \<open>s\<close> points to.\<close>

fun clean_name_loop :: "bool \<Rightarrow> string \<Rightarrow> string" where
  "clean_name_loop at_start [] = []"
| "clean_name_loop at_start (c # p) =
     (let c = clean_name_char c in
      if at_start \<and> c = CHR '' '' then clean_name_loop True p else c # clean_name_loop False p)"

definition switch_clean_name_string :: "string \<Rightarrow> string" where
  "switch_clean_name_string s = clean_name_loop True s"


section \<open>File names with parameters\<close>

text \<open>
  \<^verbatim>\<open>switch_find_end_paren\<close> is not in the repository. It is the argument \<open>find_end\<close>: the
  offset of the bracket that closes the one the string starts with, or \<^const>\<open>None\<close> for NULL.
  The loops of \<^verbatim>\<open>switch_is_file_path\<close> and \<^verbatim>\<open>switch_filecmp\<close> stay where they are when it
  returns NULL, so that \<open>skip_params\<close> may not return.
\<close>

partial_function (option) skip_params :: "(string \<Rightarrow> nat option) \<Rightarrow> string \<Rightarrow> string option" where
  "skip_params find_end file =
     (if c_at file 0 = CHR ''{'' then
        (case find_end file of
           None \<Rightarrow> skip_params find_end file
         | Some e \<Rightarrow> skip_params find_end (dropWhile (\<lambda>c. c = CHR '' '') (drop (Suc e) file)))
      else Some file)"

definition SWITCH_URL_SEPARATOR :: string where [cval]: "SWITCH_URL_SEPARATOR = ''://''"

definition switch_is_file_path :: "(string \<Rightarrow> nat option) \<Rightarrow> string option \<Rightarrow> bool option" where
  "switch_is_file_path find_end file =
     (if zstr file then Some False
      else map_option (\<lambda>f. c_at f 0 = CHR ''/'' \<or> strstr f SWITCH_URL_SEPARATOR) (skip_params find_end (the file)))"

definition switch_filecmp :: "(string \<Rightarrow> nat option) \<Rightarrow> (string \<Rightarrow> string \<Rightarrow> int) \<Rightarrow> string option \<Rightarrow> string option \<Rightarrow> int option" where
  "switch_filecmp find_end cmp a b =
     (if zstr a \<or> zstr b then Some (-1)
      else case skip_params find_end (the a) of
        None \<Rightarrow> None
      | Some a \<Rightarrow> map_option (cmp a) (skip_params find_end (the b)))"

text \<open>
  \<^verbatim>\<open>switch_separate_file_params\<close> does not test for NULL: \<^const>\<open>None\<close> is the access through
  it. \<open>off\<close> is the offset of \<^verbatim>\<open>file\<close> in the copy, \<open>e\<close> that of the last closing bracket.
\<close>

function separate_loop :: "(string \<Rightarrow> nat option) \<Rightarrow> string \<Rightarrow> nat \<Rightarrow> nat option \<Rightarrow> (nat \<times> nat option) option" where
  "separate_loop find_end space off e =
     (if c_at space off = CHR ''{'' then
        (case find_end (drop off space) of
           None \<Rightarrow> None
         | Some k \<Rightarrow>
             (let off' = off + k + 1 in
              separate_loop find_end space
                (off' + length (takeWhile (\<lambda>c. c = CHR '' '') (drop off' space))) (Some (off + k))))
      else Some (off, e))"
  by pat_completeness auto
termination
  by (relation "measure (\<lambda>(_, space, off, _). length space - off)") (auto simp: c_at_def split: if_splits)

declare separate_loop.simps [simp del]

definition switch_separate_file_params :: "(string \<Rightarrow> nat option) \<Rightarrow> string \<Rightarrow> (string \<times> string option) option" where
  "switch_separate_file_params find_end file =
     map_option (\<lambda>(off, e). case e of
         None \<Rightarrow> (file, None)
       | Some e \<Rightarrow> (drop off file, Some (take (Suc e) file)))
       (separate_loop find_end file 0 None)"

datatype switch_audio_col = SWITCH_AUDIO_COL_STR_TITLE | SWITCH_AUDIO_COL_STR_COPYRIGHT
  | SWITCH_AUDIO_COL_STR_SOFTWARE | SWITCH_AUDIO_COL_STR_ARTIST | SWITCH_AUDIO_COL_STR_COMMENT
  | SWITCH_AUDIO_COL_STR_DATE | SWITCH_AUDIO_COL_STR_ALBUM | SWITCH_AUDIO_COL_STR_LICENSE
  | SWITCH_AUDIO_COL_STR_TRACKNUMBER | SWITCH_AUDIO_COL_STR_GENRE | SWITCH_AUDIO_COL_STR_FILE_SIZE
  | SWITCH_AUDIO_COL_STR_FILE_TRIMMED | SWITCH_AUDIO_COL_STR_FILE_TRIMMED_MS

definition switch_parse_audio_col :: "switch_audio_col \<Rightarrow> string option" where
  "switch_parse_audio_col col =
     (case col of
        SWITCH_AUDIO_COL_STR_TITLE \<Rightarrow> Some ''title''
      | SWITCH_AUDIO_COL_STR_COMMENT \<Rightarrow> Some ''comment''
      | SWITCH_AUDIO_COL_STR_ARTIST \<Rightarrow> Some ''artist''
      | SWITCH_AUDIO_COL_STR_DATE \<Rightarrow> Some ''date''
      | SWITCH_AUDIO_COL_STR_SOFTWARE \<Rightarrow> Some ''software''
      | SWITCH_AUDIO_COL_STR_COPYRIGHT \<Rightarrow> Some ''copyright''
      | _ \<Rightarrow> None)"

section \<open>Bytes as text\<close>

text \<open>
  \<^verbatim>\<open>switch_get_hex_bytes\<close>: the loop, and the write of the NUL over the last blank. The
  result is the contents of \<^verbatim>\<open>new_buf\<close> up to the NUL; \<^const>\<open>None\<close> is the write to
  \<^verbatim>\<open>new_buf[-1]\<close> when nothing was converted. \<^verbatim>\<open>pp < ee - 4\<close> is read as a comparison of
  numbers, so that a buffer of less than 4 bytes takes no round.
\<close>

definition hex_char :: "nat \<Rightarrow> char" where
  "hex_char n = ''0123456789abcdef'' ! n"

definition hex_byte :: "u8 \<Rightarrow> string" where
  "hex_byte b = [hex_char (unat b div 16), hex_char (unat b mod 16), CHR '' '']"

fun hex_loop :: "u8 list \<Rightarrow> nat \<Rightarrow> string \<Rightarrow> string" where
  "hex_loop [] len out = out"
| "hex_loop (b # p) len out = (if length out + 4 < len then hex_loop p len (out @ hex_byte b) else out)"

definition switch_get_hex_bytes :: "u8 list \<Rightarrow> nat \<Rightarrow> string option" where
  "switch_get_hex_bytes buf new_datalen =
     (let out = hex_loop buf new_datalen [] in if out = [] then None else Some (butlast out))"

text \<open>\<^verbatim>\<open>switch_print_bits\<close>; \<^verbatim>\<open>buflen\<close> counts the bytes to print, not the size of \<^verbatim>\<open>buf\<close>.\<close>

definition bits_text :: "u8 \<Rightarrow> string" where
  "bits_text b = concat (map (\<lambda>l. (if bit b (7 - l) then ''1'' else ''0'') @ (if Suc l mod 4 = 0 then '' '' else [])) [0..<8])"

definition switch_print_bits :: "u8 list \<Rightarrow> nat \<Rightarrow> string option" where
  "switch_print_bits byte buflen =
     (if length byte < buflen then None
      else let out = concat (map bits_text (take buflen byte)) in if out = [] then None else Some (butlast out))"

section \<open>Properties\<close>

lemma strict_loop_None: "ch \<notin> set s \<Longrightarrow> strict_loop ch None i s = Some (i + length s)"
  by (induction s arbitrary: i) auto

lemma strict_loop_found: "ch \<in> set s \<Longrightarrow> strict_loop ch None i s = Some (i + length (takeWhile (\<lambda>x. x \<noteq> ch) s))"
  by (induction s arbitrary: i) auto

text \<open>
  without a list of allowed characters \<^verbatim>\<open>switch_strchr_strict\<close> agrees with
  \<^verbatim>\<open>strchr\<close> when the character occurs, but where \<^verbatim>\<open>strchr\<close> returns NULL it returns a
  pointer to the end of a non-empty string, though its comment promises the behaviour of
  \<^verbatim>\<open>strchr\<close>.
\<close>

lemma strchr_strict_unrestricted:
  assumes "ch \<noteq> NUL"
  shows "switch_strchr_strict s ch None =
    (if s \<noteq> [] \<and> strchr s ch = None then Some (length s) else strchr s ch)"
  using assms by (auto simp: switch_strchr_strict_def strchr_def strict_loop_None strict_loop_found)

lemma strchr_strict_unrestricted_witness:
  "switch_strchr_strict ''12x'' (CHR ''y'') None = Some 3"
  by (subst strchr_strict_unrestricted) (simp_all add: strchr_def)

lemma round_to_step_correct:
  assumes "step \<noteq> 0" "uint num + uint step < 2 ^ 32"
  shows "\<exists>x. switch_round_to_step num step = Some x \<and> uint step dvd uint x \<and> 2 * \<bar>uint x - uint num\<bar> \<le> uint step"
proof (cases "num = 0")
  case False
  define r where "r = num mod step"
  have st: "0 < uint step" using assms(1) by (simp add: less_le uint_0_iff)
  have r: "uint r = uint num mod uint step" by (simp add: r_def uint_mod_distrib)
  have rb: "0 \<le> uint r" "uint r < uint step" "uint r \<le> uint num"
    using st by (simp_all add: r zmod_le_nonneg_dividend)
  have x: "uint (num - r) = uint num - uint r" using rb by (simp add: uint_sub_if' word_le_def)
  have d: "uint step dvd uint num - uint r" by (simp add: r dvd_minus_mod)
  have x2: "uint (num - r + step) = uint num - uint r + uint step"
  proof -
    have "uint (num - r + step) = (uint (num - r) + uint step) mod 2 ^ 32" by (simp add: uint_word_ariths)
    moreover have "0 \<le> uint num - uint r + uint step" "uint num - uint r + uint step < 2 ^ 32"
      using assms(2) rb st by linarith+
    ultimately show ?thesis unfolding x by (simp only: mod_pos_pos_trivial)
  qed
  have h: "r > step div 2 \<longleftrightarrow> uint step div 2 < uint r" by (simp add: word_less_def uint_div_distrib)
  show ?thesis
  proof (cases "r > step div 2")
    case True
    then have "switch_round_to_step num step = Some (num - r + step)"
      using False assms(1) by (simp add: switch_round_to_step_def Let_def r_def)
    moreover have "2 * \<bar>uint (num - r + step) - uint num\<bar> \<le> uint step" using True h rb unfolding x2 by auto
    ultimately show ?thesis using d x2 by (intro exI [of _ "num - r + step"]) simp
  next
    case f: False
    then have "switch_round_to_step num step = Some (num - r)"
      using False assms(1) by (simp add: switch_round_to_step_def Let_def r_def)
    moreover have "2 * \<bar>uint (num - r) - uint num\<bar> \<le> uint step" using f h rb unfolding x by auto
    ultimately show ?thesis using d x by (intro exI [of _ "num - r"]) simp
  qed
qed (simp add: switch_round_to_step_def)

lemma dtmftoi_char:
  assumes "of_char c = (n :: nat)"
  shows "switch_dtmftoi [c] = (if 48 \<le> n \<and> n \<le> 57 then int n - 48 else if 65 \<le> n \<and> n \<le> 68 then int n - 55
    else if 97 \<le> n \<and> n \<le> 100 then int n - 87 else 0)"
proof -
  have n: "(of_char c :: int) = int n" using assms by (metis of_nat_of_char)
  have sp: "n = 32 \<or> (9 \<le> n \<and> n \<le> 13)" if "isspace c"
    using that assms unfolding isspace_def list.set insert_iff by (elim disjE) simp_all
  have a: "atoi [c] = (if 48 \<le> n \<and> n \<le> 57 then int n - 48 else 0)"
  proof (cases "isspace c")
    case True
    then have nd: "\<not> (48 \<le> n \<and> n \<le> 57)" using sp by auto
    show ?thesis unfolding if_not_P [OF nd] using True by (simp add: atoi_def decimal_value_def cast_i32_def cval)
  next
    case False
    consider "c = CHR ''-''" | "c = CHR ''+''" | "c \<noteq> CHR ''-''" "c \<noteq> CHR ''+''" by blast
    then show ?thesis
    proof cases
      case 1
      then have "n = 45" using assms by simp
      with 1 False show ?thesis by (simp add: atoi_def decimal_value_def cast_i32_def cval digits_value_def)
    next
      case 2
      then have "n = 43" using assms by simp
      with 2 False show ?thesis by (simp add: atoi_def decimal_value_def cast_i32_def cval digits_value_def)
    next
      case 3
      with False assms n show ?thesis by (simp add: atoi_def decimal_value_def cast_i32_def cval digits_value_def isdigit_def Let_def)
    qed
  qed
  have l: "of_char (tolower c) = (if 65 \<le> n \<and> n \<le> 90 then int n + 32 else int n)"
  proof (cases "65 \<le> n \<and> n \<le> 90")
    case True
    then have "(of_char (tolower c) :: nat) = n + 32" using assms by (simp add: tolower_def)
    moreover have "(of_char (tolower c) :: int) = int (of_char (tolower c))" by (simp only: of_nat_of_char)
    ultimately show ?thesis using True by simp
  next
    case False
    then have "tolower c = c" using assms by (auto simp: tolower_def Let_def)
    then show ?thesis unfolding if_not_P [OF False] by (simp only: n)
  qed
  show ?thesis unfolding switch_dtmftoi_def Let_def a
    by (simp add: c_at_def l)
qed

text \<open>
  Exactly the 14 values 0 to 13 survive the way to a DTMF character and back; the
  characters of the others read as something else.
\<close>

lemma dtmf_roundtrip:
  "switch_dtmftoi [char_of (unat (switch_itodtmf i))] = uint i \<longleftrightarrow> i < 14"
proof -
  define k where "k = unat i"
  have k: "k < 256" using unsigned_less [of i] by (simp add: k_def)
  have u: "uint i = int k" by (simp add: k_def)
  have "sint i = (if k < 128 then int k else int k - 256)"
    using k by (simp add: sint_uint u signed_take_bit_eq_take_bit_shift take_bit_eq_mod mod_once)
  then have "unat (switch_itodtmf i) = (if 9 < k \<and> k < 14 then k + 55 else (k + 48) mod 256)"
    using k by (simp add: switch_itodtmf_def unat_word_ariths flip: k_def)
  moreover have "i < 14 \<longleftrightarrow> k < 14" by (simp add: word_less_nat_alt k_def)
  ultimately show ?thesis unfolding u using k
    by (subst dtmftoi_char [OF refl]) (auto simp: mod_if)
qed

definition escape_at :: "string \<Rightarrow> nat \<Rightarrow> bool" where
  "escape_at s i \<longleftrightarrow> s ! i = CHR ''%'' \<and> i + 2 < length s \<and>
     s ! (i + 1) \<in> set ''0123456789ABCDEF'' \<and> s ! (i + 2) \<in> set ''0123456789ABCDEF''"

lemma hex_not_unsafe: "c \<in> set ''0123456789ABCDEF'' \<Longrightarrow> c \<notin> set SWITCH_URL_UNSAFE"
  by (auto simp: SWITCH_URL_UNSAFE_def)

lemma escape_at_Suc: "escape_at (c # s) (Suc i) = escape_at s i"
  by (simp add: escape_at_def)

lemma escape_at_0:
  "escape_at (c # p) 0 \<longleftrightarrow> c = CHR ''%'' \<and> length p > 1 \<and>
     strchr ''0123456789ABCDEF'' (c_at p 0) \<noteq> None \<and> strchr ''0123456789ABCDEF'' (c_at p 1) \<noteq> None"
  if "NUL \<notin> set p"
proof -
  have "length p > 1 \<Longrightarrow> p ! 0 \<noteq> NUL \<and> p ! 1 \<noteq> NUL" using that by (metis One_nat_def Suc_lessD nth_mem)
  then show ?thesis by (auto simp: escape_at_def strchr_def c_at_def)
qed

lemma url_loop_iff:
  "NUL \<notin> set s \<Longrightarrow> url_loop s \<longleftrightarrow> (\<exists>i < length s. s ! i \<in> set SWITCH_URL_UNSAFE \<and> \<not> escape_at s i)"
proof (induction s rule: url_loop.induct)
  case (2 c p)
  have p: "NUL \<notin> set p" "c \<noteq> NUL" using 2 by auto
  have split: "(\<exists>i < length (d # q). (d # q) ! i \<in> set SWITCH_URL_UNSAFE \<and> \<not> escape_at (d # q) i) \<longleftrightarrow>
      (d \<in> set SWITCH_URL_UNSAFE \<and> \<not> escape_at (d # q) 0) \<or>
      (\<exists>i < length q. q ! i \<in> set SWITCH_URL_UNSAFE \<and> \<not> escape_at q i)" for d q
    by (simp only: length_Cons Ex_less_Suc2 nth_Cons_0 nth_Cons_Suc escape_at_Suc)
  show ?case
  proof (cases "escape_at (c # p) 0")
    case True
    then obtain d q where q: "p = d # q" "d \<in> set ''0123456789ABCDEF''" by (cases p) (auto simp: escape_at_def)
    have "url_loop (c # p) = url_loop (tl p)" using True escape_at_0 [OF p(1), of c] by simp
    also have "\<dots> \<longleftrightarrow> (\<exists>i < length q. q ! i \<in> set SWITCH_URL_UNSAFE \<and> \<not> escape_at q i)"
      using 2(1) True escape_at_0 [OF p(1), of c] p q by simp
    finally show ?thesis unfolding split [of c] q(1) split [of d] using True hex_not_unsafe [OF q(2)] q(1) by blast
  next
    case False
    then have nc: "\<not> (c = CHR ''%'' \<and> length p > 1 \<and>
        strchr ''0123456789ABCDEF'' (c_at p 0) \<noteq> None \<and> strchr ''0123456789ABCDEF'' (c_at p 1) \<noteq> None)"
      using escape_at_0 [OF p(1), of c] by blast
    have "url_loop (c # p) \<longleftrightarrow> c \<in> set SWITCH_URL_UNSAFE \<or> url_loop p"
      using strchr_None [OF p(2), of SWITCH_URL_UNSAFE] by (simp only: url_loop.simps if_not_P [OF nc]) auto
    moreover have "c \<notin> set SWITCH_URL_UNSAFE \<Longrightarrow> url_loop p \<longleftrightarrow> (\<exists>i < length p. p ! i \<in> set SWITCH_URL_UNSAFE \<and> \<not> escape_at p i)"
      using 2(2) [OF nc] p by (simp add: strchr_None)
    ultimately show ?thesis unfolding split [of c] using False by blast
  qed
qed simp

lemma cut_at_takeWhile: "cut_at s = takeWhile (\<lambda>c. c \<noteq> CHR ''@'') s"
proof (induction s rule: cut_at.induct)
  case (1 s)
  show ?case
  proof (cases "strrchr s (CHR ''@'')")
    case None
    then have "CHR ''@'' \<notin> set s" by (simp add: strrchr_None)
    then have "takeWhile (\<lambda>c. c \<noteq> CHR ''@'') s = s" by (intro takeWhile_eq_all_conv [THEN iffD2]) auto
    with None show ?thesis by (subst cut_at.simps) (simp only: option.case)
  next
    case (Some q)
    note q = strrchr_Some [OF Some, simplified]
    have "takeWhile (\<lambda>c. c \<noteq> CHR ''@'') (take q s @ s ! q # drop (Suc q) s) = takeWhile (\<lambda>c. c \<noteq> CHR ''@'') (take q s)"
      using q(2) by (intro takeWhile_tail) simp
    then have e: "takeWhile (\<lambda>c. c \<noteq> CHR ''@'') s = takeWhile (\<lambda>c. c \<noteq> CHR ''@'') (take q s)"
      by (simp only: id_take_nth_drop [OF q(1), symmetric])
    show ?thesis unfolding e 1 [OF Some, symmetric] by (subst cut_at.simps) (simp add: Some)
  qed
qed

lemma skip_past_spec:
  assumes "c \<noteq> NUL"
  shows "\<exists>u. s = u @ skip_past c s \<and> (u = [] \<or> last u = c) \<and> c \<notin> set (skip_past c s)"
  using assms
proof (induction c s rule: skip_past.induct)
  case (1 c p)
  show ?case
  proof (cases "strchr p c")
    case None
    then have "skip_past c p = p" by (subst skip_past.simps) simp
    then show ?thesis using None "1.prems" by (simp add: strchr_None)
  next
    case (Some q)
    note q = strchr_Some [OF Some "1.prems"]
    obtain u where u: "drop (Suc q) p = u @ skip_past c (drop (Suc q) p)" "u = [] \<or> last u = c"
      "c \<notin> set (skip_past c (drop (Suc q) p))"
      using 1 Some by auto
    have "p = take q p @ p ! q # drop (Suc q) p" using q(1) by (rule id_take_nth_drop)
    then have "p = (take q p @ c # u) @ skip_past c (drop (Suc q) p)" using u(1) q(2) by simp
    moreover have "skip_past c p = skip_past c (drop (Suc q) p)"
      using "1.prems" Some by (subst skip_past.simps) simp
    ultimately show ?thesis using u by (intro exI [of _ "take q p @ c # u"]) auto
  qed
qed

text \<open>
  \<^verbatim>\<open>switch_sanitize_number\<close> returns the last piece, cut at slashes and colons, of the
  part before the first at-sign.
\<close>

lemma sanitize_number_piece:
  "\<exists>u. takeWhile (\<lambda>c. c \<noteq> CHR ''@'') number = u @ switch_sanitize_number number \<and>
     (u = [] \<or> last u \<in> {CHR ''/'', CHR '':''}) \<and>
     set (switch_sanitize_number number) \<inter> {CHR ''@'', CHR ''/'', CHR '':''} = {}"
proof (cases "strchr number (CHR ''/'') = None \<and> strchr number (CHR '':'') = None \<and> strchr number (CHR ''@'') = None")
  case True
  then have "takeWhile (\<lambda>c. c \<noteq> CHR ''@'') number = number"
    by (intro takeWhile_eq_all_conv [THEN iffD2]) (auto simp: strchr_None)
  with True show ?thesis by (intro exI [of _ "[]"]) (auto simp: switch_sanitize_number_def strchr_None)
next
  case False
  define t where "t = takeWhile (\<lambda>c. c \<noteq> CHR ''@'') number"
  obtain u where u: "t = u @ skip_past (CHR ''/'') t" "u = [] \<or> last u = CHR ''/''"
    "CHR ''/'' \<notin> set (skip_past (CHR ''/'') t)" using skip_past_spec [of "CHR ''/''" t] by auto
  define t1 where "t1 = skip_past (CHR ''/'') t"
  obtain v where v: "t1 = v @ skip_past (CHR '':'') t1" "v = [] \<or> last v = CHR '':''"
    "CHR '':'' \<notin> set (skip_past (CHR '':'') t1)" using skip_past_spec [of "CHR '':''" t1] by auto
  define r where "r = skip_past (CHR '':'') t1"
  have r: "switch_sanitize_number number = r"
    unfolding switch_sanitize_number_def if_not_P [OF False] by (simp add: cut_at_takeWhile r_def t1_def t_def)
  have e: "t = (u @ v) @ r" using u(1) v(1) by (simp add: t1_def r_def)
  have "CHR ''@'' \<notin> set t" by (auto simp: t_def dest: set_takeWhileD)
  then have "CHR ''@'' \<notin> set r" using e by simp
  moreover have "set r \<subseteq> set t1" using v(1) r_def by (metis Un_upper2 set_append)
  ultimately have "set r \<inter> {CHR ''@'', CHR ''/'', CHR '':''} = {}" using u(3) v(3) t1_def r_def by auto
  moreover have "u @ v = [] \<or> last (u @ v) \<in> {CHR ''/'', CHR '':''}" using u(2) v(2) by (auto simp: last_append)
  ultimately show ?thesis unfolding r using e t_def by (intro exI [of _ "u @ v"]) auto
qed


text \<open>
  a URL needs encoding exactly when it has an unsafe character other than the
  percent sign of an escape with two upper-case hexadecimal digits.
\<close>

lemma needs_url_encode_iff:
  assumes "NUL \<notin> set s"
  shows "switch_needs_url_encode s \<longleftrightarrow> (\<exists>i < length s. s ! i \<in> set SWITCH_URL_UNSAFE \<and>
     \<not> (s ! i = CHR ''%'' \<and> i + 2 < length s \<and>
        s ! (i + 1) \<in> set ''0123456789ABCDEF'' \<and> s ! (i + 2) \<in> set ''0123456789ABCDEF''))"
  using url_loop_iff [OF assms] by (simp only: switch_needs_url_encode_def escape_at_def)

lemma needs_url_encode_iff_witness:
  "switch_needs_url_encode ''a%4'' \<and> \<not> switch_needs_url_encode ''a%4Fb''"
proof
  show "switch_needs_url_encode ''a%4''"
    by (subst needs_url_encode_iff, simp) (intro exI [of _ 1], simp add: SWITCH_URL_UNSAFE_def)
  show "\<not> switch_needs_url_encode ''a%4Fb''"
    by (simp add: switch_needs_url_encode_def SWITCH_URL_UNSAFE_def strchr_def c_at_def)
qed

section \<open>Variable references\<close>

text \<open>
  The scan as an automaton: the state after a string, \<^const>\<open>None\<close> after a reference. The
  in-place loop keeps the part it has passed free of references.
\<close>

fun var_state :: "bool \<Rightarrow> string \<Rightarrow> bool option" where
  "var_state dol [] = Some dol"
| "var_state dol (c # p) =
     (if c = CHR ''$'' then var_state True p
      else if dol then (if c = CHR ''{'' then None else if c \<noteq> CHR 0x5C then var_state False p else var_state dol p)
      else var_state dol p)"

lemma var_check_const_state: "var_check_const_loop dol s \<longleftrightarrow> var_state dol s = None"
  by (induction dol s rule: var_check_const_loop.induct) auto

lemma var_state_append: "var_state dol (s @ t) = Option.bind (var_state dol s) (\<lambda>d. var_state d t)"
  by (induction dol s rule: var_state.induct) auto

lemma var_state_bs: "var_state dol (replicate n (CHR 0x5C)) = Some dol"
  by (induction n) auto

definition var_inv :: "nat \<Rightarrow> nat option \<Rightarrow> string \<Rightarrow> bool" where
  "var_inv p dol s \<longleftrightarrow> p \<le> length s \<and> var_state False (take p s) = Some (dol \<noteq> None) \<and>
     (case dol of None \<Rightarrow> True
      | Some d \<Rightarrow> \<exists>n. p = Suc d + n \<and> take p s = take d s @ CHR ''$'' # replicate n (CHR 0x5C))"

lemma var_check_loop_clean:
  assumes "var_inv p dol s" "length s = n"
  shows "var_state False (snd (var_check_loop True [p..<n] dol s)) \<noteq> None"
  using assms
proof (induction "n - p" arbitrary: p dol s)
  case 0
  then have "take p s = s" by (simp add: var_inv_def)
  with 0 show ?case by (simp add: var_inv_def)
next
  case (Suc k)
  then have p: "p < length s" "[p..<n] = p # [Suc p..<n]" "k = n - Suc p" by (auto simp: upt_rec)
  have st: "var_state False (take p s) = Some (dol \<noteq> None)" using Suc.prems by (simp add: var_inv_def)
  have tk: "take (Suc p) s = take p s @ [s ! p]" using p by (rule_tac take_Suc_conv_app_nth) 
  note IH = Suc.hyps(1) [OF p(3)]
  have len: "p < length s" using p by simp
  consider (dollar) "s ! p = CHR ''$''" | (none) "s ! p \<noteq> CHR ''$''" "dol = None"
    | (brace) d where "s ! p = CHR ''{''" "dol = Some d"
    | (other) d where "s ! p \<notin> {CHR ''$'', CHR ''{'', CHR 0x5C}" "dol = Some d"
    | (bs) d where "s ! p = CHR 0x5C" "dol = Some d"
    by (cases dol) auto
  then show ?case
  proof cases
    case dollar
    have "var_inv (Suc p) (Some p) s"
      using len st tk dollar by (simp add: var_inv_def var_state_append)
    then show ?thesis using IH Suc.prems(2) dollar by (simp add: p(2))
  next
    case none
    have "var_inv (Suc p) None s"
      using len st tk none by (simp add: var_inv_def var_state_append)
    then show ?thesis using IH Suc.prems(2) none by (simp add: p(2))
  next
    case (other d)
    have "var_inv (Suc p) None s"
      using len st tk other by (simp add: var_inv_def var_state_append)
    then show ?thesis using IH Suc.prems(2) other by (simp add: p(2))
  next
    case (bs d)
    obtain m where m: "p = Suc d + m" "take p s = take d s @ CHR ''$'' # replicate m (CHR 0x5C)"
      using Suc.prems(1) bs by (auto simp: var_inv_def)
    have "take (Suc p) s = take d s @ CHR ''$'' # replicate (Suc m) (CHR 0x5C)"
      using tk m(2) bs by (simp add: replicate_append_same)
    then have "var_inv (Suc p) (Some d) s"
      using len st tk bs m(1) unfolding var_inv_def by (auto simp: var_state_append intro!: exI [of _ "Suc m"])
    then show ?thesis using IH Suc.prems(2) bs by (simp add: p(2))
  next
    case (brace d)
    obtain m where m: "p = Suc d + m" "take p s = take d s @ CHR ''$'' # replicate m (CHR 0x5C)"
      using Suc.prems(1) brace by (auto simp: var_inv_def)
    let ?s = "s[d := CHR ''%'']"
    obtain b where b: "var_state False (take d s) = Some b"
      using st unfolding m(2) var_state_append by (cases "var_state False (take d s)") auto
    have ld: "length (take d s) = d" using len m(1) by simp
    have "take (Suc p) ?s = (take (Suc p) s)[d := CHR ''%'']" by (rule take_update_swap)
    also have "take (Suc p) s = take d s @ CHR ''$'' # (replicate m (CHR 0x5C) @ [CHR ''{''])"
      using tk m(2) brace by simp
    also have "(take d s @ CHR ''$'' # (replicate m (CHR 0x5C) @ [CHR ''{'']))[d := CHR ''%''] =
        take d s @ CHR ''%'' # (replicate m (CHR 0x5C) @ [CHR ''{''])"
      using ld by (intro list_update_append_nth) simp
    finally have "var_state False (take (Suc p) ?s) = Some False"
      by (simp add: var_state_append b var_state_bs)
    then have "var_inv (Suc p) None ?s" using len by (simp add: var_inv_def)
    then show ?thesis using IH [of None ?s] Suc.prems(2) brace by (simp add: p(2))
  qed
qed

lemma var_check_loop_test:
  assumes "p \<le> n" "length s = n"
  shows "fst (var_check_loop False [p..<n] dol s) \<longleftrightarrow> var_state (dol \<noteq> None) (drop p s) = None"
  using assms(1)
proof (induction p arbitrary: dol rule: inc_induct)
  case base
  then show ?case using assms(2) by simp
next
  case (step p)
  have "drop p s = s ! p # drop (Suc p) s" using step.hyps assms(2) by (simp add: Cons_nth_drop_Suc)
  then show ?case using step by (auto simp: upt_conv_Cons split: option.split)
qed

text \<open>
  C32: what \<^verbatim>\<open>switch_var_clean_string\<close> returns has no variable reference left: neither
  scan reports one in it.
\<close>

theorem var_clean_no_reference:
  "\<not> switch_string_var_check_const (switch_var_clean_string s) \<and>
   \<not> fst (switch_string_var_check (switch_var_clean_string s) False)"
proof (cases s)
  case None
  then show ?thesis
    by (simp add: switch_var_clean_string_def switch_string_var_check_def switch_string_var_check_const_def)
next
  case (Some t)
  define r where "r = snd (var_check_loop True [0..<length t] None t)"
  have "var_state False r \<noteq> None"
    unfolding r_def by (rule var_check_loop_clean) (simp_all add: var_inv_def)
  moreover have "switch_var_clean_string s = Some r"
    by (simp add: switch_var_clean_string_def switch_string_var_check_def Some r_def)
  ultimately show ?thesis
    by (simp add: switch_string_var_check_const_def var_check_const_state switch_string_var_check_def
          var_check_loop_test [of 0])
qed

lemma clean_name_loop_False: "clean_name_loop False s = map clean_name_char s"
  by (induction s) auto

text \<open>The cleaned name: every unwanted character is a blank, and leading blanks are skipped.\<close>

lemma clean_name_spec:
  "switch_clean_name_string s = dropWhile (\<lambda>c. c = CHR '' '') (map clean_name_char s)"
proof -
  have "clean_name_loop True s = dropWhile (\<lambda>c. c = CHR '' '') (map clean_name_char s)"
    by (induction s) (auto simp: clean_name_loop_False Let_def)
  then show ?thesis by (simp only: switch_clean_name_string_def)
qed

text \<open>A name whose bracket is never closed: the search returns NULL, the loops never leave it.\<close>

lemma skip_params_unclosed:
  assumes "c_at file 0 = CHR ''{''" "find_end file = None"
  shows "skip_params find_end file = None"
proof -
  have "skip_params fe f = Some r \<Longrightarrow> \<not> (fe = find_end \<and> f = file)" for fe f r
  proof (induction rule: skip_params.raw_induct [rotated, consumes 1])
    case (1 sp fe f r)
    show ?case
    proof
      assume e: "fe = find_end \<and> f = file"
      then have "sp find_end file = Some r" using 1(2) assms by simp
      then show False using 1(1) by blast
    qed
  qed
  then show ?thesis by (cases "skip_params find_end file") auto
qed

text \<open>
  for a file name whose opening brace is not closed, \<^verbatim>\<open>switch_is_file_path\<close> and
  \<^verbatim>\<open>switch_filecmp\<close> never return, and \<^verbatim>\<open>switch_separate_file_params\<close> runs into a NULL
  pointer.
\<close>

lemma unclosed_params:
  assumes "c_at file 0 = CHR ''{''" "find_end file = None"
  shows "switch_is_file_path find_end (Some file) = None \<and> switch_filecmp find_end cmp (Some file) b = (if zstr b then Some (-1) else None) \<and>
    switch_separate_file_params find_end file = None"
proof -
  have "file \<noteq> []" using assms(1) by (auto simp: c_at_def)
  moreover have "separate_loop find_end file 0 None = None"
    using assms by (subst separate_loop.simps) simp
  moreover have "skip_params find_end file = None" by (rule skip_params_unclosed) (fact assms)+
  ultimately show ?thesis using assms
    by (simp add: switch_is_file_path_def switch_filecmp_def zstr_def switch_separate_file_params_def)
qed

lemma unclosed_params_witness:
  "switch_is_file_path (\<lambda>s. strchr s (CHR ''}'')) (Some ''{a=b/tmp/x'') = None"
  using unclosed_params [of "''{a=b/tmp/x''" "\<lambda>s. strchr s (CHR ''}'')" "\<lambda>_ _. 0" None]
  by (simp add: c_at_def strchr_def)

end
