(* ===== verification/Case_Strings.thy ===== *)
theory Case_Strings
  imports Switch_Strings Ascii_Case
begin

unbundle bit_operations_syntax

text \<open>
  The helpers of \<^verbatim>\<open>switch_utils.h\<close> that change the case of a copy of their argument:
  \<^verbatim>\<open>switch_lc_strdup\<close>, \<^verbatim>\<open>switch_uc_strdup\<close> and the containment test \<^verbatim>\<open>switch_strstr\<close>.
  A failed \<^verbatim>\<open>strdup\<close> aborts the program and is not modelled.
\<close>

definition to_byte :: "char \<Rightarrow> u8" where
  "to_byte c = word_of_nat (of_char c)"

definition of_byte :: "u8 \<Rightarrow> char" where
  "of_byte b = char_of (unat b)"

definition switch_lc_strdup :: "string option \<Rightarrow> string option" where
  "switch_lc_strdup it = map_option (\<lambda>s. map of_byte (switch_tolower_max64 (map to_byte s))) it"

definition switch_uc_strdup :: "string option \<Rightarrow> string option" where
  "switch_uc_strdup it = map_option (\<lambda>s. map of_byte (switch_toupper_max64 (map to_byte s))) it"

definition upper_copy :: "string \<Rightarrow> string" where
  "upper_copy s = map (\<lambda>c. of_byte (toupper_char (to_byte c))) s"

definition switch_strstr :: "string option \<Rightarrow> string option \<Rightarrow> bool" where
  "switch_strstr s q =
     (case (s, q) of
        (Some s, Some q) \<Rightarrow>
          (if strstr s q then True
           else let S = upper_copy s in
             if strstr S q then True
             else let Q = upper_copy q in
               if strstr s Q then True
               else if strstr S Q then True
               else False)
      | _ \<Rightarrow> False)"

lemma of_byte_cases:
  "of_byte (ascii_upper (to_byte c)) = toupper c" "of_byte (ascii_lower (to_byte c)) = tolower c"
proof -
  define n where "n = (of_char c :: nat)"
  have n: "n < 256" unfolding n_def by (rule nat_of_char_less_256)
  have b: "unat (to_byte c) = n" using n by (simp add: to_byte_def n_def unat_of_nat)
  have "unat (ascii_upper (to_byte c)) = (if 97 \<le> n \<and> n \<le> 122 then n - 32 else n)"
    using b n by (simp add: ascii_upper_def word_le_nat_alt unat_sub)
  then show "of_byte (ascii_upper (to_byte c)) = toupper c"
    by (auto simp: of_byte_def toupper_def Let_def n_def)
  have "unat (ascii_lower (to_byte c)) = (if 65 \<le> n \<and> n \<le> 90 then n + 32 else n)"
    using b n by (simp add: ascii_lower_def word_le_nat_alt unat_word_ariths)
  then show "of_byte (ascii_lower (to_byte c)) = tolower c"
    by (auto simp: of_byte_def tolower_def Let_def n_def)
qed

lemma upper_copy_toupper: "upper_copy s = map toupper s"
  by (simp add: upper_copy_def char_case of_byte_cases)

lemma strdup_case:
  "switch_lc_strdup s = map_option (map tolower) s" "switch_uc_strdup s = map_option (map toupper) s"
  by (simp_all add: switch_lc_strdup_def switch_uc_strdup_def case_max_bytewise_eqs of_byte_cases comp_def)

lemma sublist_map: "sublist q s \<Longrightarrow> sublist (map f q) (map f s)"
  unfolding sublist_def by (metis map_append)

text \<open>
  \<^verbatim>\<open>switch_strstr(s, q)\<close> finds \<open>q\<close> in \<open>s\<close> without regard to the case of ASCII letters:
  its four searches amount to one search in upper case. (The header's comment names the
  arguments the other way round.)
\<close>

lemma strstr_ignores_case:
  "switch_strstr s q = (case (s, q) of (Some s, Some q) \<Rightarrow> sublist (map toupper q) (map toupper s) | _ \<Rightarrow> False)"
proof -
  have u: "map toupper (map toupper t) = map toupper t" for t by (simp add: case_idem)
  have "sublist q s \<Longrightarrow> sublist (map toupper q) (map toupper s)"
    "sublist q (map toupper s) \<Longrightarrow> sublist (map toupper q) (map toupper s)"
    "sublist (map toupper q) s \<Longrightarrow> sublist (map toupper q) (map toupper s)" for q s
    using sublist_map u by metis+
  then show ?thesis
    by (auto simp: switch_strstr_def upper_copy_toupper strstr_sublist Let_def split: option.splits)
qed

end
