(* ===== verification/Float_Round.thy ===== *)
theory Float_Round
  imports Complex_Main
begin

text \<open>
  The binary floating point arithmetic the tone code uses: C's \<^verbatim>\<open>float\<close> and \<^verbatim>\<open>double\<close>
  with every operation rounded to nearest, ties to even, and subnormal numbers. A value is
  the rational number it stands for; an operation is the exact operation followed by
  \<open>f32\<close> or \<open>f64\<close>. Not modelled are infinities, NaN, the sign of zero and the overflow of
  the exponent, which the quantities of the models do not reach.
\<close>

definition round_half_even :: "rat \<Rightarrow> int" where
  "round_half_even x =
     (let f = \<lfloor>x\<rfloor>; r = x - of_int f in
      if r < 1 / 2 then f else if r > 1 / 2 then f + 1 else if even f then f else f + 1)"

fun bitlen :: "nat \<Rightarrow> nat" where
  "bitlen n = (if n = 0 then 0 else Suc (bitlen (n div 2)))"

declare bitlen.simps [simp del]

definition two_pow :: "int \<Rightarrow> rat" where
  "two_pow k = (if 0 \<le> k then 2 ^ nat k else 1 / 2 ^ nat (- k))"

text \<open>The exponent of a non-zero rational: \<open>2 ^ expo x \<le> |x| < 2 ^ (expo x + 1)\<close>.\<close>

definition expo :: "rat \<Rightarrow> int" where
  "expo x = (case quotient_of \<bar>x\<bar> of (n, d) \<Rightarrow>
     let k = int (bitlen (nat n)) - int (bitlen (nat d)) in if \<bar>x\<bar> < two_pow k then k - 1 else k)"

definition round_bits :: "int \<Rightarrow> int \<Rightarrow> rat \<Rightarrow> rat" where
  "round_bits p emin x =
     (if x = 0 then 0
      else let q = max (expo x - (p - 1)) emin in of_int (round_half_even (x / two_pow q)) * two_pow q)"

definition f32 :: "rat \<Rightarrow> rat" where "f32 x = round_bits 24 (-149) x"

definition f64 :: "rat \<Rightarrow> rat" where "f64 x = round_bits 53 (-1074) x"

text \<open>The conversion to an integer type truncates.\<close>

definition trunc :: "rat \<Rightarrow> int" where
  "trunc x = (if x < 0 then - \<lfloor>- x\<rfloor> else \<lfloor>x\<rfloor>)"

section \<open>Facts\<close>

lemma two_pow_pos [simp]: "0 < two_pow k"
  by (simp add: two_pow_def)

lemma two_pow_nat: "two_pow (int n) = 2 ^ n"
  by (simp add: two_pow_def)

lemma two_pow_neg_nat: "a * two_pow (- int n) = a / 2 ^ n"
  by (cases "n = 0") (simp_all add: two_pow_def del: of_nat_Suc)

lemma two_pow_powi: "two_pow k = 2 powi k"
  by (simp add: two_pow_def power_int_def power_one_over)

lemma two_pow_add: "two_pow (a + b) = two_pow a * two_pow b"
  unfolding two_pow_powi by (rule power_int_add) simp

lemma two_pow_mono: "a \<le> b \<Longrightarrow> two_pow a \<le> two_pow b"
  unfolding two_pow_powi by (rule power_int_increasing) simp_all

lemma round_half_even_of_int [simp]: "round_half_even (of_int n) = n"
  by (simp add: round_half_even_def Let_def)

lemma round_half_even_bounds: "\<bar>of_int (round_half_even x) - x\<bar> \<le> 1 / 2"
proof -
  have "of_int \<lfloor>x\<rfloor> \<le> x" "x < of_int \<lfloor>x\<rfloor> + 1" by linarith+
  then show ?thesis by (auto simp: round_half_even_def Let_def)
qed

lemma round_half_even_mono: "x \<le> y \<Longrightarrow> round_half_even x \<le> round_half_even y"
proof -
  assume xy: "x \<le> y"
  show ?thesis
  proof (cases "\<lfloor>x\<rfloor> = \<lfloor>y\<rfloor>")
    case True
    with xy show ?thesis by (auto simp: round_half_even_def Let_def)
  next
    case False
    with xy have "\<lfloor>x\<rfloor> + 1 \<le> \<lfloor>y\<rfloor>" by linarith
    moreover have "round_half_even x \<le> \<lfloor>x\<rfloor> + 1" "\<lfloor>y\<rfloor> \<le> round_half_even y"
      by (auto simp: round_half_even_def Let_def)
    ultimately show ?thesis by linarith
  qed
qed

lemma f32_0 [simp]: "f32 0 = 0" "f64 0 = 0"
  by (simp_all add: f32_def f64_def round_bits_def)


lemma bitlen_bounds: "0 < n \<Longrightarrow> 2 ^ (bitlen n - 1) \<le> n \<and> n < 2 ^ bitlen n \<and> 0 < bitlen n"
proof (induction n rule: bitlen.induct)
  case (1 n)
  show ?case
  proof (cases "n div 2 = 0")
    case True
    with 1 have "n = 1" by auto
    moreover have "bitlen 1 = 1" by (subst bitlen.simps) (simp add: bitlen.simps [of 0])
    ultimately show ?thesis by simp
  next
    case False
    then have IH: "2 ^ (bitlen (n div 2) - 1) \<le> n div 2" "n div 2 < 2 ^ bitlen (n div 2)" "0 < bitlen (n div 2)"
      using 1 by auto
    have b: "bitlen n = Suc (bitlen (n div 2))" using "1.prems" by (subst bitlen.simps) simp
    obtain k where k: "bitlen (n div 2) = Suc k" using IH(3) by (cases "bitlen (n div 2)") auto
    have "2 * 2 ^ k \<le> n" "n < 2 * 2 ^ Suc k" using IH(1,2) unfolding k by auto
    then show ?thesis unfolding b k by simp
  qed
qed

lemma expo_lower:
  assumes "x \<noteq> 0"
  shows "two_pow (expo x) \<le> \<bar>x\<bar>"
proof -
  obtain n d where q: "quotient_of \<bar>x\<bar> = (n, d)" by (cases "quotient_of \<bar>x\<bar>")
  have d: "0 < d" and x: "\<bar>x\<bar> = of_int n / of_int d"
    using quotient_of_denom_pos [OF q] quotient_of_div [OF q] by simp_all
  have "0 < (of_int n :: rat) / of_int d" using assms unfolding x [symmetric] by simp
  then have n: "0 < n" using d by (simp add: zero_less_divide_iff)
  let ?a = "bitlen (nat n)" and ?b = "bitlen (nat d)"
  let ?k = "int ?a - int ?b"
  have "0 < nat n" "0 < nat d" using n d by auto
  then have a: "2 ^ (?a - 1) \<le> nat n" "0 < ?a" and b: "nat d < 2 ^ ?b"
    using bitlen_bounds [of "nat n"] bitlen_bounds [of "nat d"] by blast+
  have l1: "(2::rat) ^ (?a - 1) \<le> of_int n"
  proof -
    have "int (2 ^ (?a - 1)) \<le> int (nat n)" using a(1) by (simp only: of_nat_le_iff)
    then have "int (2 ^ (?a - 1)) \<le> n" using n by (simp only: int_nat_eq) simp
    then have "(of_int (int (2 ^ (?a - 1))) :: rat) \<le> of_int n" by (simp only: of_int_le_iff)
    then show ?thesis by simp
  qed
  have l2: "of_int d \<le> (2::rat) ^ ?b"
  proof -
    have "int (nat d) \<le> int (2 ^ ?b)" using b by (simp only: of_nat_le_iff)
    then have "d \<le> int (2 ^ ?b)" using d by (simp only: int_nat_eq) simp
    then have "(of_int d :: rat) \<le> of_int (int (2 ^ ?b))" by (simp only: of_int_le_iff)
    then show ?thesis by simp
  qed
  have nn: "0 \<le> (of_int n :: rat)" "0 < (of_int d :: rat)" using n d by simp_all
  have l: "(2::rat) ^ (?a - 1) / 2 ^ ?b \<le> \<bar>x\<bar>"
    unfolding x by (rule frac_le [OF nn(1) l1 nn(2) l2])
  have "two_pow (?k - 1) = 2 ^ (?a - 1) / 2 ^ ?b"
  proof -
    have "?k - 1 = int (?a - 1) + (- int ?b)" using a(2) by linarith
    then have "two_pow (?k - 1) = two_pow (int (?a - 1)) * two_pow (- int ?b)" by (simp only: two_pow_add)
    then show ?thesis by (simp only: two_pow_nat two_pow_neg_nat)
  qed
  then have "two_pow (?k - 1) \<le> \<bar>x\<bar>" using l by simp
  then show ?thesis by (auto simp: expo_def q Let_def)
qed

text \<open>A rational is exact when it is a multiple of the last place and fits into the mantissa.\<close>

lemma round_bits_exact:
  assumes "\<bar>x\<bar> < two_pow (p + e)" "x = of_int m * two_pow e" "emin \<le> e"
  shows "round_bits p emin x = x"
proof (cases "x = 0")
  case False
  define q where "q = max (expo x - (p - 1)) emin"
  have "expo x < p + e"
  proof (rule ccontr)
    assume "\<not> expo x < p + e"
    then have "two_pow (p + e) \<le> two_pow (expo x)" by (intro two_pow_mono) simp
    with expo_lower [OF False] assms(1) show False by linarith
  qed
  then have "q \<le> e" using assms(3) by (simp add: q_def)
  then obtain k where k: "e = q + int k" by (metis zle_iff_zadd)
  have "x = of_int (m * 2 ^ k) * two_pow q"
    unfolding assms(2) k two_pow_add by (simp add: two_pow_def)
  then have "x / two_pow q = of_int (m * 2 ^ k)" using two_pow_pos [of q] by (simp add: field_simps del: two_pow_pos)
  then have "round_bits p emin x = of_int (m * 2 ^ k) * two_pow q"
    using False by (simp only: round_bits_def q_def [symmetric] Let_def round_half_even_of_int if_False)
  then show ?thesis using \<open>x = of_int (m * 2 ^ k) * two_pow q\<close> by simp
qed (simp add: round_bits_def)

lemma f32_of_int: "\<bar>m\<bar> < 2 ^ 24 \<Longrightarrow> f32 (of_int m) = of_int m"
proof -
  assume m: "\<bar>m\<bar> < 2 ^ 24"
  have "\<bar>of_int m :: rat\<bar> < of_int (2 ^ 24)" using m by (simp only: of_int_less_iff of_int_abs [symmetric])
  then show ?thesis unfolding f32_def by (intro round_bits_exact [where e = 0 and m = m]) (simp_all add: two_pow_def)
qed

lemma f64_of_int: "\<bar>m\<bar> < 2 ^ 53 \<Longrightarrow> f64 (of_int m) = of_int m"
proof -
  assume m: "\<bar>m\<bar> < 2 ^ 53"
  have "\<bar>of_int m :: rat\<bar> < of_int (2 ^ 53)" using m by (simp only: of_int_less_iff of_int_abs [symmetric])
  then show ?thesis unfolding f64_def by (intro round_bits_exact [where e = 0 and m = m]) (simp_all add: two_pow_def)
qed

lemma f_numeral:
  "numeral n < (2::int) ^ 24 \<Longrightarrow> f32 (numeral n) = numeral n" "numeral n < (2::int) ^ 53 \<Longrightarrow> f64 (numeral n) = numeral n"
  using f32_of_int [of "numeral n"] f64_of_int [of "numeral n"] by simp_all

lemma of_nat_le_rat: "n \<le> nat k \<Longrightarrow> 0 \<le> k \<Longrightarrow> (of_nat n :: rat) \<le> of_int k"
proof -
  assume "n \<le> nat k" "0 \<le> k"
  then have "int n \<le> k" by linarith
  then have "of_int (int n) \<le> (of_int k :: rat)" by (simp only: of_int_le_iff)
  then show ?thesis by simp
qed

lemma less_of_nat_rat: "nat k < n \<Longrightarrow> 0 \<le> k \<Longrightarrow> of_int k < (of_nat n :: rat)"
proof -
  assume "nat k < n" "0 \<le> k"
  then have "k < int n" by linarith
  then have "of_int k < (of_int (int n) :: rat)" by (simp only: of_int_less_iff)
  then show ?thesis by simp
qed

lemma expo_upper:
  assumes "x \<noteq> 0"
  shows "\<bar>x\<bar> < two_pow (expo x + 1)"
proof -
  obtain n d where q: "quotient_of \<bar>x\<bar> = (n, d)" by (cases "quotient_of \<bar>x\<bar>")
  have d: "0 < d" and x: "\<bar>x\<bar> = of_int n / of_int d"
    using quotient_of_denom_pos [OF q] quotient_of_div [OF q] by simp_all
  have "0 < (of_int n :: rat) / of_int d" using assms unfolding x [symmetric] by simp
  then have n: "0 < n" using d by (simp add: zero_less_divide_iff)
  define a b where "a = bitlen (nat n)" and "b = bitlen (nat d)"
  have bl: "nat n < 2 ^ a" "2 ^ (b - 1) \<le> nat d" "0 < b"
    using bitlen_bounds [of "nat n"] bitlen_bounds [of "nat d"] n d by (simp_all add: a_def b_def)
  have u: "of_int n < (2::rat) ^ a" "(2::rat) ^ (b - 1) \<le> of_int d"
    using less_of_nat_rat [OF bl(1)] of_nat_le_rat [OF bl(2)] n d by simp_all
  have "of_int n / of_int d < (2::rat) ^ a / 2 ^ (b - 1)"
    by (rule frac_less) (use n d u in simp_all)
  also have "(2::rat) ^ a / 2 ^ (b - 1) = two_pow (int a + - int (b - 1))"
    unfolding two_pow_add by (simp only: two_pow_nat two_pow_neg_nat)
  also have "int a + - int (b - 1) = int a - int b + 1" using bl(3) by linarith
  finally have "\<bar>x\<bar> < two_pow (int a - int b + 1)" unfolding x .
  then show ?thesis by (auto simp: expo_def q Let_def a_def b_def)
qed

text \<open>A rounded number is representable.\<close>

lemma round_bits_idem:
  assumes "0 < p"
  shows "round_bits p emin (round_bits p emin x) = round_bits p emin x"
proof (cases "x = 0")
  case False
  define q where "q = max (expo x - (p - 1)) emin"
  define m where "m = round_half_even (x / two_pow q)"
  have r: "round_bits p emin x = of_int m * two_pow q"
    using False by (simp only: round_bits_def q_def [symmetric] Let_def m_def if_False)
  have "\<bar>x\<bar> < two_pow (expo x + 1)" using expo_upper [OF False] .
  also have "\<dots> \<le> two_pow (p + q)" by (rule two_pow_mono) (simp add: q_def)
  finally have "\<bar>x / two_pow q\<bar> < two_pow p" by (simp add: two_pow_add divide_less_eq abs_of_pos)
  then have "\<bar>x / two_pow q\<bar> < 2 ^ nat p" using assms by (simp add: two_pow_def [of p])
  then have b: "- (2 ^ nat p) \<le> x / two_pow q" "x / two_pow q \<le> 2 ^ nat p"
    by linarith+
  have "round_half_even (of_int (- (2 ^ nat p))) \<le> m" "m \<le> round_half_even (of_int (2 ^ nat p))"
    unfolding m_def using b by (intro round_half_even_mono; simp)+
  then have m: "\<bar>m\<bar> \<le> 2 ^ nat p" by (simp only: round_half_even_of_int)
  show ?thesis
  proof (cases "\<bar>m\<bar> = 2 ^ nat p")
    case True
    define s where "s = (if 0 \<le> m then 1 else -1 :: int)"
    have s: "m = s * 2 ^ nat p" "\<bar>s\<bar> = 1" using True by (auto simp: s_def abs_if split: if_splits)
    have e: "of_int m * two_pow q = of_int s * two_pow (p + q)" unfolding s(1) two_pow_add using assms by (simp add: two_pow_def [of p])
    have "\<bar>of_int s :: rat\<bar> = 1" using s(2) by (metis of_int_abs of_int_1)
    moreover have "two_pow (p + q) < two_pow (p + (p + q))" unfolding two_pow_add [of p "p + q"] using assms by (simp add: two_pow_def [of p])
    ultimately show ?thesis unfolding r e
      by (intro round_bits_exact [where e = "p + q" and m = s]) (use assms in \<open>simp_all add: abs_mult abs_of_pos q_def\<close>)
  next
    case False
    then have "\<bar>m\<bar> < 2 ^ nat p" using m by linarith
    then have "(of_int \<bar>m\<bar> :: rat) < of_int (2 ^ nat p)" by (simp only: of_int_less_iff)
    then have "\<bar>of_int m * two_pow q\<bar> < two_pow (p + q)" using assms by (simp add: abs_mult two_pow_add abs_of_pos two_pow_def [of p])
    then show ?thesis unfolding r by (intro round_bits_exact [where e = q and m = m]) (simp_all add: q_def)
  qed
qed (simp add: round_bits_def)

lemma f32_f32: "f32 (f32 x) = f32 x"
  by (simp add: f32_def round_bits_idem)

lemma round_half_even_nonneg: "0 \<le> x \<Longrightarrow> 0 \<le> round_half_even x"
  using round_half_even_mono[of 0 x] round_half_even_of_int[of 0] by simp

lemma f32_nonneg [simp]: "0 \<le> x \<Longrightarrow> 0 \<le> f32 x"
  by (simp add: f32_def round_bits_def Let_def round_half_even_nonneg zero_le_mult_iff less_imp_le)

text \<open>Rounding to \<^verbatim>\<open>float\<close> changes a number by little.\<close>

lemma f32_error: "\<bar>f32 x - x\<bar> \<le> \<bar>x\<bar> / 2 ^ 24 + 1 / 2 ^ 150"
proof (cases "x = 0")
  case False
  define q where "q = max (expo x - 23) (-149)"
  have f: "f32 x = of_int (round_half_even (x / two_pow q)) * two_pow q"
    using False by (simp add: f32_def round_bits_def q_def Let_def)
  have "f32 x - x = (of_int (round_half_even (x / two_pow q)) - x / two_pow q) * two_pow q"
    unfolding f left_diff_distrib using two_pow_pos[of q] by (simp add: less_imp_neq[symmetric])
  then have "\<bar>f32 x - x\<bar> = \<bar>of_int (round_half_even (x / two_pow q)) - x / two_pow q\<bar> * two_pow q"
    by (simp only: abs_mult abs_of_pos[OF two_pow_pos])
  also have "\<dots> \<le> 1 / 2 * two_pow q"
    by (rule mult_right_mono[OF round_half_even_bounds]) (simp add: less_imp_le)
  also have "1 / 2 * two_pow q \<le> \<bar>x\<bar> / 2 ^ 24 + 1 / 2 ^ 150"
  proof (cases "expo x - 23 \<ge> -149")
    case True
    have "two_pow (expo x - 23) = two_pow (expo x) / 2 ^ 23"
      using two_pow_add[of "expo x" "- int 23"] two_pow_neg_nat[of "two_pow (expo x)" 23] by simp
    moreover have "q = expo x - 23" using True by (simp add: q_def)
    ultimately have "1 / 2 * two_pow q = two_pow (expo x) / 2 ^ 24" by simp
    also have "\<dots> \<le> \<bar>x\<bar> / 2 ^ 24" using expo_lower[OF False] by (simp add: divide_right_mono)
    finally show ?thesis by (simp add: add_increasing2)
  next
    case f: False
    have "two_pow (- int 149) = 1 / 2 ^ 149" using two_pow_neg_nat[of 1 149] by simp
    then have "1 / 2 * two_pow q = 1 / 2 ^ 150" using f by (simp add: q_def max_def)
    then show ?thesis by (simp add: add_increasing)
  qed
  finally show ?thesis .
qed simp

text \<open>Rounding keeps the order.\<close>

lemma round_half_even_minus: "round_half_even (- x) = - round_half_even x"
proof -
  define f r where "f = \<lfloor>x\<rfloor>" and "r = x - of_int f"
  have x: "x = of_int f + r" and r: "0 \<le> r" "r < 1" unfolding r_def f_def by linarith+
  show ?thesis
  proof (cases "r = 0")
    case True
    then show ?thesis using x round_half_even_of_int[of f] round_half_even_of_int[of "- f"] by simp
  next
    case False
    then have "\<lfloor>- x\<rfloor> = - f - 1" unfolding x using r by linarith
    moreover have "\<lfloor>x\<rfloor> = f" by (simp add: f_def)
    ultimately show ?thesis using x by (auto simp: round_half_even_def Let_def)
  qed
qed

lemma f32_minus: "f32 (- x) = - f32 x"
proof -
  have "expo (- x) = expo x" by (simp add: expo_def)
  then show ?thesis by (simp add: f32_def round_bits_def Let_def round_half_even_minus)
qed

lemma f32_parts:
  assumes "0 < x"
  defines "q \<equiv> max (expo x - 23) (-149)"
  shows "f32 x = of_int (round_half_even (x / two_pow q)) * two_pow q"
    "round_half_even (x / two_pow q) \<le> 2 ^ 24" "expo x - 23 \<ge> -149 \<Longrightarrow> 2 ^ 23 \<le> round_half_even (x / two_pow q)"
proof -
  show "f32 x = of_int (round_half_even (x / two_pow q)) * two_pow q"
    using assms by (simp add: f32_def round_bits_def q_def Let_def)
  have "x < two_pow (expo x + 1)" using expo_upper[of x] assms(1) by simp
  also have "\<dots> \<le> two_pow (24 + q)" by (rule two_pow_mono) (simp add: q_def)
  finally have "x / two_pow q \<le> of_int (2 ^ 24)" by (simp add: two_pow_add divide_le_eq two_pow_def[of 24])
  from round_half_even_mono[OF this] show "round_half_even (x / two_pow q) \<le> 2 ^ 24" by (simp only: round_half_even_of_int)
  show "2 ^ 23 \<le> round_half_even (x / two_pow q)" if "expo x - 23 \<ge> -149"
  proof -
    have q: "expo x = 23 + q" using that by (simp add: q_def)
    have "two_pow (expo x) \<le> x" using expo_lower[of x] assms(1) by simp
    then have "of_int (2 ^ 23) \<le> x / two_pow q" unfolding q two_pow_add by (simp add: le_divide_eq two_pow_def[of 23])
    from round_half_even_mono[OF this] show ?thesis by (simp only: round_half_even_of_int)
  qed
qed

lemma expo_mono: "0 < x \<Longrightarrow> x \<le> y \<Longrightarrow> expo x \<le> expo y"
proof (rule ccontr)
  assume a: "0 < x" "x \<le> y" "\<not> expo x \<le> expo y"
  then have "two_pow (expo y + 1) \<le> two_pow (expo x)" by (intro two_pow_mono) simp
  with expo_lower[of x] expo_upper[of y] a show False by simp
qed

lemma f32_mono_pos:
  assumes "0 < x" "x \<le> y"
  shows "f32 x \<le> f32 y"
proof -
  define q r where "q = max (expo x - 23) (-149)" and "r = max (expo y - 23) (-149)"
  note x = f32_parts[of x, folded q_def] and y = f32_parts[of y, folded r_def]
  have y0: "0 < y" using assms by linarith
  show ?thesis
  proof (cases "q = r")
    case True
    have "x / two_pow r \<le> y / two_pow r" using assms(2) by (simp add: divide_right_mono less_imp_le)
    from round_half_even_mono[OF this] have "of_int (round_half_even (x / two_pow r)) \<le> (of_int (round_half_even (y / two_pow r)) :: rat)"
      by (simp only: of_int_le_iff)
    then show ?thesis unfolding x(1)[OF assms(1)] y(1)[OF y0] True by (simp add: mult_right_mono less_imp_le)
  next
    case False
    then have e: "q < r" "expo y - 23 \<ge> -149" "r = expo y - 23"
      using expo_mono[OF assms] by (auto simp: q_def r_def)
    have "(of_int (round_half_even (x / two_pow q)) :: rat) \<le> of_int (2 ^ 24)" using x(2)[OF assms(1)] by (simp only: of_int_le_iff)
    then have "f32 x \<le> 2 ^ 24 * two_pow q" unfolding x(1)[OF assms(1)] by (simp add: mult_right_mono less_imp_le)
    also have "2 ^ 24 * two_pow q = two_pow (24 + q)" unfolding two_pow_add by (simp add: two_pow_def[of 24])
    also have "\<dots> \<le> two_pow (23 + r)" by (rule two_pow_mono) (use e(1) in simp)
    also have "two_pow (23 + r) = 2 ^ 23 * two_pow r" unfolding two_pow_add by (simp add: two_pow_def[of 23])
    also have "(of_int (2 ^ 23) :: rat) \<le> of_int (round_half_even (y / two_pow r))" using y(3)[OF y0 e(2)] by (simp only: of_int_le_iff)
    then have "2 ^ 23 * two_pow r \<le> f32 y" unfolding y(1)[OF y0] by (simp add: mult_right_mono less_imp_le)
    finally show ?thesis .
  qed
qed

lemma f32_mono: "x \<le> y \<Longrightarrow> f32 x \<le> f32 y"
proof -
  assume xy: "x \<le> y"
  consider "0 < x" | "x \<le> 0" "0 \<le> y" | "y < 0" by linarith
  then show ?thesis
  proof cases
    case 1 then show ?thesis using f32_mono_pos xy by simp
  next
    case 2
    have "0 \<le> f32 (- x)" "0 \<le> f32 y" using 2 by (simp_all add: f32_nonneg)
    then show ?thesis unfolding f32_minus by linarith
  next
    case 3
    then have "f32 (- y) \<le> f32 (- x)" using xy by (intro f32_mono_pos) simp_all
    then show ?thesis by (simp add: f32_minus)
  qed
qed

lemma f32_le: "x \<le> y \<Longrightarrow> f32 y = y \<Longrightarrow> f32 x \<le> y"
  using f32_mono[of x y] by simp

lemma f32_ge: "y \<le> x \<Longrightarrow> f32 y = y \<Longrightarrow> y \<le> f32 x"
  using f32_mono[of y x] by simp

lemma f32_two_pow: "-149 \<le> k \<Longrightarrow> f32 (two_pow k) = two_pow k"
proof -
  have "two_pow k < two_pow (24 + k)" unfolding two_pow_add by (simp add: two_pow_def[of 24])
  then show "-149 \<le> k \<Longrightarrow> f32 (two_pow k) = two_pow k"
    unfolding f32_def by (intro round_bits_exact[where e = k and m = 1]) (simp_all add: abs_of_pos)
qed

lemma round_half_even_near: "\<bar>y - of_int m\<bar> < 1 / 2 \<Longrightarrow> round_half_even y = m"
proof -
  assume y: "\<bar>y - of_int m\<bar> < 1 / 2"
  have "\<lfloor>y\<rfloor> = m \<or> \<lfloor>y\<rfloor> = m - 1" using y by linarith
  then show ?thesis using y by (auto simp: round_half_even_def Let_def abs_less_iff)
qed

lemma expo_eq: "0 < x \<Longrightarrow> two_pow k \<le> x \<Longrightarrow> x < two_pow (k + 1) \<Longrightarrow> expo x = k"
proof -
  assume x: "0 < x" "two_pow k \<le> x" "x < two_pow (k + 1)"
  have "\<not> expo x < k" using two_pow_mono[of "expo x + 1" k] expo_upper[of x] x by force
  moreover have "\<not> k < expo x" using two_pow_mono[of "k + 1" "expo x"] expo_lower[of x] x by force
  ultimately show ?thesis by linarith
qed

lemma f32_nearest:
  assumes "two_pow (23 + e) \<le> x" "x < two_pow (24 + e)" "\<bar>x - of_int m * two_pow e\<bar> < two_pow e / 2" "-149 \<le> e"
  shows "f32 x = of_int m * two_pow e"
proof -
  have x: "0 < x" using assms(1) two_pow_pos[of "23 + e"] by linarith
  have "expo x = 23 + e" using expo_eq[OF x, of "23 + e"] assms(1,2) by simp
  then have q: "max (expo x - 23) (-149) = e" using assms(4) by simp
  have "\<bar>x / two_pow e - of_int m\<bar> = \<bar>x - of_int m * two_pow e\<bar> / two_pow e"
  proof -
    have "x / two_pow e - of_int m = (x - of_int m * two_pow e) / two_pow e"
      using two_pow_pos[of e] by (simp add: diff_divide_distrib less_imp_neq[symmetric])
    then show ?thesis using two_pow_pos[of e] by (simp add: abs_of_pos)
  qed
  also have "\<dots> < 1 / 2" using assms(3) two_pow_pos[of e] by (simp add: divide_less_eq)
  finally show ?thesis using round_half_even_near f32_parts(1)[OF x] unfolding q by simp
qed

end
