(* ===== verification/Tone_Generate.thy ===== *)
theory Tone_Generate
  imports Prelude Float_Round
begin

unbundle bit_operations_syntax

text \<open>
  The tone generator of libteletone,
  \<^verbatim>\<open>crates/fswtch-src/freeswitch/libs/libteletone/src/libteletone_generate.c\<close> and the inline
  oscillator of \<^verbatim>\<open>libteletone_generate.h\<close>. The buffer of a session is the list of the
  samples that are really allocated; a write behind it is the result \<^const>\<open>None\<close>. C
  \<^verbatim>\<open>int\<close>s are \<^typ>\<open>int\<close>s; the sizes of the buffer, which the script's numbers are multiplied
  into, are computed in 32 bits. \<open>powf\<close> is the function of
  the C library, \<open>realloc_ok\<close> says for which sizes \<^verbatim>\<open>realloc\<close> succeeds and \<open>fresh\<close> what new
  memory holds. Not modelled are the debug output, the handler and user data pointers of
  the session.
\<close>

section \<open>Oscillator\<close>

definition TELETONE_VOL_DB_MAX :: rat where [cval]: "TELETONE_VOL_DB_MAX = 0"
definition TELETONE_VOL_DB_MIN :: rat where [cval]: "TELETONE_VOL_DB_MIN = -63"
definition MAX_PHASE_TONES :: nat where [cval]: "MAX_PHASE_TONES = 4"
definition SINE_TABLE_MAX :: int where [cval]: "SINE_TABLE_MAX = 128"
definition SINE_TABLE_LEN :: int where [cval]: "SINE_TABLE_LEN = SINE_TABLE_MAX - 1"
definition TELETONE_MAX_TONES :: nat where [cval]: "TELETONE_MAX_TONES = 18"
definition TELETONE_TONE_RANGE :: nat where [cval]: "TELETONE_TONE_RANGE = 127"

definition DBM0_MAX_POWER :: rat where "DBM0_MAX_POWER = f32 (f32 (314 / 100) + f32 (302 / 100))"

definition TELETONE_SINES :: "int list" where
  "TELETONE_SINES = [
     0x00c9, 0x025b, 0x03ed, 0x057f, 0x0711, 0x08a2, 0x0a33, 0x0bc4,
     0x0d54, 0x0ee4, 0x1073, 0x1201, 0x138f, 0x151c, 0x16a8, 0x1833,
     0x19be, 0x1b47, 0x1cd0, 0x1e57, 0x1fdd, 0x2162, 0x22e5, 0x2467,
     0x25e8, 0x2768, 0x28e5, 0x2a62, 0x2bdc, 0x2d55, 0x2ecc, 0x3042,
     0x31b5, 0x3327, 0x3497, 0x3604, 0x3770, 0x38d9, 0x3a40, 0x3ba5,
     0x3d08, 0x3e68, 0x3fc6, 0x4121, 0x427a, 0x43d1, 0x4524, 0x4675,
     0x47c4, 0x490f, 0x4a58, 0x4b9e, 0x4ce1, 0x4e21, 0x4f5e, 0x5098,
     0x51cf, 0x5303, 0x5433, 0x5560, 0x568a, 0x57b1, 0x58d4, 0x59f4,
     0x5b10, 0x5c29, 0x5d3e, 0x5e50, 0x5f5e, 0x6068, 0x616f, 0x6272,
     0x6371, 0x646c, 0x6564, 0x6657, 0x6747, 0x6832, 0x691a, 0x69fd,
     0x6add, 0x6bb8, 0x6c8f, 0x6d62, 0x6e31, 0x6efb, 0x6fc2, 0x7083,
     0x7141, 0x71fa, 0x72af, 0x735f, 0x740b, 0x74b3, 0x7556, 0x75f4,
     0x768e, 0x7723, 0x77b4, 0x7840, 0x78c8, 0x794a, 0x79c9, 0x7a42,
     0x7ab7, 0x7b27, 0x7b92, 0x7bf9, 0x7c5a, 0x7cb7, 0x7d0f, 0x7d63,
     0x7db1, 0x7dfb, 0x7e3f, 0x7e7f, 0x7eba, 0x7ef0, 0x7f22, 0x7f4e,
     0x7f75, 0x7f98, 0x7fb5, 0x7fce, 0x7fe2, 0x7ff1, 0x7ffa, 0x7fff]"

record dds_state =
  phase_rate :: "u32 list"
  scale_factor :: u32
  phase_accumulator :: u32
  tx_level :: rat

definition dds_zero :: dds_state where
  "dds_zero = \<lparr>phase_rate = replicate MAX_PHASE_TONES 0, scale_factor = 0, phase_accumulator = 0, tx_level = 0\<rparr>"

text \<open>
  A rate of 0 (the script \<^verbatim>\<open>r=0\<close>) divides a double by 0 and converts the result to
  \<^verbatim>\<open>int32_t\<close>, which is undefined in C; it is 0 here, and no property speaks of that rate. A
  quotient outside \<^verbatim>\<open>int32_t\<close> is undefined as well, and its low 32 bits here.
\<close>

definition teletone_dds_phase_rate :: "rat \<Rightarrow> u32 \<Rightarrow> u32" where
  "teletone_dds_phase_rate tone rate =
     word_of_int (trunc (f64 (f64 (f64 (tone * 0x10000) * 0x10000) / of_int (uint rate))))"

definition teletone_dds_state_modulate_sample :: "dds_state \<Rightarrow> u32 \<Rightarrow> dds_state \<times> int" where
  "teletone_dds_state_modulate_sample dds pindex =
     (let bitmask = sint (phase_accumulator dds) div 2 ^ 23;
          sine_index = bitmask AND SINE_TABLE_LEN;
          pindex = (if unat pindex \<ge> MAX_PHASE_TONES then 0 else pindex);
          sine_index = (if bitmask AND SINE_TABLE_MAX \<noteq> 0 then SINE_TABLE_LEN - sine_index else sine_index);
          sample = TELETONE_SINES ! nat sine_index;
          sample = (if bitmask AND (SINE_TABLE_MAX * 2) \<noteq> 0 then sample * -1 else sample)
      in (dds\<lparr>phase_accumulator := phase_accumulator dds + phase_rate dds ! unat pindex\<rparr>,
          cast_i16 (uint (drop_bit 15 (word_of_int sample * scale_factor dds)))))"

definition teletone_dds_state_set_tx_level :: "(rat \<Rightarrow> rat \<Rightarrow> rat) \<Rightarrow> dds_state \<Rightarrow> rat \<Rightarrow> dds_state" where
  "teletone_dds_state_set_tx_level powf dds level =
     dds\<lparr>scale_factor := word_of_int (trunc (f32 (powf 10 (f32 (f32 (level - DBM0_MAX_POWER) / 20)) *
            f32 (32767 * f32 (1414214 / 1000000))))),
         tx_level := level\<rparr>"

definition teletone_dds_state_reset_accum :: "dds_state \<Rightarrow> dds_state" where
  "teletone_dds_state_reset_accum dds = dds\<lparr>phase_accumulator := 0\<rparr>"

definition teletone_dds_state_set_tone :: "dds_state \<Rightarrow> rat \<Rightarrow> u32 \<Rightarrow> u32 \<Rightarrow> int \<times> dds_state" where
  "teletone_dds_state_set_tone dds tone rate pindex =
     (if unat pindex < MAX_PHASE_TONES
      then (0, dds\<lparr>phase_rate := (phase_rate dds)[unat pindex := teletone_dds_phase_rate tone rate]\<rparr>)
      else (-1, dds))"

section \<open>Session\<close>

type_synonym tone_map = "rat list"

record tone_session =
  TONES :: "tone_map list"
  channels :: int
  tone_rate :: int
  tone_duration :: int
  tone_wait :: int
  tmp_duration :: int
  tmp_wait :: int
  tone_loops :: int
  tone_LOOPS :: int
  decay_factor :: rat
  decay_direction :: int
  decay_step :: int
  volume :: rat
  tone_buffer :: "int list"
  datalen :: int
  tone_samples :: int
  dynamic :: int

text \<open>
  The variable arguments are the list of the numbers passed; reading past it is undefined.
  The frequencies overwrite the first entries of the map and leave the others.
\<close>

definition take_tones :: "rat list \<Rightarrow> tone_map \<Rightarrow> tone_map option" where
  "take_tones args m =
     (let xs = takeWhile (\<lambda>x. x \<noteq> 0) args in
      if length xs = length args \<and> length args < TELETONE_MAX_TONES then None
      else let xs = take TELETONE_MAX_TONES xs in Some (xs @ drop (length xs) m))"

definition teletone_set_tone :: "tone_session \<Rightarrow> nat \<Rightarrow> rat list \<Rightarrow> (int \<times> tone_session) option" where
  "teletone_set_tone ts index args =
     (if index < length (TONES ts)
      then map_option (\<lambda>m. (0, ts\<lparr>TONES := (TONES ts)[index := m]\<rparr>)) (take_tones args (TONES ts ! index))
      else None)"

definition teletone_set_map :: "tone_map \<Rightarrow> rat list \<Rightarrow> (int \<times> tone_map) option" where
  "teletone_set_map m args = map_option (\<lambda>m. (0, m)) (take_tones args m)"

text \<open>The standard DTMF tones, in the order of the calls.\<close>

definition dtmf_calls :: "(char \<times> rat \<times> rat) list" where
  "dtmf_calls =
     [(CHR ''1'', 697, 1209), (CHR ''2'', 697, 1336), (CHR ''3'', 697, 1477), (CHR ''A'', 697, 1633),
      (CHR ''4'', 770, 1209), (CHR ''5'', 770, 1336), (CHR ''6'', 770, 1477), (CHR ''B'', 770, 1633),
      (CHR ''7'', 859, 1209), (CHR ''8'', 859, 1336), (CHR ''9'', 859, 1477), (CHR ''C'', 859, 1633),
      (CHR ''*'', 941, 1209), (CHR ''0'', 941, 1336), (CHR ''#'', 941, 1477), (CHR ''D'', 941, 1633)]"

definition empty_map :: tone_map where "empty_map = replicate TELETONE_MAX_TONES 0"

definition teletone_init_session :: "(int \<Rightarrow> bool) \<Rightarrow> int \<Rightarrow> (int \<times> tone_session) option" where
  "teletone_init_session calloc_ok buflen =
     (let ts = \<lparr>TONES = replicate TELETONE_TONE_RANGE empty_map, channels = 1, tone_rate = 8000,
             tone_duration = 2000, tone_wait = 500, tmp_duration = -1, tmp_wait = -1, tone_loops = 0,
             tone_LOOPS = 0, decay_factor = 1, decay_direction = 0, decay_step = 0, volume = -7,
             tone_buffer = [], datalen = 0, tone_samples = 0, dynamic = 0\<rparr>
      in if buflen \<noteq> 0 \<and> \<not> calloc_ok buflen then Some (-1, ts)
         else
           let ts = (if buflen \<noteq> 0 then ts\<lparr>tone_buffer := replicate (nat buflen) 0, datalen := buflen\<rparr>
                     else ts\<lparr>dynamic := 1024\<rparr>)
           in map_option (\<lambda>ts. (0, ts))
                (foldl (\<lambda>t (c, f1, f2). case t of None \<Rightarrow> None
                   | Some t \<Rightarrow> map_option snd (teletone_set_tone t (of_char c) [f1, f2, 0])) (Some ts) dtmf_calls))"

definition teletone_destroy_session :: "tone_session \<Rightarrow> int \<times> tone_session" where
  "teletone_destroy_session ts = (0, if tone_buffer ts \<noteq> [] then ts\<lparr>tone_buffer := [], tone_samples := 0\<rparr> else ts)"

section \<open>Generation\<close>

definition resize :: "(nat \<Rightarrow> int) \<Rightarrow> nat \<Rightarrow> int list \<Rightarrow> int list" where
  "resize fresh n buf = take n buf @ map fresh [length buf..<n]"

text \<open>
  \<^verbatim>\<open>ensure_buffer\<close>; sizes are bytes, a sample has two. The product with
  \<^verbatim>\<open>sizeof(teletone_audio_t)\<close> is one of \<^verbatim>\<open>size_t\<close>s, whose low 32 bits are stored in \<^verbatim>\<open>need\<close>;
  the other operations are those of \<^verbatim>\<open>int\<close>.
\<close>

definition ensure_buffer :: "(int \<Rightarrow> bool) \<Rightarrow> (nat \<Rightarrow> int) \<Rightarrow> tone_session \<Rightarrow> int \<Rightarrow> int \<times> tone_session" where
  "ensure_buffer realloc_ok fresh ts need =
     (let need = cast_i32 (need + tone_samples ts);
          need = cast_i32 (uint ((word_of_int need :: u64) * 2));
          need = cast_i32 (need * channels ts) in
      if need > datalen ts then
        (let ts = ts\<lparr>datalen := cast_i32 (need + dynamic ts)\<rparr> in
         if realloc_ok (datalen ts)
         then (0, ts\<lparr>tone_buffer := resize fresh (nat (datalen ts) div 2) (tone_buffer ts)\<rparr>)
         else (-1, ts))
      else (0, ts))"

text \<open>The decay at the head of the sample loop: the volume, the counter \<^verbatim>\<open>dc\<close>, the oscillators.\<close>

definition decay :: "(rat \<Rightarrow> rat \<Rightarrow> rat) \<Rightarrow> tone_session \<Rightarrow> rat \<times> int \<times> dds_state list \<Rightarrow> rat \<times> int \<times> dds_state list" where
  "decay powf ts = (\<lambda>(vol, dc, tones).
     if decay_direction ts \<noteq> 0 then
       (let dc = dc + 1 in
        if dc \<ge> decay_step ts then
          (let nvol = f32 (vol + f32 (of_int (decay_direction ts) * decay_factor ts)) in
           if nvol \<le> TELETONE_VOL_DB_MAX \<and> nvol \<ge> TELETONE_VOL_DB_MIN
           then (nvol, 0, map (\<lambda>d. teletone_dds_state_set_tx_level powf d nvol) tones)
           else (vol, dc, tones))
        else (vol, dc, tones))
     else (vol, dc, tones))"

fun mix_tones :: "dds_state list \<Rightarrow> int \<Rightarrow> dds_state list \<times> int" where
  "mix_tones [] sample = ([], sample)"
| "mix_tones (d # ds) sample =
     (let (d, s) = teletone_dds_state_modulate_sample d 0; (ds, sample) = mix_tones ds (sample + s) in (d # ds, sample))"

text \<open>\<open>n\<close> rounds of the loop that writes the tone from index \<open>k\<close> on.\<close>

fun tone_loop :: "(rat \<Rightarrow> rat \<Rightarrow> rat) \<Rightarrow> tone_session \<Rightarrow> nat \<Rightarrow> rat \<times> int \<times> dds_state list \<Rightarrow> int list \<Rightarrow> nat \<Rightarrow> int list option" where
  "tone_loop powf ts 0 st buf k = Some buf"
| "tone_loop powf ts (Suc n) st buf k =
     (let (vol, dc, tones) = decay powf ts st;
          (tones', sample) = mix_tones tones 128;
          sample = (if tones \<noteq> [] then cdivi sample (int (length tones)) else sample)
      in if k < length buf then tone_loop powf ts n (vol, dc, tones') (buf[k := cast_i16 sample]) (Suc k) else None)"

fun silence_loop :: "nat \<Rightarrow> int list \<Rightarrow> nat \<Rightarrow> int list option" where
  "silence_loop 0 buf k = Some buf"
| "silence_loop (Suc n) buf k = (if k < length buf then silence_loop n (buf[k := 0]) (Suc k) else None)"

definition start_tones :: "(rat \<Rightarrow> rat \<Rightarrow> rat) \<Rightarrow> tone_session \<Rightarrow> tone_map \<Rightarrow> dds_state list" where
  "start_tones powf ts m =
     map (\<lambda>f. teletone_dds_state_set_tx_level powf
           (snd (teletone_dds_state_set_tone dds_zero f (word_of_int (tone_rate ts)) 0)) (volume ts))
       (takeWhile (\<lambda>f. f \<noteq> 0) (take TELETONE_MAX_TONES m))"

definition effective :: "int \<Rightarrow> int \<Rightarrow> int" where
  "effective tmp dft = (if tmp > -1 then tmp else dft)"

text \<open>The first half of \<^verbatim>\<open>teletone_mux_tones\<close>: the tone. \<open>Inl\<close> is the return of -1.\<close>

definition mux_tone :: "(rat \<Rightarrow> rat \<Rightarrow> rat) \<Rightarrow> (int \<Rightarrow> bool) \<Rightarrow> (nat \<Rightarrow> int) \<Rightarrow> tone_session \<Rightarrow> tone_map \<Rightarrow> (tone_session + tone_session) option" where
  "mux_tone powf realloc_ok fresh ts m =
     (let ts = ts\<lparr>tone_samples := 0\<rparr>; duration = effective (tmp_duration ts) (tone_duration ts) in
      if m ! 0 > 0 then
        (let (r, ts) = (if dynamic ts \<noteq> 0 then ensure_buffer realloc_ok fresh ts (cast_i32 (duration * channels ts)) else (0, ts)) in
         if r \<noteq> 0 then Some (Inl ts)
         else
           let n = nat (min (datalen ts) duration) in
           map_option (\<lambda>buf. Inr (ts\<lparr>tone_buffer := buf, tone_samples := int n\<rparr>))
             (tone_loop powf ts n (volume ts, 0, start_tones powf ts m) (tone_buffer ts) 0))
      else Some (Inr ts))"

definition mux_silence :: "(int \<Rightarrow> bool) \<Rightarrow> (nat \<Rightarrow> int) \<Rightarrow> tone_session \<Rightarrow> (int \<times> tone_session) option" where
  "mux_silence realloc_ok fresh ts =
     (let wait = effective (tmp_wait ts) (tone_wait ts);
          (r, ts) = (if dynamic ts \<noteq> 0 then ensure_buffer realloc_ok fresh ts (cast_i32 (wait * channels ts)) else (0, ts))
      in if r \<noteq> 0 then Some (-1, ts)
         else
           let n = nat (min wait (datalen ts - tone_samples ts)) in
           map_option (\<lambda>buf. let ts = ts\<lparr>tone_buffer := buf, tone_samples := tone_samples ts + int n\<rparr>
                in (tone_samples ts, ts))
             (silence_loop n (tone_buffer ts) (nat (tone_samples ts))))"

definition teletone_mux_tones :: "(rat \<Rightarrow> rat \<Rightarrow> rat) \<Rightarrow> (int \<Rightarrow> bool) \<Rightarrow> (nat \<Rightarrow> int) \<Rightarrow> tone_session \<Rightarrow> tone_map \<Rightarrow> (int \<times> tone_session) option" where
  "teletone_mux_tones powf realloc_ok fresh ts m =
     (case mux_tone powf realloc_ok fresh ts m of
        None \<Rightarrow> None
      | Some (Inl ts) \<Rightarrow> Some (-1, ts)
      | Some (Inr ts) \<Rightarrow> mux_silence realloc_ok fresh ts)"


section \<open>The oscillator as a sampled sine\<close>

text \<open>One period has 512 steps: the quarter wave of the table, mirrored, and both negated.\<close>

definition wave :: "nat \<Rightarrow> int" where
  "wave i = (let j = i mod 128; q = TELETONE_SINES ! (if odd (i div 128) then 127 - j else j)
     in if odd (i div 256) then - q else q)"

lemma sines_range: "\<forall>s\<in>set TELETONE_SINES. 0 < s \<and> s \<le> 32767"
  by (simp add: TELETONE_SINES_def)

lemma sines_length [simp]: "length TELETONE_SINES = 128"
  by (simp add: TELETONE_SINES_def)

lemma sines_nth_range: "j < 128 \<Longrightarrow> 0 < TELETONE_SINES ! j \<and> TELETONE_SINES ! j \<le> 32767"
  using sines_range by (metis nth_mem sines_length)

lemma wave_range: "\<bar>wave i\<bar> \<le> 32767"
proof -
  have "i mod 128 < 128" "127 - i mod 128 < 128" by simp_all
  then have "\<bar>TELETONE_SINES ! (i mod 128)\<bar> \<le> 32767" "\<bar>TELETONE_SINES ! (127 - i mod 128)\<bar> \<le> 32767"
    using sines_nth_range by fastforce+
  then show ?thesis by (simp add: wave_def Let_def)
qed

lemma wave_half_period: "wave (i + 256) = - wave i"
proof -
  have "(i + 2 * 128) mod 128 = i mod 128" "(i + 2 * 128) div 128 = 2 + i div 128" "(i + 256) div 256 = Suc (i div 256)"
    by (simp_all only: mod_mult_self1 div_mult_self1 zero_neq_numeral not_False_eq_True)
  then show ?thesis by (simp add: wave_def Let_def)
qed

lemma and_128_iff: "(b :: int) AND 128 \<noteq> 0 \<longleftrightarrow> odd (b div 128)"
  using and_exp_eq_0_iff_not_bit[of b 7] by (simp add: bit_iff_odd)

lemma and_256_iff: "(b :: int) AND 256 \<noteq> 0 \<longleftrightarrow> odd (b div 256)"
  using and_exp_eq_0_iff_not_bit[of b 8] by (simp add: bit_iff_odd)

lemma and_127: "(b :: int) AND 127 = b mod 128"
proof -
  have "(127 :: int) = mask 7" by (simp add: mask_eq_exp_minus_1)
  then show ?thesis by (simp only: take_bit_eq_mask[symmetric] take_bit_eq_mod) simp
qed

lemma sar_index:
  fixes a :: u32
  obtains k where "sint a div 2 ^ 23 = int (unat (drop_bit 23 a)) + 512 * k"
proof -
  have u: "int (unat (drop_bit 23 a)) = uint a div 2 ^ 23"
    by (simp add: uint_drop_bit_div flip: uint_nat del: drop_bit_eq_div)
  have b: "bit (uint a) 31 \<longleftrightarrow> \<not> uint a < 2 ^ 31"
  proof (cases "uint a < 2 ^ 31")
    case True
    then have "uint a div 2 ^ 31 = 0" by (simp add: div_pos_pos_trivial)
    with True show ?thesis by (simp add: bit_iff_odd)
  next
    case False
    with uint_lt2p[of a] have "1 \<le> uint a div 2 ^ 31" "uint a div 2 ^ 31 < 2"
      using div_between[of "2 ^ 31" 1 "uint a" 2] by simp_all
    then have "uint a div 2 ^ 31 = 1" by linarith
    with False show ?thesis by (simp add: bit_iff_odd)
  qed
  have "take_bit 32 (uint a) = uint a" using uint_lt2p[of a] by (simp add: take_bit_int_eq_self)
  then have s: "sint a = uint a - (if uint a < 2 ^ 31 then 0 else 2 ^ 32)"
    by (simp add: sint_uint signed_take_bit_eq_take_bit_minus b)
  show thesis
  proof (cases "uint a < 2 ^ 31")
    case True then show thesis using that[of 0] u s by simp
  next
    case False
    have "(uint a - 2 ^ 32) div 2 ^ 23 = uint a div 2 ^ 23 - 512" by simp
    then show thesis using that[of "-1"] u s False by simp
  qed
qed

lemma scaled_sample:
  assumes "\<bar>s\<bar> \<le> 32767" "(sf :: u32) \<le> 0x8000"
  shows "cast_i16 (uint (drop_bit 15 (word_of_int s * sf))) = s * uint sf div 2 ^ 15"
proof -
  have sf: "0 \<le> uint sf" "uint sf \<le> 32768" using assms(2) by (simp_all add: word_le_def)
  define p where "p = s * uint sf"
  have "\<bar>s * uint sf\<bar> \<le> 32767 * 32768"
    unfolding abs_mult using sf assms(1) by (intro mult_mono) auto
  then have p: "- (32767 * 32768) \<le> p" "p \<le> 32767 * 32768" by (simp_all add: p_def)
  then have q: "- 32767 \<le> p div 2 ^ 15" "p div 2 ^ 15 < 32768" 
    using div_between[of "2 ^ 15" "- 32767" p 32768] by simp_all
  have "uint (drop_bit 15 (word_of_int s * sf)) = (p mod 2 ^ 32) div 2 ^ 15"
    by (simp only: uint_drop_bit_div uint_word_ariths) (simp add: p_def unsigned_of_int take_bit_eq_mod mod_mult_left_eq)
  also have "\<dots> = (p div 2 ^ 15) mod 2 ^ 17"
    using drop_bit_take_bit[of 15 32 p] by (simp add: drop_bit_eq_div take_bit_eq_mod)
  finally have "cast_i16 (uint (drop_bit 15 (word_of_int s * sf))) = (p div 2 ^ 15 + 32768) mod 65536 - 32768"
    unfolding cast_i16_def by (simp only:) (rule arg_cong[of _ _ "\<lambda>x. x - 32768"], rule mod_add_cong, simp_all add: mod_mod_cancel)
  also have "\<dots> = p div 2 ^ 15" using q by (simp add: mod_pos_pos_trivial)
  finally show ?thesis by (simp add: p_def)
qed

lemma wave_eq:
  assumes "b = int i + 512 * k"
  shows "(if b AND (SINE_TABLE_MAX * 2) \<noteq> 0
      then TELETONE_SINES ! nat (if b AND SINE_TABLE_MAX \<noteq> 0 then SINE_TABLE_LEN - (b AND SINE_TABLE_LEN) else b AND SINE_TABLE_LEN) * -1
      else TELETONE_SINES ! nat (if b AND SINE_TABLE_MAX \<noteq> 0 then SINE_TABLE_LEN - (b AND SINE_TABLE_LEN) else b AND SINE_TABLE_LEN))
    = wave i"
proof -
  have "(int i + (4 * k) * 128) mod 128 = int i mod 128" "(int i + (4 * k) * 128) div 128 = 4 * k + int i div 128"
    "(int i + (2 * k) * 256) div 256 = 2 * k + int i div 256"
    by (simp_all only: mod_mult_self1 div_mult_self1 zero_neq_numeral not_False_eq_True)
  then have "b mod 128 = int (i mod 128)" "odd (b div 128) \<longleftrightarrow> odd (i div 128)" "odd (b div 256) \<longleftrightarrow> odd (i div 256)"
    using assms even_of_nat[of "i div 128", where ?'a = int] even_of_nat[of "i div 256", where ?'a = int]
    by (simp_all add: zmod_int zdiv_int del: even_of_nat)
  moreover have "nat (127 - int (i mod 128)) = 127 - i mod 128" by (simp add: nat_diff_distrib')
  ultimately show ?thesis
    by (simp add: wave_def Let_def SINE_TABLE_MAX_def SINE_TABLE_LEN_def and_127 and_128_iff and_256_iff)
qed

text \<open>
  C35: While the level is at most that of a full-scale sine (\<open>scale_factor \<le> 2 ^ 15\<close>), the
  oscillator returns the value of the sampled sine at the upper nine bits of the phase,
  scaled by \<open>scale_factor / 2 ^ 15\<close> and rounded down; no product or conversion wraps and
  the table is read in bounds. The phase advances by the rate of the tone.
\<close>

theorem modulate_sample_wave:
  assumes "scale_factor dds \<le> 0x8000" "unat pindex < MAX_PHASE_TONES"
  shows "teletone_dds_state_modulate_sample dds pindex =
    (dds\<lparr>phase_accumulator := phase_accumulator dds + phase_rate dds ! unat pindex\<rparr>,
     wave (unat (drop_bit 23 (phase_accumulator dds))) * uint (scale_factor dds) div 2 ^ 15)"
proof -
  obtain k where "sint (phase_accumulator dds) div 2 ^ 23 = int (unat (drop_bit 23 (phase_accumulator dds))) + 512 * k"
    by (rule sar_index)
  then show ?thesis
    using assms scaled_sample[OF wave_range assms(1)]
    by (simp only: teletone_dds_state_modulate_sample_def Let_def wave_eq not_le[symmetric] if_False if_True)
qed

theorem modulate_sample_wave_witness:
  "teletone_dds_state_modulate_sample \<lparr>phase_rate = [0x1000000, 0, 0, 0], scale_factor = 0x4000, phase_accumulator = 0x40800000, tx_level = -7\<rparr> 0 =
    (\<lparr>phase_rate = [0x1000000, 0, 0, 0], scale_factor = 0x4000, phase_accumulator = 0x41800000, tx_level = -7\<rparr>, 16381)"
  by (subst modulate_sample_wave) (simp_all add: MAX_PHASE_TONES_def wave_def TELETONE_SINES_def Let_def drop_bit_eq_div)


section \<open>Memory safety of the generation\<close>

text \<open>
  The buffer of a session in order: \<^verbatim>\<open>datalen\<close> counts samples in a fixed buffer and bytes in a
  dynamic one.
\<close>

definition session_ok :: "tone_session \<Rightarrow> bool" where
  "session_ok ts \<longleftrightarrow> 1 \<le> channels ts \<and> 0 \<le> datalen ts \<and>
     (if dynamic ts = 0 then length (tone_buffer ts) = nat (datalen ts)
      else 0 < dynamic ts \<and> length (tone_buffer ts) = nat (datalen ts) div 2)"

lemma tone_loop_Some:
  "k + n \<le> length buf \<Longrightarrow> \<exists>buf'. tone_loop powf ts n st buf k = Some buf' \<and> length buf' = length buf"
proof (induction n arbitrary: st buf k)
  case (Suc n)
  then show ?case using Suc.IH[of "Suc k" "buf[k := _]"] by (auto split: prod.split)
qed simp

lemma tone_loop_None: "k \<le> length buf \<Longrightarrow> length buf < k + n \<Longrightarrow> tone_loop powf ts n st buf k = None"
  by (induction n arbitrary: st buf k) (auto split: prod.split)

lemma silence_loop_Some:
  "k + n \<le> length buf \<Longrightarrow> silence_loop n buf k = Some (take k buf @ replicate n 0 @ drop (k + n) buf)"
proof (induction n arbitrary: buf k)
  case (Suc n)
  then have k: "k < length buf" by simp
  have "take (Suc k) (buf[k := 0]) = take k buf @ [0]"
    using k by (simp add: take_Suc_conv_app_nth)
  then show ?case using Suc by (simp add: replicate_append_same)
qed simp

lemma silence_loop_None: "k \<le> length buf \<Longrightarrow> length buf < k + n \<Longrightarrow> silence_loop n buf k = None"
  by (induction n arbitrary: buf k) auto

lemma resize_length [simp]: "length (resize fresh n buf) = n"
  by (simp add: resize_def)

lemma need_bytes:
  fixes c d s :: int
  assumes "1 \<le> c" "0 \<le> d" "0 \<le> s"
  shows "2 * (d + s) \<le> (d * c + s) * 2 * c"
proof -
  have "d * 1 \<le> d * c" using assms by (intro mult_left_mono) auto
  then have "d + s \<le> (d * c + s) * 1" by simp
  also have "\<dots> \<le> (d * c + s) * c" using assms by (intro mult_left_mono) auto
  finally have "d + s \<le> (d * c + s) * c" .
  then have "2 * (d + s) \<le> 2 * ((d * c + s) * c)" by (rule mult_left_mono) simp
  then show ?thesis by (simp only: ac_simps)
qed

text \<open>The bytes for \<open>d\<close> more samples of each channel, and what is reserved beyond, are an \<^verbatim>\<open>int\<close>.\<close>

definition bytes_fit :: "tone_session \<Rightarrow> int \<Rightarrow> bool" where
  "bytes_fit ts n \<longleftrightarrow> n * channels ts * 2 * channels ts + dynamic ts \<le> INT_MAX"

lemma mult_size_2: "cast_i32 (uint ((word_of_int x :: u64) * 2)) = cast_i32 (x * 2)"
proof -
  have "uint ((word_of_int x :: u64) * 2) = (x * 2) mod 2 ^ 64"
    by (simp add: uint_word_ariths unsigned_of_int take_bit_eq_mod mod_mult_left_eq)
  moreover have "((x * 2) mod 2 ^ 64 + 2147483648) mod 4294967296 = (x * 2 + 2147483648) mod 4294967296"
    by (rule mod_add_cong) (simp_all add: mod_mod_cancel)
  ultimately show ?thesis by (simp add: cast_i32_def)
qed

lemma bytes_fit_need:
  assumes "bytes_fit ts (\<bar>d\<bar> + s)" "1 \<le> channels ts" "0 < dynamic ts" "0 \<le> s"
  defines "c \<equiv> channels ts"
  shows "cast_i32 (d * c) = d * c" "cast_i32 (d * c + s) = d * c + s"
    "cast_i32 (uint ((word_of_int (d * c + s) :: u64) * 2)) = (d * c + s) * 2"
    "cast_i32 ((d * c + s) * 2 * c) = (d * c + s) * 2 * c"
    "(d * c + s) * 2 * c > 0 \<Longrightarrow> cast_i32 ((d * c + s) * 2 * c + dynamic ts) = (d * c + s) * 2 * c + dynamic ts"
proof -
  have c: "1 \<le> c" using assms by simp
  have grow: "\<bar>y\<bar> \<le> \<bar>y\<bar> * c" for y using mult_left_mono[OF c, of "\<bar>y\<bar>"] by simp
  have "\<bar>d * c\<bar> = \<bar>d\<bar> * c" using c by (simp add: abs_mult)
  moreover have "s \<le> s * c" using grow[of s] assms(4) by simp
  ultimately have 1: "\<bar>d * c\<bar> + s \<le> (\<bar>d\<bar> + s) * c" by (simp add: algebra_simps)
  have B: "(\<bar>d\<bar> + s) * c * 2 * c + dynamic ts \<le> INT_MAX" using assms(1) by (simp add: bytes_fit_def c_def)
  have "0 \<le> (\<bar>d\<bar> + s) * c * 2" using assms(4) c by simp
  then have 3: "(\<bar>d\<bar> + s) * c * 2 \<le> (\<bar>d\<bar> + s) * c * 2 * c" using grow[of "(\<bar>d\<bar> + s) * c * 2"] by simp
  have 4: "\<bar>d * c + s\<bar> \<le> (\<bar>d\<bar> + s) * c" using 1 assms(4) by linarith
  have "\<bar>(d * c + s) * 2 * c\<bar> = \<bar>d * c + s\<bar> * (2 * c)"
    using abs_mult[of "d * c + s" "2 * c"] abs_of_nonneg[of "2 * c"] c unfolding mult.assoc by linarith
  also have "\<dots> \<le> (\<bar>d\<bar> + s) * c * (2 * c)" using 4 c by (intro mult_right_mono) auto
  finally have 5: "\<bar>(d * c + s) * 2 * c\<bar> \<le> (\<bar>d\<bar> + s) * c * 2 * c" by (simp add: ac_simps)
  have 0: "0 \<le> (\<bar>d\<bar> + s) * c" using assms(4) c by simp
  have 6: "\<bar>(d * c + s) * 2\<bar> \<le> (\<bar>d\<bar> + s) * c * 2"
    using mult_right_mono[OF 4, of 2] by (simp only: abs_mult abs_numeral)
  note b = 1 B 3 4 5 6 0 assms(3,4)
  show "cast_i32 (d * c) = d * c" using b by (intro cast_i32_id) (unfold cval, linarith+)
  show "cast_i32 (d * c + s) = d * c + s" using b by (intro cast_i32_id) (unfold cval, linarith+)
  show "cast_i32 (uint ((word_of_int (d * c + s) :: u64) * 2)) = (d * c + s) * 2"
    unfolding mult_size_2 using B 3 6 assms(3) by (intro cast_i32_id) (simp_all only: cval abs_le_iff, linarith+)
  show "cast_i32 ((d * c + s) * 2 * c) = (d * c + s) * 2 * c" using b by (intro cast_i32_id) (unfold cval, linarith+)
  show "(d * c + s) * 2 * c > 0 \<Longrightarrow> cast_i32 ((d * c + s) * 2 * c + dynamic ts) = (d * c + s) * 2 * c + dynamic ts"
    using b by (intro cast_i32_id) (unfold cval, linarith+)
qed

lemma ensure_buffer_need:
  assumes "bytes_fit ts (\<bar>d\<bar> + tone_samples ts)" "session_ok ts" "dynamic ts \<noteq> 0" "0 \<le> tone_samples ts"
    and need: "need = (d * channels ts + tone_samples ts) * 2 * channels ts"
  shows "ensure_buffer realloc_ok fresh ts (cast_i32 (d * channels ts)) =
    (if need > datalen ts then
       (let ts = ts\<lparr>datalen := need + dynamic ts\<rparr> in
        if realloc_ok (datalen ts)
        then (0, ts\<lparr>tone_buffer := resize fresh (nat (datalen ts) div 2) (tone_buffer ts)\<rparr>)
        else (-1, ts))
     else (0, ts))"
proof -
  have o: "1 \<le> channels ts" "0 < dynamic ts" "0 \<le> datalen ts" using assms(2,3) by (auto simp: session_ok_def)
  note n = bytes_fit_need[OF assms(1) o(1,2) assms(4)]
  have "need > datalen ts \<Longrightarrow> cast_i32 (need + dynamic ts) = need + dynamic ts"
    using n(5) o(3) unfolding need by linarith
  moreover have "ensure_buffer realloc_ok fresh ts (cast_i32 (d * channels ts)) =
    (if need > datalen ts then
       (let ts = ts\<lparr>datalen := cast_i32 (need + dynamic ts)\<rparr> in
        if realloc_ok (datalen ts)
        then (0, ts\<lparr>tone_buffer := resize fresh (nat (datalen ts) div 2) (tone_buffer ts)\<rparr>)
        else (-1, ts))
     else (0, ts))"
    unfolding ensure_buffer_def Let_def need by (simp only: n(1-4))
  ultimately show ?thesis by (simp add: Let_def)
qed

lemma ensure_buffer_ok:
  assumes ok: "session_ok ts" "dynamic ts \<noteq> 0" and r: "\<And>n. realloc_ok n"
    and fit: "bytes_fit ts (\<bar>d\<bar> + tone_samples ts)"
    and s: "0 \<le> tone_samples ts" "tone_samples ts \<le> int (length (tone_buffer ts))"
  shows "\<exists>dl buf. ensure_buffer realloc_ok fresh ts (cast_i32 (d * channels ts)) = (0, ts\<lparr>datalen := dl, tone_buffer := buf\<rparr>)
    \<and> 0 \<le> dl \<and> length buf = nat dl div 2 \<and> nat d + nat (tone_samples ts) \<le> length buf \<and> 2 * d \<le> dl
    \<and> take (nat (tone_samples ts)) buf = take (nat (tone_samples ts)) (tone_buffer ts)"
proof -
  define need where "need = (d * channels ts + tone_samples ts) * 2 * channels ts"
  have o: "1 \<le> channels ts" "0 \<le> datalen ts" "0 < dynamic ts" "length (tone_buffer ts) = nat (datalen ts) div 2"
    using ok by (auto simp: session_ok_def)
  note eb = ensure_buffer_need[OF fit ok s(1) need_def, of realloc_ok fresh]
  have need: "0 \<le> d \<Longrightarrow> 2 * (d + tone_samples ts) \<le> need"
    unfolding need_def by (rule need_bytes) (use o s in auto)
  have dl: "nat d + nat (tone_samples ts) \<le> nat dl div 2 \<and> 2 * d \<le> dl" if "datalen ts \<le> dl" "need \<le> dl" for dl
  proof (cases "0 \<le> d")
    case True
    with that need have "2 * (d + tone_samples ts) \<le> dl" by linarith
    moreover from this True s have "d + tone_samples ts \<le> dl div 2" "2 * d \<le> dl" "nat (dl div 2) = nat dl div 2"
      by (simp_all add: nat_div_distrib)
    ultimately show ?thesis using True s by (simp flip: nat_add_distrib)
  next
    case False
    have "nat (datalen ts) div 2 \<le> nat dl div 2" using that by (intro div_le_mono nat_mono)
    moreover have "2 * d \<le> dl" using False that o by linarith
    ultimately show ?thesis using False o s by simp linarith
  qed
  show ?thesis
  proof (cases "need > datalen ts")
    case True
    define dl where "dl = need + dynamic ts"
    have "datalen ts \<le> dl" "need \<le> dl" using True o by (simp_all add: dl_def)
    moreover have "nat (tone_samples ts) \<le> nat dl div 2" "nat (datalen ts) div 2 \<le> nat dl div 2"
      using dl[OF calculation] calculation by (auto intro: div_le_mono nat_mono)
    moreover have "ensure_buffer realloc_ok fresh ts (cast_i32 (d * channels ts)) =
        (0, ts\<lparr>datalen := dl, tone_buffer := resize fresh (nat dl div 2) (tone_buffer ts)\<rparr>)"
      using True r unfolding eb Let_def dl_def[symmetric] by (simp add: dl_def)
    moreover have "nat d + nat (tone_samples ts) \<le> nat dl div 2" "2 * d \<le> dl" "0 \<le> dl"
      using dl[of dl] calculation o by auto
    moreover have "take (nat (tone_samples ts)) (resize fresh (nat dl div 2) (tone_buffer ts)) = take (nat (tone_samples ts)) (tone_buffer ts)"
    proof -
      have "nat (tone_samples ts) \<le> length (tone_buffer ts)" using s by linarith
      then show ?thesis using calculation(3) by (simp add: resize_def)
    qed
    ultimately show ?thesis
      by (intro exI[of _ dl] exI[of _ "resize fresh (nat dl div 2) (tone_buffer ts)"]) simp
  next
    case False
    then have "ensure_buffer realloc_ok fresh ts (cast_i32 (d * channels ts)) = (0, ts\<lparr>datalen := datalen ts, tone_buffer := tone_buffer ts\<rparr>)"
      unfolding eb by simp
    then show ?thesis using dl[of "datalen ts"] False o
      by (intro exI[of _ "datalen ts"] exI[of _ "tone_buffer ts"]) simp
  qed
qed

definition tone_part :: "tone_session \<Rightarrow> tone_map \<Rightarrow> int" where
  "tone_part ts m =
     (let d = (if m ! 0 > 0 then max 0 (effective (tmp_duration ts) (tone_duration ts)) else 0)
      in if dynamic ts = 0 then min (datalen ts) d else d)"

definition silence_part :: "tone_session \<Rightarrow> tone_map \<Rightarrow> int" where
  "silence_part ts m =
     (let w = max 0 (effective (tmp_wait ts) (tone_wait ts))
      in if dynamic ts = 0 then min w (datalen ts - tone_part ts m) else w)"

text \<open>The bytes of a whole call, reserve included, are an \<^verbatim>\<open>int\<close>; a fixed buffer has no such bound.\<close>

definition sizes_fit :: "tone_session \<Rightarrow> bool" where
  "sizes_fit ts \<longleftrightarrow> dynamic ts = 0 \<or>
     bytes_fit ts (\<bar>effective (tmp_duration ts) (tone_duration ts)\<bar> + \<bar>effective (tmp_wait ts) (tone_wait ts)\<bar>)"

lemma bytes_fit_mono:
  assumes "bytes_fit ts b" "0 \<le> a" "a \<le> b" "1 \<le> channels ts" "channels ts' = channels ts" "dynamic ts' = dynamic ts"
  shows "bytes_fit ts' a"
proof -
  have "a * (channels ts * 2 * channels ts) \<le> b * (channels ts * 2 * channels ts)"
    using assms(2-4) by (intro mult_right_mono) auto
  then show ?thesis using assms(1) unfolding bytes_fit_def assms(5,6) by (simp add: ac_simps)
qed

definition frames_from :: "tone_session \<Rightarrow> tone_session \<Rightarrow> bool" where
  "frames_from ts ts' \<longleftrightarrow>
     ts' = ts\<lparr>tone_samples := tone_samples ts', datalen := datalen ts', tone_buffer := tone_buffer ts'\<rparr>"

lemma session_ok_buffer:
  "session_ok t \<Longrightarrow> length b = length (tone_buffer t) \<Longrightarrow> session_ok (t\<lparr>tone_buffer := b, tone_samples := s\<rparr>)"
  by (simp add: session_ok_def)

lemma tone_part_range:
  "session_ok ts \<Longrightarrow> 0 \<le> tone_part ts m \<and> (dynamic ts = 0 \<longrightarrow> tone_part ts m \<le> datalen ts)"
  by (simp add: tone_part_def session_ok_def Let_def)

lemma frames_from_trans: "frames_from a b \<Longrightarrow> frames_from b c \<Longrightarrow> frames_from a c"
  unfolding frames_from_def by (cases a, cases b, cases c) simp

lemma frames_from_fields:
  "frames_from a b \<Longrightarrow> channels b = channels a \<and> dynamic b = dynamic a \<and> tmp_wait b = tmp_wait a \<and> tone_wait b = tone_wait a"
  unfolding frames_from_def by (cases a, cases b) simp

lemma mux_tone_ok:
  assumes ok: "session_ok ts" and fit: "sizes_fit ts" and r: "\<And>n. realloc_ok n"
  shows "\<exists>ts'. mux_tone powf realloc_ok fresh ts m = Some (Inr ts') \<and> session_ok ts' \<and> frames_from ts ts'
    \<and> tone_samples ts' = tone_part ts m \<and> tone_part ts m \<le> int (length (tone_buffer ts'))
    \<and> (dynamic ts = 0 \<longrightarrow> datalen ts' = datalen ts)"
proof -
  define d where "d = effective (tmp_duration ts) (tone_duration ts)"
  define t0 where "t0 = ts\<lparr>tone_samples := 0\<rparr>"
  have t0: "session_ok t0" "tone_samples t0 = 0" "dynamic t0 = dynamic ts" "channels t0 = channels ts" "datalen t0 = datalen ts"
    "frames_from ts t0" "volume t0 = volume ts"
    "effective (tmp_duration t0) (tone_duration t0) = d"
    using ok by (simp_all add: t0_def session_ok_def frames_from_def d_def)
  show ?thesis
  proof (cases "m ! 0 > 0")
    case False
    with t0 show ?thesis
      by (auto simp: mux_tone_def t0_def[symmetric] tone_part_def session_ok_def split: if_splits)
  next
    case tone: True
    obtain t1 where e: "(if dynamic t0 \<noteq> 0 then ensure_buffer realloc_ok fresh t0 (cast_i32 (d * channels t0)) else (0, t0)) = (0, t1)"
      and t1: "session_ok t1" "frames_from t0 t1" "tone_samples t1 = 0" "dynamic t1 = dynamic ts"
        "dynamic ts = 0 \<longrightarrow> datalen t1 = datalen ts" "nat (min (datalen t1) d) \<le> length (tone_buffer t1)"
        "dynamic ts \<noteq> 0 \<longrightarrow> min (datalen t1) d = d"
    proof (cases "dynamic ts = 0")
      case True
      with t0 ok that[of t0] show ?thesis by (simp add: frames_from_def session_ok_def)
    next
      case False
      have "bytes_fit t0 (\<bar>d\<bar> + tone_samples t0)"
        by (rule bytes_fit_mono[of ts "\<bar>d\<bar> + \<bar>effective (tmp_wait ts) (tone_wait ts)\<bar>"])
          (use fit False ok t0 in \<open>simp_all add: sizes_fit_def d_def session_ok_def\<close>)
      from ensure_buffer_ok[of t0 realloc_ok d fresh, OF _ _ _ this] t0 r False
      obtain dl buf where b: "ensure_buffer realloc_ok fresh t0 (cast_i32 (d * channels t0)) = (0, t0\<lparr>datalen := dl, tone_buffer := buf\<rparr>)"
        "0 \<le> dl" "length buf = nat dl div 2" "nat d \<le> length buf" "2 * d \<le> dl" by auto
      then have "min dl d = d" by linarith
      with b t0 False that[of "t0\<lparr>datalen := dl, tone_buffer := buf\<rparr>"] show ?thesis
        by (simp add: frames_from_def session_ok_def)
    qed
    obtain buf where buf: "tone_loop powf t1 (nat (min (datalen t1) d)) (volume t1, 0, start_tones powf t1 m) (tone_buffer t1) 0 = Some buf"
      "length buf = length (tone_buffer t1)"
      using tone_loop_Some[of 0] t1(6) by fastforce
    define t2 where "t2 = t1\<lparr>tone_buffer := buf, tone_samples := int (nat (min (datalen t1) d))\<rparr>"
    have "mux_tone powf realloc_ok fresh ts m = Some (Inr t2)"
      unfolding mux_tone_def Let_def t0_def[symmetric] t0(8) e using tone buf by (simp add: t2_def)
    moreover have "session_ok t2" using t1(1) buf(2) unfolding t2_def by (intro session_ok_buffer) simp_all
    moreover have "frames_from ts t2"
      by (rule frames_from_trans[OF t0(6)], rule frames_from_trans[OF t1(2)]) (simp add: t2_def frames_from_def)
    moreover have "tone_samples t2 = int (nat (min (datalen t1) d))" "dynamic ts = 0 \<longrightarrow> datalen t2 = datalen ts"
      using t1 by (simp_all add: t2_def)
    moreover have "int (nat (min (datalen t1) d)) = tone_part ts m"
      using t1 tone ok by (simp add: tone_part_def Let_def d_def[symmetric] session_ok_def)
    moreover have "int (nat (min (datalen t1) d)) \<le> int (length (tone_buffer t2))"
      unfolding of_nat_le_iff using t1(6) buf(2) by (simp add: t2_def)
    ultimately show ?thesis by (intro exI[of _ t2]) simp
  qed
qed

lemma mux_silence_ok:
  assumes ok: "session_ok ts" and r: "\<And>n. realloc_ok n"
    and fit: "dynamic ts \<noteq> 0 \<Longrightarrow> bytes_fit ts (\<bar>effective (tmp_wait ts) (tone_wait ts)\<bar> + tone_samples ts)"
    and s: "0 \<le> tone_samples ts" "tone_samples ts \<le> int (length (tone_buffer ts))"
    "dynamic ts = 0 \<longrightarrow> tone_samples ts \<le> datalen ts"
    and w: "w = max 0 (effective (tmp_wait ts) (tone_wait ts))"
      "k = (if dynamic ts = 0 then min w (datalen ts - tone_samples ts) else w)"
  shows "\<exists>ts'. mux_silence realloc_ok fresh ts = Some (tone_samples ts + k, ts') \<and> session_ok ts' \<and> frames_from ts ts'
    \<and> tone_samples ts' = tone_samples ts + k
    \<and> (\<forall>i. tone_samples ts \<le> int i \<and> int i < tone_samples ts + k \<longrightarrow> tone_buffer ts' ! i = 0)
    \<and> tone_samples ts' \<le> int (length (tone_buffer ts'))"
proof -
  define d where "d = effective (tmp_wait ts) (tone_wait ts)"
  obtain t1 where e: "(if dynamic ts \<noteq> 0 then ensure_buffer realloc_ok fresh ts (cast_i32 (d * channels ts)) else (0, ts)) = (0, t1)"
    and t1: "session_ok t1" "frames_from ts t1" "tone_samples t1 = tone_samples ts"
      "int (nat (min d (datalen t1 - tone_samples ts))) = k" "nat (tone_samples ts) + nat k \<le> length (tone_buffer t1)"
  proof (cases "dynamic ts = 0")
    case True
    then have k: "k = min w (datalen ts - tone_samples ts)" using w(2) by simp
    have len: "int (length (tone_buffer ts)) = datalen ts" using ok True by (simp add: session_ok_def)
    have "int (nat (min d (datalen ts - tone_samples ts))) = k"
      using True s(3) w(1) k by (simp only: d_def simp_thms)
    moreover have "nat (tone_samples ts) + nat k \<le> length (tone_buffer ts)"
      using s(1,2) k len by linarith
    ultimately show ?thesis using ok True by (intro that[of ts]) (simp_all add: frames_from_def)
  next
    case False
    from ensure_buffer_ok[of ts realloc_ok d fresh] fit ok r False s
    obtain dl buf where b: "ensure_buffer realloc_ok fresh ts (cast_i32 (d * channels ts)) = (0, ts\<lparr>datalen := dl, tone_buffer := buf\<rparr>)"
      "0 \<le> dl" "length buf = nat dl div 2" "nat d + nat (tone_samples ts) \<le> length buf" by (auto simp: d_def)
    have "int (nat (min d (dl - tone_samples ts))) = k"
    proof (cases "0 \<le> d")
      case True
      then have "d + tone_samples ts \<le> dl" using b s by linarith
      then show ?thesis using True w False by (simp add: d_def)
    qed (use w False in \<open>simp add: d_def\<close>)
    moreover have "nat k = nat d" using w False by (simp add: d_def max_def)
    ultimately show ?thesis using ok False b by (intro that[of "ts\<lparr>datalen := dl, tone_buffer := buf\<rparr>"])
      (simp_all add: frames_from_def session_ok_def)
  qed
  define n where "n = nat (min d (datalen t1 - tone_samples ts))"
  have n: "int n = k" using t1(4) by (simp add: n_def)
  have buf: "silence_loop n (tone_buffer t1) (nat (tone_samples ts)) =
      Some (take (nat (tone_samples ts)) (tone_buffer t1) @ replicate n 0 @ drop (nat (tone_samples ts) + n) (tone_buffer t1))"
    using t1(5) n by (intro silence_loop_Some) linarith
  define t2 where "t2 = t1\<lparr>tone_buffer := take (nat (tone_samples ts)) (tone_buffer t1) @ replicate n 0 @ drop (nat (tone_samples ts) + n) (tone_buffer t1),
    tone_samples := tone_samples ts + k\<rparr>"
  have "mux_silence realloc_ok fresh ts = Some (tone_samples ts + k, t2)"
    unfolding mux_silence_def Let_def d_def[symmetric] e prod.case t1(3) n_def[symmetric] buf n by (simp add: t2_def)
  moreover have "nat (tone_samples ts) + n \<le> length (tone_buffer t1)" using t1(5) n by linarith
  moreover have "length (tone_buffer t2) = length (tone_buffer t1)"
    using calculation(2) s by (simp add: t2_def)
  moreover have "tone_buffer t2 ! i = 0" if "tone_samples ts \<le> int i \<and> int i < tone_samples ts + k" for i
  proof -
    have "nat (tone_samples ts) \<le> i" "i < nat (tone_samples ts) + n" using that n by linarith+
    moreover have "length (take (nat (tone_samples ts)) (tone_buffer t1)) = nat (tone_samples ts)"
      using \<open>nat (tone_samples ts) + n \<le> length (tone_buffer t1)\<close> by simp
    moreover have "i - nat (tone_samples ts) < n" using calculation(1,2) by linarith
    ultimately show ?thesis by (simp add: t2_def nth_append)
  qed
  moreover have "session_ok t2" using t1(1) calculation(3) unfolding t2_def by (intro session_ok_buffer) simp_all
  moreover have "frames_from ts t2"
    by (rule frames_from_trans[OF t1(2)]) (simp add: t2_def frames_from_def)
  moreover have "tone_samples ts + k \<le> int (length (tone_buffer t2))"
    using calculation(2,3) n s by linarith
  ultimately show ?thesis by (intro exI[of _ t2]) (simp add: t2_def)
qed

text \<open>
  C5: As long as memory can be allocated and the bytes of the call are an \<^verbatim>\<open>int\<close>,
  \<^verbatim>\<open>teletone_mux_tones\<close> never writes outside the buffer of a session in order, whatever the
  tones, the decay and the old contents of the buffer are. For a dynamic buffer the bytes
  are twice the samples of tone and silence (their absolute values) times the square of the
  number of channels, plus the reserve; a fixed buffer has no bound on the durations. It returns the samples of the tone plus those of the
  silence; a dynamic buffer takes them all, a fixed one as many as fit. The silence is
  zeros, and the session is in order again, with nothing but the buffer changed.
\<close>

theorem mux_tones_safe:
  assumes "session_ok ts" "sizes_fit ts" "\<And>n. realloc_ok n"
  shows "\<exists>ts'. teletone_mux_tones powf realloc_ok fresh ts m = Some (tone_part ts m + silence_part ts m, ts')
    \<and> session_ok ts' \<and> frames_from ts ts' \<and> tone_samples ts' = tone_part ts m + silence_part ts m
    \<and> tone_samples ts' \<le> int (length (tone_buffer ts'))
    \<and> (\<forall>i. tone_part ts m \<le> int i \<and> int i < tone_samples ts' \<longrightarrow> tone_buffer ts' ! i = 0)"
proof -
  obtain t1 where t1: "mux_tone powf realloc_ok fresh ts m = Some (Inr t1)" "session_ok t1" "frames_from ts t1"
    "tone_samples t1 = tone_part ts m" "tone_part ts m \<le> int (length (tone_buffer t1))" "dynamic ts = 0 \<longrightarrow> datalen t1 = datalen ts"
    using mux_tone_ok[of ts realloc_ok powf fresh m, OF assms] by (elim exE conjE)
  have f: "dynamic t1 = dynamic ts" "channels t1 = channels ts" "tmp_wait t1 = tmp_wait ts" "tone_wait t1 = tone_wait ts"
    using frames_from_fields[OF t1(3)] by simp_all
  have part: "0 \<le> tone_part ts m" "dynamic t1 = 0 \<longrightarrow> tone_part ts m \<le> datalen t1"
    using tone_part_range[OF assms(1)] t1(6) f(1) by simp_all
  have k: "silence_part ts m = (if dynamic t1 = 0 then min (max 0 (effective (tmp_wait t1) (tone_wait t1))) (datalen t1 - tone_samples t1)
      else max 0 (effective (tmp_wait t1) (tone_wait t1)))"
    using f t1 by (simp add: silence_part_def Let_def)
  have fit1: "bytes_fit t1 (\<bar>effective (tmp_wait t1) (tone_wait t1)\<bar> + tone_samples t1)" if "dynamic t1 \<noteq> 0"
    by (rule bytes_fit_mono[of ts "\<bar>effective (tmp_duration ts) (tone_duration ts)\<bar> + \<bar>effective (tmp_wait ts) (tone_wait ts)\<bar>"])
      (use that assms(1,2) f part in \<open>auto simp: sizes_fit_def session_ok_def t1(4) tone_part_def Let_def\<close>)
  have "\<exists>t2. mux_silence realloc_ok fresh t1 = Some (tone_samples t1 + silence_part ts m, t2) \<and> session_ok t2 \<and> frames_from t1 t2
    \<and> tone_samples t2 = tone_samples t1 + silence_part ts m
    \<and> (\<forall>i. tone_samples t1 \<le> int i \<and> int i < tone_samples t1 + silence_part ts m \<longrightarrow> tone_buffer t2 ! i = 0)
    \<and> tone_samples t2 \<le> int (length (tone_buffer t2))"
    by (rule mux_silence_ok[of t1 realloc_ok, OF t1(2) assms(3) fit1 _ _ _ refl k]) (use part t1(4,5) in simp_all)
  then obtain t2 where t2: "mux_silence realloc_ok fresh t1 = Some (tone_samples t1 + silence_part ts m, t2)" "session_ok t2"
    "frames_from t1 t2" "tone_samples t2 = tone_samples t1 + silence_part ts m"
    "\<forall>i. tone_samples t1 \<le> int i \<and> int i < tone_samples t1 + silence_part ts m \<longrightarrow> tone_buffer t2 ! i = 0"
    "tone_samples t2 \<le> int (length (tone_buffer t2))"
    by (elim exE conjE)
  have "teletone_mux_tones powf realloc_ok fresh ts m = Some (tone_part ts m + silence_part ts m, t2)"
    by (simp only: teletone_mux_tones_def t1(1,4) t2(1) option.case sum.case)
  then show ?thesis
    using t2 frames_from_trans[OF t1(3) t2(3)] unfolding t1(4) by (intro exI[of _ t2]) (simp only: simp_thms)
qed


definition sample_session :: tone_session where
  "sample_session = \<lparr>TONES = [], channels = 1, tone_rate = 8000, tone_duration = 0, tone_wait = 3, tmp_duration = -1, tmp_wait = -1,
     tone_loops = 0, tone_LOOPS = 0, decay_factor = 1, decay_direction = 0, decay_step = 0, volume = -7, tone_buffer = [],
     datalen = 0, tone_samples = 0, dynamic = 1024\<rparr>"

theorem mux_tones_safe_witness:
  "\<exists>ts'. teletone_mux_tones (\<lambda>x y. 1) (\<lambda>_. True) (\<lambda>_. 7) (sample_session\<lparr>tone_duration := 5\<rparr>) [697, 1209, 0] = Some (8, ts') \<and> tone_samples ts' = 8"
proof -
  have "session_ok (sample_session\<lparr>tone_duration := 5\<rparr>)" "sizes_fit (sample_session\<lparr>tone_duration := 5\<rparr>)"
    by (simp_all add: sample_session_def session_ok_def sizes_fit_def bytes_fit_def effective_def cval)
  from mux_tones_safe[OF this, of "\<lambda>_. True" "\<lambda>x y. 1" "\<lambda>_. 7" "[697, 1209, 0]"] show ?thesis
    by (auto simp: tone_part_def silence_part_def effective_def sample_session_def)
qed

text \<open>
  When \<^verbatim>\<open>realloc\<close> fails, \<^verbatim>\<open>ensure_buffer\<close> has already stored the new size: the call returns
  -1, but the next call of \<^verbatim>\<open>teletone_mux_tones\<close> on the same session takes the buffer for
  large enough, does not allocate, and writes outside it.
\<close>

lemma mux_after_failed_realloc:
  assumes "session_ok ts" "dynamic ts \<noteq> 0" "m ! 0 > 0" "\<not> realloc_ok (need + dynamic ts)" "sizes_fit ts"
    and "need = effective (tmp_duration ts) (tone_duration ts) * channels ts * 2 * channels ts" "datalen ts < need"
    and "int (length (tone_buffer ts)) < effective (tmp_duration ts) (tone_duration ts)"
  shows "\<exists>ts'. teletone_mux_tones powf realloc_ok fresh ts m = Some (-1, ts')
    \<and> teletone_mux_tones powf realloc_ok' fresh ts' m = None"
proof -
  define d where "d = effective (tmp_duration ts) (tone_duration ts)"
  define ts' where "ts' = ts\<lparr>tone_samples := 0, datalen := need + dynamic ts\<rparr>"
  have o: "0 < dynamic ts" "1 \<le> channels ts" using assms(1,2) by (auto simp: session_ok_def)
  have d: "0 < d" using assms(8) by (simp add: d_def)
  have need: "need = (d * channels ts + 0) * 2 * channels ts" by (simp add: assms(6) d_def)
  have "2 * (d + 0) \<le> need" unfolding need by (rule need_bytes) (use o d in auto)
  then have len: "nat (min (need + dynamic ts) d) = nat d" using o d by simp
  have fit: "bytes_fit (ts\<lparr>tone_samples := 0, datalen := x\<rparr>) \<bar>d\<bar>" for x
    by (rule bytes_fit_mono[of ts "\<bar>d\<bar> + \<bar>effective (tmp_wait ts) (tone_wait ts)\<bar>"])
      (use assms(2,5) o in \<open>simp_all add: sizes_fit_def d_def\<close>)
  have "ensure_buffer realloc_ok fresh (ts\<lparr>tone_samples := 0\<rparr>) (cast_i32 (d * channels ts)) = (-1, ts')"
    using ensure_buffer_need[of "ts\<lparr>tone_samples := 0\<rparr>" d need realloc_ok fresh] fit[of "datalen ts"] assms(1,2,4,7) need
    by (simp add: Let_def ts'_def session_ok_def)
  then have 1: "teletone_mux_tones powf realloc_ok fresh ts m = Some (-1, ts')"
    using assms(2,3) by (simp add: teletone_mux_tones_def mux_tone_def Let_def d_def)
  have "ensure_buffer realloc_ok' fresh (ts'\<lparr>tone_samples := 0\<rparr>) (cast_i32 (d * channels ts)) = (0, ts')"
  proof -
    have "cast_i32 (cast_i32 (uint ((word_of_int (cast_i32 (cast_i32 (d * channels ts) + 0)) :: u64) * 2)) * channels ts) = need"
      using bytes_fit_need[of ts d 0, OF _ o(2,1)] fit[of "datalen ts"] unfolding need by (simp add: bytes_fit_def)
    then show ?thesis using o unfolding ensure_buffer_def Let_def ts'_def by simp
  qed
  moreover have "tone_loop powf ts' (nat d) st (tone_buffer ts) 0 = None" for st
    by (rule tone_loop_None) (use assms(8) d in \<open>simp_all add: d_def\<close>)
  ultimately have "teletone_mux_tones powf realloc_ok' fresh ts' m = None"
    using assms(2,3) len by (simp add: teletone_mux_tones_def mux_tone_def Let_def d_def ts'_def)
  with 1 show ?thesis by blast
qed

theorem mux_after_failed_realloc_witness:
  "\<exists>ts'. teletone_mux_tones (\<lambda>x y. 1) (\<lambda>n. n < 2000) (\<lambda>_. 7) (sample_session\<lparr>tone_duration := 1000\<rparr>) [697] = Some (-1, ts')
    \<and> teletone_mux_tones (\<lambda>x y. 1) (\<lambda>n. True) (\<lambda>_. 7) ts' [697] = None"
  by (rule mux_after_failed_realloc[where need = 2000])
    (simp_all add: sample_session_def session_ok_def effective_def sizes_fit_def bytes_fit_def cval)

text \<open>
  The bound is needed: the bytes of 2 ^ 30 samples are 2 ^ 31, which is negative as an
  \<^verbatim>\<open>int\<close>. \<^verbatim>\<open>ensure_buffer\<close> takes any buffer for large enough, and as \<^verbatim>\<open>datalen\<close> counts bytes
  where the loop counts samples, the call writes behind a buffer that an earlier call left.
  At 8000 Hz \<^verbatim>\<open>d=134217728\<close> is such a duration.
\<close>

lemma mux_long_duration_overruns:
  assumes "session_ok ts" "dynamic ts \<noteq> 0" "m ! 0 > 0" "channels ts = 1" "0 < datalen ts" "datalen ts \<le> 2 ^ 30"
    and "effective (tmp_duration ts) (tone_duration ts) = 2 ^ 30"
  shows "teletone_mux_tones powf realloc_ok fresh ts m = None"
proof -
  have "ensure_buffer realloc_ok fresh (ts\<lparr>tone_samples := 0\<rparr>) (cast_i32 (2 ^ 30 * channels ts)) = (0, ts\<lparr>tone_samples := 0\<rparr>)"
    using assms(4,5) unfolding ensure_buffer_def Let_def mult_size_2 by (simp add: cast_i32_def)
  moreover have "nat (min (datalen ts) (2 ^ 30)) = nat (datalen ts)" using assms(6) by (simp add: min_def)
  moreover have "length (tone_buffer ts) < nat (datalen ts)" using assms(1,2,5) by (auto simp: session_ok_def)
  then have "tone_loop powf (ts\<lparr>tone_samples := 0\<rparr>) (nat (datalen ts)) st (tone_buffer ts) 0 = None" for st
    by (intro tone_loop_None) simp_all
  ultimately show ?thesis
    using assms(2,3,7) by (simp add: teletone_mux_tones_def mux_tone_def Let_def)
qed

end
