(* ===== verification/Tone_Script.thy ===== *)
theory Tone_Script
  imports Tone_Generate C_String
begin

text \<open>
  The script interpreter of the tone generator, \<^verbatim>\<open>teletone_run\<close> in
  \<^verbatim>\<open>crates/fswtch-src/freeswitch/libs/libteletone/src/libteletone_generate.c\<close>.

  A pointer into the copy of the script is the rest of the string from there up to its
  NUL. The code cuts the copy by writing NULs over \<^verbatim>\<open>;\<close>, \<^verbatim>\<open>)\<close> and \<^verbatim>\<open>,\<close>; here the two parts
  are two strings. The handler of the session is a parameter that changes a state \<open>'w\<close> of
  its own and the session; it gets the map's frequencies. \<^const>\<open>None\<close> is a call that does not
  return. \<open>malloc_ok\<close> says in which states of the world \<^verbatim>\<open>malloc\<close> succeeds.
\<close>

type_synonym 'w tone_handler = "'w \<Rightarrow> tone_session \<Rightarrow> tone_map \<Rightarrow> 'w \<times> tone_session"

section \<open>Numbers of the script\<close>

text \<open>\<^verbatim>\<open>atof\<close> of the C library, for decimal numbers: no hexadecimal numbers, infinities and NaNs.\<close>

definition scale10 :: "int \<Rightarrow> rat \<Rightarrow> rat" where
  "scale10 e x = (if 0 \<le> e then x * 10 ^ nat e else x / 10 ^ nat (- e))"

definition take_sign :: "string \<Rightarrow> int \<times> string" where
  "take_sign s = (if c_at s 0 = CHR ''-'' then (-1, tl s) else if c_at s 0 = CHR ''+'' then (1, tl s) else (1, s))"

definition exponent_part :: "string \<Rightarrow> int" where
  "exponent_part s =
     (if c_at s 0 \<in> {CHR ''e'', CHR ''E''}
      then let (sg, t) = take_sign (tl s) in sg * digits_value (takeWhile isdigit t) else 0)"

definition atof :: "string \<Rightarrow> rat" where
  "atof s =
     (let (sg, s) = take_sign (dropWhile isspace s);
          ip = takeWhile isdigit s; s = dropWhile isdigit s;
          fp = (if c_at s 0 = CHR ''.'' then takeWhile isdigit (tl s) else []);
          s = (if c_at s 0 = CHR ''.'' then dropWhile isdigit (tl s) else s)
      in if ip = [] \<and> fp = [] then 0
         else f64 (scale10 (exponent_part s - int (length fp)) (of_int (sg * digits_value (ip @ fp)))))"

definition cut_char :: "char \<Rightarrow> string \<Rightarrow> string \<times> string option" where
  "cut_char c s = (case strchr s c of None \<Rightarrow> (s, None) | Some k \<Rightarrow> (take k s, Some (drop (Suc k) s)))"

section \<open>Assignments\<close>

definition per_ms :: "tone_session \<Rightarrow> int" where
  "per_ms ts = cdivi (tone_rate ts) 1000"

text \<open>A product outside \<^verbatim>\<open>int\<close> is undefined in C, and its low 32 bits here.\<close>

definition assign :: "bool \<Rightarrow> tone_session \<Rightarrow> char \<Rightarrow> string \<Rightarrow> bool \<times> tone_session" where
  "assign looping ts c v =
     (if c = CHR ''c'' then (looping, ts\<lparr>channels := atoi v\<rparr>)
      else if c = CHR ''r'' then (looping, ts\<lparr>tone_rate := atoi v\<rparr>)
      else if c = CHR ''d'' then (looping, ts\<lparr>tone_duration := cast_i32 (atoi v * per_ms ts)\<rparr>)
      else if c = CHR ''v'' then
        (let vol = f32 (atof v) in
         (looping, if vol \<le> TELETONE_VOL_DB_MAX \<and> vol \<ge> TELETONE_VOL_DB_MIN then ts\<lparr>volume := vol\<rparr> else ts))
      else if c = CHR ''>'' then (looping, ts\<lparr>decay_step := cast_i32 (atoi v * per_ms ts), decay_direction := -1\<rparr>)
      else if c = CHR ''<'' then (looping, ts\<lparr>decay_step := cast_i32 (atoi v * per_ms ts), decay_direction := 1\<rparr>)
      else if c = CHR ''+'' then (looping, ts\<lparr>decay_factor := f32 (atof v)\<rparr>)
      else if c = CHR ''w'' then (looping, ts\<lparr>tone_wait := cast_i32 (atoi v * per_ms ts)\<rparr>)
      else if c = CHR ''l'' then (looping, ts\<lparr>tone_loops := atoi v\<rparr>)
      else if c = CHR ''L'' \<and> \<not> looping \<and> atoi v > 0 then (True, ts\<lparr>tone_LOOPS := atoi v\<rparr>)
      else (looping, ts))"

section \<open>Tones\<close>

datatype map_ref = Own tone_map | Table nat

fun deref :: "tone_session \<Rightarrow> map_ref \<Rightarrow> tone_map" where
  "deref ts (Own m) = m"
| "deref ts (Table k) = TONES ts ! k"

partial_function (option) handler_loop :: "'w tone_handler \<Rightarrow> map_ref \<Rightarrow> 'w \<Rightarrow> tone_session \<Rightarrow> ('w \<times> tone_session) option" where
  "handler_loop h r w ts =
     (case h w ts (deref ts r) of (w, ts) \<Rightarrow>
        let ts = (if tone_loops ts > 0 then ts\<lparr>tone_loops := tone_loops ts - 1\<rparr> else ts) in
        if tone_loops ts \<noteq> 0 then handler_loop h r w ts else Some (w, ts))"

lemma cut_char_shorter:
  "cut_char c s = (a, Some b) \<Longrightarrow> c \<noteq> NUL \<Longrightarrow> length b < length s"
  using strchr_Some(1)[of s c] by (fastforce simp: cut_char_def split: option.splits)

text \<open>
  The arguments in parentheses: duration, wait, frequencies. The loop stops after the last
  one, or when the map is full.
\<close>

function args_loop :: "nat \<Rightarrow> string \<Rightarrow> tone_session \<Rightarrow> tone_map \<Rightarrow> nat \<times> tone_session \<times> tone_map" where
  "args_loop i p ts freqs =
     (case cut_char (CHR '','') p of (arg, nxt) \<Rightarrow>
        let ts' = (if i = 0 then ts\<lparr>tmp_duration := cast_i32 (atoi arg * per_ms ts)\<rparr>
                   else if i = 1 then ts\<lparr>tmp_wait := cast_i32 (atoi arg * per_ms ts)\<rparr> else ts);
            freqs' = (if i < 2 then freqs else freqs[i - 2 := atof arg])
        in case nxt of None \<Rightarrow> (Suc i, ts', freqs')
           | Some p' \<Rightarrow> if Suc i < TELETONE_MAX_TONES + 2 then args_loop (Suc i) p' ts' freqs' else (Suc i, ts', freqs'))"
  by pat_completeness auto
termination
  by (relation "measure (\<lambda>(i, p, ts, freqs). length p)") (auto dest: cut_char_shorter[OF sym])

declare args_loop.simps [simp del]

definition is_blank :: "char \<Rightarrow> bool" where
  "is_blank c \<longleftrightarrow> c = CHR '' '' \<or> c = CHR 0x0D \<or> c = CHR 0x0A"

text \<open>
  One tone, the character \<open>c\<close> followed by \<open>s\<close>: the map of its own if it has one, and where to
  go on. Without a closing parenthesis the code goes on behind \<open>c\<close>, in a string that now
  ends at the first comma. The first component says whether there is a syntax error.
\<close>

definition tone_args :: "tone_session \<Rightarrow> char \<Rightarrow> string \<Rightarrow> bool \<times> tone_session \<times> map_ref option \<times> string" where
  "tone_args ts c s =
     (if c_at s 0 = CHR ''('' then
        (case cut_char (CHR '')'') (tl s) of (args, after) \<Rightarrow>
         case args_loop 0 args ts empty_map of (i, ts, freqs) \<Rightarrow>
           let next = (case after of Some e \<Rightarrow> e | None \<Rightarrow> takeWhile (\<lambda>x. x \<noteq> CHR '','') s) in
           if i > 2 \<and> c = CHR ''%'' then (False, ts, Some (Own freqs), next)
           else (i \<noteq> 2 \<or> c = CHR ''%'', ts, None, next))
      else (False, ts, None, s))"

definition choose_map :: "map_ref option \<Rightarrow> char \<Rightarrow> map_ref option" where
  "choose_map own c =
     (if own = None \<and> c \<noteq> NUL \<and> of_char c < TELETONE_TONE_RANGE then Some (Table (of_char c)) else own)"

definition play :: "'w tone_handler option \<Rightarrow> map_ref option \<Rightarrow> 'w \<Rightarrow> tone_session \<Rightarrow> ('w \<times> tone_session) option" where
  "play handler mapp w ts =
     (case mapp of None \<Rightarrow> Some (w, ts)
      | Some r \<Rightarrow> if deref ts r ! 0 \<noteq> 0
           then (case handler of None \<Rightarrow> Some (w, ts) | Some h \<Rightarrow> handler_loop h r w ts) else Some (w, ts))"

lemma tone_args_shorter:
  assumes "tone_args ts c s = (err, ts', own, next)"
  shows "length next \<le> length s"
proof (cases "c_at s 0 = CHR ''(''")
  case True
  then have "s \<noteq> []" by (auto simp: c_at_def)
  with True assms cut_char_shorter[of "CHR '')''" "tl s"] show ?thesis
    by (auto simp: tone_args_def length_takeWhile_le Let_def split: prod.splits if_splits option.splits)
qed (use assms in \<open>simp add: tone_args_def\<close>)

text \<open>The tones of a segment. The first component of the result is the jump to \<^verbatim>\<open>bottom\<close>.\<close>

function tones_loop :: "'w tone_handler option \<Rightarrow> 'w \<Rightarrow> tone_session \<Rightarrow> string \<Rightarrow> (bool \<times> 'w \<times> tone_session) option" where
  "tones_loop handler w ts [] = Some (False, w, ts)"
| "tones_loop handler w ts (c # s) =
     (if is_blank c then tones_loop handler w ts s
      else case tone_args (ts\<lparr>tmp_duration := -1, tmp_wait := -1\<rparr>) c s of (err, ts, own, next) \<Rightarrow>
        if err then Some (True, w, ts)
        else case play handler (choose_map own c) w ts of
             None \<Rightarrow> None
           | Some (w, ts) \<Rightarrow> tones_loop handler w ts next)"
  by pat_completeness auto
termination
  by (relation "measure (\<lambda>(h, w, ts, s). length s)") (auto dest: tone_args_shorter[OF sym])

declare tones_loop.simps [simp del]

section \<open>Segments and passes\<close>

lemma cut_char_both:
  "cut_char c s = (a, b) \<Longrightarrow> c \<noteq> NUL \<Longrightarrow> length a \<le> length s \<and> (\<forall>e. b = Some e \<longrightarrow> length e < length s)"
  using cut_char_shorter[of c s a] by (auto simp: cut_char_def split: option.splits)

function script_loop :: "'w tone_handler option \<Rightarrow> bool \<Rightarrow> 'w \<Rightarrow> tone_session \<Rightarrow> string \<Rightarrow> (bool \<times> 'w \<times> tone_session) option" where
  "script_loop handler looping w ts [] = Some (looping, w, ts)"
| "script_loop handler looping w ts (c # s) =
     (if is_blank c then script_loop handler looping w ts s
      else case cut_char (CHR '';'') (c # s) of (seg, end) \<Rightarrow>
        if 1 < length seg \<and> seg ! 1 = CHR ''='' then
          (case assign looping ts c (drop 2 seg) of (looping, ts) \<Rightarrow>
             script_loop handler looping w ts (case end of Some e \<Rightarrow> e | None \<Rightarrow> tl seg))
        else
          (case tones_loop handler w ts seg of
             None \<Rightarrow> None
           | Some (bottom, w, ts) \<Rightarrow>
               if bottom then Some (looping, w, ts)
               else script_loop handler looping w ts (case end of Some e \<Rightarrow> e | None \<Rightarrow> [])))"
  by pat_completeness auto

termination
  by (relation "measure (\<lambda>(h, l, w, ts, s). length s)")
    (auto split: option.splits dest!: cut_char_both[OF sym])

declare script_loop.simps [simp del]

partial_function (option) run_loop ::
    "('w \<Rightarrow> bool) \<Rightarrow> 'w tone_handler option \<Rightarrow> string \<Rightarrow> bool \<Rightarrow> 'w \<Rightarrow> tone_session \<Rightarrow> (int \<times> 'w \<times> tone_session) option" where
  "run_loop malloc_ok handler cmd looping w ts =
     (if malloc_ok w then
        (case script_loop handler looping w ts cmd of
           None \<Rightarrow> None
         | Some (looping, w, ts) \<Rightarrow>
             let ts = (if tone_LOOPS ts > 0 then ts\<lparr>tone_LOOPS := tone_LOOPS ts - 1\<rparr> else ts) in
             if tone_LOOPS ts \<noteq> 0 then run_loop malloc_ok handler cmd looping w ts else Some (0, w, ts))
      else Some (-1, w, ts))"

definition teletone_run ::
    "('w \<Rightarrow> bool) \<Rightarrow> 'w tone_handler option \<Rightarrow> 'w \<Rightarrow> tone_session \<Rightarrow> string option \<Rightarrow> (int \<times> 'w \<times> tone_session) option" where
  "teletone_run malloc_ok handler w ts cmd =
     (case cmd of None \<Rightarrow> Some (-1, w, ts) | Some cmd \<Rightarrow> run_loop malloc_ok handler cmd False w ts)"


section \<open>Scripts that return\<close>

definition script_inv :: "tone_session \<Rightarrow> bool" where
  "script_inv ts \<longleftrightarrow> 0 \<le> tone_loops ts \<and> 0 \<le> tone_LOOPS ts \<and>
     TELETONE_VOL_DB_MIN \<le> volume ts \<and> volume ts \<le> TELETONE_VOL_DB_MAX"

text \<open>A handler that leaves the loop counters and the volume of the session alone.\<close>

definition handler_ok :: "'w tone_handler \<Rightarrow> bool" where
  "handler_ok h \<longleftrightarrow> (\<forall>w ts m. tone_loops (snd (h w ts m)) = tone_loops ts \<and>
     tone_LOOPS (snd (h w ts m)) = tone_LOOPS ts \<and> volume (snd (h w ts m)) = volume ts)"

lemma handler_loop_Some:
  assumes "handler_ok h" "script_inv ts"
  shows "\<exists>w' ts'. handler_loop h r w ts = Some (w', ts') \<and> script_inv ts' \<and> tone_LOOPS ts' = tone_LOOPS ts"
  using assms(2)
proof (induction "nat (tone_loops ts)" arbitrary: w ts rule: less_induct)
  case less
  obtain w1 t1 where h: "h w ts (deref ts r) = (w1, t1)" by fastforce
  define t2 where "t2 = (if tone_loops t1 > 0 then t1\<lparr>tone_loops := tone_loops t1 - 1\<rparr> else t1)"
  have t1: "tone_loops t1 = tone_loops ts" "tone_LOOPS t1 = tone_LOOPS ts" "volume t1 = volume ts"
    using assms(1) h unfolding handler_ok_def by (metis snd_conv)+
  then have t2: "script_inv t2" "tone_LOOPS t2 = tone_LOOPS ts" "tone_loops t2 = max 0 (tone_loops ts - 1)"
    using less.prems by (auto simp: t2_def script_inv_def)
  have step: "handler_loop h r w ts = (if tone_loops t2 \<noteq> 0 then handler_loop h r w1 t2 else Some (w1, t2))"
    by (subst handler_loop.simps) (simp add: h t2_def Let_def)
  show ?case
  proof (cases "tone_loops t2 = 0")
    case True
    then show ?thesis using step t2 by simp
  next
    case False
    then have "nat (tone_loops t2) < nat (tone_loops ts)" using t2(3) by linarith
    from less.hyps[OF this t2(1), of w1] show ?thesis using step t2(2) False by simp
  qed
qed

lemma play_Some:
  assumes "\<forall>h. handler = Some h \<longrightarrow> handler_ok h" "script_inv ts"
  shows "\<exists>w' ts'. play handler mapp w ts = Some (w', ts') \<and> script_inv ts' \<and> tone_LOOPS ts' = tone_LOOPS ts"
  using assms handler_loop_Some by (fastforce simp: play_def split: option.split)

lemma args_loop_inv:
  "args_loop i p ts fs = (j, ts', fs') \<Longrightarrow> tone_loops ts' = tone_loops ts \<and> tone_LOOPS ts' = tone_LOOPS ts \<and> volume ts' = volume ts"
proof (induction i p ts fs rule: args_loop.induct)
  case (1 i p ts fs)
  obtain arg nxt where c: "cut_char (CHR '','') p = (arg, nxt)" by fastforce
  show ?case
    using 1(2) 1(1)[OF c[symmetric] refl refl] unfolding args_loop.simps[of i p ts fs]
    by (auto simp: c Let_def split: option.splits if_splits)
qed

lemma tone_args_inv:
  assumes "tone_args ts c s = (err, ts', own, next)"
  shows "tone_loops ts' = tone_loops ts \<and> tone_LOOPS ts' = tone_LOOPS ts \<and> volume ts' = volume ts"
  using assms args_loop_inv by (fastforce simp: tone_args_def Let_def split: prod.splits if_splits)

lemma tones_loop_Some:
  assumes "\<forall>h. handler = Some h \<longrightarrow> handler_ok h" "script_inv ts"
  shows "\<exists>b w' ts'. tones_loop handler w ts s = Some (b, w', ts') \<and> script_inv ts' \<and> tone_LOOPS ts' = tone_LOOPS ts"
  using assms(2)
proof (induction "length s" arbitrary: w ts s rule: less_induct)
  case less
  show ?case
  proof (cases s)
    case Nil
    then show ?thesis using less.prems by (auto simp: tones_loop.simps)
  next
    case (Cons c t)
    obtain err t1 own nxt where a: "tone_args (ts\<lparr>tmp_duration := -1, tmp_wait := -1\<rparr>) c t = (err, t1, own, nxt)"
      by (metis prod_cases4)
    have t1: "script_inv t1" "tone_LOOPS t1 = tone_LOOPS ts"
      using tone_args_inv[OF a] less.prems by (simp_all add: script_inv_def)
    obtain w2 t2 where p: "play handler (choose_map own c) w t1 = Some (w2, t2)" "script_inv t2" "tone_LOOPS t2 = tone_LOOPS t1"
      using play_Some[OF assms(1) t1(1)] by blast
    have "length nxt < length s" using tone_args_shorter[OF a] Cons by simp
    from less.hyps[OF this p(2), of w2] less.hyps[of t ts w, OF _ less.prems] Cons a p t1
    show ?thesis by (auto simp: tones_loop.simps)
  qed
qed

lemma digits_value_nonneg: "list_all isdigit ds \<Longrightarrow> 0 \<le> digits_value ds"
proof -
  have "list_all isdigit ds \<Longrightarrow> 0 \<le> v \<Longrightarrow> 0 \<le> foldl (\<lambda>v d. 10 * v + (of_char d - 48)) v ds" for v :: int
  proof (induction ds arbitrary: v)
    case (Cons d ds)
    have "(48 :: nat) \<le> of_char d" using Cons.prems(1) by (simp add: isdigit_def Let_def)
    then have "(48 :: int) \<le> of_char d" by (metis of_nat_of_char of_nat_le_iff of_nat_numeral)
    then show ?case using Cons by simp
  qed simp
  then show "list_all isdigit ds \<Longrightarrow> 0 \<le> digits_value ds" by (simp add: digits_value_def)
qed

text \<open>
  A script whose numbers are not negative as \<^verbatim>\<open>int\<close>s: it has no minus sign, and no run of
  digits in it is beyond \<^verbatim>\<open>INT_MAX\<close>.
\<close>

fun numbers_fit :: "string \<Rightarrow> bool" where
  "numbers_fit [] = True"
| "numbers_fit (c # s) = (digits_value (takeWhile isdigit (c # s)) \<le> INT_MAX \<and> numbers_fit s)"

definition script_ok :: "string \<Rightarrow> bool" where
  "script_ok s \<longleftrightarrow> CHR ''-'' \<notin> set s \<and> numbers_fit s"

lemma digits_value_append_le:
  assumes "list_all isdigit (a @ b)"
  shows "digits_value a \<le> digits_value (a @ b)"
  using assms
proof (induction b rule: rev_induct)
  case (snoc d b)
  have "0 \<le> digits_value (a @ b)" using snoc.prems by (intro digits_value_nonneg) simp
  moreover have "(48 :: nat) \<le> of_char d" using snoc.prems by (simp add: isdigit_def Let_def)
  then have "(48 :: int) \<le> of_char d" by (metis of_nat_of_char of_nat_le_iff of_nat_numeral)
  moreover have "digits_value (a @ b @ [d]) = 10 * digits_value (a @ b) + (of_char d - 48)"
    by (simp add: digits_value_def)
  ultimately show ?case using snoc by simp
qed simp

lemma digits_prefix_le:
  "digits_value (takeWhile isdigit (take k s)) \<le> digits_value (takeWhile isdigit s)"
proof -
  have "\<exists>b. takeWhile isdigit s = takeWhile isdigit (take k s) @ b"
  proof (induction s arbitrary: k)
    case (Cons c s)
    then show ?case by (cases k) auto
  qed simp
  then obtain b where "takeWhile isdigit s = takeWhile isdigit (take k s) @ b" ..
  moreover have "list_all isdigit (takeWhile isdigit s)" by (auto simp: list_all_iff dest: set_takeWhileD)
  ultimately show ?thesis using digits_value_append_le by metis
qed

lemma numbers_fit_parts:
  "numbers_fit s \<Longrightarrow> numbers_fit (drop k s)" "numbers_fit s \<Longrightarrow> numbers_fit (take k s)"
proof -
  show "numbers_fit s \<Longrightarrow> numbers_fit (drop k s)"
    by (induction s arbitrary: k) (auto split: nat.split simp: drop_Cons)
  show "numbers_fit s \<Longrightarrow> numbers_fit (take k s)"
  proof (induction s arbitrary: k)
    case (Cons c s)
    show ?case
    proof (cases k)
      case (Suc n)
      then show ?thesis using Cons digits_prefix_le[of k "c # s"] by (simp del: takeWhile.simps)
    qed simp
  qed simp
qed

lemma script_ok_parts:
  assumes "script_ok s"
  shows "script_ok (drop k s)" "script_ok (take k s)" "script_ok (tl s)" "script_ok []"
proof -
  show d: "script_ok (drop k s)" for k
    using assms numbers_fit_parts(1)[of s k] by (auto simp: script_ok_def dest: in_set_dropD)
  show "script_ok (take k s)"
    using assms numbers_fit_parts(2)[of s k] by (auto simp: script_ok_def dest: in_set_takeD)
  show "script_ok (tl s)" using d[of 1] by (simp add: drop_Suc)
  show "script_ok []" by (simp add: script_ok_def)
qed

lemma cut_char_ok:
  "cut_char c s = (a, b) \<Longrightarrow> script_ok s \<Longrightarrow> script_ok a \<and> (\<forall>e. b = Some e \<longrightarrow> script_ok e)"
  by (auto simp: cut_char_def split: option.splits intro: script_ok_parts)

lemma atoi_nonneg:
  assumes "script_ok s"
  shows "0 \<le> atoi s"
proof -
  have d: "0 \<le> digits_value (takeWhile isdigit t)" for t
    by (rule digits_value_nonneg) (auto simp: list_all_iff dest: set_takeWhileD)
  have le: "digits_value (takeWhile isdigit t) \<le> INT_MAX" if "script_ok t" for t
    using that by (cases t) (simp_all add: script_ok_def digits_value_def cval)
  have k: "script_ok (dropWhile isspace s)" using script_ok_parts(1)[OF assms] by (simp add: dropWhile_eq_drop)
  then have "CHR ''-'' \<notin> set (dropWhile isspace s)" by (simp add: script_ok_def)
  then have "0 \<le> decimal_value s \<and> decimal_value s \<le> INT_MAX"
    using d d[of "dropWhile isspace s"] le[OF k] le[OF script_ok_parts(3)[OF k]]
    by (auto simp: decimal_value_def Let_def cval split: list.split simp del: takeWhile.simps)
  then show ?thesis by (simp add: atoi_id cval)
qed

lemma assign_inv:
  assumes "assign l ts c v = (l', ts')" "script_inv ts" "script_ok v"
  shows "script_inv ts'" "l \<longrightarrow> l'" "l' = l \<longrightarrow> tone_LOOPS ts' = tone_LOOPS ts"
  using assms atoi_nonneg[OF assms(3)]
  by (auto simp: assign_def script_inv_def Let_def split: if_splits)

lemma script_loop_Some:
  assumes "\<forall>h. handler = Some h \<longrightarrow> handler_ok h" "script_inv ts" "script_ok s"
  shows "\<exists>l' w' ts'. script_loop handler l w ts s = Some (l', w', ts') \<and> script_inv ts' \<and> (l \<longrightarrow> l') \<and> (l' = l \<longrightarrow> tone_LOOPS ts' = tone_LOOPS ts)"
  using assms(2,3)
proof (induction "length s" arbitrary: l w ts s rule: less_induct)
  case less
  show ?case
  proof (cases s)
    case Nil
    then show ?thesis using less.prems by (simp add: script_loop.simps)
  next
    case (Cons c t)
    obtain seg end' where k: "cut_char (CHR '';'') (c # t) = (seg, end')" by fastforce
    have sub: "script_ok seg" "\<forall>e. end' = Some e \<longrightarrow> script_ok e"
      using cut_char_ok[OF k] less.prems(2) Cons by simp_all
    have len: "length seg \<le> length s" "\<forall>e. end' = Some e \<longrightarrow> length e < length s"
      using cut_char_both[OF k] Cons by auto
    consider "is_blank c" | (assign) "\<not> is_blank c" "1 < length seg \<and> seg ! 1 = CHR ''=''"
      | (tones) "\<not> is_blank c" "\<not> (1 < length seg \<and> seg ! 1 = CHR ''='')" by blast
    then show ?thesis
    proof cases
      case 1
      then show ?thesis using less.hyps[of t ts l w] less.prems script_ok_parts(3)[OF less.prems(2)] Cons
        by (simp add: script_loop.simps)
    next
      case assign
      obtain l1 t1 where a: "assign l ts c (drop 2 seg) = (l1, t1)" by fastforce
      define r where "r = (case end' of Some e \<Rightarrow> e | None \<Rightarrow> tl seg)"
      have r: "length r < length s" "script_ok r"
        using assign len sub script_ok_parts(3)[OF sub(1)] by (auto simp: r_def split: option.split)
      have v: "script_ok (drop 2 seg)" using sub(1) by (rule script_ok_parts)
      note i = assign_inv[OF a less.prems(1) v]
      have "script_loop handler l w ts s = script_loop handler l1 w t1 r"
        using assign a k unfolding Cons by (subst script_loop.simps) (simp add: r_def)
      then show ?thesis using less.hyps[OF r(1) i(1) r(2), of l1 w] i by force
    next
      case tones
      define r where "r = (case end' of Some e \<Rightarrow> e | None \<Rightarrow> [])"
      have r: "length r < length s" "script_ok r"
        using len sub script_ok_parts(4)[OF less.prems(2)] Cons by (auto simp: r_def split: option.split)
      obtain b w1 t1 where p: "tones_loop handler w ts seg = Some (b, w1, t1)" "script_inv t1" "tone_LOOPS t1 = tone_LOOPS ts"
        using tones_loop_Some[OF assms(1) less.prems(1)] by blast
      have "script_loop handler l w ts s = (if b then Some (l, w1, t1) else script_loop handler l w1 t1 r)"
        unfolding Cons script_loop.simps k prod.case if_not_P[OF tones(2)] p(1) option.case r_def using tones(1) by simp
      then show ?thesis using less.hyps[OF r(1) p(2) r(2), of l w1] p by force
    qed
  qed
qed

lemma run_loop_Some:
  assumes "\<forall>h. handler = Some h \<longrightarrow> handler_ok h" "script_inv ts" "script_ok cmd"
  shows "\<exists>r w' ts'. run_loop malloc_ok handler cmd l w ts = Some (r, w', ts') \<and> script_inv ts' \<and>
     (r = 0 \<and> tone_LOOPS ts' = 0 \<or> r = -1 \<and> (\<exists>w. \<not> malloc_ok w))"
  using assms(2)
proof (induction "(if l then 0 else 1 :: nat, nat (tone_LOOPS ts))" arbitrary: l w ts
    rule: wf_induct_rule[OF wf_lex_prod[OF wf_less_than wf_less_than]])
  case 1
  show ?case
  proof (cases "malloc_ok w")
    case False
    then have "run_loop malloc_ok handler cmd l w ts = Some (-1, w, ts)" by (subst run_loop.simps) simp
    then show ?thesis using 1(2) False by blast
  next
    case True
    obtain l1 w1 t1 where p: "script_loop handler l w ts cmd = Some (l1, w1, t1)" "script_inv t1" "l \<longrightarrow> l1"
      "l1 = l \<longrightarrow> tone_LOOPS t1 = tone_LOOPS ts"
      using script_loop_Some[OF assms(1) 1(2) assms(3), of l w] by (elim exE conjE)
    define t2 where "t2 = (if tone_LOOPS t1 > 0 then t1\<lparr>tone_LOOPS := tone_LOOPS t1 - 1\<rparr> else t1)"
    have t2: "script_inv t2" "tone_LOOPS t2 = max 0 (tone_LOOPS t1 - 1)"
      using p(2) by (auto simp: t2_def script_inv_def)
    have step: "run_loop malloc_ok handler cmd l w ts =
        (if tone_LOOPS t2 \<noteq> 0 then run_loop malloc_ok handler cmd l1 w1 t2 else Some (0, w1, t2))"
      using True p(1) by (subst run_loop.simps) (simp add: t2_def)
    show ?thesis
    proof (cases "tone_LOOPS t2 = 0")
      case True
      then have "run_loop malloc_ok handler cmd l w ts = Some (0, w1, t2)" using step by simp
      then show ?thesis using t2(1) True by blast
    next
      case False
      have "l1 = l \<Longrightarrow> nat (tone_LOOPS t2) < nat (tone_LOOPS ts)"
      proof -
        assume "l1 = l"
        then have "tone_LOOPS t1 = tone_LOOPS ts" using p(4) by simp
        then show "nat (tone_LOOPS t2) < nat (tone_LOOPS ts)" using False t2(2) by linarith
      qed
      then have lex: "((if l1 then 0 else 1, nat (tone_LOOPS t2)), (if l then 0 else 1, nat (tone_LOOPS ts))) \<in> less_than <*lex*> less_than"
        using p(3) by (cases l; cases l1) (simp_all only: in_lex_prod less_than_iff if_True if_False simp_thms zero_less_one)
      have eq: "run_loop malloc_ok handler cmd l w ts = run_loop malloc_ok handler cmd l1 w1 t2"
        using step False by simp
      show ?thesis unfolding eq by (rule 1(1)[OF lex t2(1)])
    qed
  qed
qed

text \<open>
  C10: A script without a minus sign and without a number beyond \<^verbatim>\<open>INT_MAX\<close> returns, whatever
  else it holds: with no handler, or with one that returns and keeps the loop counters and
  the volume, \<^verbatim>\<open>teletone_run\<close> ends with 0 and all passes of its \<^verbatim>\<open>L\<close> loop done, or with -1
  when memory runs out. The volume stays between
  the bounds of the header, and the counters do not become negative.
\<close>

theorem teletone_run_returns:
  assumes "\<forall>h. handler = Some h \<longrightarrow> handler_ok h" "script_inv ts" "script_ok cmd"
  shows "\<exists>r w' ts'. teletone_run malloc_ok handler w ts (Some cmd) = Some (r, w', ts') \<and> script_inv ts' \<and>
     (r = 0 \<and> tone_LOOPS ts' = 0 \<or> r = -1 \<and> (\<exists>w. \<not> malloc_ok w))"
  unfolding teletone_run_def option.case by (rule run_loop_Some[OF assms])

definition log_maps :: "tone_map list tone_handler" where
  "log_maps w ts m = (w @ [m], ts)"

theorem teletone_run_returns_witness:
  "\<exists>w' ts'. teletone_run (\<lambda>_. True) (Some log_maps) [] sample_session (Some ''v=3;L=20;%(100,,697);l=2;*;)('') = Some (0, w', ts')"
  using teletone_run_returns[of "Some log_maps" sample_session "''v=3;L=20;%(100,,697);l=2;*;)(''" "\<lambda>_. True" "[]"]
  by (auto simp: handler_ok_def log_maps_def script_ok_def isdigit_def digits_value_def cval script_inv_def sample_session_def TELETONE_VOL_DB_MIN_def TELETONE_VOL_DB_MAX_def)

section \<open>Scripts that do not return\<close>

lemma handler_loop_negative:
  assumes h: "\<And>w ts m. tone_loops (snd (h w ts m)) = tone_loops ts" and "tone_loops ts < 0"
  shows "handler_loop h r w ts = None"
proof (rule ccontr)
  assume "handler_loop h r w ts \<noteq> None"
  then obtain y where "handler_loop h r w ts = Some y" by auto
  moreover have "handler_loop g r w ts = Some y \<Longrightarrow> \<not> (g = h \<and> tone_loops ts < 0)" for g r w ts y
  proof (induction rule: handler_loop.raw_induct[rotated, consumes 1])
    case (1 hl g r w ts y)
    show ?case
    proof
      assume e: "g = h \<and> tone_loops ts < 0"
      obtain w1 t1 where s: "h w ts (deref ts r) = (w1, t1)" by fastforce
      then have "tone_loops t1 < 0" using e h by (metis snd_conv)
      then have "hl g r w1 t1 = Some y" using 1(2) e s by simp
      then show False using 1(1) e \<open>tone_loops t1 < 0\<close> by blast
    qed
  qed
  ultimately show False using assms(2) by blast
qed

lemma cut_char_absent: "c \<notin> set s \<Longrightarrow> c \<noteq> NUL \<Longrightarrow> cut_char c s = (s, None)"
  by (simp add: cut_char_def strchr_def)

text \<open>
  After \<^verbatim>\<open>l=-1\<close> the first tone with frequencies is played for ever: the loop runs while the
  counter is not 0 and counts down positive values only. The call never returns. A number
  that is -1 as an \<^verbatim>\<open>int\<close>, such as 4294967295, does the same.
\<close>

lemma teletone_run_negative_loops:
  assumes "\<And>w ts m. tone_loops (snd (h w ts m)) = tone_loops ts" and "malloc_ok w"
    and "\<not> is_blank c" "c \<noteq> CHR '';''" "c \<noteq> NUL" "of_char c < TELETONE_TONE_RANGE" "TONES ts ! of_char c ! 0 \<noteq> 0"
    and n: "n \<in> {''-1'', ''4294967295''}"
  shows "teletone_run malloc_ok (Some h) w ts (Some (''l='' @ n @ '';'' @ [c])) = None"
proof -
  define t1 where "t1 = ts\<lparr>tone_loops := -1, tmp_duration := -1, tmp_wait := -1\<rparr>"
  have tone: "tone_args t1 c [] = (False, t1, None, [])" by (simp add: tone_args_def c_at_def)
  have "handler_loop h (Table (of_char c)) w t1 = None"
    by (rule handler_loop_negative) (simp_all add: assms(1) t1_def)
  then have "play (Some h) (choose_map None c) w t1 = None"
    using assms(5-7) by (simp add: play_def choose_map_def t1_def)
  then have "tones_loop (Some h) w (ts\<lparr>tone_loops := -1\<rparr>) [c] = None"
    using assms(3) tone by (simp add: tones_loop.simps t1_def)
  moreover have "cut_char (CHR '';'') [c] = ([c], None)"
    using assms(4) by (simp add: cut_char_absent)
  ultimately have "script_loop (Some h) False w (ts\<lparr>tone_loops := -1\<rparr>) [c] = None"
    using assms(3) by (simp add: script_loop.simps)
  moreover have "cut_char (CHR '';'') (''l='' @ n @ '';'' @ [c]) = (''l='' @ n, Some [c])"
    using n by (auto simp: cut_char_def strchr_def)
  moreover have "atoi n = -1"
    using n by (auto simp: atoi_def decimal_value_def isspace_def isdigit_def digits_value_def cast_i32_def cval)
  ultimately have "script_loop (Some h) False w ts (''l='' @ n @ '';'' @ [c]) = None"
    by (simp add: script_loop.simps is_blank_def assign_def)
  then show ?thesis
    using assms(2) by (simp add: teletone_run_def run_loop.simps)
qed

theorem teletone_run_negative_loops_witness:
  "teletone_run (\<lambda>_. True) (Some log_maps) [] (sample_session\<lparr>TONES := replicate 127 [697, 1209]\<rparr>) (Some ''l=4294967295;5'') = None"
  using teletone_run_negative_loops[of log_maps "\<lambda>_. True" "[]" "CHR ''5''" "sample_session\<lparr>TONES := replicate 127 [697, 1209]\<rparr>" "''4294967295''"]
  by (simp add: log_maps_def is_blank_def TELETONE_TONE_RANGE_def)

lemma handler_loop_once:
  "tone_loops ts = 0 \<Longrightarrow> handler_loop log_maps r w ts = Some (w @ [deref ts r], ts)"
  by (subst handler_loop.simps) (simp add: log_maps_def)

lemma tones_loop_digits:
  assumes "list_all isdigit ds" "\<forall>d\<in>set ds. TONES ts ! of_char d ! 0 \<noteq> 0" "tone_loops ts = 0"
  shows "tones_loop (Some log_maps) w ts ds =
    Some (False, w @ map (\<lambda>d. TONES ts ! of_char d) ds, if ds = [] then ts else ts\<lparr>tmp_duration := -1, tmp_wait := -1\<rparr>)"
  using assms
proof (induction ds arbitrary: w ts)
  case (Cons d ds)
  define t1 where "t1 = ts\<lparr>tmp_duration := -1, tmp_wait := -1\<rparr>"
  have d: "isdigit d" and d1: "ds = [] \<or> isdigit (c_at ds 0)" using Cons.prems(1) by (simp, cases ds, simp_all add: c_at_def)
  have nd: "c_at ds 0 \<noteq> CHR ''(''" using d1 by (auto simp: c_at_def isdigit_def)
  have dd: "\<not> is_blank d" "d \<noteq> NUL" "of_char d < (127 :: nat)" using d by (auto simp: is_blank_def isdigit_def Let_def)
  have "tone_args t1 d ds = (False, t1, None, ds)" using nd by (simp add: tone_args_def)
  moreover have "play (Some log_maps) (choose_map None d) w t1 = Some (w @ [TONES ts ! of_char d], t1)"
    using Cons.prems(2,3) dd by (simp add: play_def choose_map_def TELETONE_TONE_RANGE_def handler_loop_once t1_def)
  ultimately have "tones_loop (Some log_maps) w ts (d # ds) = tones_loop (Some log_maps) (w @ [TONES ts ! of_char d]) t1 ds"
    using dd by (simp add: tones_loop.simps t1_def)
  then show ?case
    using Cons.IH[of t1 "w @ [TONES ts ! of_char d]"] Cons.prems by (simp add: t1_def)
qed (simp add: tones_loop.simps)

text \<open>
  An assignment that ends the script without a semicolon is carried out, and then its
  value is played: after \<^verbatim>\<open>d=500\<close> the interpreter goes on at the equals sign and plays the
  tones 5, 0 and 0.
\<close>

lemma teletone_run_plays_value:
  assumes "list_all isdigit ds" "\<forall>d\<in>set ds. TONES ts ! of_char d ! 0 \<noteq> 0" "TONES ts ! 61 ! 0 = 0"
    and "tone_loops ts = 0" "tone_LOOPS ts = 0"
  shows "teletone_run (\<lambda>_. True) (Some log_maps) [] ts (Some (''d='' @ ds)) =
    Some (0, map (\<lambda>d. TONES ts ! of_char d) ds, ts\<lparr>tone_duration := cast_i32 (atoi ds * per_ms ts), tmp_duration := -1, tmp_wait := -1\<rparr>)"
proof -
  define t1 where "t1 = ts\<lparr>tone_duration := cast_i32 (atoi ds * per_ms ts)\<rparr>"
  define t2 where "t2 = t1\<lparr>tmp_duration := -1, tmp_wait := -1\<rparr>"
  have semi: "CHR '';'' \<notin> set ds" "CHR ''('' \<notin> set ds" "CHR ''='' \<notin> set ds"
    using assms(1) by (auto simp: list_all_iff isdigit_def Let_def)
  have "tone_args t2 (CHR ''='') ds = (False, t2, None, ds)"
    using semi(2) by (cases ds) (auto simp: tone_args_def c_at_def)
  moreover have "play (Some log_maps) (choose_map None (CHR ''='')) [] t2 = Some ([], t2)"
    using assms(3) by (simp add: play_def choose_map_def TELETONE_TONE_RANGE_def t2_def t1_def)
  moreover have "tones_loop (Some log_maps) [] t2 ds = Some (False, map (\<lambda>d. TONES ts ! of_char d) ds, t2)"
    using tones_loop_digits[of ds t2 "[]"] assms by (simp add: t2_def t1_def)
  ultimately have tones: "tones_loop (Some log_maps) [] t1 (CHR ''='' # ds) = Some (False, map (\<lambda>d. TONES ts ! of_char d) ds, t2)"
    by (simp add: tones_loop.simps is_blank_def t2_def)
  have "cut_char (CHR '';'') (CHR ''='' # ds) = (CHR ''='' # ds, None)" using semi by (simp add: cut_char_absent)
  moreover have "\<not> (1 < length (CHR ''='' # ds) \<and> (CHR ''='' # ds) ! 1 = CHR ''='')"
    using semi(3) by (cases ds) auto
  ultimately have "script_loop (Some log_maps) False [] t1 (CHR ''='' # ds) = Some (False, map (\<lambda>d. TONES ts ! of_char d) ds, t2)"
    unfolding script_loop.simps by (simp only: prod.case if_not_P if_False tones option.case) (simp add: is_blank_def script_loop.simps)
  moreover have "cut_char (CHR '';'') (''d='' @ ds) = (''d='' @ ds, None)" using semi by (intro cut_char_absent) auto
  ultimately have "script_loop (Some log_maps) False [] ts (''d='' @ ds) = Some (False, map (\<lambda>d. TONES ts ! of_char d) ds, t2)"
    by (simp add: script_loop.simps is_blank_def assign_def t1_def)
  then show ?thesis using assms(5) by (simp add: teletone_run_def run_loop.simps t2_def t1_def)
qed

theorem teletone_run_plays_value_witness:
  "\<exists>ts'. teletone_run (\<lambda>_. True) (Some log_maps) [] (sample_session\<lparr>TONES := (replicate 127 [0])[48 := [941, 1336], 53 := [770, 1336]]\<rparr>)
      (Some (''d='' @ ''500'')) = Some (0, [[770, 1336], [941, 1336], [941, 1336]], ts')"
  by (subst teletone_run_plays_value) (simp_all add: sample_session_def isdigit_def)

end
