(* ===== verification/Tone_Detect.thy ===== *)
theory Tone_Detect
  imports Tone_Generate C_String
begin

text \<open>
  The tone detectors of libteletone,
  \<^verbatim>\<open>crates/fswtch-src/freeswitch/libs/libteletone/src/libteletone_detect.c\<close>. The cosine is
  the function of the C library. A buffer is the list of its samples; a function that goes
  through a buffer gets the part it has not read yet. The descriptors of the DTMF
  frequencies are static variables of the file, here an argument.
\<close>

section \<open>Goertzel filters\<close>

definition M_PI :: rat where "M_PI = f64 (314159265358979323846264338327 / 10 ^ 29)"

record goertzel_state =
  g_v2 :: rat
  g_v3 :: rat
  g_fac :: rat

definition goertzel_init :: "rat \<Rightarrow> goertzel_state" where
  "goertzel_init tdesc_fac = \<lparr>g_v2 = 0, g_v3 = 0, g_fac = tdesc_fac\<rparr>"

definition goertzel_step :: "rat \<Rightarrow> goertzel_state \<Rightarrow> goertzel_state" where
  "goertzel_step famp g =
     g\<lparr>g_v2 := g_v3 g, g_v3 := f32 (f64 (f64 (f64 (g_fac g * g_v3 g) - g_v2 g) + famp))\<rparr>"

definition teletone_goertzel_update :: "goertzel_state \<Rightarrow> int list \<Rightarrow> goertzel_state" where
  "teletone_goertzel_update g samples = foldl (\<lambda>g s. goertzel_step (of_int s) g) g samples"

definition teletone_goertzel_result :: "goertzel_state \<Rightarrow> rat" where
  "teletone_goertzel_result g =
     f64 (f32 (f32 (g_v3 g * g_v3 g) + f32 (g_v2 g * g_v2 g)) - f64 (f32 (g_v2 g * g_v3 g) * g_fac g))"

section \<open>DTMF detector\<close>

definition DTMF_THRESHOLD :: rat where "DTMF_THRESHOLD = 80000000"
definition DTMF_NORMAL_TWIST :: rat where "DTMF_NORMAL_TWIST = f64 (63 / 10)"
definition DTMF_REVERSE_TWIST :: rat where "DTMF_REVERSE_TWIST = f64 (25 / 10)"
definition DTMF_RELATIVE_PEAK_ROW :: rat where "DTMF_RELATIVE_PEAK_ROW = f64 (63 / 10)"
definition DTMF_RELATIVE_PEAK_COL :: rat where "DTMF_RELATIVE_PEAK_COL = f64 (63 / 10)"
definition DTMF_2ND_HARMONIC_ROW :: rat where "DTMF_2ND_HARMONIC_ROW = f64 (25 / 10)"
definition DTMF_2ND_HARMONIC_COL :: rat where "DTMF_2ND_HARMONIC_COL = f64 (631 / 10)"
definition GRID_FACTOR :: nat where [cval]: "GRID_FACTOR = 4"
definition BLOCK_LEN :: int where [cval]: "BLOCK_LEN = 102"
definition TELETONE_MAX_DTMF_DIGITS :: int where [cval]: "TELETONE_MAX_DTMF_DIGITS = 128"
definition LOW_ENG :: rat where "LOW_ENG = 10000000"
definition ZC :: int where [cval]: "ZC = 2"

datatype teletone_hit_type = TT_HIT_NONE | TT_HIT_BEGIN | TT_HIT_MIDDLE | TT_HIT_END

definition dtmf_row :: "rat list" where "dtmf_row = [697, 770, 852, 941]"
definition dtmf_col :: "rat list" where "dtmf_col = [1209, 1336, 1477, 1633]"
definition dtmf_positions :: string where "dtmf_positions = ''123A456B789C*0#D''"

record dtmf_descs =
  dtmf_detect_row :: "rat list"
  dtmf_detect_col :: "rat list"
  dtmf_detect_row_2nd :: "rat list"
  dtmf_detect_col_2nd :: "rat list"

text \<open>The fields \<open>hit1\<close> to \<open>hit4\<close> and \<open>digit\<close> hold a character or 0.\<close>

record dtmf_state =
  hit1 :: char
  hit2 :: char
  hit3 :: char
  hit4 :: char
  dur :: int
  zc :: int
  row_out :: "goertzel_state list"
  col_out :: "goertzel_state list"
  row_out2nd :: "goertzel_state list"
  col_out2nd :: "goertzel_state list"
  energy :: rat
  lenergy :: rat
  current_sample :: int
  digit :: char
  current_digits :: int
  detected_digits :: int
  lost_digits :: int
  digit_hits :: "int list"

definition fundamental_fac :: "(rat \<Rightarrow> rat) \<Rightarrow> int \<Rightarrow> rat \<Rightarrow> rat" where
  "fundamental_fac c_cos sample_rate f =
     f32 (f64 (2 * c_cos (f32 (f64 (f64 (2 * M_PI) * f32 (f / f32 (of_int sample_rate)))))))"

definition harmonic_fac :: "(rat \<Rightarrow> rat) \<Rightarrow> int \<Rightarrow> rat \<Rightarrow> rat" where
  "harmonic_fac c_cos sample_rate f =
     f32 (f64 (2 * c_cos (f32 (f64 (f64 (2 * M_PI) * f64 (f64 (f * 2) / f32 (of_int sample_rate)))))))"

definition reinit_filters :: "dtmf_descs \<Rightarrow> dtmf_state \<Rightarrow> dtmf_state" where
  "reinit_filters dd st =
     st\<lparr>row_out := map goertzel_init (dtmf_detect_row dd), col_out := map goertzel_init (dtmf_detect_col dd),
        row_out2nd := map goertzel_init (dtmf_detect_row_2nd dd), col_out2nd := map goertzel_init (dtmf_detect_col_2nd dd)\<rparr>"

definition teletone_dtmf_detect_init :: "(rat \<Rightarrow> rat) \<Rightarrow> dtmf_state \<Rightarrow> int \<Rightarrow> dtmf_state \<times> dtmf_descs" where
  "teletone_dtmf_detect_init c_cos st sample_rate =
     (let sample_rate = (if sample_rate = 0 then 8000 else sample_rate);
          st = st\<lparr>hit1 := NUL, hit2 := NUL\<rparr>;
          dd = \<lparr>dtmf_detect_row = map (fundamental_fac c_cos sample_rate) dtmf_row,
                dtmf_detect_col = map (fundamental_fac c_cos sample_rate) dtmf_col,
                dtmf_detect_row_2nd = map (harmonic_fac c_cos sample_rate) dtmf_row,
                dtmf_detect_col_2nd = map (harmonic_fac c_cos sample_rate) dtmf_col\<rparr>;
          st = reinit_filters dd st
      in (st\<lparr>energy := 0, current_sample := 0, detected_digits := 0, lost_digits := 0, digit := NUL, dur := 0\<rparr>, dd))"

text \<open>One sample, and the samples of a part of the buffer.\<close>

definition feed_sample :: "dtmf_state \<Rightarrow> int \<Rightarrow> dtmf_state" where
  "feed_sample st s =
     (let famp = of_int s in
      st\<lparr>energy := f32 (energy st + f32 (famp * famp)),
         row_out := map (goertzel_step famp) (row_out st), col_out := map (goertzel_step famp) (col_out st),
         row_out2nd := map (goertzel_step famp) (row_out2nd st), col_out2nd := map (goertzel_step famp) (col_out2nd st)\<rparr>)"

definition feed :: "dtmf_state \<Rightarrow> int list \<Rightarrow> dtmf_state" where
  "feed st samples = foldl feed_sample st samples"

text \<open>The first index of a largest energy.\<close>

definition peak :: "rat list \<Rightarrow> nat" where
  "peak es = foldl (\<lambda>best i. if es ! i > es ! best then i else best) 0 [1..<GRID_FACTOR]"

definition relative_peak :: "rat list \<Rightarrow> rat list \<Rightarrow> nat \<Rightarrow> nat \<Rightarrow> bool" where
  "relative_peak row_energy col_energy best_row best_col =
     list_all (\<lambda>i. \<not> (i \<noteq> best_col \<and> f64 (col_energy ! i * DTMF_RELATIVE_PEAK_COL) > col_energy ! best_col \<or>
                      i \<noteq> best_row \<and> f64 (row_energy ! i * DTMF_RELATIVE_PEAK_ROW) > row_energy ! best_row))
       [0..<GRID_FACTOR]"

text \<open>The tests at the end of a block: \<open>Some k\<close> is a hit of the key at position \<open>k\<close>.\<close>

definition block_key :: "dtmf_state \<Rightarrow> nat option" where
  "block_key st =
     (let row_energy = map (\<lambda>g. f32 (teletone_goertzel_result g)) (row_out st);
          col_energy = map (\<lambda>g. f32 (teletone_goertzel_result g)) (col_out st);
          best_row = peak row_energy; best_col = peak col_energy
      in if row_energy ! best_row \<ge> DTMF_THRESHOLD \<and> col_energy ! best_col \<ge> DTMF_THRESHOLD \<and>
            col_energy ! best_col < f64 (row_energy ! best_row * DTMF_REVERSE_TWIST) \<and>
            f64 (col_energy ! best_col * DTMF_NORMAL_TWIST) > row_energy ! best_row \<and>
            relative_peak row_energy col_energy best_row best_col \<and>
            f32 (row_energy ! best_row + col_energy ! best_col) > f64 (42 * energy st) \<and>
            f64 (teletone_goertzel_result (col_out2nd st ! best_col) * DTMF_2ND_HARMONIC_COL) < col_energy ! best_col \<and>
            f64 (teletone_goertzel_result (row_out2nd st ! best_row) * DTMF_2ND_HARMONIC_ROW) < row_energy ! best_row
         then Some (best_row * 4 + best_col) else None)"

text \<open>
  The end of a block: the hit, the accounting of a digit found, and the reports. The first
  component says whether the loop is left with a \<^verbatim>\<open>break\<close>, before the history moves on.
\<close>

definition end_of_block :: "dtmf_state \<Rightarrow> bool \<times> dtmf_state" where
  "end_of_block st =
     (let hit = (case block_key st of None \<Rightarrow> NUL | Some k \<Rightarrow> dtmf_positions ! k);
          (begin, st) =
            (case block_key st of
               None \<Rightarrow> (False, st)
             | Some k \<Rightarrow>
                 if hit = hit3 st \<and> hit3 st \<noteq> hit2 st then
                   (let st = st\<lparr>digit_hits := (digit_hits st)[k := digit_hits st ! k + 1], detected_digits := detected_digits st + 1\<rparr>;
                        st = (if current_digits st < TELETONE_MAX_DTMF_DIGITS then st\<lparr>digit := hit\<rparr>
                              else st\<lparr>lost_digits := lost_digits st + 1\<rparr>)
                    in if zc st = 0 then (True, st\<lparr>zc := ZC, dur := 0\<rparr>) else (False, st))
                 else (False, st))
      in if begin then (True, st)
         else (False, st\<lparr>hit1 := hit2 st, hit2 := hit3 st, hit3 := hit, energy := 0, current_sample := 0\<rparr>))"

lemma feed_keeps [simp]:
  "current_sample (feed st xs) = current_sample st" "zc (feed st xs) = zc st" "digit (feed st xs) = digit st"
  "dur (feed st xs) = dur st" "lenergy (feed st xs) = lenergy st" "current_digits (feed st xs) = current_digits st"
  "hit1 (feed st xs) = hit1 st" "hit2 (feed st xs) = hit2 st" "hit3 (feed st xs) = hit3 st"
  by (induction xs arbitrary: st) (simp_all add: feed_def feed_sample_def Let_def)

lemma end_of_block_rest: "end_of_block st = (False, st') \<Longrightarrow> current_sample st' = 0"
  by (auto simp: end_of_block_def Let_def split: prod.splits if_splits)

text \<open>
  The loop over the buffer. \<open>n\<close> is the length of the whole buffer. A \<open>current_sample\<close> beyond
  \<^const>\<open>BLOCK_LEN\<close> makes the code step back in the buffer; it is \<^const>\<open>None\<close>.
\<close>

function detect_loop :: "dtmf_descs \<Rightarrow> int \<Rightarrow> dtmf_state \<Rightarrow> int list \<Rightarrow> (teletone_hit_type \<times> dtmf_state) option" where
  "detect_loop dd n st samples =
     (if samples = [] then Some (TT_HIT_NONE, st)
      else if current_sample st > BLOCK_LEN then None
      else
        let k = (if int (length samples) \<ge> BLOCK_LEN - current_sample st then nat (BLOCK_LEN - current_sample st) else length samples);
            st = feed st (take k samples)
        in if zc st > 0 then
             (let low = energy st < LOW_ENG \<and> lenergy st < LOW_ENG;
                  st = (if low then st\<lparr>zc := zc st - 1\<rparr> else st)
              in if low \<and> zc st = 0
                 then Some (TT_HIT_END, (reinit_filters dd (st\<lparr>hit1 := NUL, hit2 := NUL\<rparr>))\<lparr>dur := dur st - n\<rparr>)
                 else Some (TT_HIT_MIDDLE, st\<lparr>dur := dur st + n, lenergy := energy st, energy := 0, current_sample := 0\<rparr>))
           else if digit st \<noteq> NUL then Some (TT_HIT_END, st)
           else
             (let st = st\<lparr>current_sample := current_sample st + int k\<rparr> in
              if current_sample st < BLOCK_LEN then detect_loop dd n st (drop k samples)
              else case end_of_block st of (begin, st) \<Rightarrow>
                if begin then Some (TT_HIT_BEGIN, st) else detect_loop dd n st (drop k samples)))"
  by pat_completeness auto

termination
  by (relation "measure (\<lambda>(dd, n, st, s). 2 * length s + (if current_sample st \<ge> BLOCK_LEN then 1 else 0))")
    (auto simp: BLOCK_LEN_def dest!: end_of_block_rest[OF sym])

declare detect_loop.simps [simp del]

definition teletone_dtmf_detect :: "dtmf_descs \<Rightarrow> dtmf_state \<Rightarrow> int list \<Rightarrow> (teletone_hit_type \<times> dtmf_state) option" where
  "teletone_dtmf_detect dd st samples = detect_loop dd (int (length samples)) st samples"

text \<open>\<^const>\<open>None\<close> is the return of 0; the digit and the duration are stored otherwise.\<close>

definition teletone_dtmf_get :: "dtmf_state \<Rightarrow> (char \<times> u32) option \<times> dtmf_state" where
  "teletone_dtmf_get st =
     (if digit st = NUL then (None, st)
      else (Some (digit st, word_of_int (dur st)), if zc st = 0 then st\<lparr>dur := 0, digit := NUL\<rparr> else st))"


section \<open>Multi-frequency detector\<close>

text \<open>A descriptor \<open>tdd\<close> is its factor.\<close>

record multi_tone =
  mt_sample_rate :: int
  tdd :: "rat list"
  gs :: "goertzel_state list"
  gs2 :: "goertzel_state list"
  tone_count :: int
  mt_energy :: rat
  mt_current_sample :: int
  min_samples :: int
  total_samples :: int
  positives :: int
  negatives :: int
  hits :: int
  positive_factor :: int
  negative_factor :: int
  hit_factor :: int

definition tone_fac :: "(rat \<Rightarrow> rat) \<Rightarrow> int \<Rightarrow> rat \<Rightarrow> rat" where
  "tone_fac c_cos sample_rate f =
     f32 (f64 (2 * c_cos (f32 (f64 (f64 (2 * M_PI) * f64 (f / f32 (of_int sample_rate)))))))"

definition overwrite :: "'a list \<Rightarrow> 'a list \<Rightarrow> 'a list" where
  "overwrite new old = new @ drop (length new) old"

definition multi_defaults :: "multi_tone \<Rightarrow> multi_tone" where
  "multi_defaults mt =
     (let mt = (if mt_sample_rate mt = 0 then mt\<lparr>mt_sample_rate := 8000\<rparr> else mt);
          mt = (if min_samples mt = 0 then mt\<lparr>min_samples := 102\<rparr> else mt);
          mt = mt\<lparr>min_samples := min_samples mt * cdivi (mt_sample_rate mt) 8000\<rparr>;
          mt = (if positive_factor mt = 0 then mt\<lparr>positive_factor := 2\<rparr> else mt);
          mt = (if negative_factor mt = 0 then mt\<lparr>negative_factor := 10\<rparr> else mt);
          mt = (if hit_factor mt = 0 then mt\<lparr>hit_factor := 2\<rparr> else mt)
      in mt)"

definition teletone_multi_tone_init :: "(rat \<Rightarrow> rat) \<Rightarrow> multi_tone \<Rightarrow> tone_map \<Rightarrow> multi_tone" where
  "teletone_multi_tone_init c_cos mt m =
     (let mt = multi_defaults mt;
          fs = takeWhile (\<lambda>f. trunc f \<noteq> 0) (take TELETONE_MAX_TONES m);
          facs = map (tone_fac c_cos (mt_sample_rate mt)) fs
      in mt\<lparr>tone_count := tone_count mt + int (length fs), tdd := overwrite facs (tdd mt),
            gs := overwrite (map goertzel_init facs) (gs mt), gs2 := overwrite (map goertzel_init facs) (gs2 mt)\<rparr>)"

definition tones_used :: "multi_tone \<Rightarrow> nat" where
  "tones_used mt = min TELETONE_MAX_TONES (nat (tone_count mt))"

definition on_used :: "multi_tone \<Rightarrow> ('a \<Rightarrow> 'a) \<Rightarrow> 'a list \<Rightarrow> 'a list" where
  "on_used mt f xs = map f (take (tones_used mt) xs) @ drop (tones_used mt) xs"

definition multi_sample :: "multi_tone \<Rightarrow> int \<Rightarrow> multi_tone" where
  "multi_sample mt s =
     (let famp = of_int s in
      mt\<lparr>mt_energy := f32 (mt_energy mt + f32 (famp * famp)),
         gs := on_used mt (goertzel_step famp) (gs mt), gs2 := on_used mt (goertzel_step famp) (gs2 mt)\<rparr>)"

definition multi_feed :: "multi_tone \<Rightarrow> int list \<Rightarrow> multi_tone" where
  "multi_feed mt samples = foldl multi_sample mt samples"

definition eng_all :: "multi_tone \<Rightarrow> rat list" where
  "eng_all mt = map (\<lambda>g. f32 (teletone_goertzel_result g)) (take (tones_used mt) (gs mt))"

definition gtest :: "multi_tone \<Rightarrow> nat" where
  "gtest mt = length (filter (\<lambda>x. teletone_goertzel_result (gs2 mt ! x) < eng_all mt ! x) [0..<tones_used mt])"

definition multi_hit :: "multi_tone \<Rightarrow> bool" where
  "multi_hit mt \<longleftrightarrow> (2 \<le> gtest mt \<or> int (gtest mt) = tone_count mt) \<and>
     foldl (\<lambda>s e. f32 (s + e)) 0 (eng_all mt) > f64 (42 * mt_energy mt)"

definition multi_score :: "multi_tone \<Rightarrow> int \<Rightarrow> int \<times> multi_tone" where
  "multi_score mt see_hit =
     (if multi_hit mt then
        (let mt = (if negatives mt \<noteq> 0 then mt\<lparr>negatives := negatives mt - 1\<rparr> else mt);
             mt = mt\<lparr>positives := positives mt + 1\<rparr>;
             mt = (if positives mt \<ge> positive_factor mt then mt\<lparr>hits := hits mt + 1\<rparr> else mt)
         in if hits mt \<ge> hit_factor mt then (see_hit + 1, mt\<lparr>positives := 0, negatives := 0, hits := 0\<rparr>) else (see_hit, mt))
      else
        (let mt = mt\<lparr>negatives := negatives mt + 1\<rparr>;
             mt = (if positives mt \<noteq> 0 then mt\<lparr>positives := positives mt - 1\<rparr> else mt)
         in (see_hit, if negatives mt > negative_factor mt then mt\<lparr>positives := 0, hits := 0\<rparr> else mt)))"

definition multi_reset :: "multi_tone \<Rightarrow> multi_tone" where
  "multi_reset mt =
     (let n = tones_used mt; fresh = map goertzel_init (take n (tdd mt)) in
      mt\<lparr>gs := overwrite fresh (gs mt), gs2 := overwrite fresh (gs2 mt), mt_energy := 0, mt_current_sample := 0\<rparr>)"

partial_function (option) multi_loop :: "int list \<Rightarrow> int \<Rightarrow> int \<Rightarrow> multi_tone \<Rightarrow> (int \<times> multi_tone) option" where
  "multi_loop buf sample see_hit mt =
     (if 0 \<le> sample \<and> sample < int (length buf) then
        (let mt = mt\<lparr>total_samples := total_samples mt + 1\<rparr>;
             need = min_samples mt - mt_current_sample mt;
             limit = (if int (length buf) - sample \<ge> need then sample + need else int (length buf));
             limit = (if limit < 0 \<or> limit > int (length buf) then int (length buf) else limit);
             mt = multi_feed mt (take (nat (limit - sample)) (drop (nat sample) buf));
             mt = mt\<lparr>mt_current_sample := mt_current_sample mt + (limit - sample)\<rparr>
         in if mt_current_sample mt < min_samples mt then multi_loop buf limit see_hit mt
            else case multi_score mt see_hit of (see_hit, mt) \<Rightarrow> multi_loop buf limit see_hit (multi_reset mt))
      else Some (see_hit, mt))"

definition teletone_multi_tone_detect :: "multi_tone \<Rightarrow> int list \<Rightarrow> (int \<times> multi_tone) option" where
  "teletone_multi_tone_detect mt buf = multi_loop buf 0 0 mt"

section \<open>The phases of a digit\<close>

datatype phase = Idle | Active nat | Pending

definition phase_of :: "dtmf_state \<Rightarrow> phase" where
  "phase_of st = (if zc st > 0 then Active (nat (zc st)) else if digit st \<noteq> NUL then Pending else Idle)"

text \<open>What a call may report, and the phase it leaves.\<close>

inductive report :: "phase \<Rightarrow> teletone_hit_type \<Rightarrow> phase \<Rightarrow> bool" where
  nothing: "report Idle TT_HIT_NONE Idle"
| begins: "report Idle TT_HIT_BEGIN (Active 2)"
| goes_on: "report (Active (Suc n)) TT_HIT_MIDDLE (Active (Suc n))"
| fades: "report (Active (Suc (Suc n))) TT_HIT_MIDDLE (Active (Suc n))"
| ends: "report (Active 1) TT_HIT_END Pending"
| waits: "report Pending TT_HIT_END Pending"

definition dtmf_ok :: "dtmf_state \<Rightarrow> bool" where
  "dtmf_ok st \<longleftrightarrow> 0 \<le> current_sample st \<and> current_sample st \<le> BLOCK_LEN \<and> 0 \<le> zc st \<and> zc st \<le> ZC \<and>
     (zc st < ZC \<longrightarrow> current_sample st < BLOCK_LEN) \<and> (0 < zc st \<longrightarrow> digit st \<noteq> NUL) \<and>
     current_digits st < TELETONE_MAX_DTMF_DIGITS"

lemma peak_less: "peak es < 4"
  by (simp add: peak_def GRID_FACTOR_def upt_rec)

lemma block_key_less: "block_key st = Some k \<Longrightarrow> k < 16"
  using peak_less[of "map (\<lambda>g. f32 (teletone_goertzel_result g)) (row_out st)"]
    peak_less[of "map (\<lambda>g. f32 (teletone_goertzel_result g)) (col_out st)"]
  by (auto simp: block_key_def Let_def split: if_splits)

lemma positions_not_nul: "k < 16 \<Longrightarrow> dtmf_positions ! k \<noteq> NUL"
proof -
  have "list_all (\<lambda>c. c \<noteq> NUL) dtmf_positions" "length dtmf_positions = 16" by (simp_all add: dtmf_positions_def)
  then show "k < 16 \<Longrightarrow> dtmf_positions ! k \<noteq> NUL" by (simp add: list_all_length)
qed

definition quiet_idle :: "dtmf_state \<Rightarrow> bool" where
  "quiet_idle st \<longleftrightarrow> zc st = 0 \<and> digit st = NUL \<and> 0 \<le> current_sample st \<and> current_sample st \<le> BLOCK_LEN \<and>
     current_digits st < TELETONE_MAX_DTMF_DIGITS"

lemma end_of_block_idle:
  assumes "quiet_idle st" "end_of_block st = (b, st')"
  shows "\<not> b \<Longrightarrow> quiet_idle st' \<and> current_sample st' = 0"
    and "b \<Longrightarrow> zc st' = ZC \<and> digit st' \<noteq> NUL \<and> current_sample st' = current_sample st \<and> current_digits st' = current_digits st"
  using assms positions_not_nul block_key_less
  by (auto simp: quiet_idle_def end_of_block_def Let_def BLOCK_LEN_def split: option.splits if_splits)

text \<open>One round of the loop while no digit is open.\<close>

definition portion :: "dtmf_state \<Rightarrow> int list \<Rightarrow> nat" where
  "portion st xs = min (length xs) (nat (BLOCK_LEN - current_sample st))"

definition fed :: "dtmf_state \<Rightarrow> int list \<Rightarrow> dtmf_state" where
  "fed st xs = (feed st xs)\<lparr>current_sample := current_sample st + int (length xs)\<rparr>"

lemma detect_loop_idle_step:
  assumes "quiet_idle st" "xs \<noteq> []"
  shows "detect_loop dd n st xs =
    (let rest = drop (portion st xs) xs; st = fed st (take (portion st xs) xs) in
     if current_sample st < BLOCK_LEN then detect_loop dd n st rest
     else case end_of_block st of (begin, st) \<Rightarrow>
       if begin then Some (TT_HIT_BEGIN, st) else detect_loop dd n st rest)"
proof -
  have "(if int (length xs) \<ge> BLOCK_LEN - current_sample st then nat (BLOCK_LEN - current_sample st) else length xs) = portion st xs"
    by (simp add: portion_def)
  moreover have "\<not> BLOCK_LEN < current_sample st" "\<not> 0 < zc st" "digit st = NUL"
    using assms(1) by (simp_all add: quiet_idle_def)
  moreover have "length (take (portion st xs) xs) = portion st xs" by (simp add: portion_def)
  ultimately show ?thesis
    using assms(2) by (subst detect_loop.simps) (simp only: Let_def fed_def feed_keeps if_False simp_thms list.distinct)
qed

lemma quiet_idle_fed:
  "quiet_idle st \<Longrightarrow> quiet_idle (fed st (take (portion st xs) xs))"
  by (auto simp: quiet_idle_def fed_def portion_def)

lemma detect_loop_idle:
  assumes "quiet_idle st"
  shows "\<exists>r st'. detect_loop dd n st xs = Some (r, st') \<and>
    (r = TT_HIT_NONE \<and> quiet_idle st' \<and> (current_sample st < BLOCK_LEN \<or> xs \<noteq> [] \<longrightarrow> current_sample st' < BLOCK_LEN) \<or>
     r = TT_HIT_BEGIN \<and> zc st' = ZC \<and> digit st' \<noteq> NUL \<and> current_sample st' = BLOCK_LEN \<and> current_digits st' < TELETONE_MAX_DTMF_DIGITS)"
  using assms
proof (induction "2 * length xs + (if current_sample st < BLOCK_LEN then 0 else 1)" arbitrary: xs st rule: less_induct)
  case less
  show ?case
  proof (cases "xs = []")
    case True
    then show ?thesis using less.prems by (simp add: detect_loop.simps)
  next
    case False
    define s1 where "s1 = fed st (take (portion st xs) xs)"
    have s1: "quiet_idle s1" unfolding s1_def by (rule quiet_idle_fed) fact
    note step = detect_loop_idle_step[OF less.prems False, of dd n, folded s1_def, unfolded Let_def]
    show ?thesis
    proof (cases "current_sample s1 < BLOCK_LEN")
      case True
      then have "0 < portion st xs"
        using less.prems False by (auto simp: s1_def fed_def portion_def quiet_idle_def)
      then have m: "2 * length (drop (portion st xs) xs) + (if current_sample s1 < BLOCK_LEN then 0 else 1) <
          2 * length xs + (if current_sample st < BLOCK_LEN then 0 else 1)"
        using False True by (cases xs) auto
      have "detect_loop dd n st xs = detect_loop dd n s1 (drop (portion st xs) xs)" using step True by simp
      then show ?thesis using less.hyps[OF m s1] True by auto
    next
      case end': False
      obtain b s2 where b: "end_of_block s1 = (b, s2)" by fastforce
      note e = end_of_block_idle[OF s1 b]
      show ?thesis
      proof (cases b)
        case True
        then show ?thesis using step end' b e(2) s1 by (auto simp: quiet_idle_def)
      next
        case nb: False
        have s2: "quiet_idle s2" "current_sample s2 = 0" using e(1) nb by auto
        have "portion st xs = 0 \<Longrightarrow> \<not> current_sample st < BLOCK_LEN" using False by (simp add: portion_def min_def split: if_splits)
        then have m: "2 * length (drop (portion st xs) xs) + (if current_sample s2 < BLOCK_LEN then 0 else 1) <
            2 * length xs + (if current_sample st < BLOCK_LEN then 0 else 1)"
          using False s2(2) by (cases "portion st xs = 0"; cases xs) (auto simp: BLOCK_LEN_def)
        have "detect_loop dd n st xs = detect_loop dd n s2 (drop (portion st xs) xs)" using step end' b nb by simp
        then show ?thesis using less.hyps[OF m s2(1)] s2(2) by (auto simp: BLOCK_LEN_def)
      qed
    qed
  qed
qed


lemma dtmf_ok_idle: "dtmf_ok st \<Longrightarrow> phase_of st = Idle \<longleftrightarrow> quiet_idle st"
  by (auto simp: dtmf_ok_def phase_of_def quiet_idle_def)

text \<open>A call while a tone is active.\<close>

lemma detect_active:
  assumes "0 < zc st" "current_sample st \<le> BLOCK_LEN" "samples \<noteq> []"
  obtains k where "teletone_dtmf_detect dd st samples =
    (let s1 = feed st (take k samples); low = energy s1 < LOW_ENG \<and> lenergy s1 < LOW_ENG; s2 = (if low then s1\<lparr>zc := zc s1 - 1\<rparr> else s1)
     in if low \<and> zc s2 = 0
        then Some (TT_HIT_END, (reinit_filters dd (s2\<lparr>hit1 := NUL, hit2 := NUL\<rparr>))\<lparr>dur := dur s2 - int (length samples)\<rparr>)
        else Some (TT_HIT_MIDDLE, s2\<lparr>dur := dur s2 + int (length samples), lenergy := energy s2, energy := 0, current_sample := 0\<rparr>))"
proof -
  define k where "k = (if int (length samples) \<ge> BLOCK_LEN - current_sample st
    then nat (BLOCK_LEN - current_sample st) else length samples)"
  have "\<not> BLOCK_LEN < current_sample st" using assms(2) by simp
  with assms(1,3) show thesis
    by (intro that[of k], unfold teletone_dtmf_detect_def, subst detect_loop.simps)
      (simp only: Let_def k_def[symmetric] if_True if_False simp_thms feed_keeps)
qed

lemma detect_call:
  assumes "dtmf_ok st" "samples \<noteq> []"
  shows "\<exists>r st'. teletone_dtmf_detect dd st samples = Some (r, st') \<and> report (phase_of st) r (phase_of st') \<and> dtmf_ok st'"
proof (cases "phase_of st")
  case Idle
  then have idle: "quiet_idle st" using assms(1) dtmf_ok_idle by blast
  have cs: "current_sample st < BLOCK_LEN" using assms(1) idle by (simp add: dtmf_ok_def quiet_idle_def ZC_def)
  obtain r st' where d: "detect_loop dd (int (length samples)) st samples = Some (r, st')"
    "r = TT_HIT_NONE \<and> quiet_idle st' \<and> current_sample st' < BLOCK_LEN \<or>
     r = TT_HIT_BEGIN \<and> zc st' = ZC \<and> digit st' \<noteq> NUL \<and> current_sample st' = BLOCK_LEN \<and> current_digits st' < TELETONE_MAX_DTMF_DIGITS"
    using detect_loop_idle[OF idle, of dd "int (length samples)" samples] assms(2) by blast
  then show ?thesis using Idle
    by (auto simp: teletone_dtmf_detect_def phase_of_def dtmf_ok_def quiet_idle_def ZC_def BLOCK_LEN_def intro: report.intros)
next
  case (Active k)
  then have z: "0 < zc st" "k = nat (zc st)" by (auto simp: phase_of_def split: if_splits)
  have ok: "digit st \<noteq> NUL" "zc st = 1 \<or> zc st = 2" "current_sample st \<le> BLOCK_LEN" "0 \<le> current_sample st" "zc st = 1 \<longrightarrow> current_sample st < BLOCK_LEN"
    "current_digits st < TELETONE_MAX_DTMF_DIGITS"
    using assms(1) z by (auto simp: dtmf_ok_def ZC_def)
  obtain k where step: "teletone_dtmf_detect dd st samples =
    (let s1 = feed st (take k samples); low = energy s1 < LOW_ENG \<and> lenergy s1 < LOW_ENG; s2 = (if low then s1\<lparr>zc := zc s1 - 1\<rparr> else s1)
     in if low \<and> zc s2 = 0
        then Some (TT_HIT_END, (reinit_filters dd (s2\<lparr>hit1 := NUL, hit2 := NUL\<rparr>))\<lparr>dur := dur s2 - int (length samples)\<rparr>)
        else Some (TT_HIT_MIDDLE, s2\<lparr>dur := dur s2 + int (length samples), lenergy := energy s2, energy := 0, current_sample := 0\<rparr>))"
    by (rule detect_active[OF z(1) ok(3) assms(2)])
  have two: "Suc (Suc 0) = 2" "nat 2 = Suc (Suc 0)" "nat 1 = Suc 0" by simp_all
  show ?thesis
    using ok(2)
  proof
    assume "zc st = 1"
    then show ?thesis unfolding step Active z(2) using ok report.ends report.goes_on[of 0]
      by (auto simp: Let_def phase_of_def dtmf_ok_def ZC_def BLOCK_LEN_def reinit_filters_def)
  next
    assume "zc st = 2"
    then show ?thesis unfolding step Active z(2) using ok report.fades[of 0] report.goes_on[of 1]
      by (auto simp: Let_def phase_of_def dtmf_ok_def ZC_def BLOCK_LEN_def reinit_filters_def two)
  qed
next
  case Pending
  then have "zc st \<le> 0" "digit st \<noteq> NUL" by (auto simp: phase_of_def split: if_splits)
  then show ?thesis using assms Pending
    unfolding teletone_dtmf_detect_def by (subst detect_loop.simps) (auto simp: Let_def dtmf_ok_def phase_of_def intro: report.intros)
qed


text \<open>
  C4: Every call of \<^verbatim>\<open>teletone_dtmf_detect\<close> on a non-empty buffer returns, keeps the state
  consistent and is a step of the abstract automaton of a digit: nothing or a begin while
  idle, then only middles while the tone is active, an end when it has faded, and ends until
  the digit is fetched.
\<close>

theorem dtmf_detect_refines:
  assumes "dtmf_ok st" "samples \<noteq> []"
  shows "\<exists>r st'. teletone_dtmf_detect dd st samples = Some (r, st') \<and> report (phase_of st) r (phase_of st') \<and> dtmf_ok st'"
  by (rule detect_call[OF assms])

definition no_descs :: dtmf_descs where
  "no_descs = \<lparr>dtmf_detect_row = [], dtmf_detect_col = [], dtmf_detect_row_2nd = [], dtmf_detect_col_2nd = []\<rparr>"

definition fresh_dtmf :: dtmf_state where
  "fresh_dtmf = \<lparr>hit1 = NUL, hit2 = NUL, hit3 = NUL, hit4 = NUL, dur = 0, zc = 0, row_out = [], col_out = [],
     row_out2nd = [], col_out2nd = [], energy = 0, lenergy = 0, current_sample = 0, digit = NUL, current_digits = 0,
     detected_digits = 0, lost_digits = 0, digit_hits = replicate 16 0\<rparr>"

lemma dtmf_ok_init:
  "zc st = 0 \<Longrightarrow> current_digits st = 0 \<Longrightarrow> teletone_dtmf_detect_init c_cos st rate = (st', dd) \<Longrightarrow> dtmf_ok st' \<and> phase_of st' = Idle"
  by (auto simp: teletone_dtmf_detect_init_def Let_def dtmf_ok_def phase_of_def reinit_filters_def BLOCK_LEN_def ZC_def TELETONE_MAX_DTMF_DIGITS_def)

theorem dtmf_detect_refines_witness:
  "\<exists>r st'. teletone_dtmf_detect no_descs (fst (teletone_dtmf_detect_init (\<lambda>_. 1) fresh_dtmf 8000)) [100, -100] = Some (r, st') \<and> dtmf_ok st'"
proof -
  have "dtmf_ok (fst (teletone_dtmf_detect_init (\<lambda>_. 1) fresh_dtmf 8000))"
    using dtmf_ok_init[of fresh_dtmf "\<lambda>_. 1" 8000] by (cases "teletone_dtmf_detect_init (\<lambda>_. 1) fresh_dtmf 8000") (simp add: fresh_dtmf_def)
  from dtmf_detect_refines[OF this, of "[100, -100]" no_descs] show ?thesis by auto
qed

section \<open>Independence of the chunks\<close>

lemma feed_current: "feed (st\<lparr>current_sample := c\<rparr>) xs = (feed st xs)\<lparr>current_sample := c\<rparr>"
proof -
  have "feed_sample (st\<lparr>current_sample := c\<rparr>) s = (feed_sample st s)\<lparr>current_sample := c\<rparr>" for st s
    by (simp add: feed_sample_def Let_def)
  then show ?thesis by (induction xs arbitrary: st) (simp_all add: feed_def)
qed

lemma fed_append: "fed (fed st xs) ys = fed st (xs @ ys)"
  by (simp add: fed_def feed_current) (simp add: feed_def)

lemma fed_Nil [simp]: "fed st [] = st"
  by (simp add: fed_def feed_def)

lemma portion_append:
  "portion st xs = nat (BLOCK_LEN - current_sample st) \<Longrightarrow> portion st (xs @ ys) = portion st xs"
  by (auto simp: portion_def)

lemma detect_loop_fed:
  assumes "quiet_idle st" "current_sample st + int (length xs) < BLOCK_LEN"
  shows "detect_loop dd n st (xs @ ys) = detect_loop dd n (fed st xs) ys"
proof -
  have f: "quiet_idle (fed st xs)" using assms by (auto simp: quiet_idle_def fed_def)
  consider "xs = []" | "ys = []" "xs \<noteq> []" | "ys \<noteq> []" by blast
  then show ?thesis
  proof cases
    case 2
    have "portion st xs = length xs" using assms(2) by (simp add: portion_def)
    then show ?thesis using 2 detect_loop_idle_step[OF assms(1), of xs dd n] assms(2) by (simp add: fed_def)
  next
    case 3
    have p: "portion st (xs @ ys) = length xs + portion (fed st xs) ys"
      using assms by (auto simp: portion_def fed_def quiet_idle_def)
    show ?thesis
      using 3 detect_loop_idle_step[OF assms(1), of "xs @ ys" dd n] detect_loop_idle_step[OF f, of ys dd n]
      by (simp add: p fed_append)
  qed simp
qed

lemma detect_loop_append:
  assumes "quiet_idle st"
  shows "detect_loop dd n st (xs @ ys) =
    (case detect_loop dd m st xs of Some (TT_HIT_NONE, st') \<Rightarrow> detect_loop dd n st' ys | r \<Rightarrow> r)"
  using assms
proof (induction "2 * length xs + (if current_sample st < BLOCK_LEN then 0 else 1)" arbitrary: xs st rule: less_induct)
  case less
  show ?case
  proof (cases "xs = []")
    case True
    then show ?thesis by (simp add: detect_loop.simps[of dd m st "[]"])
  next
    case ne: False
    define s1 where "s1 = fed st (take (portion st xs) xs)"
    note step = detect_loop_idle_step[OF less.prems ne, of dd m, folded s1_def, unfolded Let_def]
    have s1: "quiet_idle s1" unfolding s1_def by (rule quiet_idle_fed) fact
    show ?thesis
    proof (cases "current_sample s1 < BLOCK_LEN")
      case True
      then have all: "portion st xs = length xs" "current_sample st + int (length xs) < BLOCK_LEN"
        by (auto simp: s1_def fed_def portion_def min_def split: if_splits)
      then have "detect_loop dd m st xs = Some (TT_HIT_NONE, fed st xs)"
        using step True by (simp add: detect_loop.simps[of dd m s1 "[]"]) (simp add: s1_def)
      then show ?thesis using detect_loop_fed[OF less.prems all(2)] by simp
    next
      case full: False
      then have p: "portion st xs = nat (BLOCK_LEN - current_sample st)" "portion st xs \<le> length xs"
        by (auto simp: s1_def fed_def portion_def min_def split: if_splits)
      have s1': "fed st (take (portion st (xs @ ys)) (xs @ ys)) = s1" "drop (portion st (xs @ ys)) (xs @ ys) = drop (portion st xs) xs @ ys"
        using p portion_append[OF p(1), of ys] by (simp_all add: s1_def)
      have step': "detect_loop dd n st (xs @ ys) = (case end_of_block s1 of (b, s2) \<Rightarrow>
          if b then Some (TT_HIT_BEGIN, s2) else detect_loop dd n s2 (drop (portion st xs) xs @ ys))"
      proof -
        have "xs @ ys \<noteq> []" using ne by simp
        from detect_loop_idle_step[OF less.prems this, of dd n] full show ?thesis unfolding s1' Let_def by simp
      qed
      obtain b s2 where b: "end_of_block s1 = (b, s2)" by fastforce
      show ?thesis
      proof (cases b)
        case True
        then show ?thesis using step step' full b by simp
      next
        case nb: False
        have s2: "quiet_idle s2" "current_sample s2 = 0" using end_of_block_idle(1)[OF s1 b] nb by auto
        have "portion st xs = 0 \<Longrightarrow> \<not> current_sample st < BLOCK_LEN"
          using ne by (simp add: portion_def min_def split: if_splits)
        then have mm: "2 * length (drop (portion st xs) xs) + (if current_sample s2 < BLOCK_LEN then 0 else 1) <
            2 * length xs + (if current_sample st < BLOCK_LEN then 0 else 1)"
          using ne s2(2) by (cases "portion st xs = 0"; cases xs) (auto simp: BLOCK_LEN_def)
        show ?thesis using step step' full b nb less.hyps[OF mm s2(1)] by simp
      qed
    qed
  qed
qed

text \<open>
  C33: While no digit is open, the detector does not depend on how the stream of samples is
  cut into buffers: a call on a buffer is the call on its first part, followed, unless that
  one reports the begin of a digit, by the call on the rest.
\<close>

theorem dtmf_detect_chunks:
  assumes "dtmf_ok st" "phase_of st = Idle"
  shows "teletone_dtmf_detect dd st (xs @ ys) =
    (case teletone_dtmf_detect dd st xs of
       Some (TT_HIT_NONE, st') \<Rightarrow> teletone_dtmf_detect dd st' ys
     | r \<Rightarrow> r)"
proof -
  have idle: "quiet_idle st" using assms dtmf_ok_idle by blast
  note cut = detect_loop_append[OF idle, of dd "int (length (xs @ ys))" xs ys "int (length xs)"]
  have same: "quiet_idle t \<Longrightarrow> detect_loop dd n t ys = detect_loop dd m t ys" for t n m
    using detect_loop_append[of t dd n ys "[]" m] detect_loop_idle[of t dd m ys]
    by (auto simp: detect_loop.simps[of dd n _ "[]"])
  from detect_loop_idle[OF idle, of dd "int (length xs)" xs] cut show ?thesis
    unfolding teletone_dtmf_detect_def using same by auto
qed

theorem dtmf_detect_chunks_witness:
  "teletone_dtmf_detect no_descs fresh_dtmf ([1, 2] @ [3]) =
    (case teletone_dtmf_detect no_descs fresh_dtmf [1, 2] of
       Some (TT_HIT_NONE, st') \<Rightarrow> teletone_dtmf_detect no_descs st' [3] | r \<Rightarrow> r)"
  by (rule dtmf_detect_chunks)
    (simp_all add: fresh_dtmf_def dtmf_ok_def phase_of_def BLOCK_LEN_def ZC_def TELETONE_MAX_DTMF_DIGITS_def)

section \<open>The end of a digit\<close>

definition silent :: "int list \<Rightarrow> bool" where
  "silent xs \<longleftrightarrow> xs \<noteq> [] \<and> set xs \<subseteq> {0}"

lemma feed_silent: "set xs \<subseteq> {0} \<Longrightarrow> energy st = 0 \<Longrightarrow> energy (feed st xs) = 0"
  by (induction xs arbitrary: st) (auto simp: feed_def feed_sample_def Let_def)

fun detect_calls :: "dtmf_descs \<Rightarrow> dtmf_state \<Rightarrow> int list list \<Rightarrow> (teletone_hit_type list \<times> dtmf_state) option" where
  "detect_calls dd st [] = Some ([], st)"
| "detect_calls dd st (b # bs) =
     (case teletone_dtmf_detect dd st b of
        None \<Rightarrow> None
      | Some (r, st) \<Rightarrow> map_option (\<lambda>(rs, st). (r # rs, st)) (detect_calls dd st bs))"

text \<open>How many silent buffers an active digit can still take.\<close>

definition silence_rank :: "dtmf_state \<Rightarrow> nat" where
  "silence_rank st =
     (if zc st > 0 then nat (zc st) + (if energy st \<noteq> 0 then 2 else if lenergy st < LOW_ENG then 0 else 1) else 0)"

lemma silent_call:
  assumes "dtmf_ok st" "silent b" "0 < zc st" "teletone_dtmf_detect dd st b = Some (r, st')"
  shows "silence_rank st' < silence_rank st" "r = TT_HIT_END \<longleftrightarrow> zc st' = 0"
proof -
  have b: "b \<noteq> []" "current_sample st \<le> BLOCK_LEN" "\<And>k. set (take k b) \<subseteq> {0}"
    using assms(1,2) by (auto simp: silent_def dtmf_ok_def dest: in_set_takeD)
  obtain k where step: "teletone_dtmf_detect dd st b =
    (let s1 = feed st (take k b); low = energy s1 < LOW_ENG \<and> lenergy s1 < LOW_ENG; s2 = (if low then s1\<lparr>zc := zc s1 - 1\<rparr> else s1)
     in if low \<and> zc s2 = 0
        then Some (TT_HIT_END, (reinit_filters dd (s2\<lparr>hit1 := NUL, hit2 := NUL\<rparr>))\<lparr>dur := dur s2 - int (length b)\<rparr>)
        else Some (TT_HIT_MIDDLE, s2\<lparr>dur := dur s2 + int (length b), lenergy := energy s2, energy := 0, current_sample := 0\<rparr>))"
    by (rule detect_active[OF assms(3) b(2,1)])
  have e: "energy st = 0 \<Longrightarrow> energy (feed st (take k b)) = 0" by (rule feed_silent[OF b(3)])
  show "r = TT_HIT_END \<longleftrightarrow> zc st' = 0"
    using step assms(3,4) by (auto simp: Let_def reinit_filters_def split: if_splits)
  have "LOW_ENG > 0" by (simp add: LOW_ENG_def)
  then show "silence_rank st' < silence_rank st"
    using step assms(3,4) e by (auto simp: Let_def silence_rank_def reinit_filters_def split: if_splits)
qed

lemma silent_calls:
  assumes "dtmf_ok st" "list_all silent bs" "silence_rank st \<le> length bs" "phase_of st \<noteq> Idle" "bs \<noteq> []"
  shows "\<exists>rs st'. detect_calls dd st bs = Some (rs, st') \<and> last rs = TT_HIT_END \<and> phase_of st' = Pending \<and> dtmf_ok st'"
  using assms
proof (induction bs arbitrary: st)
  case (Cons b bs)
  have b: "silent b" "b \<noteq> []" using Cons.prems(2) by (auto simp: silent_def)
  obtain r s1 where d: "teletone_dtmf_detect dd st b = Some (r, s1)" "report (phase_of st) r (phase_of s1)" "dtmf_ok s1"
    using detect_call[OF Cons.prems(1) b(2)] by blast
  have e: "r = TT_HIT_END \<and> phase_of s1 = Pending \<or> 0 < zc st \<and> silence_rank s1 < silence_rank st \<and> 0 < zc s1 \<and> phase_of s1 \<noteq> Idle"
  proof (cases "0 < zc st")
    case True
    note q = silent_call[OF Cons.prems(1) b(1) True d(1)]
    show ?thesis
    proof (cases "zc s1 = 0")
      case True
      then show ?thesis using q d(2) by (auto elim: report.cases)
    next
      case False
      then have "0 < zc s1" using d(3) by (simp add: dtmf_ok_def)
      then show ?thesis using q True by (auto simp: phase_of_def)
    qed
  next
    case False
    then have "phase_of st = Pending" using Cons.prems(4) by (auto simp: phase_of_def split: if_splits)
    then show ?thesis using d(2) by (auto elim: report.cases)
  qed
  show ?case
  proof (cases "bs = []")
    case True
    have "0 < zc s1 \<Longrightarrow> 0 < silence_rank s1" by (simp add: silence_rank_def)
    then show ?thesis using e d Cons.prems(3) True by auto
  next
    case False
    have "silence_rank s1 \<le> length bs"
      using e Cons.prems(3) by (auto simp: silence_rank_def phase_of_def split: if_splits)
    moreover have "phase_of s1 \<noteq> Idle" using e by auto
    ultimately obtain rs st' where "detect_calls dd s1 bs = Some (rs, st')" "last rs = TT_HIT_END" "phase_of st' = Pending" "dtmf_ok st'"
      using Cons.IH[OF d(3)] Cons.prems(2) False by auto
    then show ?thesis using d(1) False by (cases rs; cases bs) (auto split: if_splits option.splits)
  qed
qed simp

lemma silence_rank_le: "dtmf_ok st \<Longrightarrow> silence_rank st \<le> 4"
  by (auto simp: silence_rank_def dtmf_ok_def ZC_def)

text \<open>
  C34: The end of a digit is reported: once a digit has begun, at the latest the fourth
  silent buffer of any lengths brings \<^verbatim>\<open>TT_HIT_END\<close>, and the digit is then pending.
\<close>

theorem dtmf_end_reported:
  assumes "dtmf_ok st" "phase_of st \<noteq> Idle" "list_all silent bufs" "4 \<le> length bufs"
  shows "\<exists>rs st'. detect_calls dd st bufs = Some (rs, st') \<and> last rs = TT_HIT_END \<and> phase_of st' = Pending \<and> dtmf_ok st'"
  using silence_rank_le[OF assms(1)] assms by (intro silent_calls) auto

theorem dtmf_end_reported_witness:
  "\<exists>rs st'. detect_calls no_descs (fresh_dtmf\<lparr>zc := 2, digit := CHR ''5'', energy := 20000000\<rparr>) [[0], [0, 0], [0], [0]] = Some (rs, st') \<and>
     last rs = TT_HIT_END"
proof -
  have "dtmf_ok (fresh_dtmf\<lparr>zc := 2, digit := CHR ''5'', energy := 20000000\<rparr>)"
    by (simp add: fresh_dtmf_def dtmf_ok_def BLOCK_LEN_def ZC_def TELETONE_MAX_DTMF_DIGITS_def)
  moreover have "phase_of (fresh_dtmf\<lparr>zc := 2, digit := CHR ''5'', energy := 20000000\<rparr>) \<noteq> Idle" by (simp add: phase_of_def)
  ultimately show ?thesis
    using dtmf_end_reported[of "fresh_dtmf\<lparr>zc := 2, digit := CHR ''5'', energy := 20000000\<rparr>" "[[0], [0, 0], [0], [0]]" no_descs]
    by (auto simp: silent_def simp del: detect_calls.simps)
qed

section \<open>The second filter and the minimal block of the multi-frequency detector\<close>

lemma cdivi_small: "0 \<le> a \<Longrightarrow> a < b \<Longrightarrow> cdivi a b = 0"
  by (cases "a = 0") (simp_all add: cdivi_def)

lemma multi_loop_stuck:
  assumes "min_samples mt = 0" "mt_current_sample mt = 0" "0 \<le> sample" "sample < int (length buf)"
  shows "multi_loop buf sample see_hit mt = None"
proof (rule ccontr)
  assume "multi_loop buf sample see_hit mt \<noteq> None"
  then obtain y where "multi_loop buf sample see_hit mt = Some y" by auto
  moreover have "multi_loop b s h m = Some y \<Longrightarrow> \<not> (b = buf \<and> s = sample \<and> min_samples m = 0 \<and> mt_current_sample m = 0)" for b s h m y
  proof (induction rule: multi_loop.raw_induct[rotated, consumes 1])
    case (1 ml b s h m y)
    show ?case
    proof
      assume e: "b = buf \<and> s = sample \<and> min_samples m = 0 \<and> mt_current_sample m = 0"
      obtain h' m' where sc: "multi_score (m\<lparr>total_samples := total_samples m + 1\<rparr>) h = (h', m')" by fastforce
      have m': "min_samples m' = 0"
        using sc e by (auto simp: multi_score_def Let_def split: if_splits)
      then have r: "min_samples (multi_reset m') = 0" "mt_current_sample (multi_reset m') = 0" by (simp_all add: multi_reset_def Let_def)
      have "ml buf sample h' (multi_reset m') = Some y"
        using 1(2) e assms(3,4) sc by (simp add: multi_feed_def)
      then show False using 1(1) r by blast
    qed
  qed
  ultimately show False using assms by blast
qed

lemma multi_defaults_keeps [simp]:
  "gs (multi_defaults mt) = gs mt" "gs2 (multi_defaults mt) = gs2 mt" "tone_count (multi_defaults mt) = tone_count mt"
  "mt_current_sample (multi_defaults mt) = mt_current_sample mt"
  by (simp_all add: multi_defaults_def Let_def)

lemma multi_defaults_low:
  "0 < mt_sample_rate mt \<Longrightarrow> mt_sample_rate mt < 8000 \<Longrightarrow> min_samples (multi_defaults mt) = 0"
  by (simp add: multi_defaults_def Let_def cdivi_small)

text \<open>
  C36: With a sample rate below 8000 the initialisation scales the size of a block to 0
  samples, and then the detection of a non-empty buffer never returns: the loop makes no
  progress.
\<close>

theorem multi_tone_low_rate_hangs:
  assumes "0 < mt_sample_rate mt" "mt_sample_rate mt < 8000" "mt_current_sample mt = 0" "buf \<noteq> []"
  shows "teletone_multi_tone_detect (teletone_multi_tone_init c_cos mt m) buf = None"
  unfolding teletone_multi_tone_detect_def
  by (rule multi_loop_stuck) (use assms in \<open>simp_all add: teletone_multi_tone_init_def Let_def multi_defaults_low\<close>)

definition sample_multi :: multi_tone where
  "sample_multi = \<lparr>mt_sample_rate = 6000, tdd = replicate 18 0, gs = replicate 18 (goertzel_init 0), gs2 = replicate 18 (goertzel_init 0),
     tone_count = 0, mt_energy = 0, mt_current_sample = 0, min_samples = 0, total_samples = 0, positives = 0, negatives = 0, hits = 0,
     positive_factor = 0, negative_factor = 0, hit_factor = 0\<rparr>"

theorem multi_tone_low_rate_hangs_witness:
  "teletone_multi_tone_detect (teletone_multi_tone_init (\<lambda>_. 1) sample_multi [440, 480, 0]) [1, 2] = None"
  by (rule multi_tone_low_rate_hangs) (simp_all add: sample_multi_def)

definition synced :: "multi_tone \<Rightarrow> bool" where
  "synced mt \<longleftrightarrow> length (gs mt) = TELETONE_MAX_TONES \<and> length (gs2 mt) = TELETONE_MAX_TONES \<and>
     take (tones_used mt) (gs mt) = take (tones_used mt) (gs2 mt)"

lemma tones_used_le: "tones_used mt \<le> TELETONE_MAX_TONES"
  by (simp add: tones_used_def)

lemma take_on_used: "length xs = TELETONE_MAX_TONES \<Longrightarrow> take (tones_used mt) (on_used mt f xs) = map f (take (tones_used mt) xs)"
  using tones_used_le[of mt] by (simp add: on_used_def)

lemma length_on_used [simp]: "length (on_used mt f xs) = length xs"
  by (simp add: on_used_def)

lemma multi_feed_synced: "synced mt \<Longrightarrow> synced (multi_feed mt xs)"
proof (induction xs arbitrary: mt)
  case (Cons x xs)
  have "tones_used (multi_sample mt x) = tones_used mt" by (simp add: multi_sample_def tones_used_def Let_def)
  with Cons.prems have "synced (multi_sample mt x)"
    by (simp add: synced_def multi_sample_def take_on_used Let_def)
  then show ?case using Cons.IH[of "multi_sample mt x"] by (simp add: multi_feed_def)
qed (simp add: multi_feed_def)

lemma multi_init_filters:
  obtains facs where "length facs \<le> TELETONE_MAX_TONES"
    "gs (teletone_multi_tone_init c_cos mt m) = overwrite (map goertzel_init facs) (gs mt)"
    "gs2 (teletone_multi_tone_init c_cos mt m) = overwrite (map goertzel_init facs) (gs2 mt)"
    "tone_count (teletone_multi_tone_init c_cos mt m) = tone_count mt + int (length facs)"
proof -
  define fs where "fs = takeWhile (\<lambda>f. trunc f \<noteq> 0) (take TELETONE_MAX_TONES m)"
  have "length fs \<le> TELETONE_MAX_TONES"
    unfolding fs_def using length_takeWhile_le[of "\<lambda>f. trunc f \<noteq> 0" "take TELETONE_MAX_TONES m"] by simp
  then show thesis
    by (intro that[of "map (tone_fac c_cos (mt_sample_rate (multi_defaults mt))) fs"])
      (simp_all add: teletone_multi_tone_init_def Let_def fs_def[symmetric])
qed

lemma multi_init_synced:
  assumes "tone_count mt = 0" "length (gs mt) = TELETONE_MAX_TONES" "length (gs2 mt) = TELETONE_MAX_TONES"
  shows "synced (teletone_multi_tone_init c_cos mt m)"
  by (rule multi_init_filters[of c_cos mt m]) (use assms in \<open>simp add: synced_def tones_used_def overwrite_def\<close>)

text \<open>
  The second filter of a tone has the factor of the first one, so after any samples its
  energy is the same number, and the test for it compares that number with its own rounding
  to a \<^verbatim>\<open>float\<close>: a tone counts exactly when the rounding went up.
\<close>

lemma multi_gtest_is_rounding:
  assumes "tone_count mt = 0" "length (gs mt) = TELETONE_MAX_TONES" "length (gs2 mt) = TELETONE_MAX_TONES"
    "mt' = multi_feed (teletone_multi_tone_init c_cos mt m) samples"
  shows "gtest mt' = length (filter (\<lambda>g. teletone_goertzel_result g < f32 (teletone_goertzel_result g)) (take (tones_used mt') (gs mt')))"
proof -
  define n where "n = tones_used mt'"
  have t: "take n (gs mt') = take n (gs2 mt')"
    and len: "n \<le> length (gs mt')"
    using multi_feed_synced[OF multi_init_synced[OF assms(1-3)]] assms(4) tones_used_le by (simp_all add: synced_def n_def)
  have "gs2 mt' ! x = take n (gs mt') ! x" if "x < n" for x using that t by (metis nth_take)
  then have "gtest mt' = length (filter (\<lambda>x. teletone_goertzel_result (take n (gs mt') ! x) < f32 (teletone_goertzel_result (take n (gs mt') ! x))) [0..<n])"
    unfolding gtest_def n_def[symmetric] using len
    by (intro arg_cong[of _ _ length] filter_cong) (simp_all add: eng_all_def n_def[symmetric])
  also have "\<dots> = length (filter (\<lambda>g. teletone_goertzel_result g < f32 (teletone_goertzel_result g)) (map (\<lambda>x. take n (gs mt') ! x) [0..<n]))"
    by (simp add: filter_map comp_def)
  also have "map (\<lambda>x. take n (gs mt') ! x) [0..<n] = take n (gs mt')"
    using len map_nth[of "take n (gs mt')"] by simp
  finally show ?thesis by (simp add: n_def)
qed

theorem multi_gtest_is_rounding_witness:
  "gtest (multi_feed (teletone_multi_tone_init (\<lambda>_. 1) sample_multi [440, 0]) []) = 0"
  by (subst multi_gtest_is_rounding[OF _ _ _ refl])
    (simp_all add: sample_multi_def TELETONE_MAX_TONES_def multi_feed_def teletone_multi_tone_init_def Let_def tones_used_def
      overwrite_def goertzel_init_def teletone_goertzel_result_def trunc_def)

end
