(* ===== verification/Tone_Keys.thy ===== *)
theory Tone_Keys
  imports Tone_Detect
begin

text \<open>
  The DTMF keys in both tone components: the frequencies that \<^verbatim>\<open>teletone_init_session\<close> enters in
  the table of the generator, and those the detector listens to.
\<close>

lemma set_tone_two:
  assumes "index < length (TONES ts)" "f1 \<noteq> 0" "f2 \<noteq> 0"
  shows "teletone_set_tone ts index [f1, f2, 0] = Some (0, ts\<lparr>TONES := (TONES ts)[index := [f1, f2] @ drop 2 (TONES ts ! index)]\<rparr>)"
  using assms by (simp add: teletone_set_tone_def take_tones_def TELETONE_MAX_TONES_def Let_def numeral_2_eq_2)

definition dtmf_table :: "tone_map list \<Rightarrow> tone_map list" where
  "dtmf_table t = foldl (\<lambda>t (c, f1, f2). t[of_char c := [f1, f2] @ drop 2 (t ! of_char c)]) t dtmf_calls"

lemma foldl_set_tones:
  assumes "length (TONES ts) = 127" "list_all (\<lambda>(c, f1, f2). (of_char c :: nat) < 127 \<and> f1 \<noteq> 0 \<and> f2 \<noteq> 0) calls"
  shows "foldl (\<lambda>t (c, f1, f2). case t of None \<Rightarrow> None
      | Some t \<Rightarrow> map_option snd (teletone_set_tone t (of_char c) [f1, f2, 0])) (Some ts) calls =
    Some (ts\<lparr>TONES := foldl (\<lambda>t (c, f1, f2). t[of_char c := [f1, f2] @ drop 2 (t ! of_char c)]) (TONES ts) calls\<rparr>)"
  using assms
proof (induction calls arbitrary: ts)
  case (Cons k calls)
  obtain c f1 f2 where k: "k = (c, f1, f2)" by (rule prod_cases3)
  have "(of_char c :: nat) < length (TONES ts)" "f1 \<noteq> 0" "f2 \<noteq> 0" using Cons.prems k by simp_all
  note s = set_tone_two[OF this]
  show ?case
    using Cons.IH[of "ts\<lparr>TONES := (TONES ts)[of_char c := [f1, f2] @ drop 2 (TONES ts ! of_char c)]\<rparr>"] Cons.prems
    by (simp add: k s)
qed simp

lemma init_session_tones:
  assumes "teletone_init_session calloc_ok buflen = Some (0, ts)"
  shows "TONES ts = dtmf_table (replicate 127 empty_map)"
proof -
  have c: "list_all (\<lambda>(c, f1, f2). (of_char c :: nat) < 127 \<and> f1 \<noteq> 0 \<and> f2 \<noteq> 0) dtmf_calls" by (simp add: dtmf_calls_def)
  show ?thesis
    using assms unfolding teletone_init_session_def Let_def
    by (auto simp: foldl_set_tones[OF _ c] TELETONE_TONE_RANGE_def dtmf_table_def split: if_splits)
qed

lemma length_dtmf_table [simp]: "length (dtmf_table t) = length t"
proof -
  have "length (foldl (\<lambda>t (c, f1, f2). t[of_char c := [f1, f2] @ drop 2 (t ! of_char c)]) t calls) = length t" for calls :: "(char \<times> rat \<times> rat) list"
    by (induction calls arbitrary: t) (auto split: prod.split)
  then show ?thesis by (simp add: dtmf_table_def)
qed

text \<open>
  The generator gives a key the two frequencies that the detector looks for, with the
  exception of the third row: 7, 8, 9 and C are generated with 859 Hz, detected with 852 Hz.
\<close>

lemma dtmf_frequencies_agree:
  assumes "teletone_init_session calloc_ok buflen = Some (0, ts)" "r < 4" "c < 4"
  shows "take 2 (TONES ts ! of_char (dtmf_positions ! (4 * r + c))) = [dtmf_row ! r, dtmf_col ! c] \<longleftrightarrow> r \<noteq> 2"
proof -
  have "list_all (\<lambda>r. list_all (\<lambda>c. take 2 (dtmf_table (replicate 127 empty_map) ! of_char (dtmf_positions ! (4 * r + c))) = [dtmf_row ! r, dtmf_col ! c] \<longleftrightarrow> r \<noteq> 2) [0..<4]) [0..<4]"
    by (simp add: dtmf_table_def dtmf_calls_def dtmf_positions_def dtmf_row_def dtmf_col_def upt_rec)
  then show ?thesis using assms(2,3) unfolding init_session_tones[OF assms(1)] list_all_iff by simp
qed
theorem dtmf_frequencies_agree_witness:
  "\<exists>ts. teletone_init_session (\<lambda>_. True) 0 = Some (0, ts) \<and> take 2 (TONES ts ! 53) = [770, 1336] \<and> take 2 (TONES ts ! 56) \<noteq> [852, 1336]"
proof -
  have "\<exists>ts. teletone_init_session (\<lambda>_. True) 0 = Some (0, ts)"
    unfolding teletone_init_session_def Let_def
    by (simp add: foldl_set_tones TELETONE_TONE_RANGE_def dtmf_calls_def set_tone_two)
  then obtain ts where ts: "teletone_init_session (\<lambda>_. True) 0 = Some (0, ts)" ..
  from dtmf_frequencies_agree[OF ts, of 1 1] dtmf_frequencies_agree[OF ts, of 2 1] ts show ?thesis
    by (auto simp: dtmf_positions_def dtmf_row_def dtmf_col_def)
qed
end
