(* ===== verification/Aec_Framing.thy ===== *)
theory Aec_Framing
  imports Prelude
begin

text \<open>
  The conversions between frames and blocks of the echo canceller, in
  \<^verbatim>\<open>crates/fswtch-apm-sys/cpp/modules/audio_processing/aec3/\<close>: \<^verbatim>\<open>block.h\<close>, \<^verbatim>\<open>frame_blocker.cc\<close>,
  \<^verbatim>\<open>block_framer.cc\<close>, \<^verbatim>\<open>block_delay_buffer.cc\<close>, and the way \<^verbatim>\<open>echo_canceller3.cc\<close> drives them.
  Samples are only moved, so their type is a parameter. A vector of vectors is a list of
  lists, indexed by band and channel. A failed \<^verbatim>\<open>RTC_DCHECK\<close> is the result \<^const>\<open>None\<close>.
\<close>

definition kBlockSize :: nat where [cval]: "kBlockSize = 64"
definition kSubFrameLength :: nat where [cval]: "kSubFrameLength = 80"

section \<open>Blocks\<close>

record 'a block =
  num_bands :: nat
  num_channels :: nat
  block_data :: "'a list"

definition new_block :: "nat \<Rightarrow> nat \<Rightarrow> 'a \<Rightarrow> 'a block" where
  "new_block bands channels default_value =
     \<lparr>num_bands = bands, num_channels = channels, block_data = replicate (bands * channels * kBlockSize) default_value\<rparr>"

definition GetIndex :: "'a block \<Rightarrow> nat \<Rightarrow> nat \<Rightarrow> nat" where
  "GetIndex b band channel = (band * num_channels b + channel) * kBlockSize"

definition View :: "'a block \<Rightarrow> nat \<Rightarrow> nat \<Rightarrow> 'a list" where
  "View b band channel = take kBlockSize (drop (GetIndex b band channel) (block_data b))"

definition SetNumChannels :: "'a \<Rightarrow> 'a block \<Rightarrow> nat \<Rightarrow> 'a block" where
  "SetNumChannels zero b channels =
     b\<lparr>num_channels := channels, block_data := replicate (num_bands b * channels * kBlockSize) zero\<rparr>"

definition Swap :: "'a block \<Rightarrow> 'a block \<Rightarrow> 'a block \<times> 'a block" where
  "Swap a b = (b, a)"

text \<open>\<^verbatim>\<open>std::copy\<close> into a vector, from an index on.\<close>

definition copy_to :: "'a list \<Rightarrow> nat \<Rightarrow> 'a list \<Rightarrow> 'a list" where
  "copy_to xs i data = take i data @ xs @ drop (i + length xs) data"

definition write_block :: "'a list \<Rightarrow> nat \<Rightarrow> nat \<Rightarrow> nat \<Rightarrow> 'a block \<Rightarrow> 'a block" where
  "write_block xs band channel offset b = b\<lparr>block_data := copy_to xs (GetIndex b band channel + offset) (block_data b)\<rparr>"

section \<open>Loops over bands and channels\<close>

definition band_channels :: "nat \<Rightarrow> nat \<Rightarrow> (nat \<times> nat) list" where
  "band_channels bands channels = List.product [0..<bands] [0..<channels]"

fun for_each :: "(nat \<times> nat) list \<Rightarrow> (nat \<Rightarrow> nat \<Rightarrow> 's \<Rightarrow> 's option) \<Rightarrow> 's \<Rightarrow> 's option" where
  "for_each [] f s = Some s"
| "for_each ((band, channel) # ps) f s = (case f band channel s of None \<Rightarrow> None | Some s \<Rightarrow> for_each ps f s)"

definition set_at :: "nat \<Rightarrow> nat \<Rightarrow> 'a \<Rightarrow> 'a list list \<Rightarrow> 'a list list" where
  "set_at band channel x m = m[band := (m ! band)[channel := x]]"

section \<open>\<^verbatim>\<open>FrameBlocker\<close>\<close>

record 'a frame_blocker =
  fb_bands :: nat
  fb_channels :: nat
  fb_buffer :: "'a list list list"

definition new_frame_blocker :: "nat \<Rightarrow> nat \<Rightarrow> 'a frame_blocker" where
  "new_frame_blocker bands channels =
     \<lparr>fb_bands = bands, fb_channels = channels, fb_buffer = replicate bands (replicate channels [])\<rparr>"

definition insert_sub_frame_channel ::
    "'a list list list \<Rightarrow> nat \<Rightarrow> nat \<Rightarrow> 'a frame_blocker \<times> 'a block \<Rightarrow> ('a frame_blocker \<times> 'a block) option" where
  "insert_sub_frame_channel sub_frame band channel = (\<lambda>(fb, block).
     (let buf = fb_buffer fb ! band ! channel; sub = sub_frame ! band ! channel in
      if length buf \<le> kBlockSize - 16 \<and> length sub = kSubFrameLength then
        (let samples_to_block = kBlockSize - length buf;
             block = write_block buf band channel 0 block;
             block = write_block (take samples_to_block sub) band channel (kBlockSize - samples_to_block) block
         in Some (fb\<lparr>fb_buffer := set_at band channel (drop samples_to_block sub) (fb_buffer fb)\<rparr>, block))
      else None))"

definition InsertSubFrameAndExtractBlock ::
    "'a frame_blocker \<Rightarrow> 'a list list list \<Rightarrow> 'a block \<Rightarrow> ('a frame_blocker \<times> 'a block) option" where
  "InsertSubFrameAndExtractBlock fb sub_frame block =
     (if fb_bands fb = num_bands block \<and> fb_bands fb = length sub_frame \<and> fb_channels fb = num_channels block \<and>
         list_all (\<lambda>s. length s = fb_channels fb) sub_frame
      then for_each (band_channels (fb_bands fb) (fb_channels fb)) (insert_sub_frame_channel sub_frame) (fb, block)
      else None)"

definition IsBlockAvailable :: "'a frame_blocker \<Rightarrow> bool" where
  "IsBlockAvailable fb \<longleftrightarrow> kBlockSize = length (fb_buffer fb ! 0 ! 0)"

definition extract_block_channel :: "nat \<Rightarrow> nat \<Rightarrow> 'a frame_blocker \<times> 'a block \<Rightarrow> ('a frame_blocker \<times> 'a block) option" where
  "extract_block_channel band channel = (\<lambda>(fb, block).
     (let buf = fb_buffer fb ! band ! channel in
      if kBlockSize = length buf
      then Some (fb\<lparr>fb_buffer := set_at band channel [] (fb_buffer fb)\<rparr>, write_block buf band channel 0 block)
      else None))"

definition ExtractBlock :: "'a frame_blocker \<Rightarrow> 'a block \<Rightarrow> ('a frame_blocker \<times> 'a block) option" where
  "ExtractBlock fb block =
     (if fb_bands fb = num_bands block \<and> fb_channels fb = num_channels block \<and> IsBlockAvailable fb
      then for_each (band_channels (fb_bands fb) (fb_channels fb)) extract_block_channel (fb, block)
      else None)"

section \<open>\<^verbatim>\<open>BlockFramer\<close>\<close>

record 'a block_framer =
  bf_bands :: nat
  bf_channels :: nat
  bf_buffer :: "'a list list list"

definition new_block_framer :: "'a \<Rightarrow> nat \<Rightarrow> nat \<Rightarrow> 'a block_framer" where
  "new_block_framer zero bands channels =
     \<lparr>bf_bands = bands, bf_channels = channels, bf_buffer = replicate bands (replicate channels (replicate kBlockSize zero))\<rparr>"

definition insert_block_channel :: "'a block \<Rightarrow> nat \<Rightarrow> nat \<Rightarrow> 'a block_framer \<Rightarrow> 'a block_framer option" where
  "insert_block_channel block band channel bf =
     (if bf_buffer bf ! band ! channel = []
      then Some (bf\<lparr>bf_buffer := set_at band channel (View block band channel) (bf_buffer bf)\<rparr>) else None)"

definition InsertBlock :: "'a block_framer \<Rightarrow> 'a block \<Rightarrow> 'a block_framer option" where
  "InsertBlock bf block =
     (if bf_bands bf = num_bands block \<and> bf_channels bf = num_channels block
      then for_each (band_channels (bf_bands bf) (bf_channels bf)) (insert_block_channel block) bf
      else None)"

definition extract_sub_frame_channel ::
    "'a block \<Rightarrow> nat \<Rightarrow> nat \<Rightarrow> 'a block_framer \<times> 'a list list list \<Rightarrow> ('a block_framer \<times> 'a list list list) option" where
  "extract_sub_frame_channel block band channel = (\<lambda>(bf, sub_frame).
     (let buf = bf_buffer bf ! band ! channel; sub = sub_frame ! band ! channel in
      if kSubFrameLength \<le> length buf + kBlockSize \<and> length buf \<le> kBlockSize \<and> length sub = kSubFrameLength then
        (let samples_to_frame = kSubFrameLength - length buf;
             sub = copy_to buf 0 sub;
             sub = copy_to (take samples_to_frame (View block band channel)) (length buf) sub
         in Some (bf\<lparr>bf_buffer := set_at band channel (drop samples_to_frame (View block band channel)) (bf_buffer bf)\<rparr>,
                  set_at band channel sub sub_frame))
      else None))"

definition InsertBlockAndExtractSubFrame ::
    "'a block_framer \<Rightarrow> 'a block \<Rightarrow> 'a list list list \<Rightarrow> ('a block_framer \<times> 'a list list list) option" where
  "InsertBlockAndExtractSubFrame bf block sub_frame =
     (if bf_bands bf = num_bands block \<and> bf_channels bf = num_channels block \<and> bf_bands bf = length sub_frame \<and>
         list_all (\<lambda>s. length s = bf_channels bf) sub_frame
      then for_each (band_channels (bf_bands bf) (bf_channels bf)) (extract_sub_frame_channel block) (bf, sub_frame)
      else None)"

section \<open>Facts about the loops\<close>

definition shaped :: "nat \<Rightarrow> nat \<Rightarrow> 'a list list \<Rightarrow> bool" where
  "shaped bands channels m \<longleftrightarrow> length m = bands \<and> (\<forall>r\<in>set m. length r = channels)"

lemma shaped_row: "shaped nb nc m \<Longrightarrow> b < nb \<Longrightarrow> length (m ! b) = nc"
  by (auto simp: shaped_def)

lemma shaped_set_at [simp]: "shaped nb nc m \<Longrightarrow> shaped nb nc (set_at b c x m)"
proof (cases "b < length m")
  case True
  assume s: "shaped nb nc m"
  then have "length (m ! b) = nc" using True by (auto simp: shaped_def)
  with s show ?thesis by (auto simp: shaped_def set_at_def dest!: set_update_subset_insert[THEN subsetD])
qed (simp add: set_at_def list_update_beyond)

lemma set_at_nth:
  "shaped nb nc m \<Longrightarrow> b < nb \<Longrightarrow> c < nc \<Longrightarrow> b' < nb \<Longrightarrow> c' < nc \<Longrightarrow>
   set_at b c x m ! b' ! c' = (if (b, c) = (b', c') then x else m ! b' ! c')"
  using shaped_row[of nb nc m b] by (auto simp: set_at_def shaped_def nth_list_update)

text \<open>The rule of a loop in which each round works on one cell.\<close>

lemma for_each_cells:
  assumes "distinct ps"
    and step: "\<And>b c s. (b, c) \<in> set ps \<Longrightarrow> I s \<Longrightarrow> pre b c s \<Longrightarrow> \<exists>s'. f b c s = Some s' \<and> I s' \<and> post b c s' \<and>
        (\<forall>b' c'. (b', c') \<in> set ps \<and> (b', c') \<noteq> (b, c) \<longrightarrow> (pre b' c' s \<longrightarrow> pre b' c' s') \<and> (post b' c' s \<longrightarrow> post b' c' s'))"
    and "I s" "\<forall>(b, c)\<in>set ps. pre b c s"
  shows "\<exists>s'. for_each ps f s = Some s' \<and> I s' \<and> (\<forall>(b, c)\<in>set ps. post b c s')"
proof -
  have "\<exists>s'. for_each qs f s = Some s' \<and> I s' \<and> (\<forall>(b, c)\<in>set qs \<union> D. post b c s')"
    if "distinct qs" "set qs \<union> D \<subseteq> set ps" "set qs \<inter> D = {}" "I s" "\<forall>(b, c)\<in>set qs. pre b c s" "\<forall>(b, c)\<in>D. post b c s" for qs D s
    using that
  proof (induction qs arbitrary: s D)
    case (Cons p qs)
    obtain b c where p: "p = (b, c)" by (cases p)
    have pb: "(b, c) \<in> set ps" "pre b c s" using Cons.prems p by auto
    from step[OF pb(1) Cons.prems(4) pb(2)] obtain s1 where s1: "f b c s = Some s1" "I s1" "post b c s1"
      "\<And>b' c'. (b', c') \<in> set ps \<Longrightarrow> (b', c') \<noteq> (b, c) \<Longrightarrow> (pre b' c' s \<longrightarrow> pre b' c' s1) \<and> (post b' c' s \<longrightarrow> post b' c' s1)"
      by blast
    have "\<exists>s'. for_each qs f s1 = Some s' \<and> I s' \<and> (\<forall>(b, c)\<in>set qs \<union> insert p D. post b c s')"
    proof (rule Cons.IH)
      show "\<forall>(b, c)\<in>set qs. pre b c s1" using Cons.prems s1(4) p by fastforce
      show "\<forall>(b, c)\<in>insert p D. post b c s1" using Cons.prems s1(3,4) p by fastforce
    qed (use Cons.prems p s1(2) in auto)
    then show ?case using s1(1) p by auto
  qed auto
  from this[of ps "{}" s] assms show ?thesis by simp
qed

lemma band_channels_set: "set (band_channels nb nc) = {..<nb} \<times> {..<nc}"
  by (auto simp: band_channels_def)

lemma distinct_band_channels: "distinct (band_channels nb nc)"
  by (simp add: band_channels_def distinct_product)

section \<open>Facts about blocks\<close>

definition wf_block :: "nat \<Rightarrow> nat \<Rightarrow> 'a block \<Rightarrow> bool" where
  "wf_block nb nc b \<longleftrightarrow> num_bands b = nb \<and> num_channels b = nc \<and> length (block_data b) = nb * nc * kBlockSize"

lemma cell_index: "b < nb \<Longrightarrow> c < nc \<Longrightarrow> b * nc + c < nb * (nc :: nat)"
proof -
  assume "b < nb" "c < nc"
  then have "Suc b * nc \<le> nb * nc" by (intro mult_le_mono1) simp
  then show ?thesis using \<open>c < nc\<close> by simp
qed

lemma cell_index_inj:
  assumes "c < nc" "c' < nc" "b * nc + c = b' * nc + (c' :: nat)"
  shows "b = b' \<and> c = c'"
proof -
  have "(b * nc + c) div nc = b" "(b' * nc + c') div nc = b'" using assms(1,2) by simp_all
  then have "b = b'" using assms(3) by metis
  then show ?thesis using assms(3) by simp
qed

lemma index_bound: "wf_block nb nc blk \<Longrightarrow> b < nb \<Longrightarrow> c < nc \<Longrightarrow> GetIndex blk b c + kBlockSize \<le> length (block_data blk)"
proof -
  assume a: "wf_block nb nc blk" "b < nb" "c < nc"
  have "Suc (b * nc + c) * kBlockSize \<le> nb * nc * kBlockSize"
    using cell_index[OF a(2,3)] by (intro mult_le_mono1) simp
  then show ?thesis using a(1) by (simp add: wf_block_def GetIndex_def)
qed

lemma index_apart:
  assumes "wf_block nb nc blk" "c < nc" "c' < nc" "(b, c) \<noteq> (b', c')"
  shows "GetIndex blk b c + kBlockSize \<le> GetIndex blk b' c' \<or> GetIndex blk b' c' + kBlockSize \<le> GetIndex blk b c"
proof -
  have "b * nc + c \<noteq> b' * nc + c'" using cell_index_inj[OF assms(2,3)] assms(4) by blast
  then have "Suc (b * nc + c) \<le> b' * nc + c' \<or> Suc (b' * nc + c') \<le> b * nc + c" by linarith
  then have "Suc (b * nc + c) * kBlockSize \<le> (b' * nc + c') * kBlockSize \<or> Suc (b' * nc + c') * kBlockSize \<le> (b * nc + c) * kBlockSize"
    by (meson mult_le_mono1)
  then show ?thesis using assms(1) by (simp add: wf_block_def GetIndex_def add.commute)
qed

lemma length_View [simp]: "wf_block nb nc blk \<Longrightarrow> b < nb \<Longrightarrow> c < nc \<Longrightarrow> length (View blk b c) = kBlockSize"
  using index_bound[of nb nc blk b c] by (simp add: View_def)

lemma length_copy_to [simp]: "i + length xs \<le> length d \<Longrightarrow> length (copy_to xs i d) = length d"
  by (simp add: copy_to_def)

lemma nth_copy_to:
  "i + length xs \<le> length d \<Longrightarrow> j < length d \<Longrightarrow>
   copy_to xs i d ! j = (if i \<le> j \<and> j < i + length xs then xs ! (j - i) else d ! j)"
  by (auto simp: copy_to_def nth_append min_def)

lemma wf_write_block [simp]:
  "wf_block nb nc blk \<Longrightarrow> b < nb \<Longrightarrow> c < nc \<Longrightarrow> k + length xs \<le> kBlockSize \<Longrightarrow> wf_block nb nc (write_block xs b c k blk)"
  using index_bound[of nb nc blk b c] by (simp add: wf_block_def write_block_def)

lemma View_write_block:
  assumes "wf_block nb nc blk" "b < nb" "c < nc" "b' < nb" "c' < nc" "k + length xs \<le> kBlockSize"
  shows "View (write_block xs b c k blk) b' c' = (if (b, c) = (b', c') then copy_to xs k (View blk b c) else View blk b' c')"
proof -
  let ?w = "write_block xs b c k blk"
  have i: "GetIndex ?w = GetIndex blk" by (simp add: fun_eq_iff GetIndex_def write_block_def)
  note bd = index_bound[OF assms(1-3)] index_bound[OF assms(1,4,5)]
  have d: "block_data ?w = copy_to xs (GetIndex blk b c + k) (block_data blk)" by (simp add: write_block_def)
  have fit: "GetIndex blk b c + k + length xs \<le> length (block_data blk)" using bd(1) assms(6) by linarith
  have n: "View ?w b' c' ! j = block_data ?w ! (GetIndex blk b' c' + j)" if "j < kBlockSize" for j
    using that bd fit by (simp add: View_def i d)
  have n0: "View blk b' c' ! j = block_data blk ! (GetIndex blk b' c' + j)" if "j < kBlockSize" for j
    using that bd by (simp add: View_def)
  have len: "length (View ?w b' c') = kBlockSize" using assms by (intro length_View wf_write_block)
  show ?thesis
  proof (cases "(b, c) = (b', c')")
    case True
    show ?thesis
    proof (rule nth_equalityI)
      show "length (View ?w b' c') = length (if (b, c) = (b', c') then copy_to xs k (View blk b c) else View blk b' c')"
        using True len assms by simp
    next
      fix j assume "j < length (View ?w b' c')"
      then have j: "j < kBlockSize" using len by simp
      have "View ?w b' c' ! j = copy_to xs (GetIndex blk b c + k) (block_data blk) ! (GetIndex blk b c + j)"
        using n[OF j] d True by simp
      also have "\<dots> = copy_to xs k (View blk b c) ! j"
        using j fit bd assms n0[OF j] True by (simp add: nth_copy_to)
      finally show "View ?w b' c' ! j = (if (b, c) = (b', c') then copy_to xs k (View blk b c) else View blk b' c') ! j"
        using True by simp
    qed
  next
    case False
    show ?thesis
    proof (rule nth_equalityI)
      show "length (View ?w b' c') = length (if (b, c) = (b', c') then copy_to xs k (View blk b c) else View blk b' c')"
        using False len assms by simp
    next
      fix j assume "j < length (View ?w b' c')"
      then have j: "j < kBlockSize" using len by simp
      have "\<not> (GetIndex blk b c + k \<le> GetIndex blk b' c' + j \<and> GetIndex blk b' c' + j < GetIndex blk b c + k + length xs)"
        using index_apart[OF assms(1,3,5) False] j assms(6) by linarith
      then show "View ?w b' c' ! j = (if (b, c) = (b', c') then copy_to xs k (View blk b c) else View blk b' c') ! j"
        using n[OF j] n0[OF j] d fit bd j False by (auto simp: nth_copy_to)
    qed
  qed
qed

lemma copy_two: "length xs + length ys = length v \<Longrightarrow> copy_to ys (length xs) (copy_to xs 0 v) = xs @ ys"
  by (simp add: copy_to_def)

section \<open>What the operations do with the samples\<close>

definition cells :: "nat \<Rightarrow> nat \<Rightarrow> (nat \<Rightarrow> nat \<Rightarrow> bool) \<Rightarrow> bool" where
  "cells nb nc P \<longleftrightarrow> (\<forall>b<nb. \<forall>c<nc. P b c)"

definition blocker_ok :: "nat \<Rightarrow> nat \<Rightarrow> nat \<Rightarrow> 'a frame_blocker \<Rightarrow> bool" where
  "blocker_ok nb nc l fb \<longleftrightarrow> fb_bands fb = nb \<and> fb_channels fb = nc \<and> shaped nb nc (fb_buffer fb) \<and>
     cells nb nc (\<lambda>b c. length (fb_buffer fb ! b ! c) = l)"

definition framer_ok :: "nat \<Rightarrow> nat \<Rightarrow> nat \<Rightarrow> 'a block_framer \<Rightarrow> bool" where
  "framer_ok nb nc l bf \<longleftrightarrow> bf_bands bf = nb \<and> bf_channels bf = nc \<and> shaped nb nc (bf_buffer bf) \<and>
     cells nb nc (\<lambda>b c. length (bf_buffer bf ! b ! c) = l)"

definition sub_frame_ok :: "nat \<Rightarrow> nat \<Rightarrow> 'a list list list \<Rightarrow> bool" where
  "sub_frame_ok nb nc s \<longleftrightarrow> shaped nb nc s \<and> cells nb nc (\<lambda>b c. length (s ! b ! c) = kSubFrameLength)"

lemma insert_sub_frame_ok:
  assumes "blocker_ok nb nc l fb" "l \<le> 48" "sub_frame_ok nb nc sub" "wf_block nb nc blk"
  shows "\<exists>fb' blk'. InsertSubFrameAndExtractBlock fb sub blk = Some (fb', blk') \<and> blocker_ok nb nc (l + 16) fb' \<and> wf_block nb nc blk' \<and>
    cells nb nc (\<lambda>b c. fb_buffer fb ! b ! c @ sub ! b ! c = View blk' b c @ fb_buffer fb' ! b ! c)"
proof -
  let ?I = "\<lambda>(f, k). fb_bands f = nb \<and> fb_channels f = nc \<and> shaped nb nc (fb_buffer f) \<and> wf_block nb nc k"
  let ?pre = "\<lambda>b c (f, k). fb_buffer f ! b ! c = fb_buffer fb ! b ! c"
  let ?post = "\<lambda>b c (f, k). fb_buffer fb ! b ! c @ sub ! b ! c = View k b c @ fb_buffer f ! b ! c \<and> length (fb_buffer f ! b ! c) = l + 16"
  have "\<exists>s'. for_each (band_channels nb nc) (insert_sub_frame_channel sub) (fb, blk) = Some s' \<and> ?I s' \<and>
      (\<forall>(b, c)\<in>set (band_channels nb nc). ?post b c s')"
  proof (rule for_each_cells[OF distinct_band_channels, where pre = ?pre])
    fix b c :: nat and s :: "'a frame_blocker \<times> 'a block"
    assume bc: "(b, c) \<in> set (band_channels nb nc)" and I: "?I s" and p: "?pre b c s"
    obtain f k where s: "s = (f, k)" by fastforce
    have b: "b < nb" "c < nc" using bc by (simp_all add: band_channels_set)
    have l: "length (fb_buffer fb ! b ! c) = l" "length (sub ! b ! c) = 80"
      using assms b by (simp_all add: blocker_ok_def sub_frame_ok_def cells_def kSubFrameLength_def)
    define k1 where "k1 = write_block (fb_buffer fb ! b ! c) b c 0 k"
    define k2 where "k2 = write_block (take (64 - l) (sub ! b ! c)) b c l k1"
    define f2 where "f2 = f\<lparr>fb_buffer := set_at b c (drop (64 - l) (sub ! b ! c)) (fb_buffer f)\<rparr>"
    have w: "wf_block nb nc k" "wf_block nb nc k1" "wf_block nb nc k2"
      using I s b l assms(2) by (simp_all add: k1_def k2_def kBlockSize_def)
    have step: "insert_sub_frame_channel sub b c s = Some (f2, k2)"
      using p l assms(2) by (simp add: insert_sub_frame_channel_def s kBlockSize_def kSubFrameLength_def k2_def k1_def f2_def Let_def)
    have v: "View k2 b' c' = (if (b, c) = (b', c') then fb_buffer fb ! b ! c @ take (64 - l) (sub ! b ! c) else View k b' c')"
      if "b' < nb" "c' < nc" for b' c'
    proof -
      have "l + length (take (64 - l) (sub ! b ! c)) \<le> kBlockSize" "0 + length (fb_buffer fb ! b ! c) \<le> kBlockSize"
        using l assms(2) by (simp_all add: kBlockSize_def)
      note v = View_write_block[OF w(2) b that this(1)] View_write_block[OF w(1) b that this(2)] View_write_block[OF w(1) b b this(2)]
      have "length (View k b c) = 64" using length_View[OF w(1) b] by (simp add: kBlockSize_def)
      then have "copy_to (take (64 - l) (sub ! b ! c)) l (copy_to (fb_buffer fb ! b ! c) 0 (View k b c)) = fb_buffer fb ! b ! c @ take (64 - l) (sub ! b ! c)"
        using copy_two[of "fb_buffer fb ! b ! c" "take (64 - l) (sub ! b ! c)"] l assms(2) by simp
      then show ?thesis
        using v[folded k1_def, folded k2_def] by auto
    qed
    show "\<exists>s'. insert_sub_frame_channel sub b c s = Some s' \<and> ?I s' \<and> ?post b c s' \<and>
        (\<forall>b' c'. (b', c') \<in> set (band_channels nb nc) \<and> (b', c') \<noteq> (b, c) \<longrightarrow>
           (?pre b' c' s \<longrightarrow> ?pre b' c' s') \<and> (?post b' c' s \<longrightarrow> ?post b' c' s'))"
      using step w I s b v l assms(2)
      by (intro exI[of _ "(f2, k2)"]) (auto simp: f2_def set_at_nth band_channels_set)
  qed (use assms in \<open>auto simp: blocker_ok_def\<close>)
  then show ?thesis
    using assms by (auto simp: InsertSubFrameAndExtractBlock_def blocker_ok_def sub_frame_ok_def wf_block_def shaped_def
      list_all_iff band_channels_set cells_def)
qed

lemma extract_block_ok:
  assumes "blocker_ok nb nc 64 fb" "0 < nb" "0 < nc" "wf_block nb nc blk"
  shows "\<exists>fb' blk'. ExtractBlock fb blk = Some (fb', blk') \<and> blocker_ok nb nc 0 fb' \<and> wf_block nb nc blk' \<and>
    cells nb nc (\<lambda>b c. fb_buffer fb ! b ! c = View blk' b c)"
proof -
  let ?I = "\<lambda>(f, k). fb_bands f = nb \<and> fb_channels f = nc \<and> shaped nb nc (fb_buffer f) \<and> wf_block nb nc k"
  let ?pre = "\<lambda>b c (f, k). fb_buffer f ! b ! c = fb_buffer fb ! b ! c"
  let ?post = "\<lambda>b c (f, k). fb_buffer fb ! b ! c = View k b c \<and> fb_buffer f ! b ! c = []"
  have "\<exists>s'. for_each (band_channels nb nc) extract_block_channel (fb, blk) = Some s' \<and> ?I s' \<and>
      (\<forall>(b, c)\<in>set (band_channels nb nc). ?post b c s')"
  proof (rule for_each_cells[OF distinct_band_channels, where pre = ?pre])
    fix b c :: nat and s :: "'a frame_blocker \<times> 'a block"
    assume bc: "(b, c) \<in> set (band_channels nb nc)" and I: "?I s" and p: "?pre b c s"
    obtain f k where s: "s = (f, k)" by fastforce
    have b: "b < nb" "c < nc" using bc by (simp_all add: band_channels_set)
    have l: "length (fb_buffer fb ! b ! c) = kBlockSize"
      using assms b by (simp add: blocker_ok_def cells_def kBlockSize_def)
    have w: "wf_block nb nc k" using I s by simp
    let ?k = "write_block (fb_buffer fb ! b ! c) b c 0 k"
    have w': "wf_block nb nc ?k" using w b l by simp
    have v: "View ?k b' c' = (if (b, c) = (b', c') then fb_buffer fb ! b ! c else View k b' c')" if "b' < nb" "c' < nc" for b' c'
    proof -
      have "copy_to (fb_buffer fb ! b ! c) 0 (View k b c) = fb_buffer fb ! b ! c"
        using length_View[OF w b] l by (simp add: copy_to_def)
      then show ?thesis using View_write_block[OF w b that, of 0 "fb_buffer fb ! b ! c"] l by auto
    qed
    show "\<exists>s'. extract_block_channel b c s = Some s' \<and> ?I s' \<and> ?post b c s' \<and>
        (\<forall>b' c'. (b', c') \<in> set (band_channels nb nc) \<and> (b', c') \<noteq> (b, c) \<longrightarrow>
           (?pre b' c' s \<longrightarrow> ?pre b' c' s') \<and> (?post b' c' s \<longrightarrow> ?post b' c' s'))"
      using I s b v w' l p
      by (intro exI[of _ "(f\<lparr>fb_buffer := set_at b c [] (fb_buffer f)\<rparr>, ?k)"])
        (auto simp: extract_block_channel_def set_at_nth band_channels_set)
  qed (use assms in \<open>auto simp: blocker_ok_def\<close>)
  moreover have "IsBlockAvailable fb" using assms by (simp add: IsBlockAvailable_def blocker_ok_def cells_def kBlockSize_def)
  ultimately show ?thesis
    using assms by (auto simp: ExtractBlock_def blocker_ok_def wf_block_def band_channels_set cells_def)
qed

lemma insert_block_ok:
  assumes "framer_ok nb nc 0 bf" "wf_block nb nc blk"
  shows "\<exists>bf'. InsertBlock bf blk = Some bf' \<and> framer_ok nb nc 64 bf' \<and> cells nb nc (\<lambda>b c. View blk b c = bf_buffer bf' ! b ! c)"
proof -
  let ?I = "\<lambda>f. bf_bands f = nb \<and> bf_channels f = nc \<and> shaped nb nc (bf_buffer f)"
  let ?pre = "\<lambda>b c f. bf_buffer f ! b ! c = []"
  let ?post = "\<lambda>b c f. View blk b c = bf_buffer f ! b ! c"
  have "\<exists>s'. for_each (band_channels nb nc) (insert_block_channel blk) bf = Some s' \<and> ?I s' \<and>
      (\<forall>(b, c)\<in>set (band_channels nb nc). ?post b c s')"
  proof (rule for_each_cells[OF distinct_band_channels, where pre = ?pre])
    fix b c :: nat and f :: "'a block_framer"
    assume bc: "(b, c) \<in> set (band_channels nb nc)" and I: "?I f" and p: "?pre b c f"
    then show "\<exists>s'. insert_block_channel blk b c f = Some s' \<and> ?I s' \<and> ?post b c s' \<and>
        (\<forall>b' c'. (b', c') \<in> set (band_channels nb nc) \<and> (b', c') \<noteq> (b, c) \<longrightarrow>
           (?pre b' c' f \<longrightarrow> ?pre b' c' s') \<and> (?post b' c' f \<longrightarrow> ?post b' c' s'))"
      by (intro exI[of _ "f\<lparr>bf_buffer := set_at b c (View blk b c) (bf_buffer f)\<rparr>"])
        (auto simp: insert_block_channel_def set_at_nth band_channels_set)
  qed (use assms in \<open>auto simp: framer_ok_def cells_def band_channels_set\<close>)
  then obtain bf' where bf': "for_each (band_channels nb nc) (insert_block_channel blk) bf = Some bf'" "?I bf'"
    "cells nb nc (\<lambda>b c. View blk b c = bf_buffer bf' ! b ! c)"
    by (auto simp: cells_def band_channels_set)
  have "length (bf_buffer bf' ! b ! c) = 64" if "b < nb" "c < nc" for b c
    using bf'(3) that length_View[OF assms(2) that] by (simp add: cells_def kBlockSize_def)
  with bf' show ?thesis
    using assms by (auto simp: InsertBlock_def framer_ok_def wf_block_def cells_def)
qed

lemma extract_sub_frame_ok:
  assumes "framer_ok nb nc l bf" "16 \<le> l" "l \<le> 64" "wf_block nb nc blk" "sub_frame_ok nb nc sub"
  shows "\<exists>bf' sub'. InsertBlockAndExtractSubFrame bf blk sub = Some (bf', sub') \<and> framer_ok nb nc (l - 16) bf' \<and> sub_frame_ok nb nc sub' \<and>
    cells nb nc (\<lambda>b c. bf_buffer bf ! b ! c @ View blk b c = sub' ! b ! c @ bf_buffer bf' ! b ! c)"
proof -
  let ?I = "\<lambda>(f, s). bf_bands f = nb \<and> bf_channels f = nc \<and> shaped nb nc (bf_buffer f) \<and> shaped nb nc s"
  let ?pre = "\<lambda>b c (f, s). bf_buffer f ! b ! c = bf_buffer bf ! b ! c \<and> s ! b ! c = sub ! b ! c"
  let ?post = "\<lambda>b c (f, s). bf_buffer bf ! b ! c @ View blk b c = s ! b ! c @ bf_buffer f ! b ! c \<and> length (s ! b ! c) = 80"
  have "\<exists>s'. for_each (band_channels nb nc) (extract_sub_frame_channel blk) (bf, sub) = Some s' \<and> ?I s' \<and>
      (\<forall>(b, c)\<in>set (band_channels nb nc). ?post b c s')"
  proof (rule for_each_cells[OF distinct_band_channels, where pre = ?pre])
    fix b c :: nat and s :: "'a block_framer \<times> 'a list list list"
    assume bc: "(b, c) \<in> set (band_channels nb nc)" and I: "?I s" and p: "?pre b c s"
    obtain f t where s: "s = (f, t)" by fastforce
    have b: "b < nb" "c < nc" using bc by (simp_all add: band_channels_set)
    have l: "length (bf_buffer bf ! b ! c) = l" "length (sub ! b ! c) = 80" "length (View blk b c) = 64"
      using assms b length_View[OF assms(4) b] by (simp_all add: framer_ok_def sub_frame_ok_def cells_def kSubFrameLength_def kBlockSize_def)
    define out where "out = bf_buffer bf ! b ! c @ take (80 - l) (View blk b c)"
    have "copy_to (take (80 - l) (View blk b c)) l (copy_to (bf_buffer bf ! b ! c) 0 (sub ! b ! c)) = out"
      using copy_two[of "bf_buffer bf ! b ! c" "take (80 - l) (View blk b c)" "sub ! b ! c"] l assms(2,3) by (simp add: out_def)
    then have step: "extract_sub_frame_channel blk b c s =
        Some (f\<lparr>bf_buffer := set_at b c (drop (80 - l) (View blk b c)) (bf_buffer f)\<rparr>, set_at b c out t)"
      using p l assms(2,3) by (simp add: extract_sub_frame_channel_def s kBlockSize_def kSubFrameLength_def Let_def)
    have "length out = 80" using l assms(2,3) by (simp add: out_def)
    then show "\<exists>s'. extract_sub_frame_channel blk b c s = Some s' \<and> ?I s' \<and> ?post b c s' \<and>
        (\<forall>b' c'. (b', c') \<in> set (band_channels nb nc) \<and> (b', c') \<noteq> (b, c) \<longrightarrow>
           (?pre b' c' s \<longrightarrow> ?pre b' c' s') \<and> (?post b' c' s \<longrightarrow> ?post b' c' s'))"
      using I b l p unfolding step unfolding s
      by (intro exI[of _ "(f\<lparr>bf_buffer := set_at b c (drop (80 - l) (View blk b c)) (bf_buffer f)\<rparr>, set_at b c out t)"])
        (auto simp: out_def set_at_nth band_channels_set)
  qed (use assms in \<open>auto simp: framer_ok_def sub_frame_ok_def\<close>)
  then obtain bf' sub' where r: "for_each (band_channels nb nc) (extract_sub_frame_channel blk) (bf, sub) = Some (bf', sub')" "?I (bf', sub')"
    "cells nb nc (\<lambda>b c. bf_buffer bf ! b ! c @ View blk b c = sub' ! b ! c @ bf_buffer bf' ! b ! c \<and> length (sub' ! b ! c) = 80)"
    by (auto simp: cells_def band_channels_set)
  have "length (bf_buffer bf' ! b ! c) = l - 16" if b: "b < nb" "c < nc" for b c
  proof -
    have "length (bf_buffer bf ! b ! c @ View blk b c) = length (sub' ! b ! c @ bf_buffer bf' ! b ! c)" "length (sub' ! b ! c) = 80"
      using r(3) b by (simp_all add: cells_def)
    then show ?thesis using assms(1) b length_View[OF assms(4) b] by (simp add: framer_ok_def cells_def kBlockSize_def)
  qed
  with r show ?thesis
    using assms by (auto simp: InsertBlockAndExtractSubFrame_def framer_ok_def wf_block_def sub_frame_ok_def shaped_def
      list_all_iff cells_def kSubFrameLength_def)
qed

end
