(* ===== verification/Aec_Capture.thy ===== *)
theory Aec_Capture
  imports Aec_Framing "HOL-Library.Monad_Syntax"
begin

text \<open>
  The paths of the capture and of the render signal through the echo canceller: the fixed delay of
  \<^verbatim>\<open>block_delay_buffer.cc\<close> and the functions of \<^verbatim>\<open>echo_canceller3.cc\<close> that cut a frame of 160
  samples into two sub frames, turn these into blocks of 64 samples, hand the blocks to the
  block processor and put its output together to a frame again. The block processor is a virtual
  interface and a parameter here. The spans of a sub frame view point into the frame; the model
  reads the view and writes it back where the code writes through the spans.
\<close>

definition kSplitBandSize :: nat where [cval]: "kSplitBandSize = 160"

text \<open>An \<^verbatim>\<open>AudioBuffer\<close>: \<^term>\<open>split_bands b ! channel ! band\<close> are the samples of a band.\<close>

record 'a audio_buffer =
  ab_channels :: nat
  ab_bands :: nat
  split_bands :: "'a list list list"

section \<open>The fixed delay\<close>

record 'a block_delay_buffer =
  frame_length :: nat
  ring_delay :: nat
  delay_buf :: "'a list list list"
  last_insert :: nat

definition new_block_delay_buffer :: "'a \<Rightarrow> nat \<Rightarrow> nat \<Rightarrow> nat \<Rightarrow> nat \<Rightarrow> 'a block_delay_buffer" where
  "new_block_delay_buffer zero channels bands frame_len delay_samples =
     \<lparr>frame_length = frame_len, ring_delay = delay_samples,
      delay_buf = replicate channels (replicate bands (replicate delay_samples zero)), last_insert = 0\<rparr>"

text \<open>The loop over the samples of one band: the state is the ring, its index and the output so far.\<close>

fun delay_loop :: "nat \<Rightarrow> 'a list \<Rightarrow> 'a list \<Rightarrow> nat \<Rightarrow> 'a list \<times> 'a list \<times> nat" where
  "delay_loop delay buf [] i = (buf, [], i)"
| "delay_loop delay buf (x # xs) i =
     (let tmp = buf ! i;
          (buf, ys, i) = delay_loop delay (buf[i := x]) xs (if i < delay - 1 then i + 1 else 0)
      in (buf, tmp # ys, i))"

definition delay_band :: "nat \<Rightarrow> nat \<Rightarrow> nat \<Rightarrow> 'a block_delay_buffer \<times> 'a audio_buffer \<times> nat \<Rightarrow>
    ('a block_delay_buffer \<times> 'a audio_buffer \<times> nat) option" where
  "delay_band i_start ch band = (\<lambda>(d, frame, _).
     (if length (delay_buf d ! ch) = ab_bands frame \<and> length (delay_buf d ! ch ! band) = ring_delay d
      then (let samples = split_bands frame ! ch ! band;
                (buf, out, i) = delay_loop (ring_delay d) (delay_buf d ! ch ! band) (take (frame_length d) samples) i_start
            in Some (d\<lparr>delay_buf := set_at ch band buf (delay_buf d)\<rparr>,
                     frame\<lparr>split_bands := set_at ch band (copy_to out 0 samples) (split_bands frame)\<rparr>, i))
      else None))"

definition DelaySignal :: "'a block_delay_buffer \<Rightarrow> 'a audio_buffer \<Rightarrow> ('a block_delay_buffer \<times> 'a audio_buffer) option" where
  "DelaySignal d frame =
     (if length (delay_buf d) \<noteq> ab_channels frame then None
      else if ring_delay d = 0 then Some (d, frame)
      else do {
        let num_bands = length (delay_buf d ! 0);
        let num_channels = length (delay_buf d);
        (d, frame, i) \<leftarrow> for_each (band_channels num_channels num_bands) (delay_band (last_insert d)) (d, frame, 0);
        Some (d\<lparr>last_insert := i\<rparr>, frame)
      })"

section \<open>Sub frames\<close>

definition FillSubFrameView :: "'a audio_buffer \<Rightarrow> nat \<Rightarrow> nat \<Rightarrow> nat \<Rightarrow> 'a list list list option" where
  "FillSubFrameView frame sub_frame_index view_bands view_channels =
     (if sub_frame_index \<le> 1 \<and> ab_bands frame = view_bands \<and> ab_channels frame = view_channels
      then Some (map (\<lambda>band. map (\<lambda>channel.
             take kSubFrameLength (drop (sub_frame_index * kSubFrameLength) (split_bands frame ! channel ! band)))
             [0..<view_channels]) [0..<view_bands])
      else None)"

text \<open>Writing through the spans of a view.\<close>

definition write_view :: "'a list list list \<Rightarrow> nat \<Rightarrow> 'a audio_buffer \<Rightarrow> 'a audio_buffer" where
  "write_view view sub_frame_index frame = frame\<lparr>split_bands :=
     map (\<lambda>channel. map (\<lambda>band.
       copy_to (view ! band ! channel) (sub_frame_index * kSubFrameLength) (split_bands frame ! channel ! band))
       [0..<ab_bands frame]) [0..<ab_channels frame]\<rparr>"

section \<open>The capture path\<close>

text \<open>
  \<^verbatim>\<open>BlockProcessor::ProcessCapture\<close>, from the gain change, the saturation, the state, the optional
  block for the linear output and the capture block to the new state and blocks.
\<close>

type_synonym ('a, 'p) process_capture =
  "bool \<Rightarrow> bool \<Rightarrow> 'p \<Rightarrow> 'a block option \<Rightarrow> 'a block \<Rightarrow> 'p \<times> 'a block option \<times> 'a block"

record ('a, 'p) capture_path =
  capture_blocker :: "'a frame_blocker"
  output_framer :: "'a block_framer"
  linear_output_framer :: "'a block_framer option"
  block_processor :: 'p
  linear_output_block :: "'a block option"
  capture_block :: "'a block"

definition new_capture_path :: "'a \<Rightarrow> 'p \<Rightarrow> bool \<Rightarrow> nat \<Rightarrow> nat \<Rightarrow> ('a, 'p) capture_path" where
  "new_capture_path zero processor export_linear bands channels =
     \<lparr>capture_blocker = new_frame_blocker bands channels, output_framer = new_block_framer zero bands channels,
      linear_output_framer = (if export_linear then Some (new_block_framer zero 1 channels) else None),
      block_processor = processor,
      linear_output_block = (if export_linear then Some (new_block 1 channels zero) else None),
      capture_block = new_block bands channels zero\<rparr>"

definition ProcessCaptureFrameContent ::
    "('a, 'p) process_capture \<Rightarrow> 'a audio_buffer option \<Rightarrow> 'a audio_buffer \<Rightarrow> bool \<Rightarrow> bool \<Rightarrow> bool \<Rightarrow> nat \<Rightarrow>
     ('a, 'p) capture_path \<Rightarrow> ('a audio_buffer option \<times> 'a audio_buffer \<times> ('a, 'p) capture_path) option" where
  "ProcessCaptureFrameContent process linear_output capture level_change aec_reference_is_downmixed_stereo
      saturated_microphone_signal sub_frame_index st = do {
     view \<leftarrow> FillSubFrameView capture sub_frame_index (bf_bands (output_framer st)) (bf_channels (output_framer st));
     linear \<leftarrow> (case linear_output of None \<Rightarrow> Some None
       | Some lin \<Rightarrow> (case (linear_output_framer st, linear_output_block st) of
           (Some framer, Some blk) \<Rightarrow> do {
             lview \<leftarrow> FillSubFrameView lin sub_frame_index 1 (bf_channels framer);
             Some (Some (lin, framer, lview)) }
         | _ \<Rightarrow> None));
     (blocker, blk) \<leftarrow> InsertSubFrameAndExtractBlock (capture_blocker st) view (capture_block st);
     let (p, lblk, blk) = process (level_change \<or> aec_reference_is_downmixed_stereo) saturated_microphone_signal
                            (block_processor st) (linear_output_block st) blk;
     (framer, view) \<leftarrow> InsertBlockAndExtractSubFrame (output_framer st) blk view;
     let st = st\<lparr>capture_blocker := blocker, output_framer := framer, block_processor := p,
                 linear_output_block := lblk, capture_block := blk\<rparr>;
     let capture = write_view view sub_frame_index capture;
     (case (linear, lblk) of
        (None, _) \<Rightarrow> Some (linear_output, capture, st)
      | (Some (lin, framer, lview), Some lblk) \<Rightarrow> do {
          (framer, lview) \<leftarrow> InsertBlockAndExtractSubFrame framer lblk lview;
          Some (Some (write_view lview sub_frame_index lin), capture, st\<lparr>linear_output_framer := Some framer\<rparr>) }
      | (Some _, None) \<Rightarrow> None)
   }"

definition ProcessRemainingCaptureFrameContent ::
    "('a, 'p) process_capture \<Rightarrow> bool \<Rightarrow> bool \<Rightarrow> bool \<Rightarrow> ('a, 'p) capture_path \<Rightarrow> ('a, 'p) capture_path option" where
  "ProcessRemainingCaptureFrameContent process level_change aec_reference_is_downmixed_stereo saturated_microphone_signal st =
     (if \<not> IsBlockAvailable (capture_blocker st) then Some st
      else do {
        (blocker, blk) \<leftarrow> ExtractBlock (capture_blocker st) (capture_block st);
        let (p, lblk, blk) = process (level_change \<or> aec_reference_is_downmixed_stereo) saturated_microphone_signal
                               (block_processor st) (linear_output_block st) blk;
        framer \<leftarrow> InsertBlock (output_framer st) blk;
        let st = st\<lparr>capture_blocker := blocker, output_framer := framer, block_processor := p,
                    linear_output_block := lblk, capture_block := blk\<rparr>;
        (case linear_output_framer st of None \<Rightarrow> Some st
         | Some lframer \<Rightarrow> (case lblk of None \<Rightarrow> None
             | Some lblk \<Rightarrow> do {
                 lframer \<leftarrow> InsertBlock lframer lblk;
                 Some (st\<lparr>linear_output_framer := Some lframer\<rparr>) }))
      })"

text \<open>The part of \<^verbatim>\<open>EchoCanceller3::ProcessCapture\<close> that moves the samples of a frame.\<close>

definition process_capture_frame ::
    "('a, 'p) process_capture \<Rightarrow> 'a audio_buffer option \<Rightarrow> 'a audio_buffer \<Rightarrow> bool \<Rightarrow> bool \<Rightarrow> bool \<Rightarrow>
     ('a, 'p) capture_path \<Rightarrow> ('a audio_buffer option \<times> 'a audio_buffer \<times> ('a, 'p) capture_path) option" where
  "process_capture_frame process linear_output capture level_change downmixed saturated st = do {
     (linear_output, capture, st) \<leftarrow>
       ProcessCaptureFrameContent process linear_output capture level_change downmixed saturated 0 st;
     (linear_output, capture, st) \<leftarrow>
       ProcessCaptureFrameContent process linear_output capture level_change downmixed saturated 1 st;
     st \<leftarrow> ProcessRemainingCaptureFrameContent process level_change downmixed saturated st;
     Some (linear_output, capture, st)
   }"

section \<open>A stage that moves samples\<close>

text \<open>
  The contract of a component that takes frames in and gives frames out without changing the
  samples: what it holds back before a step, followed by what goes in, is what comes out,
  followed by what it holds back afterwards, for each band and channel.
\<close>

fun run_steps :: "('s \<Rightarrow> 'i \<Rightarrow> ('s \<times> 'o) option) \<Rightarrow> 's \<Rightarrow> 'i list \<Rightarrow> ('s \<times> 'o list) option" where
  "run_steps step s [] = Some (s, [])"
| "run_steps step s (i # is) = do {
     (s, out) \<leftarrow> step s i;
     (s, outs) \<leftarrow> run_steps step s is;
     Some (s, out # outs) }"

locale sample_stage =
  fixes step :: "'s \<Rightarrow> 'i \<Rightarrow> ('s \<times> 'o) option"
    and ok :: "'s \<Rightarrow> bool"
    and good :: "'i \<Rightarrow> bool"
    and held :: "'s \<Rightarrow> 'c \<Rightarrow> 'a list"
    and goes_in :: "'i \<Rightarrow> 'c \<Rightarrow> 'a list"
    and comes_out :: "'o \<Rightarrow> 'c \<Rightarrow> 'a list"
    and cell :: "'c \<Rightarrow> bool"
    and fine :: "'o \<Rightarrow> bool"
  assumes stage: "ok s \<Longrightarrow> good i \<Longrightarrow> \<exists>s' out. step s i = Some (s', out) \<and> ok s' \<and> fine out \<and>
    (\<forall>c. cell c \<longrightarrow> held s c @ goes_in i c = comes_out out c @ held s' c)"
begin

lemma run_fifo:
  assumes "ok s" "list_all good is"
  shows "\<exists>s' outs. run_steps step s is = Some (s', outs) \<and> ok s' \<and> list_all fine outs \<and> length outs = length is \<and>
    (\<forall>c. cell c \<longrightarrow> held s c @ concat (map (\<lambda>i. goes_in i c) is) = concat (map (\<lambda>out. comes_out out c) outs) @ held s' c)"
  using assms
proof (induction "is" arbitrary: s)
  case (Cons i "is")
  obtain s1 out where 1: "step s i = Some (s1, out)" "ok s1" "fine out"
    "\<And>c. cell c \<Longrightarrow> held s c @ goes_in i c = comes_out out c @ held s1 c"
    using stage[OF Cons.prems(1), of i] Cons.prems(2) by auto
  obtain s' outs where 2: "run_steps step s1 is = Some (s', outs)" "ok s'" "list_all fine outs" "length outs = length is"
    "\<And>c. cell c \<Longrightarrow> held s1 c @ concat (map (\<lambda>i. goes_in i c) is) = concat (map (\<lambda>out. comes_out out c) outs) @ held s' c"
    using Cons.IH[OF 1(2)] Cons.prems(2) by auto
  have "held s c @ concat (map (\<lambda>i. goes_in i c) (i # is)) = concat (map (\<lambda>out. comes_out out c) (out # outs)) @ held s' c"
    if "cell c" for c
    using 1(4)[OF that] 2(5)[OF that] by (simp flip: append_assoc) simp
  with 1 2 show ?case by auto
qed simp

end

section \<open>Facts about the delay\<close>

definition wf_audio :: "nat \<Rightarrow> nat \<Rightarrow> 'a audio_buffer \<Rightarrow> bool" where
  "wf_audio nb nc ab \<longleftrightarrow> ab_channels ab = nc \<and> ab_bands ab = nb \<and> shaped nc nb (split_bands ab) \<and>
     cells nc nb (\<lambda>c b. length (split_bands ab ! c ! b) = kSplitBandSize)"

lemma delay_loop_fifo:
  assumes "delay_loop d buf xs i = (buf', ys, i')" "length buf = d" "i < d"
  shows "length buf' = d" "i' = (i + length xs) mod d" "length ys = length xs" "rotated i buf @ xs = ys @ rotated i' buf'"
proof -
  have "length buf' = d \<and> i' = (i + length xs) mod d \<and> length ys = length xs \<and> rotated i buf @ xs = ys @ rotated i' buf'"
    using assms
  proof (induction xs arbitrary: buf i buf' ys i')
    case (Cons x xs)
    define j where "j = (if i < d - 1 then i + 1 else 0)"
    obtain ys' where r: "delay_loop d (buf[i := x]) xs j = (buf', ys', i')" "ys = buf ! i # ys'"
      using Cons.prems(1) by (auto simp: j_def Let_def split: prod.splits)
    have j: "j < d" "j mod d = (i + 1) mod d"
    proof -
      have "i + 1 = d" if "\<not> i < d - 1" using that Cons.prems(3) by simp
      then show "j < d" "j mod d = (i + 1) mod d" using Cons.prems(3) by (auto simp: j_def)
    qed
    have ih: "length buf' = d" "i' = (j + length xs) mod d" "length ys' = length xs"
      "rotated j (buf[i := x]) @ xs = ys' @ rotated i' buf'"
      using Cons.IH[OF r(1)] Cons.prems(2) j(1) by auto
    have "(j + length xs) mod d = (i + 1 + length xs) mod d"
      using j(2) by (rule mod_add_cong) simp
    moreover have "rotated i buf @ x # xs = (rotated i buf @ [x]) @ xs" by simp
    then have "rotated i buf @ x # xs = ys @ rotated i' buf'"
      using rotated_push[OF Cons.prems(2,3), of x, folded j_def] ih(4) r(2) by simp
    ultimately show ?case using ih r(2) by simp
  qed simp
  then show "length buf' = d" "i' = (i + length xs) mod d" "length ys = length xs" "rotated i buf @ xs = ys @ rotated i' buf'"
    by auto
qed

definition delay_ok :: "nat \<Rightarrow> nat \<Rightarrow> nat \<Rightarrow> 'a block_delay_buffer \<Rightarrow> bool" where
  "delay_ok nb nc n d \<longleftrightarrow> 0 < nb \<and> 0 < nc \<and> frame_length d = kSplitBandSize \<and> ring_delay d = n \<and> length (delay_buf d) = nc \<and> shaped nc nb (delay_buf d) \<and>
     cells nc nb (\<lambda>c b. length (delay_buf d ! c ! b) = n) \<and> (last_insert d < n \<or> n = 0)"

definition delay_held :: "'a block_delay_buffer \<Rightarrow> nat \<times> nat \<Rightarrow> 'a list" where
  "delay_held d = (\<lambda>(b, c). rotated (last_insert d) (delay_buf d ! c ! b))"

definition band_of :: "'a audio_buffer \<Rightarrow> nat \<times> nat \<Rightarrow> 'a list" where
  "band_of ab = (\<lambda>(b, c). split_bands ab ! c ! b)"

lemma DelaySignal_ok:
  assumes d: "delay_ok nb nc n d" and f: "wf_audio nb nc frame"
  shows "\<exists>d' frame'. DelaySignal d frame = Some (d', frame') \<and> delay_ok nb nc n d' \<and> wf_audio nb nc frame' \<and>
    (\<forall>b<nb. \<forall>c<nc. delay_held d (b, c) @ band_of frame (b, c) = band_of frame' (b, c) @ delay_held d' (b, c))"
proof (cases "n = 0")
  case True
  then have "delay_held d (b, c) = []" if "b < nb" "c < nc" for b c
    using d that by (simp add: delay_held_def rotated_def delay_ok_def cells_def)
  then show ?thesis using True d f by (simp add: DelaySignal_def delay_ok_def wf_audio_def)
next
  case False
  have pos: "0 < nb" "0 < nc" using d by (simp_all add: delay_ok_def)
  define i0 where "i0 = last_insert d"
  define i1 where "i1 = (i0 + kSplitBandSize) mod n"
  have i0: "i0 < n" "i1 < n" using d False by (auto simp: delay_ok_def i0_def i1_def)
  let ?I = "\<lambda>(e, g, _). frame_length e = kSplitBandSize \<and> ring_delay e = n \<and> shaped nc nb (delay_buf e) \<and>
      ab_bands g = nb \<and> ab_channels g = nc \<and> shaped nc nb (split_bands g)"
  let ?pre = "\<lambda>c b (e, g, _). delay_buf e ! c ! b = delay_buf d ! c ! b \<and> split_bands g ! c ! b = split_bands frame ! c ! b"
  let ?post = "\<lambda>c b (e, g, i). length (delay_buf e ! c ! b) = n \<and> length (split_bands g ! c ! b) = kSplitBandSize \<and> i = i1 \<and>
      rotated i0 (delay_buf d ! c ! b) @ split_bands frame ! c ! b = split_bands g ! c ! b @ rotated i1 (delay_buf e ! c ! b)"
  have "\<exists>s'. for_each (band_channels nc nb) (delay_band i0) (d, frame, 0) = Some s' \<and> ?I s' \<and> (\<forall>(c, b)\<in>set (band_channels nc nb). ?post c b s')"
  proof (rule for_each_cells[OF distinct_band_channels, where pre = ?pre])
    fix c b :: nat and s :: "'a block_delay_buffer \<times> 'a audio_buffer \<times> nat"
    assume cb: "(c, b) \<in> set (band_channels nc nb)" and I: "?I s" and p: "?pre c b s"
    obtain e g j where s: "s = (e, g, j)" by (cases s) auto
    have b: "c < nc" "b < nb" using cb by (simp_all add: band_channels_set)
    have l: "length (delay_buf d ! c ! b) = n" "length (split_bands frame ! c ! b) = kSplitBandSize"
      using d f b by (simp_all add: delay_ok_def wf_audio_def cells_def)
    obtain buf out i where r: "delay_loop n (delay_buf d ! c ! b) (split_bands frame ! c ! b) i0 = (buf, out, i)"
      by (metis prod_cases3)
    note q = delay_loop_fifo[OF r l(1) i0(1)]
    have i: "i = i1" using q(2) l by (simp add: i1_def)
    have "copy_to out 0 (split_bands frame ! c ! b) = out" using q(3) by (simp add: copy_to_def)
    moreover have "length (delay_buf e ! c) = nb" using I s b shaped_row by auto
    ultimately have step: "delay_band i0 c b s =
        Some (e\<lparr>delay_buf := set_at c b buf (delay_buf e)\<rparr>, g\<lparr>split_bands := set_at c b out (split_bands g)\<rparr>, i1)"
      using I p s r l i by (simp add: delay_band_def)
    show "\<exists>s'. delay_band i0 c b s = Some s' \<and> ?I s' \<and> ?post c b s' \<and>
        (\<forall>c' b'. (c', b') \<in> set (band_channels nc nb) \<and> (c', b') \<noteq> (c, b) \<longrightarrow>
           (?pre c' b' s \<longrightarrow> ?pre c' b' s') \<and> (?post c' b' s \<longrightarrow> ?post c' b' s'))"
      using step I p b q l i unfolding s
      by (intro exI[of _ "(e\<lparr>delay_buf := set_at c b buf (delay_buf e)\<rparr>, g\<lparr>split_bands := set_at c b out (split_bands g)\<rparr>, i1)"])
        (auto simp: set_at_nth band_channels_set)
  qed (use d f in \<open>auto simp: delay_ok_def wf_audio_def\<close>)
  then obtain e g i where r: "for_each (band_channels nc nb) (delay_band i0) (d, frame, 0) = Some (e, g, i)" "?I (e, g, i)"
    "\<And>c b. c < nc \<Longrightarrow> b < nb \<Longrightarrow> ?post c b (e, g, i)"
    by (auto simp: band_channels_set)
  have "length (delay_buf d ! 0) = nb" "length (delay_buf d) = nc" "ring_delay d = n"
    using d pos by (auto simp: delay_ok_def shaped_row)
  moreover have "i = i1" using r(3)[OF pos(2,1)] by simp
  ultimately have "DelaySignal d frame = Some (e\<lparr>last_insert := i1\<rparr>, g)"
    using False f r(1) by (simp add: DelaySignal_def wf_audio_def i0_def)
  then show ?thesis
    using r(2,3) i0 pos by (auto simp: delay_ok_def wf_audio_def delay_held_def band_of_def cells_def i0_def shaped_def)
qed

interpretation dl: sample_stage DelaySignal "delay_ok nb nc n" "wf_audio nb nc" delay_held band_of band_of "\<lambda>(b, c). b < nb \<and> c < nc" "wf_audio nb nc"
  for nb nc n
  by unfold_locales (use DelaySignal_ok in fastforce)
section \<open>Facts about sub frames\<close>

definition half :: "nat \<Rightarrow> 'a audio_buffer \<Rightarrow> nat \<times> nat \<Rightarrow> 'a list" where
  "half i ab p = take kSubFrameLength (drop (i * kSubFrameLength) (band_of ab p))"

lemma wf_audio_length: "wf_audio nb nc ab \<Longrightarrow> b < nb \<Longrightarrow> c < nc \<Longrightarrow> length (band_of ab (b, c)) = 160"
  by (simp add: wf_audio_def cells_def band_of_def kSplitBandSize_def)

lemma band_halves: "wf_audio nb nc ab \<Longrightarrow> b < nb \<Longrightarrow> c < nc \<Longrightarrow> band_of ab (b, c) = half 0 ab (b, c) @ half 1 ab (b, c)"
  using wf_audio_length[of nb nc ab b c] by (simp add: half_def kSubFrameLength_def)

lemma FillSubFrameView_ok:
  assumes "wf_audio nb nc ab" "i \<le> 1"
  shows "\<exists>v. FillSubFrameView ab i nb nc = Some v \<and> sub_frame_ok nb nc v \<and> cells nb nc (\<lambda>b c. v ! b ! c = half i ab (b, c))"
proof -
  have "i * 80 + 80 \<le> 160" using assms(2) by simp
  then show ?thesis
    using assms
    by (auto simp: FillSubFrameView_def wf_audio_def sub_frame_ok_def cells_def shaped_def half_def band_of_def
        kSubFrameLength_def kSplitBandSize_def)
qed

lemma band_of_write_view:
  "wf_audio nb nc ab \<Longrightarrow> b < nb \<Longrightarrow> c < nc \<Longrightarrow>
   band_of (write_view v i ab) (b, c) = copy_to (v ! b ! c) (i * kSubFrameLength) (band_of ab (b, c))"
  by (simp add: band_of_def write_view_def wf_audio_def)

lemma write_view_ok:
  assumes "wf_audio nb nc ab" "sub_frame_ok nb nc v" "i \<le> 1"
  shows "wf_audio nb nc (write_view v i ab)"
proof -
  have "length (band_of (write_view v i ab) (b, c)) = kSplitBandSize" if "b < nb" "c < nc" for b c
    using assms(2,3) that wf_audio_length[OF assms(1) that] band_of_write_view[OF assms(1) that, of v i]
    by (simp add: sub_frame_ok_def cells_def kSubFrameLength_def kSplitBandSize_def)
  then show ?thesis
    using assms(1) by (simp add: wf_audio_def cells_def band_of_def shaped_def write_view_def)
qed

lemma half_write_view:
  assumes "wf_audio nb nc ab" "sub_frame_ok nb nc v" "i \<le> 1" "j \<le> 1" "b < nb" "c < nc"
  shows "half j (write_view v i ab) (b, c) = (if i = j then v ! b ! c else half j ab (b, c))"
proof -
  have "length (v ! b ! c) = 80" using assms by (simp add: sub_frame_ok_def cells_def kSubFrameLength_def)
  moreover have "i = 0 \<or> i = 1" "j = 0 \<or> j = 1" using assms(3,4) by auto
  ultimately show ?thesis
    using wf_audio_length[OF assms(1,5,6)]
    by (auto simp: half_def band_of_write_view[OF assms(1,5,6)] copy_to_def kSubFrameLength_def)
qed

section \<open>Facts about the capture path\<close>

definition wf_linear :: "nat \<Rightarrow> 'a block option \<Rightarrow> bool" where
  "wf_linear nc l = (case l of None \<Rightarrow> True | Some blk \<Rightarrow> wf_block 1 nc blk)"

text \<open>A block processor changes the samples of its blocks only.\<close>

definition keeps_shape :: "nat \<Rightarrow> nat \<Rightarrow> ('a, 'p) process_capture \<Rightarrow> bool" where
  "keeps_shape nb nc process \<longleftrightarrow> (\<forall>g s p l blk. wf_block nb nc blk \<longrightarrow> wf_linear nc l \<longrightarrow>
     (case process g s p l blk of (p', l', blk') \<Rightarrow> wf_block nb nc blk' \<and> wf_linear nc l' \<and> (l' = None) = (l = None)))"

lemma keeps_shapeD:
  assumes "keeps_shape nb nc process" "wf_block nb nc blk" "wf_linear nc l" "process g s p l blk = (p', l', blk')"
  shows "wf_block nb nc blk'" "wf_linear nc l'" "(l' = None) = (l = None)"
proof -
  have "case process g s p l blk of (p', l', blk') \<Rightarrow> wf_block nb nc blk' \<and> wf_linear nc l' \<and> (l' = None) = (l = None)"
    using assms(1-3) unfolding keeps_shape_def by simp
  then show "wf_block nb nc blk'" "wf_linear nc l'" "(l' = None) = (l = None)" using assms(4) by simp_all
qed

text \<open>The block processor, called on a list of blocks with their flags.\<close>

fun process_blocks ::
    "('a, 'p) process_capture \<Rightarrow> 'p \<times> 'a block option \<Rightarrow> ((bool \<times> bool) \<times> 'a block) list \<Rightarrow> ('p \<times> 'a block option) \<times> 'a block list" where
  "process_blocks process s [] = (s, [])"
| "process_blocks process (p, l) (((gain, sat), blk) # blks) =
     (let (p, l, blk) = process gain sat p l blk; (s, blks) = process_blocks process (p, l) blks in (s, blk # blks))"

lemma process_blocks_append:
  "process_blocks process s xs = (s1, ys) \<Longrightarrow> process_blocks process s1 xs' = (s2, ys') \<Longrightarrow>
   process_blocks process s (xs @ xs') = (s2, ys @ ys')"
  by (induction process s xs arbitrary: ys rule: process_blocks.induct) (auto split: prod.splits)

definition samples :: "nat \<times> nat \<Rightarrow> 'a block list \<Rightarrow> 'a list" where
  "samples p blks = concat (map (\<lambda>blk. View blk (fst p) (snd p)) blks)"

lemma samples_simps [simp]:
  "samples p [] = []" "samples p (blk # blks) = View blk (fst p) (snd p) @ samples p blks" "samples p (xs @ ys) = samples p xs @ samples p ys"
  by (simp_all add: samples_def)

definition in_held :: "('a, 'p) capture_path \<Rightarrow> nat \<times> nat \<Rightarrow> 'a list" where
  "in_held st = (\<lambda>(b, c). fb_buffer (capture_blocker st) ! b ! c)"

definition out_held :: "('a, 'p) capture_path \<Rightarrow> nat \<times> nat \<Rightarrow> 'a list" where
  "out_held st = (\<lambda>(b, c). bf_buffer (output_framer st) ! b ! c)"

text \<open>
  The abstract specification of the path: the samples that go in are cut into blocks, the block
  processor works on them one after the other, and its output is what comes out.
\<close>

definition blockwise ::
    "('a, 'p) process_capture \<Rightarrow> ((bool \<times> bool) \<times> 'a block) set \<Rightarrow> (nat \<times> nat \<Rightarrow> bool) \<Rightarrow> ('a, 'p) capture_path \<Rightarrow> ('a, 'p) capture_path \<Rightarrow>
     (nat \<times> nat \<Rightarrow> 'a list) \<Rightarrow> (nat \<times> nat \<Rightarrow> 'a list) \<Rightarrow> bool" where
  "blockwise process F cell st st' ins outs \<longleftrightarrow>
     (\<exists>blks blks'. process_blocks process (block_processor st, linear_output_block st) blks =
         ((block_processor st', linear_output_block st'), blks') \<and> set blks \<subseteq> F \<and>
       (\<forall>p. cell p \<longrightarrow> in_held st p @ ins p = samples p (map snd blks) @ in_held st' p \<and>
                       out_held st p @ samples p blks' = outs p @ out_held st' p))"

lemma blockwise_refl: "blockwise process F cell st st (\<lambda>_. []) (\<lambda>_. [])"
  unfolding blockwise_def by (intro exI[of _ "[]"]) simp

lemma blockwise_trans:
  assumes "blockwise process F cell st st1 ins outs" "blockwise process F' cell st1 st2 ins' outs'" "F \<union> F' \<subseteq> G"
  shows "blockwise process G cell st st2 (\<lambda>p. ins p @ ins' p) (\<lambda>p. outs p @ outs' p)"
proof -
  obtain xs ys where 1: "process_blocks process (block_processor st, linear_output_block st) xs =
      ((block_processor st1, linear_output_block st1), ys)" "set xs \<subseteq> F"
    "\<And>p. cell p \<Longrightarrow> in_held st p @ ins p = samples p (map snd xs) @ in_held st1 p \<and> out_held st p @ samples p ys = outs p @ out_held st1 p"
    using assms(1) unfolding blockwise_def by auto
  obtain xs' ys' where 2: "process_blocks process (block_processor st1, linear_output_block st1) xs' =
      ((block_processor st2, linear_output_block st2), ys')" "set xs' \<subseteq> F'"
    "\<And>p. cell p \<Longrightarrow> in_held st1 p @ ins' p = samples p (map snd xs') @ in_held st2 p \<and> out_held st1 p @ samples p ys' = outs' p @ out_held st2 p"
    using assms(2) unfolding blockwise_def by auto
  have "in_held st p @ ins p @ ins' p = samples p (map snd (xs @ xs')) @ in_held st2 p \<and>
      out_held st p @ samples p (ys @ ys') = (outs p @ outs' p) @ out_held st2 p" if "cell p" for p
  proof
    have "in_held st p @ ins p @ ins' p = samples p (map snd xs) @ in_held st1 p @ ins' p"
      using 1(3)[OF that] by (metis append_assoc)
    then show "in_held st p @ ins p @ ins' p = samples p (map snd (xs @ xs')) @ in_held st2 p"
      using 2(3)[OF that] by simp
    have "out_held st p @ samples p (ys @ ys') = outs p @ out_held st1 p @ samples p ys'"
      using 1(3)[OF that] by (metis append_assoc samples_simps(3))
    then show "out_held st p @ samples p (ys @ ys') = (outs p @ outs' p) @ out_held st2 p"
      using 2(3)[OF that] by simp
  qed
  moreover have "set (xs @ xs') \<subseteq> G" using 1(2) 2(2) assms(3) by auto
  ultimately show ?thesis
    unfolding blockwise_def using process_blocks_append[OF 1(1) 2(1)] by blast
qed

text \<open>The state of the path when the blocker holds \<open>l\<close> samples of each band and channel.\<close>

definition path_ok :: "nat \<Rightarrow> nat \<Rightarrow> nat \<Rightarrow> ('a, 'p) capture_path \<Rightarrow> bool" where
  "path_ok nb nc l st \<longleftrightarrow> 0 < nb \<and> 0 < nc \<and> l \<le> 64 \<and> blocker_ok nb nc l (capture_blocker st) \<and> framer_ok nb nc (64 - l) (output_framer st) \<and>
     wf_block nb nc (capture_block st) \<and> wf_linear nc (linear_output_block st)"

definition linear_ok :: "nat \<Rightarrow> nat \<Rightarrow> ('a, 'p) capture_path \<Rightarrow> bool" where
  "linear_ok nc l st \<longleftrightarrow> (\<exists>f. linear_output_framer st = Some f \<and> framer_ok 1 nc (64 - l) f) \<and> linear_output_block st \<noteq> None"

lemma content_ok:
  assumes st: "path_ok nb nc l st" "l \<le> 48" and cap: "wf_audio nb nc cap" and i: "i \<le> 1" and process: "keeps_shape nb nc process"
    and lin: "lin = None \<or> (\<exists>ab. lin = Some ab \<and> wf_audio 1 nc ab \<and> linear_ok nc l st)"
  shows "\<exists>lin' cap' st'. ProcessCaptureFrameContent process lin cap lc dm sat i st = Some (lin', cap', st') \<and>
    path_ok nb nc (l + 16) st' \<and> wf_audio nb nc cap' \<and>
    blockwise process ({(lc \<or> dm, sat)} \<times> Collect (wf_block nb nc)) (\<lambda>(b, c). b < nb \<and> c < nc) st st' (half i cap) (half i cap') \<and>
    (\<forall>j\<le>1. \<forall>b<nb. \<forall>c<nc. j \<noteq> i \<longrightarrow> half j cap' (b, c) = half j cap (b, c)) \<and>
    (lin = None \<longrightarrow> lin' = None \<and> linear_output_framer st' = linear_output_framer st) \<and>
    (lin \<noteq> None \<longrightarrow> (\<exists>ab'. lin' = Some ab' \<and> wf_audio 1 nc ab') \<and> linear_ok nc (l + 16) st')"
proof -
  obtain v where v: "FillSubFrameView cap i nb nc = Some v" "sub_frame_ok nb nc v" "cells nb nc (\<lambda>b c. v ! b ! c = half i cap (b, c))"
    using FillSubFrameView_ok[OF cap i] by blast
  have s: "blocker_ok nb nc l (capture_blocker st)" "framer_ok nb nc (64 - l) (output_framer st)" "wf_block nb nc (capture_block st)"
    "wf_linear nc (linear_output_block st)"
    using st by (simp_all add: path_ok_def)
  obtain fb blk where fb: "InsertSubFrameAndExtractBlock (capture_blocker st) v (capture_block st) = Some (fb, blk)"
    "blocker_ok nb nc (l + 16) fb" "wf_block nb nc blk"
    "cells nb nc (\<lambda>b c. fb_buffer (capture_blocker st) ! b ! c @ v ! b ! c = View blk b c @ fb_buffer fb ! b ! c)"
    using insert_sub_frame_ok[OF s(1) st(2) v(2) s(3)] by blast
  obtain p lb blk' where p: "process (lc \<or> dm) sat (block_processor st) (linear_output_block st) blk = (p, lb, blk')"
    by (metis prod_cases3)
  note shape = keeps_shapeD[OF process fb(3) s(4) p]
  have l: "16 \<le> 64 - l" "64 - l \<le> 64" "64 - l - 16 = 64 - (l + 16)" using st(2) by simp_all
  obtain bf v' where bf: "InsertBlockAndExtractSubFrame (output_framer st) blk' v = Some (bf, v')"
    "framer_ok nb nc (64 - (l + 16)) bf" "sub_frame_ok nb nc v'"
    "cells nb nc (\<lambda>b c. bf_buffer (output_framer st) ! b ! c @ View blk' b c = v' ! b ! c @ bf_buffer bf ! b ! c)"
    using extract_sub_frame_ok[OF s(2) l(1,2) shape(1) v(2)] unfolding l(3) by blast
  define st1 where "st1 = st\<lparr>capture_blocker := fb, output_framer := bf, block_processor := p,
      linear_output_block := lb, capture_block := blk'\<rparr>"
  define cap' where "cap' = write_view v' i cap"
  have cap': "wf_audio nb nc cap'" unfolding cap'_def by (rule write_view_ok[OF cap bf(3) i])
  have h: "half j cap' (b, c) = (if i = j then v' ! b ! c else half j cap (b, c))" if "j \<le> 1" "b < nb" "c < nc" for j b c
    unfolding cap'_def by (rule half_write_view[OF cap bf(3) i that])
  have b1: "blockwise process ({(lc \<or> dm, sat)} \<times> Collect (wf_block nb nc)) (\<lambda>(b, c). b < nb \<and> c < nc) st st1 (half i cap) (half i cap')"
    unfolding blockwise_def
  proof (intro exI conjI)
    show "process_blocks process (block_processor st, linear_output_block st) [((lc \<or> dm, sat), blk)] =
        ((block_processor st1, linear_output_block st1), [blk'])"
      using p by (simp add: st1_def)
    show "\<forall>q. (case q of (b, c) \<Rightarrow> b < nb \<and> c < nc) \<longrightarrow>
        in_held st q @ half i cap q = samples q (map snd [((lc \<or> dm, sat), blk)]) @ in_held st1 q \<and>
        out_held st q @ samples q [blk'] = half i cap' q @ out_held st1 q"
      using fb(4) bf(4) v(3) h[OF i] by (auto simp: in_held_def out_held_def cells_def st1_def)
  qed (simp add: fb(3))
  have ok1: "path_ok nb nc (l + 16) st1" using st(1,2) fb bf shape by (simp add: path_ok_def st1_def)
  have dims: "bf_bands (output_framer st) = nb" "bf_channels (output_framer st) = nc" using s(2) by (simp_all add: framer_ok_def)
  note run = ProcessCaptureFrameContent_def dims v(1) fb(1) p bf(1)
  show ?thesis
  proof (cases lin)
    case None
    have "ProcessCaptureFrameContent process lin cap lc dm sat i st = Some (None, cap', st1)"
      unfolding None by (simp add: run st1_def cap'_def)
    with b1 ok1 cap' h i None show ?thesis by (simp add: st1_def)
  next
    case (Some ab)
    then obtain f lb0 where f: "wf_audio 1 nc ab" "linear_output_framer st = Some f" "framer_ok 1 nc (64 - l) f" "linear_output_block st = Some lb0"
      using lin by (auto simp: linear_ok_def)
    then obtain lb1 where lb1: "lb = Some lb1" using shape(3) by auto
    obtain w where w: "FillSubFrameView ab i 1 nc = Some w" "sub_frame_ok 1 nc w" using FillSubFrameView_ok[OF f(1) i] by blast
    have "wf_block 1 nc lb1" using shape(2) lb1 by (simp add: wf_linear_def)
    then obtain f' w' where f': "InsertBlockAndExtractSubFrame f lb1 w = Some (f', w')" "framer_ok 1 nc (64 - (l + 16)) f'" "sub_frame_ok 1 nc w'"
      using extract_sub_frame_ok[OF f(3) l(1,2) _ w(2)] unfolding l(3) by blast
    define st2 where "st2 = st1\<lparr>linear_output_framer := Some f'\<rparr>"
    have ch: "bf_channels f = nc" using f(3) by (simp add: framer_ok_def)
    have "ProcessCaptureFrameContent process lin cap lc dm sat i st = Some (Some (write_view w' i ab), cap', st2)"
      unfolding Some using lb1 by (simp add: run f(2,4) p[unfolded f(4)] ch w(1)[unfolded One_nat_def] f'(1) st1_def st2_def cap'_def)
    moreover have "path_ok nb nc (l + 16) st2" using ok1 by (simp add: path_ok_def st2_def)
    moreover have "blockwise process ({(lc \<or> dm, sat)} \<times> Collect (wf_block nb nc)) (\<lambda>(b, c). b < nb \<and> c < nc) st st2 (half i cap) (half i cap')"
      using b1 by (simp add: blockwise_def st2_def in_held_def out_held_def)
    moreover have "linear_ok nc (l + 16) st2" using f'(2) lb1 by (simp add: linear_ok_def st2_def st1_def)
    ultimately show ?thesis using write_view_ok[OF f(1) f'(3) i] h i cap' Some by simp
  qed
qed

lemma remaining_ok:
  assumes st: "path_ok nb nc l st" and l: "l = 32 \<or> l = 64" and process: "keeps_shape nb nc process"
    and lin: "linear_output_framer st = None \<or> linear_ok nc l st"
  shows "\<exists>st'. ProcessRemainingCaptureFrameContent process lc dm sat st = Some st' \<and> path_ok nb nc (l mod 64) st' \<and>
    blockwise process ({(lc \<or> dm, sat)} \<times> Collect (wf_block nb nc)) (\<lambda>(b, c). b < nb \<and> c < nc) st st' (\<lambda>_. []) (\<lambda>_. []) \<and>
    (linear_output_framer st = None \<longrightarrow> linear_output_framer st' = None) \<and> (linear_output_framer st \<noteq> None \<longrightarrow> linear_ok nc (l mod 64) st')"
proof -
  have s: "blocker_ok nb nc l (capture_blocker st)" "framer_ok nb nc (64 - l) (output_framer st)" "wf_block nb nc (capture_block st)"
    "wf_linear nc (linear_output_block st)" "0 < nb" "0 < nc"
    using st by (simp_all add: path_ok_def)
  have avail: "IsBlockAvailable (capture_blocker st) \<longleftrightarrow> l = 64"
    using s by (auto simp: IsBlockAvailable_def blocker_ok_def cells_def kBlockSize_def)
  show ?thesis
  proof (cases "l = 64")
    case False
    then have "ProcessRemainingCaptureFrameContent process lc dm sat st = Some st" "l mod 64 = l"
      using avail l by (auto simp: ProcessRemainingCaptureFrameContent_def)
    moreover have "blockwise process ({(lc \<or> dm, sat)} \<times> Collect (wf_block nb nc)) (\<lambda>(b, c). b < nb \<and> c < nc) st st (\<lambda>_. []) (\<lambda>_. [])"
      by (rule blockwise_refl)
    ultimately show ?thesis using st lin by auto
  next
    case True
    have s64: "blocker_ok nb nc 64 (capture_blocker st)" "framer_ok nb nc 0 (output_framer st)" using s True by simp_all
    obtain fb blk where fb: "ExtractBlock (capture_blocker st) (capture_block st) = Some (fb, blk)"
      "blocker_ok nb nc 0 fb" "wf_block nb nc blk" "cells nb nc (\<lambda>b c. fb_buffer (capture_blocker st) ! b ! c = View blk b c)"
      using extract_block_ok[OF s64(1) s(5,6,3)] by blast
    obtain p lb blk' where p: "process (lc \<or> dm) sat (block_processor st) (linear_output_block st) blk = (p, lb, blk')"
      by (metis prod_cases3)
    note shape = keeps_shapeD[OF process fb(3) s(4) p]
    obtain bf where bf: "InsertBlock (output_framer st) blk' = Some bf" "framer_ok nb nc 64 bf"
      "cells nb nc (\<lambda>b c. View blk' b c = bf_buffer bf ! b ! c)"
      using insert_block_ok[OF s64(2) shape(1)] by blast
    define st1 where "st1 = st\<lparr>capture_blocker := fb, output_framer := bf, block_processor := p,
        linear_output_block := lb, capture_block := blk'\<rparr>"
    have empty: "fb_buffer fb ! b ! c = []" "bf_buffer (output_framer st) ! b ! c = []" if "b < nb" "c < nc" for b c
      using fb(2) s64(2) that by (simp_all add: blocker_ok_def framer_ok_def cells_def)
    have b1: "blockwise process ({(lc \<or> dm, sat)} \<times> Collect (wf_block nb nc)) (\<lambda>(b, c). b < nb \<and> c < nc) st st1 (\<lambda>_. []) (\<lambda>_. [])"
      unfolding blockwise_def
    proof (intro exI conjI)
      show "process_blocks process (block_processor st, linear_output_block st) [((lc \<or> dm, sat), blk)] =
          ((block_processor st1, linear_output_block st1), [blk'])"
        using p by (simp add: st1_def)
      show "\<forall>q. (case q of (b, c) \<Rightarrow> b < nb \<and> c < nc) \<longrightarrow>
          in_held st q @ [] = samples q (map snd [((lc \<or> dm, sat), blk)]) @ in_held st1 q \<and> out_held st q @ samples q [blk'] = [] @ out_held st1 q"
        using fb(4) bf(3) empty by (auto simp: in_held_def out_held_def cells_def st1_def)
    qed (simp add: fb(3))
    have ok1: "path_ok nb nc 0 st1" using st fb bf shape by (simp add: path_ok_def st1_def)
    note run = ProcessRemainingCaptureFrameContent_def avail True fb(1) p bf(1)
    show ?thesis
    proof (cases "linear_output_framer st")
      case None
      have "ProcessRemainingCaptureFrameContent process lc dm sat st = Some st1" by (simp add: run None st1_def)
      with b1 ok1 None True show ?thesis by (simp add: st1_def)
    next
      case (Some f)
      then have f: "framer_ok 1 nc 0 f" "linear_output_block st \<noteq> None" using lin True by (auto simp: linear_ok_def)
      then obtain lb1 where lb1: "lb = Some lb1" using shape(3) by auto
      then have "wf_block 1 nc lb1" using shape(2) by (simp add: wf_linear_def)
      then obtain f' where f': "InsertBlock f lb1 = Some f'" "framer_ok 1 nc 64 f'" using insert_block_ok[OF f(1)] by blast
      define st2 where "st2 = st1\<lparr>linear_output_framer := Some f'\<rparr>"
      have "ProcessRemainingCaptureFrameContent process lc dm sat st = Some st2" using lb1 by (simp add: run Some f'(1) st1_def st2_def)
      moreover have "path_ok nb nc 0 st2" using ok1 by (simp add: path_ok_def st2_def)
      moreover have "blockwise process ({(lc \<or> dm, sat)} \<times> Collect (wf_block nb nc)) (\<lambda>(b, c). b < nb \<and> c < nc) st st2 (\<lambda>_. []) (\<lambda>_. [])"
        using b1 by (simp add: blockwise_def st2_def in_held_def out_held_def)
      moreover have "linear_ok nc 0 st2" using f'(2) lb1 by (simp add: linear_ok_def st2_def st1_def)
      ultimately show ?thesis using Some True by simp
    qed
  qed
qed

lemma blockwise_cong:
  assumes "blockwise process F cell st st' ins outs" "\<And>p. cell p \<Longrightarrow> ins p = ins' p" "\<And>p. cell p \<Longrightarrow> outs p = outs' p"
  shows "blockwise process F cell st st' ins' outs'"
proof -
  obtain blks blks' where b: "process_blocks process (block_processor st, linear_output_block st) blks =
      ((block_processor st', linear_output_block st'), blks')" "set blks \<subseteq> F"
    "\<forall>p. cell p \<longrightarrow> in_held st p @ ins p = samples p (map snd blks) @ in_held st' p \<and>
       out_held st p @ samples p blks' = outs p @ out_held st' p"
    using assms(1) unfolding blockwise_def by (elim exE conjE) (rule that)
  have "\<forall>p. cell p \<longrightarrow> in_held st p @ ins' p = samples p (map snd blks) @ in_held st' p \<and>
       out_held st p @ samples p blks' = outs' p @ out_held st' p"
    using b(3) assms(2,3) by simp
  then show ?thesis unfolding blockwise_def using b(1,2) by (intro exI conjI)
qed

lemma frame_ok:
  assumes st: "path_ok nb nc l st" "l \<in> {0, 32}" and cap: "wf_audio nb nc cap" and process: "keeps_shape nb nc process"
    and lin: "lin = None \<and> linear_output_framer st = None \<or> (\<exists>ab. lin = Some ab \<and> wf_audio 1 nc ab \<and> linear_ok nc l st)"
  shows "\<exists>lin' cap' st'. process_capture_frame process lin cap lc dm sat st = Some (lin', cap', st') \<and>
    path_ok nb nc (32 - l) st' \<and> wf_audio nb nc cap' \<and>
    blockwise process ({(lc \<or> dm, sat)} \<times> Collect (wf_block nb nc)) (\<lambda>(b, c). b < nb \<and> c < nc) st st' (band_of cap) (band_of cap') \<and>
    (lin = None \<longrightarrow> lin' = None \<and> linear_output_framer st' = None) \<and>
    (lin \<noteq> None \<longrightarrow> (\<exists>ab'. lin' = Some ab' \<and> wf_audio 1 nc ab') \<and> linear_ok nc (32 - l) st')"
proof -
  let ?cell = "\<lambda>(b, c). b < nb \<and> c < nc" and ?F = "({(lc \<or> dm, sat)} \<times> Collect (wf_block nb nc))"
  have l: "l \<le> 48" "l + 16 \<le> 48" "l + 16 + 16 = 32 \<or> l + 16 + 16 = 64" "(l + 16 + 16) mod 64 = 32 - l" using st(2) by auto
  have lin0: "lin = None \<or> (\<exists>ab. lin = Some ab \<and> wf_audio 1 nc ab \<and> linear_ok nc l st)" using lin by auto
  obtain lin1 cap1 st1 where 1: "ProcessCaptureFrameContent process lin cap lc dm sat 0 st = Some (lin1, cap1, st1)"
    "path_ok nb nc (l + 16) st1" "wf_audio nb nc cap1" "blockwise process ?F ?cell st st1 (half 0 cap) (half 0 cap1)"
    "\<forall>j\<le>1. \<forall>b<nb. \<forall>c<nc. j \<noteq> 0 \<longrightarrow> half j cap1 (b, c) = half j cap (b, c)"
    "lin = None \<longrightarrow> lin1 = None \<and> linear_output_framer st1 = linear_output_framer st"
    "lin \<noteq> None \<longrightarrow> (\<exists>ab'. lin1 = Some ab' \<and> wf_audio 1 nc ab') \<and> linear_ok nc (l + 16) st1"
    using content_ok[OF st(1) l(1) cap le0 process lin0, of lc dm sat] by (elim exE conjE) (rule that)
  have lin1: "lin1 = None \<or> (\<exists>ab. lin1 = Some ab \<and> wf_audio 1 nc ab \<and> linear_ok nc (l + 16) st1)" using 1(6,7) by (cases lin) auto
  obtain lin2 cap2 st2 where 2: "ProcessCaptureFrameContent process lin1 cap1 lc dm sat 1 st1 = Some (lin2, cap2, st2)"
    "path_ok nb nc (l + 16 + 16) st2" "wf_audio nb nc cap2" "blockwise process ?F ?cell st1 st2 (half 1 cap1) (half 1 cap2)"
    "\<forall>j\<le>1. \<forall>b<nb. \<forall>c<nc. j \<noteq> 1 \<longrightarrow> half j cap2 (b, c) = half j cap1 (b, c)"
    "lin1 = None \<longrightarrow> lin2 = None \<and> linear_output_framer st2 = linear_output_framer st1"
    "lin1 \<noteq> None \<longrightarrow> (\<exists>ab'. lin2 = Some ab' \<and> wf_audio 1 nc ab') \<and> linear_ok nc (l + 16 + 16) st2"
    using content_ok[OF 1(2) l(2) 1(3) order.refl process lin1, of lc dm sat] by (elim exE conjE) (rule that)
  have lin2: "linear_output_framer st2 = None \<or> linear_ok nc (l + 16 + 16) st2" using lin 1(6,7) 2(6,7) by (cases lin) auto
  obtain st3 where 3: "ProcessRemainingCaptureFrameContent process lc dm sat st2 = Some st3" "path_ok nb nc (32 - l) st3"
    "blockwise process ?F ?cell st2 st3 (\<lambda>_. []) (\<lambda>_. [])"
    "linear_output_framer st2 = None \<longrightarrow> linear_output_framer st3 = None" "linear_output_framer st2 \<noteq> None \<longrightarrow> linear_ok nc (32 - l) st3"
    using remaining_ok[OF 2(2) l(3) process lin2, of lc dm sat] unfolding l(4) by (elim exE conjE) (rule that)
  have "blockwise process ?F ?cell st st3 (\<lambda>p. (half 0 cap p @ half 1 cap1 p) @ []) (\<lambda>p. (half 0 cap1 p @ half 1 cap2 p) @ [])"
    by (rule blockwise_trans[OF blockwise_trans[OF 1(4) 2(4) order.refl] 3(3)]) simp
  then have "blockwise process ?F ?cell st st3 (band_of cap) (band_of cap2)"
  proof (rule blockwise_cong)
    fix p :: "nat \<times> nat" assume "?cell p"
    then obtain b c where p: "p = (b, c)" "b < nb" "c < nc" by (cases p) auto
    show "(half 0 cap p @ half 1 cap1 p) @ [] = band_of cap p"
      using band_halves[OF cap p(2,3)] 1(5) p by simp
    show "(half 0 cap1 p @ half 1 cap2 p) @ [] = band_of cap2 p"
      using band_halves[OF 2(3) p(2,3)] 2(5) p by simp
  qed
  moreover have "process_capture_frame process lin cap lc dm sat st = Some (lin2, cap2, st3)"
    by (simp add: process_capture_frame_def 1(1) 2(1) 3(1) del: One_nat_def)
  moreover have "lin = None \<longrightarrow> lin2 = None \<and> linear_output_framer st3 = None" using lin 1(6) 2(6) 3(4) by auto
  moreover have "lin \<noteq> None \<longrightarrow> (\<exists>ab'. lin2 = Some ab' \<and> wf_audio 1 nc ab') \<and> linear_ok nc (32 - l) st3"
    using 1(7) 2(7) 3(5) by (auto simp: linear_ok_def)
  ultimately show ?thesis using 3(2) 2(3) by (intro exI conjI)
qed

section \<open>Runs of the capture path\<close>

record 'a capture_call =
  cc_linear :: "'a audio_buffer option"
  cc_capture :: "'a audio_buffer"
  cc_level_change :: bool
  cc_downmixed :: bool
  cc_saturated :: bool

definition capture_step :: "('a, 'p) process_capture \<Rightarrow> ('a, 'p) capture_path \<Rightarrow> 'a capture_call \<Rightarrow>
    (('a, 'p) capture_path \<times> 'a audio_buffer option \<times> 'a audio_buffer) option" where
  "capture_step process st call = do {
     (lin, cap, st) \<leftarrow> process_capture_frame process (cc_linear call) (cc_capture call) (cc_level_change call)
                          (cc_downmixed call) (cc_saturated call) st;
     Some (st, lin, cap) }"

definition at_border :: "nat \<Rightarrow> nat \<Rightarrow> bool \<Rightarrow> ('a, 'p) capture_path \<Rightarrow> bool" where
  "at_border nb nc export_linear st \<longleftrightarrow> (\<exists>l\<in>{0, 32}. path_ok nb nc l st \<and>
     (if export_linear then linear_ok nc l st else linear_output_framer st = None))"

definition good_call :: "nat \<Rightarrow> nat \<Rightarrow> bool \<Rightarrow> 'a capture_call \<Rightarrow> bool" where
  "good_call nb nc export_linear call \<longleftrightarrow> wf_audio nb nc (cc_capture call) \<and>
     (case cc_linear call of None \<Rightarrow> \<not> export_linear | Some ab \<Rightarrow> export_linear \<and> wf_audio 1 nc ab)"

definition call_flags :: "'a capture_call \<Rightarrow> bool \<times> bool" where
  "call_flags call = (cc_level_change call \<or> cc_downmixed call, cc_saturated call)"

lemma capture_step_ok:
  assumes "at_border nb nc ex st" "good_call nb nc ex call" "keeps_shape nb nc process"
  shows "\<exists>st' lin' cap'. capture_step process st call = Some (st', lin', cap') \<and> at_border nb nc ex st' \<and> wf_audio nb nc cap' \<and>
    blockwise process ({call_flags call} \<times> Collect (wf_block nb nc)) (\<lambda>(b, c). b < nb \<and> c < nc) st st' (band_of (cc_capture call)) (band_of cap')"
proof -
  obtain l where l: "l \<in> {0, 32}" "path_ok nb nc l st" "if ex then linear_ok nc l st else linear_output_framer st = None"
    using assms(1) by (auto simp: at_border_def)
  have lin: "cc_linear call = None \<and> linear_output_framer st = None \<or> (\<exists>ab. cc_linear call = Some ab \<and> wf_audio 1 nc ab \<and> linear_ok nc l st)"
    using assms(2) l(3) by (auto simp: good_call_def split: option.splits if_splits)
  have cap: "wf_audio nb nc (cc_capture call)" using assms(2) by (simp add: good_call_def)
  obtain lin' cap' st' where r: "process_capture_frame process (cc_linear call) (cc_capture call) (cc_level_change call)
      (cc_downmixed call) (cc_saturated call) st = Some (lin', cap', st')"
    "path_ok nb nc (32 - l) st'" "wf_audio nb nc cap'"
    "blockwise process ({call_flags call} \<times> Collect (wf_block nb nc)) (\<lambda>(b, c). b < nb \<and> c < nc) st st' (band_of (cc_capture call)) (band_of cap')"
    "cc_linear call = None \<longrightarrow> lin' = None \<and> linear_output_framer st' = None"
    "cc_linear call \<noteq> None \<longrightarrow> (\<exists>ab'. lin' = Some ab' \<and> wf_audio 1 nc ab') \<and> linear_ok nc (32 - l) st'"
    using frame_ok[OF l(2,1) cap assms(3) lin, of "cc_level_change call" "cc_downmixed call" "cc_saturated call"]
    unfolding call_flags_def[symmetric] by (elim exE conjE) (rule that)
  have "if ex then linear_ok nc (32 - l) st' else linear_output_framer st' = None"
    using r(5,6) assms(2) by (auto simp: good_call_def split: option.splits)
  moreover have "32 - l \<in> {0, 32}" using l(1) by auto
  ultimately have "at_border nb nc ex st'" using r(2) by (auto simp: at_border_def)
  with r show ?thesis by (simp add: capture_step_def)
qed

definition all_in :: "'a capture_call list \<Rightarrow> nat \<times> nat \<Rightarrow> 'a list" where
  "all_in calls p = concat (map (\<lambda>call. band_of (cc_capture call) p) calls)"

definition all_out :: "('a audio_buffer option \<times> 'a audio_buffer) list \<Rightarrow> nat \<times> nat \<Rightarrow> 'a list" where
  "all_out outs p = concat (map (\<lambda>out. band_of (snd out) p) outs)"

lemma capture_run_ok:
  assumes "at_border nb nc ex st" "list_all (good_call nb nc ex) calls" "keeps_shape nb nc process"
  shows "\<exists>st' outs. run_steps (capture_step process) st calls = Some (st', outs) \<and> at_border nb nc ex st' \<and>
    list_all (\<lambda>out. wf_audio nb nc (snd out)) outs \<and> length outs = length calls \<and>
    blockwise process ((call_flags ` set calls) \<times> Collect (wf_block nb nc)) (\<lambda>(b, c). b < nb \<and> c < nc) st st' (all_in calls) (all_out outs)"
  using assms(1,2)
proof (induction calls arbitrary: st)
  case Nil
  have "blockwise process {} (\<lambda>(b, c). b < nb \<and> c < nc) st st (all_in []) (all_out [])"
    by (rule blockwise_cong[OF blockwise_refl]) (simp_all add: all_in_def all_out_def)
  then show ?case using Nil.prems by simp
next
  case (Cons call calls)
  obtain st1 lin1 cap1 where 1: "capture_step process st call = Some (st1, lin1, cap1)" "at_border nb nc ex st1" "wf_audio nb nc cap1"
    "blockwise process ({call_flags call} \<times> Collect (wf_block nb nc)) (\<lambda>(b, c). b < nb \<and> c < nc) st st1 (band_of (cc_capture call)) (band_of cap1)"
    using capture_step_ok[OF Cons.prems(1) _ assms(3), of call] Cons.prems(2) by auto
  obtain st2 outs where 2: "run_steps (capture_step process) st1 calls = Some (st2, outs)" "at_border nb nc ex st2"
    "list_all (\<lambda>out. wf_audio nb nc (snd out)) outs" "length outs = length calls"
    "blockwise process ((call_flags ` set calls) \<times> Collect (wf_block nb nc)) (\<lambda>(b, c). b < nb \<and> c < nc) st1 st2 (all_in calls) (all_out outs)"
    using Cons.IH[OF 1(2)] Cons.prems(2) by auto
  have "blockwise process ((call_flags ` set (call # calls)) \<times> Collect (wf_block nb nc)) (\<lambda>(b, c). b < nb \<and> c < nc) st st2
      (\<lambda>p. band_of (cc_capture call) p @ all_in calls p) (\<lambda>p. band_of cap1 p @ all_out outs p)"
    by (rule blockwise_trans[OF 1(4) 2(5)]) auto
  then have "blockwise process ((call_flags ` set (call # calls)) \<times> Collect (wf_block nb nc)) (\<lambda>(b, c). b < nb \<and> c < nc) st st2
      (all_in (call # calls)) (all_out ((lin1, cap1) # outs))"
    by (rule blockwise_cong) (simp_all add: all_in_def all_out_def)
  with 1 2 show ?case by auto
qed

lemma new_capture_path_ok:
  assumes "0 < nb" "0 < nc"
  shows "at_border nb nc ex (new_capture_path zero processor ex nb nc)"
proof -
  have "path_ok nb nc 0 (new_capture_path zero processor ex nb nc)"
    using assms by (simp add: path_ok_def new_capture_path_def blocker_ok_def framer_ok_def new_frame_blocker_def new_block_framer_def
      shaped_def cells_def wf_block_def new_block_def wf_linear_def kBlockSize_def)
  moreover have "if ex then linear_ok nc 0 (new_capture_path zero processor ex nb nc)
      else linear_output_framer (new_capture_path zero processor ex nb nc) = None"
    using assms by (auto simp: linear_ok_def new_capture_path_def framer_ok_def new_block_framer_def shaped_def cells_def kBlockSize_def)
  ultimately show ?thesis by (auto simp: at_border_def)
qed

text \<open>A block processor that does not change the capture block makes the path a stage that moves samples.\<close>

definition bypass :: "('a, 'p) process_capture" where
  "bypass gain sat p l blk = (p, l, blk)"

lemma keeps_shape_bypass [simp]: "keeps_shape nb nc bypass"
  by (simp add: keeps_shape_def bypass_def)

lemma process_blocks_bypass: "process_blocks bypass s blks = (s, map snd blks)"
  by (induction blks arbitrary: s) (auto simp: bypass_def)

definition path_held :: "('a, 'p) capture_path \<Rightarrow> nat \<times> nat \<Rightarrow> 'a list" where
  "path_held st p = out_held st p @ in_held st p"

lemma blockwise_bypass:
  assumes "blockwise bypass F cell st st' ins outs" "cell p"
  shows "path_held st p @ ins p = outs p @ path_held st' p"
proof -
  obtain blks blks' where "process_blocks bypass (block_processor st, linear_output_block st) blks =
      ((block_processor st', linear_output_block st'), blks')"
    and all: "\<forall>p. cell p \<longrightarrow> in_held st p @ ins p = samples p (map snd blks) @ in_held st' p \<and> out_held st p @ samples p blks' = outs p @ out_held st' p"
    using assms(1) unfolding blockwise_def by (elim exE conjE) (rule that)
  moreover have b: "in_held st p @ ins p = samples p (map snd blks) @ in_held st' p"
    "out_held st p @ samples p blks' = outs p @ out_held st' p" using all[THEN spec, of p] assms(2) by blast+
  ultimately have "blks' = map snd blks" by (simp add: process_blocks_bypass)
  with b show ?thesis unfolding path_held_def by (metis append_assoc)
qed

lemma bypass_stage:
  assumes "at_border nb nc ex st" "good_call nb nc ex call"
  shows "\<exists>st' out. capture_step bypass st call = Some (st', out) \<and> at_border nb nc ex st' \<and> wf_audio nb nc (snd out) \<and>
    (\<forall>p. (case p of (b, c) \<Rightarrow> b < nb \<and> c < nc) \<longrightarrow> path_held st p @ band_of (cc_capture call) p = band_of (snd out) p @ path_held st' p)"
proof -
  obtain st' lin' cap' where r: "capture_step bypass st call = Some (st', lin', cap')" "at_border nb nc ex st'" "wf_audio nb nc cap'"
    "blockwise bypass ({call_flags call} \<times> Collect (wf_block nb nc)) (\<lambda>(b, c). b < nb \<and> c < nc) st st' (band_of (cc_capture call)) (band_of cap')"
    using capture_step_ok[OF assms keeps_shape_bypass] by (elim exE conjE) (rule that)
  show ?thesis
    using r(1-3) blockwise_bypass[OF r(4)] by (intro exI[of _ st'] exI[of _ "(lin', cap')"]) simp
qed

interpretation cp: sample_stage "capture_step bypass" "at_border nb nc ex" "good_call nb nc ex" path_held
    "\<lambda>call. band_of (cc_capture call)" "\<lambda>out. band_of (snd out)" "\<lambda>(b, c). b < nb \<and> c < nc" "\<lambda>out. wf_audio nb nc (snd out)"
  for nb nc ex
  by unfold_locales (rule bypass_stage)

section \<open>The properties of the capture path\<close>

lemma new_in_held [simp]: "b < nb \<Longrightarrow> c < nc \<Longrightarrow> in_held (new_capture_path zero processor ex nb nc) (b, c) = []"
  by (simp add: in_held_def new_capture_path_def new_frame_blocker_def)

lemma new_out_held [simp]: "b < nb \<Longrightarrow> c < nc \<Longrightarrow> out_held (new_capture_path zero processor ex nb nc) (b, c) = replicate 64 zero"
  by (simp add: out_held_def new_capture_path_def new_block_framer_def kBlockSize_def)

lemma at_border_held:
  assumes "at_border nb nc ex st" "b < nb" "c < nc"
  shows "length (in_held st (b, c)) \<in> {0, 32}" "length (out_held st (b, c)) = 64 - length (in_held st (b, c))"
  using assms by (auto simp: at_border_def path_ok_def blocker_ok_def framer_ok_def cells_def in_held_def out_held_def)

text \<open>
  C11: The capture path refines its abstract specification. On a new path, every sequence of
  well-formed frames is processed without a failed check; for each band and channel the samples
  that went in are the blocks the block processor got followed by the 0 or 32 samples that wait,
  and the samples that came out are 64 zeros followed by the blocks it returned.
\<close>

theorem capture_path_blockwise:
  assumes "0 < nb" "0 < nc" "keeps_shape nb nc process" "list_all (good_call nb nc ex) calls"
  shows "\<exists>st outs blks blks'.
    run_steps (capture_step process) (new_capture_path zero processor ex nb nc) calls = Some (st, outs) \<and>
    process_blocks process (processor, if ex then Some (new_block 1 nc zero) else None) blks =
      ((block_processor st, linear_output_block st), blks') \<and>
    fst ` set blks \<subseteq> call_flags ` set calls \<and> length outs = length calls \<and>
    (\<forall>b<nb. \<forall>c<nc. all_in calls (b, c) = samples (b, c) (map snd blks) @ in_held st (b, c) \<and>
       length (in_held st (b, c)) \<in> {0, 32} \<and>
       replicate 64 zero @ samples (b, c) blks' = all_out outs (b, c) @ out_held st (b, c))"
proof -
  let ?st = "new_capture_path zero processor ex nb nc"
  obtain st outs where r: "run_steps (capture_step process) ?st calls = Some (st, outs)" "at_border nb nc ex st" "length outs = length calls"
    "blockwise process ((call_flags ` set calls) \<times> Collect (wf_block nb nc)) (\<lambda>(b, c). b < nb \<and> c < nc) ?st st (all_in calls) (all_out outs)"
    using capture_run_ok[OF new_capture_path_ok[OF assms(1,2)] assms(4,3), of zero processor] by (elim exE conjE) (rule that)
  obtain blks blks' where b: "process_blocks process (block_processor ?st, linear_output_block ?st) blks =
      ((block_processor st, linear_output_block st), blks')" "set blks \<subseteq> (call_flags ` set calls) \<times> Collect (wf_block nb nc)"
    "\<forall>p. (case p of (b, c) \<Rightarrow> b < nb \<and> c < nc) \<longrightarrow> in_held ?st p @ all_in calls p = samples p (map snd blks) @ in_held st p \<and>
       out_held ?st p @ samples p blks' = all_out outs p @ out_held st p"
    using r(4) unfolding blockwise_def by (elim exE conjE) (rule that)
  have "all_in calls (b, c) = samples (b, c) (map snd blks) @ in_held st (b, c) \<and> length (in_held st (b, c)) \<in> {0, 32} \<and>
      replicate 64 zero @ samples (b, c) blks' = all_out outs (b, c) @ out_held st (b, c)" if "b < nb" "c < nc" for b c
    using b(3)[THEN spec, of "(b, c)"] that at_border_held(1)[OF r(2) that] by simp
  moreover have "block_processor ?st = processor" "linear_output_block ?st = (if ex then Some (new_block 1 nc zero) else None)"
    by (simp_all add: new_capture_path_def)
  ultimately show ?thesis
    using r(1,3) b(1,2) by (intro exI[of _ st] exI[of _ outs] exI[of _ blks] exI[of _ blks']) auto
qed

definition demo_process :: "(int, int) process_capture" where
  "demo_process gain sat p l blk = (p + 1, l, blk\<lparr>block_data := map (\<lambda>x. x + p) (block_data blk)\<rparr>)"

definition demo_frame :: "int audio_buffer" where
  "demo_frame = \<lparr>ab_channels = 2, ab_bands = 1, split_bands = [[[0..159]], [[200..359]]]\<rparr>"

definition demo_call :: "int capture_call" where
  "demo_call = \<lparr>cc_linear = None, cc_capture = demo_frame, cc_level_change = False, cc_downmixed = True, cc_saturated = False\<rparr>"

definition demo_calls :: "int capture_call list" where
  "demo_calls = [demo_call, demo_call, demo_call]"

lemma demo_calls_good: "list_all (good_call 1 2 False) demo_calls"
  by (simp add: demo_calls_def good_call_def demo_call_def demo_frame_def wf_audio_def shaped_def cells_def kSplitBandSize_def numeral_2_eq_2 less_Suc_eq)

lemma demo_process_shape: "keeps_shape nb nc demo_process"
  by (simp add: keeps_shape_def demo_process_def wf_block_def)

theorem capture_path_blockwise_witness:
  "\<exists>st outs. run_steps (capture_step demo_process) (new_capture_path 0 7 False 1 2) demo_calls = Some (st, outs) \<and>
     length outs = length demo_calls \<and> (\<exists>xs. replicate 64 0 @ xs = all_out outs (0, 1) @ out_held st (0, 1))"
proof -
  obtain st outs blks blks' where r: "run_steps (capture_step demo_process) (new_capture_path 0 7 False 1 2) demo_calls = Some (st, outs)"
    "fst ` set blks \<subseteq> call_flags ` set demo_calls" "length outs = length demo_calls"
    "\<forall>b<1. \<forall>c<2. all_in demo_calls (b, c) = samples (b, c) (map snd blks) @ in_held st (b, c) \<and>
       length (in_held st (b, c)) \<in> {0, 32} \<and> replicate 64 0 @ samples (b, c) blks' = all_out outs (b, c) @ out_held st (b, c)"
    using capture_path_blockwise[OF zero_less_one zero_less_numeral demo_process_shape demo_calls_good, of 0 7] by (elim exE conjE) (rule that, assumption+)
  have "replicate 64 0 @ samples (0, 1) blks' = all_out outs (0, 1) @ out_held st (0, 1)" using r(4) by simp
  with r(1,3) show ?thesis by blast
qed

lemma length_bands:
  "list_all (wf_audio nb nc) fs \<Longrightarrow> b < nb \<Longrightarrow> c < nc \<Longrightarrow> length (concat (map (\<lambda>f. band_of f (b, c)) fs)) = 160 * length fs"
  by (induction fs) (auto simp: wf_audio_length[of nb nc _ b c])

text \<open>
  When the block processor leaves the capture signal as it is, the frames that come out are
  the frames that went in, delayed by exactly one block of 64 samples.
\<close>

lemma capture_path_delay:
  assumes "0 < nb" "0 < nc" "list_all (good_call nb nc ex) calls" "b < nb" "c < nc"
    "run_steps (capture_step bypass) (new_capture_path zero processor ex nb nc) calls = Some (st, outs)"
  shows "all_out outs (b, c) = take (160 * length calls) (replicate 64 zero @ all_in calls (b, c))"
proof -
  let ?st = "new_capture_path zero processor ex nb nc"
  have new: "at_border nb nc ex ?st" by (rule new_capture_path_ok[OF assms(1,2)])
  have r: "at_border nb nc ex st" "length outs = length calls" "list_all (\<lambda>out. wf_audio nb nc (snd out)) outs"
    "path_held ?st (b, c) @ all_in calls (b, c) = all_out outs (b, c) @ path_held st (b, c)"
    using cp.run_fifo[OF new assms(3)] assms(4,5,6) by (auto simp: all_in_def all_out_def)
  have "length (path_held st (b, c)) = 64" "path_held ?st (b, c) = replicate 64 zero"
    using at_border_held[OF r(1) assms(4,5)] assms(4,5) by (auto simp: path_held_def)
  moreover have "length (all_in calls (b, c)) = 160 * length calls"
    using assms(3) length_bands[OF _ assms(4,5), of "map cc_capture calls"] by (simp add: all_in_def comp_def good_call_def list_all_iff)
  moreover have "length (all_out outs (b, c)) = 160 * length calls"
    using r(2) length_bands[OF _ assms(4,5), of "map snd outs"] r(3) by (simp add: all_out_def comp_def list_all_iff)
  ultimately show ?thesis using r(4) by simp
qed

theorem capture_path_delay_witness:
  "\<exists>st outs. run_steps (capture_step bypass) (new_capture_path 0 () False 1 2) demo_calls = Some (st, outs) \<and>
     take 67 (all_out outs (0, 1)) = replicate 64 0 @ [200, 201, 202]"
proof -
  have new: "at_border 1 2 False (new_capture_path 0 () False 1 2)" by (rule new_capture_path_ok) simp_all
  obtain st outs where r: "run_steps (capture_step bypass) (new_capture_path 0 () False 1 2) demo_calls = Some (st, outs)"
    using cp.run_fifo[OF new demo_calls_good] by blast
  have "all_out outs (0, 1) = take (160 * length demo_calls) (replicate 64 0 @ all_in demo_calls (0, 1))"
    by (rule capture_path_delay[OF _ _ demo_calls_good _ _ r]) simp_all
  moreover have "band_of demo_frame (0, 1) = 200 # 201 # 202 # [203..359]"
    by (simp add: band_of_def demo_frame_def upto_rec1)
  ultimately have "take 67 (all_out outs (0, 1)) = replicate 64 0 @ [200, 201, 202]"
    by (simp add: demo_calls_def all_in_def demo_call_def numeral_eq_Suc)
  with r show ?thesis by blast
qed

text \<open>
  The fixed delay of the capture signal. A run of the delay buffer gives back, for each band
  and channel, the configured number of zeros followed by the samples that went in.
\<close>

lemma fixed_delay:
  assumes "0 < nb" "0 < nc" "list_all (wf_audio nb nc) frames"
  shows "\<exists>d outs. run_steps DelaySignal (new_block_delay_buffer zero nc nb kSplitBandSize n) frames = Some (d, outs) \<and>
    list_all (wf_audio nb nc) outs \<and>
    (\<forall>b<nb. \<forall>c<nc. concat (map (\<lambda>f. band_of f (b, c)) outs) =
       take (160 * length frames) (replicate n zero @ concat (map (\<lambda>f. band_of f (b, c)) frames)))"
proof -
  let ?d = "new_block_delay_buffer zero nc nb kSplitBandSize n"
  have ok: "delay_ok nb nc n ?d"
    using assms(1,2) by (auto simp: delay_ok_def new_block_delay_buffer_def shaped_def cells_def)
  obtain d outs where r: "run_steps DelaySignal ?d frames = Some (d, outs)" "delay_ok nb nc n d" "list_all (wf_audio nb nc) outs"
    "length outs = length frames"
    "\<forall>p. (case p of (b, c) \<Rightarrow> b < nb \<and> c < nc) \<longrightarrow>
       delay_held ?d p @ concat (map (\<lambda>f. band_of f p) frames) = concat (map (\<lambda>f. band_of f p) outs) @ delay_held d p"
    using dl.run_fifo[OF ok assms(3)] by (elim exE conjE) (rule that)
  have "concat (map (\<lambda>f. band_of f (b, c)) outs) =
      take (160 * length frames) (replicate n zero @ concat (map (\<lambda>f. band_of f (b, c)) frames))" if "b < nb" "c < nc" for b c
  proof -
    have "delay_held ?d (b, c) = replicate n zero" using that by (simp add: delay_held_def new_block_delay_buffer_def rotated_def)
    moreover have "length (concat (map (\<lambda>f. band_of f (b, c)) outs)) = 160 * length frames"
      using length_bands[OF r(3) that] r(4) by simp
    ultimately show ?thesis using r(5)[THEN spec, of "(b, c)"] that by simp
  qed
  with r(1,3) show ?thesis by blast
qed

theorem fixed_delay_witness:
  "\<exists>d outs. run_steps DelaySignal (new_block_delay_buffer 0 2 1 kSplitBandSize 5) [demo_frame, demo_frame] = Some (d, outs) \<and>
     take 8 (concat (map (\<lambda>f. band_of f (0, 1)) outs)) = [0, 0, 0, 0, 0, 200, 201, 202]"
proof -
  have "list_all (wf_audio 1 2) [demo_frame, demo_frame]"
    using demo_calls_good by (simp add: demo_calls_def good_call_def demo_call_def)
  then obtain d outs where r: "run_steps DelaySignal (new_block_delay_buffer 0 2 1 kSplitBandSize 5) [demo_frame, demo_frame] = Some (d, outs)"
    "\<forall>b<1. \<forall>c<2. concat (map (\<lambda>f. band_of f (b, c)) outs) =
       take (160 * length [demo_frame, demo_frame]) (replicate 5 0 @ concat (map (\<lambda>f. band_of f (b, c)) [demo_frame, demo_frame]))"
    using fixed_delay[of 1 2 "[demo_frame, demo_frame]" 0 5] by auto
  have "band_of demo_frame (0, 1) = 200 # 201 # 202 # [203..359]"
    by (simp add: band_of_def demo_frame_def upto_rec1)
  then have "take 8 (concat (map (\<lambda>f. band_of f (0, 1)) outs)) = [0, 0, 0, 0, 0, 200, 201, 202]"
    using r(2) by (simp add: numeral_eq_Suc)
  with r(1) show ?thesis by blast
qed

text \<open>
  With the export of the linear output configured, a call without a buffer for it does not take
  a sub frame from the framer of the linear output, so that the second such frame finds the
  framer full.
\<close>

lemma remaining_unavailable:
  "path_ok nb nc 32 st \<Longrightarrow> ProcessRemainingCaptureFrameContent process lc dm sat st = Some st"
  by (auto simp: ProcessRemainingCaptureFrameContent_def path_ok_def IsBlockAvailable_def blocker_ok_def cells_def kBlockSize_def)

lemma InsertBlock_full:
  assumes "framer_ok 1 nc 64 f" "0 < nc"
  shows "InsertBlock f blk = None"
proof -
  have "band_channels 1 nc = (0, 0) # map (Pair 0) [1..<nc]"
    using assms(2) by (simp add: band_channels_def upt_conv_Cons)
  moreover have "bf_buffer f ! 0 ! 0 \<noteq> []" using assms by (auto simp: framer_ok_def cells_def)
  ultimately have "for_each (band_channels 1 nc) (insert_block_channel blk) f = None" by (simp add: insert_block_channel_def)
  then show ?thesis using assms(1) by (auto simp: InsertBlock_def framer_ok_def)
qed

lemma remaining_full:
  assumes "path_ok nb nc 64 st" "keeps_shape nb nc process" "linear_output_framer st = Some f" "framer_ok 1 nc 64 f"
  shows "ProcessRemainingCaptureFrameContent process lc dm sat st = None"
proof -
  obtain p lb blk' fb blk where p: "ExtractBlock (capture_blocker st) (capture_block st) = Some (fb, blk)"
    "process (lc \<or> dm) sat (block_processor st) (linear_output_block st) blk = (p, lb, blk')"
    using extract_block_ok[of nb nc "capture_blocker st" "capture_block st"] assms(1) by (metis path_ok_def prod_cases3)
  have "IsBlockAvailable (capture_blocker st)" "0 < nc"
    using assms(1) by (auto simp: path_ok_def IsBlockAvailable_def blocker_ok_def cells_def kBlockSize_def)
  then show ?thesis
    using p assms(3) InsertBlock_full[OF assms(4)]
    by (cases "InsertBlock (output_framer st) blk'") (auto simp: ProcessRemainingCaptureFrameContent_def split: option.splits)
qed

text \<open>
  When the export of the linear output is configured, two calls without a buffer for it break
  the path, whatever the block processor does.
\<close>

lemma linear_output_required:
  assumes "0 < nb" "0 < nc" "keeps_shape nb nc process" "wf_audio nb nc (cc_capture call1)" "wf_audio nb nc (cc_capture call2)"
    "cc_linear call1 = None" "cc_linear call2 = None"
  shows "\<exists>st out. capture_step process (new_capture_path zero processor True nb nc) call1 = Some (st, out) \<and>
    capture_step process st call2 = None"
proof -
  let ?st = "new_capture_path zero processor True nb nc" and ?f = "new_block_framer zero 1 nc"
  have new: "path_ok nb nc 0 ?st"
    using assms(1,2) by (simp add: path_ok_def new_capture_path_def blocker_ok_def framer_ok_def new_frame_blocker_def new_block_framer_def
      shaped_def cells_def wf_block_def new_block_def wf_linear_def kBlockSize_def)
  have two: "\<exists>cap' st'. path_ok nb nc (l + 32) st' \<and> linear_output_framer st' = linear_output_framer st \<and>
      do { (lin, cap, st) \<leftarrow> ProcessCaptureFrameContent process None cap lc dm sat 0 st;
           ProcessCaptureFrameContent process lin cap lc dm sat 1 st } = Some (None, cap', st')"
    if st: "path_ok nb nc l st" and l: "l \<le> 32" and cap: "wf_audio nb nc cap" for l st cap lc dm sat
  proof -
    have l': "l \<le> 48" "l + 16 \<le> 48" using l by simp_all
    obtain lin1 cap1 st1 where 1: "ProcessCaptureFrameContent process None cap lc dm sat 0 st = Some (lin1, cap1, st1)"
      "path_ok nb nc (l + 16) st1" "wf_audio nb nc cap1" "lin1 = None" "linear_output_framer st1 = linear_output_framer st"
      using content_ok[OF st l'(1) cap le0 assms(3), of None lc dm sat] by auto
    obtain lin2 cap2 st2 where 2: "ProcessCaptureFrameContent process None cap1 lc dm sat 1 st1 = Some (lin2, cap2, st2)"
      "path_ok nb nc (l + 16 + 16) st2" "lin2 = None" "linear_output_framer st2 = linear_output_framer st1"
      using content_ok[OF 1(2) l'(2) 1(3) order.refl assms(3), of None lc dm sat] by auto
    then show ?thesis using 1 by (intro exI[of _ cap2] exI[of _ st2]) (simp add: add.assoc)
  qed
  have lf: "linear_output_framer ?st = Some ?f" by (simp add: new_capture_path_def)
  obtain cap1 st1 where 1: "path_ok nb nc 32 st1" "linear_output_framer st1 = Some ?f"
    "do { (lin, cap, st) \<leftarrow> ProcessCaptureFrameContent process None (cc_capture call1) (cc_level_change call1) (cc_downmixed call1) (cc_saturated call1) 0 ?st;
          ProcessCaptureFrameContent process lin cap (cc_level_change call1) (cc_downmixed call1) (cc_saturated call1) 1 st } = Some (None, cap1, st1)"
    using two[OF new _ assms(4), of "cc_level_change call1" "cc_downmixed call1" "cc_saturated call1"] unfolding lf by auto
  obtain cap2 st2 where 2: "path_ok nb nc 64 st2" "linear_output_framer st2 = Some ?f"
    "do { (lin, cap, st) \<leftarrow> ProcessCaptureFrameContent process None (cc_capture call2) (cc_level_change call2) (cc_downmixed call2) (cc_saturated call2) 0 st1;
          ProcessCaptureFrameContent process lin cap (cc_level_change call2) (cc_downmixed call2) (cc_saturated call2) 1 st } = Some (None, cap2, st2)"
    using two[OF 1(1) _ assms(5), of "cc_level_change call2" "cc_downmixed call2" "cc_saturated call2"] unfolding 1(2) by auto
  have f: "framer_ok 1 nc 64 ?f" by (simp add: framer_ok_def new_block_framer_def shaped_def cells_def kBlockSize_def)
  have "capture_step process ?st call1 = Some (st1, None, cap1)"
    using 1(3) remaining_unavailable[OF 1(1)] assms(6)
    by (auto simp: capture_step_def process_capture_frame_def bind_eq_Some_conv)
  moreover obtain x where "ProcessCaptureFrameContent process None (cc_capture call2) (cc_level_change call2) (cc_downmixed call2) (cc_saturated call2) 0 st1 = Some x"
    "(case x of (lin, cap, st) \<Rightarrow> ProcessCaptureFrameContent process lin cap (cc_level_change call2) (cc_downmixed call2) (cc_saturated call2) 1 st) = Some (None, cap2, st2)"
    using 2(3) unfolding bind_eq_Some_conv by blast
  then have "capture_step process st1 call2 = None"
    using remaining_full[OF 2(1) assms(3) 2(2) f] assms(7)
    by (cases x) (simp add: capture_step_def process_capture_frame_def)
  ultimately show ?thesis by blast
qed

theorem linear_output_required_witness:
  "\<exists>st out. capture_step demo_process (new_capture_path 0 7 True 1 2) demo_call = Some (st, out) \<and>
     capture_step demo_process st demo_call = None"
proof (rule linear_output_required[OF _ _ demo_process_shape])
  show "wf_audio 1 2 (cc_capture demo_call)" "wf_audio 1 2 (cc_capture demo_call)"
    using demo_calls_good by (simp_all add: demo_calls_def good_call_def)
qed (simp_all add: demo_call_def)
end
