(* ===== verification/Aec_Config.thy ===== *)
theory Aec_Config
  imports Float_Round
begin

text \<open>
  The configuration of the echo canceller, \<^verbatim>\<open>EchoCanceller3Config\<close> in
  \<^verbatim>\<open>crates/fswtch-apm-sys/cpp/api/audio/echo_canceller3_config.h\<close>, and its check
  \<^verbatim>\<open>EchoCanceller3Config::Validate\<close> in \<^verbatim>\<open>echo_canceller3_config.cc\<close>. A structure is a record, and
  the part of \<^verbatim>\<open>Validate\<close> that deals with one structure is a function of its own; where it
  needs a field of another structure, that is an argument. A \<^verbatim>\<open>size_t\<close> is a \<^typ>\<open>nat\<close>.
\<close>

section \<open>Limits\<close>

text \<open>A \<^verbatim>\<open>float\<close> from outside may be infinite or no number; the two zeros are one value.\<close>

datatype cfloat = Finite rat | PInf | NInf | NaN

fun cf_less :: "cfloat \<Rightarrow> cfloat \<Rightarrow> bool" where
  "cf_less (Finite a) (Finite b) = (a < b)"
| "cf_less NaN _ = False"
| "cf_less _ NaN = False"
| "cf_less NInf b = (b \<noteq> NInf)"
| "cf_less a NInf = False"
| "cf_less PInf b = False"
| "cf_less a PInf = True"

definition cf_eq :: "cfloat \<Rightarrow> cfloat \<Rightarrow> bool" where
  "cf_eq a b \<longleftrightarrow> a = b \<and> a \<noteq> NaN"

definition isfinite :: "cfloat \<Rightarrow> bool" where
  "isfinite a \<longleftrightarrow> (case a of Finite _ \<Rightarrow> True | _ \<Rightarrow> False)"

definition SafeClamp_float :: "cfloat \<Rightarrow> cfloat \<Rightarrow> cfloat \<Rightarrow> cfloat" where
  "SafeClamp_float v l h = (if cf_less v l then l else if cf_less h v then h else v)"

definition SafeClamp :: "'a::linorder \<Rightarrow> 'a \<Rightarrow> 'a \<Rightarrow> 'a" where
  "SafeClamp v l h = (if v < l then l else if h < v then h else v)"

text \<open>\<^verbatim>\<open>Limit\<close> and \<^verbatim>\<open>FloorLimit\<close>: the result and the new value.\<close>

definition Limit_float :: "cfloat \<Rightarrow> rat \<Rightarrow> rat \<Rightarrow> bool \<times> cfloat" where
  "Limit_float v lo hi =
     (let clamped = SafeClamp_float v (Finite lo) (Finite hi);
          clamped = (if isfinite clamped then clamped else Finite lo)
      in (cf_eq v clamped, clamped))"

definition Limit :: "'a::linorder \<Rightarrow> 'a \<Rightarrow> 'a \<Rightarrow> bool \<times> 'a" where
  "Limit v lo hi = (let clamped = SafeClamp v lo hi in (v = clamped, clamped))"

definition FloorLimit :: "nat \<Rightarrow> nat \<Rightarrow> bool \<times> nat" where
  "FloorLimit v lo = (let clamped = (if v \<ge> lo then v else lo) in (v = clamped, clamped))"

definition in_range :: "rat \<Rightarrow> rat \<Rightarrow> cfloat \<Rightarrow> bool" where
  "in_range lo hi v \<longleftrightarrow> (case v of Finite x \<Rightarrow> lo \<le> x \<and> x \<le> hi | _ \<Rightarrow> False)"

definition between :: "'a::linorder \<Rightarrow> 'a \<Rightarrow> 'a \<Rightarrow> bool" where
  "between lo hi v \<longleftrightarrow> lo \<le> v \<and> v \<le> hi"

text \<open>What every limit does: the new value is in range, and the result says whether it is the old one.\<close>

definition limits :: "bool \<times> 'a \<Rightarrow> 'a \<Rightarrow> ('a \<Rightarrow> bool) \<Rightarrow> bool" where
  "limits p v P \<longleftrightarrow> (fst p \<longleftrightarrow> snd p = v) \<and> P (snd p) \<and> (P v \<longrightarrow> snd p = v)"

lemma limits_float: "lo \<le> hi \<Longrightarrow> limits (Limit_float v lo hi) v (in_range lo hi)"
  by (cases v) (auto simp: limits_def Limit_float_def SafeClamp_float_def isfinite_def cf_eq_def in_range_def Let_def)

lemma limits_linorder: "lo \<le> hi \<Longrightarrow> limits (Limit v lo hi) v (between lo hi)"
  by (auto simp: limits_def Limit_def SafeClamp_def between_def Let_def)

lemma limits_floor: "limits (FloorLimit v lo) v (\<lambda>x. lo \<le> x)"
  by (auto simp: limits_def FloorLimit_def Let_def)

section \<open>The structures\<close>

record buffering_cfg =
  excess_render_detection_interval_blocks :: nat
  max_allowed_excess_render_blocks :: nat

record alignment_mixing =
  downmix :: bool
  adaptive_selection :: bool
  activity_power_threshold :: cfloat
  prefer_first_two_channels :: bool

record delay_selection_thresholds_cfg =
  dst_initial :: int
  dst_converged :: int

record delay_cfg =
  default_delay :: nat
  down_sampling_factor :: nat
  num_filters :: nat
  delay_headroom_samples :: nat
  hysteresis_limit_blocks :: nat
  fixed_capture_delay_samples :: nat
  delay_estimate_smoothing :: cfloat
  delay_estimate_smoothing_delay_found :: cfloat
  delay_candidate_detection_threshold :: cfloat
  delay_selection_thresholds :: delay_selection_thresholds_cfg
  use_external_delay_estimator :: bool
  log_warning_on_delay_changes :: bool
  render_alignment_mixing :: alignment_mixing
  capture_alignment_mixing :: alignment_mixing
  detect_pre_echo :: bool

record refined_cfg =
  r_length_blocks :: nat
  leakage_converged :: cfloat
  leakage_diverged :: cfloat
  error_floor :: cfloat
  error_ceil :: cfloat
  r_noise_gate :: cfloat

record coarse_cfg =
  c_length_blocks :: nat
  c_rate :: cfloat
  c_noise_gate :: cfloat

record filter_cfg =
  refined :: refined_cfg
  coarse :: coarse_cfg
  refined_initial :: refined_cfg
  coarse_initial :: coarse_cfg
  config_change_duration_blocks :: nat
  initial_state_seconds :: cfloat
  coarse_reset_hangover_blocks :: int
  conservative_initial_phase :: bool
  enable_coarse_filter_output_usage :: bool
  use_linear_filter :: bool
  high_pass_filter_echo_reference :: bool
  export_linear_aec_output :: bool

record erle_cfg =
  erle_min :: cfloat
  erle_max_l :: cfloat
  erle_max_h :: cfloat
  onset_detection :: bool
  num_sections :: nat
  clamp_quality_estimate_to_zero :: bool
  clamp_quality_estimate_to_one :: bool

record ep_strength_cfg =
  default_gain :: cfloat
  default_len :: cfloat
  nearend_len :: cfloat
  echo_can_saturate :: bool
  bounded_erl :: bool
  erle_onset_compensation_in_dominant_nearend :: bool
  use_conservative_tail_frequency_response :: bool

record echo_audibility_cfg =
  low_render_limit :: cfloat
  normal_render_limit :: cfloat
  floor_power :: cfloat
  audibility_threshold_lf :: cfloat
  audibility_threshold_mf :: cfloat
  audibility_threshold_hf :: cfloat
  use_stationarity_properties :: bool
  use_stationarity_properties_at_init :: bool

record render_levels_cfg =
  active_render_limit :: cfloat
  poor_excitation_render_limit :: cfloat
  poor_excitation_render_limit_ds8 :: cfloat
  render_power_gain_db :: cfloat

record echo_removal_control_cfg =
  has_clock_drift :: bool
  linear_and_stable_echo_path :: bool

record echo_model_cfg =
  noise_floor_hold :: nat
  min_noise_floor_power :: cfloat
  stationary_gate_slope :: cfloat
  noise_gate_power :: cfloat
  noise_gate_slope :: cfloat
  render_pre_window_size :: nat
  render_post_window_size :: nat
  model_reverb_in_nonlinear_mode :: bool

record comfort_noise_cfg =
  noise_floor_dbfs :: cfloat

record masking_thresholds =
  enr_transparent :: cfloat
  enr_suppress :: cfloat
  emr_transparent :: cfloat

record tuning =
  mask_lf :: masking_thresholds
  mask_hf :: masking_thresholds
  max_inc_factor :: cfloat
  max_dec_factor_lf :: cfloat

record dominant_nearend_cfg =
  dn_enr_threshold :: cfloat
  enr_exit_threshold :: cfloat
  dn_snr_threshold :: cfloat
  hold_duration :: int
  trigger_threshold :: int
  use_during_initial_phase :: bool
  use_unbounded_echo_spectrum :: bool

record subband_region =
  low :: nat
  high :: nat

record subband_nearend_cfg =
  sn_nearend_average_blocks :: nat
  subband1 :: subband_region
  subband2 :: subband_region
  nearend_threshold :: cfloat
  sn_snr_threshold :: cfloat

record high_bands_cfg =
  hb_enr_threshold :: cfloat
  max_gain_during_echo :: cfloat
  anti_howling_activation_threshold :: cfloat
  anti_howling_gain :: cfloat

record high_frequency_cfg =
  limiting_gain_band :: int
  bands_in_limiting_gain :: int

record suppressor_cfg =
  nearend_average_blocks :: nat
  normal_tuning :: tuning
  nearend_tuning :: tuning
  lf_smoothing_during_initial_phase :: bool
  last_permanent_lf_smoothing_band :: int
  last_lf_smoothing_band :: int
  last_lf_band :: int
  first_hf_band :: int
  dominant_nearend_detection :: dominant_nearend_cfg
  subband_nearend_detection :: subband_nearend_cfg
  use_subband_nearend_detection :: bool
  high_bands_suppression :: high_bands_cfg
  high_frequency_suppression :: high_frequency_cfg
  floor_first_increase :: cfloat
  conservative_hf_suppression :: bool

record multi_channel_cfg =
  detect_stereo_content :: bool
  stereo_detection_threshold :: cfloat
  stereo_detection_timeout_threshold_seconds :: int
  stereo_detection_hysteresis_seconds :: cfloat

record aec3_config =
  cfg_buffering :: buffering_cfg
  cfg_delay :: delay_cfg
  cfg_filter :: filter_cfg
  cfg_erle :: erle_cfg
  cfg_ep_strength :: ep_strength_cfg
  cfg_echo_audibility :: echo_audibility_cfg
  cfg_render_levels :: render_levels_cfg
  cfg_echo_removal_control :: echo_removal_control_cfg
  cfg_echo_model :: echo_model_cfg
  cfg_comfort_noise :: comfort_noise_cfg
  cfg_suppressor :: suppressor_cfg
  cfg_multi_channel :: multi_channel_cfg


text \<open>The facts about a limit as rewrite rules; their side conditions compare the constants.\<close>

named_theorems limit_simps

lemma Limit_float_simps [limit_simps]:
  assumes "lo \<le> hi"
  shows "fst (Limit_float v lo hi) \<longleftrightarrow> snd (Limit_float v lo hi) = v"
    "in_range lo hi (snd (Limit_float v lo hi))" "in_range lo hi v \<Longrightarrow> snd (Limit_float v lo hi) = v"
  using limits_float[OF assms, of v] by (simp_all add: limits_def)

lemma Limit_simps [limit_simps]:
  assumes "lo \<le> hi"
  shows "fst (Limit v lo hi) \<longleftrightarrow> snd (Limit v lo hi) = v"
    "between lo hi (snd (Limit v lo hi))" "between lo hi v \<Longrightarrow> snd (Limit v lo hi) = v"
  using limits_linorder[OF assms, of v] by (simp_all add: limits_def)

lemma FloorLimit_simps [limit_simps]:
  "fst (FloorLimit v lo) \<longleftrightarrow> snd (FloorLimit v lo) = v" "lo \<le> snd (FloorLimit v lo)" "lo \<le> v \<Longrightarrow> snd (FloorLimit v lo) = v"
  using limits_floor[of v lo] by (simp_all add: limits_def)

lemmas limit_unfold = limits_def Let_def case_prod_unfold

section \<open>The check\<close>

definition validate_delay :: "delay_cfg \<Rightarrow> bool \<times> delay_cfg" where
  "validate_delay d =
     (let ok = (down_sampling_factor d = 4 \<or> down_sampling_factor d = 8);
          th = delay_selection_thresholds d;
          (r1, v1) = Limit (default_delay d) 0 5000;
          (r2, v2) = Limit (num_filters d) 0 5000;
          (r3, v3) = Limit (delay_headroom_samples d) 0 5000;
          (r4, v4) = Limit (hysteresis_limit_blocks d) 0 5000;
          (r5, v5) = Limit (fixed_capture_delay_samples d) 0 5000;
          (r6, v6) = Limit_float (delay_estimate_smoothing d) 0 1;
          (r7, v7) = Limit_float (delay_candidate_detection_threshold d) 0 1;
          (r8, v8) = Limit (dst_initial th) 1 250;
          (r9, v9) = Limit (dst_converged th) 1 250
      in (ok \<and> r1 \<and> r2 \<and> r3 \<and> r4 \<and> r5 \<and> r6 \<and> r7 \<and> r8 \<and> r9,
          d\<lparr>down_sampling_factor := if ok then down_sampling_factor d else 4,
            default_delay := v1, num_filters := v2, delay_headroom_samples := v3,
            hysteresis_limit_blocks := v4, fixed_capture_delay_samples := v5,
            delay_estimate_smoothing := v6, delay_candidate_detection_threshold := v7,
            delay_selection_thresholds := \<lparr>dst_initial = v8, dst_converged = v9\<rparr>\<rparr>))"

definition valid_delay :: "delay_cfg \<Rightarrow> bool" where
  "valid_delay d \<longleftrightarrow>
     (down_sampling_factor d = 4 \<or> down_sampling_factor d = 8) \<and> between 0 5000 (default_delay d) \<and>
     between 0 5000 (num_filters d) \<and> between 0 5000 (delay_headroom_samples d) \<and>
     between 0 5000 (hysteresis_limit_blocks d) \<and> between 0 5000 (fixed_capture_delay_samples d) \<and>
     in_range 0 1 (delay_estimate_smoothing d) \<and> in_range 0 1 (delay_candidate_detection_threshold d) \<and>
     between 1 250 (dst_initial (delay_selection_thresholds d)) \<and> between 1 250 (dst_converged (delay_selection_thresholds d))"


lemma validate_delay_limits: "limits (validate_delay d) d valid_delay"
  by (cases d, cases "delay_selection_thresholds d")
    (auto simp: limit_unfold validate_delay_def valid_delay_def limit_simps)

definition validate_refined :: "refined_cfg \<Rightarrow> bool \<times> refined_cfg" where
  "validate_refined x =
     (let (r1, v1) = FloorLimit (r_length_blocks x) 1;
          (r2, v2) = Limit_float (leakage_converged x) 0 1000;
          (r3, v3) = Limit_float (leakage_diverged x) 0 1000;
          (r4, v4) = Limit_float (error_floor x) 0 1000;
          (r5, v5) = Limit_float (error_ceil x) 0 100000000;
          (r6, v6) = Limit_float (r_noise_gate x) 0 100000000
      in (r1 \<and> r2 \<and> r3 \<and> r4 \<and> r5 \<and> r6,
          x\<lparr>r_length_blocks := v1, leakage_converged := v2, leakage_diverged := v3, error_floor := v4, error_ceil := v5, r_noise_gate := v6\<rparr>))"

definition valid_refined :: "refined_cfg \<Rightarrow> bool" where
  "valid_refined x \<longleftrightarrow>
     1 \<le> r_length_blocks x \<and>
     in_range 0 1000 (leakage_converged x) \<and>
     in_range 0 1000 (leakage_diverged x) \<and>
     in_range 0 1000 (error_floor x) \<and>
     in_range 0 100000000 (error_ceil x) \<and>
     in_range 0 100000000 (r_noise_gate x)"

lemma validate_refined_limits: "limits (validate_refined x) x valid_refined"
  by (cases x) (auto simp: limit_unfold validate_refined_def valid_refined_def limit_simps)

definition validate_coarse :: "coarse_cfg \<Rightarrow> bool \<times> coarse_cfg" where
  "validate_coarse x =
     (let (r1, v1) = FloorLimit (c_length_blocks x) 1;
          (r2, v2) = Limit_float (c_rate x) 0 1;
          (r3, v3) = Limit_float (c_noise_gate x) 0 100000000
      in (r1 \<and> r2 \<and> r3,
          x\<lparr>c_length_blocks := v1, c_rate := v2, c_noise_gate := v3\<rparr>))"

definition valid_coarse :: "coarse_cfg \<Rightarrow> bool" where
  "valid_coarse x \<longleftrightarrow>
     1 \<le> c_length_blocks x \<and>
     in_range 0 1 (c_rate x) \<and>
     in_range 0 100000000 (c_noise_gate x)"

lemma validate_coarse_limits: "limits (validate_coarse x) x valid_coarse"
  by (cases x) (auto simp: limit_unfold validate_coarse_def valid_coarse_def limit_simps)

definition validate_filter :: "filter_cfg \<Rightarrow> bool \<times> filter_cfg" where
  "validate_filter f =
     (let (r1, rf) = validate_refined (refined f);
          (r2, ri) = validate_refined (refined_initial f);
          long1 = (r_length_blocks rf < r_length_blocks ri);
          ri = (if long1 then ri\<lparr>r_length_blocks := r_length_blocks rf\<rparr> else ri);
          (r3, co) = validate_coarse (coarse f);
          (r4, ci) = validate_coarse (coarse_initial f);
          long2 = (c_length_blocks co < c_length_blocks ci);
          ci = (if long2 then ci\<lparr>c_length_blocks := c_length_blocks co\<rparr> else ci);
          (r5, v5) = Limit (config_change_duration_blocks f) 0 100000;
          (r6, v6) = Limit_float (initial_state_seconds f) 0 100;
          (r7, v7) = Limit (coarse_reset_hangover_blocks f) 0 250000
      in (r1 \<and> r2 \<and> \<not> long1 \<and> r3 \<and> r4 \<and> \<not> long2 \<and> r5 \<and> r6 \<and> r7,
          f\<lparr>refined := rf, refined_initial := ri, coarse := co, coarse_initial := ci,
            config_change_duration_blocks := v5, initial_state_seconds := v6, coarse_reset_hangover_blocks := v7\<rparr>))"

definition valid_filter :: "filter_cfg \<Rightarrow> bool" where
  "valid_filter f \<longleftrightarrow>
     valid_refined (refined f) \<and> valid_refined (refined_initial f) \<and>
     r_length_blocks (refined_initial f) \<le> r_length_blocks (refined f) \<and>
     valid_coarse (coarse f) \<and> valid_coarse (coarse_initial f) \<and>
     c_length_blocks (coarse_initial f) \<le> c_length_blocks (coarse f) \<and>
     between 0 100000 (config_change_duration_blocks f) \<and> in_range 0 100 (initial_state_seconds f) \<and>
     between 0 250000 (coarse_reset_hangover_blocks f)"

lemma limits_refined [limit_simps]:
  "fst (validate_refined x) \<longleftrightarrow> snd (validate_refined x) = x" "valid_refined (snd (validate_refined x))"
  "valid_refined x \<Longrightarrow> snd (validate_refined x) = x"
  using validate_refined_limits[of x] by (simp_all add: limits_def)

lemma limits_coarse [limit_simps]:
  "fst (validate_coarse x) \<longleftrightarrow> snd (validate_coarse x) = x" "valid_coarse (snd (validate_coarse x))"
  "valid_coarse x \<Longrightarrow> snd (validate_coarse x) = x"
  using validate_coarse_limits[of x] by (simp_all add: limits_def)

lemma valid_shorter:
  "valid_refined x \<Longrightarrow> 1 \<le> n \<Longrightarrow> valid_refined (x\<lparr>r_length_blocks := n\<rparr>)"
  "valid_coarse y \<Longrightarrow> 1 \<le> n \<Longrightarrow> valid_coarse (y\<lparr>c_length_blocks := n\<rparr>)"
  by (simp_all add: valid_refined_def valid_coarse_def)

lemma valid_lengths: "valid_refined x \<Longrightarrow> 1 \<le> r_length_blocks x" "valid_coarse y \<Longrightarrow> 1 \<le> c_length_blocks y"
  by (simp_all add: valid_refined_def valid_coarse_def)

lemma shortening_changes:
  "1 \<le> n \<Longrightarrow> n < r_length_blocks (snd (validate_refined x)) \<Longrightarrow> (snd (validate_refined x))\<lparr>r_length_blocks := n\<rparr> \<noteq> x"
  "1 \<le> n \<Longrightarrow> n < c_length_blocks (snd (validate_coarse y)) \<Longrightarrow> (snd (validate_coarse y))\<lparr>c_length_blocks := n\<rparr> \<noteq> y"
  by (cases x, cases y, auto simp: validate_refined_def validate_coarse_def FloorLimit_def Let_def case_prod_unfold split: if_splits)+

lemma validate_filter_limits: "limits (validate_filter f) f valid_filter"
proof -
  define rf where "rf = snd (validate_refined (refined f))"
  define co where "co = snd (validate_coarse (coarse f))"
  define ri where "ri = snd (validate_refined (refined_initial f))"
  define ci where "ci = snd (validate_coarse (coarse_initial f))"
  note defs = rf_def[symmetric] co_def[symmetric] ri_def[symmetric] ci_def[symmetric]
  have v: "valid_refined rf" "valid_coarse co" "valid_refined ri" "valid_coarse ci"
    by (simp_all add: rf_def co_def ri_def ci_def limit_simps)
  note len = valid_lengths(1)[OF v(1)] valid_lengths(2)[OF v(2)]
  have ch: "r_length_blocks rf < r_length_blocks ri \<Longrightarrow> ri\<lparr>r_length_blocks := r_length_blocks rf\<rparr> \<noteq> refined_initial f"
    "c_length_blocks co < c_length_blocks ci \<Longrightarrow> ci\<lparr>c_length_blocks := c_length_blocks co\<rparr> \<noteq> coarse_initial f"
    using shortening_changes len by (simp_all add: ri_def ci_def)
  have sh: "valid_refined (ri\<lparr>r_length_blocks := r_length_blocks rf\<rparr>)" "valid_coarse (ci\<lparr>c_length_blocks := c_length_blocks co\<rparr>)"
    using valid_shorter v len by blast+
  have id: "valid_refined (refined f) \<Longrightarrow> rf = refined f" "valid_coarse (coarse f) \<Longrightarrow> co = coarse f"
    "valid_refined (refined_initial f) \<Longrightarrow> ri = refined_initial f" "valid_coarse (coarse_initial f) \<Longrightarrow> ci = coarse_initial f"
    by (simp_all add: rf_def co_def ri_def ci_def limit_simps)
  define f' where "f' = snd (validate_filter f)"
  have f': "f' = f\<lparr>refined := rf, refined_initial := (if r_length_blocks rf < r_length_blocks ri then ri\<lparr>r_length_blocks := r_length_blocks rf\<rparr> else ri),
      coarse := co, coarse_initial := (if c_length_blocks co < c_length_blocks ci then ci\<lparr>c_length_blocks := c_length_blocks co\<rparr> else ci),
      config_change_duration_blocks := snd (Limit (config_change_duration_blocks f) 0 100000),
      initial_state_seconds := snd (Limit_float (initial_state_seconds f) 0 100),
      coarse_reset_hangover_blocks := snd (Limit (coarse_reset_hangover_blocks f) 0 250000)\<rparr>"
    by (simp only: f'_def validate_filter_def Let_def case_prod_unfold defs snd_conv)
  have fst: "fst (validate_filter f) \<longleftrightarrow> rf = refined f \<and> ri = refined_initial f \<and> \<not> r_length_blocks rf < r_length_blocks ri \<and>
      co = coarse f \<and> ci = coarse_initial f \<and> \<not> c_length_blocks co < c_length_blocks ci \<and>
      snd (Limit (config_change_duration_blocks f) 0 100000) = config_change_duration_blocks f \<and>
      snd (Limit_float (initial_state_seconds f) 0 100) = initial_state_seconds f \<and>
      snd (Limit (coarse_reset_hangover_blocks f) 0 250000) = coarse_reset_hangover_blocks f"
    by (simp add: validate_filter_def Let_def case_prod_unfold defs limit_simps)
  have "fst (validate_filter f) \<longleftrightarrow> f' = f"
    unfolding fst f' using ch by (cases f) auto
  moreover have "valid_filter f'"
    unfolding f' valid_filter_def using v sh len by (simp add: limit_simps)
  moreover have "f' = f" if "valid_filter f"
    using that id unfolding f' valid_filter_def by (cases f) (simp add: limit_simps)
  ultimately show ?thesis by (simp add: limits_def f'_def)
qed

definition cf_min :: "cfloat \<Rightarrow> cfloat \<Rightarrow> cfloat" where
  "cf_min a b = (if cf_less b a then b else a)"

definition validate_erle :: "nat \<Rightarrow> erle_cfg \<Rightarrow> bool \<times> erle_cfg" where
  "validate_erle refined_length e =
     (let (r1, v1) = Limit_float (erle_min e) 1 100000;
          (r2, v2) = Limit_float (erle_max_l e) 1 100000;
          (r3, v3) = Limit_float (erle_max_h e) 1 100000;
          above = (cf_less v2 v1 \<or> cf_less v3 v1);
          v1 = (if above then cf_min v2 v3 else v1);
          (r4, v4) = Limit (num_sections e) 1 refined_length
      in (r1 \<and> r2 \<and> r3 \<and> \<not> above \<and> r4,
          e\<lparr>erle_min := v1, erle_max_l := v2, erle_max_h := v3, num_sections := v4\<rparr>))"

definition valid_erle :: "nat \<Rightarrow> erle_cfg \<Rightarrow> bool" where
  "valid_erle refined_length e \<longleftrightarrow>
     in_range 1 100000 (erle_min e) \<and> in_range 1 100000 (erle_max_l e) \<and> in_range 1 100000 (erle_max_h e) \<and>
     \<not> cf_less (erle_max_l e) (erle_min e) \<and> \<not> cf_less (erle_max_h e) (erle_min e) \<and> between 1 refined_length (num_sections e)"

lemma in_rangeE: "in_range lo hi v \<Longrightarrow> (\<And>x. v = Finite x \<Longrightarrow> lo \<le> x \<Longrightarrow> x \<le> hi \<Longrightarrow> thesis) \<Longrightarrow> thesis"
  by (cases v) (auto simp: in_range_def)

lemma clamp_above:
  assumes "in_range lo hi a" "in_range lo hi b" "cf_less a (snd (Limit_float v lo hi)) \<or> cf_less b (snd (Limit_float v lo hi))"
  shows "cf_min a b \<noteq> v" "in_range lo hi (cf_min a b)" "\<not> cf_less a (cf_min a b)" "\<not> cf_less b (cf_min a b)"
  using assms
  by (auto elim!: in_rangeE simp: cf_min_def Limit_float_def SafeClamp_float_def isfinite_def in_range_def Let_def split: if_splits cfloat.splits)

lemma validate_erle_limits:
  assumes "1 \<le> n"
  shows "limits (validate_erle n e) e (valid_erle n)"
proof -
  define v2 where "v2 = snd (Limit_float (erle_max_l e) 1 100000)"
  define v3 where "v3 = snd (Limit_float (erle_max_h e) 1 100000)"
  have r: "in_range 1 100000 v2" "in_range 1 100000 v3" by (simp_all add: v2_def v3_def limit_simps)
  define v1 where "v1 = snd (Limit_float (erle_min e) 1 100000)"
  define above where "above = (cf_less v2 v1 \<or> cf_less v3 v1)"
  have c: "above \<Longrightarrow> cf_min v2 v3 \<noteq> erle_min e" "above \<Longrightarrow> in_range 1 100000 (cf_min v2 v3)"
    "above \<Longrightarrow> \<not> cf_less v2 (cf_min v2 v3)" "above \<Longrightarrow> \<not> cf_less v3 (cf_min v2 v3)"
    using clamp_above[OF r, of "erle_min e"] by (simp_all add: above_def v1_def)
  define e' where "e' = e\<lparr>erle_min := (if above then cf_min v2 v3 else v1), erle_max_l := v2, erle_max_h := v3,
    num_sections := snd (Limit (num_sections e) 1 n)\<rparr>"
  have v: "validate_erle n e = (v1 = erle_min e \<and> v2 = erle_max_l e \<and> v3 = erle_max_h e \<and> \<not> above \<and>
      snd (Limit (num_sections e) 1 n) = num_sections e, e')"
    using assms by (simp add: validate_erle_def Let_def case_prod_unfold v1_def v2_def v3_def above_def e'_def limit_simps)
  have "fst (validate_erle n e) \<longleftrightarrow> e' = e"
    unfolding v e'_def using c(1) by (cases e) auto
  moreover have "valid_erle n e'"
    using r c(2-4) assms by (auto simp: valid_erle_def e'_def v1_def above_def limit_simps)
  moreover have "e' = e" if "valid_erle n e"
    using that assms by (cases e) (simp add: valid_erle_def e'_def v1_def v2_def v3_def above_def limit_simps)
  ultimately show ?thesis by (simp add: limits_def v)
qed

definition validate_ep_strength :: "ep_strength_cfg \<Rightarrow> bool \<times> ep_strength_cfg" where
  "validate_ep_strength x =
     (let (r1, v1) = Limit_float (default_gain x) 0 1000000;
          (r2, v2) = Limit_float (default_len x) (-1) 1;
          (r3, v3) = Limit_float (nearend_len x) (-1) 1
      in (r1 \<and> r2 \<and> r3,
          x\<lparr>default_gain := v1, default_len := v2, nearend_len := v3\<rparr>))"

definition valid_ep_strength :: "ep_strength_cfg \<Rightarrow> bool" where
  "valid_ep_strength x \<longleftrightarrow>
     in_range 0 1000000 (default_gain x) \<and>
     in_range (-1) 1 (default_len x) \<and>
     in_range (-1) 1 (nearend_len x)"

lemma validate_ep_strength_limits: "limits (validate_ep_strength x) x valid_ep_strength"
  by (cases x) (auto simp: limit_unfold validate_ep_strength_def valid_ep_strength_def limit_simps)

definition validate_echo_audibility :: "echo_audibility_cfg \<Rightarrow> bool \<times> echo_audibility_cfg" where
  "validate_echo_audibility x =
     (let (r1, v1) = Limit_float (low_render_limit x) 0 (32768 * 32768);
          (r2, v2) = Limit_float (normal_render_limit x) 0 (32768 * 32768);
          (r3, v3) = Limit_float (floor_power x) 0 (32768 * 32768);
          (r4, v4) = Limit_float (audibility_threshold_lf x) 0 (32768 * 32768);
          (r5, v5) = Limit_float (audibility_threshold_mf x) 0 (32768 * 32768);
          (r6, v6) = Limit_float (audibility_threshold_hf x) 0 (32768 * 32768)
      in (r1 \<and> r2 \<and> r3 \<and> r4 \<and> r5 \<and> r6,
          x\<lparr>low_render_limit := v1, normal_render_limit := v2, floor_power := v3, audibility_threshold_lf := v4, audibility_threshold_mf := v5, audibility_threshold_hf := v6\<rparr>))"

definition valid_echo_audibility :: "echo_audibility_cfg \<Rightarrow> bool" where
  "valid_echo_audibility x \<longleftrightarrow>
     in_range 0 (32768 * 32768) (low_render_limit x) \<and>
     in_range 0 (32768 * 32768) (normal_render_limit x) \<and>
     in_range 0 (32768 * 32768) (floor_power x) \<and>
     in_range 0 (32768 * 32768) (audibility_threshold_lf x) \<and>
     in_range 0 (32768 * 32768) (audibility_threshold_mf x) \<and>
     in_range 0 (32768 * 32768) (audibility_threshold_hf x)"

lemma validate_echo_audibility_limits: "limits (validate_echo_audibility x) x valid_echo_audibility"
  by (cases x) (auto simp: limit_unfold validate_echo_audibility_def valid_echo_audibility_def limit_simps)

definition validate_render_levels :: "render_levels_cfg \<Rightarrow> bool \<times> render_levels_cfg" where
  "validate_render_levels x =
     (let (r1, v1) = Limit_float (active_render_limit x) 0 (32768 * 32768);
          (r2, v2) = Limit_float (poor_excitation_render_limit x) 0 (32768 * 32768);
          (r3, v3) = Limit_float (poor_excitation_render_limit_ds8 x) 0 (32768 * 32768)
      in (r1 \<and> r2 \<and> r3,
          x\<lparr>active_render_limit := v1, poor_excitation_render_limit := v2, poor_excitation_render_limit_ds8 := v3\<rparr>))"

definition valid_render_levels :: "render_levels_cfg \<Rightarrow> bool" where
  "valid_render_levels x \<longleftrightarrow>
     in_range 0 (32768 * 32768) (active_render_limit x) \<and>
     in_range 0 (32768 * 32768) (poor_excitation_render_limit x) \<and>
     in_range 0 (32768 * 32768) (poor_excitation_render_limit_ds8 x)"

lemma validate_render_levels_limits: "limits (validate_render_levels x) x valid_render_levels"
  by (cases x) (auto simp: limit_unfold validate_render_levels_def valid_render_levels_def limit_simps)

definition validate_echo_model :: "echo_model_cfg \<Rightarrow> bool \<times> echo_model_cfg" where
  "validate_echo_model x =
     (let (r1, v1) = Limit (noise_floor_hold x) 0 1000;
          (r2, v2) = Limit_float (min_noise_floor_power x) 0 2000000;
          (r3, v3) = Limit_float (stationary_gate_slope x) 0 1000000;
          (r4, v4) = Limit_float (noise_gate_power x) 0 1000000;
          (r5, v5) = Limit_float (noise_gate_slope x) 0 1000000;
          (r6, v6) = Limit (render_pre_window_size x) 0 100;
          (r7, v7) = Limit (render_post_window_size x) 0 100
      in (r1 \<and> r2 \<and> r3 \<and> r4 \<and> r5 \<and> r6 \<and> r7,
          x\<lparr>noise_floor_hold := v1, min_noise_floor_power := v2, stationary_gate_slope := v3, noise_gate_power := v4, noise_gate_slope := v5, render_pre_window_size := v6, render_post_window_size := v7\<rparr>))"

definition valid_echo_model :: "echo_model_cfg \<Rightarrow> bool" where
  "valid_echo_model x \<longleftrightarrow>
     between 0 1000 (noise_floor_hold x) \<and>
     in_range 0 2000000 (min_noise_floor_power x) \<and>
     in_range 0 1000000 (stationary_gate_slope x) \<and>
     in_range 0 1000000 (noise_gate_power x) \<and>
     in_range 0 1000000 (noise_gate_slope x) \<and>
     between 0 100 (render_pre_window_size x) \<and>
     between 0 100 (render_post_window_size x)"

lemma validate_echo_model_limits: "limits (validate_echo_model x) x valid_echo_model"
  by (cases x) (auto simp: limit_unfold validate_echo_model_def valid_echo_model_def limit_simps)

definition validate_comfort_noise :: "comfort_noise_cfg \<Rightarrow> bool \<times> comfort_noise_cfg" where
  "validate_comfort_noise x =
     (let (r1, v1) = Limit_float (noise_floor_dbfs x) (-200) 0
      in (r1,
          x\<lparr>noise_floor_dbfs := v1\<rparr>))"

definition valid_comfort_noise :: "comfort_noise_cfg \<Rightarrow> bool" where
  "valid_comfort_noise x \<longleftrightarrow>
     in_range (-200) 0 (noise_floor_dbfs x)"

lemma validate_comfort_noise_limits: "limits (validate_comfort_noise x) x valid_comfort_noise"
  by (cases x) (auto simp: limit_unfold validate_comfort_noise_def valid_comfort_noise_def limit_simps)

definition validate_masking :: "masking_thresholds \<Rightarrow> bool \<times> masking_thresholds" where
  "validate_masking x =
     (let (r1, v1) = Limit_float (enr_transparent x) 0 100;
          (r2, v2) = Limit_float (enr_suppress x) 0 100;
          (r3, v3) = Limit_float (emr_transparent x) 0 100
      in (r1 \<and> r2 \<and> r3,
          x\<lparr>enr_transparent := v1, enr_suppress := v2, emr_transparent := v3\<rparr>))"

definition valid_masking :: "masking_thresholds \<Rightarrow> bool" where
  "valid_masking x \<longleftrightarrow>
     in_range 0 100 (enr_transparent x) \<and>
     in_range 0 100 (enr_suppress x) \<and>
     in_range 0 100 (emr_transparent x)"

lemma validate_masking_limits: "limits (validate_masking x) x valid_masking"
  by (cases x) (auto simp: limit_unfold validate_masking_def valid_masking_def limit_simps)

definition validate_tuning :: "tuning \<Rightarrow> bool \<times> tuning" where
  "validate_tuning t =
     (let (r1, v1) = validate_masking (mask_lf t);
          (r2, v2) = validate_masking (mask_hf t);
          (r3, v3) = Limit_float (max_inc_factor t) 0 100;
          (r4, v4) = Limit_float (max_dec_factor_lf t) 0 100
      in (r1 \<and> r2 \<and> r3 \<and> r4, t\<lparr>mask_lf := v1, mask_hf := v2, max_inc_factor := v3, max_dec_factor_lf := v4\<rparr>))"

definition valid_tuning :: "tuning \<Rightarrow> bool" where
  "valid_tuning t \<longleftrightarrow> valid_masking (mask_lf t) \<and> valid_masking (mask_hf t) \<and>
     in_range 0 100 (max_inc_factor t) \<and> in_range 0 100 (max_dec_factor_lf t)"

lemma limits_masking [limit_simps]:
  "fst (validate_masking x) \<longleftrightarrow> snd (validate_masking x) = x" "valid_masking (snd (validate_masking x))"
  "valid_masking x \<Longrightarrow> snd (validate_masking x) = x"
  using validate_masking_limits[of x] by (simp_all add: limits_def)

lemma validate_tuning_limits: "limits (validate_tuning t) t valid_tuning"
  by (cases t) (auto simp: limit_unfold validate_tuning_def valid_tuning_def limit_simps)

definition validate_dominant_nearend :: "dominant_nearend_cfg \<Rightarrow> bool \<times> dominant_nearend_cfg" where
  "validate_dominant_nearend x =
     (let (r1, v1) = Limit_float (dn_enr_threshold x) 0 1000000;
          (r2, v2) = Limit_float (dn_snr_threshold x) 0 1000000;
          (r3, v3) = Limit (hold_duration x) 0 10000;
          (r4, v4) = Limit (trigger_threshold x) 0 10000
      in (r1 \<and> r2 \<and> r3 \<and> r4,
          x\<lparr>dn_enr_threshold := v1, dn_snr_threshold := v2, hold_duration := v3, trigger_threshold := v4\<rparr>))"

definition valid_dominant_nearend :: "dominant_nearend_cfg \<Rightarrow> bool" where
  "valid_dominant_nearend x \<longleftrightarrow>
     in_range 0 1000000 (dn_enr_threshold x) \<and>
     in_range 0 1000000 (dn_snr_threshold x) \<and>
     between 0 10000 (hold_duration x) \<and>
     between 0 10000 (trigger_threshold x)"

lemma validate_dominant_nearend_limits: "limits (validate_dominant_nearend x) x valid_dominant_nearend"
  by (cases x) (auto simp: limit_unfold validate_dominant_nearend_def valid_dominant_nearend_def limit_simps)

definition validate_region :: "subband_region \<Rightarrow> bool \<times> subband_region" where
  "validate_region r =
     (let (r1, v1) = Limit (low r) 0 65;
          (r2, v2) = Limit (high r) v1 65
      in (r1 \<and> r2, r\<lparr>low := v1, high := v2\<rparr>))"

definition valid_region :: "subband_region \<Rightarrow> bool" where
  "valid_region r \<longleftrightarrow> low r \<le> high r \<and> high r \<le> 65"

lemma limits_region [limit_simps]:
  "fst (validate_region x) \<longleftrightarrow> snd (validate_region x) = x" "valid_region (snd (validate_region x))"
  "valid_region x \<Longrightarrow> snd (validate_region x) = x"
  by (cases x, auto simp: validate_region_def valid_region_def Limit_def SafeClamp_def Let_def split: if_splits)+

definition validate_subband_nearend :: "subband_nearend_cfg \<Rightarrow> bool \<times> subband_nearend_cfg" where
  "validate_subband_nearend s =
     (let (r1, v1) = Limit (sn_nearend_average_blocks s) 1 1024;
          (r2, v2) = validate_region (subband1 s);
          (r3, v3) = validate_region (subband2 s);
          (r4, v4) = Limit_float (nearend_threshold s) 0 (f32 (10 ^ 24));
          (r5, v5) = Limit_float (sn_snr_threshold s) 0 (f32 (10 ^ 24))
      in (r1 \<and> r2 \<and> r3 \<and> r4 \<and> r5,
          s\<lparr>sn_nearend_average_blocks := v1, subband1 := v2, subband2 := v3, nearend_threshold := v4, sn_snr_threshold := v5\<rparr>))"

definition valid_subband_nearend :: "subband_nearend_cfg \<Rightarrow> bool" where
  "valid_subband_nearend s \<longleftrightarrow> between 1 1024 (sn_nearend_average_blocks s) \<and> valid_region (subband1 s) \<and> valid_region (subband2 s) \<and>
     in_range 0 (f32 (10 ^ 24)) (nearend_threshold s) \<and> in_range 0 (f32 (10 ^ 24)) (sn_snr_threshold s)"

lemma validate_subband_nearend_limits: "limits (validate_subband_nearend s) s valid_subband_nearend"
  by (cases s) (auto simp: limit_unfold validate_subband_nearend_def valid_subband_nearend_def limit_simps)

definition validate_high_bands :: "high_bands_cfg \<Rightarrow> bool \<times> high_bands_cfg" where
  "validate_high_bands x =
     (let (r1, v1) = Limit_float (hb_enr_threshold x) 0 1000000;
          (r2, v2) = Limit_float (max_gain_during_echo x) 0 1;
          (r3, v3) = Limit_float (anti_howling_activation_threshold x) 0 (32768 * 32768);
          (r4, v4) = Limit_float (anti_howling_gain x) 0 1
      in (r1 \<and> r2 \<and> r3 \<and> r4,
          x\<lparr>hb_enr_threshold := v1, max_gain_during_echo := v2, anti_howling_activation_threshold := v3, anti_howling_gain := v4\<rparr>))"

definition valid_high_bands :: "high_bands_cfg \<Rightarrow> bool" where
  "valid_high_bands x \<longleftrightarrow>
     in_range 0 1000000 (hb_enr_threshold x) \<and>
     in_range 0 1 (max_gain_during_echo x) \<and>
     in_range 0 (32768 * 32768) (anti_howling_activation_threshold x) \<and>
     in_range 0 1 (anti_howling_gain x)"

lemma validate_high_bands_limits: "limits (validate_high_bands x) x valid_high_bands"
  by (cases x) (auto simp: limit_unfold validate_high_bands_def valid_high_bands_def limit_simps)

definition validate_high_frequency :: "high_frequency_cfg \<Rightarrow> bool \<times> high_frequency_cfg" where
  "validate_high_frequency h =
     (let (r1, v1) = Limit (limiting_gain_band h) 1 64;
          (r2, v2) = Limit (bands_in_limiting_gain h) 0 (64 - v1)
      in (r1 \<and> r2, h\<lparr>limiting_gain_band := v1, bands_in_limiting_gain := v2\<rparr>))"

definition valid_high_frequency :: "high_frequency_cfg \<Rightarrow> bool" where
  "valid_high_frequency h \<longleftrightarrow> 1 \<le> limiting_gain_band h \<and> 0 \<le> bands_in_limiting_gain h \<and>
     limiting_gain_band h + bands_in_limiting_gain h \<le> 64"

lemma validate_high_frequency_limits: "limits (validate_high_frequency h) h valid_high_frequency"
  by (cases h) (auto simp: limits_def validate_high_frequency_def valid_high_frequency_def Limit_def SafeClamp_def Let_def split: if_splits)

definition validate_suppressor :: "suppressor_cfg \<Rightarrow> bool \<times> suppressor_cfg" where
  "validate_suppressor s =
     (let (r1, v1) = Limit (nearend_average_blocks s) 1 5000;
          (r2, v2) = validate_tuning (normal_tuning s);
          (r3, v3) = validate_tuning (nearend_tuning s);
          (r4, v4) = Limit (last_permanent_lf_smoothing_band s) 0 64;
          (r5, v5) = Limit (last_lf_smoothing_band s) 0 64;
          (r6, v6) = Limit (last_lf_band s) 0 63;
          (r7, v7) = Limit (first_hf_band s) (v6 + 1) 64;
          (r8, v8) = validate_dominant_nearend (dominant_nearend_detection s);
          (r9, v9) = validate_subband_nearend (subband_nearend_detection s);
          (r10, v10) = validate_high_bands (high_bands_suppression s);
          (r11, v11) = validate_high_frequency (high_frequency_suppression s);
          (r12, v12) = Limit_float (floor_first_increase s) 0 1000000
      in (r1 \<and> r2 \<and> r3 \<and> r4 \<and> r5 \<and> r6 \<and> r7 \<and> r8 \<and> r9 \<and> r10 \<and> r11 \<and> r12,
          s\<lparr>nearend_average_blocks := v1, normal_tuning := v2, nearend_tuning := v3,
            last_permanent_lf_smoothing_band := v4, last_lf_smoothing_band := v5, last_lf_band := v6, first_hf_band := v7,
            dominant_nearend_detection := v8, subband_nearend_detection := v9, high_bands_suppression := v10,
            high_frequency_suppression := v11, floor_first_increase := v12\<rparr>))"

definition valid_suppressor :: "suppressor_cfg \<Rightarrow> bool" where
  "valid_suppressor s \<longleftrightarrow>
     between 1 5000 (nearend_average_blocks s) \<and> valid_tuning (normal_tuning s) \<and> valid_tuning (nearend_tuning s) \<and>
     between 0 64 (last_permanent_lf_smoothing_band s) \<and> between 0 64 (last_lf_smoothing_band s) \<and>
     0 \<le> last_lf_band s \<and> last_lf_band s < first_hf_band s \<and> first_hf_band s \<le> 64 \<and>
     valid_dominant_nearend (dominant_nearend_detection s) \<and> valid_subband_nearend (subband_nearend_detection s) \<and>
     valid_high_bands (high_bands_suppression s) \<and> valid_high_frequency (high_frequency_suppression s) \<and>
     in_range 0 1000000 (floor_first_increase s)"

lemma limits_parts [limit_simps]:
  "fst (validate_tuning t) \<longleftrightarrow> snd (validate_tuning t) = t" "valid_tuning (snd (validate_tuning t))"
  "valid_tuning t \<Longrightarrow> snd (validate_tuning t) = t"
  "fst (validate_dominant_nearend d) \<longleftrightarrow> snd (validate_dominant_nearend d) = d" "valid_dominant_nearend (snd (validate_dominant_nearend d))"
  "valid_dominant_nearend d \<Longrightarrow> snd (validate_dominant_nearend d) = d"
  "fst (validate_subband_nearend n) \<longleftrightarrow> snd (validate_subband_nearend n) = n" "valid_subband_nearend (snd (validate_subband_nearend n))"
  "valid_subband_nearend n \<Longrightarrow> snd (validate_subband_nearend n) = n"
  "fst (validate_high_bands b) \<longleftrightarrow> snd (validate_high_bands b) = b" "valid_high_bands (snd (validate_high_bands b))"
  "valid_high_bands b \<Longrightarrow> snd (validate_high_bands b) = b"
  "fst (validate_high_frequency h) \<longleftrightarrow> snd (validate_high_frequency h) = h" "valid_high_frequency (snd (validate_high_frequency h))"
  "valid_high_frequency h \<Longrightarrow> snd (validate_high_frequency h) = h"
  using validate_tuning_limits[of t] validate_dominant_nearend_limits[of d] validate_subband_nearend_limits[of n]
    validate_high_bands_limits[of b] validate_high_frequency_limits[of h]
  by (simp_all only: limits_def simp_thms)

lemma band_limits:
  fixes l h :: int
  assumes "l' = snd (Limit l 0 63)" "h' = snd (Limit h (l' + 1) 64)"
  shows "fst (Limit l 0 63) \<longleftrightarrow> l' = l" "fst (Limit h (l' + 1) 64) \<longleftrightarrow> h' = h" "0 \<le> l'" "l' < h'" "h' \<le> 64"
    "0 \<le> l \<Longrightarrow> l < h \<Longrightarrow> h \<le> 64 \<Longrightarrow> l' = l \<and> h' = h"
  using assms by (auto simp: Limit_def SafeClamp_def Let_def split: if_splits)

lemma validate_suppressor_limits: "limits (validate_suppressor s) s valid_suppressor"
proof -
  define l where "l = snd (Limit (last_lf_band s) 0 63)"
  define h where "h = snd (Limit (first_hf_band s) (l + 1) 64)"
  note b = band_limits[OF l_def h_def]
  show ?thesis
    unfolding limit_unfold validate_suppressor_def valid_suppressor_def l_def[symmetric] h_def[symmetric]
    using b by (cases s) (auto simp: limit_simps)
qed

text \<open>\<^verbatim>\<open>EchoCanceller3Config::Validate\<close>\<close>

definition Validate :: "aec3_config \<Rightarrow> bool \<times> aec3_config" where
  "Validate c =
     (let (r1, v1) = validate_delay (cfg_delay c);
          (r2, v2) = validate_filter (cfg_filter c);
          (r3, v3) = validate_erle (r_length_blocks (refined v2)) (cfg_erle c);
          (r4, v4) = validate_ep_strength (cfg_ep_strength c);
          (r5, v5) = validate_echo_audibility (cfg_echo_audibility c);
          (r6, v6) = validate_render_levels (cfg_render_levels c);
          (r7, v7) = validate_echo_model (cfg_echo_model c);
          (r8, v8) = validate_comfort_noise (cfg_comfort_noise c);
          (r9, v9) = validate_suppressor (cfg_suppressor c)
      in (r1 \<and> r2 \<and> r3 \<and> r4 \<and> r5 \<and> r6 \<and> r7 \<and> r8 \<and> r9,
          c\<lparr>cfg_delay := v1, cfg_filter := v2, cfg_erle := v3, cfg_ep_strength := v4, cfg_echo_audibility := v5,
            cfg_render_levels := v6, cfg_echo_model := v7, cfg_comfort_noise := v8, cfg_suppressor := v9\<rparr>))"

definition valid_config :: "aec3_config \<Rightarrow> bool" where
  "valid_config c \<longleftrightarrow>
     valid_delay (cfg_delay c) \<and> valid_filter (cfg_filter c) \<and> valid_erle (r_length_blocks (refined (cfg_filter c))) (cfg_erle c) \<and>
     valid_ep_strength (cfg_ep_strength c) \<and> valid_echo_audibility (cfg_echo_audibility c) \<and> valid_render_levels (cfg_render_levels c) \<and>
     valid_echo_model (cfg_echo_model c) \<and> valid_comfort_noise (cfg_comfort_noise c) \<and> valid_suppressor (cfg_suppressor c)"

lemma limits_structs [limit_simps]:
  "fst (validate_delay x1) \<longleftrightarrow> snd (validate_delay x1) = x1" "valid_delay (snd (validate_delay x1))"
  "valid_delay x1 \<Longrightarrow> snd (validate_delay x1) = x1"
  "fst (validate_filter x2) \<longleftrightarrow> snd (validate_filter x2) = x2" "valid_filter (snd (validate_filter x2))"
  "valid_filter x2 \<Longrightarrow> snd (validate_filter x2) = x2"
  "fst (validate_ep_strength x4) \<longleftrightarrow> snd (validate_ep_strength x4) = x4" "valid_ep_strength (snd (validate_ep_strength x4))"
  "valid_ep_strength x4 \<Longrightarrow> snd (validate_ep_strength x4) = x4"
  "fst (validate_echo_audibility x5) \<longleftrightarrow> snd (validate_echo_audibility x5) = x5" "valid_echo_audibility (snd (validate_echo_audibility x5))"
  "valid_echo_audibility x5 \<Longrightarrow> snd (validate_echo_audibility x5) = x5"
  "fst (validate_render_levels x6) \<longleftrightarrow> snd (validate_render_levels x6) = x6" "valid_render_levels (snd (validate_render_levels x6))"
  "valid_render_levels x6 \<Longrightarrow> snd (validate_render_levels x6) = x6"
  "fst (validate_echo_model x7) \<longleftrightarrow> snd (validate_echo_model x7) = x7" "valid_echo_model (snd (validate_echo_model x7))"
  "valid_echo_model x7 \<Longrightarrow> snd (validate_echo_model x7) = x7"
  "fst (validate_comfort_noise x8) \<longleftrightarrow> snd (validate_comfort_noise x8) = x8" "valid_comfort_noise (snd (validate_comfort_noise x8))"
  "valid_comfort_noise x8 \<Longrightarrow> snd (validate_comfort_noise x8) = x8"
  "fst (validate_suppressor x9) \<longleftrightarrow> snd (validate_suppressor x9) = x9" "valid_suppressor (snd (validate_suppressor x9))"
  "valid_suppressor x9 \<Longrightarrow> snd (validate_suppressor x9) = x9"
  using validate_delay_limits[of x1] validate_filter_limits[of x2] validate_ep_strength_limits[of x4] validate_echo_audibility_limits[of x5]
    validate_render_levels_limits[of x6] validate_echo_model_limits[of x7] validate_comfort_noise_limits[of x8] validate_suppressor_limits[of x9]
  by (simp_all only: limits_def simp_thms)

lemma limits_erle [limit_simps]:
  "1 \<le> n \<Longrightarrow> fst (validate_erle n x) \<longleftrightarrow> snd (validate_erle n x) = x" "1 \<le> n \<Longrightarrow> valid_erle n (snd (validate_erle n x))"
  "1 \<le> n \<Longrightarrow> valid_erle n x \<Longrightarrow> snd (validate_erle n x) = x"
  using validate_erle_limits[of n x] by (simp_all only: limits_def simp_thms)

lemma refined_length_pos: "1 \<le> r_length_blocks (refined (snd (validate_filter f)))"
  using validate_filter_limits[of f] unfolding limits_def valid_filter_def by (intro valid_lengths) blast

lemma Validate_limits: "limits (Validate c) c valid_config"
  using refined_length_pos[of "cfg_filter c"]
  by (cases c) (auto simp: limit_unfold Validate_def valid_config_def limit_simps)

text \<open>
  C19: \<^verbatim>\<open>Validate\<close> leaves a configuration in which every checked parameter is a finite number in
  its range and the parameters fit together; it returns true exactly when it changed nothing,
  and it changes nothing in a valid configuration, so a second check passes.
\<close>

theorem Validate_repairs:
  "valid_config (snd (Validate c)) \<and> (fst (Validate c) \<longleftrightarrow> snd (Validate c) = c) \<and>
   (valid_config c \<longleftrightarrow> Validate c = (True, c)) \<and> Validate (snd (Validate c)) = (True, snd (Validate c))"
  using Validate_limits[of c] Validate_limits[of "snd (Validate c)"]
  by (auto simp: limits_def prod_eq_iff)

section \<open>Default configurations\<close>

text \<open>A decimal constant of type \<^verbatim>\<open>float\<close> is the nearest one.\<close>

abbreviation flt :: "rat \<Rightarrow> cfloat" where "flt x \<equiv> Finite (f32 x)"

definition default_delay_cfg :: delay_cfg where
  "default_delay_cfg =
     \<lparr>default_delay = 5, down_sampling_factor = 4, num_filters = 5, delay_headroom_samples = 32,
      hysteresis_limit_blocks = 1, fixed_capture_delay_samples = 0, delay_estimate_smoothing = flt (7 / 10),
      delay_estimate_smoothing_delay_found = flt (7 / 10), delay_candidate_detection_threshold = flt (2 / 10),
      delay_selection_thresholds = \<lparr>dst_initial = 5, dst_converged = 20\<rparr>,
      use_external_delay_estimator = False, log_warning_on_delay_changes = False,
      render_alignment_mixing = \<lparr>downmix = False, adaptive_selection = True, activity_power_threshold = flt 10000, prefer_first_two_channels = True\<rparr>,
      capture_alignment_mixing = \<lparr>downmix = False, adaptive_selection = True, activity_power_threshold = flt 10000, prefer_first_two_channels = False\<rparr>,
      detect_pre_echo = True\<rparr>"

definition default_filter_cfg :: filter_cfg where
  "default_filter_cfg =
     \<lparr>refined = \<lparr>r_length_blocks = 13, leakage_converged = flt (5 / 100000), leakage_diverged = flt (5 / 100),
        error_floor = flt (1 / 1000), error_ceil = flt 2, r_noise_gate = flt 20075344\<rparr>,
      coarse = \<lparr>c_length_blocks = 13, c_rate = flt (7 / 10), c_noise_gate = flt 20075344\<rparr>,
      refined_initial = \<lparr>r_length_blocks = 12, leakage_converged = flt (5 / 1000), leakage_diverged = flt (5 / 10),
        error_floor = flt (1 / 1000), error_ceil = flt 2, r_noise_gate = flt 20075344\<rparr>,
      coarse_initial = \<lparr>c_length_blocks = 12, c_rate = flt (9 / 10), c_noise_gate = flt 20075344\<rparr>,
      config_change_duration_blocks = 250, initial_state_seconds = flt (25 / 10), coarse_reset_hangover_blocks = 25,
      conservative_initial_phase = False, enable_coarse_filter_output_usage = True, use_linear_filter = True,
      high_pass_filter_echo_reference = False, export_linear_aec_output = False\<rparr>"

definition default_suppressor_cfg :: suppressor_cfg where
  "default_suppressor_cfg =
     \<lparr>nearend_average_blocks = 4,
      normal_tuning = \<lparr>mask_lf = \<lparr>enr_transparent = flt (3 / 10), enr_suppress = flt (4 / 10), emr_transparent = flt (3 / 10)\<rparr>,
        mask_hf = \<lparr>enr_transparent = flt (7 / 100), enr_suppress = flt (1 / 10), emr_transparent = flt (3 / 10)\<rparr>,
        max_inc_factor = flt 2, max_dec_factor_lf = flt (25 / 100)\<rparr>,
      nearend_tuning = \<lparr>mask_lf = \<lparr>enr_transparent = flt (109 / 100), enr_suppress = flt (11 / 10), emr_transparent = flt (3 / 10)\<rparr>,
        mask_hf = \<lparr>enr_transparent = flt (1 / 10), enr_suppress = flt (3 / 10), emr_transparent = flt (3 / 10)\<rparr>,
        max_inc_factor = flt 2, max_dec_factor_lf = flt (25 / 100)\<rparr>,
      lf_smoothing_during_initial_phase = True, last_permanent_lf_smoothing_band = 0, last_lf_smoothing_band = 5,
      last_lf_band = 5, first_hf_band = 8,
      dominant_nearend_detection = \<lparr>dn_enr_threshold = flt (25 / 100), enr_exit_threshold = flt 10, dn_snr_threshold = flt 30,
        hold_duration = 50, trigger_threshold = 12, use_during_initial_phase = True, use_unbounded_echo_spectrum = True\<rparr>,
      subband_nearend_detection = \<lparr>sn_nearend_average_blocks = 1, subband1 = \<lparr>low = 1, high = 1\<rparr>, subband2 = \<lparr>low = 1, high = 1\<rparr>,
        nearend_threshold = flt 1, sn_snr_threshold = flt 1\<rparr>,
      use_subband_nearend_detection = False,
      high_bands_suppression = \<lparr>hb_enr_threshold = flt 1, max_gain_during_echo = flt 1,
        anti_howling_activation_threshold = flt 400, anti_howling_gain = flt 1\<rparr>,
      high_frequency_suppression = \<lparr>limiting_gain_band = 16, bands_in_limiting_gain = 1\<rparr>,
      floor_first_increase = flt (1 / 100000), conservative_hf_suppression = False\<rparr>"

definition default_config :: aec3_config where
  "default_config =
     \<lparr>cfg_buffering = \<lparr>excess_render_detection_interval_blocks = 250, max_allowed_excess_render_blocks = 8\<rparr>,
      cfg_delay = default_delay_cfg, cfg_filter = default_filter_cfg,
      cfg_erle = \<lparr>erle_min = flt 1, erle_max_l = flt 4, erle_max_h = flt (15 / 10), onset_detection = True, num_sections = 1,
        clamp_quality_estimate_to_zero = True, clamp_quality_estimate_to_one = True\<rparr>,
      cfg_ep_strength = \<lparr>default_gain = flt 1, default_len = flt (83 / 100), nearend_len = flt (83 / 100), echo_can_saturate = True,
        bounded_erl = False, erle_onset_compensation_in_dominant_nearend = False, use_conservative_tail_frequency_response = True\<rparr>,
      cfg_echo_audibility = \<lparr>low_render_limit = flt (4 * 64), normal_render_limit = flt 64, floor_power = flt (2 * 64),
        audibility_threshold_lf = flt 10, audibility_threshold_mf = flt 10, audibility_threshold_hf = flt 10,
        use_stationarity_properties = False, use_stationarity_properties_at_init = False\<rparr>,
      cfg_render_levels = \<lparr>active_render_limit = flt 100, poor_excitation_render_limit = flt 150,
        poor_excitation_render_limit_ds8 = flt 20, render_power_gain_db = flt 0\<rparr>,
      cfg_echo_removal_control = \<lparr>has_clock_drift = False, linear_and_stable_echo_path = False\<rparr>,
      cfg_echo_model = \<lparr>noise_floor_hold = 50, min_noise_floor_power = flt 1638400, stationary_gate_slope = flt 10,
        noise_gate_power = flt (2750942 / 100), noise_gate_slope = flt (3 / 10), render_pre_window_size = 1,
        render_post_window_size = 1, model_reverb_in_nonlinear_mode = True\<rparr>,
      cfg_comfort_noise = \<lparr>noise_floor_dbfs = flt (- (9603406 / 100000))\<rparr>,
      cfg_suppressor = default_suppressor_cfg,
      cfg_multi_channel = \<lparr>detect_stereo_content = True, stereo_detection_threshold = flt 0,
        stereo_detection_timeout_threshold_seconds = 300, stereo_detection_hysteresis_seconds = flt 2\<rparr>\<rparr>"

definition CreateDefaultMultichannelConfig :: aec3_config where
  "CreateDefaultMultichannelConfig =
     (let f = cfg_filter default_config; s = cfg_suppressor default_config in
      default_config\<lparr>
        cfg_filter := f\<lparr>coarse := (coarse f)\<lparr>c_length_blocks := 11, c_rate := flt (95 / 100)\<rparr>,
          coarse_initial := (coarse_initial f)\<lparr>c_length_blocks := 11, c_rate := flt (95 / 100)\<rparr>\<rparr>,
        cfg_suppressor := s\<lparr>normal_tuning := (normal_tuning s)\<lparr>max_dec_factor_lf := flt (35 / 100), max_inc_factor := flt (15 / 10)\<rparr>\<rparr>\<rparr>)"

lemma f32_range:
  assumes "lo \<le> x - (\<bar>x\<bar> / 2 ^ 24 + 1 / 2 ^ 150)" "x + (\<bar>x\<bar> / 2 ^ 24 + 1 / 2 ^ 150) \<le> hi"
  shows "lo \<le> f32 x" "f32 x \<le> hi"
  using f32_error[of x] assms by linarith+

lemma flt_in_range:
  "lo \<le> x - (\<bar>x\<bar> / 2 ^ 24 + 1 / 2 ^ 150) \<Longrightarrow> x + (\<bar>x\<bar> / 2 ^ 24 + 1 / 2 ^ 150) \<le> hi \<Longrightarrow> in_range lo hi (flt x)"
  by (simp add: in_range_def f32_range)

lemma flt_int_in_range:
  "lo \<le> of_int n \<Longrightarrow> of_int n \<le> hi \<Longrightarrow> \<bar>n\<bar> < 2 ^ 24 \<Longrightarrow> in_range lo hi (flt (of_int n))"
  by (simp add: in_range_def f32_of_int)

lemmas flt_numeral_in_range =
  flt_int_in_range[of _ "numeral k", simplified of_int_numeral] flt_int_in_range[of _ 1, simplified of_int_1]
  flt_int_in_range[of _ 0, simplified of_int_0] for k

lemma f32_examples: "f32 1 = 1" "f32 4 = 4" "1 \<le> f32 (3 / 2)" "1 \<le> f32 1000000000000000000000000"
proof -
  show "f32 1 = 1" using f32_of_int[of 1] by simp
  show "f32 4 = 4" by (simp add: f_numeral)
  show "1 \<le> f32 (3 / 2)" by (rule f32_range(1)[where hi = 2]) simp_all
  show "1 \<le> f32 1000000000000000000000000" by (rule f32_range(1)[where hi = "10 ^ 25"]) simp_all
qed

lemma flt_1_in_range: "lo \<le> 1 \<Longrightarrow> 1 \<le> hi \<Longrightarrow> in_range lo hi (flt 1)" "lo \<le> 4 \<Longrightarrow> 4 \<le> hi \<Longrightarrow> in_range lo hi (flt 4)"
  by (simp_all add: in_range_def f32_examples)

lemma default_parts_valid:
  "valid_delay default_delay_cfg" "valid_filter default_filter_cfg" "valid_suppressor default_suppressor_cfg"
  by (simp_all add: default_delay_cfg_def valid_delay_def default_filter_cfg_def valid_filter_def valid_refined_def valid_coarse_def
    default_suppressor_cfg_def valid_suppressor_def valid_tuning_def valid_masking_def valid_dominant_nearend_def
    valid_subband_nearend_def valid_region_def valid_high_bands_def valid_high_frequency_def
    between_def flt_1_in_range f32_examples(4) flt_in_range flt_numeral_in_range)

lemma default_config_valid: "valid_config default_config"
  by (simp add: default_config_def valid_config_def default_parts_valid) (simp add: default_filter_cfg_def valid_erle_def valid_ep_strength_def
    valid_echo_audibility_def valid_render_levels_def valid_echo_model_def valid_comfort_noise_def
    between_def flt_1_in_range flt_in_range flt_numeral_in_range not_less, simp add: f32_examples)

lemma multichannel_config_valid: "valid_config CreateDefaultMultichannelConfig"
proof -
  have "valid_filter (cfg_filter CreateDefaultMultichannelConfig)" "valid_suppressor (cfg_suppressor CreateDefaultMultichannelConfig)"
    using default_parts_valid(2,3)
    by (simp_all add: CreateDefaultMultichannelConfig_def Let_def default_config_def)
      (simp_all add: default_filter_cfg_def valid_filter_def valid_coarse_def default_suppressor_cfg_def valid_suppressor_def
        valid_tuning_def flt_in_range flt_numeral_in_range)
  moreover have "r_length_blocks (refined (cfg_filter CreateDefaultMultichannelConfig)) = r_length_blocks (refined (cfg_filter default_config))"
    by (simp add: CreateDefaultMultichannelConfig_def Let_def)
  ultimately show ?thesis
    using default_config_valid by (simp add: valid_config_def) (simp add: CreateDefaultMultichannelConfig_def Let_def)
qed

text \<open>
  The default configuration and the one for several channels pass the check unchanged.
\<close>

lemma defaults_valid:
  "Validate default_config = (True, default_config) \<and>
   Validate CreateDefaultMultichannelConfig = (True, CreateDefaultMultichannelConfig)"
  using Validate_limits[of default_config] Validate_limits[of CreateDefaultMultichannelConfig] default_config_valid
    multichannel_config_valid by (auto simp: limits_def prod_eq_iff)

end
