(* ===== verification/Aec_Render_Buffer.thy ===== *)
theory Aec_Render_Buffer
  imports Aec_Framing Aec_Config "HOL-Library.Monad_Syntax"
begin

text \<open>
  The buffering and alignment of the render signal in
  \<^verbatim>\<open>crates/fswtch-apm-sys/cpp/modules/audio_processing/aec3/\<close>: the ring buffers \<^verbatim>\<open>block_buffer.h\<close>,
  \<^verbatim>\<open>spectrum_buffer.h\<close>, \<^verbatim>\<open>fft_buffer.h\<close> and \<^verbatim>\<open>downsampled_render_buffer.h\<close>, the view
  \<^verbatim>\<open>render_buffer.h\<close> on them and \<^verbatim>\<open>RenderDelayBufferImpl\<close> in \<^verbatim>\<open>render_delay_buffer.cc\<close>.

  The four rings are one record here; their offset checks differ. An \<^verbatim>\<open>int\<close> is an \<^typ>\<open>int\<close>; a
  failed \<^verbatim>\<open>RTC_DCHECK\<close> and an access outside a buffer are \<^const>\<open>None\<close>, in every build, so that a call
  that returns here fails no check. One check is evaluated only in a build with \<^verbatim>\<open>RTC_DCHECK\<close>, which
  \<open>rtc_dcheck_is_on\<close> says: the one of \<^verbatim>\<open>OffsetIndex\<close> in two of the rings, which every inserted block
  fails. The release build of the crate has no checks. Samples are rational numbers,
  with the rounding of \<^verbatim>\<open>float\<close> written out. The mixing and decimation of the channels and the
  Fourier transform are parameters.
\<close>

section \<open>Constants of \<^verbatim>\<open>aec3_common.h\<close>\<close>

definition kBlockSizeMs :: int where "kBlockSizeMs = 64 * 1000 div 16000"
definition kFftLengthBy2 :: nat where "kFftLengthBy2 = 64"
definition kMatchedFilterWindowSizeSubBlocks :: nat where "kMatchedFilterWindowSizeSubBlocks = 32"
definition kMatchedFilterAlignmentShiftSizeSubBlocks :: nat where
  "kMatchedFilterAlignmentShiftSizeSubBlocks = kMatchedFilterWindowSizeSubBlocks * 3 div 4"

definition NumBandsForRate :: "nat \<Rightarrow> nat" where
  "NumBandsForRate sample_rate_hz = sample_rate_hz div 16000"

definition ValidFullBandRate :: "nat \<Rightarrow> bool" where
  "ValidFullBandRate sample_rate_hz \<longleftrightarrow> sample_rate_hz = 16000 \<or> sample_rate_hz = 32000 \<or> sample_rate_hz = 48000"

definition GetDownSampledBufferSize :: "nat \<Rightarrow> nat \<Rightarrow> nat" where
  "GetDownSampledBufferSize factor num_matched_filters =
     kBlockSize div factor *
     (kMatchedFilterAlignmentShiftSizeSubBlocks * num_matched_filters + kMatchedFilterWindowSizeSubBlocks + 1)"

definition GetRenderDelayBufferSize :: "nat \<Rightarrow> nat \<Rightarrow> nat \<Rightarrow> nat" where
  "GetRenderDelayBufferSize factor num_matched_filters filter_length_blocks =
     GetDownSampledBufferSize factor num_matched_filters div (kBlockSize div factor) + filter_length_blocks + 1"

section \<open>Ring buffers\<close>

definition RTC_DCHECK :: "bool \<Rightarrow> unit option" where
  "RTC_DCHECK condition = (if condition then Some () else None)"

record 'x ring =
  ring_size :: int
  buffer :: "'x list"
  wpos :: int
  rpos :: int

definition new_ring :: "nat \<Rightarrow> 'x \<Rightarrow> 'x ring" where
  "new_ring n x = \<lparr>ring_size = int n, buffer = replicate n x, wpos = 0, rpos = 0\<rparr>"

definition IncIndex :: "'x ring \<Rightarrow> int \<Rightarrow> int" where
  "IncIndex r index = (if index < ring_size r - 1 then index + 1 else 0)"

definition DecIndex :: "'x ring \<Rightarrow> int \<Rightarrow> int" where
  "DecIndex r index = (if index > 0 then index - 1 else ring_size r - 1)"

definition OffsetIndex :: "'x ring \<Rightarrow> int \<Rightarrow> int \<Rightarrow> int option" where
  "OffsetIndex r index offset =
     (if ring_size r \<ge> offset then Some (cmodi (ring_size r + index + offset) (ring_size r)) else None)"

text \<open>
  \<^verbatim>\<open>DownsampledRenderBuffer\<close> and \<^verbatim>\<open>FftBuffer\<close> compare the \<^verbatim>\<open>size_t\<close> of the vector with the \<^verbatim>\<open>int\<close> offset,
  which is converted to \<^verbatim>\<open>size_t\<close>: in a build with checks no negative offset passes.
\<close>

definition size_OffsetIndex :: "bool \<Rightarrow> 'x ring \<Rightarrow> int \<Rightarrow> int \<Rightarrow> int option" where
  "size_OffsetIndex checked r index offset =
     (if checked \<longrightarrow> int (length (buffer r)) \<ge> uint (word_of_int offset :: u64)
      then Some (cmodi (ring_size r + index + offset) (ring_size r)) else None)"

text \<open>The spectrum buffer compares as the block buffer does, and checks one thing more.\<close>

definition spectrum_OffsetIndex :: "'x ring \<Rightarrow> int \<Rightarrow> int \<Rightarrow> int option" where
  "spectrum_OffsetIndex r index offset =
     (if ring_size r \<ge> offset \<and> ring_size r + index + offset \<ge> 0
      then Some (cmodi (ring_size r + index + offset) (ring_size r)) else None)"

text \<open>Those of the low-rate ring; the other rings only step.\<close>

definition UpdateWriteIndex :: "bool \<Rightarrow> 'x ring \<Rightarrow> int \<Rightarrow> 'x ring option" where
  "UpdateWriteIndex checked r offset = do { i \<leftarrow> size_OffsetIndex checked r (wpos r) offset; Some (r\<lparr>wpos := i\<rparr>) }"

definition IncWriteIndex :: "'x ring \<Rightarrow> 'x ring" where "IncWriteIndex r = r\<lparr>wpos := IncIndex r (wpos r)\<rparr>"
definition DecWriteIndex :: "'x ring \<Rightarrow> 'x ring" where "DecWriteIndex r = r\<lparr>wpos := DecIndex r (wpos r)\<rparr>"

definition UpdateReadIndex :: "bool \<Rightarrow> 'x ring \<Rightarrow> int \<Rightarrow> 'x ring option" where
  "UpdateReadIndex checked r offset = do { i \<leftarrow> size_OffsetIndex checked r (rpos r) offset; Some (r\<lparr>rpos := i\<rparr>) }"

definition IncReadIndex :: "'x ring \<Rightarrow> 'x ring" where "IncReadIndex r = r\<lparr>rpos := IncIndex r (rpos r)\<rparr>"
definition DecReadIndex :: "'x ring \<Rightarrow> 'x ring" where "DecReadIndex r = r\<lparr>rpos := DecIndex r (rpos r)\<rparr>"

definition at_index :: "'x list \<Rightarrow> int \<Rightarrow> 'x option" where
  "at_index xs i = (if 0 \<le> i \<and> i < int (length xs) then Some (xs ! nat i) else None)"

definition store :: "'x \<Rightarrow> 'x ring \<Rightarrow> 'x ring option" where
  "store x r = (if 0 \<le> wpos r \<and> wpos r < int (length (buffer r)) then Some (r\<lparr>buffer := (buffer r)[nat (wpos r) := x]\<rparr>) else None)"

section \<open>The state\<close>

text \<open>
  The signal processing: \<^verbatim>\<open>AlignmentMixer\<close> and \<^verbatim>\<open>Decimator\<close> with their state, \<^verbatim>\<open>Aec3Fft::PaddedFft\<close>,
  \<^verbatim>\<open>FftData::Spectrum\<close>, and \<^verbatim>\<open>std::pow\<close> with base 10; and whether the build has \<^verbatim>\<open>RTC_DCHECK\<close>.
\<close>

record ('m, 'f, 's) dsp =
  produce_low_rate :: "'m \<Rightarrow> rat block \<Rightarrow> 'm \<times> rat list"
  padded_fft :: "rat list \<Rightarrow> rat list \<Rightarrow> 'f"
  spectrum_of :: "'f \<Rightarrow> 's"
  clear_fft :: 'f
  clear_spectrum :: 's
  new_mixer :: 'm
  amplitude_gain :: "cfloat \<Rightarrow> rat"
  rtc_dcheck_is_on :: bool

datatype buffering_event = kNone | kRenderUnderrun | kRenderOverrun

record ('m, 'f, 's) render_delay_buffer =
  rdb_config :: aec3_config
  render_linear_amplitude_gain :: rat
  sub_block_size :: int
  blocks :: "rat block ring"
  spectra :: "'s list ring"
  ffts :: "'f list ring"
  delay :: "int option"
  low_rate :: "rat ring"
  render_mixer :: 'm
  buffer_headroom :: int
  last_call_was_render :: bool
  num_api_calls_in_a_row :: int
  max_observed_jitter :: int
  capture_call_counter :: int
  render_call_counter :: int
  render_activity :: bool
  render_activity_counter :: nat
  external_audio_buffer_delay :: "int option"
  external_audio_buffer_delay_verified_after_reset :: bool
  min_latency_blocks :: nat
  excess_render_detection_counter :: nat
  remover_render_activity :: bool
  rdb_checked :: bool

definition MaxDelay :: "('m, 'f, 's) render_delay_buffer \<Rightarrow> int" where
  "MaxDelay st = int (length (buffer (blocks st))) - 1 - buffer_headroom st"

definition BufferLatency :: "('m, 'f, 's) render_delay_buffer \<Rightarrow> int" where
  "BufferLatency st =
     (let l = low_rate st; n = int (length (buffer l));
          latency_samples = (n + rpos l - wpos l) mod n
      in latency_samples div sub_block_size st)"

definition MapDelayToTotalDelay :: "('m, 'f, 's) render_delay_buffer \<Rightarrow> int \<Rightarrow> int" where
  "MapDelayToTotalDelay st external_delay_blocks = BufferLatency st + external_delay_blocks"

definition ComputeDelay :: "('m, 'f, 's) render_delay_buffer \<Rightarrow> int" where
  "ComputeDelay st =
     (let s = spectra st;
          internal_delay = (if rpos s \<ge> wpos s then rpos s - wpos s else ring_size s + rpos s - wpos s)
      in internal_delay - BufferLatency st)"

definition ApplyTotalDelay :: "int \<Rightarrow> ('m, 'f, 's) render_delay_buffer \<Rightarrow> ('m, 'f, 's) render_delay_buffer option" where
  "ApplyTotalDelay d st = do {
     b \<leftarrow> OffsetIndex (blocks st) (wpos (blocks st)) (- d);
     s \<leftarrow> spectrum_OffsetIndex (spectra st) (wpos (spectra st)) d;
     f \<leftarrow> size_OffsetIndex (rdb_checked st) (ffts st) (wpos (ffts st)) d;
     Some (st\<lparr>blocks := (blocks st)\<lparr>rpos := b\<rparr>, spectra := (spectra st)\<lparr>rpos := s\<rparr>, ffts := (ffts st)\<lparr>rpos := f\<rparr>\<rparr>)
   }"

definition Reset :: "('m, 'f, 's) render_delay_buffer \<Rightarrow> ('m, 'f, 's) render_delay_buffer option" where
  "Reset st = do {
     let st = st\<lparr>last_call_was_render := False, num_api_calls_in_a_row := 1, min_latency_blocks := 0,
                 excess_render_detection_counter := 0\<rparr>;
     i \<leftarrow> size_OffsetIndex (rdb_checked st) (low_rate st) (wpos (low_rate st)) (sub_block_size st);
     let st = st\<lparr>low_rate := (low_rate st)\<lparr>rpos := i\<rparr>\<rparr>;
     (case external_audio_buffer_delay st of
        Some ext \<Rightarrow> do {
          let headroom = 2;
          let delay_to_set = (if ext \<le> headroom then 1 else ext - headroom);
          let delay_to_set = min delay_to_set (MaxDelay st);
          st \<leftarrow> ApplyTotalDelay delay_to_set st;
          Some (st\<lparr>delay := Some (ComputeDelay st), external_audio_buffer_delay_verified_after_reset := False\<rparr>)
        }
      | None \<Rightarrow> do {
          st \<leftarrow> ApplyTotalDelay (int (default_delay (cfg_delay (rdb_config st)))) st;
          Some (st\<lparr>delay := None\<rparr>)
        })
   }"

definition new_render_delay_buffer ::
    "('m, 'f, 's) dsp \<Rightarrow> aec3_config \<Rightarrow> nat \<Rightarrow> nat \<Rightarrow> ('m, 'f, 's) render_delay_buffer option" where
  "new_render_delay_buffer dsp config sample_rate_hz num_render_channels =
     (let d = cfg_delay config; factor = down_sampling_factor d;
          ring_len = GetRenderDelayBufferSize factor (num_filters d) (r_length_blocks (refined (cfg_filter config)))
      in Reset
       \<lparr>rdb_config = config,
        render_linear_amplitude_gain = amplitude_gain dsp (render_power_gain_db (cfg_render_levels config)),
        sub_block_size = int (if factor > 0 then kBlockSize div factor else kBlockSize),
        blocks = new_ring ring_len (new_block (NumBandsForRate sample_rate_hz) num_render_channels 0),
        spectra = new_ring ring_len (replicate num_render_channels (clear_spectrum dsp)),
        ffts = new_ring ring_len (replicate num_render_channels (clear_fft dsp)),
        delay = Some (int (default_delay d)),
        low_rate = new_ring (GetDownSampledBufferSize factor (num_filters d)) 0,
        render_mixer = new_mixer dsp,
        buffer_headroom = int (r_length_blocks (refined (cfg_filter config))),
        last_call_was_render = False, num_api_calls_in_a_row = 0, max_observed_jitter = 1,
        capture_call_counter = 0, render_call_counter = 0, render_activity = False, render_activity_counter = 0,
        external_audio_buffer_delay = None, external_audio_buffer_delay_verified_after_reset = False,
        min_latency_blocks = 0, excess_render_detection_counter = 0, remover_render_activity = False,
        rdb_checked = rtc_dcheck_is_on dsp\<rparr>)"

section \<open>Inserting render blocks\<close>

definition IncrementWriteIndices :: "('m, 'f, 's) render_delay_buffer \<Rightarrow> ('m, 'f, 's) render_delay_buffer option" where
  "IncrementWriteIndices st = do {
     l \<leftarrow> UpdateWriteIndex (rdb_checked st) (low_rate st) (- sub_block_size st);
     Some (st\<lparr>low_rate := l, blocks := IncWriteIndex (blocks st), spectra := DecWriteIndex (spectra st),
              ffts := DecWriteIndex (ffts st)\<rparr>)
   }"

definition IncrementLowRateReadIndices :: "('m, 'f, 's) render_delay_buffer \<Rightarrow> ('m, 'f, 's) render_delay_buffer option" where
  "IncrementLowRateReadIndices st = do {
     l \<leftarrow> UpdateReadIndex (rdb_checked st) (low_rate st) (- sub_block_size st);
     Some (st\<lparr>low_rate := l\<rparr>)
   }"

definition IncrementReadIndices :: "('m, 'f, 's) render_delay_buffer \<Rightarrow> ('m, 'f, 's) render_delay_buffer" where
  "IncrementReadIndices st =
     (if rpos (blocks st) \<noteq> wpos (blocks st)
      then st\<lparr>blocks := IncReadIndex (blocks st), spectra := DecReadIndex (spectra st), ffts := DecReadIndex (ffts st)\<rparr>
      else st)"

definition RenderOverrun :: "('m, 'f, 's) render_delay_buffer \<Rightarrow> bool" where
  "RenderOverrun st \<longleftrightarrow> rpos (low_rate st) = wpos (low_rate st) \<or> rpos (blocks st) = wpos (blocks st)"

definition RenderUnderrun :: "('m, 'f, 's) render_delay_buffer \<Rightarrow> bool" where
  "RenderUnderrun st \<longleftrightarrow> rpos (low_rate st) = wpos (low_rate st)"

definition DetectActiveRender :: "('m, 'f, 's) render_delay_buffer \<Rightarrow> rat list \<Rightarrow> bool" where
  "DetectActiveRender st x \<longleftrightarrow>
     (let x_energy = foldl (\<lambda>acc v. f32 (acc + f32 (v * v))) 0 x in
      case active_render_limit (cfg_render_levels (rdb_config st)) of
        Finite l \<Rightarrow> x_energy > f32 (f32 (l * l) * rat_of_nat kFftLengthBy2)
      | _ \<Rightarrow> False)"

definition copy_block :: "rat block \<Rightarrow> rat block \<Rightarrow> rat block option" where
  "copy_block src = for_each (band_channels (num_bands src) (num_channels src))
     (\<lambda>band ch dst. Some (write_block (View src band ch) band ch 0 dst))"

definition apply_gain :: "rat \<Rightarrow> rat block \<Rightarrow> rat block option" where
  "apply_gain gain blk = for_each (band_channels (num_bands blk) (num_channels blk))
     (\<lambda>band ch b. Some (write_block (map (\<lambda>sample. f32 (sample * gain)) (View b band ch)) band ch 0 b)) blk"

definition InsertRenderBlock ::
    "('m, 'f, 's) dsp \<Rightarrow> rat block \<Rightarrow> int \<Rightarrow> ('m, 'f, 's) render_delay_buffer \<Rightarrow> ('m, 'f, 's) render_delay_buffer option" where
  "InsertRenderBlock dsp blk previous_write st = do {
     old \<leftarrow> at_index (buffer (blocks st)) (wpos (blocks st));
     RTC_DCHECK (num_bands blk = num_bands old \<and> num_channels blk = num_channels old);
     new \<leftarrow> copy_block blk old;
     new \<leftarrow> (if render_linear_amplitude_gain st \<noteq> 1 then apply_gain (render_linear_amplitude_gain st) new else Some new);
     b \<leftarrow> store new (blocks st);
     let (mixer, ds) = produce_low_rate dsp (render_mixer st) new;
     prev \<leftarrow> at_index (buffer b) previous_write;
     let f = map (\<lambda>ch. padded_fft dsp (View new 0 ch) (View prev 0 ch)) [0..<num_channels new];
     fs \<leftarrow> store f (ffts st);
     ss \<leftarrow> store (map (spectrum_of dsp) f) (spectra st);
     let lr = low_rate st;
     RTC_DCHECK (0 \<le> wpos lr \<and> wpos lr + int (length ds) \<le> int (length (buffer lr)));
     Some (st\<lparr>blocks := b, render_mixer := mixer, ffts := fs, spectra := ss,
              low_rate := lr\<lparr>buffer := copy_to (rev ds) (nat (wpos lr)) (buffer lr)\<rparr>\<rparr>)
   }"

definition count_render_call :: "('m, 'f, 's) render_delay_buffer \<Rightarrow> ('m, 'f, 's) render_delay_buffer" where
  "count_render_call st =
     (let st = st\<lparr>render_call_counter := render_call_counter st + 1\<rparr> in
      if delay st = None then st
      else if \<not> last_call_was_render st then st\<lparr>last_call_was_render := True, num_api_calls_in_a_row := 1\<rparr>
      else (let n = num_api_calls_in_a_row st + 1 in
            st\<lparr>num_api_calls_in_a_row := n, max_observed_jitter := max (max_observed_jitter st) n\<rparr>))"

definition Insert ::
    "('m, 'f, 's) dsp \<Rightarrow> rat block \<Rightarrow> ('m, 'f, 's) render_delay_buffer \<Rightarrow> (('m, 'f, 's) render_delay_buffer \<times> buffering_event) option" where
  "Insert dsp blk st = do {
     let st = count_render_call st;
     let previous_write = wpos (blocks st);
     st \<leftarrow> IncrementWriteIndices st;
     let event = (if RenderOverrun st then kRenderOverrun else kNone);
     let st = (if render_activity st then st
               else (let n = render_activity_counter st + (if DetectActiveRender st (View blk 0 0) then 1 else 0)
                     in st\<lparr>render_activity_counter := n, render_activity := n \<ge> 20\<rparr>));
     st \<leftarrow> InsertRenderBlock dsp blk previous_write st;
     st \<leftarrow> (if event \<noteq> kNone then Reset st else Some st);
     Some (st, event)
   }"

section \<open>Reading for the capture signal\<close>

definition HandleSkippedCaptureProcessing :: "('m, 'f, 's) render_delay_buffer \<Rightarrow> ('m, 'f, 's) render_delay_buffer" where
  "HandleSkippedCaptureProcessing st = st\<lparr>capture_call_counter := capture_call_counter st + 1\<rparr>"

definition DetectExcessRenderBlocks :: "('m, 'f, 's) render_delay_buffer \<Rightarrow> ('m, 'f, 's) render_delay_buffer \<times> bool" where
  "DetectExcessRenderBlocks st =
     (let latency_blocks = nat (BufferLatency st);
          min_latency = min (min_latency_blocks st) latency_blocks;
          n = excess_render_detection_counter st + 1;
          buffering = cfg_buffering (rdb_config st)
      in if n \<ge> excess_render_detection_interval_blocks buffering
         then (st\<lparr>min_latency_blocks := latency_blocks, excess_render_detection_counter := 0\<rparr>,
               min_latency > max_allowed_excess_render_blocks buffering)
         else (st\<lparr>min_latency_blocks := min_latency, excess_render_detection_counter := n\<rparr>, False))"

definition count_capture_call :: "('m, 'f, 's) render_delay_buffer \<Rightarrow> ('m, 'f, 's) render_delay_buffer" where
  "count_capture_call st =
     (let st = st\<lparr>capture_call_counter := capture_call_counter st + 1\<rparr> in
      if delay st = None then st
      else if last_call_was_render st then st\<lparr>last_call_was_render := False, num_api_calls_in_a_row := 1\<rparr>
      else (let n = num_api_calls_in_a_row st + 1 in
            st\<lparr>num_api_calls_in_a_row := n, max_observed_jitter := max (max_observed_jitter st) n\<rparr>))"

definition PrepareCaptureProcessing ::
    "('m, 'f, 's) render_delay_buffer \<Rightarrow> (('m, 'f, 's) render_delay_buffer \<times> buffering_event) option" where
  "PrepareCaptureProcessing st = do {
     let st = count_capture_call st;
     let (st, excess) = DetectExcessRenderBlocks st;
     (st, event) \<leftarrow>
       (if excess then do { st \<leftarrow> Reset st; Some (st, kRenderOverrun) }
        else if RenderUnderrun st then
          (let st = IncrementReadIndices st;
               st = (case delay st of Some d \<Rightarrow> (if d > 0 then st\<lparr>delay := Some (d - 1)\<rparr> else st) | None \<Rightarrow> st)
           in Some (st, kRenderUnderrun))
        else do { st \<leftarrow> IncrementLowRateReadIndices st; Some (IncrementReadIndices st, kNone) });
     let st = st\<lparr>remover_render_activity := render_activity st\<rparr>;
     let st = (if render_activity st then st\<lparr>render_activity_counter := 0, render_activity := False\<rparr> else st);
     Some (st, event)
   }"

section \<open>Alignment\<close>

definition AlignFromDelay :: "int \<Rightarrow> ('m, 'f, 's) render_delay_buffer \<Rightarrow> (('m, 'f, 's) render_delay_buffer \<times> bool) option" where
  "AlignFromDelay d st = do {
     RTC_DCHECK (\<not> use_external_delay_estimator (cfg_delay (rdb_config st)));
     let st = (if \<not> external_audio_buffer_delay_verified_after_reset st \<and> external_audio_buffer_delay st \<noteq> None \<and> delay st \<noteq> None
               then st\<lparr>external_audio_buffer_delay_verified_after_reset := True\<rparr> else st);
     if delay st = Some d then Some (st, False)
     else do {
       let st = st\<lparr>delay := Some d\<rparr>;
       let total_delay = MapDelayToTotalDelay st d;
       let total_delay = min (MaxDelay st) (max total_delay 0);
       st \<leftarrow> ApplyTotalDelay total_delay st;
       Some (st, True)
     }
   }"

text \<open>The sum and the division are unsigned; reduced to \<^verbatim>\<open>int\<close> again, a negative delay is rounded down.\<close>

definition SetAudioBufferDelay :: "int \<Rightarrow> ('m, 'f, 's) render_delay_buffer \<Rightarrow> ('m, 'f, 's) render_delay_buffer" where
  "SetAudioBufferDelay delay_ms st =
     (let kNumSamplesPerMs = 16000 div 1000 in
      st\<lparr>external_audio_buffer_delay :=
           Some ((delay_ms * kNumSamplesPerMs + int (fixed_capture_delay_samples (cfg_delay (rdb_config st)))) div
                 (kBlockSizeMs * kNumSamplesPerMs))\<rparr>)"

definition HasReceivedBufferDelay :: "('m, 'f, 's) render_delay_buffer \<Rightarrow> bool" where
  "HasReceivedBufferDelay st \<longleftrightarrow> external_audio_buffer_delay st \<noteq> None"

definition AlignFromExternalDelay :: "('m, 'f, 's) render_delay_buffer \<Rightarrow> ('m, 'f, 's) render_delay_buffer option" where
  "AlignFromExternalDelay st =
     (if \<not> use_external_delay_estimator (cfg_delay (rdb_config st)) then None
      else (case external_audio_buffer_delay st of None \<Rightarrow> Some st
        | Some ext \<Rightarrow> (let d = render_call_counter st - capture_call_counter st + ext;
                           delay_with_headroom = d - int (delay_headroom_samples (cfg_delay (rdb_config st))) div int kBlockSize
                       in ApplyTotalDelay delay_with_headroom st)))"

section \<open>\<^verbatim>\<open>RenderBuffer\<close>\<close>

definition GetBlock :: "('m, 'f, 's) render_delay_buffer \<Rightarrow> int \<Rightarrow> rat block option" where
  "GetBlock st buffer_offset_blocks = do {
     position \<leftarrow> OffsetIndex (blocks st) (rpos (blocks st)) buffer_offset_blocks;
     at_index (buffer (blocks st)) position }"

definition Spectrum :: "('m, 'f, 's) render_delay_buffer \<Rightarrow> int \<Rightarrow> 's list option" where
  "Spectrum st buffer_offset_ffts = do {
     position \<leftarrow> spectrum_OffsetIndex (spectra st) (rpos (spectra st)) buffer_offset_ffts;
     at_index (buffer (spectra st)) position }"

definition Position :: "('m, 'f, 's) render_delay_buffer \<Rightarrow> int option" where
  "Position st = (if rpos (spectra st) = rpos (ffts st) \<and> wpos (spectra st) = wpos (ffts st) then Some (rpos (ffts st)) else None)"

definition Headroom :: "('m, 'f, 's) render_delay_buffer \<Rightarrow> int option" where
  "Headroom st =
     (let f = ffts st;
          headroom = (if wpos f \<le> rpos f then rpos f - wpos f else ring_size f - wpos f + rpos f)
      in if 0 \<le> headroom \<and> headroom < ring_size f then Some headroom else None)"

section \<open>Rings as histories\<close>

text \<open>
  The contract of a ring with respect to what was written: after a write the newest element is the
  one written, and every older one is still there, one place further back, up to the capacity.
\<close>

definition remembers :: "('b \<Rightarrow> nat \<Rightarrow> 'x) \<Rightarrow> nat \<Rightarrow> 'b \<Rightarrow> 'x list \<Rightarrow> bool" where
  "remembers recent cap r xs \<longleftrightarrow> (\<forall>j<cap. j < length xs \<longrightarrow> recent r j = xs ! j)"

locale history =
  fixes push :: "'x \<Rightarrow> 'b \<Rightarrow> 'b option"
    and recent :: "'b \<Rightarrow> nat \<Rightarrow> 'x"
    and ok :: "'b \<Rightarrow> bool"
    and cap :: nat
  assumes push: "ok r \<Longrightarrow> \<exists>r'. push x r = Some r' \<and> ok r' \<and> (0 < cap \<longrightarrow> recent r' 0 = x) \<and>
    (\<forall>j. Suc j < cap \<longrightarrow> recent r' (Suc j) = recent r j)"
begin

lemma push_remembers:
  assumes "ok r" "remembers recent cap r xs" "push x r = Some r'"
  shows "ok r'" "remembers recent cap r' (x # xs)"
proof -
  have p: "ok r'" "0 < cap \<longrightarrow> recent r' 0 = x" "\<And>j. Suc j < cap \<Longrightarrow> recent r' (Suc j) = recent r j"
    using push[OF assms(1), of x] assms(3) by auto
  then show "ok r'" by simp
  show "remembers recent cap r' (x # xs)"
    unfolding remembers_def
  proof (intro allI impI)
    fix j assume "j < cap" "j < length (x # xs)"
    then show "recent r' j = (x # xs) ! j"
      using p(2,3) assms(2) by (cases j) (auto simp: remembers_def)
  qed
qed

end

definition ring_ok :: "nat \<Rightarrow> 'x ring \<Rightarrow> bool" where
  "ring_ok n r \<longleftrightarrow> ring_size r = int n \<and> length (buffer r) = n \<and> 0 \<le> wpos r \<and> wpos r < int n \<and> 0 \<le> rpos r \<and> rpos r < int n"

definition recent_up :: "'x ring \<Rightarrow> nat \<Rightarrow> 'x" where
  "recent_up r j = buffer r ! nat ((wpos r - int j) mod ring_size r)"

definition recent_down :: "'x ring \<Rightarrow> nat \<Rightarrow> 'x" where
  "recent_down r j = buffer r ! nat ((wpos r + int j) mod ring_size r)"

definition push_up :: "'x \<Rightarrow> 'x ring \<Rightarrow> 'x ring option" where
  "push_up x r = store x (IncWriteIndex r)"

definition push_down :: "'x \<Rightarrow> 'x ring \<Rightarrow> 'x ring option" where
  "push_down x r = store x (DecWriteIndex r)"

lemma IncIndex_mod: "0 \<le> i \<Longrightarrow> i < ring_size r \<Longrightarrow> IncIndex r i = (i + 1) mod ring_size r"
  by (cases "i + 1 = ring_size r") (auto simp: IncIndex_def)

lemma DecIndex_mod: "0 \<le> i \<Longrightarrow> i < ring_size r \<Longrightarrow> DecIndex r i = (i - 1) mod ring_size r"
  by (cases "i = 0") (auto simp: DecIndex_def zmod_minus1)

lemma OffsetIndex_mod:
  assumes "0 < ring_size r" "off \<le> ring_size r" "0 \<le> ring_size r + i + off"
  shows "OffsetIndex r i off = Some ((i + off) mod ring_size r)" "spectrum_OffsetIndex r i off = Some ((i + off) mod ring_size r)"
  using assms by (simp_all add: OffsetIndex_def spectrum_OffsetIndex_def add.assoc)

lemma size_OffsetIndex_mod:
  assumes "0 < ring_size r" "0 \<le> ring_size r + i + off" "checked \<Longrightarrow> 0 \<le> off \<and> off \<le> int (length (buffer r))"
  shows "size_OffsetIndex checked r i off = Some ((i + off) mod ring_size r)"
proof -
  have "uint (word_of_int off :: u64) \<le> int (length (buffer r))" if checked
    using assms(3)[OF that] zmod_le_nonneg_dividend[of off "2 ^ 64"] by (simp add: unsigned_of_int take_bit_eq_mod)
  then show ?thesis using assms(1,2) by (simp add: size_OffsetIndex_def add.assoc)
qed

lemma size_OffsetIndex_negative:
  assumes "off < 0" "int (length (buffer r)) - off < 2 ^ 64"
  shows "size_OffsetIndex True r i off = None"
proof -
  have "off mod 2 ^ 64 = (off + 2 ^ 64) mod 2 ^ 64" by simp
  also have "\<dots> = off + 2 ^ 64" by (rule mod_pos_pos_trivial) (use assms in linarith)+
  finally have "uint (word_of_int off :: u64) = off + 2 ^ 64" by (simp add: unsigned_of_int take_bit_eq_mod)
  then show ?thesis using assms by (simp add: size_OffsetIndex_def)
qed

lemma size_OffsetIndex_value: "size_OffsetIndex checked r i off = Some x \<Longrightarrow> size_OffsetIndex False r i off = Some x"
  by (simp add: size_OffsetIndex_def split: if_splits)

lemma shift_neq:
  assumes "0 < d" "d < (n :: int)"
  shows "(x - d) mod n \<noteq> x mod n" "(x + d) mod n \<noteq> x mod n"
proof -
  have "\<not> n dvd d" using assms zdvd_not_zless by blast
  then show "(x - d) mod n \<noteq> x mod n" "(x + d) mod n \<noteq> x mod n" by (simp_all add: mod_eq_dvd_iff)
qed

lemma recent_step:
  fixes w :: int
  assumes "Suc j < nat n"
  shows "((w + 1) mod n - int (Suc j)) mod n = (w - int j) mod n" "((w - 1) mod n + int (Suc j)) mod n = (w + int j) mod n"
    "(w - int j) mod n \<noteq> (w + 1) mod n" "(w + int j) mod n \<noteq> (w - 1) mod n"
proof -
  have "((w + 1) mod n - int (Suc j)) mod n = ((w + 1) - int (Suc j)) mod n" by (rule mod_diff_left_eq)
  then show "((w + 1) mod n - int (Suc j)) mod n = (w - int j) mod n" by simp
  have "((w - 1) mod n + int (Suc j)) mod n = ((w - 1) + int (Suc j)) mod n" by (rule mod_add_left_eq)
  then show "((w - 1) mod n + int (Suc j)) mod n = (w + int j) mod n" by simp
  have d: "0 < int (Suc j)" "int (Suc j) < n" using assms by simp_all
  show "(w - int j) mod n \<noteq> (w + 1) mod n" "(w + int j) mod n \<noteq> (w - 1) mod n"
    using shift_neq(1)[OF d, of "w + 1"] shift_neq(2)[OF d, of "w - 1"] by simp_all
qed

interpretation up: history push_up recent_up "ring_ok n" n for n
proof unfold_locales
  fix n :: nat and r :: "'x ring" and x
  assume "ring_ok n r"
  then have r: "ring_size r = int n" "length (buffer r) = n" "0 \<le> wpos r" "wpos r < int n" "0 \<le> rpos r" "rpos r < int n"
    by (simp_all add: ring_ok_def)
  define w where "w = (wpos r + 1) mod int n"
  have w: "0 \<le> w" "w < int n" using r by (simp_all add: w_def)
  define r' where "r' = r\<lparr>wpos := w, buffer := (buffer r)[nat w := x]\<rparr>"
  have "push_up x r = Some r'"
    using r w IncIndex_mod[of "wpos r" r] by (simp add: push_up_def store_def IncWriteIndex_def r'_def w_def)
  moreover have "ring_ok n r'" using r w by (simp add: ring_ok_def r'_def)
  moreover have "recent_up r' 0 = x" using r w by (simp add: recent_up_def r'_def)
  moreover have "recent_up r' (Suc j) = recent_up r j" if "Suc j < n" for j
    using recent_step(1,3)[of j "int n" "wpos r"] that w
    by (simp add: recent_up_def r'_def r(1) w_def eq_nat_nat_iff del: of_nat_Suc)
  ultimately show "\<exists>r'. push_up x r = Some r' \<and> ring_ok n r' \<and> (0 < n \<longrightarrow> recent_up r' 0 = x) \<and>
      (\<forall>j. Suc j < n \<longrightarrow> recent_up r' (Suc j) = recent_up r j)" by blast
qed

interpretation down: history push_down recent_down "ring_ok n" n for n
proof unfold_locales
  fix n :: nat and r :: "'x ring" and x
  assume "ring_ok n r"
  then have r: "ring_size r = int n" "length (buffer r) = n" "0 \<le> wpos r" "wpos r < int n" "0 \<le> rpos r" "rpos r < int n"
    by (simp_all add: ring_ok_def)
  define w where "w = (wpos r - 1) mod int n"
  have w: "0 \<le> w" "w < int n" using r by (simp_all add: w_def)
  define r' where "r' = r\<lparr>wpos := w, buffer := (buffer r)[nat w := x]\<rparr>"
  have "push_down x r = Some r'"
    using r w DecIndex_mod[of "wpos r" r] by (simp add: push_down_def store_def DecWriteIndex_def r'_def w_def)
  moreover have "ring_ok n r'" using r w by (simp add: ring_ok_def r'_def)
  moreover have "recent_down r' 0 = x" using r w by (simp add: recent_down_def r'_def)
  moreover have "recent_down r' (Suc j) = recent_down r j" if "Suc j < n" for j
    using recent_step(2,4)[of j "int n" "wpos r"] that w
    by (simp add: recent_down_def r'_def r(1) w_def eq_nat_nat_iff del: of_nat_Suc)
  ultimately show "\<exists>r'. push_down x r = Some r' \<and> ring_ok n r' \<and> (0 < n \<longrightarrow> recent_down r' 0 = x) \<and>
      (\<forall>j. Suc j < n \<longrightarrow> recent_down r' (Suc j) = recent_down r j)" by blast
qed

section \<open>Facts about blocks\<close>

lemma block_eqI:
  fixes x y :: "'a block"
  assumes x: "wf_block nb nc x" and y: "wf_block nb nc y" and v: "\<And>b c. b < nb \<Longrightarrow> c < nc \<Longrightarrow> View x b c = View y b c"
  shows "x = y"
proof -
  have "block_data x ! i = block_data y ! i" if i: "i < nb * nc * 64" for i
  proof -
    define q where "q = i div 64"
    have q: "q < nb * nc" using i by (simp add: q_def less_mult_imp_div_less)
    then have pos: "0 < nc" by (cases nc) auto
    have b: "q div nc < nb" using q by (simp add: less_mult_imp_div_less)
    have c: "q mod nc < nc" using pos by simp
    have idx: "GetIndex x (q div nc) (q mod nc) = q * 64" "GetIndex y (q div nc) (q mod nc) = q * 64"
      using x y by (simp_all add: GetIndex_def wf_block_def kBlockSize_def)
    have r: "i mod 64 < kBlockSize" "q * 64 + i mod 64 = i" by (simp_all add: kBlockSize_def q_def)
    have l: "q * 64 + kBlockSize \<le> length (block_data x)" "q * 64 + kBlockSize \<le> length (block_data y)"
      using index_bound[OF x b c] index_bound[OF y b c] idx by simp_all
    have "View x (q div nc) (q mod nc) ! (i mod 64) = block_data x ! i" "View y (q div nc) (q mod nc) ! (i mod 64) = block_data y ! i"
      using nth_take_drop[OF r(1) l(1)] nth_take_drop[OF r(1) l(2)] r(2) by (simp_all add: View_def idx)
    then show ?thesis using v[OF b c] by simp
  qed
  then have "block_data x = block_data y"
    using x y by (intro nth_equalityI) (simp_all add: wf_block_def kBlockSize_def)
  then show ?thesis using x y by (simp add: wf_block_def)
qed

lemma copy_block_ok:
  assumes "wf_block nb nc src" "wf_block nb nc dst"
  shows "copy_block src dst = Some src"
proof -
  have "\<exists>s'. for_each (band_channels nb nc) (\<lambda>b c d. Some (write_block (View src b c) b c 0 d)) dst = Some s' \<and> wf_block nb nc s' \<and>
      (\<forall>(b, c)\<in>set (band_channels nb nc). View s' b c = View src b c)"
  proof (rule for_each_cells[OF distinct_band_channels, where pre = "\<lambda>_ _ _. True"])
    fix b c :: nat and d :: "rat block"
    assume bc: "(b, c) \<in> set (band_channels nb nc)" and d: "wf_block nb nc d"
    have b: "b < nb" "c < nc" using bc by (simp_all add: band_channels_set)
    have l: "0 + length (View src b c) \<le> kBlockSize" using assms(1) b by simp
    have "copy_to (View src b c) 0 (View d b c) = View src b c" using assms(1) d b by (simp add: copy_to_def)
    then have v: "View (write_block (View src b c) b c 0 d) b' c' = (if (b, c) = (b', c') then View src b c else View d b' c')"
      if "b' < nb" "c' < nc" for b' c'
      using View_write_block[OF d b that l] by auto
    show "\<exists>s'. Some (write_block (View src b c) b c 0 d) = Some s' \<and> wf_block nb nc s' \<and> View s' b c = View src b c \<and>
        (\<forall>b' c'. (b', c') \<in> set (band_channels nb nc) \<and> (b', c') \<noteq> (b, c) \<longrightarrow>
           (True \<longrightarrow> True) \<and> (View d b' c' = View src b' c' \<longrightarrow> View s' b' c' = View src b' c'))"
      using wf_write_block[OF d b l] v b by (simp add: band_channels_set)
  qed (use assms in auto)
  then obtain s' where s': "copy_block src dst = Some s'" "wf_block nb nc s'" "\<And>b c. b < nb \<Longrightarrow> c < nc \<Longrightarrow> View s' b c = View src b c"
    using assms(1) by (auto simp: copy_block_def wf_block_def band_channels_set)
  have "s' = src" by (rule block_eqI[OF s'(2) assms(1) s'(3)])
  then show ?thesis using s'(1) by simp
qed

definition scaled :: "rat \<Rightarrow> rat block \<Rightarrow> rat block" where
  "scaled gain blk = (if gain = 1 then blk else blk\<lparr>block_data := map (\<lambda>x. f32 (x * gain)) (block_data blk)\<rparr>)"

lemma wf_scaled [simp]: "wf_block nb nc blk \<Longrightarrow> wf_block nb nc (scaled g blk)"
  by (simp add: scaled_def wf_block_def)

lemma apply_gain_ok:
  assumes "wf_block nb nc blk" "g \<noteq> 1"
  shows "apply_gain g blk = Some (scaled g blk)"
proof -
  let ?h = "\<lambda>x. f32 (x * g)"
  have "\<exists>s'. for_each (band_channels nb nc) (\<lambda>b c d. Some (write_block (map ?h (View d b c)) b c 0 d)) blk = Some s' \<and> wf_block nb nc s' \<and>
      (\<forall>(b, c)\<in>set (band_channels nb nc). View s' b c = map ?h (View blk b c))"
  proof (rule for_each_cells[OF distinct_band_channels, where pre = "\<lambda>b c d. View d b c = View blk b c"])
    fix b c :: nat and d :: "rat block"
    assume bc: "(b, c) \<in> set (band_channels nb nc)" and d: "wf_block nb nc d" and p: "View d b c = View blk b c"
    have b: "b < nb" "c < nc" using bc by (simp_all add: band_channels_set)
    have l: "0 + length (map ?h (View blk b c)) \<le> kBlockSize" using assms(1) b by simp
    have "copy_to (map ?h (View blk b c)) 0 (View d b c) = map ?h (View blk b c)" using assms(1) d b by (simp add: copy_to_def)
    then have v: "View (write_block (map ?h (View blk b c)) b c 0 d) b' c' = (if (b, c) = (b', c') then map ?h (View blk b c) else View d b' c')"
      if "b' < nb" "c' < nc" for b' c'
      using View_write_block[OF d b that l] by auto
    show "\<exists>s'. Some (write_block (map ?h (View d b c)) b c 0 d) = Some s' \<and> wf_block nb nc s' \<and> View s' b c = map ?h (View blk b c) \<and>
        (\<forall>b' c'. (b', c') \<in> set (band_channels nb nc) \<and> (b', c') \<noteq> (b, c) \<longrightarrow>
           (View d b' c' = View blk b' c' \<longrightarrow> View s' b' c' = View blk b' c') \<and>
           (View d b' c' = map ?h (View blk b' c') \<longrightarrow> View s' b' c' = map ?h (View blk b' c')))"
      unfolding p using wf_write_block[OF d b l] v b by (simp add: band_channels_set)
  qed (use assms in auto)
  then obtain s' where s': "apply_gain g blk = Some s'" "wf_block nb nc s'" "\<And>b c. b < nb \<Longrightarrow> c < nc \<Longrightarrow> View s' b c = map ?h (View blk b c)"
    using assms(1) by (auto simp: apply_gain_def wf_block_def band_channels_set)
  have "View (scaled g blk) b c = map ?h (View blk b c)" for b c
    using assms(2) by (simp add: scaled_def View_def GetIndex_def take_map drop_map)
  then have "s' = scaled g blk" using s'(3) by (intro block_eqI[OF s'(2) wf_scaled[OF assms(1)]]) simp
  then show ?thesis using s'(1) by simp
qed
section \<open>The invariant of the render delay buffer\<close>

definition dsp_ok :: "('m, 'f, 's) dsp \<Rightarrow> int \<Rightarrow> bool" where
  "dsp_ok dsp sub \<longleftrightarrow> (\<forall>m blk. int (length (snd (produce_low_rate dsp m blk))) = sub)"

text \<open>
  The three rings of blocks, spectra and Fourier transforms have the same size and move together:
  the positions in the ring of blocks rise where the two others fall. The positions of the
  low-rate ring are multiples of the sub block size.
\<close>

definition rdb_ok :: "nat \<Rightarrow> nat \<Rightarrow> nat \<Rightarrow> nat \<Rightarrow> ('m, 'f, 's) render_delay_buffer \<Rightarrow> bool" where
  "rdb_ok nb nc n m st \<longleftrightarrow> 0 < nb \<and> 0 < nc \<and>
     ring_ok n (blocks st) \<and> ring_ok n (spectra st) \<and> ring_ok n (ffts st) \<and> ring_ok m (low_rate st) \<and>
     wpos (ffts st) = wpos (spectra st) \<and> rpos (ffts st) = rpos (spectra st) \<and>
     int n dvd wpos (blocks st) + wpos (spectra st) \<and> int n dvd rpos (blocks st) + rpos (spectra st) \<and>
     0 < sub_block_size st \<and> sub_block_size st < int m \<and> sub_block_size st dvd int m \<and>
     sub_block_size st dvd wpos (low_rate st) \<and> sub_block_size st dvd rpos (low_rate st) \<and>
     0 \<le> buffer_headroom st \<and> buffer_headroom st + 34 \<le> int n \<and> default_delay (cfg_delay (rdb_config st)) \<le> n \<and>
     (\<forall>b\<in>set (buffer (blocks st)). wf_block nb nc b)"

lemma rdb_okD:
  assumes "rdb_ok nb nc n m st"
  shows "0 < nb" "0 < nc" "ring_ok n (blocks st)" "ring_ok n (spectra st)" "ring_ok n (ffts st)" "ring_ok m (low_rate st)"
    "wpos (ffts st) = wpos (spectra st)" "rpos (ffts st) = rpos (spectra st)"
    "int n dvd wpos (blocks st) + wpos (spectra st)" "int n dvd rpos (blocks st) + rpos (spectra st)"
    "0 < sub_block_size st" "sub_block_size st < int m" "sub_block_size st dvd int m"
    "sub_block_size st dvd wpos (low_rate st)" "sub_block_size st dvd rpos (low_rate st)"
    "0 \<le> buffer_headroom st" "buffer_headroom st + 34 \<le> int n" "default_delay (cfg_delay (rdb_config st)) \<le> n"
    "\<And>b. b \<in> set (buffer (blocks st)) \<Longrightarrow> wf_block nb nc b"
  using assms by (simp_all add: rdb_ok_def)

lemma ring_okD:
  assumes "ring_ok n r"
  shows "ring_size r = int n" "length (buffer r) = n" "0 \<le> wpos r" "wpos r < int n" "0 \<le> rpos r" "rpos r < int n" "0 < int n"
  using assms by (auto simp: ring_ok_def)

lemma ring_ok_rpos [simp]: "ring_ok n r \<Longrightarrow> 0 \<le> i \<Longrightarrow> i < int n \<Longrightarrow> ring_ok n (r\<lparr>rpos := i\<rparr>)"
  by (simp add: ring_ok_def)

lemma ring_ok_wpos [simp]: "ring_ok n r \<Longrightarrow> 0 \<le> i \<Longrightarrow> i < int n \<Longrightarrow> ring_ok n (r\<lparr>wpos := i\<rparr>)"
  by (simp add: ring_ok_def)

text \<open>The operations that only read move positions and leave the data alone.\<close>

definition same_data :: "('m, 'f, 's) render_delay_buffer \<Rightarrow> ('m, 'f, 's) render_delay_buffer \<Rightarrow> bool" where
  "same_data st st' \<longleftrightarrow>
     (\<forall>i. recent_up (blocks st') i = recent_up (blocks st) i) \<and> (\<forall>i. recent_down (ffts st') i = recent_down (ffts st) i) \<and>
     (\<forall>i. recent_down (spectra st') i = recent_down (spectra st) i) \<and>
     render_linear_amplitude_gain st' = render_linear_amplitude_gain st \<and> rdb_config st' = rdb_config st \<and>
     sub_block_size st' = sub_block_size st \<and> rdb_checked st' = rdb_checked st"

lemma same_data_refl [simp]: "same_data st st"
  by (simp add: same_data_def)

lemma same_data_trans: "same_data st st1 \<Longrightarrow> same_data st1 st2 \<Longrightarrow> same_data st st2"
  by (simp add: same_data_def)

lemma recent_rpos [simp]: "recent_up (r\<lparr>rpos := i\<rparr>) = recent_up r" "recent_down (r\<lparr>rpos := i\<rparr>) = recent_down r"
  by (simp_all add: recent_up_def recent_down_def fun_eq_iff)

definition total_delay :: "('m, 'f, 's) render_delay_buffer \<Rightarrow> int" where
  "total_delay st = (wpos (blocks st) - rpos (blocks st)) mod ring_size (blocks st)"

definition set_delay :: "int \<Rightarrow> ('m, 'f, 's) render_delay_buffer \<Rightarrow> ('m, 'f, 's) render_delay_buffer" where
  "set_delay d st = st
     \<lparr>blocks := (blocks st)\<lparr>rpos := (wpos (blocks st) - d) mod ring_size (blocks st)\<rparr>,
      spectra := (spectra st)\<lparr>rpos := (wpos (spectra st) + d) mod ring_size (spectra st)\<rparr>,
      ffts := (ffts st)\<lparr>rpos := (wpos (ffts st) + d) mod ring_size (ffts st)\<rparr>\<rparr>"

lemma ApplyTotalDelay_eq:
  assumes "rdb_ok nb nc n m st" "0 \<le> d" "d \<le> int n"
  shows "ApplyTotalDelay d st = Some (set_delay d st)"
proof -
  note b = ring_okD[OF rdb_okD(3)[OF assms(1)]] and s = ring_okD[OF rdb_okD(4)[OF assms(1)]] and f = ring_okD[OF rdb_okD(5)[OF assms(1)]]
  have "OffsetIndex (blocks st) (wpos (blocks st)) (- d) = Some ((wpos (blocks st) - d) mod ring_size (blocks st))"
    using OffsetIndex_mod(1)[of "blocks st" "- d" "wpos (blocks st)"] b assms(2,3) by simp
  moreover have "spectrum_OffsetIndex (spectra st) (wpos (spectra st)) d = Some ((wpos (spectra st) + d) mod ring_size (spectra st))"
    using OffsetIndex_mod(2)[of "spectra st" d "wpos (spectra st)"] s assms(2,3) by simp
  moreover have "size_OffsetIndex (rdb_checked st) (ffts st) (wpos (ffts st)) d = Some ((wpos (ffts st) + d) mod ring_size (ffts st))"
    using size_OffsetIndex_mod[of "ffts st" "wpos (ffts st)" d] f assms(2,3) by simp
  ultimately show ?thesis by (simp add: ApplyTotalDelay_def set_delay_def)
qed

lemma set_delay_ok:
  assumes "rdb_ok nb nc n m st"
  shows "rdb_ok nb nc n m (set_delay d st)" "same_data st (set_delay d st)" "0 \<le> d \<Longrightarrow> d < int n \<Longrightarrow> total_delay (set_delay d st) = d"
    "BufferLatency (set_delay d st) = BufferLatency st"
proof -
  note ok = rdb_okD[OF assms]
  note b = ring_okD[OF ok(3)] and s = ring_okD[OF ok(4)] and f = ring_okD[OF ok(5)]
  have "int n dvd (wpos (blocks st) - d) mod int n + (wpos (spectra st) + d) mod int n"
  proof -
    have "((wpos (blocks st) - d) mod int n + (wpos (spectra st) + d) mod int n) mod int n = ((wpos (blocks st) - d) + (wpos (spectra st) + d)) mod int n"
      by (rule mod_add_eq)
    also have "\<dots> = 0" using ok(9) by (simp add: dvd_eq_mod_eq_0)
    finally show ?thesis by (simp add: dvd_eq_mod_eq_0)
  qed
  then show "rdb_ok nb nc n m (set_delay d st)"
    using assms b s f unfolding rdb_ok_def by (simp add: set_delay_def)
  show "same_data st (set_delay d st)" by (simp add: same_data_def set_delay_def)
  have "(wpos (blocks st) - (wpos (blocks st) - d) mod int n) mod int n = (wpos (blocks st) - (wpos (blocks st) - d)) mod int n"
    by (rule mod_diff_right_eq)
  then show "total_delay (set_delay d st) = d" if "0 \<le> d" "d < int n"
    using that b by (simp add: total_delay_def set_delay_def)
  show "BufferLatency (set_delay d st) = BufferLatency st" by (simp add: BufferLatency_def set_delay_def)
qed

lemma ComputeDelay_eq:
  assumes "rdb_ok nb nc n m st"
  shows "ComputeDelay st = total_delay st - BufferLatency st"
proof -
  note ok = rdb_okD[OF assms]
  note b = ring_okD[OF ok(3)] and s = ring_okD[OF ok(4)]
  let ?bw = "wpos (blocks st)" and ?br = "rpos (blocks st)" and ?sw = "wpos (spectra st)" and ?sr = "rpos (spectra st)"
  have "int n dvd (?bw + ?sw) - (?br + ?sr)" using ok(9,10) by (rule dvd_diff)
  then have "(?bw - ?br) mod int n = (?sr - ?sw) mod int n"
    by (simp add: mod_eq_dvd_iff algebra_simps)
  moreover have "(if ?sr \<ge> ?sw then ?sr - ?sw else int n + ?sr - ?sw) = (?sr - ?sw) mod int n"
  proof (cases "?sr \<ge> ?sw")
    case False
    then have "(?sr - ?sw) mod int n = (?sr - ?sw + int n) mod int n" by simp
    also have "\<dots> = ?sr - ?sw + int n" using s False by (intro mod_pos_pos_trivial) simp_all
    finally show ?thesis using False by simp
  qed (use s in simp)
  moreover have "ComputeDelay st = (if ?sr \<ge> ?sw then ?sr - ?sw else int n + ?sr - ?sw) - BufferLatency st"
    using s by (simp add: ComputeDelay_def Let_def)
  ultimately show ?thesis using b by (simp only: total_delay_def)
qed

lemma MaxDelay_bounds: "rdb_ok nb nc n m st \<Longrightarrow> 33 \<le> MaxDelay st \<and> MaxDelay st < int n"
  using rdb_okD(16,17)[of nb nc n m st] ring_okD(2)[OF rdb_okD(3)[of nb nc n m st]] by (simp add: MaxDelay_def)

lemma rdb_ok_cong:
  assumes "rdb_ok nb nc n m st" "blocks st' = blocks st" "spectra st' = spectra st" "ffts st' = ffts st" "low_rate st' = low_rate st"
    "sub_block_size st' = sub_block_size st" "buffer_headroom st' = buffer_headroom st" "rdb_config st' = rdb_config st"
  shows "rdb_ok nb nc n m st'"
  using assms unfolding rdb_ok_def by simp

lemma low_read_ok:
  assumes "rdb_ok nb nc n m st" "sub_block_size st dvd i" "0 \<le> i" "i < int m"
  shows "rdb_ok nb nc n m (st\<lparr>low_rate := (low_rate st)\<lparr>rpos := i\<rparr>\<rparr>)"
  using assms unfolding rdb_ok_def by simp

lemma Reset_ok:
  assumes "rdb_ok nb nc n m st"
  shows "\<exists>st'. Reset st = Some st' \<and> rdb_ok nb nc n m st' \<and> same_data st st' \<and> BufferLatency st' = 1 \<and>
    (external_audio_buffer_delay st = None \<longrightarrow> delay st' = None) \<and>
    (\<forall>ext. external_audio_buffer_delay st = Some ext \<longrightarrow> delay st' = Some (ComputeDelay st') \<and>
       total_delay st' = min (if ext \<le> 2 then 1 else ext - 2) (MaxDelay st))"
proof -
  note ok = rdb_okD[OF assms]
  note l = ring_okD[OF ok(6)]
  define w where "w = wpos (low_rate st)"
  define sub where "sub = sub_block_size st"
  define i where "i = (w + sub) mod int m"
  have i: "0 \<le> i" "i < int m" "sub dvd i"
    using l ok(13,14) by (simp_all add: i_def dvd_mod w_def sub_def)
  define st1 where "st1 = st\<lparr>last_call_was_render := False, num_api_calls_in_a_row := 1, min_latency_blocks := 0,
      excess_render_detection_counter := 0\<rparr>"
  define st2 where "st2 = st1\<lparr>low_rate := (low_rate st)\<lparr>rpos := i\<rparr>\<rparr>"
  have "rdb_ok nb nc n m st1" by (rule rdb_ok_cong[OF assms]) (simp_all add: st1_def)
  then have st2: "rdb_ok nb nc n m st2" unfolding st2_def
    using low_read_ok[of nb nc n m st1 i] i by (simp add: st1_def sub_def)
  have off: "size_OffsetIndex (rdb_checked st) (low_rate st) (wpos (low_rate st)) (sub_block_size st) = Some i"
    using size_OffsetIndex_mod[of "low_rate st" w sub] l ok(11,12) by (simp add: i_def w_def sub_def)
  have latency: "BufferLatency st2 = 1"
  proof -
    have "(int m + i - w) mod int m = (i - w) mod int m" by (metis add.commute add_diff_eq mod_add_self1)
    also have "\<dots> = (w + sub - w) mod int m" unfolding i_def by (rule mod_diff_left_eq)
    also have "\<dots> = sub" using ok(11,12) by (simp add: sub_def)
    finally show ?thesis
      using l ok(11) by (simp add: BufferLatency_def st2_def st1_def w_def sub_def)
  qed
  have same: "same_data st st2" by (simp add: same_data_def st2_def st1_def)
  show ?thesis
  proof (cases "external_audio_buffer_delay st")
    case None
    let ?d = "int (default_delay (cfg_delay (rdb_config st)))"
    have a: "ApplyTotalDelay ?d st2 = Some (set_delay ?d st2)"
      using ApplyTotalDelay_eq[OF st2] ok(18) by simp
    let ?st' = "(set_delay ?d st2)\<lparr>delay := None\<rparr>"
    have "Reset st = Some ?st'"
      using off None a by (simp add: Reset_def st2_def st1_def Let_def)
    moreover have "rdb_ok nb nc n m ?st'" by (rule rdb_ok_cong[OF set_delay_ok(1)[OF st2]]) simp_all
    moreover have "same_data st ?st'" using same_data_trans[OF same set_delay_ok(2)[OF st2]] by (simp add: same_data_def)
    moreover have "BufferLatency ?st' = 1" using latency set_delay_ok(4)[OF st2] by (simp add: BufferLatency_def)
    ultimately show ?thesis using None by simp
  next
    case (Some ext)
    define d where "d = min (if ext \<le> 2 then 1 else ext - 2) (MaxDelay st2)"
    have d: "1 \<le> d" "d < int n" using MaxDelay_bounds[OF st2] by (auto simp: d_def)
    have a: "ApplyTotalDelay d st2 = Some (set_delay d st2)" using ApplyTotalDelay_eq[OF st2] d by simp
    let ?st' = "(set_delay d st2)\<lparr>delay := Some (ComputeDelay (set_delay d st2)), external_audio_buffer_delay_verified_after_reset := False\<rparr>"
    have "MaxDelay st2 = MaxDelay (st1\<lparr>low_rate := (low_rate st)\<lparr>rpos := i\<rparr>\<rparr>)" by (simp add: st2_def)
    then have "Reset st = Some ?st'"
      using off Some a by (simp add: Reset_def st2_def st1_def Let_def d_def)
    moreover have "rdb_ok nb nc n m ?st'" by (rule rdb_ok_cong[OF set_delay_ok(1)[OF st2]]) simp_all
    moreover have "same_data st ?st'" using same_data_trans[OF same set_delay_ok(2)[OF st2]] by (simp add: same_data_def)
    moreover have "BufferLatency ?st' = 1" using latency set_delay_ok(4)[OF st2] by (simp add: BufferLatency_def)
    moreover have "total_delay ?st' = d" using set_delay_ok(3)[OF st2, of d] d by (simp add: total_delay_def)
    moreover have "MaxDelay st2 = MaxDelay st" by (simp add: MaxDelay_def st2_def st1_def)
    moreover have "ComputeDelay ?st' = ComputeDelay (set_delay d st2)" by (simp add: ComputeDelay_def BufferLatency_def)
    ultimately show ?thesis using Some by (simp add: d_def)
  qed
qed

section \<open>The operations keep the invariant\<close>

lemma dvd_fits:
  assumes "sub dvd i" "sub dvd m" "0 < sub" "i < (m :: int)"
  shows "i + sub \<le> m"
proof -
  have "sub dvd m - i" using assms(1,2) by (simp add: dvd_diff)
  then have "sub \<le> m - i" using assms(4) by (simp add: zdvd_imp_le)
  then show ?thesis by simp
qed

text \<open>In a build with checks a returned call has the same result.\<close>

lemma UpdateReadIndex_low:
  assumes "rdb_ok nb nc n m st" "\<not> rdb_checked st \<or> IncrementLowRateReadIndices st \<noteq> None"
  shows "\<exists>st'. IncrementLowRateReadIndices st = Some st' \<and> rdb_ok nb nc n m st' \<and> same_data st st'"
proof -
  note ok = rdb_okD[OF assms(1)]
  note l = ring_okD[OF ok(6)]
  define i where "i = (rpos (low_rate st) + - sub_block_size st) mod int m"
  have "size_OffsetIndex False (low_rate st) (rpos (low_rate st)) (- sub_block_size st) = Some i"
    using size_OffsetIndex_mod[of "low_rate st" "rpos (low_rate st)" "- sub_block_size st" False] l ok(11,12) by (simp add: i_def)
  then have "size_OffsetIndex (rdb_checked st) (low_rate st) (rpos (low_rate st)) (- sub_block_size st) = Some i"
    using assms(2) size_OffsetIndex_value
    by (cases "rdb_checked st") (fastforce simp: IncrementLowRateReadIndices_def UpdateReadIndex_def split: bind_splits)+
  moreover have "0 \<le> i" "i < int m" "sub_block_size st dvd i"
    using l ok(13,15) by (simp_all add: i_def dvd_mod)
  ultimately show ?thesis
    using low_read_ok[OF assms(1), of i] by (simp add: IncrementLowRateReadIndices_def UpdateReadIndex_def same_data_def)
qed

lemma IncrementReadIndices_ok:
  assumes "rdb_ok nb nc n m st"
  shows "rdb_ok nb nc n m (IncrementReadIndices st) \<and> same_data st (IncrementReadIndices st)"
proof -
  note ok = rdb_okD[OF assms]
  note b = ring_okD[OF ok(3)] and s = ring_okD[OF ok(4)] and f = ring_okD[OF ok(5)]
  have "int n dvd (rpos (blocks st) + 1) mod int n + (rpos (spectra st) - 1) mod int n"
  proof -
    have "((rpos (blocks st) + 1) mod int n + (rpos (spectra st) - 1) mod int n) mod int n = ((rpos (blocks st) + 1) + (rpos (spectra st) - 1)) mod int n"
      by (rule mod_add_eq)
    also have "\<dots> = 0" using ok(10) by (simp add: dvd_eq_mod_eq_0)
    finally show ?thesis by (simp add: dvd_eq_mod_eq_0)
  qed
  moreover have "IncrementReadIndices st = st" if "rpos (blocks st) = wpos (blocks st)" using that by (simp add: IncrementReadIndices_def)
  ultimately show ?thesis
    using assms b s f IncIndex_mod[of "rpos (blocks st)" "blocks st"] DecIndex_mod[of "rpos (spectra st)" "spectra st"] DecIndex_mod[of "rpos (ffts st)" "ffts st"]
    by (cases "rpos (blocks st) = wpos (blocks st)")
      (simp_all add: rdb_ok_def same_data_def IncrementReadIndices_def IncReadIndex_def DecReadIndex_def)
qed

lemma same_data_cong:
  assumes "same_data st st1" "blocks st' = blocks st1" "spectra st' = spectra st1" "ffts st' = ffts st1"
    "sub_block_size st' = sub_block_size st1" "rdb_config st' = rdb_config st1" "render_linear_amplitude_gain st' = render_linear_amplitude_gain st1"
    "rdb_checked st' = rdb_checked st1"
  shows "same_data st st'"
  using assms by (simp add: same_data_def)

lemma counted_frame:
  "blocks (count_capture_call st) = blocks st" "spectra (count_capture_call st) = spectra st" "ffts (count_capture_call st) = ffts st"
  "low_rate (count_capture_call st) = low_rate st" "sub_block_size (count_capture_call st) = sub_block_size st"
  "buffer_headroom (count_capture_call st) = buffer_headroom st" "rdb_config (count_capture_call st) = rdb_config st"
  "render_linear_amplitude_gain (count_capture_call st) = render_linear_amplitude_gain st"
  "blocks (count_render_call st) = blocks st" "spectra (count_render_call st) = spectra st" "ffts (count_render_call st) = ffts st"
  "low_rate (count_render_call st) = low_rate st" "sub_block_size (count_render_call st) = sub_block_size st"
  "buffer_headroom (count_render_call st) = buffer_headroom st" "rdb_config (count_render_call st) = rdb_config st"
  "render_linear_amplitude_gain (count_render_call st) = render_linear_amplitude_gain st" "render_mixer (count_render_call st) = render_mixer st"
  "rdb_checked (count_render_call st) = rdb_checked st" "rdb_checked (count_capture_call st) = rdb_checked st"
  by (simp_all add: count_capture_call_def count_render_call_def Let_def)

lemma excess_frame:
  assumes "DetectExcessRenderBlocks st = (st', e)"
  shows "blocks st' = blocks st" "spectra st' = spectra st" "ffts st' = ffts st" "low_rate st' = low_rate st" "sub_block_size st' = sub_block_size st"
    "buffer_headroom st' = buffer_headroom st" "rdb_config st' = rdb_config st" "render_linear_amplitude_gain st' = render_linear_amplitude_gain st"
    "rdb_checked st' = rdb_checked st"
  using assms by (auto simp: DetectExcessRenderBlocks_def Let_def split: if_splits)

lemma PrepareCaptureProcessing_ok:
  assumes "rdb_ok nb nc n m st" "\<not> rdb_checked st \<or> PrepareCaptureProcessing st \<noteq> None"
  shows "\<exists>st' ev. PrepareCaptureProcessing st = Some (st', ev) \<and> rdb_ok nb nc n m st' \<and> same_data st st'"
proof -
  obtain st1 e where st1: "DetectExcessRenderBlocks (count_capture_call st) = (st1, e)" by (cases "DetectExcessRenderBlocks (count_capture_call st)")
  note fr = excess_frame[OF st1]
  have ok1: "rdb_ok nb nc n m st1" by (rule rdb_ok_cong[OF assms(1)]) (simp_all add: fr counted_frame)
  have same1: "same_data st st1" by (rule same_data_cong[OF same_data_refl]) (simp_all add: fr counted_frame)
  have ch: "rdb_checked st1 = rdb_checked st" using same1 by (simp add: same_data_def)
  define finish where "finish = (\<lambda>st2 :: ('a, 'b, 'c) render_delay_buffer.
      (let st3 = st2\<lparr>remover_render_activity := render_activity st2\<rparr> in
       if render_activity st3 then st3\<lparr>render_activity_counter := 0, render_activity := False\<rparr> else st3))"
  have "\<exists>st2 ev. PrepareCaptureProcessing st = Some (finish st2, ev) \<and> rdb_ok nb nc n m st2 \<and> same_data st st2"
  proof (cases e)
    case True
    obtain st2 where "Reset st1 = Some st2" "rdb_ok nb nc n m st2" "same_data st1 st2" using Reset_ok[OF ok1] by blast
    then show ?thesis
      using st1 True same_data_trans[OF same1] by (intro exI[of _ st2] exI[of _ kRenderOverrun]) (simp add: PrepareCaptureProcessing_def finish_def Let_def)
  next
    case False
    show ?thesis
    proof (cases "RenderUnderrun st1")
      case True
      define st2 where "st2 = (let s = IncrementReadIndices st1 in
          case delay s of Some d \<Rightarrow> (if d > 0 then s\<lparr>delay := Some (d - 1)\<rparr> else s) | None \<Rightarrow> s)"
      have fr2: "blocks st2 = blocks (IncrementReadIndices st1)" "spectra st2 = spectra (IncrementReadIndices st1)"
        "ffts st2 = ffts (IncrementReadIndices st1)" "low_rate st2 = low_rate (IncrementReadIndices st1)"
        "sub_block_size st2 = sub_block_size (IncrementReadIndices st1)" "buffer_headroom st2 = buffer_headroom (IncrementReadIndices st1)"
        "rdb_config st2 = rdb_config (IncrementReadIndices st1)"
        "render_linear_amplitude_gain st2 = render_linear_amplitude_gain (IncrementReadIndices st1)"
        "rdb_checked st2 = rdb_checked (IncrementReadIndices st1)"
        by (simp_all add: st2_def Let_def split: option.splits)
      note i = IncrementReadIndices_ok[OF ok1]
      have "rdb_ok nb nc n m st2" by (rule rdb_ok_cong[OF i[THEN conjunct1]]) (simp_all add: fr2)
      moreover have "same_data st1 st2" by (rule same_data_cong[OF i[THEN conjunct2]]) (simp_all add: fr2)
      ultimately show ?thesis
        using st1 False True same_data_trans[OF same1]
        by (intro exI[of _ st2] exI[of _ kRenderUnderrun]) (simp add: PrepareCaptureProcessing_def finish_def st2_def Let_def)
    next
      case no: False
      have "\<not> rdb_checked st1 \<or> IncrementLowRateReadIndices st1 \<noteq> None"
        using assms(2) st1 False no ch by (auto simp: PrepareCaptureProcessing_def Let_def split: bind_splits)
      from UpdateReadIndex_low[OF ok1 this]
      obtain st2 where st2: "IncrementLowRateReadIndices st1 = Some st2" "rdb_ok nb nc n m st2" "same_data st1 st2"
        by blast
      then show ?thesis
        using st1 False no IncrementReadIndices_ok[OF st2(2)] same_data_trans[OF same1 same_data_trans[OF st2(3)]]
        by (intro exI[of _ "IncrementReadIndices st2"] exI[of _ kNone]) (simp add: PrepareCaptureProcessing_def finish_def Let_def)
    qed
  qed
  then obtain st2 ev where r: "PrepareCaptureProcessing st = Some (finish st2, ev)" "rdb_ok nb nc n m st2" "same_data st st2" by blast
  have "rdb_ok nb nc n m (finish st2)" by (rule rdb_ok_cong[OF r(2)]) (simp_all add: finish_def Let_def)
  moreover have "same_data st (finish st2)" by (rule same_data_cong[OF r(3)]) (simp_all add: finish_def Let_def)
  ultimately show ?thesis using r(1) by blast
qed

lemma AlignFromDelay_ok:
  assumes "rdb_ok nb nc n m st" "\<not> use_external_delay_estimator (cfg_delay (rdb_config st))"
  shows "\<exists>st' changed. AlignFromDelay d st = Some (st', changed) \<and> rdb_ok nb nc n m st' \<and> same_data st st' \<and>
    changed = (delay st \<noteq> Some d) \<and> delay st' = Some d \<and> BufferLatency st' = BufferLatency st \<and>
    (changed \<longrightarrow> total_delay st' = min (MaxDelay st) (max (BufferLatency st + d) 0))"
proof -
  define st1 where "st1 = (if \<not> external_audio_buffer_delay_verified_after_reset st \<and> external_audio_buffer_delay st \<noteq> None \<and> delay st \<noteq> None
      then st\<lparr>external_audio_buffer_delay_verified_after_reset := True\<rparr> else st)"
  have fr: "blocks st1 = blocks st" "spectra st1 = spectra st" "ffts st1 = ffts st" "low_rate st1 = low_rate st" "sub_block_size st1 = sub_block_size st"
    "buffer_headroom st1 = buffer_headroom st" "rdb_config st1 = rdb_config st" "render_linear_amplitude_gain st1 = render_linear_amplitude_gain st"
    "delay st1 = delay st" "rdb_checked st1 = rdb_checked st"
    by (simp_all add: st1_def)
  have lat: "BufferLatency st1 = BufferLatency st" by (simp add: BufferLatency_def fr)
  show ?thesis
  proof (cases "delay st = Some d")
    case True
    then have "AlignFromDelay d st = Some (st1, False)"
      using assms(2) fr(9) by (simp add: AlignFromDelay_def RTC_DCHECK_def st1_def Let_def)
    moreover have "rdb_ok nb nc n m st1" by (rule rdb_ok_cong[OF assms(1)]) (simp_all add: fr)
    moreover have "same_data st st1" by (rule same_data_cong[OF same_data_refl]) (simp_all add: fr)
    ultimately show ?thesis using True fr(9) lat by (intro exI[of _ st1] exI[of _ False]) simp
  next
    case False
    define st2 where "st2 = st1\<lparr>delay := Some d\<rparr>"
    have ok2: "rdb_ok nb nc n m st2" by (rule rdb_ok_cong[OF assms(1)]) (simp_all add: fr st2_def)
    have same: "same_data st st2" by (rule same_data_cong[OF same_data_refl]) (simp_all add: fr st2_def)
    have lat2: "BufferLatency st2 = BufferLatency st" by (simp add: BufferLatency_def fr st2_def)
    have max2: "MaxDelay st2 = MaxDelay st" by (simp add: MaxDelay_def fr st2_def)
    define t where "t = min (MaxDelay st) (max (BufferLatency st + d) 0)"
    have t: "0 \<le> t" "t < int n" using MaxDelay_bounds[OF assms(1)] by (auto simp: t_def)
    have "ApplyTotalDelay t st2 = Some (set_delay t st2)" using ApplyTotalDelay_eq[OF ok2] t by simp
    moreover have "AlignFromDelay d st = do { s \<leftarrow> ApplyTotalDelay (min (MaxDelay st2) (max (MapDelayToTotalDelay st2 d) 0)) st2; Some (s, True) }"
      using assms(2) fr(9) False by (simp add: AlignFromDelay_def RTC_DCHECK_def st2_def st1_def Let_def)
    ultimately have "AlignFromDelay d st = Some (set_delay t st2, True)"
      by (simp add: MapDelayToTotalDelay_def lat2 max2 t_def)
    moreover have "delay (set_delay t st2) = Some d" by (simp add: set_delay_def st2_def)
    ultimately show ?thesis
      using set_delay_ok[OF ok2, of t] t same_data_trans[OF same] False lat2
      by (intro exI[of _ "set_delay t st2"] exI[of _ True]) (simp add: t_def)
  qed
qed

section \<open>Inserting keeps the history\<close>

definition fft_of :: "('m, 'f, 's) dsp \<Rightarrow> nat \<Rightarrow> rat block \<Rightarrow> rat block \<Rightarrow> 'f list" where
  "fft_of dsp nc new prev = map (\<lambda>ch. padded_fft dsp (View new 0 ch) (View prev 0 ch)) [0..<nc]"

text \<open>The Fourier transforms that belong to a history of blocks, of which \<open>z\<close> is the one before the oldest.\<close>

fun fft_history :: "('m, 'f, 's) dsp \<Rightarrow> nat \<Rightarrow> rat block \<Rightarrow> rat block list \<Rightarrow> 'f list list" where
  "fft_history dsp nc z [] = []"
| "fft_history dsp nc z (b # bs) = fft_of dsp nc b (hd (bs @ [z])) # fft_history dsp nc z bs"

lemma length_fft_history [simp]: "length (fft_history dsp nc z bs) = length bs"
  by (induction bs) simp_all

lemma fft_history_nth: "j < length bs \<Longrightarrow> fft_history dsp nc z bs ! j = fft_of dsp nc (bs ! j) ((bs @ [z]) ! Suc j)"
proof (induction bs arbitrary: j)
  case (Cons b bs)
  then show ?case by (cases j) (auto simp: hd_conv_nth nth_append hd_append)
qed simp

definition remembers_blocks :: "('m, 'f, 's) dsp \<Rightarrow> nat \<Rightarrow> nat \<Rightarrow> nat \<Rightarrow> rat block list \<Rightarrow> ('m, 'f, 's) render_delay_buffer \<Rightarrow> bool" where
  "remembers_blocks dsp nb nc n h st \<longleftrightarrow>
     remembers recent_up n (blocks st) (h @ replicate n (new_block nb nc 0)) \<and>
     remembers recent_down n (ffts st) (fft_history dsp nc (new_block nb nc 0) h) \<and>
     remembers recent_down n (spectra st) (map (map (spectrum_of dsp)) (fft_history dsp nc (new_block nb nc 0) h))"

lemma remembers_same_data:
  "remembers_blocks dsp nb nc n h st \<Longrightarrow> same_data st st' \<Longrightarrow> remembers_blocks dsp nb nc n h st'"
  by (simp add: remembers_blocks_def same_data_def remembers_def)

lemma new_block_wf [simp]: "wf_block nb nc (new_block nb nc x)"
  by (simp add: wf_block_def new_block_def)

text \<open>The rings after the write positions were moved.\<close>

definition moved :: "('m, 'f, 's) render_delay_buffer \<Rightarrow> ('m, 'f, 's) render_delay_buffer \<Rightarrow> bool" where
  "moved st st1 \<longleftrightarrow> blocks st1 = IncWriteIndex (blocks st) \<and> spectra st1 = DecWriteIndex (spectra st) \<and> ffts st1 = DecWriteIndex (ffts st) \<and>
     low_rate st1 = (low_rate st)\<lparr>wpos := (wpos (low_rate st) - sub_block_size st) mod ring_size (low_rate st)\<rparr> \<and>
     sub_block_size st1 = sub_block_size st \<and> buffer_headroom st1 = buffer_headroom st \<and> rdb_config st1 = rdb_config st \<and>
     render_linear_amplitude_gain st1 = render_linear_amplitude_gain st \<and> rdb_checked st1 = rdb_checked st"

lemma IncrementWriteIndices_ok:
  assumes "rdb_ok nb nc n m st" "\<not> rdb_checked st"
  shows "\<exists>st1. IncrementWriteIndices st = Some st1 \<and> moved st st1"
proof -
  note ok = rdb_okD[OF assms(1)]
  note l = ring_okD[OF ok(6)]
  have "size_OffsetIndex False (low_rate st) (wpos (low_rate st)) (- sub_block_size st) = Some ((wpos (low_rate st) - sub_block_size st) mod ring_size (low_rate st))"
    using size_OffsetIndex_mod[of "low_rate st" "wpos (low_rate st)" "- sub_block_size st" False] l ok(11,12) by simp
  then show ?thesis using assms(2) by (simp add: IncrementWriteIndices_def UpdateWriteIndex_def moved_def)
qed

text \<open>In a build with checks no block can be inserted.\<close>

lemma Insert_checked:
  assumes "rdb_ok nb nc n m st" "rdb_checked st" "int m + sub_block_size st < 2 ^ 64"
  shows "Insert dsp blk st = None"
proof -
  note ok = rdb_okD[OF assms(1)]
  note l = ring_okD[OF ok(6)]
  have "size_OffsetIndex True (low_rate st) (wpos (low_rate st)) (- sub_block_size st) = None"
    using ok(11) l(2) assms(3) by (intro size_OffsetIndex_negative) simp_all
  then show ?thesis
    using assms(2) by (simp add: Insert_def IncrementWriteIndices_def UpdateWriteIndex_def counted_frame Let_def)
qed

lemma InsertRenderBlock_ok:
  assumes ok: "rdb_ok nb nc n m st" and h: "remembers_blocks dsp nb nc n h st" and mv: "moved st st1" and blk: "wf_block nb nc blk"
    and dsp: "dsp_ok dsp (sub_block_size st)"
  shows "\<exists>st2. InsertRenderBlock dsp blk (wpos (blocks st)) st1 = Some st2 \<and> rdb_ok nb nc n m st2 \<and>
    remembers_blocks dsp nb nc n (scaled (render_linear_amplitude_gain st) blk # h) st2 \<and>
    rdb_config st2 = rdb_config st \<and> sub_block_size st2 = sub_block_size st \<and>
    render_linear_amplitude_gain st2 = render_linear_amplitude_gain st \<and> rdb_checked st2 = rdb_checked st"
proof -
  note okD = rdb_okD[OF ok]
  note b = ring_okD[OF okD(3)] and s = ring_okD[OF okD(4)] and f = ring_okD[OF okD(5)] and l = ring_okD[OF okD(6)]
  have n: "1 < n" using okD(16,17) by simp
  let ?new = "scaled (render_linear_amplitude_gain st) blk" and ?z = "new_block nb nc (0 :: rat)"
  have new: "wf_block nb nc ?new" using blk by simp
  define w where "w = wpos (IncWriteIndex (blocks st))"
  have w: "w = (wpos (blocks st) + 1) mod int n" "0 \<le> w" "w < int n"
    using b IncIndex_mod[of "wpos (blocks st)" "blocks st"] by (simp_all add: w_def IncWriteIndex_def)
  have buf: "buffer (blocks st1) = buffer (blocks st)" "wpos (blocks st1) = w" "length (buffer (blocks st)) = n"
    using mv b by (simp_all add: moved_def IncWriteIndex_def w_def)
  define old where "old = buffer (blocks st) ! nat w"
  have old: "at_index (buffer (blocks st1)) (wpos (blocks st1)) = Some old" "wf_block nb nc old"
    using w buf okD(19)[of old] by (simp_all add: at_index_def old_def)
  define B where "B = (blocks st1)\<lparr>buffer := (buffer (blocks st1))[nat w := ?new]\<rparr>"
  have storeB: "store ?new (blocks st1) = Some B" using w buf by (simp add: store_def B_def)
  then have pushB: "push_up ?new (blocks st) = Some B" using mv by (simp add: push_up_def moved_def)
  define prev where "prev = buffer (blocks st) ! nat (wpos (blocks st))"
  have "w \<noteq> wpos (blocks st)"
    using shift_neq(2)[of 1 "int n" "wpos (blocks st)"] n b w(1) by simp
  then have prev: "at_index (buffer B) (wpos (blocks st)) = Some prev"
    using b w buf by (simp add: at_index_def B_def prev_def eq_nat_nat_iff nth_list_update)
  have prev_h: "prev = hd (h @ [?z])"
  proof -
    have "prev = recent_up (blocks st) 0" using b by (simp add: prev_def recent_up_def)
    moreover have "(h @ replicate n ?z) ! 0 = hd (h @ [?z])" using n by (cases h; cases n) simp_all
    ultimately show ?thesis using h n by (simp add: remembers_blocks_def remembers_def)
  qed
  let ?F = "fft_of dsp nc ?new prev"
  obtain fs where fs: "push_down ?F (ffts st) = Some fs" using down.push[OF okD(5), of ?F] by blast
  obtain ss where ss: "push_down (map (spectrum_of dsp) ?F) (spectra st) = Some ss" using down.push[OF okD(4)] by blast
  obtain mixer ds where ds: "produce_low_rate dsp (render_mixer st1) ?new = (mixer, ds)" by fastforce
  have len: "int (length ds) = sub_block_size st" using dsp ds by (metis dsp_ok_def snd_conv)
  define lr where "lr = low_rate st1"
  have lr: "wpos lr = (wpos (low_rate st) - sub_block_size st) mod int m" "rpos lr = rpos (low_rate st)" "ring_size lr = int m" "length (buffer lr) = m"
    using mv l by (simp_all add: lr_def moved_def)
  have lw: "0 \<le> wpos lr" "wpos lr < int m" "sub_block_size st dvd wpos lr"
    using lr l okD(13,14) by (simp_all add: dvd_mod)
  have fits: "wpos lr + int (length ds) \<le> int m" using dvd_fits[OF lw(3) okD(13,11) lw(2)] len by simp
  define st2 where "st2 = st1\<lparr>blocks := B, render_mixer := mixer, ffts := fs, spectra := ss,
      low_rate := lr\<lparr>buffer := copy_to (rev ds) (nat (wpos lr)) (buffer lr)\<rparr>\<rparr>"
  have dims: "num_bands blk = num_bands old" "num_channels blk = num_channels old" "num_channels ?new = nc"
    using blk old(2) new by (simp_all add: wf_block_def)
  have gain: "(if render_linear_amplitude_gain st1 \<noteq> 1 then apply_gain (render_linear_amplitude_gain st1) blk else Some blk) = Some ?new"
    using apply_gain_ok[OF blk] mv by (auto simp: moved_def scaled_def)
  have "InsertRenderBlock dsp blk (wpos (blocks st)) st1 = Some st2"
    using fs ss mv fits lr(4) lw
    unfolding InsertRenderBlock_def old(1) bind.bind_lunit copy_block_ok[OF blk old(2)] gain storeB
    by (simp add: dims RTC_DCHECK_def ds prev Let_def fft_of_def push_down_def moved_def st2_def lr_def[symmetric])
  moreover have "rdb_ok nb nc n m st2"
  proof -
    have r: "ring_ok n B" "ring_ok n fs" "ring_ok n ss"
      using up.push[OF okD(3), of ?new] pushB down.push[OF okD(5), of ?F] fs down.push[OF okD(4), of "map (spectrum_of dsp) ?F"] ss by auto
    have p: "wpos B = w" "rpos B = rpos (blocks st)" "wpos fs = (wpos (ffts st) - 1) mod int n" "rpos fs = rpos (ffts st)"
      "wpos ss = (wpos (spectra st) - 1) mod int n" "rpos ss = rpos (spectra st)"
      using mv fs ss f s DecIndex_mod[of "wpos (ffts st)" "ffts st"] DecIndex_mod[of "wpos (spectra st)" "spectra st"]
      by (auto simp: B_def moved_def IncWriteIndex_def w_def push_down_def store_def DecWriteIndex_def split: if_splits)
    have "(w + (wpos (spectra st) - 1) mod int n) mod int n = ((wpos (blocks st) + 1) + (wpos (spectra st) - 1)) mod int n"
      unfolding w(1) by (rule mod_add_eq)
    then have "int n dvd w + (wpos (spectra st) - 1) mod int n" using okD(9) by (simp add: dvd_eq_mod_eq_0)
    moreover have "\<forall>x\<in>set (buffer B). wf_block nb nc x"
      using okD(19) new by (auto simp: B_def buf dest!: set_update_subset_insert[THEN subsetD])
    moreover have "int (nat (wpos lr) + length (rev ds)) \<le> int (length (buffer lr))" using fits lw(1) lr(4) by simp
    then have "length (copy_to (rev ds) (nat (wpos lr)) (buffer lr)) = m" using lr(4) by (simp only: of_nat_le_iff length_copy_to)
    then have "ring_ok m (low_rate st2)" using l lr lw by (simp add: ring_ok_def st2_def)
    moreover have "sub_block_size st2 = sub_block_size st" "buffer_headroom st2 = buffer_headroom st" "rdb_config st2 = rdb_config st"
      using mv by (simp_all add: moved_def st2_def)
    ultimately show ?thesis
      using r p ok lr(2) lw(3) unfolding rdb_ok_def by (simp add: st2_def)
  qed
  moreover have "remembers_blocks dsp nb nc n (?new # h) st2"
  proof -
    have "remembers recent_up n B (?new # (h @ replicate n ?z))"
      using up.push_remembers(2)[OF okD(3) _ pushB] h by (simp add: remembers_blocks_def)
    moreover have "remembers recent_down n fs (?F # fft_history dsp nc ?z h)"
      using down.push_remembers(2)[OF okD(5) _ fs] h by (simp add: remembers_blocks_def)
    moreover have "remembers recent_down n ss (map (spectrum_of dsp) ?F # map (map (spectrum_of dsp)) (fft_history dsp nc ?z h))"
      using down.push_remembers(2)[OF okD(4) _ ss] h by (simp add: remembers_blocks_def)
    ultimately show ?thesis using prev_h by (simp add: remembers_blocks_def st2_def)
  qed
  ultimately show ?thesis using mv by (simp add: moved_def st2_def)
qed

lemma Insert_ok:
  assumes ok: "rdb_ok nb nc n m st" "\<not> rdb_checked st" and h: "remembers_blocks dsp nb nc n h st" and blk: "wf_block nb nc blk"
    and dsp: "dsp_ok dsp (sub_block_size st)"
  shows "\<exists>st' ev. Insert dsp blk st = Some (st', ev) \<and> rdb_ok nb nc n m st' \<and>
    remembers_blocks dsp nb nc n (scaled (render_linear_amplitude_gain st) blk # h) st' \<and>
    rdb_config st' = rdb_config st \<and> sub_block_size st' = sub_block_size st \<and>
    render_linear_amplitude_gain st' = render_linear_amplitude_gain st \<and> rdb_checked st' = rdb_checked st"
proof -
  define st0 where "st0 = count_render_call st"
  have ok0: "rdb_ok nb nc n m st0" by (rule rdb_ok_cong[OF ok(1)]) (simp_all add: st0_def counted_frame)
  have same0: "same_data st st0" by (rule same_data_cong[OF same_data_refl]) (simp_all add: st0_def counted_frame)
  obtain st1 where st1: "IncrementWriteIndices st0 = Some st1" "moved st0 st1" using IncrementWriteIndices_ok[OF ok0] ok(2) same0 by (auto simp: same_data_def)
  define ev where "ev = (if RenderOverrun st1 then kRenderOverrun else kNone)"
  define st2 where "st2 = (if render_activity st1 then st1
      else (let k = render_activity_counter st1 + (if DetectActiveRender st1 (View blk 0 0) then 1 else 0)
            in st1\<lparr>render_activity_counter := k, render_activity := k \<ge> 20\<rparr>))"
  have mv2: "moved st0 st2" using st1(2) by (simp add: moved_def st2_def Let_def)
  have h0: "remembers_blocks dsp nb nc n h st0" using remembers_same_data[OF h same0] .
  obtain st3 where st3: "InsertRenderBlock dsp blk (wpos (blocks st0)) st2 = Some st3" "rdb_ok nb nc n m st3"
    "remembers_blocks dsp nb nc n (scaled (render_linear_amplitude_gain st) blk # h) st3"
    "rdb_config st3 = rdb_config st" "sub_block_size st3 = sub_block_size st" "render_linear_amplitude_gain st3 = render_linear_amplitude_gain st"
    "rdb_checked st3 = rdb_checked st"
    using InsertRenderBlock_ok[OF ok0 h0 mv2 blk] dsp same0 by (auto simp: same_data_def)
  have run: "Insert dsp blk st = do { s \<leftarrow> (if ev \<noteq> kNone then Reset st3 else Some st3); Some (s, ev) }"
    unfolding Insert_def Let_def st0_def[symmetric] st1(1) bind.bind_lunit ev_def[symmetric]
      st2_def[unfolded Let_def, symmetric] st3(1) ..
  show ?thesis
  proof (cases "ev = kNone")
    case True
    then show ?thesis using run st3 by simp
  next
    case False
    obtain st4 where st4: "Reset st3 = Some st4" "rdb_ok nb nc n m st4" "same_data st3 st4" using Reset_ok[OF st3(2)] by blast
    have "remembers_blocks dsp nb nc n (scaled (render_linear_amplitude_gain st) blk # h) st4"
      by (rule remembers_same_data[OF st3(3) st4(3)])
    then show ?thesis using run False st4 st3(4-7) by (simp add: same_data_def)
  qed
qed

section \<open>Runs\<close>

lemma new_ring_ok: "0 < n \<Longrightarrow> ring_ok n (new_ring n x)"
  by (simp add: ring_ok_def new_ring_def)

lemma new_ring_sel [simp]:
  "wpos (new_ring n x) = 0" "rpos (new_ring n x) = 0" "buffer (new_ring n x) = replicate n x" "ring_size (new_ring n x) = int n"
  by (simp_all add: new_ring_def)

text \<open>What a configuration must satisfy for the default delay to fit into the rings.\<close>

definition rings_size :: "aec3_config \<Rightarrow> nat" where
  "rings_size config = GetRenderDelayBufferSize (down_sampling_factor (cfg_delay config)) (num_filters (cfg_delay config))
     (r_length_blocks (refined (cfg_filter config)))"

lemma buffer_sizes:
  assumes "factor = 4 \<or> factor = 8"
  shows "GetRenderDelayBufferSize factor k l = 24 * k + l + 34"
    "GetDownSampledBufferSize factor k = (kBlockSize div factor) * (24 * k + 33)" "0 < kBlockSize div factor"
  using assms
  by (auto simp: GetRenderDelayBufferSize_def GetDownSampledBufferSize_def kBlockSize_def
      kMatchedFilterAlignmentShiftSizeSubBlocks_def kMatchedFilterWindowSizeSubBlocks_def)

lemma new_render_delay_buffer_ok:
  assumes valid: "valid_delay (cfg_delay config)" and fits: "default_delay (cfg_delay config) \<le> rings_size config"
    and nb: "0 < NumBandsForRate rate" and nc: "0 < nc"
  shows "\<exists>st. new_render_delay_buffer dsp config rate nc = Some st \<and>
    rdb_ok (NumBandsForRate rate) nc (rings_size config) (GetDownSampledBufferSize (down_sampling_factor (cfg_delay config)) (num_filters (cfg_delay config))) st \<and>
    remembers_blocks dsp (NumBandsForRate rate) nc (rings_size config) [] st \<and>
    rdb_config st = config \<and> sub_block_size st = int (kBlockSize div down_sampling_factor (cfg_delay config)) \<and>
    render_linear_amplitude_gain st = amplitude_gain dsp (render_power_gain_db (cfg_render_levels config)) \<and>
    rdb_checked st = rtc_dcheck_is_on dsp"
proof -
  let ?d = "cfg_delay config"
  let ?factor = "down_sampling_factor ?d" and ?nb = "NumBandsForRate rate" and ?n = "rings_size config"
  let ?m = "GetDownSampledBufferSize ?factor (num_filters ?d)" and ?sub = "kBlockSize div ?factor"
  let ?l = "r_length_blocks (refined (cfg_filter config))"
  have f: "?factor = 4 \<or> ?factor = 8" using valid by (simp add: valid_delay_def)
  have n: "?n = 24 * num_filters ?d + ?l + 34" using buffer_sizes(1)[OF f] by (simp add: rings_size_def)
  have m: "?m = ?sub * (24 * num_filters ?d + 33)" "0 < ?sub" using buffer_sizes(2,3)[OF f] by simp_all
  have lt: "?sub < ?m" "?sub dvd ?m" using m by simp_all
  define st where "st = \<lparr>rdb_config = config,
        render_linear_amplitude_gain = amplitude_gain dsp (render_power_gain_db (cfg_render_levels config)),
        sub_block_size = int ?sub,
        blocks = new_ring ?n (new_block ?nb nc 0),
        spectra = new_ring ?n (replicate nc (clear_spectrum dsp)),
        ffts = new_ring ?n (replicate nc (clear_fft dsp)),
        delay = Some (int (default_delay ?d)),
        low_rate = new_ring ?m 0,
        render_mixer = new_mixer dsp,
        buffer_headroom = int ?l,
        last_call_was_render = False, num_api_calls_in_a_row = 0, max_observed_jitter = 1,
        capture_call_counter = 0, render_call_counter = 0, render_activity = False, render_activity_counter = 0,
        external_audio_buffer_delay = None, external_audio_buffer_delay_verified_after_reset = False,
        min_latency_blocks = 0, excess_render_detection_counter = 0, remover_render_activity = False,
        rdb_checked = rtc_dcheck_is_on dsp\<rparr>"
  have new: "new_render_delay_buffer dsp config rate nc = Reset st"
    using f by (auto simp: new_render_delay_buffer_def st_def Let_def rings_size_def)
  have "0 < ?m" "0 < ?n" "int ?l + 34 \<le> int ?n" using lt n by simp_all
  then have ok: "rdb_ok ?nb nc ?n ?m st"
    using nb nc fits m(2) lt unfolding rdb_ok_def by (simp add: st_def new_ring_ok new_ring_sel)
  have "remembers recent_up ?n (blocks st) (replicate ?n (new_block ?nb nc 0))"
    using n by (simp add: remembers_def recent_up_def st_def new_ring_def nat_less_iff)
  then have h: "remembers_blocks dsp ?nb nc ?n [] st" by (simp add: remembers_blocks_def remembers_def)
  obtain st' where st': "Reset st = Some st'" "rdb_ok ?nb nc ?n ?m st'" "same_data st st'" using Reset_ok[OF ok] by blast
  then show ?thesis
    using new remembers_same_data[OF h st'(3)] by (simp add: same_data_def) (simp add: st_def)
qed

text \<open>
  The states that the calls of the block processor lead to, with the blocks that were inserted,
  the newest first.
\<close>

inductive rdb_run ::
    "('m, 'f, 's) dsp \<Rightarrow> aec3_config \<Rightarrow> nat \<Rightarrow> nat \<Rightarrow> rat block list \<Rightarrow> ('m, 'f, 's) render_delay_buffer \<Rightarrow> bool"
  for dsp config rate nc where
  run_start: "new_render_delay_buffer dsp config rate nc = Some st \<Longrightarrow> rdb_run dsp config rate nc [] st"
| run_insert: "rdb_run dsp config rate nc h st \<Longrightarrow> wf_block (NumBandsForRate rate) nc blk \<Longrightarrow> Insert dsp blk st = Some (st', ev) \<Longrightarrow>
    rdb_run dsp config rate nc (blk # h) st'"
| run_prepare: "rdb_run dsp config rate nc h st \<Longrightarrow> PrepareCaptureProcessing st = Some (st', ev) \<Longrightarrow> rdb_run dsp config rate nc h st'"
| run_skip: "rdb_run dsp config rate nc h st \<Longrightarrow> rdb_run dsp config rate nc h (HandleSkippedCaptureProcessing st)"
| run_align: "rdb_run dsp config rate nc h st \<Longrightarrow> AlignFromDelay d st = Some (st', changed) \<Longrightarrow> rdb_run dsp config rate nc h st'"
| run_external: "rdb_run dsp config rate nc h st \<Longrightarrow> rdb_run dsp config rate nc h (SetAudioBufferDelay ms st)"
| run_reset: "rdb_run dsp config rate nc h st \<Longrightarrow> Reset st = Some st' \<Longrightarrow> rdb_run dsp config rate nc h st'"

definition render_setup :: "('m, 'f, 's) dsp \<Rightarrow> aec3_config \<Rightarrow> nat \<Rightarrow> nat \<Rightarrow> bool" where
  "render_setup dsp config rate nc \<longleftrightarrow> valid_delay (cfg_delay config) \<and> default_delay (cfg_delay config) \<le> rings_size config \<and>
     \<not> use_external_delay_estimator (cfg_delay config) \<and> ValidFullBandRate rate \<and> 0 < nc \<and>
     dsp_ok dsp (int (kBlockSize div down_sampling_factor (cfg_delay config)))"

definition stored :: "('m, 'f, 's) dsp \<Rightarrow> aec3_config \<Rightarrow> rat block list \<Rightarrow> rat block list" where
  "stored dsp config h = map (scaled (amplitude_gain dsp (render_power_gain_db (cfg_render_levels config)))) h"

definition run_inv :: "('m, 'f, 's) dsp \<Rightarrow> aec3_config \<Rightarrow> nat \<Rightarrow> nat \<Rightarrow> rat block list \<Rightarrow> ('m, 'f, 's) render_delay_buffer \<Rightarrow> bool" where
  "run_inv dsp config rate nc h st \<longleftrightarrow>
     rdb_ok (NumBandsForRate rate) nc (rings_size config) (GetDownSampledBufferSize (down_sampling_factor (cfg_delay config)) (num_filters (cfg_delay config))) st \<and>
     remembers_blocks dsp (NumBandsForRate rate) nc (rings_size config) (stored dsp config h) st \<and>
     rdb_config st = config \<and> sub_block_size st = int (kBlockSize div down_sampling_factor (cfg_delay config)) \<and>
     render_linear_amplitude_gain st = amplitude_gain dsp (render_power_gain_db (cfg_render_levels config)) \<and>
     rdb_checked st = rtc_dcheck_is_on dsp \<and> (h \<noteq> [] \<longrightarrow> \<not> rtc_dcheck_is_on dsp)"

lemma bands_pos: "ValidFullBandRate rate \<Longrightarrow> 0 < NumBandsForRate rate"
  by (auto simp: ValidFullBandRate_def NumBandsForRate_def)

lemma run_inv_same_data:
  assumes "run_inv dsp config rate nc h st" "same_data st st'"
    "rdb_ok (NumBandsForRate rate) nc (rings_size config) (GetDownSampledBufferSize (down_sampling_factor (cfg_delay config)) (num_filters (cfg_delay config))) st'"
  shows "run_inv dsp config rate nc h st'"
  using assms remembers_same_data[OF _ assms(2)] by (simp add: run_inv_def same_data_def)

lemma external_frame:
  "blocks (SetAudioBufferDelay ms st) = blocks st" "spectra (SetAudioBufferDelay ms st) = spectra st" "ffts (SetAudioBufferDelay ms st) = ffts st"
  "low_rate (SetAudioBufferDelay ms st) = low_rate st" "sub_block_size (SetAudioBufferDelay ms st) = sub_block_size st"
  "buffer_headroom (SetAudioBufferDelay ms st) = buffer_headroom st" "rdb_config (SetAudioBufferDelay ms st) = rdb_config st"
  "render_linear_amplitude_gain (SetAudioBufferDelay ms st) = render_linear_amplitude_gain st" "rdb_checked (SetAudioBufferDelay ms st) = rdb_checked st"
  by (simp_all add: SetAudioBufferDelay_def Let_def)

lemma run_inv_rdb_ok:
  "run_inv dsp config rate nc h st \<Longrightarrow>
   rdb_ok (NumBandsForRate rate) nc (rings_size config) (GetDownSampledBufferSize (down_sampling_factor (cfg_delay config)) (num_filters (cfg_delay config))) st"
  by (simp add: run_inv_def)

lemma low_rate_small:
  assumes "render_setup dsp config rate nc"
  shows "int (GetDownSampledBufferSize (down_sampling_factor (cfg_delay config)) (num_filters (cfg_delay config))) +
    int (kBlockSize div down_sampling_factor (cfg_delay config)) < 2 ^ 64"
proof -
  let ?d = "cfg_delay config"
  have f: "down_sampling_factor ?d = 4 \<or> down_sampling_factor ?d = 8" and k: "num_filters ?d \<le> 5000"
    using assms by (simp_all add: render_setup_def valid_delay_def between_def)
  have s: "kBlockSize div down_sampling_factor ?d \<le> 16" using f by (auto simp: kBlockSize_def)
  have "GetDownSampledBufferSize (down_sampling_factor ?d) (num_filters ?d) \<le> 16 * (24 * 5000 + 33)"
    unfolding buffer_sizes(2)[OF f] using s k by (intro mult_le_mono) simp_all
  moreover have "a \<le> 16 * (24 * 5000 + 33) \<Longrightarrow> b \<le> 16 \<Longrightarrow> int a + int b < 2 ^ 64" for a b :: nat by simp
  ultimately show ?thesis using s by blast
qed

lemma run_inv_insert_checked:
  assumes "run_inv dsp config rate nc h st" "render_setup dsp config rate nc" "rtc_dcheck_is_on dsp"
  shows "Insert dsp blk st = None"
  using Insert_checked[OF run_inv_rdb_ok[OF assms(1)]] low_rate_small[OF assms(2)] assms(1,3) by (simp add: run_inv_def)

lemma run_inv_insert:
  assumes "run_inv dsp config rate nc h st" "render_setup dsp config rate nc" "wf_block (NumBandsForRate rate) nc blk" "\<not> rtc_dcheck_is_on dsp"
  shows "\<exists>st' ev. Insert dsp blk st = Some (st', ev) \<and> run_inv dsp config rate nc (blk # h) st'"
proof -
  note i = assms(1)[unfolded run_inv_def]
  have dsp: "dsp_ok dsp (sub_block_size st)" and off: "\<not> rdb_checked st" using i assms(2,4) by (simp_all add: render_setup_def)
  obtain st' ev where "Insert dsp blk st = Some (st', ev)"
    "rdb_ok (NumBandsForRate rate) nc (rings_size config) (GetDownSampledBufferSize (down_sampling_factor (cfg_delay config)) (num_filters (cfg_delay config))) st'"
    "remembers_blocks dsp (NumBandsForRate rate) nc (rings_size config) (scaled (render_linear_amplitude_gain st) blk # stored dsp config h) st'"
    "rdb_config st' = rdb_config st" "sub_block_size st' = sub_block_size st" "render_linear_amplitude_gain st' = render_linear_amplitude_gain st"
    "rdb_checked st' = rdb_checked st"
    using Insert_ok[OF i[THEN conjunct1] off i[THEN conjunct2, THEN conjunct1] assms(3) dsp] by (elim exE conjE) (rule that)
  then show ?thesis using i assms(4) by (simp add: run_inv_def stored_def)
qed

lemma run_inv_prepare:
  assumes "run_inv dsp config rate nc h st" "\<not> rtc_dcheck_is_on dsp \<or> PrepareCaptureProcessing st \<noteq> None"
  shows "\<exists>st' ev. PrepareCaptureProcessing st = Some (st', ev) \<and> run_inv dsp config rate nc h st'"
proof -
  obtain st' ev where "PrepareCaptureProcessing st = Some (st', ev)" "same_data st st'"
    "rdb_ok (NumBandsForRate rate) nc (rings_size config) (GetDownSampledBufferSize (down_sampling_factor (cfg_delay config)) (num_filters (cfg_delay config))) st'"
    using PrepareCaptureProcessing_ok[OF run_inv_rdb_ok[OF assms(1)]] assms by (auto simp: run_inv_def)
  then show ?thesis using run_inv_same_data[OF assms(1)] by simp
qed

lemma run_inv_align:
  assumes "run_inv dsp config rate nc h st" "render_setup dsp config rate nc"
  shows "\<exists>st' changed. AlignFromDelay d st = Some (st', changed) \<and> run_inv dsp config rate nc h st' \<and>
    changed = (delay st \<noteq> Some d) \<and> delay st' = Some d \<and> BufferLatency st' = BufferLatency st \<and>
    (changed \<longrightarrow> total_delay st' = min (MaxDelay st) (max (BufferLatency st + d) 0))"
proof -
  have ext: "\<not> use_external_delay_estimator (cfg_delay (rdb_config st))" using assms by (simp add: run_inv_def render_setup_def)
  obtain st' changed where "AlignFromDelay d st = Some (st', changed)"
    "rdb_ok (NumBandsForRate rate) nc (rings_size config) (GetDownSampledBufferSize (down_sampling_factor (cfg_delay config)) (num_filters (cfg_delay config))) st'"
    "same_data st st'" "changed = (delay st \<noteq> Some d)" "delay st' = Some d" "BufferLatency st' = BufferLatency st"
    "changed \<longrightarrow> total_delay st' = min (MaxDelay st) (max (BufferLatency st + d) 0)"
    using AlignFromDelay_ok[OF run_inv_rdb_ok[OF assms(1)] ext, of d] by (elim exE conjE) (rule that)
  then show ?thesis using run_inv_same_data[OF assms(1)] by blast
qed

lemma run_inv_reset:
  assumes "run_inv dsp config rate nc h st"
  shows "\<exists>st'. Reset st = Some st' \<and> run_inv dsp config rate nc h st' \<and> BufferLatency st' = 1 \<and>
    (\<forall>ext. external_audio_buffer_delay st = Some ext \<longrightarrow> delay st' = Some (ComputeDelay st') \<and>
       total_delay st' = min (if ext \<le> 2 then 1 else ext - 2) (MaxDelay st))"
proof -
  obtain st' where "Reset st = Some st'" "same_data st st'" "BufferLatency st' = 1"
    "rdb_ok (NumBandsForRate rate) nc (rings_size config) (GetDownSampledBufferSize (down_sampling_factor (cfg_delay config)) (num_filters (cfg_delay config))) st'"
    "\<forall>ext. external_audio_buffer_delay st = Some ext \<longrightarrow> delay st' = Some (ComputeDelay st') \<and>
       total_delay st' = min (if ext \<le> 2 then 1 else ext - 2) (MaxDelay st)"
    using Reset_ok[OF run_inv_rdb_ok[OF assms]] by (elim exE conjE) (rule that)
  then show ?thesis using run_inv_same_data[OF assms] by simp
qed

lemma run_inv_frame:
  assumes "run_inv dsp config rate nc h st" "blocks st' = blocks st" "spectra st' = spectra st" "ffts st' = ffts st" "low_rate st' = low_rate st"
    "sub_block_size st' = sub_block_size st" "buffer_headroom st' = buffer_headroom st" "rdb_config st' = rdb_config st"
    "render_linear_amplitude_gain st' = render_linear_amplitude_gain st" "rdb_checked st' = rdb_checked st"
  shows "run_inv dsp config rate nc h st'"
  by (rule run_inv_same_data[OF assms(1) same_data_cong[OF same_data_refl] rdb_ok_cong[OF run_inv_rdb_ok[OF assms(1)]]]) (simp_all add: assms)

lemma rdb_run_inv:
  assumes "rdb_run dsp config rate nc h st" "render_setup dsp config rate nc"
  shows "run_inv dsp config rate nc h st"
  using assms(1)
proof (induction rule: rdb_run.induct)
  case (run_start st)
  have "valid_delay (cfg_delay config)" "default_delay (cfg_delay config) \<le> rings_size config" "0 < NumBandsForRate rate" "0 < nc"
    using assms(2) bands_pos by (simp_all add: render_setup_def)
  from new_render_delay_buffer_ok[OF this, of dsp] show ?case
    using run_start by (simp add: run_inv_def stored_def)
next
  case (run_insert h st blk st' ev)
  then have "\<not> rtc_dcheck_is_on dsp" using run_inv_insert_checked[OF run_insert.IH assms(2), of blk] by auto
  then show ?case using run_insert run_inv_insert[OF run_insert.IH assms(2) run_insert.hyps(2)] by simp
next
  case (run_prepare h st st' ev)
  then show ?case using run_inv_prepare[OF run_prepare.IH] by simp
next
  case (run_skip h st)
  show ?case by (rule run_inv_frame[OF run_skip.IH]) (simp_all add: HandleSkippedCaptureProcessing_def)
next
  case (run_align h st d st' changed)
  then show ?case using run_inv_align[OF run_align.IH assms(2), of d] by simp
next
  case (run_external h st ms)
  show ?case by (rule run_inv_frame[OF run_external.IH]) (simp_all add: external_frame)
next
  case (run_reset h st st')
  then show ?case using run_inv_reset[OF run_reset.IH] by simp
qed

section \<open>The properties of the render delay buffer\<close>


definition demo_dsp :: "(unit, int, nat) dsp" where
  "demo_dsp = \<lparr>produce_low_rate = (\<lambda>m blk. (m, replicate 16 0)), padded_fft = (\<lambda>x prev. int (length x)), spectrum_of = nat,
     clear_fft = 0, clear_spectrum = 0, new_mixer = (), amplitude_gain = (\<lambda>_. 1), rtc_dcheck_is_on = False\<rparr>"

lemma demo_dsp_unchecked [simp]: "\<not> rtc_dcheck_is_on demo_dsp"
  by (simp add: demo_dsp_def)

definition demo_block :: "rat \<Rightarrow> rat block" where
  "demo_block x = new_block 1 1 x"

lemma demo_setup: "render_setup demo_dsp default_config 16000 1"
proof -
  have "valid_delay (cfg_delay default_config)" using default_config_valid by (simp add: valid_config_def)
  moreover have "down_sampling_factor (cfg_delay default_config) = 4" "default_delay (cfg_delay default_config) = 5"
    "\<not> use_external_delay_estimator (cfg_delay default_config)"
    by (simp_all add: default_config_def default_delay_cfg_def)
  ultimately show ?thesis
    by (simp add: render_setup_def rings_size_def buffer_sizes ValidFullBandRate_def dsp_ok_def demo_dsp_def kBlockSize_def)
qed

lemma demo_block_wf: "wf_block (NumBandsForRate 16000) 1 (demo_block x)"
  by (simp add: demo_block_def NumBandsForRate_def)

text \<open>Two blocks, a reported delay of 0 ms and a reset.\<close>

lemma demo_run:
  "\<exists>st. rdb_run demo_dsp default_config 16000 1 [demo_block 2, demo_block 1] st \<and> total_delay st = 1 \<and>
    BufferLatency st = 1 \<and> delay st = Some 0"
proof -
  have "valid_delay (cfg_delay default_config)" "default_delay (cfg_delay default_config) \<le> rings_size default_config"
    "0 < NumBandsForRate 16000" "0 < (1 :: nat)"
    using demo_setup bands_pos by (simp_all add: render_setup_def)
  from new_render_delay_buffer_ok[OF this, of demo_dsp] obtain st0 where
    "new_render_delay_buffer demo_dsp default_config 16000 1 = Some st0" by (elim exE conjE) (rule that)
  then have 0: "rdb_run demo_dsp default_config 16000 1 [] st0" by (rule run_start)
  obtain st1 ev1 where "Insert demo_dsp (demo_block 1) st0 = Some (st1, ev1)"
    using run_inv_insert[OF rdb_run_inv[OF 0 demo_setup] demo_setup demo_block_wf demo_dsp_unchecked, of 1] by blast
  then have 1: "rdb_run demo_dsp default_config 16000 1 [demo_block 1] st1" by (rule run_insert[OF 0 demo_block_wf])
  obtain st2 ev2 where "Insert demo_dsp (demo_block 2) st1 = Some (st2, ev2)"
    using run_inv_insert[OF rdb_run_inv[OF 1 demo_setup] demo_setup demo_block_wf demo_dsp_unchecked, of 2] by blast
  then have 2: "rdb_run demo_dsp default_config 16000 1 [demo_block 2, demo_block 1] st2" by (rule run_insert[OF 1 demo_block_wf])
  let ?st3 = "SetAudioBufferDelay 0 st2"
  have 3: "rdb_run demo_dsp default_config 16000 1 [demo_block 2, demo_block 1] ?st3" by (rule run_external[OF 2])
  note i3 = rdb_run_inv[OF 3 demo_setup]
  have "rdb_config st2 = default_config" using rdb_run_inv[OF 2 demo_setup] by (simp add: run_inv_def)
  then have ext: "external_audio_buffer_delay ?st3 = Some 0"
    by (simp add: SetAudioBufferDelay_def default_config_def default_delay_cfg_def kBlockSizeMs_def)
  obtain st4 where st4: "Reset ?st3 = Some st4" "run_inv demo_dsp default_config 16000 1 [demo_block 2, demo_block 1] st4" "BufferLatency st4 = 1"
    "\<forall>ext. external_audio_buffer_delay ?st3 = Some ext \<longrightarrow> delay st4 = Some (ComputeDelay st4) \<and> total_delay st4 = min (if ext \<le> 2 then 1 else ext - 2) (MaxDelay ?st3)"
    using run_inv_reset[OF i3] by (elim exE conjE) (rule that)
  have t: "total_delay st4 = 1" using st4(4) ext MaxDelay_bounds[OF run_inv_rdb_ok[OF i3]] by simp
  have "delay st4 = Some 0" using st4(3,4) ext t ComputeDelay_eq[OF run_inv_rdb_ok[OF st4(2)]] by simp
  then show ?thesis using run_reset[OF 3 st4(1)] st4(3) t by blast
qed


lemma GetBlock_recent:
  assumes "rdb_ok nb nc n m st" "total_delay st + int k < int n"
  shows "GetBlock st (- int k) = Some (recent_up (blocks st) (nat (total_delay st) + k))"
proof -
  note b = ring_okD[OF rdb_okD(3)[OF assms(1)]]
  define D where "D = total_delay st"
  have D: "D = (wpos (blocks st) - rpos (blocks st)) mod int n" "0 \<le> D" using b by (simp_all add: D_def total_delay_def)
  have k: "int k < int n" using assms(2) D(2) by (simp add: D_def)
  define i where "i = (rpos (blocks st) + - int k) mod int n"
  have "OffsetIndex (blocks st) (rpos (blocks st)) (- int k) = Some i"
    using OffsetIndex_mod(1)[of "blocks st" "- int k" "rpos (blocks st)"] b k by (simp add: i_def)
  moreover have "i = (wpos (blocks st) - int (nat D + k)) mod int n"
  proof -
    have "(wpos (blocks st) - (D + int k)) mod int n = ((wpos (blocks st) - D) mod int n - int k) mod int n"
      by (simp add: mod_diff_left_eq diff_diff_eq)
    also have "(wpos (blocks st) - D) mod int n = (wpos (blocks st) - (wpos (blocks st) - rpos (blocks st))) mod int n"
      unfolding D(1) by (rule mod_diff_right_eq)
    finally have "(wpos (blocks st) - (D + int k)) mod int n = (rpos (blocks st) mod int n - int k) mod int n" by simp
    also have "\<dots> = i" by (simp add: i_def mod_diff_left_eq)
    finally show ?thesis using D(2) by simp
  qed
  moreover have "0 \<le> i" "i < int n" using b by (simp_all add: i_def)
  ultimately show ?thesis
    using b by (simp add: GetBlock_def at_index_def recent_up_def D_def)
qed

lemma Spectrum_recent:
  assumes "rdb_ok nb nc n m st" "total_delay st + int k < int n"
  shows "Spectrum st (int k) = Some (recent_down (spectra st) (nat (total_delay st) + k))"
proof -
  note ok = rdb_okD[OF assms(1)]
  note b = ring_okD[OF ok(3)] and s = ring_okD[OF ok(4)]
  let ?bw = "wpos (blocks st)" and ?br = "rpos (blocks st)" and ?sw = "wpos (spectra st)" and ?sr = "rpos (spectra st)"
  define D where "D = total_delay st"
  have "int n dvd (?bw + ?sw) - (?br + ?sr)" using ok(9,10) by (rule dvd_diff)
  then have D: "D = (?sr - ?sw) mod int n" "0 \<le> D"
    using b by (simp_all add: D_def total_delay_def mod_eq_dvd_iff algebra_simps)
  have k: "int k < int n" using assms(2) D(2) by (simp add: D_def)
  define i where "i = (?sr + int k) mod int n"
  have "spectrum_OffsetIndex (spectra st) ?sr (int k) = Some i"
    using OffsetIndex_mod(2)[of "spectra st" "int k" ?sr] s k by (simp add: i_def)
  moreover have "i = (?sw + int (nat D + k)) mod int n"
  proof -
    have "(?sw + (D + int k)) mod int n = (D + (?sw + int k)) mod int n" by (simp add: algebra_simps)
    also have "\<dots> = ((?sr - ?sw) + (?sw + int k)) mod int n" unfolding D(1) by (rule mod_add_left_eq)
    also have "\<dots> = i" by (simp add: i_def)
    finally show ?thesis using D(2) by simp
  qed
  moreover have "0 \<le> i" "i < int n" using s by (simp_all add: i_def)
  ultimately show ?thesis
    using s by (simp add: Spectrum_def at_index_def recent_down_def D_def)
qed

text \<open>
  C15: The three rings are one history of the render signal. In every state that calls lead to,
  with the total delay \<open>D\<close> that the positions encode, the block \<open>k\<close> back from the read position is
  the one inserted \<open>D + k\<close> blocks before the newest, scaled with the gain, and the spectrum at the
  offset \<open>k\<close> is the one of that same block and its predecessor; the delay reported is \<open>D\<close>
  without the latency of the call order.
\<close>

theorem render_buffer_history:
  assumes "render_setup dsp config rate nc" "rdb_run dsp config rate nc h st" "total_delay st + int k < int (rings_size config)"
    "H = stored dsp config h @ replicate (rings_size config) (new_block (NumBandsForRate rate) nc 0)"
  shows "GetBlock st (- int k) = Some (H ! (nat (total_delay st) + k)) \<and>
    (nat (total_delay st) + k < length h \<longrightarrow> Spectrum st (int k) =
       Some (map (spectrum_of dsp) (fft_of dsp nc (H ! (nat (total_delay st) + k)) (H ! Suc (nat (total_delay st) + k))))) \<and>
    ComputeDelay st = total_delay st - BufferLatency st"
proof -
  have i: "run_inv dsp config rate nc h st" by (rule rdb_run_inv[OF assms(2,1)])
  note ok = run_inv_rdb_ok[OF i]
  let ?n = "rings_size config" and ?z = "new_block (NumBandsForRate rate) nc (0 :: rat)" and ?j = "nat (total_delay st) + k"
  have D: "0 \<le> total_delay st" using ring_okD[OF rdb_okD(3)[OF ok]] by (simp add: total_delay_def)
  have j: "?j < ?n" using assms(3) D by linarith
  have r: "remembers_blocks dsp (NumBandsForRate rate) nc ?n (stored dsp config h) st" using i by (simp add: run_inv_def)
  have "GetBlock st (- int k) = Some (H ! ?j)"
    using GetBlock_recent[OF ok assms(3)] r j by (simp add: remembers_blocks_def remembers_def assms(4))
  moreover have "Spectrum st (int k) = Some (map (spectrum_of dsp) (fft_of dsp nc (H ! ?j) (H ! Suc ?j)))" if "?j < length h"
  proof -
    have l: "?j < length (stored dsp config h)" using that by (simp add: stored_def)
    have e: "stored dsp config h ! ?j = H ! ?j" using l by (simp add: assms(4) nth_append)
    have e': "(stored dsp config h @ [?z]) ! Suc ?j = H ! Suc ?j"
      using l j by (cases "Suc ?j < length (stored dsp config h)") (simp_all add: assms(4) nth_append)
    have "recent_down (spectra st) ?j = map (spectrum_of dsp) (fft_history dsp nc ?z (stored dsp config h) ! ?j)"
      using r j l by (simp add: remembers_blocks_def remembers_def)
    then show ?thesis
      using Spectrum_recent[OF ok assms(3)] by (simp only: fft_history_nth[OF l] e e')
  qed
  ultimately show ?thesis using ComputeDelay_eq[OF ok] by blast
qed

theorem render_buffer_history_witness:
  "\<exists>st. rdb_run demo_dsp default_config 16000 1 [demo_block 2, demo_block 1] st \<and> GetBlock st 0 = Some (demo_block 1) \<and>
     Spectrum st 0 = Some [64]"
proof -
  obtain st where st: "rdb_run demo_dsp default_config 16000 1 [demo_block 2, demo_block 1] st" "total_delay st = 1"
    using demo_run by blast
  have n: "total_delay st + int 0 < int (rings_size default_config)"
    using st(2) by (simp add: rings_size_def buffer_sizes default_config_def default_delay_cfg_def)
  have s: "stored demo_dsp default_config [demo_block 2, demo_block 1] = [demo_block 2, demo_block 1]"
    by (simp add: stored_def demo_dsp_def scaled_def)
  note r = render_buffer_history[OF demo_setup st(1) n refl, unfolded s]
  have "GetBlock st 0 = Some (demo_block 1)" using r st(2) by simp
  moreover have "Spectrum st 0 = Some (map (spectrum_of demo_dsp) (fft_of demo_dsp 1 (demo_block 1)
      (([demo_block 2, demo_block 1] @ replicate (rings_size default_config) (new_block (NumBandsForRate 16000) 1 0)) ! 2)))"
    using r st(2) by (simp add: numeral_2_eq_2)
  moreover have "length (View (demo_block 1) 0 0) = 64"
    using length_View[OF demo_block_wf, of 0 0 1] by (simp add: NumBandsForRate_def kBlockSize_def)
  ultimately show ?thesis using st(1) by (intro exI[of _ st]) (simp add: fft_of_def demo_dsp_def)
qed

text \<open>
  Alignment does what it promises. After \<^verbatim>\<open>AlignFromDelay\<close> with a delay that fits, the buffer
  reports that delay; the result says whether it was the delay set before, and a repeated call
  changes nothing.
\<close>

lemma align_sets_delay:
  assumes "render_setup dsp config rate nc" "rdb_run dsp config rate nc h st" "delay st \<noteq> Some d"
    "0 \<le> BufferLatency st + d" "BufferLatency st + d \<le> MaxDelay st"
  shows "\<exists>st'. AlignFromDelay d st = Some (st', True) \<and> ComputeDelay st' = d \<and> total_delay st' = BufferLatency st + d \<and>
    (\<exists>st''. AlignFromDelay d st' = Some (st'', False) \<and> blocks st'' = blocks st' \<and> spectra st'' = spectra st' \<and> ffts st'' = ffts st')"
proof -
  have i: "run_inv dsp config rate nc h st" by (rule rdb_run_inv[OF assms(2,1)])
  obtain st' changed where st': "AlignFromDelay d st = Some (st', changed)" "run_inv dsp config rate nc h st'"
    "changed = (delay st \<noteq> Some d)" "delay st' = Some d" "BufferLatency st' = BufferLatency st"
    "changed \<longrightarrow> total_delay st' = min (MaxDelay st) (max (BufferLatency st + d) 0)"
    using run_inv_align[OF i assms(1), of d] by (elim exE conjE) (rule that)
  have t: "total_delay st' = BufferLatency st + d" using st'(3,6) assms(3-5) by simp
  then have "ComputeDelay st' = d" using ComputeDelay_eq[OF run_inv_rdb_ok[OF st'(2)]] st'(5) by simp
  moreover have "\<not> use_external_delay_estimator (cfg_delay (rdb_config st'))"
    using st'(2) assms(1) by (simp add: run_inv_def render_setup_def)
  then have "\<exists>st''. AlignFromDelay d st' = Some (st'', False) \<and> blocks st'' = blocks st' \<and> spectra st'' = spectra st' \<and> ffts st'' = ffts st'"
    using st'(4) by (simp add: AlignFromDelay_def RTC_DCHECK_def Let_def)
  ultimately show ?thesis using st'(1,3) assms(3) t by auto
qed

theorem align_sets_delay_witness:
  "\<exists>st st'. rdb_run demo_dsp default_config 16000 1 [demo_block 2, demo_block 1] st \<and>
     AlignFromDelay 20 st = Some (st', True) \<and> ComputeDelay st' = 20"
proof -
  obtain st where st: "rdb_run demo_dsp default_config 16000 1 [demo_block 2, demo_block 1] st" "BufferLatency st = 1" "delay st = Some 0"
    using demo_run by blast
  have "33 \<le> MaxDelay st" using MaxDelay_bounds[OF run_inv_rdb_ok[OF rdb_run_inv[OF st(1) demo_setup]]] by simp
  then show ?thesis using align_sets_delay[OF demo_setup st(1), of 20] st by auto
qed

definition long_delay_config :: aec3_config where
  "long_delay_config = default_config\<lparr>cfg_delay := (cfg_delay default_config)\<lparr>default_delay := 200\<rparr>\<rparr>"

text \<open>
  A configuration that passes the check can have a default delay beyond the rings: the
  creation of the buffer then fails the check of the offset in \<^verbatim>\<open>ApplyTotalDelay\<close>.
\<close>

lemma default_delay_outside_rings:
  "Validate long_delay_config = (True, long_delay_config) \<and> new_render_delay_buffer dsp long_delay_config 16000 1 = None"
proof
  have "valid_config long_delay_config"
    using default_config_valid by (simp add: long_delay_config_def valid_config_def valid_delay_def between_def)
  then show "Validate long_delay_config = (True, long_delay_config)"
    using Validate_limits[of long_delay_config] by (simp add: limits_def prod_eq_iff)
  have c: "down_sampling_factor (cfg_delay long_delay_config) = 4" "default_delay (cfg_delay long_delay_config) = 200"
    "num_filters (cfg_delay long_delay_config) = 5" "r_length_blocks (refined (cfg_filter long_delay_config)) = 13"
    by (simp_all add: long_delay_config_def default_config_def default_delay_cfg_def default_filter_cfg_def)
  show "new_render_delay_buffer dsp long_delay_config 16000 1 = None"
    by (simp add: new_render_delay_buffer_def c buffer_sizes Let_def kBlockSize_def Reset_def ApplyTotalDelay_def
      spectrum_OffsetIndex_def OffsetIndex_def)
qed
end
