(* ===== verification/Field_Trials.thy ===== *)
theory Field_Trials
  imports Aec_Config
begin

text \<open>
  Field trials, named strings that change the configuration: the view
  \<^verbatim>\<open>crates/fswtch-apm-sys/cpp/shims/api/field_trials_view.h\<close>, the parser
  \<^verbatim>\<open>shims/rtc_base/experiments/field_trial_parser.h\<close>, and \<^verbatim>\<open>RetrieveFieldTrialValue\<close> of
  \<^verbatim>\<open>echo_canceller3.cc\<close>. A view is the function \<^verbatim>\<open>Lookup\<close>. \<^verbatim>\<open>std::stod\<close> and \<^verbatim>\<open>std::stoi\<close> are
  modelled with decimal and hexadecimal numbers, infinities and NaN; an exception is the result
  \<^const>\<open>None\<close>, which is also what a result outside of the range of the type is.
\<close>

section \<open>The view\<close>

type_synonym field_trials = "string \<Rightarrow> string"

definition StartsWith :: "string \<Rightarrow> string \<Rightarrow> bool" where
  "StartsWith s prefix = (take (length prefix) s = prefix)"

definition IsEnabled :: "field_trials \<Rightarrow> string \<Rightarrow> bool" where
  "IsEnabled trials key = StartsWith (trials key) ''Enabled''"

definition IsDisabled :: "field_trials \<Rightarrow> string \<Rightarrow> bool" where
  "IsDisabled trials key = StartsWith (trials key) ''Disabled''"

text \<open>The view of the library itself, without any trial.\<close>

definition no_trials :: field_trials where "no_trials = (\<lambda>_. '''')"

section \<open>Numbers\<close>

definition white :: "char \<Rightarrow> bool" where
  "white c \<longleftrightarrow> (of_char c :: nat) = 32 \<or> 9 \<le> (of_char c :: nat) \<and> (of_char c :: nat) \<le> 13"

text \<open>The value of a digit; 36 and more is no digit of any base.\<close>

definition digit_value :: "char \<Rightarrow> nat" where
  "digit_value c = (let n = of_char c in
     if 48 \<le> n \<and> n \<le> 57 then n - 48 else if 97 \<le> n \<and> n \<le> 122 then n - 87 else if 65 \<le> n \<and> n \<le> 90 then n - 55 else 36)"

definition lower_char :: "char \<Rightarrow> char" where
  "lower_char c = (if 65 \<le> (of_char c :: nat) \<and> (of_char c :: nat) \<le> 90 then char_of ((of_char c :: nat) + 32) else c)"

definition digits :: "nat \<Rightarrow> string \<Rightarrow> string" where "digits b s = takeWhile (\<lambda>c. digit_value c < b) s"
definition after_digits :: "nat \<Rightarrow> string \<Rightarrow> string" where "after_digits b s = dropWhile (\<lambda>c. digit_value c < b) s"
definition number :: "nat \<Rightarrow> string \<Rightarrow> nat" where "number b ds = foldl (\<lambda>v c. v * b + digit_value c) 0 ds"

text \<open>The sign, and the rest of the string.\<close>

definition read_sign :: "string \<Rightarrow> bool \<times> string" where
  "read_sign s = (case s of c # cs \<Rightarrow> if c = CHR ''-'' then (True, cs) else if c = CHR ''+'' then (False, cs) else (False, s) | [] \<Rightarrow> (False, []))"

definition read_exponent :: "char \<Rightarrow> string \<Rightarrow> int" where
  "read_exponent marker s = (case s of c # cs \<Rightarrow>
       if lower_char c = marker
       then (let (neg, ds) = read_sign cs in if neg then - int (number 10 (digits 10 ds)) else int (number 10 (digits 10 ds)))
       else 0
     | [] \<Rightarrow> 0)"

definition times_power :: "rat \<Rightarrow> rat \<Rightarrow> int \<Rightarrow> rat" where
  "times_power x b e = (if 0 \<le> e then x * b ^ nat e else x / b ^ nat (- e))"

text \<open>Digits with a point and an exponent: nothing when there is no digit.\<close>

definition read_mantissa :: "nat \<Rightarrow> char \<Rightarrow> rat \<Rightarrow> string \<Rightarrow> rat option" where
  "read_mantissa b marker exponent_base s =
     (let i = digits b s; s = after_digits b s;
          (f, s) = (case s of c # cs \<Rightarrow> if c = CHR ''.'' then (digits b cs, after_digits b cs) else ([], s) | [] \<Rightarrow> ([], []))
      in if i @ f = [] then None
         else Some (times_power (of_nat (number b (i @ f)) / of_nat b ^ length f) exponent_base (read_exponent marker s)))"

definition to_double :: "rat \<Rightarrow> cfloat option" where
  "to_double x = (let r = f64 x in
     if 2 ^ 1024 \<le> \<bar>r\<bar> then None else if x \<noteq> 0 \<and> \<bar>x\<bar> < 1 / 2 ^ 1022 \<and> r \<noteq> x then None else Some (Finite r))"

definition stod :: "string \<Rightarrow> cfloat option" where
  "stod str =
     (let s = dropWhile white (takeWhile (\<lambda>c. c \<noteq> CHR 0x00) str); (neg, s) = read_sign s; start = map lower_char (take 3 s)
      in if start = ''inf'' then Some (if neg then NInf else PInf)
         else if start = ''nan'' then Some NaN
         else (let hex = (if take 2 start = ''0x'' then read_mantissa 16 (CHR ''p'') 2 (drop 2 s) else None);
                   v = (case hex of Some v \<Rightarrow> Some v | None \<Rightarrow> read_mantissa 10 (CHR ''e'') 10 s)
               in case v of None \<Rightarrow> None | Some v \<Rightarrow> to_double (if neg then - v else v)))"

text \<open>An integer with the base 0, as the parser calls for: whether it is negative, and its value.\<close>

definition scan_integer :: "string \<Rightarrow> (bool \<times> nat) option" where
  "scan_integer str =
     (let s = dropWhile white (takeWhile (\<lambda>c. c \<noteq> CHR 0x00) str); (neg, s) = read_sign s;
          (b, s) = (if map lower_char (take 2 s) = ''0x'' \<and> digits 16 (drop 2 s) \<noteq> [] then (16, drop 2 s)
                    else if take 1 s = ''0'' then (8, s) else (10, s))
      in if digits b s = [] then None else Some (neg, number b (digits b s)))"

definition stoi :: "string \<Rightarrow> int option" where
  "stoi str = (case scan_integer str of None \<Rightarrow> None
     | Some (neg, n) \<Rightarrow> (let v = (if neg then - int n else int n) in if - (2 ^ 31) \<le> v \<and> v < 2 ^ 31 then Some v else None))"

text \<open>A minus sign negates in the unsigned type.\<close>

definition stoul :: "string \<Rightarrow> nat option" where
  "stoul str = (case scan_integer str of None \<Rightarrow> None
     | Some (neg, n) \<Rightarrow> if n < 2 ^ 64 then Some (if neg then (2 ^ 64 - n) mod 2 ^ 64 else n) else None)"

definition ParseTypedParameter_double :: "string \<Rightarrow> cfloat option" where
  "ParseTypedParameter_double str = (if str = [] then None else stod str)"

definition ParseTypedParameter_int :: "string \<Rightarrow> int option" where
  "ParseTypedParameter_int str = (if str = [] then None else stoi str)"

definition ParseTypedParameter_unsigned :: "string \<Rightarrow> nat option" where
  "ParseTypedParameter_unsigned str = (if str = [] then None else map_option (\<lambda>v. v mod 2 ^ 32) (stoul str))"

definition ParseTypedParameter_bool :: "string \<Rightarrow> bool option" where
  "ParseTypedParameter_bool str =
     (if str = ''true'' \<or> str = ''1'' \<or> str = ''True'' then Some True
      else if str = ''false'' \<or> str = ''0'' \<or> str = ''False'' then Some False else None)"

section \<open>The parser\<close>

datatype field_value = DoubleField cfloat | IntField int

record field_parameter =
  fp_key :: string
  fp_value :: field_value

definition double_field :: "string \<Rightarrow> cfloat \<Rightarrow> field_parameter" where
  "double_field k v = \<lparr>fp_key = k, fp_value = DoubleField v\<rparr>"

definition int_field :: "string \<Rightarrow> int \<Rightarrow> field_parameter" where
  "int_field k v = \<lparr>fp_key = k, fp_value = IntField v\<rparr>"

definition Get_double :: "field_parameter \<Rightarrow> cfloat" where
  "Get_double p = (case fp_value p of DoubleField v \<Rightarrow> v | IntField _ \<Rightarrow> NaN)"

definition Get_int :: "field_parameter \<Rightarrow> int" where
  "Get_int p = (case fp_value p of IntField v \<Rightarrow> v | DoubleField _ \<Rightarrow> 0)"

definition FieldTrialParameter_Parse :: "string \<Rightarrow> field_parameter \<Rightarrow> field_parameter" where
  "FieldTrialParameter_Parse str p = (case fp_value p of
     DoubleField _ \<Rightarrow> (case ParseTypedParameter_double str of Some v \<Rightarrow> p\<lparr>fp_value := DoubleField v\<rparr> | None \<Rightarrow> p)
   | IntField _ \<Rightarrow> (case ParseTypedParameter_int str of Some v \<Rightarrow> p\<lparr>fp_value := IntField v\<rparr> | None \<Rightarrow> p))"

text \<open>The segments of the string, cut at each slash; after a slash at the end there is none.\<close>

fun segments :: "string \<Rightarrow> string \<Rightarrow> string list" where
  "segments seg [] = (if seg = [] then [] else [seg])"
| "segments seg (c # cs) = (if c = CHR ''/'' then seg # segments [] cs else segments (seg @ [c]) cs)"

definition segment_key :: "string \<Rightarrow> string" where "segment_key seg = takeWhile (\<lambda>c. c \<noteq> CHR '':'') seg"
definition segment_value :: "string \<Rightarrow> string" where "segment_value seg = drop 1 (dropWhile (\<lambda>c. c \<noteq> CHR '':'') seg)"

definition parse_segment :: "string \<Rightarrow> field_parameter list \<Rightarrow> field_parameter list" where
  "parse_segment seg params = map (\<lambda>p. if fp_key p = segment_key seg then FieldTrialParameter_Parse (segment_value seg) p else p) params"

definition ParseFieldTrial :: "field_parameter list \<Rightarrow> string \<Rightarrow> field_parameter list" where
  "ParseFieldTrial params trial_string = fold parse_segment (segments [] trial_string) params"

section \<open>\<^verbatim>\<open>RetrieveFieldTrialValue\<close>\<close>

text \<open>The conversion of a \<^verbatim>\<open>double\<close> to \<^verbatim>\<open>float\<close>.\<close>

definition to_float :: "cfloat \<Rightarrow> cfloat" where
  "to_float v = (case v of Finite d \<Rightarrow> (let r = f32 d in if 2 ^ 128 \<le> r then PInf else if r \<le> - (2 ^ 128) then NInf else Finite r)
     | _ \<Rightarrow> v)"

definition ParseTypedParameter_float :: "string \<Rightarrow> cfloat option" where
  "ParseTypedParameter_float str = map_option to_float (ParseTypedParameter_double str)"

definition RetrieveFieldTrialValue_float :: "field_trials \<Rightarrow> string \<Rightarrow> rat \<Rightarrow> rat \<Rightarrow> cfloat \<Rightarrow> cfloat" where
  "RetrieveFieldTrialValue_float trials name lo hi value_to_update =
     (let params = ParseFieldTrial [double_field '''' value_to_update] (trials name);
          field_trial_value = to_float (Get_double (params ! 0))
      in if in_range lo hi field_trial_value \<and> field_trial_value \<noteq> value_to_update then field_trial_value else value_to_update)"

text \<open>The integer goes through a \<^verbatim>\<open>float\<close> here.\<close>

definition RetrieveFieldTrialValue_int :: "field_trials \<Rightarrow> string \<Rightarrow> int \<Rightarrow> int \<Rightarrow> int \<Rightarrow> int" where
  "RetrieveFieldTrialValue_int trials name lo hi value_to_update =
     (let params = ParseFieldTrial [int_field '''' value_to_update] (trials name);
          field_trial_value = f32 (of_int (Get_int (params ! 0)))
      in if of_int lo \<le> field_trial_value \<and> field_trial_value \<le> of_int hi \<and> field_trial_value \<noteq> f32 (of_int value_to_update)
         then trunc field_trial_value else value_to_update)"

section \<open>What the parser does\<close>

lemma segments_empty [simp]: "ParseFieldTrial params [] = params"
  by (simp add: ParseFieldTrial_def)

lemma length_ParseFieldTrial [simp]: "length (ParseFieldTrial params s) = length params"
proof -
  have "length (fold parse_segment segs params) = length params" for segs
    by (induction segs arbitrary: params) (simp_all add: parse_segment_def)
  then show ?thesis by (simp add: ParseFieldTrial_def)
qed

lemma segments_chars: "seg \<in> set (segments acc s) \<Longrightarrow> set seg \<subseteq> set acc \<union> set s"
  by (induction acc s rule: segments.induct) (auto split: if_splits)

lemma segments_plain: "CHR ''/'' \<notin> set s \<Longrightarrow> segments acc (s @ CHR ''/'' # t) = (acc @ s) # segments [] t"
  by (induction s arbitrary: acc) auto

lemma parse_segment_no_colon: "CHR '':'' \<notin> set seg \<Longrightarrow> parse_segment seg params = params"
proof -
  assume "CHR '':'' \<notin> set seg"
  then have "dropWhile (\<lambda>c. c \<noteq> CHR '':'') seg = []" unfolding dropWhile_eq_Nil_conv by metis
  then have "segment_value seg = []" by (simp only: segment_value_def drop_Nil)
  then have "FieldTrialParameter_Parse (segment_value seg) p = p" for p
    by (simp add: FieldTrialParameter_Parse_def ParseTypedParameter_double_def ParseTypedParameter_int_def split: field_value.split)
  then show ?thesis by (simp add: parse_segment_def map_idI)
qed

lemma no_colon: "CHR '':'' \<notin> set s \<Longrightarrow> ParseFieldTrial params s = params"
proof -
  assume s: "CHR '':'' \<notin> set s"
  have "fold parse_segment segs params = params" if "\<forall>seg\<in>set segs. CHR '':'' \<notin> set seg" for segs
    using that by (induction segs) (simp_all add: parse_segment_no_colon)
  then show ?thesis using s segments_chars[of _ "[]" s] unfolding ParseFieldTrial_def by fastforce
qed

text \<open>A trial string that lists keys with their values.\<close>

definition render_trial :: "(string \<times> string) list \<Rightarrow> string" where
  "render_trial kvs = concat (map (\<lambda>(k, v). k @ '':'' @ v @ ''/'') kvs)"

definition plain_pair :: "string \<times> string \<Rightarrow> bool" where
  "plain_pair = (\<lambda>(k, v). CHR ''/'' \<notin> set k \<and> CHR '':'' \<notin> set k \<and> CHR ''/'' \<notin> set v)"

definition set_field :: "string \<times> string \<Rightarrow> field_parameter list \<Rightarrow> field_parameter list" where
  "set_field = (\<lambda>(k, v). map (\<lambda>p. if fp_key p = k then FieldTrialParameter_Parse v p else p))"

lemma split_pair: "CHR '':'' \<notin> set k \<Longrightarrow> segment_key (k @ CHR '':'' # v) = k \<and> segment_value (k @ CHR '':'' # v) = v"
  by (auto simp: segment_key_def segment_value_def takeWhile_append dropWhile_append)

lemma parse_pair: "CHR '':'' \<notin> set k \<Longrightarrow> parse_segment (k @ CHR '':'' # v) = set_field (k, v)"
  by (rule ext) (simp add: parse_segment_def set_field_def split_pair)

lemma segments_render: "list_all plain_pair kvs \<Longrightarrow> segments [] (render_trial kvs) = map (\<lambda>(k, v). k @ CHR '':'' # v) kvs"
proof (induction kvs)
  case (Cons kv kvs)
  obtain k v where kv: "kv = (k, v)" by fastforce
  have "CHR ''/'' \<notin> set (k @ CHR '':'' # v)" using Cons.prems by (simp add: kv plain_pair_def)
  from segments_plain[OF this, of "[]" "render_trial kvs"] show ?case
    using Cons by (simp add: kv render_trial_def)
qed (simp add: render_trial_def)

lemma ParseFieldTrial_render: "list_all plain_pair kvs \<Longrightarrow> ParseFieldTrial params (render_trial kvs) = fold set_field kvs params"
proof -
  assume k: "list_all plain_pair kvs"
  then have "fold parse_segment (map (\<lambda>(k, v). k @ CHR '':'' # v) kvs) params = fold set_field kvs params"
    by (induction kvs arbitrary: params) (auto simp: plain_pair_def parse_pair)
  then show ?thesis by (simp add: ParseFieldTrial_def segments_render[OF k])
qed

text \<open>The decimal text of a number.\<close>

definition digit_char :: "nat \<Rightarrow> char" where "digit_char d = char_of (48 + d)"

fun decimal :: "nat \<Rightarrow> string" where
  "decimal n = (if n < 10 then [digit_char n] else decimal (n div 10) @ [digit_char (n mod 10)])"

declare decimal.simps [simp del]

lemma less_10_cases: "(d::nat) < 10 \<Longrightarrow> d \<in> {0, 1, 2, 3, 4, 5, 6, 7, 8, 9}"
  by auto

lemma digit_value_digit_char [simp]: "d < 10 \<Longrightarrow> digit_value (digit_char d) = d"
  by (drule less_10_cases) (auto simp: digit_char_def digit_value_def)

lemma code_digit_char [simp]: "d < 10 \<Longrightarrow> (of_char (digit_char d) :: nat) = 48 + d"
  by (simp add: digit_char_def)

lemma digit_char_neq [simp]:
  assumes "d < 10" and "(of_char c :: nat) < 48 \<or> 57 < (of_char c :: nat)"
  shows "digit_char d \<noteq> c"
proof
  assume "digit_char d = c"
  with code_digit_char[OF assms(1)] have "(of_char c :: nat) = 48 + d" by simp
  with assms show False by simp
qed

lemma lower_digit_char [simp]: "d < 10 \<Longrightarrow> lower_char (digit_char d) = digit_char d"
  by (simp add: lower_char_def)

lemma white_digit_char [simp]: "d < 10 \<Longrightarrow> \<not> white (digit_char d)"
  by (simp add: white_def)

lemma digit_char_zero: "d < 10 \<Longrightarrow> digit_char d = CHR ''0'' \<longleftrightarrow> d = 0"
proof
  assume "d < 10" "digit_char d = CHR ''0''"
  then have "(of_char (CHR ''0'') :: nat) = 48 + d" using code_digit_char by metis
  then show "d = 0" by simp
next
  have "char_of (of_char (CHR ''0'') :: nat) = CHR ''0''" by (rule char_of_char)
  then show "digit_char d = CHR ''0''" if "d = 0" using that by (simp add: digit_char_def)
qed

lemma set_decimal: "c \<in> set (decimal n) \<Longrightarrow> \<exists>d<10. c = digit_char d"
proof (induction n rule: decimal.induct)
  case (1 n)
  show ?case using "1.prems" "1.IH" by (subst (asm) decimal.simps) (auto split: if_splits intro: exI[of _ n] exI[of _ "n mod 10"])
qed

lemma number_snoc: "number b (ds @ [c]) = number b ds * b + digit_value c"
  by (simp add: number_def)

lemma number_decimal [simp]: "number 10 (decimal n) = n"
proof (induction n rule: decimal.induct)
  case (1 n)
  show ?case using "1.IH" by (subst decimal.simps) (simp add: number_snoc, simp add: number_def)
qed

lemma decimal_Cons: "\<exists>d ds. decimal n = digit_char d # ds \<and> d < 10 \<and> (n = 0 \<longrightarrow> ds = []) \<and> (0 < n \<longrightarrow> 0 < d)"
proof (induction n rule: decimal.induct)
  case (1 n)
  show ?case
  proof (cases "n < 10")
    case True then show ?thesis by (subst decimal.simps) (simp add: exI[of _ n])
  next
    case False
    from "1.IH"[OF False] False show ?thesis by (subst decimal.simps) auto
  qed
qed

lemma stoi_decimal:
  assumes "n < 2 ^ 31"
  shows "stoi (decimal n) = Some (int n)"
proof -
  obtain d ds where d: "decimal n = digit_char d # ds" "d < 10" "n = 0 \<longrightarrow> ds = []" "0 < n \<longrightarrow> 0 < d"
    using decimal_Cons[of n] by blast
  have "\<forall>c\<in>set (decimal n). c \<noteq> CHR 0x00" by (auto dest!: set_decimal)
  then have t: "takeWhile (\<lambda>c. c \<noteq> CHR 0x00) (decimal n) = decimal n" by (simp add: takeWhile_eq_all_conv)
  have w: "dropWhile white (decimal n) = decimal n" using d by simp
  have s: "read_sign (decimal n) = (False, decimal n)" using d by (simp add: read_sign_def)
  have all: "\<forall>c\<in>set (decimal n). digit_value c < 10" by (auto dest!: set_decimal)
  then have ten: "digits 10 (decimal n) = decimal n" by (simp add: digits_def takeWhile_eq_all_conv)
  have v: "- (2 ^ 31) \<le> int n \<and> int n < 2 ^ 31" using assms by (simp add: zless_nat_eq_int_zless)
  have "scan_integer (decimal n) = Some (False, n)"
  proof (cases "n = 0")
    case True
    have "decimal n = ''0''" using d True by (simp add: digit_char_zero) (simp add: True decimal.simps digit_char_def)
    then show ?thesis using True by (simp add: scan_integer_def white_def read_sign_def digits_def number_def digit_value_def lower_char_def)
  next
    case False
    have h: "take 1 (decimal n) \<noteq> ''0''" "map lower_char (take 2 (decimal n)) \<noteq> ''0x''"
      using d False by (auto simp: digit_char_zero)
    have ne: "decimal n \<noteq> []" using d by simp
    show ?thesis unfolding scan_integer_def t w Let_def s prod.case using h ne by (simp add: ten)
  qed
  then show ?thesis using v by (simp add: stoi_def)
qed

lemma fold_set_field: "fold set_field kvs params = map (\<lambda>p. fold (\<lambda>(k, v) p. if fp_key p = k then FieldTrialParameter_Parse v p else p) kvs p) params"
  by (induction kvs arbitrary: params) (auto simp: set_field_def)

lemma key_Parse [simp]: "fp_key (FieldTrialParameter_Parse v p) = fp_key p"
  by (simp add: FieldTrialParameter_Parse_def split: field_value.split option.split)

lemma decimal_Parse: "n < 2 ^ 31 \<Longrightarrow> FieldTrialParameter_Parse (decimal n) (int_field k i) = int_field k (int n)"
proof -
  assume n: "n < 2 ^ 31"
  have "decimal n \<noteq> []" using decimal_Cons[of n] by auto
  then have "ParseTypedParameter_int (decimal n) = Some (int n)" using n by (simp only: ParseTypedParameter_int_def stoi_decimal if_False)
  then show ?thesis by (simp add: FieldTrialParameter_Parse_def int_field_def)
qed

lemma fold_other: "\<forall>(k', v)\<in>set kvs. k' \<noteq> fp_key p \<Longrightarrow>
    fold (\<lambda>(k, v) p. if fp_key p = k then FieldTrialParameter_Parse v p else p) kvs p = p"
  by (induction kvs) (auto)

lemma key_int_field [simp]: "fp_key (int_field k i) = k"
  by (simp add: int_field_def)

lemma fold_decimal:
  assumes "distinct (map fst kvs)" "(k, n) \<in> set kvs" "\<forall>(k, n)\<in>set kvs. n < 2 ^ 31"
  shows "fold (\<lambda>(k, v) p. if fp_key p = k then FieldTrialParameter_Parse v p else p) (map (\<lambda>(k, n). (k, decimal n)) kvs) (int_field k i)
    = int_field k (int n)"
  using assms
proof (induction kvs arbitrary: i)
  case (Cons kn kvs)
  obtain k' n' where kn: "kn = (k', n')" by fastforce
  show ?case
  proof (cases "k' = k")
    case True
    have k: "k \<notin> fst ` set kvs" using Cons.prems(1) kn True by simp
    then have n: "n' = n" using Cons.prems(2) kn True by (force simp: rev_image_eqI)
    have "n < 2 ^ 31" using Cons.prems(2,3) by blast
    moreover have "fold (\<lambda>(k, v) p. if fp_key p = k then FieldTrialParameter_Parse v p else p)
        (map (\<lambda>(k, n). (k, decimal n)) kvs) (int_field k (int n)) = int_field k (int n)"
      using k by (intro fold_other) force
    ultimately show ?thesis by (simp only: refl list.map kn prod.case fold_Cons o_apply n True key_int_field if_True decimal_Parse)
  next
    case False
    have "distinct (map fst kvs)" "(k, n) \<in> set kvs" "\<forall>(k, n)\<in>set kvs. n < 2 ^ 31" using Cons.prems False kn by auto
    from Cons.IH[OF this] False[symmetric] show ?thesis by (simp only: list.map kn prod.case fold_Cons o_apply key_int_field if_False)
  qed
qed simp

lemma plain_decimal: "list_all plain_pair (map (\<lambda>(k, n). (k, decimal n)) kvs) \<longleftrightarrow> (\<forall>(k, n)\<in>set kvs. CHR ''/'' \<notin> set k \<and> CHR '':'' \<notin> set k)"
proof -
  have "CHR ''/'' \<notin> set (decimal n)" for n 
  proof
    assume "CHR ''/'' \<in> set (decimal n)"
    then obtain d where "d < 10" "digit_char d = CHR ''/''" using set_decimal by metis
    then show False using digit_char_neq[of d "CHR ''/''"] by simp
  qed

  then show ?thesis by (auto simp: list_all_iff plain_pair_def)
qed

text \<open>
  C22: What is written into a trial string as keys with decimal numbers is what the parameters
  of these keys have after the string is parsed, whatever they had before.
\<close>
theorem field_trial_roundtrip:
  assumes "distinct (map fst kvs)" "\<forall>(k, n)\<in>set kvs. n < 2 ^ 31 \<and> CHR ''/'' \<notin> set k \<and> CHR '':'' \<notin> set k"
  shows "ParseFieldTrial (map (\<lambda>(k, n). int_field k (start k)) kvs) (render_trial (map (\<lambda>(k, n). (k, decimal n)) kvs)) =
    map (\<lambda>(k, n). int_field k (int n)) kvs"
proof -
  have "list_all plain_pair (map (\<lambda>(k, n). (k, decimal n)) kvs)" using assms(2) by (auto simp: plain_decimal)
  moreover have "\<forall>(k, n)\<in>set kvs. n < 2 ^ 31" using assms(2) by auto
  ultimately show ?thesis using fold_decimal[OF assms(1)]
    by (auto simp: ParseFieldTrial_render fold_set_field)
qed

theorem field_trial_roundtrip_witness:
  "ParseFieldTrial [int_field ''a'' 5, int_field ''b'' 6] (''a:'' @ decimal 17 @ ''/b:'' @ decimal 0 @ ''/'') = [int_field ''a'' 17, int_field ''b'' 0]"
  using field_trial_roundtrip[of "[(''a'', 17), (''b'', 0)]" "\<lambda>k. if k = ''a'' then 5 else 6"] by (simp add: render_trial_def)

end
