(* ===== verification/Swap_Queue.thy ===== *)
theory Swap_Queue
  imports Prelude "HOL-Library.Monad_Syntax" "HOL-Library.Sublist"
begin

text \<open>
  The queue between the thread that analyses the render signal and the thread that processes the
  capture signal, \<^verbatim>\<open>SwapQueue\<close> in \<^verbatim>\<open>crates/fswtch-apm-sys/cpp/shims/rtc_base/swap_queue.h\<close>: a ring of
  slots whose items are swapped in and out. First the operations as they run alone, with the
  contract of a bounded queue; then both threads step by step, in any order of their accesses to
  the memory. The interleaving is sequentially consistent; that the code loads the count with
  \<^verbatim>\<open>memory_order_relaxed\<close> is not part of the model.
\<close>

section \<open>The operations\<close>

record 'x swap_queue =
  sq_verifier :: "'x \<Rightarrow> bool"
  sq_slots :: "'x list"
  next_read_index :: nat
  next_write_index :: nat
  num_elements :: nat

definition new_swap_queue :: "nat \<Rightarrow> 'x \<Rightarrow> ('x \<Rightarrow> bool) \<Rightarrow> 'x swap_queue option" where
  "new_swap_queue capacity prototype check =
     (if 0 < capacity
      then Some \<lparr>sq_verifier = check, sq_slots = replicate capacity prototype, next_read_index = 0,
                 next_write_index = 0, num_elements = 0\<rparr>
      else None)"

text \<open>The new queue, what the argument points to afterwards, and the result.\<close>

definition SwapQueue_Insert :: "'x swap_queue \<Rightarrow> 'x \<Rightarrow> ('x swap_queue \<times> 'x \<times> bool) option" where
  "SwapQueue_Insert q input =
     (if \<not> sq_verifier q input then None
      else if num_elements q \<ge> length (sq_slots q) then Some (q, input, False)
      else (let i = next_write_index q; swapped = sq_slots q ! i;
                q = q\<lparr>sq_slots := (sq_slots q)[i := input]\<rparr>;
                q = q\<lparr>next_write_index := (next_write_index q + 1) mod length (sq_slots q)\<rparr>;
                q = q\<lparr>num_elements := num_elements q + 1\<rparr>
            in Some (q, swapped, True)))"

definition SwapQueue_Remove :: "'x swap_queue \<Rightarrow> 'x \<Rightarrow> ('x swap_queue \<times> 'x \<times> bool) option" where
  "SwapQueue_Remove q output =
     (if \<not> sq_verifier q output then None
      else if num_elements q = 0 then Some (q, output, False)
      else (let i = next_read_index q; swapped = sq_slots q ! i;
                q = q\<lparr>sq_slots := (sq_slots q)[i := output]\<rparr>;
                q = q\<lparr>next_read_index := (next_read_index q + 1) mod length (sq_slots q)\<rparr>;
                q = q\<lparr>num_elements := num_elements q - 1\<rparr>
            in Some (q, swapped, True)))"

definition SwapQueue_Clear :: "'x swap_queue \<Rightarrow> 'x swap_queue" where
  "SwapQueue_Clear q = q\<lparr>next_read_index := 0, next_write_index := 0, num_elements := 0\<rparr>"

definition SwapQueue_Size :: "'x swap_queue \<Rightarrow> nat" where
  "SwapQueue_Size q = num_elements q"

section \<open>The contract of a bounded queue\<close>

text \<open>
  What the writer and the reader of the queue rely on. Items fit when they pass the check of the
  queue; both operations give an item that fits back, so that it can be used for the next call.
\<close>

locale bounded_fifo =
  fixes insert_item :: "'q \<Rightarrow> 'x \<Rightarrow> ('q \<times> 'x \<times> bool) option"
    and remove_item :: "'q \<Rightarrow> 'x \<Rightarrow> ('q \<times> 'x \<times> bool) option"
    and items :: "'q \<Rightarrow> 'x list"
    and ok :: "'q \<Rightarrow> bool"
    and fits :: "'x \<Rightarrow> bool"
    and cap :: nat
  assumes bounded: "ok q \<Longrightarrow> length (items q) \<le> cap"
    and all_fit: "ok q \<Longrightarrow> list_all fits (items q)"
    and insert_room: "ok q \<Longrightarrow> fits x \<Longrightarrow> length (items q) < cap \<Longrightarrow>
      \<exists>q' y. insert_item q x = Some (q', y, True) \<and> ok q' \<and> fits y \<and> items q' = items q @ [x]"
    and insert_full: "ok q \<Longrightarrow> fits x \<Longrightarrow> length (items q) = cap \<Longrightarrow> insert_item q x = Some (q, x, False)"
    and remove_first: "ok q \<Longrightarrow> fits x \<Longrightarrow> items q = y # ys \<Longrightarrow>
      \<exists>q'. remove_item q x = Some (q', y, True) \<and> ok q' \<and> items q' = ys"
    and remove_none: "ok q \<Longrightarrow> fits x \<Longrightarrow> items q = [] \<Longrightarrow> remove_item q x = Some (q, x, False)"
begin

text \<open>Inserting a batch keeps the first items that find room, in order.\<close>

fun insert_all :: "'q \<Rightarrow> 'x list \<Rightarrow> 'q option" where
  "insert_all q [] = Some q"
| "insert_all q (x # xs) = do { (q, _, _) \<leftarrow> insert_item q x; insert_all q xs }"

lemma insert_step:
  assumes "ok q" "fits x"
  shows "\<exists>q' y b. insert_item q x = Some (q', y, b) \<and> ok q' \<and> fits y \<and> items q' = take cap (items q @ [x])"
proof (cases "length (items q) < cap")
  case True
  then show ?thesis using insert_room[OF assms True] by auto
next
  case False
  then have "length (items q) = cap" using bounded[OF assms(1)] by simp
  then show ?thesis using insert_full[OF assms] assms by auto
qed

lemma insert_all_items:
  "ok q \<Longrightarrow> list_all fits xs \<Longrightarrow> \<exists>q'. insert_all q xs = Some q' \<and> ok q' \<and> items q' = take cap (items q @ xs)"
proof (induction xs arbitrary: q)
  case Nil
  then show ?case using bounded[OF Nil(1)] by simp
next
  case (Cons x xs)
  obtain q1 y b where 1: "insert_item q x = Some (q1, y, b)" "ok q1" "items q1 = take cap (items q @ [x])"
    using insert_step[of q x] Cons.prems by auto
  obtain q' where 2: "insert_all q1 xs = Some q'" "ok q'" "items q' = take cap (items q1 @ xs)"
    using Cons.IH[OF 1(2)] Cons.prems by auto
  have "take cap (take cap (items q @ [x]) @ xs) = take cap (items q @ x # xs)"
    using bounded[OF Cons.prems(1)] by (cases "length (items q) = cap") simp_all
  then show ?case using 1 2 by simp
qed

text \<open>Removing as often as there are items gives them out, in order.\<close>

fun remove_all :: "nat \<Rightarrow> 'q \<Rightarrow> 'x \<Rightarrow> ('q \<times> 'x list) option" where
  "remove_all 0 q x = Some (q, [])"
| "remove_all (Suc n) q x = do {
     (q, y, found) \<leftarrow> remove_item q x;
     if found then do { (q, ys) \<leftarrow> remove_all n q y; Some (q, y # ys) } else Some (q, []) }"

lemma remove_all_items:
  "ok q \<Longrightarrow> fits x \<Longrightarrow> length (items q) < n \<Longrightarrow> \<exists>q'. remove_all n q x = Some (q', items q) \<and> ok q' \<and> items q' = []"
proof (induction n arbitrary: q x)
  case (Suc n)
  show ?case
  proof (cases "items q")
    case Nil
    then show ?thesis using remove_none[OF Suc.prems(1,2)] Suc.prems by simp
  next
    case (Cons y ys)
    obtain q1 where 1: "remove_item q x = Some (q1, y, True)" "ok q1" "items q1 = ys"
      using remove_first[OF Suc.prems(1,2) Cons] by auto
    have "fits y" using all_fit[OF Suc.prems(1)] Cons by simp
    then show ?thesis using Suc.IH[OF 1(2), of y] 1 Cons Suc.prems by auto
  qed
qed simp

end

section \<open>The ring keeps the contract\<close>

definition sq_items :: "'x swap_queue \<Rightarrow> 'x list" where
  "sq_items q = map (\<lambda>i. sq_slots q ! ((next_read_index q + i) mod length (sq_slots q))) [0..<num_elements q]"

definition sq_ok :: "nat \<Rightarrow> ('x \<Rightarrow> bool) \<Rightarrow> 'x swap_queue \<Rightarrow> bool" where
  "sq_ok cap fits q \<longleftrightarrow> 0 < cap \<and> length (sq_slots q) = cap \<and> sq_verifier q = fits \<and> list_all fits (sq_slots q) \<and>
     next_read_index q < cap \<and> num_elements q \<le> cap \<and>
     next_write_index q = (next_read_index q + num_elements q) mod cap"

lemma mod_shift_inj:
  fixes r :: nat
  assumes "i < n" "j < n" "(r + i) mod n = (r + j) mod n"
  shows "i = j"
proof (rule ccontr)
  assume "i \<noteq> j"
  moreover have "False" if "a < b" "b < n" "(r + a) mod n = (r + b) mod n" for a b
  proof -
    have "n dvd (r + b) - (r + a)" using that mod_eq_dvd_iff_nat[of "r + a" "r + b" n] by simp
    then have "n dvd b - a" by simp
    then show False using that by (auto dest: dvd_imp_le)
  qed
  ultimately show False using assms by (metis linorder_neqE_nat)
qed

interpretation sq: bounded_fifo SwapQueue_Insert SwapQueue_Remove sq_items "sq_ok cap fits" fits cap
proof unfold_locales
  fix q :: "'a swap_queue"
  assume q: "sq_ok cap fits q"
  show "length (sq_items q) \<le> cap" using q by (simp add: sq_items_def sq_ok_def)
  show "list_all fits (sq_items q)" using q by (auto simp: sq_items_def sq_ok_def list_all_iff)
next
  fix q :: "'a swap_queue" and x
  assume q: "sq_ok cap fits q" and x: "fits x" and room: "length (sq_items q) < cap"
  let ?w = "next_write_index q"
  let ?q = "q\<lparr>sq_slots := (sq_slots q)[?w := x], next_write_index := (?w + 1) mod cap, num_elements := num_elements q + 1\<rparr>"
  have n: "num_elements q < cap" "?w < cap" using room q by (simp_all add: sq_items_def sq_ok_def)
  have "SwapQueue_Insert q x = Some (?q, sq_slots q ! ?w, True)"
    using q x n by (simp add: SwapQueue_Insert_def sq_ok_def Let_def)
  moreover have "sq_ok cap fits ?q"
    using q x n by (auto simp: sq_ok_def list_all_iff mod_Suc_eq dest: set_update_subset_insert[THEN subsetD])
  moreover have "fits (sq_slots q ! ?w)" using q n by (simp add: sq_ok_def list_all_iff)
  moreover have "sq_items ?q = sq_items q @ [x]"
  proof -
    have "(sq_slots q)[?w := x] ! ((next_read_index q + i) mod cap) = sq_slots q ! ((next_read_index q + i) mod cap)"
      if "i < num_elements q" for i
    proof -
      have "?w \<noteq> (next_read_index q + i) mod cap"
        using mod_shift_inj[of i cap "num_elements q" "next_read_index q"] that n q by (auto simp: sq_ok_def)
      then show ?thesis by (rule nth_list_update_neq)
    qed
    then show ?thesis using q n by (simp add: sq_items_def sq_ok_def)
  qed
  ultimately show "\<exists>q' y. SwapQueue_Insert q x = Some (q', y, True) \<and> sq_ok cap fits q' \<and> fits y \<and> sq_items q' = sq_items q @ [x]"
    by blast
next
  fix q :: "'a swap_queue" and x
  assume q: "sq_ok cap fits q" and x: "fits x" and "length (sq_items q) = cap"
  then show "SwapQueue_Insert q x = Some (q, x, False)" by (simp add: SwapQueue_Insert_def sq_ok_def sq_items_def)
next
  fix q :: "'a swap_queue" and x y ys
  assume q: "sq_ok cap fits q" and x: "fits x" and ys: "sq_items q = y # ys"
  let ?r = "next_read_index q"
  let ?q = "q\<lparr>sq_slots := (sq_slots q)[?r := x], next_read_index := (?r + 1) mod cap, num_elements := num_elements q - 1\<rparr>"
  have n: "0 < num_elements q" "?r < cap" "length (sq_slots q) = cap" "num_elements q \<le> cap"
    using q ys by (auto simp: sq_items_def sq_ok_def upt_conv_Cons intro: gr0I)
  have e: "[0..<num_elements q] = 0 # map Suc [0..<num_elements q - 1]"
    using n(1) by (simp add: upt_conv_Cons map_Suc_upt)
  have y: "y = sq_slots q ! ?r" and t: "ys = map (\<lambda>i. sq_slots q ! ((?r + Suc i) mod cap)) [0..<num_elements q - 1]"
    using ys n unfolding sq_items_def e by (auto simp: comp_def)
  have "SwapQueue_Remove q x = Some (?q, y, True)"
    using q x n y by (simp add: SwapQueue_Remove_def sq_ok_def Let_def)
  moreover have "((?r + 1) mod cap + (num_elements q - 1)) mod cap = next_write_index q"
    unfolding mod_add_left_eq using q n by (simp add: sq_ok_def)
  then have "sq_ok cap fits ?q"
    using q x n by (simp add: sq_ok_def list_all_iff) (auto dest: set_update_subset_insert[THEN subsetD])
  moreover have "sq_items ?q = ys"
  proof -
    have "(sq_slots q)[?r := x] ! ((?r + Suc i) mod cap) = sq_slots q ! ((?r + Suc i) mod cap)"
      if "i < num_elements q - 1" for i
    proof -
      have "Suc i < cap" using that n by simp
      then have "(?r + Suc i) mod cap \<noteq> ?r"
        using mod_shift_inj[of "Suc i" cap 0 ?r] n by auto
      then show ?thesis by (auto intro: nth_list_update_neq)
    qed
    then show ?thesis using n by (auto simp: sq_items_def t mod_Suc_eq mod_simps)
  qed
  ultimately show "\<exists>q'. SwapQueue_Remove q x = Some (q', y, True) \<and> sq_ok cap fits q' \<and> sq_items q' = ys" by blast
next
  fix q :: "'a swap_queue" and x
  assume q: "sq_ok cap fits q" and x: "fits x" and "sq_items q = []"
  then show "SwapQueue_Remove q x = Some (q, x, False)" by (simp add: SwapQueue_Remove_def sq_ok_def sq_items_def)
qed

lemma new_swap_queue_ok: "0 < cap \<Longrightarrow> fits x \<Longrightarrow> \<exists>q. new_swap_queue cap x fits = Some q \<and> sq_ok cap fits q \<and> sq_items q = []"
  by (auto simp: new_swap_queue_def sq_ok_def sq_items_def list_all_iff)

lemma SwapQueue_Clear_ok: "sq_ok cap fits q \<Longrightarrow> sq_ok cap fits (SwapQueue_Clear q) \<and> sq_items (SwapQueue_Clear q) = []"
  by (auto simp: SwapQueue_Clear_def sq_ok_def sq_items_def)

lemma SwapQueue_Size_items: "SwapQueue_Size q = length (sq_items q)"
  by (simp add: SwapQueue_Size_def sq_items_def)

section \<open>Both threads\<close>

text \<open>
  The accesses of \<^verbatim>\<open>Insert\<close> and of \<^verbatim>\<open>Remove\<close>, one at a time: load of the count with the return when
  there is no room or no item, the exchange of the item, the step of the index, the update of the
  count. The lists of items sent and received are not in the code; an item counts from the
  moment of its exchange.
\<close>

datatype producer_pc = PIdle | PSwap | PIndex | PAdd
datatype consumer_pc = CIdle | CSwap | CIndex | CSub

record 'x duo =
  dq :: "'x swap_queue"
  ppc :: producer_pc
  pin :: 'x
  cpc :: consumer_pc
  cout :: 'x
  sent :: "'x list"
  received :: "'x list"

definition new_duo :: "'x swap_queue \<Rightarrow> 'x \<Rightarrow> 'x duo" where
  "new_duo q x = \<lparr>dq = q, ppc = PIdle, pin = x, cpc = CIdle, cout = x, sent = [], received = []\<rparr>"

text \<open>One access by \<^verbatim>\<open>Insert\<close>; a call starts with the item \<open>x\<close>.\<close>

definition producer_step :: "'x \<Rightarrow> 'x duo \<Rightarrow> 'x duo" where
  "producer_step x d = (let q = dq d; w = next_write_index q in
     case ppc d of
       PIdle \<Rightarrow> d\<lparr>pin := x, ppc := if num_elements q \<ge> length (sq_slots q) then PIdle else PSwap\<rparr>
     | PSwap \<Rightarrow> d\<lparr>pin := sq_slots q ! w, dq := q\<lparr>sq_slots := (sq_slots q)[w := pin d]\<rparr>, sent := sent d @ [pin d], ppc := PIndex\<rparr>
     | PIndex \<Rightarrow> d\<lparr>dq := q\<lparr>next_write_index := (w + 1) mod length (sq_slots q)\<rparr>, ppc := PAdd\<rparr>
     | PAdd \<Rightarrow> d\<lparr>dq := q\<lparr>num_elements := num_elements q + 1\<rparr>, ppc := PIdle\<rparr>)"

text \<open>One access by \<^verbatim>\<open>Remove\<close>; a call starts with the buffer \<open>y\<close>.\<close>

definition consumer_step :: "'x \<Rightarrow> 'x duo \<Rightarrow> 'x duo" where
  "consumer_step y d = (let q = dq d; r = next_read_index q in
     case cpc d of
       CIdle \<Rightarrow> d\<lparr>cout := y, cpc := if num_elements q = 0 then CIdle else CSwap\<rparr>
     | CSwap \<Rightarrow> d\<lparr>cout := sq_slots q ! r, dq := q\<lparr>sq_slots := (sq_slots q)[r := cout d]\<rparr>,
                 received := received d @ [sq_slots q ! r], cpc := CIndex\<rparr>
     | CIndex \<Rightarrow> d\<lparr>dq := q\<lparr>next_read_index := (r + 1) mod length (sq_slots q)\<rparr>, cpc := CSub\<rparr>
     | CSub \<Rightarrow> d\<lparr>dq := q\<lparr>num_elements := num_elements q - 1\<rparr>, cpc := CIdle\<rparr>)"

inductive duo_run :: "'x swap_queue \<Rightarrow> 'x \<Rightarrow> 'x duo \<Rightarrow> bool" for q z where
  start: "duo_run q z (new_duo q z)"
| producer: "duo_run q z d \<Longrightarrow> sq_verifier q x \<Longrightarrow> duo_run q z (producer_step x d)"
| consumer: "duo_run q z d \<Longrightarrow> sq_verifier q y \<Longrightarrow> duo_run q z (consumer_step y d)"

text \<open>Run alone, four accesses are the operation.\<close>

lemma insert_accesses:
  assumes "SwapQueue_Insert q x = Some (q', y, True)" "ppc d = PIdle" "dq d = q"
  shows "producer_step z (producer_step z (producer_step z (producer_step x d))) = d\<lparr>dq := q', pin := y, sent := sent d @ [x]\<rparr>"
proof -
  have "\<not> num_elements q \<ge> length (sq_slots q)" "y = sq_slots q ! next_write_index q"
    "q' = q\<lparr>sq_slots := (sq_slots q)[next_write_index q := x],
            next_write_index := (next_write_index q + 1) mod length (sq_slots q), num_elements := num_elements q + 1\<rparr>"
    using assms(1) by (simp_all add: SwapQueue_Insert_def Let_def split: if_splits)
  then show ?thesis using assms(2,3) by (simp add: producer_step_def Let_def)
qed

lemma remove_accesses:
  assumes "SwapQueue_Remove q x = Some (q', y, True)" "cpc d = CIdle" "dq d = q"
  shows "consumer_step z (consumer_step z (consumer_step z (consumer_step x d))) = d\<lparr>dq := q', cout := y, received := received d @ [y]\<rparr>"
proof -
  have "num_elements q \<noteq> 0" "y = sq_slots q ! next_read_index q"
    "q' = q\<lparr>sq_slots := (sq_slots q)[next_read_index q := x],
            next_read_index := (next_read_index q + 1) mod length (sq_slots q), num_elements := num_elements q - 1\<rparr>"
    using assms(1) by (simp_all add: SwapQueue_Remove_def Let_def split: if_splits)
  then show ?thesis using assms(2,3) by (simp add: consumer_step_def Let_def)
qed

text \<open>
  The invariant. With \<open>s\<close> items sent and \<open>g\<close> received, the slot of item \<open>i\<close> is \<open>i mod cap\<close> for
  \<open>g \<le> i < s\<close>; the indices and the count lag behind \<open>s\<close> and \<open>g\<close> while a call is under way.
\<close>

definition lag_p :: "producer_pc set \<Rightarrow> 'x duo \<Rightarrow> nat" where "lag_p S d = (if ppc d \<in> S then 1 else 0)"
definition lag_c :: "consumer_pc set \<Rightarrow> 'x duo \<Rightarrow> nat" where "lag_c S d = (if cpc d \<in> S then 1 else 0)"

definition duo_counts :: "nat \<Rightarrow> 'x duo \<Rightarrow> bool" where
  "duo_counts cap d \<longleftrightarrow> (let s = length (sent d); g = length (received d); q = dq d in
     length (sq_slots q) = cap \<and> 0 < cap \<and> g \<le> s \<and> s \<le> g + cap \<and>
     num_elements q + lag_p {PIndex, PAdd} d + g = s + lag_c {CIndex, CSub} d \<and>
     lag_p {PIndex, PAdd} d \<le> s \<and> lag_c {CIndex, CSub} d \<le> g \<and>
     next_write_index q < cap \<and> (next_write_index q + lag_p {PIndex} d) mod cap = s mod cap \<and>
     next_read_index q < cap \<and> (next_read_index q + lag_c {CIndex} d) mod cap = g mod cap \<and>
     (ppc d = PSwap \<longrightarrow> s < g + cap) \<and> (cpc d = CSwap \<longrightarrow> g < s) \<and> (cpc d \<noteq> CIdle \<longrightarrow> 0 < num_elements q))"

definition duo_data :: "nat \<Rightarrow> 'x duo \<Rightarrow> bool" where
  "duo_data cap d \<longleftrightarrow> received d = take (length (received d)) (sent d) \<and>
     (\<forall>i. length (received d) \<le> i \<and> i < length (sent d) \<longrightarrow> sq_slots (dq d) ! (i mod cap) = sent d ! i)"

definition duo_fit :: "('x \<Rightarrow> bool) \<Rightarrow> 'x duo \<Rightarrow> bool" where
  "duo_fit fits d \<longleftrightarrow> list_all fits (sq_slots (dq d)) \<and> fits (pin d) \<and> fits (cout d)"

lemmas duo_unfold = duo_counts_def lag_p_def lag_c_def Let_def

lemma mod_Suc_cong: "a mod n = b mod n \<Longrightarrow> Suc a mod n = Suc b mod n" for n :: nat
  by (metis mod_Suc_eq)

lemma lag_keep [simp]:
  "lag_c C (d\<lparr>pin := x\<rparr>) = lag_c C d" "lag_c C (d\<lparr>dq := q\<rparr>) = lag_c C d" "lag_c C (d\<lparr>ppc := p\<rparr>) = lag_c C d"
  "lag_c C (d\<lparr>sent := xs\<rparr>) = lag_c C d"
  "lag_p P (d\<lparr>cout := x\<rparr>) = lag_p P d" "lag_p P (d\<lparr>dq := q\<rparr>) = lag_p P d" "lag_p P (d\<lparr>cpc := c\<rparr>) = lag_p P d"
  "lag_p P (d\<lparr>received := xs\<rparr>) = lag_p P d"
  by (simp_all add: lag_c_def lag_p_def)

lemma lag_set [simp]:
  "lag_p P (d\<lparr>ppc := p\<rparr>) = (if p \<in> P then 1 else 0)" "lag_c C (d\<lparr>cpc := c\<rparr>) = (if c \<in> C then 1 else 0)"
  by (simp_all add: lag_c_def lag_p_def)

lemma lag_sub: "lag_c {CIndex} d \<le> lag_c {CIndex, CSub} d"
  by (simp add: lag_c_def)

lemma producer_counts: "duo_counts cap d \<Longrightarrow> duo_counts cap (producer_step x d)"
  using lag_sub[of d] by (cases "ppc d")
    (auto simp: duo_counts_def Let_def lag_p_def producer_step_def mod_Suc_eq intro: mod_Suc_cong)

lemma consumer_counts: "duo_counts cap d \<Longrightarrow> duo_counts cap (consumer_step x d)"
  by (cases "cpc d")
    (auto simp: duo_counts_def Let_def lag_c_def consumer_step_def mod_Suc_eq intro: mod_Suc_cong)

lemma slot_neq:
  fixes i j n :: nat
  assumes "i < j" "j < i + n"
  shows "i mod n \<noteq> j mod n"
proof -
  have "j - i < n" using assms by arith
  then show ?thesis using mod_shift_inj[of 0 n "j - i" i] assms by auto
qed

lemma producer_data:
  assumes c: "duo_counts cap d" and t: "duo_data cap d"
  shows "duo_data cap (producer_step x d)"
proof (cases "ppc d = PSwap")
  case True
  let ?s = "length (sent d)" and ?g = "length (received d)"
  have w: "next_write_index (dq d) = ?s mod cap" "next_write_index (dq d) < length (sq_slots (dq d))" "?s < ?g + cap"
    "?g \<le> ?s"
    using c True by (auto simp: duo_counts_def Let_def lag_p_def)
  have "(sq_slots (dq d))[?s mod cap := pin d] ! (i mod cap) = (sent d @ [pin d]) ! i" if "?g \<le> i" "i < Suc ?s" for i
  proof (cases "i = ?s")
    case False
    then have "?s mod cap \<noteq> i mod cap" using slot_neq[of i ?s cap] that w by auto
    then show ?thesis using t that False by (simp add: duo_data_def nth_append)
  qed (use w in simp)
  then show ?thesis using True t w by (simp add: duo_data_def producer_step_def Let_def)
qed (use t in \<open>cases "ppc d"; simp add: duo_data_def producer_step_def Let_def\<close>)

lemma consumer_data:
  assumes c: "duo_counts cap d" and t: "duo_data cap d"
  shows "duo_data cap (consumer_step x d)"
proof (cases "cpc d = CSwap")
  case True
  let ?s = "length (sent d)" and ?g = "length (received d)"
  have r: "next_read_index (dq d) = ?g mod cap" "?g < ?s" "?s \<le> ?g + cap"
    using c True by (auto simp: duo_counts_def Let_def lag_c_def)
  have x: "sq_slots (dq d) ! (?g mod cap) = sent d ! ?g" using t r by (simp add: duo_data_def)
  have "(sq_slots (dq d))[?g mod cap := cout d] ! (i mod cap) = sent d ! i" if "Suc ?g \<le> i" "i < ?s" for i
    using slot_neq[of ?g i cap] that r t by (simp add: duo_data_def)
  moreover have "received d @ [sent d ! ?g] = take (Suc ?g) (sent d)"
    using t r by (simp add: duo_data_def take_Suc_conv_app_nth)
  ultimately show ?thesis using True x r by (simp add: duo_data_def consumer_step_def Let_def)
qed (use t in \<open>cases "cpc d"; simp add: duo_data_def consumer_step_def Let_def\<close>)

lemma producer_fit: "duo_counts cap d \<Longrightarrow> duo_fit fits d \<Longrightarrow> fits x \<Longrightarrow> duo_fit fits (producer_step x d)"
  by (cases "ppc d")
    (auto simp: duo_fit_def duo_counts_def producer_step_def Let_def list_all_iff dest: set_update_subset_insert[THEN subsetD])

lemma consumer_fit: "duo_counts cap d \<Longrightarrow> duo_fit fits d \<Longrightarrow> fits x \<Longrightarrow> duo_fit fits (consumer_step x d)"
  by (cases "cpc d")
    (auto simp: duo_fit_def duo_counts_def consumer_step_def Let_def list_all_iff dest: set_update_subset_insert[THEN subsetD])

lemma duo_run_inv:
  assumes "duo_run q z d" "new_swap_queue cap p fits = Some q" "fits p" "fits z"
  shows "duo_counts cap d \<and> duo_data cap d \<and> duo_fit fits d"
  using assms
proof (induction rule: duo_run.induct)
  case start
  then show ?case
    by (auto simp: new_swap_queue_def new_duo_def duo_unfold duo_data_def duo_fit_def list_all_iff split: if_splits)
next
  case (producer d x)
  then have "fits x" by (auto simp: new_swap_queue_def split: if_splits)
  with producer show ?case using producer_fit[of cap d fits x] by (simp add: producer_counts producer_data)
next
  case (consumer d y)
  then have "fits y" by (auto simp: new_swap_queue_def split: if_splits)
  with consumer show ?case using consumer_fit[of cap d fits y] by (simp add: consumer_counts consumer_data)
qed

text \<open>
  C6: With one thread that inserts and one that removes, in any interleaving of their accesses to
  the memory, the items received are the first of the items sent, in order; no more items than
  the capacity are under way; the two threads are never about to exchange the same slot; and
  every slot and both buffers hold items that pass the check.
\<close>
theorem swap_queue_interleaved:
  assumes "duo_run q z d" "new_swap_queue cap p fits = Some q" "fits p" "fits z"
  shows "prefix (received d) (sent d) \<and> length (sent d) \<le> length (received d) + cap \<and>
    \<not> (ppc d = PSwap \<and> cpc d = CSwap \<and> next_write_index (dq d) = next_read_index (dq d)) \<and>
    list_all fits (sq_slots (dq d)) \<and> fits (pin d) \<and> fits (cout d)"
proof -
  have c: "duo_counts cap d" and t: "duo_data cap d" and f: "duo_fit fits d"
    using duo_run_inv[OF assms] by auto
  let ?s = "length (sent d)" and ?g = "length (received d)"
  have "prefix (received d) (sent d)"
    using t by (metis duo_data_def take_is_prefix)
  moreover have "next_write_index (dq d) \<noteq> next_read_index (dq d)" if "ppc d = PSwap" "cpc d = CSwap"
    using c that slot_neq[of ?g ?s cap] by (auto simp: duo_counts_def Let_def lag_p_def lag_c_def)
  ultimately show ?thesis using c f by (auto simp: duo_counts_def Let_def duo_fit_def)
qed

text \<open>Two threads on a queue of two slots: the second item is exchanged while the first is taken.\<close>

definition demo_queue :: "nat swap_queue" where
  "demo_queue = \<lparr>sq_verifier = (\<lambda>_. True), sq_slots = [0, 0], next_read_index = 0, next_write_index = 0, num_elements = 0\<rparr>"

definition demo_duo :: "nat duo" where
  "demo_duo = consumer_step 0 (producer_step 8 (consumer_step 0 (producer_step 8
     (producer_step 7 (producer_step 7 (producer_step 7 (producer_step 7 (new_duo demo_queue 0))))))))"

theorem swap_queue_interleaved_witness:
  "received demo_duo = [7] \<and> sent demo_duo = [7, 8] \<and> prefix (received demo_duo) (sent demo_duo)"
proof -
  have v: "sq_verifier demo_queue x" for x by (simp add: demo_queue_def)
  have "duo_run demo_queue 0 demo_duo"
    unfolding demo_duo_def by (intro duo_run.intros v)
  moreover have "new_swap_queue 2 0 (\<lambda>_. True) = Some demo_queue"
    by (simp add: new_swap_queue_def demo_queue_def numeral_2_eq_2)
  ultimately have "prefix (received demo_duo) (sent demo_duo)"
    using swap_queue_interleaved[of demo_queue 0 demo_duo 2 0 "\<lambda>_. True"] by simp
  moreover have "received demo_duo = [7]" "sent demo_duo = [7, 8]"
    by code_simp+
  ultimately show ?thesis by simp
qed

end
