(* ===== verification/Aec_Render_Path.thy ===== *)
theory Aec_Render_Path
  imports Aec_Capture Float_Round Swap_Queue
begin

text \<open>
  The path of the render signal through
  \<^verbatim>\<open>crates/fswtch-apm-sys/cpp/modules/audio_processing/aec3/echo_canceller3.cc\<close>: the writer that
  puts frames into the transfer queue, and the functions that cut a frame from the queue, mixed
  down when the canceller works in mono, into blocks for the block processor. The high pass filter
  of the writer and \<^verbatim>\<open>BlockProcessor::BufferRender\<close> are parameters.
\<close>

section \<open>Frames of the queue\<close>

text \<open>A frame is indexed by band, channel and sample.\<close>

definition Aec3RenderQueueItemVerifier :: "nat \<Rightarrow> nat \<Rightarrow> nat \<Rightarrow> 'a list list list \<Rightarrow> bool" where
  "Aec3RenderQueueItemVerifier bands channels frame_len v \<longleftrightarrow>
     length v = bands \<and> list_all (\<lambda>band. length band = channels \<and> list_all (\<lambda>channel. length channel = frame_len) band) v"

definition num_frames_per_band :: "'a audio_buffer \<Rightarrow> nat" where
  "num_frames_per_band ab = length (split_bands ab ! 0 ! 0)"

definition CopyBufferIntoFrame :: "'a audio_buffer \<Rightarrow> nat \<Rightarrow> nat \<Rightarrow> 'a list list list \<Rightarrow> 'a list list list option" where
  "CopyBufferIntoFrame buffer bands channels frame =
     (if bands = length frame \<and> channels = length (frame ! 0) \<and> kSplitBandSize = length (frame ! 0 ! 0)
      then for_each (band_channels bands channels) (\<lambda>band channel frame. Some (set_at band channel
             (copy_to (take kSplitBandSize (split_bands buffer ! channel ! band)) 0 (frame ! band ! channel)) frame)) frame
      else None)"

text \<open>The writer. Its high pass filter has a state of the type \<open>'h\<close>.\<close>

record 'h render_writer =
  rw_bands :: nat
  rw_channels :: nat
  rw_high_pass :: "'h option"
  rw_input_frame :: "rat list list list"

definition new_render_writer :: "'h option \<Rightarrow> nat \<Rightarrow> nat \<Rightarrow> 'h render_writer" where
  "new_render_writer high_pass bands channels =
     \<lparr>rw_bands = bands, rw_channels = channels, rw_high_pass = high_pass,
      rw_input_frame = replicate bands (replicate channels (replicate kSplitBandSize 0))\<rparr>"

definition RenderWriter_Insert ::
    "('h \<Rightarrow> rat list list \<Rightarrow> 'h \<times> rat list list) \<Rightarrow> rat audio_buffer \<Rightarrow> 'h render_writer \<Rightarrow> rat list list list swap_queue \<Rightarrow>
     ('h render_writer \<times> rat list list list swap_queue) option" where
  "RenderWriter_Insert high_pass_process input w queue =
     (if kSplitBandSize = num_frames_per_band input \<and> rw_bands w = ab_bands input \<and> rw_channels w = ab_channels input
      then do {
        frame \<leftarrow> CopyBufferIntoFrame input (rw_bands w) (rw_channels w) (rw_input_frame w);
        let (filter_state, frame) = (case rw_high_pass w of None \<Rightarrow> (None, frame)
              | Some f \<Rightarrow> (case high_pass_process f (frame ! 0) of (f, band) \<Rightarrow> (Some f, frame[0 := band])));
        (queue, frame, _) \<leftarrow> SwapQueue_Insert queue frame;
        Some (w\<lparr>rw_high_pass := filter_state, rw_input_frame := frame\<rparr>, queue)
      }
      else None)"

section \<open>Sub frames of a render frame\<close>

definition sub_frame :: "nat \<Rightarrow> 'a list \<Rightarrow> 'a list" where
  "sub_frame i xs = take kSubFrameLength (drop (i * kSubFrameLength) xs)"

text \<open>The average of the channels: the sum first, channel by channel, then the scaling.\<close>

definition add_channel :: "rat list \<Rightarrow> rat list \<Rightarrow> rat list" where
  "add_channel xs ys = map2 (\<lambda>x y. f32 (x + y)) xs ys"

definition average :: "rat list list \<Rightarrow> rat list" where
  "average channels =
     (let one_by_num_channels = f32 (1 / of_nat (length channels))
      in map (\<lambda>x. f32 (x * one_by_num_channels)) (foldl add_channel (hd channels) (tl channels)))"

definition downmix_band :: "nat \<Rightarrow> rat list list \<Rightarrow> rat list list" where
  "downmix_band i channels = channels[0 := copy_to (average (map (sub_frame i) channels)) (i * kSubFrameLength) (channels ! 0)]"

text \<open>The frame afterwards, and the view.\<close>

definition FillRenderSubFrameView ::
    "bool \<Rightarrow> rat list list list \<Rightarrow> nat \<Rightarrow> nat \<Rightarrow> nat \<Rightarrow> (rat list list list \<times> rat list list list) option" where
  "FillRenderSubFrameView proper_downmix_needed frame sub_frame_index view_bands view_channels =
     (if \<not> (sub_frame_index \<le> 1 \<and> length frame = view_bands) then None
      else (let frame_num_channels = length (frame ! 0) in
        if frame_num_channels > view_channels then
          (if view_channels \<noteq> 1 then None
           else let frame = (if proper_downmix_needed then map (downmix_band sub_frame_index) frame else frame)
                in Some (frame, map (\<lambda>band. [sub_frame sub_frame_index (band ! 0)]) frame))
        else if frame_num_channels \<noteq> view_channels then None
        else Some (frame, map (map (sub_frame sub_frame_index)) frame)))"

section \<open>From frames to blocks\<close>

text \<open>\<^verbatim>\<open>BlockProcessor::BufferRender\<close>, and what the functions below work on: blocker, processor and block.\<close>

type_synonym 'p buffer_render = "rat block \<Rightarrow> 'p \<Rightarrow> 'p option"
type_synonym 'p render_parts = "rat frame_blocker \<times> 'p \<times> rat block"

definition BufferRenderFrameContent ::
    "'p buffer_render \<Rightarrow> bool \<Rightarrow> nat \<Rightarrow> nat \<Rightarrow> rat list list list \<Rightarrow> nat \<Rightarrow> 'p render_parts \<Rightarrow>
     (rat list list list \<times> 'p render_parts) option" where
  "BufferRenderFrameContent buffer proper_downmix_needed view_bands view_channels render_frame sub_frame_index = (\<lambda>(blocker, p, blk). do {
     (render_frame, view) \<leftarrow> FillRenderSubFrameView proper_downmix_needed render_frame sub_frame_index view_bands view_channels;
     (blocker, blk) \<leftarrow> InsertSubFrameAndExtractBlock blocker view blk;
     p \<leftarrow> buffer blk p;
     Some (render_frame, blocker, p, blk) })"

definition BufferRemainingRenderFrameContent :: "'p buffer_render \<Rightarrow> 'p render_parts \<Rightarrow> 'p render_parts option" where
  "BufferRemainingRenderFrameContent buffer = (\<lambda>(blocker, p, blk).
     if \<not> IsBlockAvailable blocker then Some (blocker, p, blk)
     else do {
       (blocker, blk) \<leftarrow> ExtractBlock blocker blk;
       p \<leftarrow> buffer blk p;
       Some (blocker, p, blk) })"

text \<open>The part of the loop in \<^verbatim>\<open>EmptyRenderQueue\<close> that buffers a frame.\<close>

definition buffer_frame ::
    "'p buffer_render \<Rightarrow> bool \<Rightarrow> nat \<Rightarrow> nat \<Rightarrow> rat list list list \<Rightarrow> 'p render_parts \<Rightarrow> (rat list list list \<times> 'p render_parts) option" where
  "buffer_frame buffer downmix view_bands view_channels frame s = do {
     (frame, s) \<leftarrow> BufferRenderFrameContent buffer downmix view_bands view_channels frame 0 s;
     (frame, s) \<leftarrow> BufferRenderFrameContent buffer downmix view_bands view_channels frame 1 s;
     s \<leftarrow> BufferRemainingRenderFrameContent buffer s;
     Some (frame, s) }"

section \<open>The writer keeps the shape of the frames\<close>

definition wf_frame :: "nat \<Rightarrow> nat \<Rightarrow> 'a list list list \<Rightarrow> bool" where
  "wf_frame nb nc v \<longleftrightarrow> shaped nb nc v \<and> cells nb nc (\<lambda>b c. length (v ! b ! c) = kSplitBandSize)"

lemma verifier_wf: "Aec3RenderQueueItemVerifier nb nc kSplitBandSize = wf_frame nb nc"
proof
  fix v :: "'a list list list"
  have "(\<forall>r\<in>set v. \<forall>ch\<in>set r. length ch = kSplitBandSize) \<longleftrightarrow> cells nb nc (\<lambda>b c. length (v ! b ! c) = kSplitBandSize)"
    if "shaped nb nc v"
    using that shaped_row[OF that] unfolding cells_def shaped_def all_set_conv_all_nth by auto
  then show "Aec3RenderQueueItemVerifier nb nc kSplitBandSize v = wf_frame nb nc v"
    by (auto simp: Aec3RenderQueueItemVerifier_def wf_frame_def shaped_def list_all_iff)
qed

text \<open>The samples of a band and channel.\<close>

definition frame_samples :: "'a audio_buffer \<Rightarrow> 'a list list list" where
  "frame_samples ab = map (\<lambda>b. map (\<lambda>c. split_bands ab ! c ! b) [0..<ab_channels ab]) [0..<ab_bands ab]"

lemma wf_frame_samples: "wf_audio nb nc ab \<Longrightarrow> wf_frame nb nc (frame_samples ab)"
  by (auto simp: wf_audio_def wf_frame_def frame_samples_def shaped_def cells_def)

lemma shaped_eqI:
  assumes "shaped nb nc m" "shaped nb nc m'" "\<And>b c. b < nb \<Longrightarrow> c < nc \<Longrightarrow> m ! b ! c = m' ! b ! c"
  shows "m = m'"
proof (rule nth_equalityI)
  fix b assume "b < length m"
  then have b: "b < nb" using assms(1) by (simp add: shaped_def)
  show "m ! b = m' ! b"
    by (rule nth_equalityI) (use assms b shaped_row[OF assms(1) b] shaped_row[OF assms(2) b] in simp_all)
qed (use assms in \<open>simp add: shaped_def\<close>)

lemma CopyBufferIntoFrame_ok:
  assumes "wf_audio nb nc ab" "wf_frame nb nc frame" "0 < nb" "0 < nc"
  shows "CopyBufferIntoFrame ab nb nc frame = Some (frame_samples ab)"
proof -
  let ?f = "\<lambda>band channel frame. Some (set_at band channel (copy_to (take kSplitBandSize (split_bands ab ! channel ! band)) 0 (frame ! band ! channel)) frame)"
  have "\<exists>s'. for_each (band_channels nb nc) ?f frame = Some s' \<and> wf_frame nb nc s' \<and> (\<forall>(b, c)\<in>set (band_channels nb nc). s' ! b ! c = split_bands ab ! c ! b)"
  proof (rule for_each_cells[OF distinct_band_channels, where pre = "\<lambda>b c s. True"])
    fix b c and s :: "'a list list list"
    assume bc: "(b, c) \<in> set (band_channels nb nc)" and I: "wf_frame nb nc s"
    have b: "b < nb" "c < nc" using bc by (simp_all add: band_channels_set)
    have l: "length (split_bands ab ! c ! b) = kSplitBandSize" "length (s ! b ! c) = kSplitBandSize"
      using assms(1) I b by (simp_all add: wf_audio_def wf_frame_def cells_def)
    have w: "copy_to (take kSplitBandSize (split_bands ab ! c ! b)) 0 (s ! b ! c) = split_bands ab ! c ! b" using l by (simp add: copy_to_def)
    have s: "shaped nb nc s" using I by (simp add: wf_frame_def)
    have "wf_frame nb nc (set_at b c (split_bands ab ! c ! b) s)"
      using I l b by (auto simp: wf_frame_def cells_def set_at_nth)
    then show "\<exists>s'. ?f b c s = Some s' \<and> wf_frame nb nc s' \<and> s' ! b ! c = split_bands ab ! c ! b \<and>
        (\<forall>b' c'. (b', c') \<in> set (band_channels nb nc) \<and> (b', c') \<noteq> (b, c) \<longrightarrow> (True \<longrightarrow> True) \<and>
           (s ! b' ! c' = split_bands ab ! c' ! b' \<longrightarrow> s' ! b' ! c' = split_bands ab ! c' ! b'))"
      unfolding w using s b by (intro exI[of _ "set_at b c (split_bands ab ! c ! b) s"]) (auto simp: set_at_nth band_channels_set)
  qed (use assms(2) in simp_all)
  then obtain s' where s': "for_each (band_channels nb nc) ?f frame = Some s'" "wf_frame nb nc s'"
    "\<And>b c. b < nb \<Longrightarrow> c < nc \<Longrightarrow> s' ! b ! c = split_bands ab ! c ! b"
    by (auto simp: band_channels_set)
  have "s' = frame_samples ab"
    using s'(2) wf_frame_samples[OF assms(1)] s'(3) assms(1)
    by (intro shaped_eqI) (auto simp: wf_frame_def frame_samples_def wf_audio_def)
  moreover have "length frame = nb" "length (frame ! 0) = nc" "length (frame ! 0 ! 0) = kSplitBandSize"
    using assms(2-4) shaped_row[of nb nc frame 0] by (auto simp: wf_frame_def shaped_def cells_def)
  ultimately show ?thesis using s'(1) by (simp add: CopyBufferIntoFrame_def)
qed

text \<open>What the writer puts into the queue.\<close>

definition filtered :: "('h \<Rightarrow> rat list list \<Rightarrow> 'h \<times> rat list list) \<Rightarrow> 'h option \<Rightarrow> rat list list list \<Rightarrow> 'h option \<times> rat list list list" where
  "filtered hp h frame = (case h of None \<Rightarrow> (None, frame) | Some f \<Rightarrow> (case hp f (frame ! 0) of (f, band) \<Rightarrow> (Some f, frame[0 := band])))"

text \<open>A filter changes the samples of a band only.\<close>

definition filter_keeps :: "('h \<Rightarrow> rat list list \<Rightarrow> 'h \<times> rat list list) \<Rightarrow> bool" where
  "filter_keeps hp \<longleftrightarrow> (\<forall>f band. map length (snd (hp f band)) = map length band)"

definition writer_ok :: "nat \<Rightarrow> nat \<Rightarrow> 'h render_writer \<Rightarrow> bool" where
  "writer_ok nb nc w \<longleftrightarrow> 0 < nb \<and> 0 < nc \<and> rw_bands w = nb \<and> rw_channels w = nc \<and> wf_frame nb nc (rw_input_frame w)"

lemma lengths_wf_frame:
  fixes v v' :: "'a list list list"
  shows "map (map length) v = map (map length) v' \<Longrightarrow> wf_frame nb nc v = wf_frame nb nc v'"
proof -
  have "wf_frame nb nc v \<longleftrightarrow> map (map length) v = replicate nb (replicate nc kSplitBandSize)" for v :: "'a list list list"
  proof
    assume v: "wf_frame nb nc v"
    then have "shaped nb nc (map (map length) v)" by (auto simp: wf_frame_def shaped_def)
    moreover have "shaped nb nc (replicate nb (replicate nc kSplitBandSize))" by (auto simp: shaped_def)
    ultimately show "map (map length) v = replicate nb (replicate nc kSplitBandSize)"
      by (rule shaped_eqI) (use v in \<open>auto simp: wf_frame_def cells_def shaped_def\<close>)
  next
    assume m: "map (map length) v = replicate nb (replicate nc kSplitBandSize)"
    then have l: "length v = nb" by (metis length_map length_replicate)
    have r: "map length (v ! b) = replicate nc kSplitBandSize" if "b < nb" for b
      using arg_cong[OF m, of "\<lambda>x. x ! b"] that l by simp
    have "length (v ! b) = nc" if "b < nb" for b using r[OF that] by (metis length_map length_replicate)
    moreover have "length (v ! b ! c) = kSplitBandSize" if "b < nb" "c < nc" for b c
      using arg_cong[OF r[OF that(1)], of "\<lambda>x. x ! c"] that calculation by simp
    ultimately show "wf_frame nb nc v" using l by (auto simp: wf_frame_def shaped_def cells_def in_set_conv_nth)
  qed
  then show "map (map length) v = map (map length) v' \<Longrightarrow> wf_frame nb nc v = wf_frame nb nc v'" by simp
qed

lemma wf_filtered:
  assumes "filter_keeps hp" "wf_frame nb nc frame" "0 < nb"
  shows "wf_frame nb nc (snd (filtered hp h frame))"
proof (cases h)
  case (Some f)
  have "map (map length) (frame[0 := snd (hp f (frame ! 0))]) = map (map length) frame"
    using assms by (cases frame) (auto simp: filter_keeps_def wf_frame_def shaped_def)
  from lengths_wf_frame[OF this] show ?thesis using assms(2) by (simp add: filtered_def Some split_beta)
qed (use assms in \<open>simp add: filtered_def\<close>)

lemma RenderWriter_Insert_ok:
  assumes "writer_ok nb nc w" "sq_ok cap (wf_frame nb nc) q" "filter_keeps hp" "wf_audio nb nc input"
  shows "\<exists>w' q'. RenderWriter_Insert hp input w q = Some (w', q') \<and> writer_ok nb nc w' \<and> sq_ok cap (wf_frame nb nc) q' \<and>
    rw_high_pass w' = fst (filtered hp (rw_high_pass w) (frame_samples input)) \<and>
    sq_items q' = take cap (sq_items q @ [snd (filtered hp (rw_high_pass w) (frame_samples input))])"
proof -
  obtain h frame where f: "filtered hp (rw_high_pass w) (frame_samples input) = (h, frame)" by fastforce
  have w: "0 < nb" "0 < nc" "rw_bands w = nb" "rw_channels w = nc" "wf_frame nb nc (rw_input_frame w)"
    using assms(1) by (simp_all add: writer_ok_def)
  have "wf_frame nb nc frame" using wf_filtered[OF assms(3) wf_frame_samples[OF assms(4)] w(1), of "rw_high_pass w"] f by simp
  from sq.insert_step[OF assms(2) this] obtain q' y r where q': "SwapQueue_Insert q frame = Some (q', y, r)" "sq_ok cap (wf_frame nb nc) q'"
    "wf_frame nb nc y" "sq_items q' = take cap (sq_items q @ [frame])"
    by blast
  have "num_frames_per_band input = kSplitBandSize" "ab_bands input = nb" "ab_channels input = nc"
    using assms(4) w(1,2) by (simp_all add: num_frames_per_band_def wf_audio_def cells_def)
  then have "RenderWriter_Insert hp input w q = Some (w\<lparr>rw_high_pass := h, rw_input_frame := y\<rparr>, q')"
    using w q'(1) CopyBufferIntoFrame_ok[OF assms(4) w(5,1,2)] f by (simp add: RenderWriter_Insert_def filtered_def)
  then show ?thesis using f q' w by (simp add: writer_ok_def)
qed

section \<open>Sub frames cover a frame\<close>

lemma sub_frame_map2: "sub_frame i (map2 f xs ys) = map2 f (sub_frame i xs) (sub_frame i ys)"
  by (simp add: sub_frame_def take_map drop_map take_zip drop_zip)

lemma length_sub_frame [simp]: "length xs = kSplitBandSize \<Longrightarrow> i \<le> 1 \<Longrightarrow> length (sub_frame i xs) = kSubFrameLength"
proof -
  assume "length xs = kSplitBandSize" "i \<le> 1"
  moreover from this(2) have "i * 80 + 80 \<le> 160" by simp
  ultimately show ?thesis by (simp add: sub_frame_def kSubFrameLength_def kSplitBandSize_def)
qed

lemma sub_frames: "length xs = kSplitBandSize \<Longrightarrow> sub_frame 0 xs @ sub_frame 1 xs = xs"
  by (simp add: sub_frame_def kSubFrameLength_def kSplitBandSize_def)

lemma sub_frame_copy:
  assumes "length ys = kSubFrameLength" "length xs = kSplitBandSize" "i \<le> 1" "j \<le> 1"
  shows "sub_frame j (copy_to ys (i * kSubFrameLength) xs) = (if i = j then ys else sub_frame j xs)"
proof -
  have "i = 0 \<or> i = 1" "j = 0 \<or> j = 1" using assms(3,4) by auto
  then show ?thesis using assms(1,2) by (auto simp: sub_frame_def copy_to_def kSubFrameLength_def kSplitBandSize_def)
qed

lemma foldl_add_channel: "sub_frame i (foldl add_channel xs yss) = foldl add_channel (sub_frame i xs) (map (sub_frame i) yss)"
  by (induction yss arbitrary: xs) (simp_all add: add_channel_def sub_frame_map2)

lemma length_foldl_add: "list_all (\<lambda>ys. length ys = n) yss \<Longrightarrow> length xs = n \<Longrightarrow> length (foldl add_channel xs yss) = n"
  by (induction yss arbitrary: xs) (simp_all add: add_channel_def)

lemma sub_frame_average: "channels \<noteq> [] \<Longrightarrow> sub_frame i (average channels) = average (map (sub_frame i) channels)"
proof (cases channels)
  case (Cons ch chs)
  show ?thesis
    unfolding average_def Let_def Cons using foldl_add_channel[of i ch chs]
    by (simp add: sub_frame_def take_map drop_map flip: foldl_add_channel)
qed simp

lemma length_average: "channels \<noteq> [] \<Longrightarrow> list_all (\<lambda>ys. length ys = n) channels \<Longrightarrow> length (average channels) = n"
  by (cases channels) (simp_all add: average_def Let_def length_foldl_add)

section \<open>What the canceller works on\<close>

text \<open>
  The contract of the views: a band with more channels than the canceller uses becomes the average
  of its channels, or its first channel, and any other band stays as it is.
\<close>

definition aec_band :: "bool \<Rightarrow> nat \<Rightarrow> rat list list \<Rightarrow> rat list list" where
  "aec_band downmix channels band = (if length band > channels then [if downmix then average band else band ! 0] else band)"

definition aec_frame :: "bool \<Rightarrow> nat \<Rightarrow> rat list list list \<Rightarrow> rat list list list" where
  "aec_frame downmix channels frame = map (aec_band downmix channels) frame"

lemma wf_frame_nth: "wf_frame nb nc f \<Longrightarrow> b < nb \<Longrightarrow> length (f ! b) = nc \<and> list_all (\<lambda>ch. length ch = kSplitBandSize) (f ! b)"
  using shaped_row[of nb nc f b] by (auto simp: wf_frame_def cells_def list_all_length)

lemma wf_frameI:
  "length f = nb \<Longrightarrow> (\<And>b. b < nb \<Longrightarrow> length (f ! b) = nc \<and> list_all (\<lambda>ch. length ch = kSplitBandSize) (f ! b)) \<Longrightarrow> wf_frame nb nc f"
  by (auto simp: wf_frame_def shaped_def cells_def list_all_length in_set_conv_nth)

lemma downmix_band_ok:
  assumes "list_all (\<lambda>ch. length ch = kSplitBandSize) chs" "chs \<noteq> []" "i \<le> 1" "j \<le> 1"
  shows "list_all (\<lambda>ch. length ch = kSplitBandSize) (downmix_band i chs)" "length (downmix_band i chs) = length chs"
    "sub_frame i (downmix_band i chs ! 0) = sub_frame i (average chs)"
    "j \<noteq> i \<Longrightarrow> sub_frame j (average (downmix_band i chs)) = sub_frame j (average chs)"
proof -
  obtain ch rest where c: "chs = ch # rest" using assms(2) by (cases chs) auto
  let ?a = "average (map (sub_frame i) chs)"
  have l: "length ?a = kSubFrameLength"
    by (rule length_average) (use assms in \<open>auto simp: list_all_iff\<close>)
  have ch: "length ch = kSplitBandSize" using assms(1) c by simp
  have "i * kSubFrameLength + kSubFrameLength \<le> kSplitBandSize" using assms(3) by (simp add: kSubFrameLength_def kSplitBandSize_def)
  then have "length (copy_to ?a (i * kSubFrameLength) ch) = kSplitBandSize" using l ch by simp
  then show "list_all (\<lambda>ch. length ch = kSplitBandSize) (downmix_band i chs)" "length (downmix_band i chs) = length chs"
    using assms(1) c by (simp_all add: downmix_band_def)
  show "sub_frame i (downmix_band i chs ! 0) = sub_frame i (average chs)"
    using sub_frame_copy[OF l ch assms(3,3)] sub_frame_average[OF assms(2), of i] c by (simp add: downmix_band_def)
  assume "j \<noteq> i"
  then have "map (sub_frame j) (downmix_band i chs) = map (sub_frame j) chs"
    using sub_frame_copy[OF l ch assms(3,4)] c by (simp add: downmix_band_def)
  then show "sub_frame j (average (downmix_band i chs)) = sub_frame j (average chs)"
    using sub_frame_average[OF assms(2), of j] sub_frame_average[of "downmix_band i chs" j] c by (simp add: downmix_band_def)
qed

lemma FillRenderSubFrameView_ok:
  assumes f: "wf_frame nb ni frame" and n: "nc = 1 \<or> nc = ni" "0 < ni" "0 < nb" and i: "i \<le> 1"
  shows "\<exists>frame' view. FillRenderSubFrameView dm frame i nb nc = Some (frame', view) \<and> wf_frame nb ni frame' \<and> sub_frame_ok nb nc view \<and>
    cells nb nc (\<lambda>b c. view ! b ! c = sub_frame i (aec_frame dm nc frame ! b ! c)) \<and>
    (\<forall>j\<le>1. j \<noteq> i \<longrightarrow> cells nb nc (\<lambda>b c. sub_frame j (aec_frame dm nc frame' ! b ! c) = sub_frame j (aec_frame dm nc frame ! b ! c)))"
proof -
  have len: "length frame = nb" "length (frame ! 0) = ni" using f n by (simp_all add: wf_frame_def shaped_def wf_frame_nth[OF f])
  note row = wf_frame_nth[OF f]
  show ?thesis
  proof (cases "nc < ni")
    case True
    then have nc: "nc = 1" using n by simp
    define frame' where "frame' = (if dm then map (downmix_band i) frame else frame)"
    define view where "view = map (\<lambda>band. [sub_frame i (band ! 0)]) frame'"
    have run: "FillRenderSubFrameView dm frame i nb nc = Some (frame', view)"
      using True i nc len by (simp add: FillRenderSubFrameView_def frame'_def view_def)
    have ne: "frame ! b \<noteq> []" if "b < nb" for b using row[OF that] True by auto
    have dmb: "list_all (\<lambda>ch. length ch = kSplitBandSize) (downmix_band i (frame ! b))" "length (downmix_band i (frame ! b)) = ni"
      "sub_frame i (downmix_band i (frame ! b) ! 0) = sub_frame i (average (frame ! b))" if "b < nb" for b
      using downmix_band_ok(1,2,3)[OF _ ne[OF that] i i] row[OF that] by simp_all
    have w: "wf_frame nb ni frame'"
      by (rule wf_frameI) (use len row dmb in \<open>auto simp: frame'_def\<close>)
    have v: "view ! b ! 0 = sub_frame i (aec_frame dm nc frame ! b ! 0)" if "b < nb" for b
      using that len row[OF that] dmb[OF that] True by (simp add: view_def frame'_def aec_frame_def aec_band_def)
    have "length (frame' ! b ! 0) = kSplitBandSize" if "b < nb" for b
      using wf_frame_nth[OF w that] n by (auto simp: list_all_length)
    then have s: "sub_frame_ok nb nc view"
      using len i nc by (auto simp: sub_frame_ok_def shaped_def cells_def view_def frame'_def)
    have "sub_frame j (aec_frame dm nc frame' ! b ! 0) = sub_frame j (aec_frame dm nc frame ! b ! 0)" if "b < nb" "j \<le> 1" "j \<noteq> i" for b j
      using that len row[OF that(1)] dmb(2)[OF that(1)] downmix_band_ok(4)[OF _ ne[OF that(1)] i that(2,3)] True
      by (simp add: frame'_def aec_frame_def aec_band_def)
    with run w s v show ?thesis using nc by (auto simp: cells_def)
  next
    case False
    then have nc: "nc = ni" using n by auto
    define view where "view = map (map (sub_frame i)) frame"
    have "FillRenderSubFrameView dm frame i nb nc = Some (frame, view)"
      using i nc len by (simp add: FillRenderSubFrameView_def view_def)
    moreover have a: "aec_frame dm nc frame ! b = frame ! b" if "b < nb" for b
      using that len row[OF that] nc by (simp add: aec_frame_def aec_band_def)
    moreover have "view ! b ! c = sub_frame i (frame ! b ! c)" if "b < nb" "c < nc" for b c
      using that len row[OF that(1)] nc by (simp add: view_def)
    moreover have "sub_frame_ok nb nc view"
      using len row nc i f by (auto simp: sub_frame_ok_def shaped_def cells_def view_def wf_frame_def)
    ultimately show ?thesis using f by (auto simp: cells_def)
  qed
qed

section \<open>The interface to the block processor\<close>

fun buffer_frames :: "'p buffer_render \<Rightarrow> nat \<Rightarrow> nat \<Rightarrow> (bool \<times> rat list list list) list \<Rightarrow> 'p render_parts \<Rightarrow> 'p render_parts option" where
  "buffer_frames buffer nb nc [] s = Some s"
| "buffer_frames buffer nb nc ((downmix, frame) # frames) s = do {
     (_, s) \<leftarrow> buffer_frame buffer downmix nb nc frame s;
     buffer_frames buffer nb nc frames s }"

text \<open>The samples of a band and channel that the canceller works on.\<close>

definition aec_samples :: "nat \<Rightarrow> (bool \<times> rat list list list) list \<Rightarrow> nat \<times> nat \<Rightarrow> rat list" where
  "aec_samples nc frames = (\<lambda>(b, c). concat (map (\<lambda>(downmix, frame). aec_frame downmix nc frame ! b ! c) frames))"

lemma aec_samples_simps [simp]:
  "aec_samples nc [] p = []"
  "aec_samples nc ((dm, f) # fs) (b, c) = aec_frame dm nc f ! b ! c @ aec_samples nc fs (b, c)"
  "aec_samples nc (fs @ gs) p = aec_samples nc fs p @ aec_samples nc gs p"
  by (simp_all add: aec_samples_def split: prod.splits)

text \<open>
  A sink is open or closed for good: open, it takes every block of its shape, and closed, it refuses
  every one. Its state is described by the blocks it has taken, the latest first.
\<close>

locale block_sink =
  fixes buffer :: "'p buffer_render"
    and taken :: "rat block list \<Rightarrow> 'p \<Rightarrow> bool"
    and nb nc :: nat
    and closed :: bool
  assumes takes: "\<not> closed \<Longrightarrow> taken h p \<Longrightarrow> wf_block nb nc blk \<Longrightarrow> \<exists>p'. buffer blk p = Some p' \<and> taken (blk # h) p'"
    and refuses: "closed \<Longrightarrow> taken h p \<Longrightarrow> wf_block nb nc blk \<Longrightarrow> buffer blk p = None"
    and some_cells: "taken h p \<Longrightarrow> 0 < nb \<and> 0 < nc"
begin

text \<open>With \<open>l\<close> samples held in each band, after the blocks \<open>h\<close>.\<close>

definition parts_ok :: "nat \<Rightarrow> rat block list \<Rightarrow> 'p render_parts \<Rightarrow> bool" where
  "parts_ok l h = (\<lambda>(blocker, p, blk). blocker_ok nb nc l blocker \<and> taken h p \<and> wf_block nb nc blk)"

definition held :: "'p render_parts \<Rightarrow> nat \<times> nat \<Rightarrow> rat list" where
  "held = (\<lambda>(blocker, _) (b, c). fb_buffer blocker ! b ! c)"

lemma content_blocked:
  assumes s: "parts_ok l h s" "l \<le> 48" and f: "wf_frame nb ni frame" "nc = 1 \<or> nc = ni" "0 < ni" and i: "i \<le> 1"
  shows "\<exists>frame' view fb p blk0 fb' blk. s = (fb, p, blk0) \<and> taken h p \<and> FillRenderSubFrameView dm frame i nb nc = Some (frame', view) \<and>
    wf_frame nb ni frame' \<and> InsertSubFrameAndExtractBlock fb view blk0 = Some (fb', blk) \<and> blocker_ok nb nc (l + 16) fb' \<and> wf_block nb nc blk \<and>
    cells nb nc (\<lambda>b c. held s (b, c) @ sub_frame i (aec_frame dm nc frame ! b ! c) = View blk b c @ fb_buffer fb' ! b ! c) \<and>
    (\<forall>j\<le>1. j \<noteq> i \<longrightarrow> cells nb nc (\<lambda>b c. sub_frame j (aec_frame dm nc frame' ! b ! c) = sub_frame j (aec_frame dm nc frame ! b ! c)))"
proof -
  obtain fb p blk where p: "s = (fb, p, blk)" by (cases s)
  have s': "blocker_ok nb nc l fb" "taken h p" "wf_block nb nc blk" using s(1) by (simp_all add: p parts_ok_def)
  have nb: "0 < nb" using some_cells[OF s'(2)] by simp
  obtain frame' view where v: "FillRenderSubFrameView dm frame i nb nc = Some (frame', view)" "wf_frame nb ni frame'" "sub_frame_ok nb nc view"
    "cells nb nc (\<lambda>b c. view ! b ! c = sub_frame i (aec_frame dm nc frame ! b ! c))"
    "\<forall>j\<le>1. j \<noteq> i \<longrightarrow> cells nb nc (\<lambda>b c. sub_frame j (aec_frame dm nc frame' ! b ! c) = sub_frame j (aec_frame dm nc frame ! b ! c))"
    using FillRenderSubFrameView_ok[OF f(1,2,3) nb i, of dm] by (elim exE conjE) (rule that)
  obtain fb' blk' where b: "InsertSubFrameAndExtractBlock fb view blk = Some (fb', blk')" "blocker_ok nb nc (l + 16) fb'" "wf_block nb nc blk'"
    "cells nb nc (\<lambda>b c. fb_buffer fb ! b ! c @ view ! b ! c = View blk' b c @ fb_buffer fb' ! b ! c)"
    using insert_sub_frame_ok[OF s'(1) s(2) v(3) s'(3)] by blast
  have "cells nb nc (\<lambda>b c. held s (b, c) @ sub_frame i (aec_frame dm nc frame ! b ! c) = View blk' b c @ fb_buffer fb' ! b ! c)"
    using b(4) v(4) by (simp add: cells_def held_def p)
  then show ?thesis using p s'(2) v(1,2,5) b(1-3) by (intro exI conjI)
qed

lemma closed_frame:
  assumes "closed" "parts_ok l h s" "l \<le> 48" "wf_frame nb ni frame" "nc = 1 \<or> nc = ni" "0 < ni"
  shows "buffer_frame buffer dm nb nc frame s = None"
  using content_blocked[OF assms(2-6), of 0 dm] refuses[OF assms(1)]
  by (auto simp: buffer_frame_def BufferRenderFrameContent_def)

lemma sink_content:
  assumes "\<not> closed" and s: "parts_ok l h s" "l \<le> 48" and f: "wf_frame nb ni frame" "nc = 1 \<or> nc = ni" "0 < ni" and i: "i \<le> 1"
  shows "\<exists>frame' s' blk. BufferRenderFrameContent buffer dm nb nc frame i s = Some (frame', s') \<and> wf_frame nb ni frame' \<and>
    wf_block nb nc blk \<and> parts_ok (l + 16) (blk # h) s' \<and>
    cells nb nc (\<lambda>b c. held s (b, c) @ sub_frame i (aec_frame dm nc frame ! b ! c) = View blk b c @ held s' (b, c)) \<and>
    (\<forall>j\<le>1. j \<noteq> i \<longrightarrow> cells nb nc (\<lambda>b c. sub_frame j (aec_frame dm nc frame' ! b ! c) = sub_frame j (aec_frame dm nc frame ! b ! c)))"
proof -
  obtain frame' view fb p blk0 fb' blk where c: "s = (fb, p, blk0)" "taken h p" "FillRenderSubFrameView dm frame i nb nc = Some (frame', view)"
    "wf_frame nb ni frame'" "InsertSubFrameAndExtractBlock fb view blk0 = Some (fb', blk)" "blocker_ok nb nc (l + 16) fb'" "wf_block nb nc blk"
    "cells nb nc (\<lambda>b c. held s (b, c) @ sub_frame i (aec_frame dm nc frame ! b ! c) = View blk b c @ fb_buffer fb' ! b ! c)"
    "\<forall>j\<le>1. j \<noteq> i \<longrightarrow> cells nb nc (\<lambda>b c. sub_frame j (aec_frame dm nc frame' ! b ! c) = sub_frame j (aec_frame dm nc frame ! b ! c))"
    using content_blocked[OF s f i, of dm] by (elim exE conjE) (rule that)
  obtain p' where p': "buffer blk p = Some p'" "taken (blk # h) p'" using takes[OF assms(1) c(2,7)] by blast
  have "BufferRenderFrameContent buffer dm nb nc frame i s = Some (frame', fb', p', blk)"
    using c(3,5) p'(1) by (simp add: BufferRenderFrameContent_def c(1))
  moreover have "parts_ok (l + 16) (blk # h) (fb', p', blk)" using c p' by (simp add: parts_ok_def)
  moreover have "cells nb nc (\<lambda>b c. held s (b, c) @ sub_frame i (aec_frame dm nc frame ! b ! c) = View blk b c @ held (fb', p', blk) (b, c))"
    using c(8) by (simp add: cells_def held_def)
  ultimately show ?thesis using c(4,7,9) by (intro exI conjI)
qed

lemma sink_remaining:
  assumes "\<not> closed" and s: "parts_ok l h s" "l = 32 \<or> l = 64"
  shows "\<exists>s' blks. BufferRemainingRenderFrameContent buffer s = Some s' \<and> list_all (wf_block nb nc) blks \<and>
    parts_ok (l mod 64) (rev blks @ h) s' \<and> cells nb nc (\<lambda>b c. held s (b, c) = samples (b, c) blks @ held s' (b, c))"
proof -
  obtain fb p blk where p: "s = (fb, p, blk)" by (cases s)
  have s': "blocker_ok nb nc l fb" "taken h p" "wf_block nb nc blk" using s(1) by (simp_all add: p parts_ok_def)
  have pos: "0 < nb" "0 < nc" using some_cells[OF s'(2)] by simp_all
  have avail: "IsBlockAvailable fb \<longleftrightarrow> l = 64" using s' pos by (auto simp: IsBlockAvailable_def blocker_ok_def cells_def kBlockSize_def)
  show ?thesis
  proof (cases "l = 64")
    case False
    then have "l mod 64 = l" "BufferRemainingRenderFrameContent buffer s = Some s" using s(2) avail by (auto simp: BufferRemainingRenderFrameContent_def p)
    then show ?thesis using s(1) by (intro exI[of _ s] exI[of _ "[]"]) (simp add: cells_def)
  next
    case True
    obtain fb' blk' where b: "ExtractBlock fb blk = Some (fb', blk')" "blocker_ok nb nc 0 fb'" "wf_block nb nc blk'"
      "cells nb nc (\<lambda>b c. fb_buffer fb ! b ! c = View blk' b c)"
      using extract_block_ok[of nb nc fb blk] s' pos True by blast
    obtain p' where p': "buffer blk' p = Some p'" "taken (blk' # h) p'" using takes[OF assms(1) s'(2) b(3)] by blast
    have "fb_buffer fb' ! b ! c = []" if "b < nb" "c < nc" for b c using b(2) that by (simp add: blocker_ok_def cells_def)
    then have "cells nb nc (\<lambda>b c. held s (b, c) = samples (b, c) [blk'] @ held (fb', p', blk') (b, c))"
      using b(4) by (simp add: cells_def held_def p)
    moreover have "BufferRemainingRenderFrameContent buffer s = Some (fb', p', blk')"
      using avail True b(1) p'(1) by (simp add: BufferRemainingRenderFrameContent_def p)
    moreover have "parts_ok (l mod 64) (rev [blk'] @ h) (fb', p', blk')" using b p' True by (simp add: parts_ok_def)
    ultimately show ?thesis using b(3) by (intro exI[of _ "(fb', p', blk')"] exI[of _ "[blk']"]) simp
  qed
qed

lemma sink_frame:
  assumes o: "\<not> closed" and s: "parts_ok l h s" "l \<in> {0, 32}" and f: "wf_frame nb ni frame" "nc = 1 \<or> nc = ni" "0 < ni"
  shows "\<exists>frame' s' blks. buffer_frame buffer dm nb nc frame s = Some (frame', s') \<and> wf_frame nb ni frame' \<and>
    list_all (wf_block nb nc) blks \<and> parts_ok (32 - l) (rev blks @ h) s' \<and>
    cells nb nc (\<lambda>b c. held s (b, c) @ aec_frame dm nc frame ! b ! c = samples (b, c) blks @ held s' (b, c))"
proof -
  have l: "l \<le> 48" "l + 16 \<le> 48" "l + 16 + 16 = 32 \<or> l + 16 + 16 = 64" "(l + 16 + 16) mod 64 = 32 - l" using s(2) by auto
  obtain frame1 s1 blk1 where 1: "BufferRenderFrameContent buffer dm nb nc frame 0 s = Some (frame1, s1)" "wf_frame nb ni frame1"
    "wf_block nb nc blk1" "parts_ok (l + 16) (blk1 # h) s1"
    "cells nb nc (\<lambda>b c. held s (b, c) @ sub_frame 0 (aec_frame dm nc frame ! b ! c) = View blk1 b c @ held s1 (b, c))"
    "\<forall>j\<le>1. j \<noteq> 0 \<longrightarrow> cells nb nc (\<lambda>b c. sub_frame j (aec_frame dm nc frame1 ! b ! c) = sub_frame j (aec_frame dm nc frame ! b ! c))"
    using sink_content[OF o s(1) l(1) f le0, of dm] by (elim exE conjE) (rule that)
  obtain frame2 s2 blk2 where 2: "BufferRenderFrameContent buffer dm nb nc frame1 1 s1 = Some (frame2, s2)" "wf_frame nb ni frame2"
    "wf_block nb nc blk2" "parts_ok (l + 16 + 16) (blk2 # blk1 # h) s2"
    "cells nb nc (\<lambda>b c. held s1 (b, c) @ sub_frame 1 (aec_frame dm nc frame1 ! b ! c) = View blk2 b c @ held s2 (b, c))"
    using sink_content[OF o 1(4) l(2) 1(2) f(2,3) order.refl, of dm] by (elim exE conjE) (rule that)
  obtain s3 blks where 3: "BufferRemainingRenderFrameContent buffer s2 = Some s3" "list_all (wf_block nb nc) blks"
    "parts_ok (32 - l) (rev blks @ blk2 # blk1 # h) s3" "cells nb nc (\<lambda>b c. held s2 (b, c) = samples (b, c) blks @ held s3 (b, c))"
    using sink_remaining[OF o 2(4) l(3)] unfolding l(4) by (elim exE conjE) (rule that)
  have "held s (b, c) @ aec_frame dm nc frame ! b ! c = samples (b, c) (blk1 # blk2 # blks) @ held s3 (b, c)" if "b < nb" "c < nc" for b c
  proof -
    have row: "length frame = nb" "length (frame ! b) = ni" "list_all (\<lambda>ch. length ch = kSplitBandSize) (frame ! b)"
      using f(1) wf_frame_nth[OF f(1) that(1)] by (simp_all add: wf_frame_def shaped_def)
    have "length (aec_frame dm nc frame ! b ! c) = kSplitBandSize"
    proof -
      have "frame ! b \<noteq> []" using row f(3) by auto
      then show ?thesis
        using row that f(2) length_average[of "frame ! b" kSplitBandSize] by (auto simp: aec_frame_def aec_band_def list_all_length)
    qed
    then have "held s (b, c) @ aec_frame dm nc frame ! b ! c =
        (held s (b, c) @ sub_frame 0 (aec_frame dm nc frame ! b ! c)) @ sub_frame 1 (aec_frame dm nc frame ! b ! c)"
      using sub_frames[of "aec_frame dm nc frame ! b ! c"] by (simp del: One_nat_def)
    moreover have "sub_frame 1 (aec_frame dm nc frame ! b ! c) = sub_frame 1 (aec_frame dm nc frame1 ! b ! c)"
      using 1(6) that by (simp add: cells_def)
    moreover have "held s1 (b, c) @ sub_frame 1 (aec_frame dm nc frame1 ! b ! c) = View blk2 b c @ held s2 (b, c)"
      using 2(5) that by (simp add: cells_def)
    moreover have "held s (b, c) @ sub_frame 0 (aec_frame dm nc frame ! b ! c) = View blk1 b c @ held s1 (b, c)"
      "held s2 (b, c) = samples (b, c) blks @ held s3 (b, c)"
      using 1(5) 3(4) that by (simp_all add: cells_def)
    ultimately show ?thesis by simp
  qed
  moreover have "buffer_frame buffer dm nb nc frame s = Some (frame2, s3)"
    by (simp add: buffer_frame_def 1(1) 2(1) 3(1) del: One_nat_def)
  ultimately show ?thesis using 1(3) 2(2,3) 3(2,3)
    by (intro exI[of _ frame2] exI[of _ s3] exI[of _ "blk1 # blk2 # blks"]) (simp add: cells_def)
qed

lemma sink_frames:
  assumes "\<not> closed" "parts_ok l h s" "l \<in> {0, 32}" "nc = 1 \<or> nc = ni" "0 < ni" "list_all (\<lambda>(dm, f). wf_frame nb ni f) fs"
  shows "\<exists>s' blks. \<exists>l'\<in>{0, 32}. buffer_frames buffer nb nc fs s = Some s' \<and> list_all (wf_block nb nc) blks \<and> parts_ok l' (rev blks @ h) s' \<and>
    cells nb nc (\<lambda>b c. held s (b, c) @ aec_samples nc fs (b, c) = samples (b, c) blks @ held s' (b, c))"
  using assms(2,3,6)
proof (induction fs arbitrary: s h l)
  case Nil
  then show ?case by (intro exI[of _ s] exI[of _ "[]"] bexI[of _ l]) (simp_all add: cells_def)
next
  case (Cons x fs)
  obtain dm f where x: "x = (dm, f)" by fastforce
  have f: "wf_frame nb ni f" and fs: "list_all (\<lambda>(dm, f). wf_frame nb ni f) fs" using Cons.prems(3) x by simp_all
  obtain f' s1 blks1 where 1: "buffer_frame buffer dm nb nc f s = Some (f', s1)" "list_all (wf_block nb nc) blks1" "parts_ok (32 - l) (rev blks1 @ h) s1"
    "cells nb nc (\<lambda>b c. held s (b, c) @ aec_frame dm nc f ! b ! c = samples (b, c) blks1 @ held s1 (b, c))"
    using sink_frame[OF assms(1) Cons.prems(1,2) f assms(4,5), of dm] by (elim exE conjE) (rule that)
  have "32 - l \<in> {0, 32}" using Cons.prems(2) by auto
  from Cons.IH[OF 1(3) this fs] obtain s' blks l' where 2: "l' \<in> {0, 32}" "buffer_frames buffer nb nc fs s1 = Some s'" "list_all (wf_block nb nc) blks"
    "parts_ok l' (rev blks @ rev blks1 @ h) s'"
    "cells nb nc (\<lambda>b c. held s1 (b, c) @ aec_samples nc fs (b, c) = samples (b, c) blks @ held s' (b, c))"
    by (elim exE conjE bexE) (rule that)
  have "held s (b, c) @ aec_samples nc ((dm, f) # fs) (b, c) = samples (b, c) (blks1 @ blks) @ held s' (b, c)" if "b < nb" "c < nc" for b c
  proof -
    have "held s (b, c) @ aec_frame dm nc f ! b ! c = samples (b, c) blks1 @ held s1 (b, c)"
      "held s1 (b, c) @ aec_samples nc fs (b, c) = samples (b, c) blks @ held s' (b, c)"
      using 1(4) 2(5) that by (simp_all add: cells_def)
    moreover have "held s (b, c) @ aec_samples nc ((dm, f) # fs) (b, c) = (held s (b, c) @ aec_frame dm nc f ! b ! c) @ aec_samples nc fs (b, c)"
      by simp
    ultimately show ?thesis by simp
  qed
  then show ?case
    using 1(1,2) 2(1-4) x by (intro exI[of _ s'] exI[of _ "blks1 @ blks"] bexI[of _ l']) (simp_all add: cells_def)
qed

end

section \<open>The frames reach the processor as blocks\<close>

fun feed :: "'p buffer_render \<Rightarrow> rat block list \<Rightarrow> 'p \<Rightarrow> 'p option" where
  "feed buffer [] p = Some p"
| "feed buffer (blk # blks) p = do { p \<leftarrow> buffer blk p; feed buffer blks p }"

lemma feed_append: "feed buffer (xs @ ys) p = do { p \<leftarrow> feed buffer xs p; feed buffer ys p }"
  by (induction xs arbitrary: p) (auto split: bind_splits)

definition fed :: "'p buffer_render \<Rightarrow> nat \<Rightarrow> nat \<Rightarrow> 'p \<Rightarrow> rat block list \<Rightarrow> 'p \<Rightarrow> bool" where
  "fed buffer nb nc p0 h p \<longleftrightarrow> 0 < nb \<and> 0 < nc \<and> (\<forall>blk p. wf_block nb nc blk \<longrightarrow> buffer blk p \<noteq> None) \<and> feed buffer (rev h) p0 = Some p"

interpretation fed: block_sink buffer "fed buffer nb nc p0" nb nc False
  for buffer :: "'p buffer_render" and nb nc and p0 :: 'p
  by unfold_locales (fastforce simp: fed_def feed_append)+

lemma new_frame_blocker_ok: "blocker_ok nb nc 0 (new_frame_blocker nb nc)"
  by (auto simp: blocker_ok_def new_frame_blocker_def shaped_def cells_def)

lemma fresh_block_wf: "wf_block nb nc (new_block nb nc x)"
  by (simp add: wf_block_def new_block_def)

text \<open>
  C14: The render path refines its abstract specification. Frames of two halves of 80 samples come
  in, with as many channels as the queue has; the block processor gets blocks of 64 samples. In
  each band and channel the samples of these blocks, followed by those the blocker still holds,
  are the samples of the frames in order: those of the channel itself, or of the first channel, or
  the average of the channels where the canceller works in mono and the frame asks for a mix.
\<close>
theorem render_path_blockwise:
  assumes "\<forall>blk p. wf_block nb nc blk \<longrightarrow> buffer blk p \<noteq> None" "0 < nb" "0 < ni" "nc = 1 \<or> nc = ni"
    "list_all (\<lambda>(downmix, frame). Aec3RenderQueueItemVerifier nb ni kSplitBandSize frame) frames"
  shows "\<exists>blocker p' blk blks. buffer_frames buffer nb nc frames (new_frame_blocker nb nc, p, new_block nb nc 0) = Some (blocker, p', blk) \<and>
    feed buffer blks p = Some p' \<and> list_all (wf_block nb nc) blks \<and>
    cells nb nc (\<lambda>b c. aec_samples nc frames (b, c) = samples (b, c) blks @ fb_buffer blocker ! b ! c \<and>
                       length (fb_buffer blocker ! b ! c) \<in> {0, 32})"
proof -
  let ?s = "(new_frame_blocker nb nc, p, new_block nb nc 0)"
  have "fed.parts_ok buffer nb nc p 0 [] ?s"
    using assms new_frame_blocker_ok fresh_block_wf by (auto simp: fed.parts_ok_def fed_def)
  moreover have "list_all (\<lambda>(dm, f). wf_frame nb ni f) frames" using assms(5) by (simp add: verifier_wf)
  moreover have "0 \<in> {0, 32 :: nat}" by simp
  ultimately have "\<exists>s' blks. \<exists>l'\<in>{0, 32}. buffer_frames buffer nb nc frames ?s = Some s' \<and> list_all (wf_block nb nc) blks \<and>
      fed.parts_ok buffer nb nc p l' (rev blks @ []) s' \<and>
      cells nb nc (\<lambda>b c. fed.held ?s (b, c) @ aec_samples nc frames (b, c) = samples (b, c) blks @ fed.held s' (b, c))"
    by (intro fed.sink_frames[OF _ _ _ assms(4,3)]) (assumption | simp)+
  then obtain s' blks l' where r: "l' \<in> {0, 32}" "buffer_frames buffer nb nc frames ?s = Some s'" "list_all (wf_block nb nc) blks"
    "fed.parts_ok buffer nb nc p l' (rev blks @ []) s'"
    "cells nb nc (\<lambda>b c. fed.held ?s (b, c) @ aec_samples nc frames (b, c) = samples (b, c) blks @ fed.held s' (b, c))"
    by (elim exE bexE conjE) (rule that)
  obtain blocker p' blk where s': "s' = (blocker, p', blk)" by (cases s')
  have "fed.held ?s (b, c) = []" if "b < nb" "c < nc" for b c
    using that by (simp add: new_frame_blocker_def fed.held_def)
  then have "cells nb nc (\<lambda>b c. aec_samples nc frames (b, c) = samples (b, c) blks @ fb_buffer blocker ! b ! c)"
    using r(5) by (auto simp: cells_def s' fed.held_def)
  moreover have "blocker_ok nb nc l' blocker" "feed buffer blks p = Some p'" using r(4) by (simp_all add: s' fed.parts_ok_def fed_def)
  ultimately show ?thesis
    using r(1-3) s' by (intro exI conjI) (auto simp: cells_def blocker_ok_def)
qed

theorem render_path_blockwise_witness:
  "\<exists>blocker p' blk blks. buffer_frames (\<lambda>blk p. Some (Suc p)) 1 1 [(False, [[replicate 160 7, replicate 160 9]])]
      (new_frame_blocker 1 1, 0, new_block 1 1 0) = Some (blocker, p', blk) \<and>
    feed (\<lambda>blk p. Some (Suc p)) blks 0 = Some p' \<and> replicate 160 7 = samples (0, 0) blks @ fb_buffer blocker ! 0 ! 0"
  using render_path_blockwise[of 1 1 "\<lambda>blk p. Some (Suc p)" 2 "[(False, [[replicate 160 7, replicate 160 9]])]" 0]
  by (auto simp: Aec3RenderQueueItemVerifier_def kSplitBandSize_def aec_frame_def aec_band_def cells_def)

end
