(* ===== verification/Aec_Control.thy ===== *)
theory Aec_Control
  imports Prelude Aec_Config Float_Round "HOL-Library.Monad_Syntax"
begin

text \<open>
  The small state machines around the echo canceller, in
  \<^verbatim>\<open>crates/fswtch-apm-sys/cpp/modules/audio_processing/aec3/\<close>: the choice of the configuration
  (\<^verbatim>\<open>config_selector.cc\<close>), the detection of stereo render content
  (\<^verbatim>\<open>multi_channel_content_detector.cc\<close>), the metrics of the order of the API calls
  (\<^verbatim>\<open>api_call_jitter_metrics.cc\<close>), the detection of clock drift (\<^verbatim>\<open>clockdrift_detector.cc\<close>) and
  the metrics of the block processor (\<^verbatim>\<open>block_processor_metrics.cc\<close>). A histogram the code
  reports to is a result of the operation. Counters are unbounded integers; the code's would
  overflow after \<open>2 ^ 31\<close> frames.
\<close>

section \<open>\<^verbatim>\<open>ConfigSelector\<close>\<close>

definition CompatibleConfigs :: "aec3_config \<Rightarrow> aec3_config \<Rightarrow> bool" where
  "CompatibleConfigs mono_config multichannel_config =
     (if fixed_capture_delay_samples (cfg_delay mono_config) \<noteq> fixed_capture_delay_samples (cfg_delay multichannel_config) then False
      else if export_linear_aec_output (cfg_filter mono_config) \<noteq> export_linear_aec_output (cfg_filter multichannel_config) then False
      else if high_pass_filter_echo_reference (cfg_filter mono_config) \<noteq> high_pass_filter_echo_reference (cfg_filter multichannel_config) then False
      else if detect_stereo_content (cfg_multi_channel mono_config) \<noteq> detect_stereo_content (cfg_multi_channel multichannel_config) then False
      else if stereo_detection_timeout_threshold_seconds (cfg_multi_channel mono_config) \<noteq>
              stereo_detection_timeout_threshold_seconds (cfg_multi_channel multichannel_config) then False
      else True)"

record config_selector =
  sel_config :: aec3_config
  sel_multichannel_config :: "aec3_config option"
  active_config :: aec3_config

definition ConfigSelector_Update :: "bool \<Rightarrow> config_selector \<Rightarrow> config_selector" where
  "ConfigSelector_Update multichannel_content s =
     (case sel_multichannel_config s of
        Some c \<Rightarrow> if multichannel_content then s\<lparr>active_config := c\<rparr> else s\<lparr>active_config := sel_config s\<rparr>
      | None \<Rightarrow> s\<lparr>active_config := sel_config s\<rparr>)"

definition new_config_selector :: "aec3_config \<Rightarrow> aec3_config option \<Rightarrow> nat \<Rightarrow> config_selector option" where
  "new_config_selector config multichannel_config num_render_input_channels =
     (if (case multichannel_config of Some c \<Rightarrow> \<not> CompatibleConfigs config c | None \<Rightarrow> False) then None
      else Some (ConfigSelector_Update (\<not> detect_stereo_content (cfg_multi_channel config) \<and> num_render_input_channels > 1)
             \<lparr>sel_config = config, sel_multichannel_config = multichannel_config, active_config = config\<rparr>))"

section \<open>\<^verbatim>\<open>MultiChannelContentDetector\<close>\<close>

definition HasStereoContent :: "rat list list list \<Rightarrow> cfloat \<Rightarrow> bool" where
  "HasStereoContent frame threshold =
     (if length (frame ! 0) < 2 then False
      else list_ex (\<lambda>band. list_ex (\<lambda>k. cf_less threshold (Finite \<bar>f32 (band ! 0 ! k - band ! 1 ! k)\<bar>)) [0..<length (band ! 0)]) frame)"

definition kNumFramesPerSecond :: int where "kNumFramesPerSecond = 100"
definition kMinNumberOfFramesRequiredToLogMetrics :: int where "kMinNumberOfFramesRequiredToLogMetrics = 500"
definition kFramesPer10Seconds :: int where "kFramesPer10Seconds = 1000"

record metrics_logger =
  frame_counter :: int
  persistent_multichannel_frame_counter :: int
  any_multichannel_content_detected :: bool

definition new_metrics_logger :: metrics_logger where
  "new_metrics_logger = \<lparr>frame_counter = 0, persistent_multichannel_frame_counter = 0, any_multichannel_content_detected = False\<rparr>"

text \<open>The second result is what \<^verbatim>\<open>ProcessingPersistentMultichannelContent\<close> is reported as.\<close>

definition MetricsLogger_Update :: "bool \<Rightarrow> metrics_logger \<Rightarrow> metrics_logger \<times> bool option" where
  "MetricsLogger_Update detected m =
     (let m = m\<lparr>frame_counter := frame_counter m + 1\<rparr>;
          m = (if detected then m\<lparr>any_multichannel_content_detected := True,
                 persistent_multichannel_frame_counter := persistent_multichannel_frame_counter m + 1\<rparr> else m)
      in if frame_counter m < kMinNumberOfFramesRequiredToLogMetrics then (m, None)
         else if cmodi (frame_counter m) kFramesPer10Seconds \<noteq> 0 then (m, None)
         else (m\<lparr>persistent_multichannel_frame_counter := 0\<rparr>,
               Some (persistent_multichannel_frame_counter m \<ge> cdivi kFramesPer10Seconds 2)))"

text \<open>The report at the end of the life of the object.\<close>

definition MetricsLogger_final :: "metrics_logger \<Rightarrow> bool option" where
  "MetricsLogger_final m =
     (if frame_counter m < kMinNumberOfFramesRequiredToLogMetrics then None else Some (any_multichannel_content_detected m))"

record content_detector =
  md_detect_stereo_content :: bool
  md_detection_threshold :: cfloat
  detection_timeout_threshold_frames :: "int option"
  stereo_detection_hysteresis_frames :: int
  md_metrics_logger :: "metrics_logger option"
  persistent_multichannel_content_detected :: bool
  temporary_multichannel_content_detected :: bool
  frames_since_stereo_detected_last :: int
  consecutive_frames_with_stereo :: int

text \<open>
  The timeout in frames is a product of \<^verbatim>\<open>int\<close>s and the hysteresis a \<^verbatim>\<open>float\<close> converted to
  \<^verbatim>\<open>int\<close>. Neither is limited by the validation of the configuration; outside \<^verbatim>\<open>int\<close> both are
  undefined in C, and their low 32 bits here. The conversion of an infinite hysteresis is
  undefined as well, and is \<^const>\<open>None\<close>. The counters of frames are not bounded: an \<^verbatim>\<open>int\<close>
  holds 248 days of frames.
\<close>

definition new_content_detector :: "bool \<Rightarrow> nat \<Rightarrow> cfloat \<Rightarrow> int \<Rightarrow> cfloat \<Rightarrow> content_detector option" where
  "new_content_detector detect channels threshold timeout_seconds hysteresis_seconds =
     (case hysteresis_seconds of
        Finite h \<Rightarrow> Some
          \<lparr>md_detect_stereo_content = detect, md_detection_threshold = threshold,
           detection_timeout_threshold_frames = (if timeout_seconds > 0 then Some (cast_i32 (timeout_seconds * kNumFramesPerSecond)) else None),
           stereo_detection_hysteresis_frames = cast_i32 (trunc (f32 (h * of_int kNumFramesPerSecond))),
           md_metrics_logger = (if detect \<and> channels > 1 then Some new_metrics_logger else None),
           persistent_multichannel_content_detected = (\<not> detect \<and> channels > 1),
           temporary_multichannel_content_detected = False,
           frames_since_stereo_detected_last = 0, consecutive_frames_with_stereo = 0\<rparr>
      | _ \<Rightarrow> None)"

definition UpdateDetection :: "rat list list list \<Rightarrow> content_detector \<Rightarrow> (content_detector \<times> bool) option" where
  "UpdateDetection frame d =
     (if \<not> md_detect_stereo_content d
      then if (length (frame ! 0) > 1) = persistent_multichannel_content_detected d then Some (d, False) else None
      else (let previous = persistent_multichannel_content_detected d;
                stereo = HasStereoContent frame (md_detection_threshold d);
                d = d\<lparr>consecutive_frames_with_stereo := if stereo then consecutive_frames_with_stereo d + 1 else 0\<rparr>;
                d = d\<lparr>frames_since_stereo_detected_last := if stereo then 0 else frames_since_stereo_detected_last d + 1\<rparr>;
                d = (if consecutive_frames_with_stereo d > stereo_detection_hysteresis_frames d
                     then d\<lparr>persistent_multichannel_content_detected := True\<rparr> else d);
                d = (case detection_timeout_threshold_frames d of
                       Some t \<Rightarrow> if frames_since_stereo_detected_last d \<ge> t
                                 then d\<lparr>persistent_multichannel_content_detected := False\<rparr> else d
                     | None \<Rightarrow> d);
                d = d\<lparr>temporary_multichannel_content_detected :=
                        if persistent_multichannel_content_detected d then False else stereo\<rparr>;
                d = (case md_metrics_logger d of
                       Some m \<Rightarrow> d\<lparr>md_metrics_logger := Some (fst (MetricsLogger_Update (persistent_multichannel_content_detected d) m))\<rparr>
                     | None \<Rightarrow> d)
            in Some (d, previous \<noteq> persistent_multichannel_content_detected d)))"

section \<open>\<^verbatim>\<open>ApiCallJitterMetrics\<close>\<close>

record jitter =
  jitter_max :: int
  jitter_min :: int

definition int_max :: int where "int_max = 2147483647"

definition new_jitter :: jitter where "new_jitter = \<lparr>jitter_max = 0, jitter_min = int_max\<rparr>"

definition Jitter_Update :: "int \<Rightarrow> jitter \<Rightarrow> jitter" where
  "Jitter_Update n j = (let j = j\<lparr>jitter_min := min (jitter_min j) n\<rparr> in j\<lparr>jitter_max := max (jitter_max j) n\<rparr>)"

definition Jitter_Reset :: "jitter \<Rightarrow> jitter" where
  "Jitter_Reset j = j\<lparr>jitter_min := int_max, jitter_max := 0\<rparr>"

record jitter_metrics =
  render_jitter :: jitter
  capture_jitter :: jitter
  num_api_calls_in_a_row :: int
  frames_since_last_report :: int
  last_call_was_render :: bool
  proper_call_observed :: bool

definition JitterMetrics_Reset :: "jitter_metrics \<Rightarrow> jitter_metrics" where
  "JitterMetrics_Reset m = m\<lparr>render_jitter := Jitter_Reset (render_jitter m), capture_jitter := Jitter_Reset (capture_jitter m),
     num_api_calls_in_a_row := 0, frames_since_last_report := 0, last_call_was_render := False, proper_call_observed := False\<rparr>"

definition new_jitter_metrics :: jitter_metrics where
  "new_jitter_metrics = JitterMetrics_Reset
     \<lparr>render_jitter = new_jitter, capture_jitter = new_jitter, num_api_calls_in_a_row = 0, frames_since_last_report = 0,
      last_call_was_render = False, proper_call_observed = False\<rparr>"

definition TimeToReportMetrics :: "int \<Rightarrow> bool" where
  "TimeToReportMetrics frames \<longleftrightarrow> frames = 10 * 100"

definition ReportRenderCall :: "jitter_metrics \<Rightarrow> jitter_metrics" where
  "ReportRenderCall m =
     (let m = (if \<not> last_call_was_render m
               then (let m = (if proper_call_observed m
                              then m\<lparr>capture_jitter := Jitter_Update (num_api_calls_in_a_row m) (capture_jitter m)\<rparr> else m)
                     in m\<lparr>num_api_calls_in_a_row := 0\<rparr>)
               else m)
      in m\<lparr>num_api_calls_in_a_row := num_api_calls_in_a_row m + 1, last_call_was_render := True\<rparr>)"

text \<open>The reported values: maximum and minimum for the render calls, then for the capture calls.\<close>

definition ReportCaptureCall :: "jitter_metrics \<Rightarrow> jitter_metrics \<times> int list option" where
  "ReportCaptureCall m =
     (let m = (if last_call_was_render m
               then (let m = (if proper_call_observed m
                              then m\<lparr>render_jitter := Jitter_Update (num_api_calls_in_a_row m) (render_jitter m)\<rparr> else m)
                     in m\<lparr>num_api_calls_in_a_row := 0, proper_call_observed := True\<rparr>)
               else m);
          m = m\<lparr>num_api_calls_in_a_row := num_api_calls_in_a_row m + 1, last_call_was_render := False\<rparr>
      in if \<not> proper_call_observed m then (m, None)
         else (let m = m\<lparr>frames_since_last_report := frames_since_last_report m + 1\<rparr>
               in if TimeToReportMetrics (frames_since_last_report m)
                  then (JitterMetrics_Reset (m\<lparr>frames_since_last_report := 0\<rparr>),
                        Some (map (min 50) [jitter_max (render_jitter m), jitter_min (render_jitter m),
                                            jitter_max (capture_jitter m), jitter_min (capture_jitter m)]))
                  else (m, None)))"

definition WillReportMetricsAtNextCapture :: "jitter_metrics \<Rightarrow> bool" where
  "WillReportMetricsAtNextCapture m = TimeToReportMetrics (frames_since_last_report m + 1)"

section \<open>\<^verbatim>\<open>ClockdriftDetector\<close>\<close>

datatype drift_level = DriftNone | DriftProbable | DriftVerified

record clockdrift_detector =
  delay_history :: "int list"
  drift_level :: drift_level
  stability_counter :: nat

definition new_clockdrift_detector :: clockdrift_detector where
  "new_clockdrift_detector = \<lparr>delay_history = [0, 0, 0], drift_level = DriftNone, stability_counter = 0\<rparr>"

definition Clockdrift_Update :: "int \<Rightarrow> clockdrift_detector \<Rightarrow> clockdrift_detector" where
  "Clockdrift_Update delay_estimate c =
     (if delay_estimate = delay_history c ! 0
      then (let c = c\<lparr>stability_counter := stability_counter c + 1\<rparr>
            in if stability_counter c > 7500 then c\<lparr>drift_level := DriftNone\<rparr> else c)
      else (let c = c\<lparr>stability_counter := 0\<rparr>;
                d1 = delay_history c ! 0 - delay_estimate;
                d2 = delay_history c ! 1 - delay_estimate;
                d3 = delay_history c ! 2 - delay_estimate;
                probable_drift_up = (d1 = -1 \<and> d2 = -2 \<or> d1 = -2 \<and> d2 = -1);
                drift_up = (probable_drift_up \<and> d3 = -3);
                probable_drift_down = (d1 = 1 \<and> d2 = 2 \<or> d1 = 2 \<and> d2 = 1);
                drift_down = (probable_drift_down \<and> d3 = 3);
                c = (if drift_up \<or> drift_down then c\<lparr>drift_level := DriftVerified\<rparr>
                     else if (probable_drift_up \<or> probable_drift_down) \<and> drift_level c = DriftNone
                     then c\<lparr>drift_level := DriftProbable\<rparr> else c)
            in c\<lparr>delay_history := [delay_estimate, delay_history c ! 0, delay_history c ! 1]\<rparr>))"

section \<open>\<^verbatim>\<open>BlockProcessorMetrics\<close>\<close>

definition kMetricsReportingIntervalBlocks :: int where "kMetricsReportingIntervalBlocks = 10 * 250"

datatype underrun_category = UrNone | UrFew | UrSeveral | UrMany | UrConstant

record block_metrics =
  capture_block_counter :: int
  metrics_reported :: bool
  render_buffer_underruns :: int
  render_buffer_overruns :: int
  buffer_render_calls :: int

definition new_block_metrics :: block_metrics where
  "new_block_metrics = \<lparr>capture_block_counter = 0, metrics_reported = False, render_buffer_underruns = 0,
     render_buffer_overruns = 0, buffer_render_calls = 0\<rparr>"

definition ResetMetrics :: "block_metrics \<Rightarrow> block_metrics" where
  "ResetMetrics m = m\<lparr>render_buffer_underruns := 0, render_buffer_overruns := 0, buffer_render_calls := 0\<rparr>"

text \<open>Both enumerations have the same constants, and the code derives both values in the same way.\<close>

definition event_category :: "int \<Rightarrow> int \<Rightarrow> underrun_category" where
  "event_category events calls =
     (if events = 0 then UrNone else if events > drop_bit 1 calls then UrConstant
      else if events > 100 then UrMany else if events > 10 then UrSeveral else UrFew)"

definition UpdateCapture :: "bool \<Rightarrow> block_metrics \<Rightarrow> block_metrics \<times> (underrun_category \<times> underrun_category) option" where
  "UpdateCapture underrun m =
     (let m = m\<lparr>capture_block_counter := capture_block_counter m + 1\<rparr>;
          m = (if underrun then m\<lparr>render_buffer_underruns := render_buffer_underruns m + 1\<rparr> else m)
      in if capture_block_counter m = kMetricsReportingIntervalBlocks
         then (let m = m\<lparr>metrics_reported := True\<rparr>
               in ((ResetMetrics m)\<lparr>capture_block_counter := 0\<rparr>,
                   Some (event_category (render_buffer_underruns m) (capture_block_counter m),
                         event_category (render_buffer_overruns m) (buffer_render_calls m))))
         else (m\<lparr>metrics_reported := False\<rparr>, None))"

definition UpdateRender :: "bool \<Rightarrow> block_metrics \<Rightarrow> block_metrics" where
  "UpdateRender overrun m =
     (let m = m\<lparr>buffer_render_calls := buffer_render_calls m + 1\<rparr>
      in if overrun then m\<lparr>render_buffer_overruns := render_buffer_overruns m + 1\<rparr> else m)"

section \<open>Facts about the detection of stereo\<close>

text \<open>The length of the run of \<open>b\<close> at the end of a history.\<close>

definition run_len :: "bool \<Rightarrow> bool list \<Rightarrow> nat" where
  "run_len b bs = length (takeWhile ((=) b) (rev bs))"

lemma run_len_simps [simp]:
  "run_len b [] = 0" "run_len b (bs @ [c]) = (if c = b then Suc (run_len b bs) else 0)"
  by (auto simp: run_len_def)

text \<open>
  The contract of the detector: stereo persists when at some time there have been more than \<open>h\<close>
  stereo frames in a row and since then never as many as \<open>T\<close> frames in a row without stereo.
\<close>

definition no_timeout :: "int option \<Rightarrow> bool list \<Rightarrow> bool" where
  "no_timeout T bs \<longleftrightarrow> (case T of None \<Rightarrow> True | Some t \<Rightarrow> int (run_len False bs) < t)"

definition stereo_persists :: "int \<Rightarrow> int option \<Rightarrow> bool list \<Rightarrow> bool" where
  "stereo_persists h T bs \<longleftrightarrow>
     (\<exists>k\<le>length bs. int (run_len True (take k bs)) > h \<and> (\<forall>j. k \<le> j \<and> j \<le> length bs \<longrightarrow> no_timeout T (take j bs)))"

lemma stereo_persists_snoc:
  "stereo_persists h T (bs @ [b]) \<longleftrightarrow>
     (stereo_persists h T bs \<or> int (run_len True (bs @ [b])) > h) \<and> no_timeout T (bs @ [b])" (is "?L \<longleftrightarrow> ?R")
proof
  assume ?L
  then obtain k where k: "k \<le> Suc (length bs)" "int (run_len True (take k (bs @ [b]))) > h"
    "\<And>j. k \<le> j \<Longrightarrow> j \<le> Suc (length bs) \<Longrightarrow> no_timeout T (take j (bs @ [b]))"
    unfolding stereo_persists_def by auto
  have "no_timeout T (bs @ [b])" using k(3)[of "Suc (length bs)"] k(1) by simp
  moreover have "stereo_persists h T bs \<or> int (run_len True (bs @ [b])) > h"
  proof (cases "k = Suc (length bs)")
    case False
    have "no_timeout T (take j bs)" if "k \<le> j" "j \<le> length bs" for j using k(3)[of j] that by simp
    then show ?thesis using False k(1,2) unfolding stereo_persists_def by (intro disjI1 exI[of _ k]) simp
  qed (use k in simp)
  ultimately show ?R by simp
next
  assume R: ?R
  show ?L
  proof (cases "stereo_persists h T bs")
    case True
    then obtain k where k: "k \<le> length bs" "int (run_len True (take k bs)) > h"
      "\<And>j. k \<le> j \<Longrightarrow> j \<le> length bs \<Longrightarrow> no_timeout T (take j bs)"
      unfolding stereo_persists_def by auto
    have "no_timeout T (take j (bs @ [b]))" if "k \<le> j" "j \<le> Suc (length bs)" for j
      using that k(3)[of j] R by (cases "j = Suc (length bs)") simp_all
    then show ?thesis using k unfolding stereo_persists_def by (intro exI[of _ k]) simp
  next
    case False
    show ?thesis unfolding stereo_persists_def
    proof (intro exI[of _ "Suc (length bs)"] conjI allI impI)
      fix j
      assume "Suc (length bs) \<le> j \<and> j \<le> length (bs @ [b])"
      then have "j = length (bs @ [b])" by simp
      then show "no_timeout T (take j (bs @ [b]))" using R by (simp only: take_all)
    qed (use R False in simp_all)
  qed
qed

definition detector_inv :: "cfloat \<Rightarrow> int \<Rightarrow> int option \<Rightarrow> bool list \<Rightarrow> content_detector \<Rightarrow> bool" where
  "detector_inv thr h T flags d \<longleftrightarrow>
     md_detect_stereo_content d \<and> md_detection_threshold d = thr \<and> stereo_detection_hysteresis_frames d = h \<and>
     detection_timeout_threshold_frames d = T \<and>
     consecutive_frames_with_stereo d = int (run_len True flags) \<and>
     frames_since_stereo_detected_last d = int (run_len False flags) \<and>
     persistent_multichannel_content_detected d = stereo_persists h T flags \<and>
     temporary_multichannel_content_detected d = (flags \<noteq> [] \<and> last flags \<and> \<not> stereo_persists h T flags)"

lemma UpdateDetection_inv:
  assumes "detector_inv thr h T flags d"
  shows "\<exists>d'. UpdateDetection frame d = Some (d', stereo_persists h T flags \<noteq> stereo_persists h T (flags @ [HasStereoContent frame thr])) \<and>
    detector_inv thr h T (flags @ [HasStereoContent frame thr]) d'"
  using assms
  by (auto simp: UpdateDetection_def detector_inv_def Let_def stereo_persists_snoc no_timeout_def not_less split: option.splits)

text \<open>Frames one after the other; the results say where the detection changed.\<close>

fun detect_frames :: "rat list list list list \<Rightarrow> content_detector \<Rightarrow> (content_detector \<times> bool list) option" where
  "detect_frames [] d = Some (d, [])"
| "detect_frames (frame # frames) d = do {
     (d, changed) \<leftarrow> UpdateDetection frame d;
     (d, changes) \<leftarrow> detect_frames frames d;
     Some (d, changed # changes) }"

lemma detect_frames_inv:
  "detector_inv thr h T flags d \<Longrightarrow>
   \<exists>d' changes. detect_frames frames d = Some (d', changes) \<and>
     detector_inv thr h T (flags @ map (\<lambda>f. HasStereoContent f thr) frames) d'"
proof (induction frames arbitrary: flags d)
  case (Cons frame frames)
  obtain d1 c where 1: "UpdateDetection frame d = Some (d1, c)" "detector_inv thr h T (flags @ [HasStereoContent frame thr]) d1"
    using UpdateDetection_inv[OF Cons.prems, of frame] by blast
  from Cons.IH[OF 1(2)] 1(1) show ?case by auto
qed simp

text \<open>The timeout and the hysteresis are an \<^verbatim>\<open>int\<close> in frames, and the hysteresis is not negative.\<close>

definition detector_setup :: "int \<Rightarrow> rat \<Rightarrow> bool" where
  "detector_setup timeout s \<longleftrightarrow> timeout \<le> 21474836 \<and> 0 \<le> trunc (f32 (s * 100)) \<and> trunc (f32 (s * 100)) \<le> INT_MAX"

lemma new_detector_inv:
  assumes "new_content_detector True channels thr timeout (Finite s) = Some d" "detector_setup timeout s"
  shows "detector_inv thr (trunc (f32 (s * 100))) (if 0 < timeout then Some (timeout * 100) else None) [] d"
  using assms cast_i32_id[of "timeout * 100"] cast_i32_id[of "trunc (f32 (s * 100))"]
  by (auto simp: new_content_detector_def detector_setup_def cval detector_inv_def kNumFramesPerSecond_def stereo_persists_def no_timeout_def split: if_splits)

text \<open>
  C18: A detector that looks for stereo handles every sequence of frames, and after it takes the
  content for multichannel exactly when at some time more frames in a row than the hysteresis had
  stereo and since then there was no timeout; otherwise the last frame decides alone. The timeout
  is at most 21474836 seconds and the hysteresis not negative, so that both are an \<^verbatim>\<open>int\<close> in
  frames, and there are at most \<^verbatim>\<open>INT_MAX\<close> frames.
\<close>
theorem multichannel_detection:
  assumes "new_content_detector True channels thr timeout (Finite s) = Some d" "detector_setup timeout s"
    and "int (length frames) \<le> INT_MAX"
  shows "\<exists>d' changes. detect_frames frames d = Some (d', changes) \<and>
    (let flags = map (\<lambda>f. HasStereoContent f thr) frames;
         persists = stereo_persists (trunc (f32 (s * 100))) (if 0 < timeout then Some (timeout * 100) else None) flags
     in persistent_multichannel_content_detected d' = persists \<and>
        temporary_multichannel_content_detected d' = (frames \<noteq> [] \<and> last flags \<and> \<not> persists))"
  using detect_frames_inv[OF new_detector_inv[OF assms(1,2)], of frames]
  by (auto simp: detector_inv_def Let_def)

theorem multichannel_detection_witness:
  "\<exists>d d' changes. new_content_detector True 2 (Finite 0) 300 (Finite 0) = Some d \<and>
     detect_frames [[[[1], [2]]], [[[1], [1]]]] d = Some (d', changes) \<and> persistent_multichannel_content_detected d'"
proof -
  obtain d where d: "new_content_detector True 2 (Finite 0) 300 (Finite 0) = Some d"
    by (simp add: new_content_detector_def)
  have f: "map (\<lambda>f. HasStereoContent f (Finite 0)) [[[[1], [2]]], [[[1], [1]]]] = [True, False]"
    by (simp add: HasStereoContent_def f32_of_int[of "- 1", simplified])
  have "stereo_persists 0 (Some 30000) [True, False]"
    using stereo_persists_snoc[of 0 "Some 30000" "[True]" False] stereo_persists_snoc[of 0 "Some 30000" "[]" True]
    by (simp add: no_timeout_def run_len_def)
  moreover have "detector_setup 300 0" "trunc (f32 (0 * 100)) = 0" by (simp_all add: detector_setup_def trunc_def cval)
  ultimately show ?thesis
    using multichannel_detection[OF d, of "[[[[1], [2]]], [[[1], [1]]]]"] d unfolding f by (auto simp: Let_def cval)
qed

text \<open>
  The bound on the timeout is needed: from 21474837 seconds on the product is not an \<^verbatim>\<open>int\<close>. With
  two's complement it is negative, and the detector then never takes any content for multichannel.
\<close>
lemma timeout_overflows:
  assumes "new_content_detector True channels thr 21474837 (Finite s) = Some d"
  shows "detection_timeout_threshold_frames d = Some (- 2147483596)"
    "UpdateDetection frame d = Some (d', changed) \<Longrightarrow> \<not> persistent_multichannel_content_detected d'"
proof -
  show t: "detection_timeout_threshold_frames d = Some (- 2147483596)"
    using assms by (auto simp: new_content_detector_def kNumFramesPerSecond_def cast_i32_def)
  have "md_detect_stereo_content d" "frames_since_stereo_detected_last d = 0"
    using assms by (auto simp: new_content_detector_def)
  with t show "UpdateDetection frame d = Some (d', changed) \<Longrightarrow> \<not> persistent_multichannel_content_detected d'"
    by (auto simp: UpdateDetection_def Let_def split: option.splits if_splits)
qed

section \<open>Facts about the metrics of the API calls\<close>

text \<open>The runs of equal calls, the newest first.\<close>

definition add_call :: "bool \<Rightarrow> (bool \<times> int) list \<Rightarrow> (bool \<times> int) list" where
  "add_call c rs = (case rs of (r, n) # rs' \<Rightarrow> if r = c then (r, n + 1) # rs' else (c, 1) # rs | [] \<Rightarrow> [(c, 1)])"

definition call_runs :: "bool list \<Rightarrow> (bool \<times> int) list" where
  "call_runs calls = foldl (\<lambda>rs c. add_call c rs) [] calls"

lemma call_runs_simps [simp]: "call_runs [] = []" "call_runs (cs @ [c]) = add_call c (call_runs cs)"
  by (simp_all add: call_runs_def)

text \<open>
  The runs that count: those that have ended, after the first run of render calls. Runs before
  the first one followed by a capture call say nothing about the order of the two.
\<close>

definition counted_runs :: "(bool \<times> int) list \<Rightarrow> (bool \<times> int) list" where
  "counted_runs rs = tl (dropWhile (\<lambda>(r, n). \<not> r) (rev (tl rs)))"

definition jitter_of :: "int list \<Rightarrow> jitter" where
  "jitter_of ns = \<lparr>jitter_max = fold max ns 0, jitter_min = fold min ns int_max\<rparr>"

lemma jitter_of_simps [simp]: "jitter_of [] = new_jitter" "jitter_of (ns @ [n]) = Jitter_Update n (jitter_of ns)"
  by (simp_all add: jitter_of_def new_jitter_def Jitter_Update_def min.commute max.commute)

definition proper :: "(bool \<times> int) list \<Rightarrow> bool" where
  "proper rs \<longleftrightarrow> list_ex fst (tl rs)"

lemma counted_runs_push:
  "counted_runs (x # (r, n) # rs) = (if proper ((r, n) # rs) then counted_runs ((r, n) # rs) @ [(r, n)] else [])"
proof (cases "proper ((r, n) # rs)")
  case True
  then obtain y where y: "y \<in> set (rev rs)" "fst y" by (auto simp: proper_def list_ex_iff)
  then have d: "dropWhile (\<lambda>(r, n). \<not> r) (rev rs @ [(r, n)]) = dropWhile (\<lambda>(r, n). \<not> r) (rev rs) @ [(r, n)]"
    by (intro dropWhile_append1[of y]) (auto simp: case_prod_unfold)
  have "dropWhile (\<lambda>(r, n). \<not> r) (rev rs) \<noteq> []" using y by (auto simp: dropWhile_eq_Nil_conv case_prod_unfold)
  then show ?thesis using True by (simp add: counted_runs_def d tl_append2)
next
  case False
  then have "dropWhile (\<lambda>(r, n). \<not> r) (rev rs @ [(r, n)]) = dropWhile (\<lambda>(r, n). \<not> r) [(r, n)]"
    by (intro dropWhile_append2) (auto simp: proper_def list_ex_iff case_prod_unfold)
  then show ?thesis using False by (simp add: counted_runs_def)
qed

lemma counted_runs_grow [simp]: "counted_runs ((r, n + 1) # rs) = counted_runs ((r, n) # rs)"
  "proper ((r, n + 1) # rs) = proper ((r, n) # rs)" "proper (x # (r, n) # rs) \<longleftrightarrow> r \<or> proper ((r, n) # rs)"
  by (simp_all add: counted_runs_def proper_def)

lemma counted_runs_not_proper [simp]: "\<not> proper rs \<Longrightarrow> counted_runs rs = []"
proof -
  assume "\<not> proper rs"
  then have "dropWhile (\<lambda>(r, n). \<not> r) (rev (tl rs)) = []"
    by (auto simp: proper_def list_ex_iff dropWhile_eq_Nil_conv)
  then show ?thesis by (simp only: counted_runs_def list.sel(2))
qed

definition metrics_inv :: "bool list \<Rightarrow> (bool \<times> int) list \<Rightarrow> jitter_metrics \<Rightarrow> bool" where
  "metrics_inv calls rs m \<longleftrightarrow>
     last_call_was_render m = (rs \<noteq> [] \<and> fst (hd rs)) \<and> num_api_calls_in_a_row m = (if rs = [] then 0 else snd (hd rs)) \<and>
     proper_call_observed m = proper rs \<and>
     render_jitter m = jitter_of (map snd (filter fst (counted_runs rs))) \<and>
     capture_jitter m = jitter_of (map snd (filter (Not \<circ> fst) (counted_runs rs))) \<and>
     frames_since_last_report m \<le> int (length (filter Not calls))"

text \<open>The calls one after the other, \<open>True\<close> for a render call.\<close>

definition report_call :: "bool \<Rightarrow> jitter_metrics \<Rightarrow> jitter_metrics" where
  "report_call render m = (if render then ReportRenderCall m else fst (ReportCaptureCall m))"

lemma metrics_inv_render:
  assumes "metrics_inv calls rs m"
  shows "metrics_inv (calls @ [True]) (add_call True rs) (report_call True m)"
proof (cases rs)
  case Nil
  then show ?thesis using assms
    by (simp add: metrics_inv_def report_call_def ReportRenderCall_def add_call_def proper_def counted_runs_def)
next
  case (Cons x rs')
  then show ?thesis using assms
    by (cases x; cases "fst x"; cases "proper rs")
      (simp_all add: metrics_inv_def report_call_def ReportRenderCall_def add_call_def counted_runs_push)
qed

lemma metrics_inv_capture:
  assumes "metrics_inv calls rs m" "length (filter Not (calls @ [False])) < 1000"
  shows "metrics_inv (calls @ [False]) (add_call False rs) (report_call False m)"
proof -
  have t: "\<not> TimeToReportMetrics (frames_since_last_report m + 1)"
    using assms by (simp add: metrics_inv_def TimeToReportMetrics_def)
  show ?thesis
  proof (cases rs)
    case Nil
    then show ?thesis using assms
      by (simp add: metrics_inv_def report_call_def ReportCaptureCall_def add_call_def proper_def counted_runs_def)
  next
    case (Cons x rs')
    then show ?thesis using assms(1) t
      by (cases x; cases "fst x"; cases "proper rs")
        (simp_all add: metrics_inv_def report_call_def ReportCaptureCall_def add_call_def counted_runs_push)
  qed
qed

lemma metrics_inv_run:
  "length (filter Not calls) < 1000 \<Longrightarrow> metrics_inv calls (call_runs calls) (fold report_call calls new_jitter_metrics)"
proof (induction calls rule: rev_induct)
  case Nil
  show ?case
    by (simp add: metrics_inv_def new_jitter_metrics_def JitterMetrics_Reset_def Jitter_Reset_def new_jitter_def proper_def counted_runs_def jitter_of_def)
next
  case (snoc c calls)
  then show ?case using metrics_inv_render metrics_inv_capture by (cases c) auto
qed

text \<open>
  Until the first report the metrics hold the longest and the shortest completed run of render
  calls and of capture calls, counted from the first run of render calls that a capture call ended.
\<close>
lemma jitter_counts_runs:
  assumes "length (filter Not calls) < 1000"
  shows "let m = fold report_call calls new_jitter_metrics; rs = counted_runs (call_runs calls)
    in render_jitter m = jitter_of (map snd (filter fst rs)) \<and> capture_jitter m = jitter_of (map snd (filter (Not \<circ> fst) rs))"
  using metrics_inv_run[OF assms] by (simp add: metrics_inv_def Let_def)

theorem jitter_counts_runs_witness:
  "render_jitter (fold report_call [False, True, True, False, True, True, True, False] new_jitter_metrics) = \<lparr>jitter_max = 3, jitter_min = 3\<rparr>"
proof -
  let ?calls = "[False, True, True, False, True, True, True, False]"
  have "jitter_of (map snd (filter fst (counted_runs (call_runs ?calls)))) = \<lparr>jitter_max = 3, jitter_min = 3\<rparr>"
    by (simp add: call_runs_def add_call_def counted_runs_def jitter_of_def int_max_def)
  moreover have "render_jitter (fold report_call ?calls new_jitter_metrics) = jitter_of (map snd (filter fst (counted_runs (call_runs ?calls))))"
    using jitter_counts_runs[of ?calls] by (simp add: Let_def)
  ultimately show ?thesis
    by (simp only:)
qed

section \<open>Facts about clock drift\<close>

lemma steady_drift_verified:
  assumes "step = 1 \<or> step = -1"
  shows "drift_level (fold Clockdrift_Update [x, x + step, x + 2 * step, x + 3 * step] c) = DriftVerified"
proof -
  have first: "delay_history (Clockdrift_Update y c) ! 0 = y" for y c
    by (simp add: Clockdrift_Update_def Let_def)
  have shift: "delay_history (Clockdrift_Update y c) = [y, delay_history c ! 0, delay_history c ! 1]"
    if "y \<noteq> delay_history c ! 0" for y c
    using that by (simp add: Clockdrift_Update_def Let_def)
  have verified: "drift_level (Clockdrift_Update y c) = DriftVerified" if "delay_history c = [y - step, y - 2 * step, y - 3 * step]" for y c
    using that assms by (auto simp: Clockdrift_Update_def Let_def)
  define c1 where "c1 = Clockdrift_Update x c"
  have "delay_history c1 ! 0 = x" by (simp add: c1_def first)
  then have "delay_history (Clockdrift_Update (x + 2 * step) (Clockdrift_Update (x + step) c1)) = [x + 2 * step, x + step, x]"
    using assms by (auto simp: shift)
  then have "drift_level (Clockdrift_Update (x + 3 * step) (Clockdrift_Update (x + 2 * step) (Clockdrift_Update (x + step) c1))) = DriftVerified"
    by (intro verified) simp
  then show ?thesis by (simp add: c1_def)
qed

lemma stable_delay_clears:
  assumes "\<forall>d\<in>set ds. d = delay_history c ! 0" "7500 < length ds"
  shows "drift_level (fold Clockdrift_Update ds c) = DriftNone"
proof -
  have step: "Clockdrift_Update d c = c\<lparr>stability_counter := Suc (stability_counter c),
      drift_level := if 7499 < stability_counter c then DriftNone else drift_level c\<rparr>"
    if "d = delay_history c ! 0" for d c
    using that by (simp add: Clockdrift_Update_def Let_def)
  have "drift_level (fold Clockdrift_Update ds c) = DriftNone" if "\<forall>d\<in>set ds. d = delay_history c ! 0"
    "7500 < stability_counter c + length ds" "ds \<noteq> []" for ds c
    using that
  proof (induction ds arbitrary: c)
    case (Cons d ds)
    show ?case
    proof (cases "ds = []")
      case True
      then show ?thesis using Cons.prems by (simp add: step)
    next
      case False
      then show ?thesis using Cons.prems by (simp add: step Cons.IH)
    qed
  qed simp
  from this[OF assms(1)] assms(2) show ?thesis by (cases "ds = []") simp_all
qed

end
