(* ===== verification/Aec_Lag.thy ===== *)
theory Aec_Lag
  imports Aec_Control
begin

text \<open>
  From lag estimates to the delay of the render buffer, in
  \<^verbatim>\<open>crates/fswtch-apm-sys/cpp/modules/audio_processing/aec3/\<close>: \<^verbatim>\<open>matched_filter_lag_aggregator.cc\<close>
  collects the lags the matched filter reports in histograms, \<^verbatim>\<open>echo_path_delay_estimator.cc\<close>
  turns the winner into a delay in samples, and \<^verbatim>\<open>render_delay_controller.cc\<close> turns that into a
  delay in blocks with hysteresis. The matched filter with the mixing and the decimation before it
  is a parameter: an update with new data, its best estimate, and a reset.
\<close>

section \<open>\<^verbatim>\<open>MatchedFilterLagAggregator\<close>\<close>

definition kBlockSizeLog2 :: nat where "kBlockSizeLog2 = 6"
definition kNumBlocksPerSecond :: nat where "kNumBlocksPerSecond = 250"
definition kPreEchoHistogramDataNotUpdated :: int where "kPreEchoHistogramDataNotUpdated = -1"
definition kLagWindowSubBlocks :: nat where "kLagWindowSubBlocks = 32"

fun log2_loop :: "nat \<Rightarrow> nat" where
  "log2_loop f = (if f > 0 then Suc (log2_loop (f div 2)) else 0)"

declare log2_loop.simps [simp del]

definition GetDownSamplingBlockSizeLog2 :: "nat \<Rightarrow> nat" where
  "GetDownSamplingBlockSizeLog2 factor =
     (let l = log2_loop (factor div 2) in if kBlockSizeLog2 > l then kBlockSizeLog2 - l else 0)"

text \<open>The position of the first largest element.\<close>

definition max_element :: "'a::linorder list \<Rightarrow> nat" where
  "max_element xs = foldl (\<lambda>b i. if xs ! b < xs ! i then i else b) 0 [0..<length xs]"

text \<open>An access to a histogram under the checks of the index.\<close>

definition bump :: "int \<Rightarrow> int \<Rightarrow> int list \<Rightarrow> int list option" where
  "bump v by_n hist =
     (if 0 \<le> v \<and> v < int (length hist) then Some (hist[nat v := hist ! nat v + by_n]) else None)"

record highest_peak_aggregator =
  hp_histogram :: "int list"
  hp_data :: "int list"
  hp_index :: nat
  hp_candidate :: int

definition new_highest_peak :: "nat \<Rightarrow> highest_peak_aggregator" where
  "new_highest_peak max_filter_lag =
     \<lparr>hp_histogram = replicate (max_filter_lag + 1) 0, hp_data = replicate 250 0, hp_index = 0, hp_candidate = -1\<rparr>"

definition HighestPeak_Reset :: "highest_peak_aggregator \<Rightarrow> highest_peak_aggregator" where
  "HighestPeak_Reset h = h\<lparr>hp_histogram := replicate (length (hp_histogram h)) 0, hp_data := replicate 250 0, hp_index := 0\<rparr>"

definition HighestPeak_Aggregate :: "int \<Rightarrow> highest_peak_aggregator \<Rightarrow> highest_peak_aggregator option" where
  "HighestPeak_Aggregate lag h = do {
     hist \<leftarrow> bump (hp_data h ! hp_index h) (-1) (hp_histogram h);
     let h = h\<lparr>hp_data := (hp_data h)[hp_index h := lag]\<rparr>;
     hist \<leftarrow> bump (hp_data h ! hp_index h) 1 hist;
     Some (h\<lparr>hp_histogram := hist, hp_index := (hp_index h + 1) mod length (hp_data h), hp_candidate := int (max_element hist)\<rparr>)
   }"

record pre_echo_aggregator =
  block_size_log2 :: nat
  pe_histogram :: "int list"
  pe_data :: "int list"
  pe_index :: nat
  pre_echo_candidate :: int
  number_updates :: nat

definition PreEcho_Reset :: "pre_echo_aggregator \<Rightarrow> pre_echo_aggregator" where
  "PreEcho_Reset p = p\<lparr>pe_histogram := replicate (length (pe_histogram p)) 0,
     pe_data := replicate 250 kPreEchoHistogramDataNotUpdated, pe_index := 0, pre_echo_candidate := 0\<rparr>"

definition new_pre_echo :: "nat \<Rightarrow> nat \<Rightarrow> pre_echo_aggregator" where
  "new_pre_echo max_filter_lag factor = PreEcho_Reset
     \<lparr>block_size_log2 = GetDownSamplingBlockSizeLog2 factor,
      pe_histogram = replicate (drop_bit kBlockSizeLog2 ((max_filter_lag + 1) * factor)) 0,
      pe_data = replicate 250 0, pe_index = 0, pre_echo_candidate = 0, number_updates = 0\<rparr>"

text \<open>
  The loop over windows of the histogram in the first two seconds: position, penalty, largest
  value and candidate so far.
\<close>

function pre_echo_loop :: "int list \<Rightarrow> nat \<Rightarrow> rat \<Rightarrow> rat \<Rightarrow> nat \<Rightarrow> nat" where
  "pre_echo_loop hist it penalization max_value candidate =
     (if length hist - it \<ge> kLagWindowSubBlocks \<and> it \<le> length hist then
        (let i = it + max_element (take kLagWindowSubBlocks (drop it hist));
             weighted = f32 (of_int (hist ! i) * penalization);
             (max_value, candidate) = (if weighted > max_value then (weighted, i) else (max_value, candidate))
         in pre_echo_loop hist (it + kLagWindowSubBlocks) (f32 (penalization * f32 (7 / 10))) max_value candidate)
      else candidate)"
  by pat_completeness auto
termination
  by (relation "measure (\<lambda>(hist, it, _). length hist + kLagWindowSubBlocks - it)") (auto simp: kLagWindowSubBlocks_def)

declare pre_echo_loop.simps [simp del]

definition PreEcho_Aggregate :: "int \<Rightarrow> pre_echo_aggregator \<Rightarrow> pre_echo_aggregator option" where
  "PreEcho_Aggregate pre_echo_lag p =
     (let sz = drop_bit (block_size_log2 p) pre_echo_lag in
      if \<not> (sz \<ge> 0 \<and> sz < int (length (pe_histogram p))) then None
      else do {
        let sz = SafeClamp sz 0 (int (length (pe_histogram p)) - 1);
        hist \<leftarrow> (if pe_data p ! pe_index p \<noteq> kPreEchoHistogramDataNotUpdated
                then bump (pe_data p ! pe_index p) (-1) (pe_histogram p) else Some (pe_histogram p));
        let p = p\<lparr>pe_data := (pe_data p)[pe_index p := sz]\<rparr>;
        hist \<leftarrow> bump (pe_data p ! pe_index p) 1 hist;
        let p = p\<lparr>pe_histogram := hist, pe_index := (pe_index p + 1) mod length (pe_data p)\<rparr>;
        let (p, candidate) =
          (if number_updates p < kNumBlocksPerSecond * 2
           then (p\<lparr>number_updates := number_updates p + 1\<rparr>, pre_echo_loop hist 0 1 (-1) 0)
           else (p, max_element hist));
        Some (p\<lparr>pre_echo_candidate := push_bit (block_size_log2 p) (int candidate)\<rparr>)
      })"

record lag_estimate =
  lag :: nat
  pre_echo_lag :: nat

datatype quality = kCoarse | kRefined

record delay_estimate =
  de_quality :: quality
  de_delay :: int

record lag_aggregator =
  significant_candidate_found :: bool
  la_thresholds :: delay_selection_thresholds_cfg
  la_headroom :: int
  highest_peak :: highest_peak_aggregator
  pre_echo :: "pre_echo_aggregator option"

definition new_lag_aggregator :: "nat \<Rightarrow> delay_cfg \<Rightarrow> lag_aggregator option" where
  "new_lag_aggregator max_filter_lag d =
     (if down_sampling_factor d = 0 \<or> dst_initial (delay_selection_thresholds d) > dst_converged (delay_selection_thresholds d) then None
      else Some \<lparr>significant_candidate_found = False, la_thresholds = delay_selection_thresholds d,
             la_headroom = int (delay_headroom_samples d div down_sampling_factor d),
             highest_peak = new_highest_peak max_filter_lag,
             pre_echo = (if detect_pre_echo d then Some (new_pre_echo max_filter_lag (down_sampling_factor d)) else None)\<rparr>)"

definition LagAggregator_Reset :: "bool \<Rightarrow> lag_aggregator \<Rightarrow> lag_aggregator" where
  "LagAggregator_Reset hard_reset a =
     (let a = a\<lparr>highest_peak := HighestPeak_Reset (highest_peak a)\<rparr>;
          a = a\<lparr>pre_echo := map_option PreEcho_Reset (pre_echo a)\<rparr>
      in if hard_reset then a\<lparr>significant_candidate_found := False\<rparr> else a)"

definition ReliableDelayFound :: "lag_aggregator \<Rightarrow> bool" where
  "ReliableDelayFound a = significant_candidate_found a"

definition GetDelayAtHighestPeak :: "lag_aggregator \<Rightarrow> int" where
  "GetDelayAtHighestPeak a = hp_candidate (highest_peak a)"

text \<open>The new state and the delay, where one is reported.\<close>

definition LagAggregator_Aggregate :: "lag_estimate option \<Rightarrow> lag_aggregator \<Rightarrow> (lag_aggregator \<times> delay_estimate option) option" where
  "LagAggregator_Aggregate estimate a =
     (case estimate of None \<Rightarrow> Some (a, None)
      | Some e \<Rightarrow> do {
          a \<leftarrow> (case pre_echo a of None \<Rightarrow> Some a
            | Some p \<Rightarrow> do { p \<leftarrow> PreEcho_Aggregate (max 0 (int (pre_echo_lag e) - la_headroom a)) p;
                            Some (a\<lparr>pre_echo := Some p\<rparr>) });
          h \<leftarrow> HighestPeak_Aggregate (max 0 (int (lag e) - la_headroom a)) (highest_peak a);
          let a = a\<lparr>highest_peak := h\<rparr>;
          let candidate = hp_candidate h;
          let peak = hp_histogram h ! nat candidate;
          let a = a\<lparr>significant_candidate_found := significant_candidate_found a \<or> peak > dst_converged (la_thresholds a)\<rparr>;
          Some (a, if peak > dst_converged (la_thresholds a) \<or>
                      (peak > dst_initial (la_thresholds a) \<and> \<not> significant_candidate_found a)
                   then Some \<lparr>de_quality = (if significant_candidate_found a then kRefined else kCoarse),
                              de_delay = (case pre_echo a of Some p \<Rightarrow> pre_echo_candidate p | None \<Rightarrow> candidate)\<rparr>
                   else None)
        })"

section \<open>\<^verbatim>\<open>EchoPathDelayEstimator\<close>\<close>

record ('m, 'i) matched_filter =
  mf_update :: "'i \<Rightarrow> bool \<Rightarrow> 'm \<Rightarrow> 'm"
  mf_best_lag :: "'m \<Rightarrow> lag_estimate option"
  mf_reset :: "bool \<Rightarrow> 'm \<Rightarrow> 'm"

record 'm path_delay_estimator =
  pd_down_sampling_factor :: nat
  pd_matched_filter :: 'm
  lag_aggregator :: lag_aggregator
  old_aggregated_lag :: "delay_estimate option"
  consistent_estimate_counter :: nat
  clockdrift_detector :: clockdrift_detector

definition new_path_delay_estimator :: "'m \<Rightarrow> nat \<Rightarrow> delay_cfg \<Rightarrow> 'm path_delay_estimator option" where
  "new_path_delay_estimator m max_filter_lag d = do {
     a \<leftarrow> new_lag_aggregator max_filter_lag d;
     Some \<lparr>pd_down_sampling_factor = down_sampling_factor d, pd_matched_filter = m, lag_aggregator = a, old_aggregated_lag = None,
           consistent_estimate_counter = 0, clockdrift_detector = new_clockdrift_detector\<rparr> }"

definition PathDelay_Reset2 :: "('m, 'i) matched_filter \<Rightarrow> bool \<Rightarrow> bool \<Rightarrow> 'm path_delay_estimator \<Rightarrow> 'm path_delay_estimator" where
  "PathDelay_Reset2 mf reset_lag_aggregator reset_delay_confidence s =
     (let s = (if reset_lag_aggregator
               then s\<lparr>lag_aggregator := LagAggregator_Reset reset_delay_confidence (lag_aggregator s)\<rparr> else s)
      in s\<lparr>pd_matched_filter := mf_reset mf reset_lag_aggregator (pd_matched_filter s), old_aggregated_lag := None,
           consistent_estimate_counter := 0\<rparr>)"

definition PathDelay_Reset :: "('m, 'i) matched_filter \<Rightarrow> bool \<Rightarrow> 'm path_delay_estimator \<Rightarrow> 'm path_delay_estimator" where
  "PathDelay_Reset mf reset_delay_confidence s = PathDelay_Reset2 mf True reset_delay_confidence s"

definition EstimateDelay :: "('m, 'i) matched_filter \<Rightarrow> 'i \<Rightarrow> 'm path_delay_estimator \<Rightarrow> ('m path_delay_estimator \<times> delay_estimate option) option" where
  "EstimateDelay mf data s = do {
     let m = mf_update mf data (ReliableDelayFound (lag_aggregator s)) (pd_matched_filter s);
     (a, aggregated) \<leftarrow> LagAggregator_Aggregate (mf_best_lag mf m) (lag_aggregator s);
     let s = s\<lparr>pd_matched_filter := m, lag_aggregator := a\<rparr>;
     let s = (case aggregated of
         Some e \<Rightarrow> if de_quality e = kRefined
                   then s\<lparr>clockdrift_detector := Clockdrift_Update (GetDelayAtHighestPeak a) (clockdrift_detector s)\<rparr> else s
       | None \<Rightarrow> s);
     let aggregated = map_option (\<lambda>e. e\<lparr>de_delay := de_delay e * int (pd_down_sampling_factor s)\<rparr>) aggregated;
     let s = (case (old_aggregated_lag s, aggregated) of
         (Some old, Some new) \<Rightarrow> if de_delay old = de_delay new
           then s\<lparr>consistent_estimate_counter := consistent_estimate_counter s + 1\<rparr>
           else s\<lparr>consistent_estimate_counter := 0\<rparr>
       | _ \<Rightarrow> s\<lparr>consistent_estimate_counter := 0\<rparr>);
     let s = s\<lparr>old_aggregated_lag := aggregated\<rparr>;
     Some (if consistent_estimate_counter s > kNumBlocksPerSecond div 2 then PathDelay_Reset2 mf False False s else s, aggregated)
   }"

definition PathDelay_Clockdrift :: "'m path_delay_estimator \<Rightarrow> drift_level" where
  "PathDelay_Clockdrift s = drift_level (clockdrift_detector s)"

section \<open>\<^verbatim>\<open>RenderDelayController\<close>\<close>

datatype reliability = RelNone | RelPoor | RelMedium | RelGood | RelExcellent
datatype changes_category = ChNone | ChFew | ChSeveral | ChMany | ChConstant

record delay_metrics =
  dm_delay_blocks :: nat
  reliable_delay_estimate_counter :: int
  delay_change_counter :: int
  dm_call_counter :: int
  initial_call_counter :: int
  initial_update :: bool

definition new_delay_metrics :: delay_metrics where
  "new_delay_metrics = \<lparr>dm_delay_blocks = 0, reliable_delay_estimate_counter = 0, delay_change_counter = 0,
     dm_call_counter = 0, initial_call_counter = 0, initial_update = True\<rparr>"

definition DelayMetrics_ResetMetrics :: "delay_metrics \<Rightarrow> delay_metrics" where
  "DelayMetrics_ResetMetrics m = m\<lparr>delay_change_counter := 0, reliable_delay_estimate_counter := 0\<rparr>"

definition delay_reliability :: "int \<Rightarrow> int \<Rightarrow> reliability" where
  "delay_reliability estimates calls =
     (if estimates = 0 then RelNone else if estimates > drop_bit 1 calls then RelExcellent
      else if estimates > 100 then RelGood else if estimates > 10 then RelMedium else RelPoor)"

definition delay_changes :: "int \<Rightarrow> changes_category" where
  "delay_changes n =
     (if n = 0 then ChNone else if n > 10 then ChConstant else if n > 5 then ChMany else if n > 2 then ChSeveral else ChFew)"

record delay_report =
  rep_path_delay :: int
  rep_buffer_delay :: int
  rep_reliability :: reliability
  rep_changes :: changes_category
  rep_clockdrift :: drift_level

definition DelayMetrics_Update :: "nat option \<Rightarrow> nat option \<Rightarrow> drift_level \<Rightarrow> delay_metrics \<Rightarrow> delay_metrics \<times> delay_report option" where
  "DelayMetrics_Update delay_samples buffer_delay_blocks clockdrift m =
     (let m = m\<lparr>dm_call_counter := dm_call_counter m + 1\<rparr>;
          m = (if \<not> initial_update m
               then (let (m, blocks) = (case delay_samples of
                         Some d \<Rightarrow> (m\<lparr>reliable_delay_estimate_counter := reliable_delay_estimate_counter m + 1\<rparr>, d div 64 + 2)
                       | None \<Rightarrow> (m, 0))
                     in if blocks \<noteq> dm_delay_blocks m
                        then m\<lparr>delay_change_counter := delay_change_counter m + 1, dm_delay_blocks := blocks\<rparr> else m)
               else (let m = m\<lparr>initial_call_counter := initial_call_counter m + 1\<rparr>
                     in if initial_call_counter m = 5 * int kNumBlocksPerSecond then m\<lparr>initial_update := False\<rparr> else m))
      in if dm_call_counter m = kMetricsReportingIntervalBlocks
         then (let report = \<lparr>rep_path_delay = min 124 (drop_bit 1 (int (dm_delay_blocks m))),
                    rep_buffer_delay = min 124 (case buffer_delay_blocks of Some d \<Rightarrow> drop_bit 1 (int d + 2) | None \<Rightarrow> 0),
                    rep_reliability = delay_reliability (reliable_delay_estimate_counter m) (dm_call_counter m),
                    rep_changes = delay_changes (delay_change_counter m), rep_clockdrift = clockdrift\<rparr>
               in (DelayMetrics_ResetMetrics (m\<lparr>dm_call_counter := 0\<rparr>), Some report))
         else (m, None))"

definition ComputeBufferDelay :: "delay_estimate option \<Rightarrow> nat \<Rightarrow> delay_estimate \<Rightarrow> delay_estimate" where
  "ComputeBufferDelay current_delay limit_blocks estimated_delay =
     (let new_delay_blocks = drop_bit kBlockSizeLog2 (de_delay estimated_delay);
          new_delay_blocks = (case current_delay of
              Some c \<Rightarrow> (let current = de_delay c in
                if new_delay_blocks > current \<and> new_delay_blocks \<le> current + int limit_blocks
                then current else new_delay_blocks)
            | None \<Rightarrow> new_delay_blocks)
      in estimated_delay\<lparr>de_delay := new_delay_blocks\<rparr>)"

record 'm delay_controller =
  dc_hysteresis_limit_blocks :: nat
  dc_delay :: "delay_estimate option"
  delay_estimator :: "'m path_delay_estimator"
  dc_metrics :: delay_metrics
  dc_delay_samples :: "delay_estimate option"
  dc_capture_call_counter :: nat
  last_delay_estimate_quality :: quality

definition new_delay_controller :: "'m \<Rightarrow> nat \<Rightarrow> delay_cfg \<Rightarrow> 'm delay_controller option" where
  "new_delay_controller m max_filter_lag d = do {
     e \<leftarrow> new_path_delay_estimator m max_filter_lag d;
     Some \<lparr>dc_hysteresis_limit_blocks = hysteresis_limit_blocks d, dc_delay = None, delay_estimator = e,
           dc_metrics = new_delay_metrics, dc_delay_samples = None, dc_capture_call_counter = 0,
           last_delay_estimate_quality = kCoarse\<rparr> }"

definition DelayController_Reset :: "('m, 'i) matched_filter \<Rightarrow> bool \<Rightarrow> 'm delay_controller \<Rightarrow> 'm delay_controller" where
  "DelayController_Reset mf reset_delay_confidence c =
     (let c = c\<lparr>dc_delay := None, dc_delay_samples := None,
                delay_estimator := PathDelay_Reset mf reset_delay_confidence (delay_estimator c)\<rparr>
      in if reset_delay_confidence then c\<lparr>last_delay_estimate_quality := kCoarse\<rparr> else c)"

definition GetDelay :: "('m, 'i) matched_filter \<Rightarrow> 'i \<Rightarrow> 'm delay_controller \<Rightarrow> ('m delay_controller \<times> delay_estimate option) option" where
  "GetDelay mf data c = do {
     let c = c\<lparr>dc_capture_call_counter := dc_capture_call_counter c + 1\<rparr>;
     (e, delay_samples) \<leftarrow> EstimateDelay mf data (delay_estimator c);
     let c = c\<lparr>delay_estimator := e\<rparr>;
     let c = (case delay_samples of Some d \<Rightarrow> c\<lparr>dc_delay_samples := Some d\<rparr> | None \<Rightarrow> c);
     let c = (case dc_delay_samples c of
         Some d \<Rightarrow> (let use_hysteresis = (last_delay_estimate_quality c = kRefined \<and> de_quality d = kRefined);
                       new = ComputeBufferDelay (dc_delay c) (if use_hysteresis then dc_hysteresis_limit_blocks c else 0) d
                   in c\<lparr>dc_delay := Some new, last_delay_estimate_quality := de_quality new\<rparr>)
       | None \<Rightarrow> c);
     let c = c\<lparr>dc_metrics := fst (DelayMetrics_Update (map_option (nat \<circ> de_delay) (dc_delay_samples c))
                (map_option (nat \<circ> de_delay) (dc_delay c)) (PathDelay_Clockdrift (delay_estimator c)) (dc_metrics c))\<rparr>;
     Some (c, dc_delay c)
   }"

definition HasClockdrift :: "'m delay_controller \<Rightarrow> bool" where
  "HasClockdrift c \<longleftrightarrow> PathDelay_Clockdrift (delay_estimator c) \<noteq> DriftNone"

section \<open>Facts about the histograms\<close>

lemma max_element_upto:
  fixes xs :: "'a::linorder list"
  shows "0 < n \<Longrightarrow> n \<le> length xs \<Longrightarrow> (let m = foldl (\<lambda>b i. if xs ! b < xs ! i then i else b) 0 [0..<n]
     in m < n \<and> (\<forall>i<n. xs ! i \<le> xs ! m) \<and> (\<forall>i<m. xs ! i < xs ! m))"
proof (induction n)
  case (Suc n)
  show ?case
  proof (cases "n = 0")
    case False
    define m where "m = foldl (\<lambda>b i. if xs ! b < xs ! i then i else b) 0 [0..<n]"
    have m: "m < n" "\<And>i. i < n \<Longrightarrow> xs ! i \<le> xs ! m" "\<And>i. i < m \<Longrightarrow> xs ! i < xs ! m"
      using Suc.IH False Suc.prems by (simp_all add: m_def Let_def)
    then show ?thesis
      by (auto simp: Let_def less_Suc_eq simp flip: m_def intro: le_less_trans order_less_imp_le order_trans)
  qed simp
qed simp

lemma max_element_spec:
  fixes xs :: "'a::linorder list"
  assumes "xs \<noteq> []"
  shows "max_element xs < length xs" "i < length xs \<Longrightarrow> xs ! i \<le> xs ! max_element xs" "i < max_element xs \<Longrightarrow> xs ! i < xs ! max_element xs"
  using max_element_upto[of "length xs" xs] assms by (auto simp: max_element_def Let_def)

text \<open>The last 250 lags, where zeros stand for those not yet seen, and how often a lag counts.\<close>

definition lag_window :: "int list \<Rightarrow> int list" where
  "lag_window lags = drop (length lags) (replicate 250 0 @ lags)"

definition lag_score :: "int list \<Rightarrow> nat \<Rightarrow> int" where
  "lag_score lags v = int (count_list (lag_window lags) (int v)) - (if v = 0 then 250 else 0)"

definition winner :: "nat \<Rightarrow> int list \<Rightarrow> nat" where
  "winner n lags = max_element (map (lag_score lags) [0..<n])"

lemma length_lag_window [simp]: "length (lag_window lags) = 250"
  by (simp add: lag_window_def)

lemma lag_window_push: "lag_window (lags @ [l]) = tl (lag_window lags) @ [l]"
proof -
  define z where "z = replicate 250 (0 :: int) @ lags"
  have "length z = 250 + length lags" by (simp add: z_def)
  then have "drop (Suc (length lags)) (z @ [l]) = tl (drop (length lags) z) @ [l]"
    by (simp add: drop_Suc tl_drop)
  then show ?thesis by (simp only: lag_window_def length_append_singleton z_def append_assoc)
qed

lemma lag_window_set: "set (lag_window lags) \<subseteq> insert 0 (set lags)"
  using set_drop_subset[of "length lags" "replicate 250 0 @ lags"] by (auto simp: lag_window_def)

lemma ring_next: "i < d \<Longrightarrow> (if i < d - 1 then i + 1 else 0) = (i + 1) mod d" for i d :: nat
  by (cases "i < d - 1") (auto simp: not_less dest: le_antisym intro!: mod_self[THEN trans, rotated])

lemma count_list_replicate [simp]: "count_list (replicate n x) y = (if x = y then n else 0)"
  by (induction n) auto

lemma lag_score_Nil [simp]: "lag_score [] v = 0"
  by (simp add: lag_score_def lag_window_def)

lemma map_lag_score_Nil [simp]: "map (lag_score []) xs = replicate (length xs) 0"
  by (rule replicate_eqI) auto

definition hp_ok :: "nat \<Rightarrow> int list \<Rightarrow> highest_peak_aggregator \<Rightarrow> bool" where
  "hp_ok n lags h \<longleftrightarrow> 0 < n \<and> length (hp_data h) = 250 \<and> hp_index h < 250 \<and> rotated (hp_index h) (hp_data h) = lag_window lags \<and>
     list_all (\<lambda>l. 0 \<le> l \<and> l < int n) lags \<and> hp_histogram h = map (lag_score lags) [0..<n]"

lemma new_highest_peak_ok: "hp_ok (Suc m) [] (new_highest_peak m)"
  by (simp add: hp_ok_def new_highest_peak_def rotated_def lag_window_def replicate_append_same)

lemma HighestPeak_Reset_ok: "hp_ok n lags h \<Longrightarrow> hp_ok n [] (HighestPeak_Reset h)"
  by (simp add: hp_ok_def HighestPeak_Reset_def rotated_def lag_window_def)

lemma HighestPeak_Aggregate_ok:
  assumes h: "hp_ok n lags h" and l: "0 \<le> l" "l < int n"
  shows "\<exists>h'. HighestPeak_Aggregate l h = Some h' \<and> hp_ok n (lags @ [l]) h' \<and>
    hp_candidate h' = int (winner n (lags @ [l])) \<and> hp_histogram h' ! winner n (lags @ [l]) = lag_score (lags @ [l]) (winner n (lags @ [l]))"
proof -
  let ?i = "hp_index h" and ?w = "lag_window lags"
  define old where "old = hp_data h ! ?i"
  have i: "?i < 250" "length (hp_data h) = 250" and n: "0 < n" and w: "rotated ?i (hp_data h) = ?w"
    using h by (simp_all add: hp_ok_def)
  have ring: "?w @ [l] = old # rotated ((?i + 1) mod 250) ((hp_data h)[?i := l])"
    using rotated_push[of "hp_data h" 250 ?i l] i w by (simp only: ring_next[OF i(1)] old_def)
  moreover have "?w \<noteq> []" using length_lag_window[of lags] by (metis list.size(3) zero_neq_numeral)
  ultimately have hd: "?w = old # tl ?w"
    by (cases ?w) auto
  have "old \<in> set ?w" by (subst hd) simp
  then have old: "0 \<le> old" "old < int n"
    using lag_window_set[of lags] h n by (auto simp: hp_ok_def list_all_iff)
  have next_w: "rotated ((?i + 1) mod 250) ((hp_data h)[?i := l]) = tl ?w @ [l]"
    using ring hd by (metis append_Cons list.inject)
  define hist where "hist = (map (lag_score lags) [0..<n])[nat old := lag_score lags (nat old) - 1]"
  have b1: "bump old (-1) (hp_histogram h) = Some hist"
    using h old by (simp add: bump_def hp_ok_def hist_def)
  have "hist[nat l := hist ! nat l + 1] = map (lag_score (lags @ [l])) [0..<n]"
  proof (rule nth_equalityI)
    fix v
    assume "v < length (hist[nat l := hist ! nat l + 1])"
    then have v: "v < n" by (simp add: hist_def)
    have "count_list ?w (int v) = count_list (old # tl ?w) (int v)" by (subst hd) simp
    then have "lag_score (lags @ [l]) v = lag_score lags v - (if old = int v then 1 else 0) + (if l = int v then 1 else 0)"
      by (simp add: lag_score_def lag_window_push)
    then show "hist[nat l := hist ! nat l + 1] ! v = map (lag_score (lags @ [l])) [0..<n] ! v"
      using v l old by (auto simp: hist_def nth_list_update)
  qed (simp add: hist_def)
  then have b2: "bump l 1 hist = Some (map (lag_score (lags @ [l])) [0..<n])"
    using l by (simp add: bump_def hist_def)
  let ?h = "h\<lparr>hp_data := (hp_data h)[?i := l], hp_histogram := map (lag_score (lags @ [l])) [0..<n], hp_index := (?i + 1) mod 250,
    hp_candidate := int (winner n (lags @ [l]))\<rparr>"
  have "HighestPeak_Aggregate l h = Some ?h"
    using b1 b2 i by (simp add: HighestPeak_Aggregate_def old_def Let_def winner_def)
  moreover have "hp_ok n (lags @ [l]) ?h"
    using h i l n next_w by (simp add: hp_ok_def lag_window_push)
  moreover have "winner n (lags @ [l]) < n"
    using max_element_spec(1)[of "map (lag_score (lags @ [l])) [0..<n]"] n by (simp add: winner_def)
  ultimately show ?thesis by (intro exI[of _ ?h]) simp
qed

text \<open>The other histogram stays within its bounds.\<close>

definition pe_ok :: "nat \<Rightarrow> nat \<Rightarrow> pre_echo_aggregator \<Rightarrow> bool" where
  "pe_ok k b p \<longleftrightarrow> block_size_log2 p = b \<and> length (pe_histogram p) = k \<and> length (pe_data p) = 250 \<and> pe_index p < 250 \<and>
     list_all (\<lambda>v. v = kPreEchoHistogramDataNotUpdated \<or> 0 \<le> v \<and> v < int k) (pe_data p)"

lemma PreEcho_Reset_ok: "length (pe_histogram p) = k \<Longrightarrow> block_size_log2 p = b \<Longrightarrow> pe_ok k b (PreEcho_Reset p)"
  by (simp add: pe_ok_def PreEcho_Reset_def list_all_iff)

lemma PreEcho_Reset_keeps: "pe_ok k b p \<Longrightarrow> pe_ok k b (PreEcho_Reset p)"
  by (rule PreEcho_Reset_ok) (simp_all add: pe_ok_def)

lemma PreEcho_Aggregate_ok:
  assumes p: "pe_ok k b p" and l: "0 \<le> l" "l div 2 ^ b < int k"
  shows "\<exists>p'. PreEcho_Aggregate l p = Some p' \<and> pe_ok k b p'"
proof -
  let ?s = "l div 2 ^ b" and ?old = "pe_data p ! pe_index p"
  have s0: "0 \<le> ?s" using l(1) by (simp add: pos_imp_zdiv_nonneg_iff)
  then have s: "0 \<le> ?s" "SafeClamp ?s 0 (int k - 1) = ?s" using l by (auto simp: SafeClamp_def)
  have old: "?old = kPreEchoHistogramDataNotUpdated \<or> 0 \<le> ?old \<and> ?old < int k"
    using p by (simp add: pe_ok_def list_all_iff)
  have k: "length (pe_histogram p) = k" using p by (simp add: pe_ok_def)
  have "\<exists>hist. (if ?old \<noteq> kPreEchoHistogramDataNotUpdated then bump ?old (-1) (pe_histogram p) else Some (pe_histogram p)) = Some hist \<and>
      length hist = k"
    using old k by (cases "?old = kPreEchoHistogramDataNotUpdated") (simp_all add: bump_def)
  then obtain hist where h: "length hist = k"
    "(if ?old \<noteq> kPreEchoHistogramDataNotUpdated then bump ?old (-1) (pe_histogram p) else Some (pe_histogram p)) = Some hist"
    by blast
  have b: "bump ?s 1 hist = Some (hist[nat ?s := hist ! nat ?s + 1])" using s l h by (simp add: bump_def)
  have d: "list_all (\<lambda>v. v = kPreEchoHistogramDataNotUpdated \<or> 0 \<le> v \<and> v < int k) ((pe_data p)[pe_index p := ?s])"
    using p s l by (auto simp: pe_ok_def list_all_iff dest: set_update_subset_insert[THEN subsetD])
  show ?thesis
    using p s l h b d
    by (auto simp: PreEcho_Aggregate_def pe_ok_def drop_bit_eq_div Let_def not_less)
qed

section \<open>What the aggregator reports\<close>

text \<open>Estimates one after the other.\<close>

fun aggregate_all :: "lag_estimate list \<Rightarrow> lag_aggregator \<Rightarrow> (lag_aggregator \<times> delay_estimate option list) option" where
  "aggregate_all [] a = Some (a, [])"
| "aggregate_all (e # es) a = do {
     (a, r) \<leftarrow> LagAggregator_Aggregate (Some e) a;
     (a, rs) \<leftarrow> aggregate_all es a;
     Some (a, r # rs) }"

text \<open>The lags that an aggregator for \<open>d\<close> counts, and the largest count after some estimates.\<close>

definition counted_lag :: "delay_cfg \<Rightarrow> lag_estimate \<Rightarrow> int" where
  "counted_lag d e = max 0 (int (lag e) - int (delay_headroom_samples d div down_sampling_factor d))"

definition counted_pre_echo :: "delay_cfg \<Rightarrow> lag_estimate \<Rightarrow> int" where
  "counted_pre_echo d e = max 0 (int (pre_echo_lag e) - int (delay_headroom_samples d div down_sampling_factor d))"

text \<open>The pre-echo histogram alone, fed with the same estimates.\<close>

definition pre_echo_step :: "delay_cfg \<Rightarrow> pre_echo_aggregator option \<Rightarrow> lag_estimate \<Rightarrow> pre_echo_aggregator option" where
  "pre_echo_step d q e = do { p \<leftarrow> q; PreEcho_Aggregate (counted_pre_echo d e) p }"

definition pre_echo_after :: "delay_cfg \<Rightarrow> lag_estimate list \<Rightarrow> pre_echo_aggregator option \<Rightarrow> pre_echo_aggregator option" where
  "pre_echo_after d es q = foldl (pre_echo_step d) q es"

text \<open>The delay of a report: the candidate of the pre-echo histogram, where there is one.\<close>

definition delay_from :: "pre_echo_aggregator option \<Rightarrow> nat \<Rightarrow> int" where
  "delay_from q w = (case q of Some p \<Rightarrow> pre_echo_candidate p | None \<Rightarrow> int w)"

definition peak :: "nat \<Rightarrow> int list \<Rightarrow> int" where
  "peak m lags = lag_score lags (winner (Suc m) lags)"

definition pre_echo_size :: "nat \<Rightarrow> delay_cfg \<Rightarrow> nat" where
  "pre_echo_size m d = (m + 1) * down_sampling_factor d div 64"

definition valid_estimate :: "nat \<Rightarrow> delay_cfg \<Rightarrow> lag_estimate \<Rightarrow> bool" where
  "valid_estimate m d e \<longleftrightarrow> lag e \<le> m \<and>
     (detect_pre_echo d \<longrightarrow> pre_echo_lag e div 2 ^ GetDownSamplingBlockSizeLog2 (down_sampling_factor d) < pre_echo_size m d)"

definition agg_ok :: "nat \<Rightarrow> delay_cfg \<Rightarrow> int list \<Rightarrow> bool \<Rightarrow> lag_aggregator \<Rightarrow> bool" where
  "agg_ok m d lags found a \<longleftrightarrow> hp_ok (Suc m) lags (highest_peak a) \<and> significant_candidate_found a = found \<and>
     la_thresholds a = delay_selection_thresholds d \<and> la_headroom a = int (delay_headroom_samples d div down_sampling_factor d) \<and>
     (if detect_pre_echo d
      then \<exists>p. pre_echo a = Some p \<and> pe_ok (pre_echo_size m d) (GetDownSamplingBlockSizeLog2 (down_sampling_factor d)) p
      else pre_echo a = None)"

lemma new_lag_aggregator_ok: "new_lag_aggregator m d = Some a \<Longrightarrow> agg_ok m d [] False a"
  by (auto simp: new_lag_aggregator_def agg_ok_def new_highest_peak_ok new_pre_echo_def kBlockSizeLog2_def drop_bit_eq_div pre_echo_size_def
      intro!: PreEcho_Reset_ok split: if_splits)

lemma LagAggregator_Reset_ok: "agg_ok m d lags found a \<Longrightarrow> agg_ok m d [] (found \<and> \<not> hard) (LagAggregator_Reset hard a)"
  by (cases hard; cases "detect_pre_echo d")
    (auto simp: LagAggregator_Reset_def agg_ok_def HighestPeak_Reset_ok PreEcho_Reset_keeps Let_def)

text \<open>One estimate: the state, and what is reported when the largest count is \<open>c\<close>.\<close>

definition reports :: "delay_cfg \<Rightarrow> int \<Rightarrow> bool \<Rightarrow> bool" where
  "reports d c found \<longleftrightarrow> c > dst_converged (delay_selection_thresholds d) \<or> c > dst_initial (delay_selection_thresholds d) \<and> \<not> found"

lemma LagAggregator_Aggregate_ok:
  assumes a: "agg_ok m d lags found a" and e: "valid_estimate m d e"
  shows "\<exists>a' r. LagAggregator_Aggregate (Some e) a = Some (a', r) \<and>
    (let lags = lags @ [counted_lag d e]; c = peak m lags; found = (found \<or> c > dst_converged (delay_selection_thresholds d))
     in agg_ok m d lags found a' \<and> (r \<noteq> None \<longleftrightarrow> reports d c found) \<and> pre_echo a' = pre_echo_step d (pre_echo a) e \<and>
        (\<forall>x. r = Some x \<longrightarrow> de_quality x = (if found then kRefined else kCoarse) \<and>
           de_delay x = delay_from (pre_echo a') (winner (Suc m) lags)))"
proof -
  let ?b = "GetDownSamplingBlockSizeLog2 (down_sampling_factor d)" and ?k = "pre_echo_size m d"
  let ?p = "max 0 (int (pre_echo_lag e) - la_headroom a)"
  have hr: "la_headroom a = int (delay_headroom_samples d div down_sampling_factor d)" using a by (simp add: agg_ok_def)
  obtain a1 where a1: "(case pre_echo a of None \<Rightarrow> Some a
            | Some p \<Rightarrow> do { p \<leftarrow> PreEcho_Aggregate ?p p; Some (a\<lparr>pre_echo := Some p\<rparr>) }) = Some a1"
    "agg_ok m d lags found a1" "highest_peak a1 = highest_peak a" "la_headroom a1 = la_headroom a"
    "pre_echo a1 = pre_echo_step d (pre_echo a) e"
  proof (cases "detect_pre_echo d")
    case True
    obtain p where p: "pre_echo a = Some p" "pe_ok ?k ?b p" using a True by (auto simp: agg_ok_def)
    have "?p \<le> int (pre_echo_lag e)" using hr by simp
    then have "?p div 2 ^ ?b \<le> int (pre_echo_lag e) div 2 ^ ?b" by (intro zdiv_mono1) simp_all
    also have "\<dots> = int (pre_echo_lag e div 2 ^ ?b)" by (simp add: zdiv_int)
    also have "\<dots> < int ?k" using e True by (simp only: valid_estimate_def of_nat_less_iff)
    finally obtain p' where p': "PreEcho_Aggregate ?p p = Some p'" "pe_ok ?k ?b p'"
      using PreEcho_Aggregate_ok[OF p(2), of ?p] by auto
    have "?p = counted_pre_echo d e" by (simp only: counted_pre_echo_def hr)
    with p' have "pre_echo_step d (pre_echo a) e = Some p'" by (simp add: pre_echo_step_def p(1))
    moreover have "agg_ok m d lags found (a\<lparr>pre_echo := Some p'\<rparr>)" using a p'(2) True by (simp add: agg_ok_def)
    ultimately show ?thesis using p' p(1) by (intro that[of "a\<lparr>pre_echo := Some p'\<rparr>"]) simp_all
  next
    case False
    then show ?thesis using that[of a] a by (simp add: agg_ok_def pre_echo_step_def)
  qed
  let ?lags = "lags @ [counted_lag d e]"
  have l: "0 \<le> counted_lag d e" "counted_lag d e < int (Suc m)"
    using e by (auto simp: counted_lag_def valid_estimate_def)
  obtain h where h: "HighestPeak_Aggregate (counted_lag d e) (highest_peak a) = Some h" "hp_ok (Suc m) ?lags h"
    "hp_candidate h = int (winner (Suc m) ?lags)" "hp_histogram h ! winner (Suc m) ?lags = peak m ?lags"
    using HighestPeak_Aggregate_ok[of "Suc m" lags "highest_peak a" "counted_lag d e"] a l by (auto simp: agg_ok_def peak_def)
  have c: "max 0 (int (lag e) - la_headroom a1) = counted_lag d e" by (simp add: counted_lag_def hr a1(4))
  have f: "significant_candidate_found a1 = found" "la_thresholds a1 = delay_selection_thresholds d"
    using a1(2) by (simp_all add: agg_ok_def)
  define c where "c = peak m ?lags"
  define a2 where "a2 = a1\<lparr>highest_peak := h, significant_candidate_found := found \<or> c > dst_converged (delay_selection_thresholds d)\<rparr>"
  define r where "r = (if c > dst_converged (delay_selection_thresholds d) \<or>
      (c > dst_initial (delay_selection_thresholds d) \<and> \<not> significant_candidate_found a2)
    then Some \<lparr>de_quality = (if significant_candidate_found a2 then kRefined else kCoarse),
               de_delay = (case pre_echo a1 of Some p \<Rightarrow> pre_echo_candidate p | None \<Rightarrow> hp_candidate h)\<rparr>
    else None)"
  have "LagAggregator_Aggregate (Some e) a = Some (a2, r)"
    using a1(1) h c f by (simp add: LagAggregator_Aggregate_def a1(3) a2_def r_def c_def Let_def)
  moreover have "agg_ok m d ?lags (found \<or> c > dst_converged (delay_selection_thresholds d)) a2"
    using a1(2) h(2) by (simp add: agg_ok_def a2_def)
  ultimately show ?thesis
    using h(3) a1(5) by (intro exI[of _ a2] exI[of _ r])
      (auto simp: r_def reports_def a2_def delay_from_def Let_def split: option.split simp flip: c_def)
qed

text \<open>Some count has been above the threshold for a converged estimate.\<close>

definition converged_by :: "nat \<Rightarrow> delay_cfg \<Rightarrow> int list \<Rightarrow> bool" where
  "converged_by m d lags \<longleftrightarrow>
     (\<exists>j. 0 < j \<and> j \<le> length lags \<and> peak m (take j lags) > dst_converged (delay_selection_thresholds d))"

lemma converged_by_Nil [simp]: "\<not> converged_by m d []"
  by (simp add: converged_by_def)

lemma converged_by_snoc:
  "converged_by m d (lags @ [l]) \<longleftrightarrow> converged_by m d lags \<or> peak m (lags @ [l]) > dst_converged (delay_selection_thresholds d)"
  (is "?L \<longleftrightarrow> ?R")
proof
  assume ?L
  then obtain j where j: "0 < j" "j \<le> Suc (length lags)" "peak m (take j (lags @ [l])) > dst_converged (delay_selection_thresholds d)"
    by (auto simp: converged_by_def)
  then show ?R by (cases "j = Suc (length lags)") (auto simp: converged_by_def)
next
  assume ?R
  then show ?L
  proof
    assume "converged_by m d lags"
    then obtain j where j: "0 < j" "j \<le> length lags" "peak m (take j lags) > dst_converged (delay_selection_thresholds d)"
      by (auto simp: converged_by_def)
    then show ?L unfolding converged_by_def by (intro exI[of _ j]) simp
  next
    assume "peak m (lags @ [l]) > dst_converged (delay_selection_thresholds d)"
    then show ?L unfolding converged_by_def by (intro exI[of _ "Suc (length lags)"]) simp
  qed
qed

definition reported :: "nat \<Rightarrow> delay_cfg \<Rightarrow> int list \<Rightarrow> pre_echo_aggregator option \<Rightarrow> delay_estimate option \<Rightarrow> bool" where
  "reported m d lags q r \<longleftrightarrow> (r \<noteq> None \<longleftrightarrow> reports d (peak m lags) (converged_by m d lags)) \<and>
     (\<forall>x. r = Some x \<longrightarrow> de_quality x = (if converged_by m d lags then kRefined else kCoarse) \<and>
        de_delay x = delay_from q (winner (Suc m) lags)) \<and> (q = None \<longleftrightarrow> \<not> detect_pre_echo d)"

lemma agg_ok_pre_echo: "agg_ok m d lags found a \<Longrightarrow> pre_echo a = None \<longleftrightarrow> \<not> detect_pre_echo d"
  by (auto simp: agg_ok_def split: if_splits)

lemma aggregate_all_ok:
  assumes "agg_ok m d lags (converged_by m d lags) a" "list_all (valid_estimate m d) es"
  shows "\<exists>a' rs. aggregate_all es a = Some (a', rs) \<and> length rs = length es \<and>
    (\<forall>i<length es. reported m d (lags @ map (counted_lag d) (take (Suc i) es)) (pre_echo_after d (take (Suc i) es) (pre_echo a)) (rs ! i))"
  using assms
proof (induction es arbitrary: lags a)
  case (Cons e es)
  let ?lags = "lags @ [counted_lag d e]"
  obtain a1 r where 1: "LagAggregator_Aggregate (Some e) a = Some (a1, r)" "agg_ok m d ?lags (converged_by m d ?lags) a1"
    "reported m d ?lags (pre_echo a1) r" "pre_echo a1 = pre_echo_step d (pre_echo a) e"
    using LagAggregator_Aggregate_ok[OF Cons.prems(1), of e] Cons.prems(2) agg_ok_pre_echo
    by (auto simp: Let_def converged_by_snoc reported_def) metis+
  obtain a' rs where 2: "aggregate_all es a1 = Some (a', rs)" "length rs = length es"
    "\<And>i. i < length es \<Longrightarrow> reported m d (?lags @ map (counted_lag d) (take (Suc i) es)) (pre_echo_after d (take (Suc i) es) (pre_echo a1)) (rs ! i)"
    using Cons.IH[OF 1(2)] Cons.prems(2) by auto
  have "reported m d (lags @ map (counted_lag d) (take (Suc i) (e # es))) (pre_echo_after d (take (Suc i) (e # es)) (pre_echo a)) ((r # rs) ! i)"
    if "i < length (e # es)" for i
    using that 1(3,4) 2(3) by (cases i) (simp_all add: pre_echo_after_def)
  with 1 2 show ?case by simp
qed simp

text \<open>
  C17: A new aggregator handles every sequence of valid estimates. After each of them it reports
  a delay exactly when the lag that is the most frequent one of the last 250, the smallest of
  these if there are several, has been seen more often than the threshold demands: the initial
  one until some lag has passed the converged one. The estimate is refined from then on. Without
  pre-echo detection the delay is that lag; with it (the default) it is the candidate that the
  pre-echo histogram, fed with the pre-echo lags of the same estimates, has at that time. The lag
  0, to which the lags up to the headroom are counted, is scored 250 too low.
\<close>
theorem lag_aggregation:
  assumes "new_lag_aggregator m d = Some a" "list_all (valid_estimate m d) es"
  shows "\<exists>a' rs. aggregate_all es a = Some (a', rs) \<and> length rs = length es \<and>
    (\<forall>i<length es. let lags = map (counted_lag d) (take (Suc i) es); w = winner (Suc m) lags; c = lag_score lags w in
       (rs ! i \<noteq> None \<longleftrightarrow> c > dst_converged (delay_selection_thresholds d) \<or>
          c > dst_initial (delay_selection_thresholds d) \<and> \<not> converged_by m d lags) \<and>
       (\<forall>x. rs ! i = Some x \<longrightarrow> de_quality x = (if converged_by m d lags then kRefined else kCoarse) \<and>
          (\<not> detect_pre_echo d \<longrightarrow> de_delay x = int w) \<and>
          (detect_pre_echo d \<longrightarrow> (\<exists>p. pre_echo_after d (take (Suc i) es) (pre_echo a) = Some p \<and> de_delay x = pre_echo_candidate p))) \<and>
       (\<forall>v\<le>m. lag_score lags v \<le> c) \<and> (\<forall>v<w. lag_score lags v < c))"
proof -
  obtain a' rs where r: "aggregate_all es a = Some (a', rs)" "length rs = length es"
    "\<And>i. i < length es \<Longrightarrow> reported m d (map (counted_lag d) (take (Suc i) es)) (pre_echo_after d (take (Suc i) es) (pre_echo a)) (rs ! i)"
    using aggregate_all_ok[of m d "[]" a es] new_lag_aggregator_ok[OF assms(1)] assms(2) by auto
  have w: "(\<forall>v\<le>m. lag_score lags v \<le> lag_score lags (winner (Suc m) lags)) \<and>
      (\<forall>v<winner (Suc m) lags. lag_score lags v < lag_score lags (winner (Suc m) lags))" for lags
  proof -
    let ?xs = "map (lag_score lags) [0..<Suc m]"
    have m: "winner (Suc m) lags < Suc m" using max_element_spec(1)[of ?xs] by (simp add: winner_def)
    then have n: "?xs ! v = lag_score lags v" if "v \<le> m" for v using that by (simp del: upt_Suc)
    show ?thesis
      using max_element_spec(2,3)[of ?xs] n m by (auto simp: winner_def simp del: upt_Suc)
  qed
  show ?thesis
    using r w unfolding reported_def reports_def peak_def Let_def
    by (intro exI[of _ a'] exI[of _ rs]) (fastforce simp: delay_from_def)
qed

definition demo_delay_cfg :: delay_cfg where
  "demo_delay_cfg = (cfg_delay default_config)\<lparr>delay_headroom_samples := 0, detect_pre_echo := False\<rparr>"

lemma demo_delay_cfg_sel:
  "delay_headroom_samples demo_delay_cfg = 0" "detect_pre_echo demo_delay_cfg = False" "down_sampling_factor demo_delay_cfg = 4"
  "dst_initial (delay_selection_thresholds demo_delay_cfg) = 5" "dst_converged (delay_selection_thresholds demo_delay_cfg) = 20"
  by (simp_all add: demo_delay_cfg_def default_config_def default_delay_cfg_def)

theorem lag_aggregation_witness:
  "\<exists>a a' rs. new_lag_aggregator 1 demo_delay_cfg = Some a \<and>
     aggregate_all (replicate 21 \<lparr>lag = 1, pre_echo_lag = 1\<rparr>) a = Some (a', rs) \<and> (\<exists>x. rs ! 20 = Some x \<and> de_delay x = 1)"
proof -
  let ?es = "replicate 21 \<lparr>lag = 1, pre_echo_lag = 1\<rparr>"
  obtain a where a: "new_lag_aggregator 1 demo_delay_cfg = Some a"
    by (simp add: new_lag_aggregator_def demo_delay_cfg_sel)
  have "list_all (valid_estimate 1 demo_delay_cfg) ?es"
    by (simp add: list_all_iff valid_estimate_def demo_delay_cfg_sel)
  from lag_aggregation[OF a this] obtain a' rs where r: "aggregate_all ?es a = Some (a', rs)"
    and q: "\<And>i. i < length ?es \<Longrightarrow> (let lags = map (counted_lag demo_delay_cfg) (take (Suc i) ?es); w = winner (Suc 1) lags; c = lag_score lags w in
       (rs ! i \<noteq> None \<longleftrightarrow> c > dst_converged (delay_selection_thresholds demo_delay_cfg) \<or>
          c > dst_initial (delay_selection_thresholds demo_delay_cfg) \<and> \<not> converged_by 1 demo_delay_cfg lags) \<and>
       (\<forall>x. rs ! i = Some x \<longrightarrow> de_quality x = (if converged_by 1 demo_delay_cfg lags then kRefined else kCoarse) \<and>
          (\<not> detect_pre_echo demo_delay_cfg \<longrightarrow> de_delay x = int w) \<and>
          (detect_pre_echo demo_delay_cfg \<longrightarrow> (\<exists>p. pre_echo_after demo_delay_cfg (take (Suc i) ?es) (pre_echo a) = Some p \<and> de_delay x = pre_echo_candidate p))) \<and>
       (\<forall>v\<le>1. lag_score lags v \<le> c) \<and> (\<forall>v<w. lag_score lags v < c))"
    by blast
  have l: "map (counted_lag demo_delay_cfg) (take (Suc 20) ?es) = replicate 21 1"
    by (simp add: counted_lag_def demo_delay_cfg_sel min_def)
  have w: "winner (Suc 1) (replicate 21 1) = 1" "lag_score (replicate 21 1) 1 = 21"
    by code_simp+
  have "20 < length ?es" by simp
  from q[OF this, unfolded l Let_def w] show ?thesis using r a by (auto simp: demo_delay_cfg_sel)
qed

text \<open>
  An aggregator that only sees lags up to the headroom never reports a delay, however often it
  sees them: the zeros its window starts with are taken out of the histogram without ever having
  been counted.
\<close>
lemma zero_lag_never_found:
  assumes "new_lag_aggregator m d = Some a" "list_all (valid_estimate m d) es" "0 \<le> dst_initial (delay_selection_thresholds d)"
    and "\<forall>e\<in>set es. lag e \<le> delay_headroom_samples d div down_sampling_factor d"
  shows "\<exists>a' rs. aggregate_all es a = Some (a', rs) \<and> rs = replicate (length es) None"
proof -
  have t: "0 \<le> dst_converged (delay_selection_thresholds d)"
    using assms(1,3) by (auto simp: new_lag_aggregator_def split: if_splits)
  obtain a' rs where r: "aggregate_all es a = Some (a', rs)" "length rs = length es"
    "\<And>i. i < length es \<Longrightarrow> reported m d (map (counted_lag d) (take (Suc i) es)) (pre_echo_after d (take (Suc i) es) (pre_echo a)) (rs ! i)"
    using aggregate_all_ok[of m d "[]" a es] new_lag_aggregator_ok[OF assms(1)] assms(2) by auto
  have "rs ! i = None" if i: "i < length es" for i
  proof -
    let ?lags = "map (counted_lag d) (take (Suc i) es)"
    have z: "set (lag_window ?lags) \<subseteq> {0}"
    proof -
      have "counted_lag d e = 0" if "e \<in> set es" for e using assms(4) that by (auto simp: counted_lag_def)
      then have "set ?lags \<subseteq> {0}" by (auto dest: in_set_takeD)
      then show ?thesis using lag_window_set[of ?lags] by blast
    qed
    have "lag_score ?lags v \<le> 0" for v
    proof (cases "v = 0")
      case True
      then show ?thesis using count_le_length[of "lag_window ?lags" 0] by (simp add: lag_score_def)
    next
      case False
      then have "count_list (lag_window ?lags) (int v) = 0" using z by (auto simp: count_list_0_iff)
      then show ?thesis using False by (simp add: lag_score_def)
    qed
    then have "peak m ?lags \<le> 0" by (simp add: peak_def)
    then show ?thesis using r(3)[OF i] t assms(3) by (auto simp: reported_def reports_def)
  qed
  then have "rs = replicate (length es) None" using r(2) by (auto intro: nth_equalityI)
  then show ?thesis using r(1) by auto
qed

theorem zero_lag_never_found_witness:
  "\<exists>a a' rs. new_lag_aggregator 15 (cfg_delay default_config) = Some a \<and>
     aggregate_all (replicate 300 \<lparr>lag = 8, pre_echo_lag = 8\<rparr>) a = Some (a', rs) \<and> rs = replicate 300 None"
proof -
  let ?d = "cfg_delay default_config" and ?es = "replicate 300 \<lparr>lag = 8, pre_echo_lag = 8\<rparr>"
  have s: "down_sampling_factor ?d = 4" "delay_headroom_samples ?d = 32" "dst_initial (delay_selection_thresholds ?d) = 5"
    "dst_converged (delay_selection_thresholds ?d) = 20"
    by (simp_all add: default_config_def default_delay_cfg_def)
  obtain a where a: "new_lag_aggregator 15 ?d = Some a" by (simp add: new_lag_aggregator_def s)
  have "GetDownSamplingBlockSizeLog2 4 = 4"
    by (simp add: GetDownSamplingBlockSizeLog2_def log2_loop.simps kBlockSizeLog2_def)
  then have "list_all (valid_estimate 15 ?d) ?es"
    by (simp add: list_all_iff valid_estimate_def pre_echo_size_def s)
  from zero_lag_never_found[OF a this] a show ?thesis by (simp add: s)
qed

section \<open>What the controller reports\<close>

inductive controller_run :: "('m, 'i) matched_filter \<Rightarrow> nat \<Rightarrow> delay_cfg \<Rightarrow> 'm delay_controller \<Rightarrow> bool" for mf m d where
  new: "new_delay_controller x m d = Some c \<Longrightarrow> controller_run mf m d c"
| delay: "controller_run mf m d c \<Longrightarrow> GetDelay mf data c = Some (c', r) \<Longrightarrow> controller_run mf m d c'"
| reset: "controller_run mf m d c \<Longrightarrow> controller_run mf m d (DelayController_Reset mf confidence c)"

text \<open>The delay is the estimated one, or one smaller by at most the hysteresis.\<close>

definition close_to :: "nat \<Rightarrow> delay_estimate \<Rightarrow> delay_estimate \<Rightarrow> bool" where
  "close_to limit samples x \<longleftrightarrow>
     (let blocks = drop_bit kBlockSizeLog2 (de_delay samples) in de_delay x \<le> blocks \<and> blocks \<le> de_delay x + int limit)"

definition controller_ok :: "nat \<Rightarrow> 'm delay_controller \<Rightarrow> bool" where
  "controller_ok limit c \<longleftrightarrow> dc_hysteresis_limit_blocks c = limit \<and>
     (case dc_delay_samples c of None \<Rightarrow> dc_delay c = None
      | Some s \<Rightarrow> \<exists>x. dc_delay c = Some x \<and> close_to limit s x)"

lemma close_to_mono: "n \<le> limit \<Longrightarrow> close_to n s x \<Longrightarrow> close_to limit s x"
  by (auto simp: close_to_def Let_def)

lemma ComputeBufferDelay_close: "close_to n s (ComputeBufferDelay current n s)"
  by (auto simp: close_to_def ComputeBufferDelay_def Let_def split: option.splits)

lemma GetDelay_ok:
  assumes "GetDelay mf data c = Some (c', r)" "controller_ok limit c"
  shows "controller_ok limit c'" "r = dc_delay c'" "dc_delay c \<noteq> None \<Longrightarrow> r \<noteq> None"
proof -
  obtain e ds where e: "EstimateDelay mf data (delay_estimator c) = Some (e, ds)"
    using assms(1) by (auto simp: GetDelay_def Let_def bind_eq_Some_conv)
  have n: "close_to limit x (ComputeBufferDelay current limit x)" "close_to limit x (ComputeBufferDelay current 0 x)" for current x
    using ComputeBufferDelay_close close_to_mono by blast+
  show "controller_ok limit c'" "r = dc_delay c'" "dc_delay c \<noteq> None \<Longrightarrow> r \<noteq> None"
    using assms e n by (auto simp: GetDelay_def controller_ok_def Let_def split: option.splits)
qed

text \<open>
  Whatever the matched filter does, and however calls and resets follow one another, the delay
  in blocks is at most the one of the last estimate and at most the hysteresis below it, a
  call answers with it, and once there is a delay every call until the next reset has one.
\<close>
lemma buffer_delay_close:
  assumes "controller_run mf m d c" "GetDelay mf data c = Some (c', r)"
  shows "(dc_delay c \<noteq> None \<longrightarrow> r \<noteq> None) \<and> (r = None \<longleftrightarrow> dc_delay_samples c' = None) \<and>
    (\<forall>x s. r = Some x \<and> dc_delay_samples c' = Some s \<longrightarrow>
       de_delay x \<le> de_delay s div 64 \<and> de_delay s div 64 \<le> de_delay x + int (hysteresis_limit_blocks d))"
proof -
  have "controller_ok (hysteresis_limit_blocks d) c"
    using assms(1)
  proof (induction rule: controller_run.induct)
    case (new x c)
    then show ?case by (auto simp: new_delay_controller_def controller_ok_def bind_eq_Some_conv)
  next
    case (delay c data c' r)
    show ?case by (rule GetDelay_ok(1)[OF delay.hyps(2) delay.IH])
  next
    case (reset c confidence)
    then show ?case by (simp add: DelayController_Reset_def controller_ok_def Let_def)
  qed
  note q = GetDelay_ok[OF assms(2) this]
  show ?thesis
    using q by (auto simp: controller_ok_def close_to_def Let_def kBlockSizeLog2_def drop_bit_eq_div split: option.splits)
qed

text \<open>A matched filter whose state is its estimate, and two calls on it.\<close>

definition demo_filter :: "(lag_estimate option, lag_estimate option) matched_filter" where
  "demo_filter = \<lparr>mf_update = (\<lambda>data _ _. data), mf_best_lag = id, mf_reset = (\<lambda>_ m. m)\<rparr>"

theorem buffer_delay_close_witness:
  "\<exists>c c' r. controller_run demo_filter 1 demo_delay_cfg c \<and> GetDelay demo_filter None c = Some (c', r) \<and>
     (r = None \<longleftrightarrow> dc_delay_samples c' = None)"
proof -
  obtain c :: "lag_estimate option delay_controller" where c: "new_delay_controller None 1 demo_delay_cfg = Some c"
    by (simp add: new_delay_controller_def new_path_delay_estimator_def new_lag_aggregator_def demo_delay_cfg_sel)
  have run: "controller_run demo_filter 1 demo_delay_cfg c" using c by (rule controller_run.new)
  obtain c' r where g: "GetDelay demo_filter None c = Some (c', r)"
    by (simp add: GetDelay_def EstimateDelay_def demo_filter_def LagAggregator_Aggregate_def Let_def split: option.splits)
  show ?thesis
    using run g buffer_delay_close[OF run g] by (intro exI[of _ c] exI[of _ c'] exI[of _ r]) simp
qed

end
