(* ===== verification/Aec_Block_Processor.thy ===== *)
theory Aec_Block_Processor
  imports Aec_Render_Buffer Aec_Lag
begin

text \<open>
  \<^verbatim>\<open>BlockProcessorImpl\<close> in
  \<^verbatim>\<open>crates/fswtch-apm-sys/cpp/modules/audio_processing/aec3/block_processor.cc\<close>: it puts together the
  render delay buffer, the delay controller and the echo remover. The first two are the models of
  their theories; the echo remover, a virtual interface, is a parameter, as are the signal
  processing of the render delay buffer and the matched filter. The logging is not modelled.
\<close>

section \<open>The parts\<close>

datatype delay_adjustment = AdjNone | AdjBufferFlush | AdjNewDetectedDelay

record echo_path_variability =
  gain_change :: bool
  delay_change :: delay_adjustment
  clock_drift :: bool

definition AudioPathChanged :: "echo_path_variability \<Rightarrow> bool" where
  "AudioPathChanged v \<longleftrightarrow> gain_change v \<or> delay_change v \<noteq> AdjNone"

text \<open>\<^verbatim>\<open>EchoRemover\<close>: what it does to the capture block and the block for the linear output.\<close>

record ('m, 'f, 's, 'r) echo_remover =
  er_ProcessCapture :: "echo_path_variability \<Rightarrow> bool \<Rightarrow> delay_estimate option \<Rightarrow> ('m, 'f, 's) render_delay_buffer \<Rightarrow>
    'r \<Rightarrow> rat block option \<Rightarrow> rat block \<Rightarrow> 'r \<times> rat block option \<times> rat block"
  er_UpdateEchoLeakageStatus :: "bool \<Rightarrow> 'r \<Rightarrow> 'r"
  er_SetCaptureOutputUsage :: "bool \<Rightarrow> 'r \<Rightarrow> 'r"
  er_GetMetrics :: "'r \<Rightarrow> rat \<times> rat"

text \<open>
  All the code the block processor is put together from that is a parameter here. In a build with
  \<^verbatim>\<open>RTC_DCHECK\<close> the creation of the echo remover can fail: its constructors check the
  configuration, see \<open>suppression_gain_checks\<close> in the theory of the adjustments for a check
  that a field trial can break.
\<close>

record ('m, 'f, 's, 'k, 'r) parts =
  p_dsp :: "('m, 'f, 's) dsp"
  p_filter :: "('k, rat ring \<times> rat block) matched_filter"
  p_remover :: "('m, 'f, 's, 'r) echo_remover"
  p_new_filter :: "aec3_config \<Rightarrow> nat \<Rightarrow> 'k"
  p_max_filter_lag :: "aec3_config \<Rightarrow> nat"
  p_new_remover :: "aec3_config \<Rightarrow> nat \<Rightarrow> nat \<Rightarrow> nat \<Rightarrow> 'r option"

record ('m, 'f, 's, 'k, 'r) block_processor =
  bp_config :: aec3_config
  capture_properly_started :: bool
  render_properly_started :: bool
  bp_sample_rate_hz :: nat
  render_buffer :: "('m, 'f, 's) render_delay_buffer"
  delay_controller :: "'k delay_controller option"
  echo_remover :: 'r
  bp_metrics :: block_metrics
  render_event :: buffering_event
  bp_capture_call_counter :: nat
  estimated_delay :: "delay_estimate option"

definition new_block_processor ::
    "('m, 'f, 's, 'k, 'r) parts \<Rightarrow> aec3_config \<Rightarrow> nat \<Rightarrow> nat \<Rightarrow> nat \<Rightarrow> ('m, 'f, 's, 'k, 'r) block_processor option" where
  "new_block_processor parts config sample_rate_hz num_render_channels num_capture_channels = do {
     rb \<leftarrow> new_render_delay_buffer (p_dsp parts) config sample_rate_hz num_render_channels;
     dc \<leftarrow> (if \<not> use_external_delay_estimator (cfg_delay config)
           then do { RTC_DCHECK (ValidFullBandRate sample_rate_hz);
                     c \<leftarrow> new_delay_controller (p_new_filter parts config num_capture_channels) (p_max_filter_lag parts config) (cfg_delay config);
                     Some (Some c) }
           else Some None);
     remover \<leftarrow> p_new_remover parts config sample_rate_hz num_render_channels num_capture_channels;
     RTC_DCHECK (ValidFullBandRate sample_rate_hz);
     Some \<lparr>bp_config = config, capture_properly_started = False, render_properly_started = False,
           bp_sample_rate_hz = sample_rate_hz, render_buffer = rb, delay_controller = dc,
           echo_remover = remover,
           bp_metrics = new_block_metrics, render_event = kNone, bp_capture_call_counter = 0, estimated_delay = None\<rparr>
   }"

section \<open>The calls\<close>

definition reset_controller ::
    "('m, 'f, 's, 'k, 'r) parts \<Rightarrow> bool \<Rightarrow> ('m, 'f, 's, 'k, 'r) block_processor \<Rightarrow> ('m, 'f, 's, 'k, 'r) block_processor" where
  "reset_controller parts confidence st =
     st\<lparr>delay_controller := map_option (DelayController_Reset (p_filter parts) confidence) (delay_controller st)\<rparr>"

text \<open>The first part: the start, an overrun of the render buffer, and its preparation.\<close>

definition prepare_capture ::
    "('m, 'f, 's, 'k, 'r) parts \<Rightarrow> ('m, 'f, 's, 'k, 'r) block_processor \<Rightarrow>
     (('m, 'f, 's, 'k, 'r) block_processor \<times> delay_adjustment) option" where
  "prepare_capture parts st = do {
     st \<leftarrow> (if \<not> capture_properly_started st
           then do { let st = st\<lparr>capture_properly_started := True\<rparr>;
                     rb \<leftarrow> Reset (render_buffer st);
                     Some (reset_controller parts True (st\<lparr>render_buffer := rb\<rparr>)) }
           else Some st);
     let (st, change) = (if render_event st = kRenderOverrun \<and> render_properly_started st
                         then (reset_controller parts True st, AdjBufferFlush) else (st, AdjNone));
     let st = st\<lparr>render_event := kNone\<rparr>;
     (rb, buffer_event) \<leftarrow> PrepareCaptureProcessing (render_buffer st);
     let st = st\<lparr>render_buffer := rb\<rparr>;
     Some (if buffer_event = kRenderUnderrun then reset_controller parts False st else st, change)
   }"

text \<open>The second part: the alignment of the render buffer.\<close>

definition align_capture ::
    "('m, 'f, 's, 'k, 'r) parts \<Rightarrow> rat block \<Rightarrow> echo_path_variability \<Rightarrow> ('m, 'f, 's, 'k, 'r) block_processor \<Rightarrow>
     (('m, 'f, 's, 'k, 'r) block_processor \<times> echo_path_variability) option" where
  "align_capture parts capture_block variability st =
     (if \<not> use_external_delay_estimator (cfg_delay (bp_config st))
      then do {
        dc \<leftarrow> delay_controller st;
        (dc, estimate) \<leftarrow> GetDelay (p_filter parts) (low_rate (render_buffer st), capture_block) dc;
        let st = st\<lparr>delay_controller := Some dc, estimated_delay := estimate\<rparr>;
        (st, variability) \<leftarrow> (case estimate of None \<Rightarrow> Some (st, variability)
          | Some e \<Rightarrow> do {
              (rb, changed) \<leftarrow> AlignFromDelay (de_delay e) (render_buffer st);
              Some (st\<lparr>render_buffer := rb\<rparr>,
                    if changed then variability\<lparr>delay_change := AdjNewDetectedDelay\<rparr> else variability) });
        Some (st, variability\<lparr>clock_drift := HasClockdrift dc\<rparr>)
      }
      else do {
        rb \<leftarrow> AlignFromExternalDelay (render_buffer st);
        Some (st\<lparr>render_buffer := rb\<rparr>, variability)
      })"

definition BlockProcessor_ProcessCapture ::
    "('m, 'f, 's, 'k, 'r) parts \<Rightarrow> bool \<Rightarrow> bool \<Rightarrow> rat block option \<Rightarrow> rat block \<Rightarrow> ('m, 'f, 's, 'k, 'r) block_processor \<Rightarrow>
     (('m, 'f, 's, 'k, 'r) block_processor \<times> rat block option \<times> rat block) option" where
  "BlockProcessor_ProcessCapture parts echo_path_gain_change capture_signal_saturation linear_output capture_block st = do {
     RTC_DCHECK (NumBandsForRate (bp_sample_rate_hz st) = num_bands capture_block);
     let st = st\<lparr>bp_capture_call_counter := bp_capture_call_counter st + 1\<rparr>;
     if \<not> render_properly_started st
     then Some (st\<lparr>render_buffer := HandleSkippedCaptureProcessing (render_buffer st)\<rparr>, linear_output, capture_block)
     else do {
       (st, change) \<leftarrow> prepare_capture parts st;
       (st, variability) \<leftarrow> align_capture parts capture_block
          \<lparr>gain_change = echo_path_gain_change, delay_change = change, clock_drift = False\<rparr> st;
       let (r, linear_output, capture_block) =
         (if \<not> use_external_delay_estimator (cfg_delay (bp_config st)) \<or> HasReceivedBufferDelay (render_buffer st)
          then er_ProcessCapture (p_remover parts) variability capture_signal_saturation (estimated_delay st)
                 (render_buffer st) (echo_remover st) linear_output capture_block
          else (echo_remover st, linear_output, capture_block));
       Some (st\<lparr>echo_remover := r, bp_metrics := fst (UpdateCapture False (bp_metrics st))\<rparr>, linear_output, capture_block)
     }
   }"

definition BufferRender ::
    "('m, 'f, 's, 'k, 'r) parts \<Rightarrow> rat block \<Rightarrow> ('m, 'f, 's, 'k, 'r) block_processor \<Rightarrow> ('m, 'f, 's, 'k, 'r) block_processor option" where
  "BufferRender parts blk st = do {
     RTC_DCHECK (NumBandsForRate (bp_sample_rate_hz st) = num_bands blk);
     (rb, event) \<leftarrow> Insert (p_dsp parts) blk (render_buffer st);
     let st = st\<lparr>render_buffer := rb, render_event := event\<rparr>;
     Some (st\<lparr>bp_metrics := UpdateRender (render_event st \<noteq> kNone) (bp_metrics st), render_properly_started := True\<rparr>)
   }"

definition BlockProcessor_UpdateEchoLeakageStatus ::
    "('m, 'f, 's, 'k, 'r) parts \<Rightarrow> bool \<Rightarrow> ('m, 'f, 's, 'k, 'r) block_processor \<Rightarrow> ('m, 'f, 's, 'k, 'r) block_processor" where
  "BlockProcessor_UpdateEchoLeakageStatus parts leakage st =
     st\<lparr>echo_remover := er_UpdateEchoLeakageStatus (p_remover parts) leakage (echo_remover st)\<rparr>"

text \<open>The two losses, and the delay in milliseconds.\<close>

definition BlockProcessor_GetMetrics :: "('m, 'f, 's, 'k, 'r) parts \<Rightarrow> ('m, 'f, 's, 'k, 'r) block_processor \<Rightarrow> rat \<times> rat \<times> int" where
  "BlockProcessor_GetMetrics parts st =
     (let (erl, erle) = er_GetMetrics (p_remover parts) (echo_remover st); block_size_ms = 4
      in (erl, erle, ComputeDelay (render_buffer st) * block_size_ms))"

definition BlockProcessor_SetAudioBufferDelay :: "int \<Rightarrow> ('m, 'f, 's, 'k, 'r) block_processor \<Rightarrow> ('m, 'f, 's, 'k, 'r) block_processor" where
  "BlockProcessor_SetAudioBufferDelay delay_ms st = st\<lparr>render_buffer := SetAudioBufferDelay delay_ms (render_buffer st)\<rparr>"

definition BlockProcessor_SetCaptureOutputUsage ::
    "('m, 'f, 's, 'k, 'r) parts \<Rightarrow> bool \<Rightarrow> ('m, 'f, 's, 'k, 'r) block_processor \<Rightarrow> ('m, 'f, 's, 'k, 'r) block_processor" where
  "BlockProcessor_SetCaptureOutputUsage parts used st =
     st\<lparr>echo_remover := er_SetCaptureOutputUsage (p_remover parts) used (echo_remover st)\<rparr>"

section \<open>The delay controller never fails\<close>

text \<open>What a matched filter for this configuration promises: its lags are in range.\<close>

definition filter_ok :: "('m, 'f, 's, 'k, 'r) parts \<Rightarrow> aec3_config \<Rightarrow> bool" where
  "filter_ok parts config \<longleftrightarrow>
     (\<forall>k e. mf_best_lag (p_filter parts) k = Some e \<longrightarrow> valid_estimate (p_max_filter_lag parts config) (cfg_delay config) e)"

definition aggregator_ok :: "nat \<Rightarrow> delay_cfg \<Rightarrow> lag_aggregator \<Rightarrow> bool" where
  "aggregator_ok m d a \<longleftrightarrow> (\<exists>lags found. agg_ok m d lags found a)"

definition controller_fit :: "nat \<Rightarrow> delay_cfg \<Rightarrow> 'k delay_controller \<Rightarrow> bool" where
  "controller_fit m d c \<longleftrightarrow> aggregator_ok m d (lag_aggregator (delay_estimator c))"

lemma aggregate_fit:
  assumes "aggregator_ok m d a" "\<And>e. est = Some e \<Longrightarrow> valid_estimate m d e"
  shows "\<exists>a' r. LagAggregator_Aggregate est a = Some (a', r) \<and> aggregator_ok m d a'"
proof (cases est)
  case None
  then show ?thesis using assms(1) by (simp add: LagAggregator_Aggregate_def)
next
  case (Some e)
  obtain lags found where a: "agg_ok m d lags found a" using assms(1) by (auto simp: aggregator_ok_def)
  show ?thesis using LagAggregator_Aggregate_ok[OF a assms(2)[OF Some]] Some by (auto simp: aggregator_ok_def Let_def)
qed

lemma reset2_fit: "aggregator_ok m d (lag_aggregator s) \<Longrightarrow> aggregator_ok m d (lag_aggregator (PathDelay_Reset2 mf x y s))"
  using LagAggregator_Reset_ok by (fastforce simp: PathDelay_Reset2_def Let_def aggregator_ok_def)

lemma EstimateDelay_fit:
  assumes "aggregator_ok m d (lag_aggregator s)" "\<And>k e. mf_best_lag mf k = Some e \<Longrightarrow> valid_estimate m d e"
  shows "\<exists>s' r. EstimateDelay mf data s = Some (s', r) \<and> aggregator_ok m d (lag_aggregator s')"
proof -
  let ?k = "mf_update mf data (ReliableDelayFound (lag_aggregator s)) (pd_matched_filter s)"
  obtain a r where a: "LagAggregator_Aggregate (mf_best_lag mf ?k) (lag_aggregator s) = Some (a, r)" "aggregator_ok m d a"
    using aggregate_fit[OF assms(1), of "mf_best_lag mf ?k"] assms(2) by blast
  then show ?thesis
    by (auto simp: EstimateDelay_def Let_def reset2_fit split: option.splits)
qed

lemma GetDelay_fit:
  assumes "controller_fit m d c" "\<And>k e. mf_best_lag mf k = Some e \<Longrightarrow> valid_estimate m d e"
  shows "\<exists>c' r. GetDelay mf data c = Some (c', r) \<and> controller_fit m d c'"
proof -
  have "\<exists>s r. EstimateDelay mf data (delay_estimator c) = Some (s, r) \<and> aggregator_ok m d (lag_aggregator s)"
    using assms by (intro EstimateDelay_fit) (simp_all add: controller_fit_def)
  then obtain s r where s: "EstimateDelay mf data (delay_estimator c) = Some (s, r)" "aggregator_ok m d (lag_aggregator s)"
    by blast
  then show ?thesis
    by (auto simp: GetDelay_def controller_fit_def Let_def split: option.splits)
qed

lemma DelayController_Reset_fit: "controller_fit m d c \<Longrightarrow> controller_fit m d (DelayController_Reset mf x c)"
  by (simp add: DelayController_Reset_def controller_fit_def PathDelay_Reset_def reset2_fit Let_def)

section \<open>No call fails\<close>

text \<open>What a processor needs of its configuration, and the state that its calls keep.\<close>

definition processor_setup :: "('m, 'f, 's, 'k, 'r) parts \<Rightarrow> aec3_config \<Rightarrow> nat \<Rightarrow> nat \<Rightarrow> bool" where
  "processor_setup parts config rate nc \<longleftrightarrow> render_setup (p_dsp parts) config rate nc \<and> filter_ok parts config \<and>
     dst_initial (delay_selection_thresholds (cfg_delay config)) \<le> dst_converged (delay_selection_thresholds (cfg_delay config))"

definition processor_inv ::
    "('m, 'f, 's, 'k, 'r) parts \<Rightarrow> aec3_config \<Rightarrow> nat \<Rightarrow> nat \<Rightarrow> rat block list \<Rightarrow> ('m, 'f, 's, 'k, 'r) block_processor \<Rightarrow> bool" where
  "processor_inv parts config rate nc h st \<longleftrightarrow>
     run_inv (p_dsp parts) config rate nc h (render_buffer st) \<and> bp_config st = config \<and> bp_sample_rate_hz st = rate \<and>
     (\<exists>c. delay_controller st = Some c \<and> controller_fit (p_max_filter_lag parts config) (cfg_delay config) c) \<and>
     (render_properly_started st \<longleftrightarrow> h \<noteq> [])"

lemma setup_internal: "processor_setup parts config rate nc \<Longrightarrow> \<not> use_external_delay_estimator (cfg_delay config)"
  by (simp add: processor_setup_def render_setup_def)

lemma new_block_processor_ok:
  assumes "processor_setup parts config rate nc" "p_new_remover parts config rate nc ncap \<noteq> None"
  shows "\<exists>st. new_block_processor parts config rate nc ncap = Some st \<and> processor_inv parts config rate nc [] st"
proof -
  have r: "render_setup (p_dsp parts) config rate nc" using assms by (simp add: processor_setup_def)
  obtain remover where "p_new_remover parts config rate nc ncap = Some remover" using assms(2) by blast
  moreover obtain rb where rb: "new_render_delay_buffer (p_dsp parts) config rate nc = Some rb" "run_inv (p_dsp parts) config rate nc [] rb"
  proof -
    have "valid_delay (cfg_delay config)" "default_delay (cfg_delay config) \<le> rings_size config" "0 < NumBandsForRate rate" "0 < nc"
      using r bands_pos by (simp_all add: render_setup_def)
    from new_render_delay_buffer_ok[OF this, of "p_dsp parts"] obtain rb
      where rb: "new_render_delay_buffer (p_dsp parts) config rate nc = Some rb" by blast
    have "run_inv (p_dsp parts) config rate nc [] rb" by (rule rdb_run_inv[OF rdb_run.run_start[OF rb] r])
    with rb show thesis by (rule that)
  qed
  moreover have f: "down_sampling_factor (cfg_delay config) \<noteq> 0" using r by (auto simp: render_setup_def valid_delay_def)
  moreover from f obtain a where a: "new_lag_aggregator (p_max_filter_lag parts config) (cfg_delay config) = Some a"
    using assms by (auto simp: new_lag_aggregator_def processor_setup_def not_less)
  moreover have "aggregator_ok (p_max_filter_lag parts config) (cfg_delay config) a"
    using new_lag_aggregator_ok[OF a] by (auto simp: aggregator_ok_def)
  ultimately show ?thesis
    using rb a setup_internal[OF assms(1)] r
    by (simp add: new_block_processor_def new_delay_controller_def new_path_delay_estimator_def processor_inv_def RTC_DCHECK_def
        render_setup_def controller_fit_def)
qed

lemma reset_controller_inv: "processor_inv parts config rate nc h st \<Longrightarrow> processor_inv parts config rate nc h (reset_controller parts x st)"
  by (auto simp: processor_inv_def reset_controller_def DelayController_Reset_fit)

lemma processor_inv_frame:
  assumes "processor_inv parts config rate nc h st" "run_inv (p_dsp parts) config rate nc h (render_buffer st')"
    "bp_config st' = bp_config st" "bp_sample_rate_hz st' = bp_sample_rate_hz st" "delay_controller st' = delay_controller st"
    "render_properly_started st' = render_properly_started st"
  shows "processor_inv parts config rate nc h st'"
  using assms by (simp add: processor_inv_def)

lemma inserted_unchecked: "processor_inv parts config rate nc h st \<Longrightarrow> h \<noteq> [] \<Longrightarrow> \<not> rtc_dcheck_is_on (p_dsp parts)"
  by (simp add: processor_inv_def run_inv_def)

lemma prepare_capture_ok:
  assumes "processor_inv parts config rate nc h st" "h \<noteq> []"
  shows "\<exists>st' change. prepare_capture parts st = Some (st', change) \<and> processor_inv parts config rate nc h st'"
proof -
  have r: "run_inv (p_dsp parts) config rate nc h (render_buffer st)" using assms(1) by (simp add: processor_inv_def)
  define first where "first = (if \<not> capture_properly_started st
           then do { let st = st\<lparr>capture_properly_started := True\<rparr>;
                     rb \<leftarrow> Reset (render_buffer st);
                     Some (reset_controller parts True (st\<lparr>render_buffer := rb\<rparr>)) }
           else Some st)"
  obtain st1 where st1: "first = Some st1" "processor_inv parts config rate nc h st1"
  proof (cases "capture_properly_started st")
    case True
    then show ?thesis using that[of st] assms(1) by (simp add: first_def)
  next
    case False
    obtain rb where rb: "Reset (render_buffer st) = Some rb" "run_inv (p_dsp parts) config rate nc h rb"
      using run_inv_reset[OF r] by blast
    have "processor_inv parts config rate nc h (st\<lparr>capture_properly_started := True, render_buffer := rb\<rparr>)"
      by (rule processor_inv_frame[OF assms(1)]) (simp_all add: rb)
    then show ?thesis using that[OF _ reset_controller_inv] False rb by (simp add: first_def)
  qed
  define flushed where "flushed = (if render_event st1 = kRenderOverrun \<and> render_properly_started st1 then reset_controller parts True st1 else st1)"
  define st2 where "st2 = flushed\<lparr>render_event := kNone\<rparr>"
  have flushed: "processor_inv parts config rate nc h flushed"
    using reset_controller_inv[OF st1(2)] st1(2) by (simp add: flushed_def)
  have st2: "processor_inv parts config rate nc h st2"
    by (rule processor_inv_frame[OF flushed]) (use flushed in \<open>simp_all add: st2_def processor_inv_def\<close>)
  obtain rb ev where rb: "PrepareCaptureProcessing (render_buffer st2) = Some (rb, ev)" "run_inv (p_dsp parts) config rate nc h rb"
    using run_inv_prepare[of "p_dsp parts" config rate nc h "render_buffer st2"] st2 inserted_unchecked[OF assms]
    by (auto simp: processor_inv_def)
  have st3: "processor_inv parts config rate nc h (st2\<lparr>render_buffer := rb\<rparr>)"
    by (rule processor_inv_frame[OF st2]) (simp_all add: rb)
  define change where "change = (if render_event st1 = kRenderOverrun \<and> render_properly_started st1 then AdjBufferFlush else AdjNone)"
  have "prepare_capture parts st = Some (if ev = kRenderUnderrun then reset_controller parts False (st2\<lparr>render_buffer := rb\<rparr>) else st2\<lparr>render_buffer := rb\<rparr>, change)"
    using st1(1) rb(1) by (cases "render_event st1 = kRenderOverrun"; cases "render_properly_started st1")
      (simp_all add: prepare_capture_def first_def[symmetric] st2_def flushed_def change_def Let_def)
  then show ?thesis using st3 reset_controller_inv[OF st3] by auto
qed

lemma align_capture_ok:
  assumes "processor_inv parts config rate nc h st" "processor_setup parts config rate nc"
  shows "\<exists>st' v'. align_capture parts blk v st = Some (st', v') \<and> processor_inv parts config rate nc h st' \<and>
    gain_change v' = gain_change v \<and> (\<forall>e. estimated_delay st' = Some e \<longrightarrow> delay (render_buffer st') = Some (de_delay e))"
proof -
  note inv = assms(1)[unfolded processor_inv_def]
  obtain c where c: "delay_controller st = Some c" "controller_fit (p_max_filter_lag parts config) (cfg_delay config) c"
    using inv by blast
  have f: "\<And>k e. mf_best_lag (p_filter parts) k = Some e \<Longrightarrow> valid_estimate (p_max_filter_lag parts config) (cfg_delay config) e"
    using assms(2) by (simp add: processor_setup_def filter_ok_def)
  have "\<exists>c' est. GetDelay (p_filter parts) (low_rate (render_buffer st), blk) c = Some (c', est) \<and>
      controller_fit (p_max_filter_lag parts config) (cfg_delay config) c'"
    by (rule GetDelay_fit[OF c(2)]) (rule f)
  then obtain c' est where g: "GetDelay (p_filter parts) (low_rate (render_buffer st), blk) c = Some (c', est)"
    "controller_fit (p_max_filter_lag parts config) (cfg_delay config) c'"
    by blast
  define st1 where "st1 = st\<lparr>delay_controller := Some c', estimated_delay := est\<rparr>"
  have st1: "processor_inv parts config rate nc h st1"
    using inv g(2) by (simp add: processor_inv_def st1_def)
  have d: "\<not> use_external_delay_estimator (cfg_delay (bp_config st))" using inv setup_internal[OF assms(2)] by simp
  show ?thesis
  proof (cases est)
    case None
    then have "align_capture parts blk v st = Some (st1, v\<lparr>clock_drift := HasClockdrift c'\<rparr>)"
      using c(1) g(1) d by (simp add: align_capture_def st1_def Let_def)
    then show ?thesis using st1 None by (intro exI[of _ st1] exI[of _ "v\<lparr>clock_drift := HasClockdrift c'\<rparr>"]) (simp add: st1_def)
  next
    case (Some e)
    have r: "run_inv (p_dsp parts) config rate nc h (render_buffer st)" "render_setup (p_dsp parts) config rate nc"
      using inv assms(2) by (simp_all add: processor_setup_def)
    obtain rb ch where rb: "AlignFromDelay (de_delay e) (render_buffer st) = Some (rb, ch)" "run_inv (p_dsp parts) config rate nc h rb"
      "delay rb = Some (de_delay e)"
      using run_inv_align[OF r, of "de_delay e"] by blast
    have "processor_inv parts config rate nc h (st1\<lparr>render_buffer := rb\<rparr>)"
      by (rule processor_inv_frame[OF st1]) (simp_all add: rb)
    moreover have "align_capture parts blk v st = Some (st1\<lparr>render_buffer := rb\<rparr>,
        (if ch then v\<lparr>delay_change := AdjNewDetectedDelay\<rparr> else v)\<lparr>clock_drift := HasClockdrift c'\<rparr>)"
      using c(1) g(1) d rb(1) Some by (simp add: align_capture_def st1_def Let_def)
    ultimately show ?thesis
      using rb(3) Some by (intro exI[of _ "st1\<lparr>render_buffer := rb\<rparr>"]
          exI[of _ "(if ch then v\<lparr>delay_change := AdjNewDetectedDelay\<rparr> else v)\<lparr>clock_drift := HasClockdrift c'\<rparr>"]) (simp add: st1_def)
  qed
qed

lemma ProcessCapture_ok:
  assumes "processor_inv parts config rate nc h st" "processor_setup parts config rate nc" "num_bands blk = NumBandsForRate rate"
  shows "\<exists>st' lin' blk'. BlockProcessor_ProcessCapture parts g s lin blk st = Some (st', lin', blk') \<and> processor_inv parts config rate nc h st' \<and>
    (h = [] \<longrightarrow> lin' = lin \<and> blk' = blk) \<and>
    (h \<noteq> [] \<longrightarrow> (\<exists>v rb r. (lin', blk') = snd (er_ProcessCapture (p_remover parts) v s (estimated_delay st') rb r lin blk) \<and>
       gain_change v = g \<and> run_inv (p_dsp parts) config rate nc h rb \<and>
       (\<forall>e. estimated_delay st' = Some e \<longrightarrow> delay rb = Some (de_delay e))))"
proof -
  define st0 where "st0 = st\<lparr>bp_capture_call_counter := bp_capture_call_counter st + 1\<rparr>"
  have st0: "processor_inv parts config rate nc h st0"
    by (rule processor_inv_frame[OF assms(1)]) (use assms(1) in \<open>simp_all add: st0_def processor_inv_def\<close>)
  have b: "RTC_DCHECK (NumBandsForRate (bp_sample_rate_hz st) = num_bands blk) = Some ()"
    using assms by (simp add: processor_inv_def RTC_DCHECK_def)
  show ?thesis
  proof (cases "h = []")
    case True
    then have n: "\<not> render_properly_started st" using assms(1) by (simp add: processor_inv_def)
    have "run_inv (p_dsp parts) config rate nc h (HandleSkippedCaptureProcessing (render_buffer st0))"
      by (rule run_inv_frame[of _ _ _ _ _ "render_buffer st0"]) (use st0 in \<open>simp_all add: processor_inv_def HandleSkippedCaptureProcessing_def\<close>)
    then have "processor_inv parts config rate nc h (st0\<lparr>render_buffer := HandleSkippedCaptureProcessing (render_buffer st0)\<rparr>)"
      by (intro processor_inv_frame[OF st0]) simp_all
    moreover have "BlockProcessor_ProcessCapture parts g s lin blk st =
        Some (st0\<lparr>render_buffer := HandleSkippedCaptureProcessing (render_buffer st0)\<rparr>, lin, blk)"
      using n b by (simp add: BlockProcessor_ProcessCapture_def st0_def Let_def)
    ultimately show ?thesis using True by blast
  next
    case False
    then have n: "render_properly_started st" using assms(1) by (simp add: processor_inv_def)
    obtain st1 change where st1: "prepare_capture parts st0 = Some (st1, change)" "processor_inv parts config rate nc h st1"
      using prepare_capture_ok[OF st0 False] by blast
    let ?v = "\<lparr>gain_change = g, delay_change = change, clock_drift = False\<rparr>"
    obtain st2 v where st2: "align_capture parts blk ?v st1 = Some (st2, v)" "processor_inv parts config rate nc h st2"
      "gain_change v = gain_change ?v" "\<forall>e. estimated_delay st2 = Some e \<longrightarrow> delay (render_buffer st2) = Some (de_delay e)"
      using align_capture_ok[OF st1(2) assms(2)] by blast
    obtain r lin' blk' where er: "er_ProcessCapture (p_remover parts) v s (estimated_delay st2) (render_buffer st2) (echo_remover st2) lin blk = (r, lin', blk')"
      by (metis prod_cases3)
    define st3 where "st3 = st2\<lparr>echo_remover := r, bp_metrics := fst (UpdateCapture False (bp_metrics st2))\<rparr>"
    have st3: "processor_inv parts config rate nc h st3"
      by (rule processor_inv_frame[OF st2(2)]) (use st2(2) in \<open>simp_all add: st3_def processor_inv_def\<close>)
    have d: "\<not> use_external_delay_estimator (cfg_delay (bp_config st2))"
      using st2(2) setup_internal[OF assms(2)] by (simp add: processor_inv_def)
    have "BlockProcessor_ProcessCapture parts g s lin blk st = Some (st3, lin', blk')"
      using n b st1(1) st2(1) er d by (simp add: BlockProcessor_ProcessCapture_def st0_def st3_def Let_def)
    moreover have "(lin', blk') = snd (er_ProcessCapture (p_remover parts) v s (estimated_delay st3) (render_buffer st2) (echo_remover st2) lin blk)"
      using er by (simp add: st3_def)
    moreover have "run_inv (p_dsp parts) config rate nc h (render_buffer st2)" using st2(2) by (simp add: processor_inv_def)
    moreover have "gain_change v = g" "\<forall>e. estimated_delay st3 = Some e \<longrightarrow> delay (render_buffer st2) = Some (de_delay e)"
      using st2(3,4) by (simp_all add: st3_def)
    ultimately show ?thesis
      using st3 False by (intro exI[of _ st3] exI[of _ lin'] exI[of _ blk']) blast
  qed
qed

lemma BufferRender_checked:
  assumes "processor_inv parts config rate nc h st" "processor_setup parts config rate nc" "rtc_dcheck_is_on (p_dsp parts)"
  shows "BufferRender parts blk st = None"
  using run_inv_insert_checked[of "p_dsp parts" config rate nc h "render_buffer st"] assms
  by (simp add: BufferRender_def processor_inv_def processor_setup_def RTC_DCHECK_def)

lemma BufferRender_ok:
  assumes "processor_inv parts config rate nc h st" "processor_setup parts config rate nc" "wf_block (NumBandsForRate rate) nc blk"
    "\<not> rtc_dcheck_is_on (p_dsp parts)"
  shows "\<exists>st'. BufferRender parts blk st = Some st' \<and> processor_inv parts config rate nc (blk # h) st'"
proof -
  have r: "run_inv (p_dsp parts) config rate nc h (render_buffer st)" "render_setup (p_dsp parts) config rate nc"
    using assms by (simp_all add: processor_inv_def processor_setup_def)
  obtain rb ev where "Insert (p_dsp parts) blk (render_buffer st) = Some (rb, ev)" "run_inv (p_dsp parts) config rate nc (blk # h) rb"
    using run_inv_insert[OF r assms(3,4)] by blast
  moreover have "num_bands blk = NumBandsForRate rate" using assms(3) by (simp add: wf_block_def)
  ultimately show ?thesis
    using assms(1) by (simp add: BufferRender_def processor_inv_def RTC_DCHECK_def Let_def)
qed

section \<open>Runs\<close>

inductive processor_run ::
    "('m, 'f, 's, 'k, 'r) parts \<Rightarrow> aec3_config \<Rightarrow> nat \<Rightarrow> nat \<Rightarrow> rat block list \<Rightarrow> ('m, 'f, 's, 'k, 'r) block_processor \<Rightarrow> bool"
  for parts config rate nc where
  bp_start: "new_block_processor parts config rate nc ncap = Some st \<Longrightarrow> processor_run parts config rate nc [] st"
| bp_render: "processor_run parts config rate nc h st \<Longrightarrow> wf_block (NumBandsForRate rate) nc blk \<Longrightarrow> BufferRender parts blk st = Some st' \<Longrightarrow>
    processor_run parts config rate nc (blk # h) st'"
| bp_capture: "processor_run parts config rate nc h st \<Longrightarrow> num_bands blk = NumBandsForRate rate \<Longrightarrow>
    BlockProcessor_ProcessCapture parts g s lin blk st = Some (st', lin', blk') \<Longrightarrow> processor_run parts config rate nc h st'"
| bp_leakage: "processor_run parts config rate nc h st \<Longrightarrow> processor_run parts config rate nc h (BlockProcessor_UpdateEchoLeakageStatus parts l st)"
| bp_delay: "processor_run parts config rate nc h st \<Longrightarrow> processor_run parts config rate nc h (BlockProcessor_SetAudioBufferDelay ms st)"
| bp_usage: "processor_run parts config rate nc h st \<Longrightarrow> processor_run parts config rate nc h (BlockProcessor_SetCaptureOutputUsage parts u st)"

lemma leakage_inv: "processor_inv parts config rate nc h st \<Longrightarrow> processor_inv parts config rate nc h (BlockProcessor_UpdateEchoLeakageStatus parts l st)"
  by (simp add: processor_inv_def BlockProcessor_UpdateEchoLeakageStatus_def)

lemma usage_inv: "processor_inv parts config rate nc h st \<Longrightarrow> processor_inv parts config rate nc h (BlockProcessor_SetCaptureOutputUsage parts u st)"
  by (simp add: processor_inv_def BlockProcessor_SetCaptureOutputUsage_def)

lemma delay_inv:
  assumes "processor_inv parts config rate nc h st"
  shows "processor_inv parts config rate nc h (BlockProcessor_SetAudioBufferDelay ms st)"
proof (rule processor_inv_frame[OF assms])
  have "run_inv (p_dsp parts) config rate nc h (render_buffer st)" using assms by (simp add: processor_inv_def)
  from run_inv_frame[OF this] show "run_inv (p_dsp parts) config rate nc h (render_buffer (BlockProcessor_SetAudioBufferDelay ms st))"
    by (simp add: BlockProcessor_SetAudioBufferDelay_def external_frame)
qed (simp_all add: BlockProcessor_SetAudioBufferDelay_def)

lemma processor_run_inv:
  assumes "processor_run parts config rate nc h st" "processor_setup parts config rate nc"
  shows "processor_inv parts config rate nc h st"
  using assms(1)
proof (induction rule: processor_run.induct)
  case (bp_start ncap st)
  then have "p_new_remover parts config rate nc ncap \<noteq> None" by (auto simp: new_block_processor_def split: bind_splits)
  then show ?case using bp_start new_block_processor_ok[OF assms(2)] by fastforce
next
  case (bp_render h st blk st')
  then have "\<not> rtc_dcheck_is_on (p_dsp parts)" using BufferRender_checked[OF bp_render.IH assms(2), of blk] by auto
  then show ?case using bp_render BufferRender_ok[OF bp_render.IH assms(2) bp_render.hyps(2)] by simp
next
  case (bp_capture h st blk g s lin st' lin' blk')
  obtain x y z where "BlockProcessor_ProcessCapture parts g s lin blk st = Some (x, y, z)" "processor_inv parts config rate nc h x"
    using ProcessCapture_ok[OF bp_capture.IH assms(2) bp_capture.hyps(2), of g s lin] by (elim exE conjE) (rule that)
  then show ?case using bp_capture.hyps(3) by simp
qed (simp_all add: leakage_inv usage_inv delay_inv)

lemma run_inv_GetBlock:
  assumes "run_inv dsp config rate nc h rb" "total_delay rb + int k < int (rings_size config)"
  shows "GetBlock rb (- int k) =
    Some ((stored dsp config h @ replicate (rings_size config) (new_block (NumBandsForRate rate) nc 0)) ! (nat (total_delay rb) + k))"
proof -
  note ok = run_inv_rdb_ok[OF assms(1)]
  have "0 \<le> total_delay rb" using ring_okD[OF rdb_okD(3)[OF ok]] by (simp add: total_delay_def)
  then have "nat (total_delay rb) + k < rings_size config" using assms(2) by linarith
  then show ?thesis
    using GetBlock_recent[OF ok assms(2)] assms(1) by (simp add: run_inv_def remembers_blocks_def remembers_def)
qed


text \<open>A processor whose remover mutes the block.\<close>

definition demo_parts :: "(unit, int, nat, lag_estimate option, unit) parts" where
  "demo_parts = \<lparr>p_dsp = demo_dsp,
     p_filter = \<lparr>mf_update = (\<lambda>_ _ k. k), mf_best_lag = (\<lambda>_. None), mf_reset = (\<lambda>_ k. k)\<rparr>,
     p_remover = \<lparr>er_ProcessCapture = (\<lambda>_ _ _ _ r lin blk. (r, lin, blk\<lparr>block_data := map (\<lambda>_. 0) (block_data blk)\<rparr>)),
                  er_UpdateEchoLeakageStatus = (\<lambda>_ r. r), er_SetCaptureOutputUsage = (\<lambda>_ r. r), er_GetMetrics = (\<lambda>_. (0, 0))\<rparr>,
     p_new_filter = (\<lambda>_ _. None), p_max_filter_lag = (\<lambda>_. 2432), p_new_remover = (\<lambda>_ _ _ _. Some ())\<rparr>"

lemma demo_parts_unchecked [simp]: "\<not> rtc_dcheck_is_on (p_dsp demo_parts)" "p_new_remover demo_parts cfg rate n nc = Some ()"
  by (simp_all add: demo_parts_def)

lemma demo_processor_setup: "processor_setup demo_parts default_config 16000 1"
  using demo_setup
  by (simp add: processor_setup_def demo_parts_def filter_ok_def default_config_def default_delay_cfg_def)


end
