(* ===== verification/Aec_Canceller.thy ===== *)
theory Aec_Canceller
  imports Aec_Render_Path Aec_Block_Processor
begin

text \<open>
  The class \<^verbatim>\<open>EchoCanceller3\<close> in
  \<^verbatim>\<open>crates/fswtch-apm-sys/cpp/modules/audio_processing/aec3/echo_canceller3.cc\<close>: it puts together the
  capture path, the render path with its transfer queue, the block processor, the fixed delay, the
  choice of the configuration, the stereo detector and the metrics of the call order, which are the
  models of their theories. A call is atomic here; what happens when \<^verbatim>\<open>AnalyzeRender\<close> runs in
  another thread is the subject of the theory of the queue. The dumps and the log are not modelled.
\<close>

section \<open>The state\<close>

definition kRenderTransferQueueSizeFrames :: nat where "kRenderTransferQueueSizeFrames = 100"
definition kMaxNumBands :: nat where "kMaxNumBands = 3"

definition DetectSaturation :: "rat list \<Rightarrow> bool" where
  "DetectSaturation y = list_ex (\<lambda>x. x \<ge> 32700 \<or> x \<le> -32700) y"

text \<open>
  The capture path shares its block processor with the render path. The processor is \<^const>\<open>None\<close>
  before it is made, and after one of its checks has failed in the middle of a frame.
\<close>

record ('m, 'f, 's, 'k, 'r, 'h) echo_canceller =
  ec_config :: aec3_config
  ec_sample_rate_hz :: nat
  ec_num_bands :: nat
  num_render_input_channels :: nat
  num_render_channels_to_aec :: nat
  ec_capture_channels :: nat
  selector :: config_selector
  detector :: content_detector
  writer :: "'h render_writer"
  transfer_queue :: "rat list list list swap_queue"
  queue_output_frame :: "rat list list list"
  render_blocker :: "rat frame_blocker"
  render_blk :: "rat block"
  saturated_microphone_signal :: bool
  path :: "(rat, ('m, 'f, 's, 'k, 'r) block_processor option) capture_path"
  delay_buffer :: "rat block_delay_buffer option"
  api_call_metrics :: jitter_metrics

text \<open>The high pass filter of the render signal, a class of its own.\<close>

record 'h high_pass_class =
  hp_new :: "nat \<Rightarrow> 'h"
  hp_Process :: "'h \<Rightarrow> rat list list \<Rightarrow> 'h \<times> rat list list"

definition run_processor ::
    "('m, 'f, 's, 'k, 'r) parts \<Rightarrow> (rat, ('m, 'f, 's, 'k, 'r) block_processor option) process_capture" where
  "run_processor parts gain saturation p lin blk =
     (case p of None \<Rightarrow> (None, lin, blk)
      | Some p \<Rightarrow> (case BlockProcessor_ProcessCapture parts gain saturation lin blk p of
          None \<Rightarrow> (None, lin, blk) | Some (p, lin, blk) \<Rightarrow> (Some p, lin, blk)))"

section \<open>Creation\<close>

definition EchoCanceller3_Initialize ::
    "('m, 'f, 's, 'k, 'r) parts \<Rightarrow> ('m, 'f, 's, 'k, 'r, 'h) echo_canceller \<Rightarrow> ('m, 'f, 's, 'k, 'r, 'h) echo_canceller option" where
  "EchoCanceller3_Initialize parts ec = do {
     let multichannel = persistent_multichannel_content_detected (detector ec);
     let ec = ec\<lparr>num_render_channels_to_aec := if multichannel then num_render_input_channels ec else 1\<rparr>;
     let ec = ec\<lparr>selector := ConfigSelector_Update multichannel (selector ec)\<rparr>;
     let ec = ec\<lparr>render_blk := SetNumChannels 0 (render_blk ec) (num_render_channels_to_aec ec)\<rparr>;
     let ec = ec\<lparr>render_blocker := new_frame_blocker (ec_num_bands ec) (num_render_channels_to_aec ec)\<rparr>;
     p \<leftarrow> new_block_processor parts (active_config (selector ec)) (ec_sample_rate_hz ec) (num_render_channels_to_aec ec) (ec_capture_channels ec);
     Some (ec\<lparr>path := (path ec)\<lparr>block_processor := Some p\<rparr>\<rparr>)
   }"

text \<open>The argument \<open>config\<close> is the configuration after \<^verbatim>\<open>AdjustConfig\<close>.\<close>

definition new_echo_canceller ::
    "('m, 'f, 's, 'k, 'r) parts \<Rightarrow> 'h high_pass_class \<Rightarrow> aec3_config \<Rightarrow> aec3_config option \<Rightarrow> nat \<Rightarrow> nat \<Rightarrow> nat \<Rightarrow>
     ('m, 'f, 's, 'k, 'r, 'h) echo_canceller option" where
  "new_echo_canceller parts hp config multichannel_config sample_rate_hz num_render_channels num_capture_channels = do {
     let bands = NumBandsForRate sample_rate_hz;
     sel \<leftarrow> new_config_selector config multichannel_config num_render_channels;
     let active = active_config sel;
     det \<leftarrow> new_content_detector (detect_stereo_content (cfg_multi_channel active)) num_render_channels
       (stereo_detection_threshold (cfg_multi_channel active)) (stereo_detection_timeout_threshold_seconds (cfg_multi_channel active))
       (stereo_detection_hysteresis_seconds (cfg_multi_channel active));
     let empty_frame = replicate bands (replicate num_render_channels (replicate kSplitBandSize 0));
     queue \<leftarrow> new_swap_queue kRenderTransferQueueSizeFrames empty_frame
       (Aec3RenderQueueItemVerifier bands num_render_channels kSplitBandSize);
     RTC_DCHECK (ValidFullBandRate sample_rate_hz);
     let ec = \<lparr>ec_config = config, ec_sample_rate_hz = sample_rate_hz, ec_num_bands = bands,
       num_render_input_channels = num_render_channels, num_render_channels_to_aec = 0, ec_capture_channels = num_capture_channels,
       selector = sel, detector = det,
       writer = new_render_writer (if high_pass_filter_echo_reference (cfg_filter active) then Some (hp_new hp num_render_channels) else None)
                  bands num_render_channels,
       transfer_queue = queue, queue_output_frame = empty_frame,
       render_blocker = new_frame_blocker bands num_render_channels, render_blk = new_block bands num_render_channels 0,
       saturated_microphone_signal = False,
       path = new_capture_path 0 None (export_linear_aec_output (cfg_filter active)) bands num_capture_channels,
       delay_buffer = (if fixed_capture_delay_samples (cfg_delay active) > 0
                       then Some (new_block_delay_buffer 0 num_capture_channels bands kSplitBandSize (fixed_capture_delay_samples (cfg_delay config)))
                       else None),
       api_call_metrics = new_jitter_metrics\<rparr>;
     RTC_DCHECK (bands = max sample_rate_hz 16000 div 16000);
     RTC_DCHECK (kMaxNumBands \<ge> bands);
     EchoCanceller3_Initialize parts ec
   }"

section \<open>The render side\<close>

definition AnalyzeRender ::
    "'h high_pass_class \<Rightarrow> rat audio_buffer \<Rightarrow> ('m, 'f, 's, 'k, 'r, 'h) echo_canceller \<Rightarrow> ('m, 'f, 's, 'k, 'r, 'h) echo_canceller option" where
  "AnalyzeRender hp render ec = do {
     RTC_DCHECK (ab_channels render = num_render_input_channels ec);
     (w, queue) \<leftarrow> RenderWriter_Insert (hp_Process hp) render (writer ec) (transfer_queue ec);
     Some (ec\<lparr>writer := w, transfer_queue := queue\<rparr>) }"

text \<open>The body of the loop in \<^verbatim>\<open>EmptyRenderQueue\<close>.\<close>

definition handle_render_frame ::
    "('m, 'f, 's, 'k, 'r) parts \<Rightarrow> ('m, 'f, 's, 'k, 'r, 'h) echo_canceller \<Rightarrow> ('m, 'f, 's, 'k, 'r, 'h) echo_canceller option" where
  "handle_render_frame parts ec = do {
     let ec = ec\<lparr>api_call_metrics := ReportRenderCall (api_call_metrics ec)\<rparr>;
     (det, changed) \<leftarrow> UpdateDetection (queue_output_frame ec) (detector ec);
     let ec = ec\<lparr>detector := det\<rparr>;
     ec \<leftarrow> (if changed then EchoCanceller3_Initialize parts ec else Some ec);
     p \<leftarrow> block_processor (path ec);
     (frame, blocker, p, blk) \<leftarrow> buffer_frame (BufferRender parts) (temporary_multichannel_content_detected (detector ec))
       (ec_num_bands ec) (num_render_channels_to_aec ec) (queue_output_frame ec) (render_blocker ec, p, render_blk ec);
     Some (ec\<lparr>queue_output_frame := frame, render_blocker := blocker, render_blk := blk, path := (path ec)\<lparr>block_processor := Some p\<rparr>\<rparr>)
   }"

lemma Initialize_queue: "EchoCanceller3_Initialize parts ec = Some ec' \<Longrightarrow> transfer_queue ec' = transfer_queue ec"
  by (auto simp: EchoCanceller3_Initialize_def Let_def split: bind_splits)

lemma handle_queue: "handle_render_frame parts ec = Some ec' \<Longrightarrow> transfer_queue ec' = transfer_queue ec"
  by (auto simp: handle_render_frame_def Let_def split: bind_splits if_splits dest!: Initialize_queue)

function EmptyRenderQueue ::
    "('m, 'f, 's, 'k, 'r) parts \<Rightarrow> ('m, 'f, 's, 'k, 'r, 'h) echo_canceller \<Rightarrow> ('m, 'f, 's, 'k, 'r, 'h) echo_canceller option" where
  "EmptyRenderQueue parts ec =
     (case SwapQueue_Remove (transfer_queue ec) (queue_output_frame ec) of None \<Rightarrow> None
      | Some (queue, frame, frame_to_buffer) \<Rightarrow>
          (let ec = ec\<lparr>transfer_queue := queue, queue_output_frame := frame\<rparr> in
           if frame_to_buffer
           then (case handle_render_frame parts ec of None \<Rightarrow> None | Some ec \<Rightarrow> EmptyRenderQueue parts ec)
           else Some ec))"
  by pat_completeness auto
termination
  by (relation "measure (\<lambda>(_, ec). num_elements (transfer_queue ec))")
    (auto dest!: handle_queue simp: SwapQueue_Remove_def Let_def split: if_splits)

declare EmptyRenderQueue.simps [simp del]

section \<open>The capture side\<close>

text \<open>The full band channels of the capture signal.\<close>

definition AnalyzeCapture ::
    "rat list list \<Rightarrow> ('m, 'f, 's, 'k, 'r, 'h) echo_canceller \<Rightarrow> ('m, 'f, 's, 'k, 'r, 'h) echo_canceller" where
  "AnalyzeCapture channels ec = ec\<lparr>saturated_microphone_signal := list_ex DetectSaturation channels\<rparr>"

definition EchoCanceller3_ProcessCapture ::
    "('m, 'f, 's, 'k, 'r) parts \<Rightarrow> rat audio_buffer \<Rightarrow> rat audio_buffer option \<Rightarrow> bool \<Rightarrow> ('m, 'f, 's, 'k, 'r, 'h) echo_canceller \<Rightarrow>
     (('m, 'f, 's, 'k, 'r, 'h) echo_canceller \<times> rat audio_buffer option \<times> rat audio_buffer) option" where
  "EchoCanceller3_ProcessCapture parts capture linear_output level_change ec = do {
     RTC_DCHECK (ec_num_bands ec = ab_bands capture);
     RTC_DCHECK (kSplitBandSize = num_frames_per_band capture);
     RTC_DCHECK (ab_channels capture = ec_capture_channels ec);
     RTC_DCHECK (linear_output = None \<or> linear_output_framer (path ec) \<noteq> None);
     let ec = ec\<lparr>api_call_metrics := fst (ReportCaptureCall (api_call_metrics ec))\<rparr>;
     (ec, capture) \<leftarrow> (if fixed_capture_delay_samples (cfg_delay (active_config (selector ec))) > 0
       then do { d \<leftarrow> delay_buffer ec;
                 (d, capture) \<leftarrow> DelaySignal d capture;
                 Some (ec\<lparr>delay_buffer := Some d\<rparr>, capture) }
       else Some (ec, capture));
     ec \<leftarrow> EmptyRenderQueue parts ec;
     (linear_output, capture, st) \<leftarrow> process_capture_frame (run_processor parts) linear_output capture level_change
       (temporary_multichannel_content_detected (detector ec)) (saturated_microphone_signal ec) (path ec);
     RTC_DCHECK (block_processor st \<noteq> None);
     Some (ec\<lparr>path := st\<rparr>, linear_output, capture)
   }"

section \<open>Calls that the block processor answers\<close>

definition on_processor ::
    "(('m, 'f, 's, 'k, 'r) block_processor \<Rightarrow> ('m, 'f, 's, 'k, 'r) block_processor) \<Rightarrow> ('m, 'f, 's, 'k, 'r, 'h) echo_canceller \<Rightarrow>
     ('m, 'f, 's, 'k, 'r, 'h) echo_canceller" where
  "on_processor f ec = ec\<lparr>path := (path ec)\<lparr>block_processor := map_option f (block_processor (path ec))\<rparr>\<rparr>"

definition EchoCanceller3_UpdateEchoLeakageStatus where
  "EchoCanceller3_UpdateEchoLeakageStatus parts leakage = on_processor (BlockProcessor_UpdateEchoLeakageStatus parts leakage)"

definition EchoCanceller3_SetAudioBufferDelay where
  "EchoCanceller3_SetAudioBufferDelay delay_ms = on_processor (BlockProcessor_SetAudioBufferDelay delay_ms)"

definition EchoCanceller3_SetCaptureOutputUsage where
  "EchoCanceller3_SetCaptureOutputUsage parts used = on_processor (BlockProcessor_SetCaptureOutputUsage parts used)"

definition EchoCanceller3_GetMetrics where
  "EchoCanceller3_GetMetrics parts ec = map_option (BlockProcessor_GetMetrics parts) (block_processor (path ec))"

definition ActiveProcessing :: "('m, 'f, 's, 'k, 'r, 'h) echo_canceller \<Rightarrow> bool" where
  "ActiveProcessing ec = True"

section \<open>What the parts promise\<close>

text \<open>The configuration and the number of render channels the block processor works with.\<close>

definition mode_config :: "aec3_config \<Rightarrow> aec3_config option \<Rightarrow> bool \<Rightarrow> aec3_config" where
  "mode_config config mc multichannel = (case mc of Some m \<Rightarrow> if multichannel then m else config | None \<Rightarrow> config)"

definition mode_channels :: "nat \<Rightarrow> bool \<Rightarrow> nat" where
  "mode_channels ni multichannel = (if multichannel then ni else 1)"

definition remover_keeps :: "('m, 'f, 's, 'k, 'r) parts \<Rightarrow> nat \<Rightarrow> nat \<Rightarrow> bool" where
  "remover_keeps parts nb nc \<longleftrightarrow> (\<forall>v s e rb r lin blk. wf_block nb nc blk \<longrightarrow> wf_linear nc lin \<longrightarrow>
     (case er_ProcessCapture (p_remover parts) v s e rb r lin blk of (_, lin', blk') \<Rightarrow>
        wf_block nb nc blk' \<and> wf_linear nc lin' \<and> (lin' = None) = (lin = None)))"

definition canceller_setup ::
    "('m, 'f, 's, 'k, 'r) parts \<Rightarrow> 'h high_pass_class \<Rightarrow> aec3_config \<Rightarrow> aec3_config option \<Rightarrow> nat \<Rightarrow> nat \<Rightarrow> nat \<Rightarrow> bool" where
  "canceller_setup parts hp config mc rate ni nc \<longleftrightarrow>
     (case mc of None \<Rightarrow> True | Some m \<Rightarrow> CompatibleConfigs config m) \<and> 0 < ni \<and> 0 < nc \<and> filter_keeps (hp_Process hp) \<and>
     remover_keeps parts (NumBandsForRate rate) nc \<and>
     (\<forall>multi. processor_setup parts (mode_config config mc multi) rate (mode_channels ni multi) \<and>
              p_new_remover parts (mode_config config mc multi) rate (mode_channels ni multi) nc \<noteq> None \<and>
              (\<exists>h. stereo_detection_hysteresis_seconds (cfg_multi_channel (mode_config config mc multi)) = Finite h))"

lemma setup_mode: "canceller_setup parts hp config mc rate ni nc \<Longrightarrow> processor_setup parts (mode_config config mc multi) rate (mode_channels ni multi)"
  by (simp add: canceller_setup_def)

lemma setup_remover: "canceller_setup parts hp config mc rate ni nc \<Longrightarrow>
    p_new_remover parts (mode_config config mc multi) rate (mode_channels ni multi) nc \<noteq> None"
  by (simp add: canceller_setup_def)

lemma setup_rate: "canceller_setup parts hp config mc rate ni nc \<Longrightarrow> ValidFullBandRate rate"
  using setup_mode[of parts hp config mc rate ni nc False] by (simp add: processor_setup_def render_setup_def)

lemma setup_bands: "canceller_setup parts hp config mc rate ni nc \<Longrightarrow> 0 < NumBandsForRate rate"
  using setup_rate bands_pos by blast

text \<open>The block processor takes blocks, in a build without \<^verbatim>\<open>RTC_DCHECK\<close>.\<close>

definition block_taker :: "('m, 'f, 's, 'k, 'r) parts \<Rightarrow> aec3_config \<Rightarrow> nat \<Rightarrow> nat \<Rightarrow> rat block list \<Rightarrow> ('m, 'f, 's, 'k, 'r) block_processor \<Rightarrow> bool" where
  "block_taker parts config rate n h p \<longleftrightarrow> processor_setup parts config rate n \<and> processor_inv parts config rate n h p \<and>
     list_all (wf_block (NumBandsForRate rate) n) h"

interpretation bt: block_sink "BufferRender parts" "block_taker parts config rate n" "NumBandsForRate rate" n "rtc_dcheck_is_on (p_dsp parts)"
  for parts config rate n
proof unfold_locales
  fix h p and blk :: "rat block"
  assume "\<not> rtc_dcheck_is_on (p_dsp parts)" "block_taker parts config rate n h p" "wf_block (NumBandsForRate rate) n blk"
  then show "\<exists>p'. BufferRender parts blk p = Some p' \<and> block_taker parts config rate n (blk # h) p'"
    using BufferRender_ok[of parts config rate n h p blk] by (auto simp: block_taker_def)
next
  fix h p and blk :: "rat block"
  assume "rtc_dcheck_is_on (p_dsp parts)" "block_taker parts config rate n h p"
  then show "BufferRender parts blk p = None" using BufferRender_checked[of parts config rate n h p blk] by (simp add: block_taker_def)
next
  fix h p assume "block_taker parts config rate n h p"
  then show "0 < NumBandsForRate rate \<and> 0 < n"
    using bands_pos by (auto simp: block_taker_def processor_setup_def render_setup_def)
qed

section \<open>The invariant\<close>

text \<open>What does not depend on the mode.\<close>

definition canceller_base ::
    "aec3_config \<Rightarrow> aec3_config option \<Rightarrow> nat \<Rightarrow> nat \<Rightarrow> nat \<Rightarrow> ('m, 'f, 's, 'k, 'r, 'h) echo_canceller \<Rightarrow> bool" where
  "canceller_base config mc rate ni nc ec \<longleftrightarrow> (let nb = NumBandsForRate rate in
     ec_sample_rate_hz ec = rate \<and> ec_num_bands ec = nb \<and> num_render_input_channels ec = ni \<and> ec_capture_channels ec = nc \<and>
     sel_config (selector ec) = config \<and> sel_multichannel_config (selector ec) = mc \<and> num_bands (render_blk ec) = nb \<and>
     (md_detect_stereo_content (detector ec) \<or> persistent_multichannel_content_detected (detector ec) = (1 < ni)) \<and>
     writer_ok nb ni (writer ec) \<and> sq_ok kRenderTransferQueueSizeFrames (wf_frame nb ni) (transfer_queue ec) \<and>
     wf_frame nb ni (queue_output_frame ec) \<and> at_border nb nc (export_linear_aec_output (cfg_filter config)) (path ec) \<and>
     (case delay_buffer ec of None \<Rightarrow> fixed_capture_delay_samples (cfg_delay config) = 0
      | Some d \<Rightarrow> 0 < fixed_capture_delay_samples (cfg_delay config) \<and> delay_ok nb nc (fixed_capture_delay_samples (cfg_delay config)) d))"

text \<open>
  What the mode decides; the frames \<open>gs\<close> since the last start of the block processor have reached
  it as blocks.
\<close>

definition canceller_mode ::
    "('m, 'f, 's, 'k, 'r) parts \<Rightarrow> aec3_config \<Rightarrow> aec3_config option \<Rightarrow> nat \<Rightarrow> nat \<Rightarrow> (bool \<times> rat list list list) list \<Rightarrow>
     ('m, 'f, 's, 'k, 'r, 'h) echo_canceller \<Rightarrow> bool" where
  "canceller_mode parts config mc rate ni gs ec \<longleftrightarrow>
     (let multi = persistent_multichannel_content_detected (detector ec); n = mode_channels ni multi; cfg = mode_config config mc multi in
      num_render_channels_to_aec ec = n \<and> active_config (selector ec) = cfg \<and>
      (\<exists>p h. \<exists>l\<in>{0, 32}. block_processor (path ec) = Some p \<and> bt.parts_ok parts cfg rate n l h (render_blocker ec, p, render_blk ec) \<and>
         cells (NumBandsForRate rate) n (\<lambda>b c. aec_samples n gs (b, c) = samples (b, c) (rev h) @ fb_buffer (render_blocker ec) ! b ! c)))"

lemmas canceller_base_simps = canceller_base_def Let_def

lemma at_border_processor [simp]: "at_border nb nc ex (st\<lparr>block_processor := p\<rparr>) = at_border nb nc ex st"
  by (simp add: at_border_def path_ok_def linear_ok_def)

text \<open>What the render side leaves alone.\<close>

definition same_capture :: "('m, 'f, 's, 'k, 'r, 'h) echo_canceller \<Rightarrow> ('m, 'f, 's, 'k, 'r, 'h) echo_canceller \<Rightarrow> bool" where
  "same_capture ec ec' \<longleftrightarrow> saturated_microphone_signal ec' = saturated_microphone_signal ec \<and> delay_buffer ec' = delay_buffer ec \<and>
     path ec' = (path ec)\<lparr>block_processor := block_processor (path ec')\<rparr>"

lemma same_capture_refl: "same_capture ec ec"
  by (simp add: same_capture_def)

lemma same_capture_trans: "same_capture ec ec1 \<Longrightarrow> same_capture ec1 ec2 \<Longrightarrow> same_capture ec ec2"
  by (cases "path ec"; cases "path ec1"; cases "path ec2") (simp add: same_capture_def)

lemma ConfigSelector_Update_mode: "sel_config s = config \<Longrightarrow> sel_multichannel_config s = mc \<Longrightarrow>
    active_config (ConfigSelector_Update multi s) = mode_config config mc multi \<and>
    sel_config (ConfigSelector_Update multi s) = config \<and> sel_multichannel_config (ConfigSelector_Update multi s) = mc"
  by (auto simp: ConfigSelector_Update_def mode_config_def split: option.splits)

lemma SetNumChannels_wf: "wf_block (num_bands blk) n (SetNumChannels z blk n)"
  by (simp add: wf_block_def SetNumChannels_def)

lemma Initialize_ok:
  assumes "canceller_base config mc rate ni nc ec" "canceller_setup parts hp config mc rate ni nc"
  shows "\<exists>ec'. EchoCanceller3_Initialize parts ec = Some ec' \<and> canceller_base config mc rate ni nc ec' \<and>
    canceller_mode parts config mc rate ni [] ec' \<and> detector ec' = detector ec \<and> queue_output_frame ec' = queue_output_frame ec \<and>
    transfer_queue ec' = transfer_queue ec \<and> same_capture ec ec'"
proof -
  define multi where "multi = persistent_multichannel_content_detected (detector ec)"
  let ?n = "mode_channels ni multi" and ?cfg = "mode_config config mc multi" and ?nb = "NumBandsForRate rate"
  note base = assms(1)[unfolded canceller_base_simps]
  have sel: "active_config (ConfigSelector_Update multi (selector ec)) = ?cfg"
    "sel_config (ConfigSelector_Update multi (selector ec)) = config" "sel_multichannel_config (ConfigSelector_Update multi (selector ec)) = mc"
    using ConfigSelector_Update_mode base by blast+
  obtain p where p: "new_block_processor parts ?cfg rate ?n nc = Some p" "processor_inv parts ?cfg rate ?n [] p"
    using new_block_processor_ok[OF setup_mode[OF assms(2)] setup_remover[OF assms(2)]] by blast
  define ec' where "ec' = ec\<lparr>num_render_channels_to_aec := ?n, selector := ConfigSelector_Update multi (selector ec),
      render_blk := SetNumChannels 0 (render_blk ec) ?n, render_blocker := new_frame_blocker ?nb ?n,
      path := (path ec)\<lparr>block_processor := Some p\<rparr>\<rparr>"
  have run: "EchoCanceller3_Initialize parts ec = Some ec'"
    using p(1) base sel unfolding EchoCanceller3_Initialize_def ec'_def multi_def mode_channels_def Let_def
    by (cases "persistent_multichannel_content_detected (detector ec)") simp_all
  have b: "canceller_base config mc rate ni nc ec'"
    unfolding canceller_base_simps using base sel by (auto simp: ec'_def SetNumChannels_def)
  have "wf_block ?nb ?n (SetNumChannels 0 (render_blk ec) ?n)" using SetNumChannels_wf[of "render_blk ec" ?n 0] base by simp
  then have "bt.parts_ok parts ?cfg rate ?n 0 [] (render_blocker ec', p, render_blk ec')"
    using p(2) new_frame_blocker_ok[of ?nb ?n] setup_mode[OF assms(2), of multi] by (simp add: bt.parts_ok_def block_taker_def ec'_def)
  moreover have "cells ?nb ?n (\<lambda>b c. [] = samples (b, c) (rev []) @ fb_buffer (new_frame_blocker ?nb ?n) ! b ! c)"
    by (simp add: cells_def new_frame_blocker_def)
  ultimately have "canceller_mode parts config mc rate ni [] ec'"
    using sel unfolding canceller_mode_def Let_def
    by (intro conjI exI[of _ p] exI[of _ "[]"] bexI[of _ 0]) (simp_all add: ec'_def multi_def)
  with run b show ?thesis by (intro exI[of _ ec']) (simp add: ec'_def same_capture_def)
qed


text \<open>
  The contract of the render side: the frames it takes out of the queue, each with whether it was to
  be mixed; a change of the mode starts anew with the frame that brings it.
\<close>

fun replay :: "rat list list list list \<Rightarrow> content_detector \<times> (bool \<times> rat list list list) list \<Rightarrow>
    content_detector \<times> (bool \<times> rat list list list) list" where
  "replay [] s = s"
| "replay (f # fs) (d, gs) =
     (case UpdateDetection f d of None \<Rightarrow> (d, gs)
      | Some (d, changed) \<Rightarrow> replay fs (d, (if changed then [] else gs) @ [(temporary_multichannel_content_detected d, f)]))"

lemma UpdateDetection_ok:
  assumes "wf_frame nb ni f" "0 < nb" "md_detect_stereo_content d \<or> persistent_multichannel_content_detected d = (1 < ni)"
  shows "\<exists>d' changed. UpdateDetection f d = Some (d', changed) \<and>
    (md_detect_stereo_content d' \<or> persistent_multichannel_content_detected d' = (1 < ni)) \<and>
    changed = (persistent_multichannel_content_detected d' \<noteq> persistent_multichannel_content_detected d)"
proof (cases "md_detect_stereo_content d")
  case True
  then show ?thesis by (simp add: UpdateDetection_def Let_def split: option.splits)
next
  case False
  have "length (f ! 0) = ni" using wf_frame_nth[OF assms(1,2)] by simp
  then show ?thesis using False assms(3) by (simp add: UpdateDetection_def)
qed

lemma detector_base:
  "canceller_base config mc rate ni nc ec \<Longrightarrow> md_detect_stereo_content d \<or> persistent_multichannel_content_detected d = (1 < ni) \<Longrightarrow>
   canceller_base config mc rate ni nc (ec\<lparr>detector := d\<rparr>)"
  by (simp add: canceller_base_simps)

lemma mode_channels_cases: "0 < ni \<Longrightarrow> mode_channels ni m = 1 \<or> mode_channels ni m = ni"
  by (simp add: mode_channels_def)

lemma buffer_part_checked:
  assumes "canceller_base config mc rate ni nc ec" "canceller_mode parts config mc rate ni gs ec" "canceller_setup parts hp config mc rate ni nc"
    "rtc_dcheck_is_on (p_dsp parts)" "block_processor (path ec) = Some p"
  shows "buffer_frame (BufferRender parts) dm (ec_num_bands ec) (num_render_channels_to_aec ec) (queue_output_frame ec)
    (render_blocker ec, p, render_blk ec) = None"
proof -
  note base = assms(1)[unfolded canceller_base_simps]
  define multi where "multi = persistent_multichannel_content_detected (detector ec)"
  let ?n = "mode_channels ni multi" and ?cfg = "mode_config config mc multi"
  obtain h l where m: "num_render_channels_to_aec ec = ?n" "l \<in> {0, 32}" "bt.parts_ok parts ?cfg rate ?n l h (render_blocker ec, p, render_blk ec)"
    using assms(2,5) unfolding canceller_mode_def Let_def multi_def[symmetric] by auto
  have ni: "0 < ni" using assms(3) by (simp add: canceller_setup_def)
  have f: "wf_frame (NumBandsForRate rate) ni (queue_output_frame ec)" "l \<le> 48" using base m(2) by auto
  show ?thesis using bt.closed_frame[OF assms(4) m(3) f(2,1) mode_channels_cases[OF ni] ni] m(1) base by simp
qed

lemma buffer_part:
  assumes "canceller_base config mc rate ni nc ec" "canceller_mode parts config mc rate ni gs ec" "canceller_setup parts hp config mc rate ni nc"
    "\<not> rtc_dcheck_is_on (p_dsp parts)"
  shows "\<exists>p frame blocker p' blk ec'. block_processor (path ec) = Some p \<and>
    buffer_frame (BufferRender parts) dm (ec_num_bands ec) (num_render_channels_to_aec ec) (queue_output_frame ec) (render_blocker ec, p, render_blk ec) =
      Some (frame, blocker, p', blk) \<and>
    ec' = ec\<lparr>queue_output_frame := frame, render_blocker := blocker, render_blk := blk, path := (path ec)\<lparr>block_processor := Some p'\<rparr>\<rparr> \<and>
    canceller_base config mc rate ni nc ec' \<and> canceller_mode parts config mc rate ni (gs @ [(dm, queue_output_frame ec)]) ec'"
proof -
  define multi where "multi = persistent_multichannel_content_detected (detector ec)"
  let ?n = "mode_channels ni multi" and ?cfg = "mode_config config mc multi" and ?nb = "NumBandsForRate rate"
  note base = assms(1)[unfolded canceller_base_simps]
  obtain p h l where m: "num_render_channels_to_aec ec = ?n" "active_config (selector ec) = ?cfg" "l \<in> {0, 32}"
    "block_processor (path ec) = Some p" "bt.parts_ok parts ?cfg rate ?n l h (render_blocker ec, p, render_blk ec)"
    "cells ?nb ?n (\<lambda>b c. aec_samples ?n gs (b, c) = samples (b, c) (rev h) @ fb_buffer (render_blocker ec) ! b ! c)"
    using assms(2) unfolding canceller_mode_def Let_def multi_def[symmetric] by (elim exE bexE conjE) (rule that)
  have ni: "0 < ni" using assms(3) by (simp add: canceller_setup_def)
  have f: "wf_frame ?nb ni (queue_output_frame ec)" using base by simp
  obtain frame s' blks where r: "buffer_frame (BufferRender parts) dm ?nb ?n (queue_output_frame ec) (render_blocker ec, p, render_blk ec) = Some (frame, s')"
    "wf_frame ?nb ni frame" "bt.parts_ok parts ?cfg rate ?n (32 - l) (rev blks @ h) s'"
    "cells ?nb ?n (\<lambda>b c. bt.held (render_blocker ec, p, render_blk ec) (b, c) @ aec_frame dm ?n (queue_output_frame ec) ! b ! c =
       samples (b, c) blks @ bt.held s' (b, c))"
    using bt.sink_frame[OF assms(4) m(5,3) f mode_channels_cases[OF ni] ni, of dm] by (elim exE conjE) (rule that)
  obtain blocker p' blk where s': "s' = (blocker, p', blk)" by (cases s')
  define ec' where "ec' = ec\<lparr>queue_output_frame := frame, render_blocker := blocker, render_blk := blk, path := (path ec)\<lparr>block_processor := Some p'\<rparr>\<rparr>"
  have "num_bands blk = ?nb" using r(3) by (simp add: s' bt.parts_ok_def wf_block_def)
  then have b: "canceller_base config mc rate ni nc ec'"
    unfolding canceller_base_simps using base r(2) by (simp add: ec'_def)
  have "aec_samples ?n (gs @ [(dm, queue_output_frame ec)]) (b, c) = samples (b, c) (rev (rev blks @ h)) @ fb_buffer blocker ! b ! c"
    if "b < ?nb" "c < ?n" for b c
    using m(6) r(4) that by (auto simp: cells_def bt.held_def s')
  moreover have "32 - l \<in> {0, 32}" using m(3) by auto
  ultimately have "canceller_mode parts config mc rate ni (gs @ [(dm, queue_output_frame ec)]) ec'"
    unfolding canceller_mode_def Let_def
    by (intro conjI exI[of _ p'] exI[of _ "rev blks @ h"] bexI[of _ "32 - l"])
       (use m(1,2) r(3) in \<open>simp_all add: ec'_def s' cells_def flip: multi_def\<close>)
  with b show ?thesis
    using m(1,4) r(1) base s' by (intro exI[of _ p] exI[of _ frame] exI[of _ blocker] exI[of _ p'] exI[of _ blk] exI[of _ ec']) (simp add: ec'_def)
qed

text \<open>The end of \<^const>\<open>handle_render_frame\<close>, and what happens before it.\<close>

definition buffered ::
    "('m, 'f, 's, 'k, 'r) parts \<Rightarrow> content_detector \<Rightarrow> ('m, 'f, 's, 'k, 'r, 'h) echo_canceller \<Rightarrow> ('m, 'f, 's, 'k, 'r, 'h) echo_canceller option" where
  "buffered parts d ec2 = do {
     p \<leftarrow> block_processor (path ec2);
     (frame, blocker, p, blk) \<leftarrow> buffer_frame (BufferRender parts) (temporary_multichannel_content_detected d)
       (ec_num_bands ec2) (num_render_channels_to_aec ec2) (queue_output_frame ec2) (render_blocker ec2, p, render_blk ec2);
     Some (ec2\<lparr>queue_output_frame := frame, render_blocker := blocker, render_blk := blk, path := (path ec2)\<lparr>block_processor := Some p\<rparr>\<rparr>) }"

lemma render_frame_start:
  assumes "canceller_base config mc rate ni nc ec" "canceller_mode parts config mc rate ni gs ec" "canceller_setup parts hp config mc rate ni nc"
  shows "\<exists>d changed ec2. UpdateDetection (queue_output_frame ec) (detector ec) = Some (d, changed) \<and>
    handle_render_frame parts ec = buffered parts d ec2 \<and>
    canceller_base config mc rate ni nc ec2 \<and> canceller_mode parts config mc rate ni (if changed then [] else gs) ec2 \<and>
    detector ec2 = d \<and> queue_output_frame ec2 = queue_output_frame ec \<and> same_capture ec ec2"
proof -
  let ?f = "queue_output_frame ec" and ?nb = "NumBandsForRate rate"
  note base = assms(1)[unfolded canceller_base_simps]
  obtain d changed where d: "UpdateDetection ?f (detector ec) = Some (d, changed)"
    "md_detect_stereo_content d \<or> persistent_multichannel_content_detected d = (1 < ni)"
    "changed = (persistent_multichannel_content_detected d \<noteq> persistent_multichannel_content_detected (detector ec))"
    using UpdateDetection_ok[OF _ setup_bands[OF assms(3)], of ni ?f "detector ec"] base by blast
  define ec1 where "ec1 = ec\<lparr>api_call_metrics := ReportRenderCall (api_call_metrics ec), detector := d\<rparr>"
  have b1: "canceller_base config mc rate ni nc ec1"
    using base d(2) by (simp add: canceller_base_simps ec1_def)
  define first where "first = (if changed then EchoCanceller3_Initialize parts ec1 else Some ec1)"
  have "\<exists>ec2. first = Some ec2 \<and> canceller_base config mc rate ni nc ec2 \<and>
      canceller_mode parts config mc rate ni (if changed then [] else gs) ec2 \<and> detector ec2 = d \<and> queue_output_frame ec2 = ?f \<and> same_capture ec ec2"
  proof (cases changed)
    case True
    have "detector ec1 = d" "queue_output_frame ec1 = ?f" "same_capture ec ec1" by (simp_all add: ec1_def same_capture_def)
    then show ?thesis using Initialize_ok[OF b1 assms(3)] True same_capture_trans by (auto simp: first_def)
  next
    case False
    then have "canceller_mode parts config mc rate ni gs ec1" using assms(2) d(3) by (simp add: canceller_mode_def ec1_def)
    then show ?thesis using False b1 by (simp add: first_def) (simp add: ec1_def same_capture_def)
  qed
  then obtain ec2 where e2: "first = Some ec2" "canceller_base config mc rate ni nc ec2"
      "canceller_mode parts config mc rate ni (if changed then [] else gs) ec2" "detector ec2 = d" "queue_output_frame ec2 = ?f" "same_capture ec ec2"
    by blast
  have "handle_render_frame parts ec = buffered parts d ec2"
    using d(1) e2(1,4) by (cases changed) (simp_all add: handle_render_frame_def buffered_def first_def ec1_def Let_def)
  then show ?thesis using d(1) e2 by (intro exI conjI)
qed

lemma handle_render_frame_checked:
  assumes "canceller_base config mc rate ni nc ec" "canceller_mode parts config mc rate ni gs ec" "canceller_setup parts hp config mc rate ni nc"
    "rtc_dcheck_is_on (p_dsp parts)"
  shows "handle_render_frame parts ec = None"
proof -
  obtain d changed ec2 where s: "handle_render_frame parts ec = buffered parts d ec2"
    "canceller_base config mc rate ni nc ec2" "canceller_mode parts config mc rate ni (if changed then [] else gs) ec2"
    using render_frame_start[OF assms(1-3)] by (elim exE conjE) (rule that)
  show ?thesis using buffer_part_checked[OF s(2,3) assms(3,4)] by (cases "block_processor (path ec2)") (simp_all add: s(1) buffered_def)
qed

lemma handle_render_frame_ok:
  assumes "canceller_base config mc rate ni nc ec" "canceller_mode parts config mc rate ni gs ec" "canceller_setup parts hp config mc rate ni nc"
    "\<not> rtc_dcheck_is_on (p_dsp parts)"
  shows "\<exists>d changed ec'. UpdateDetection (queue_output_frame ec) (detector ec) = Some (d, changed) \<and> handle_render_frame parts ec = Some ec' \<and>
    canceller_base config mc rate ni nc ec' \<and>
    canceller_mode parts config mc rate ni ((if changed then [] else gs) @ [(temporary_multichannel_content_detected d, queue_output_frame ec)]) ec' \<and>
    detector ec' = d \<and> same_capture ec ec'"
proof -
  let ?f = "queue_output_frame ec"
  obtain d changed ec2 where d: "UpdateDetection ?f (detector ec) = Some (d, changed)" and run: "handle_render_frame parts ec = buffered parts d ec2"
    and e2: "canceller_base config mc rate ni nc ec2" "canceller_mode parts config mc rate ni (if changed then [] else gs) ec2" "detector ec2 = d"
      "queue_output_frame ec2 = ?f" "same_capture ec ec2"
    using render_frame_start[OF assms(1-3)] by (elim exE conjE) (rule that)
  obtain p frame blocker p' blk ec' where e: "block_processor (path ec2) = Some p"
    "buffer_frame (BufferRender parts) (temporary_multichannel_content_detected d) (ec_num_bands ec2) (num_render_channels_to_aec ec2) ?f
       (render_blocker ec2, p, render_blk ec2) = Some (frame, blocker, p', blk)"
    "ec' = ec2\<lparr>queue_output_frame := frame, render_blocker := blocker, render_blk := blk, path := (path ec2)\<lparr>block_processor := Some p'\<rparr>\<rparr>"
    "canceller_base config mc rate ni nc ec'"
    "canceller_mode parts config mc rate ni ((if changed then [] else gs) @ [(temporary_multichannel_content_detected d, ?f)]) ec'"
    using buffer_part[OF e2(1,2) assms(3,4), of "temporary_multichannel_content_detected d"] unfolding e2(4) by (elim exE conjE) (rule that)
  have "handle_render_frame parts ec = Some ec'" using e(1-3) e2(4) by (simp add: run buffered_def)
  moreover have "same_capture ec2 ec'" by (simp add: same_capture_def e(3))
  then have "same_capture ec ec'" by (rule same_capture_trans[OF e2(5)])
  moreover have "detector ec' = d" using e2(3) by (simp add: e(3))
  ultimately show ?thesis using d e(4,5) by (intro exI conjI)
qed

text \<open>In a build with \<^verbatim>\<open>RTC_DCHECK\<close> only an empty queue is taken.\<close>

definition queue_taken :: "('m, 'f, 's, 'k, 'r) parts \<Rightarrow> ('m, 'f, 's, 'k, 'r, 'h) echo_canceller \<Rightarrow> bool" where
  "queue_taken parts ec \<longleftrightarrow> \<not> rtc_dcheck_is_on (p_dsp parts) \<or> sq_items (transfer_queue ec) = []"

lemma first_render_frame:
  assumes "canceller_base config mc rate ni nc ec" "canceller_mode parts config mc rate ni gs ec" "sq_items (transfer_queue ec) = f # fs"
  shows "\<exists>q ec1. SwapQueue_Remove (transfer_queue ec) (queue_output_frame ec) = Some (q, f, True) \<and> sq_items q = fs \<and>
    ec1 = ec\<lparr>transfer_queue := q, queue_output_frame := f\<rparr> \<and> canceller_base config mc rate ni nc ec1 \<and> canceller_mode parts config mc rate ni gs ec1"
proof -
  have q: "sq_ok kRenderTransferQueueSizeFrames (wf_frame (NumBandsForRate rate) ni) (transfer_queue ec)"
    "wf_frame (NumBandsForRate rate) ni (queue_output_frame ec)"
    using assms(1) by (simp_all add: canceller_base_simps)
  obtain q1 where q1: "SwapQueue_Remove (transfer_queue ec) (queue_output_frame ec) = Some (q1, f, True)"
    "sq_ok kRenderTransferQueueSizeFrames (wf_frame (NumBandsForRate rate) ni) q1" "sq_items q1 = fs"
    using sq.remove_first[OF q assms(3)] by blast
  have "wf_frame (NumBandsForRate rate) ni f" using sq.all_fit[OF q(1)] assms(3) by simp
  then have "canceller_base config mc rate ni nc (ec\<lparr>transfer_queue := q1, queue_output_frame := f\<rparr>)"
    using assms(1) q1(2) by (simp add: canceller_base_simps)
  moreover have "canceller_mode parts config mc rate ni gs (ec\<lparr>transfer_queue := q1, queue_output_frame := f\<rparr>)"
    using assms(2) by (simp add: canceller_mode_def)
  ultimately show ?thesis using q1 by blast
qed

lemma EmptyRenderQueue_checked:
  assumes "canceller_base config mc rate ni nc ec" "canceller_mode parts config mc rate ni gs ec" "canceller_setup parts hp config mc rate ni nc"
    "\<not> queue_taken parts ec"
  shows "EmptyRenderQueue parts ec = None"
proof -
  have flag: "rtc_dcheck_is_on (p_dsp parts)" using assms(4) by (simp add: queue_taken_def)
  obtain f fs where "sq_items (transfer_queue ec) = f # fs" using assms(4) by (auto simp: queue_taken_def neq_Nil_conv)
  from first_render_frame[OF assms(1,2) this] obtain q ec1 where r:
    "SwapQueue_Remove (transfer_queue ec) (queue_output_frame ec) = Some (q, f, True)" "ec1 = ec\<lparr>transfer_queue := q, queue_output_frame := f\<rparr>"
    "canceller_base config mc rate ni nc ec1" "canceller_mode parts config mc rate ni gs ec1" by blast
  then show ?thesis using handle_render_frame_checked[OF r(3,4) assms(3) flag] by (simp add: EmptyRenderQueue.simps[of parts ec] Let_def)
qed

lemma EmptyRenderQueue_ok:
  assumes "canceller_base config mc rate ni nc ec" "canceller_mode parts config mc rate ni gs ec" "canceller_setup parts hp config mc rate ni nc"
    "sq_items (transfer_queue ec) = fs" "replay fs (detector ec, gs) = (d, gs')" "queue_taken parts ec"
  shows "\<exists>ec'. EmptyRenderQueue parts ec = Some ec' \<and> canceller_base config mc rate ni nc ec' \<and> canceller_mode parts config mc rate ni gs' ec' \<and>
    detector ec' = d \<and> same_capture ec ec' \<and> sq_items (transfer_queue ec') = []"
  using assms(1,2,4,5,6)
proof (induction fs arbitrary: ec gs)
  case Nil
  have q: "sq_ok kRenderTransferQueueSizeFrames (wf_frame (NumBandsForRate rate) ni) (transfer_queue ec)"
    "wf_frame (NumBandsForRate rate) ni (queue_output_frame ec)"
    using Nil.prems(1) by (simp_all add: canceller_base_simps)
  have "EmptyRenderQueue parts ec = Some ec"
    using sq.remove_none[OF q Nil.prems(3)] by (simp add: EmptyRenderQueue.simps[of parts ec] Let_def)
  then show ?case using Nil.prems same_capture_refl[of ec] by (intro exI[of _ ec]) simp
next
  case (Cons f fs)
  have flag: "\<not> rtc_dcheck_is_on (p_dsp parts)" using Cons.prems(3,5) by (simp add: queue_taken_def)
  obtain q1 ec1 where q1: "SwapQueue_Remove (transfer_queue ec) (queue_output_frame ec) = Some (q1, f, True)" "sq_items q1 = fs"
    and ec1_def: "ec1 = ec\<lparr>transfer_queue := q1, queue_output_frame := f\<rparr>"
    and b1: "canceller_base config mc rate ni nc ec1" and m1: "canceller_mode parts config mc rate ni gs ec1"
    using first_render_frame[OF Cons.prems(1-3)] by blast
  obtain d1 changed ec2 where h: "UpdateDetection f (detector ec) = Some (d1, changed)" "handle_render_frame parts ec1 = Some ec2"
    "canceller_base config mc rate ni nc ec2"
    "canceller_mode parts config mc rate ni ((if changed then [] else gs) @ [(temporary_multichannel_content_detected d1, f)]) ec2"
    "detector ec2 = d1" "same_capture ec1 ec2"
    using handle_render_frame_ok[OF b1 m1 assms(3) flag] by (auto simp: ec1_def)
  have q2: "sq_items (transfer_queue ec2) = fs" using handle_queue[OF h(2)] q1(2) by (simp add: ec1_def)
  have "replay fs (detector ec2, (if changed then [] else gs) @ [(temporary_multichannel_content_detected d1, f)]) = (d, gs')"
    using Cons.prems(4) h(1,5) by simp
  from Cons.IH[OF h(3,4) q2 this] flag obtain ec' where e: "EmptyRenderQueue parts ec2 = Some ec'" "canceller_base config mc rate ni nc ec'"
    "canceller_mode parts config mc rate ni gs' ec'" "detector ec' = d" "same_capture ec2 ec'" "sq_items (transfer_queue ec') = []"
    by (auto simp: queue_taken_def)
  have "same_capture ec ec1" by (simp add: same_capture_def ec1_def)
  from same_capture_trans[OF same_capture_trans[OF this h(6)] e(5)] have "same_capture ec ec'" .
  moreover have "EmptyRenderQueue parts ec = Some ec'"
    using q1(1) h(2) e(1) by (simp add: EmptyRenderQueue.simps[of parts ec] ec1_def Let_def)
  ultimately show ?case using e by blast
qed


section \<open>The capture side keeps the invariant\<close>

lemma ProcessCapture_result:
  assumes "BlockProcessor_ProcessCapture parts g s lin blk p = Some (p', lin', blk')"
  shows "(lin', blk') = (lin, blk) \<or> (\<exists>v e rb r. (lin', blk') = snd (er_ProcessCapture (p_remover parts) v s e rb r lin blk))"
proof (cases "render_properly_started p")
  case False
  then show ?thesis using assms by (simp add: BlockProcessor_ProcessCapture_def RTC_DCHECK_def split: if_splits)
next
  case True
  let ?p = "p\<lparr>bp_capture_call_counter := bp_capture_call_counter p + 1\<rparr>"
  obtain p1 change p2 v where 1: "prepare_capture parts ?p = Some (p1, change)"
    "align_capture parts blk \<lparr>gain_change = g, delay_change = change, clock_drift = False\<rparr> p1 = Some (p2, v)"
    using assms True by (auto simp: BlockProcessor_ProcessCapture_def Let_def split: bind_splits)
  obtain r lin1 blk1 where er: "er_ProcessCapture (p_remover parts) v s (estimated_delay p2) (render_buffer p2) (echo_remover p2) lin blk = (r, lin1, blk1)"
    by (metis prod_cases3)
  show ?thesis
  proof (cases "\<not> use_external_delay_estimator (cfg_delay (bp_config p2)) \<or> HasReceivedBufferDelay (render_buffer p2)")
    case False
    then show ?thesis using assms True 1 by (simp add: BlockProcessor_ProcessCapture_def RTC_DCHECK_def split: if_splits)
  next
    case c: True
    have "(lin', blk') = (lin1, blk1)" using assms True 1 c er by (simp add: BlockProcessor_ProcessCapture_def RTC_DCHECK_def split: if_splits)
    then show ?thesis using er by (metis snd_conv)
  qed
qed

lemma run_processor_shape: "remover_keeps parts nb nc \<Longrightarrow> keeps_shape nb nc (run_processor parts)"
proof -
  assume r: "remover_keeps parts nb nc"
  have "wf_block nb nc blk' \<and> wf_linear nc lin' \<and> (lin' = None) = (lin = None)"
    if p: "BlockProcessor_ProcessCapture parts g s lin blk p = Some (p', lin', blk')" and b: "wf_block nb nc blk" "wf_linear nc lin"
    for g s lin blk p p' lin' blk'
    using ProcessCapture_result[OF p]
  proof
    assume "\<exists>v e rb r. (lin', blk') = snd (er_ProcessCapture (p_remover parts) v s e rb r lin blk)"
    then obtain v e rb r0 where e: "(lin', blk') = snd (er_ProcessCapture (p_remover parts) v s e rb r0 lin blk)" by blast
    have "case er_ProcessCapture (p_remover parts) v s e rb r0 lin blk of (_, lin', blk') \<Rightarrow>
        wf_block nb nc blk' \<and> wf_linear nc lin' \<and> (lin' = None) = (lin = None)"
      by (rule r[unfolded remover_keeps_def, rule_format, OF b])
    then show ?thesis using e by (auto split: prod.splits)
  qed (use b in simp)
  then show ?thesis
    by (auto simp: keeps_shape_def run_processor_def split: option.splits)
qed

lemma process_blocks_run:
  assumes "processor_inv parts cfg rate n h p" "processor_setup parts cfg rate n" "set blks \<subseteq> UNIV \<times> Collect (wf_block (NumBandsForRate rate) nc)"
  shows "\<exists>p' lin' blks'. process_blocks (run_processor parts) (Some p, lin) blks = ((Some p', lin'), blks') \<and> processor_inv parts cfg rate n h p'"
  using assms(1,3)
proof (induction blks arbitrary: p lin)
  case (Cons x blks)
  obtain g s blk where x: "x = ((g, s), blk)" by (cases x) auto
  have "num_bands blk = NumBandsForRate rate" using Cons.prems(2) by (simp add: x wf_block_def)
  from ProcessCapture_ok[OF Cons.prems(1) assms(2) this, of g s lin]
  obtain p1 lin1 blk1 where 1: "BlockProcessor_ProcessCapture parts g s lin blk p = Some (p1, lin1, blk1)" "processor_inv parts cfg rate n h p1"
    by (elim exE conjE) (rule that)
  show ?case using Cons.IH[OF 1(2), of lin1] Cons.prems(2) 1(1) by (auto simp: x run_processor_def)
qed simp

text \<open>The linear output must be asked for exactly when it is configured.\<close>

definition good_capture :: "aec3_config \<Rightarrow> nat \<Rightarrow> nat \<Rightarrow> rat audio_buffer \<Rightarrow> rat audio_buffer option \<Rightarrow> bool" where
  "good_capture config rate nc capture linear_output \<longleftrightarrow> wf_audio (NumBandsForRate rate) nc capture \<and>
     (case linear_output of None \<Rightarrow> \<not> export_linear_aec_output (cfg_filter config)
      | Some lin \<Rightarrow> export_linear_aec_output (cfg_filter config) \<and> wf_audio 1 nc lin)"

lemma setup_active:
  assumes "canceller_setup parts hp config mc rate ni nc"
  shows "fixed_capture_delay_samples (cfg_delay (mode_config config mc multi)) = fixed_capture_delay_samples (cfg_delay config)"
    "export_linear_aec_output (cfg_filter (mode_config config mc multi)) = export_linear_aec_output (cfg_filter config)"
    "detect_stereo_content (cfg_multi_channel (mode_config config mc multi)) = detect_stereo_content (cfg_multi_channel config)"
  using assms by (auto simp: canceller_setup_def CompatibleConfigs_def mode_config_def split: option.splits if_splits)

definition delay_of :: "('m, 'f, 's, 'k, 'r, 'h) echo_canceller \<Rightarrow> nat \<times> nat \<Rightarrow> rat list" where
  "delay_of ec p = (case delay_buffer ec of None \<Rightarrow> [] | Some d \<Rightarrow> delay_held d p)"

lemma delay_part:
  assumes "canceller_base config mc rate ni nc ec" "canceller_mode parts config mc rate ni gs ec" "canceller_setup parts hp config mc rate ni nc"
    "wf_audio (NumBandsForRate rate) nc capture"
  shows "\<exists>ec' capture'. (if fixed_capture_delay_samples (cfg_delay (active_config (selector ec))) > 0
       then do { d \<leftarrow> delay_buffer ec; (d, capture) \<leftarrow> DelaySignal d capture; Some (ec\<lparr>delay_buffer := Some d\<rparr>, capture) }
       else Some (ec, capture)) = Some (ec', capture') \<and> wf_audio (NumBandsForRate rate) nc capture' \<and>
    canceller_base config mc rate ni nc ec' \<and> canceller_mode parts config mc rate ni gs ec' \<and>
    detector ec' = detector ec \<and> transfer_queue ec' = transfer_queue ec \<and> path ec' = path ec \<and>
    saturated_microphone_signal ec' = saturated_microphone_signal ec \<and>
    (\<forall>b<NumBandsForRate rate. \<forall>c<nc. delay_of ec (b, c) @ band_of capture (b, c) = band_of capture' (b, c) @ delay_of ec' (b, c))"
proof -
  have f: "fixed_capture_delay_samples (cfg_delay (active_config (selector ec))) = fixed_capture_delay_samples (cfg_delay config)"
    using assms(2) setup_active(1)[OF assms(3)] by (simp add: canceller_mode_def Let_def)
  show ?thesis
  proof (cases "fixed_capture_delay_samples (cfg_delay config) = 0")
    case True
    then have "delay_buffer ec = None" using assms(1) by (auto simp: canceller_base_simps split: option.splits)
    then show ?thesis using True f assms by (simp add: delay_of_def)
  next
    case False
    then obtain d where d: "delay_buffer ec = Some d" "delay_ok (NumBandsForRate rate) nc (fixed_capture_delay_samples (cfg_delay config)) d"
      using assms(1) by (auto simp: canceller_base_simps split: option.splits)
    obtain d' capture' where d': "DelaySignal d capture = Some (d', capture')" "wf_audio (NumBandsForRate rate) nc capture'"
      "delay_ok (NumBandsForRate rate) nc (fixed_capture_delay_samples (cfg_delay config)) d'"
      "\<forall>b<NumBandsForRate rate. \<forall>c<nc. delay_held d (b, c) @ band_of capture (b, c) = band_of capture' (b, c) @ delay_held d' (b, c)"
      using DelaySignal_ok[OF d(2) assms(4)] by (elim exE conjE) (rule that)
    have "canceller_base config mc rate ni nc (ec\<lparr>delay_buffer := Some d'\<rparr>)" using assms(1) d'(3) False by (simp add: canceller_base_simps)
    moreover have "canceller_mode parts config mc rate ni gs (ec\<lparr>delay_buffer := Some d'\<rparr>)" using assms(2) by (simp add: canceller_mode_def)
    ultimately show ?thesis using f False d(1) d'(1,2,4)
      by (intro exI[of _ "ec\<lparr>delay_buffer := Some d'\<rparr>"] exI[of _ capture']) (simp add: delay_of_def)
  qed
qed

lemma canceller_bands: "canceller_base config mc rate ni nc ec \<Longrightarrow> wf_audio (NumBandsForRate rate) nc capture \<Longrightarrow> 0 < NumBandsForRate rate \<Longrightarrow> 0 < nc \<Longrightarrow>
    ec_num_bands ec = ab_bands capture \<and> kSplitBandSize = num_frames_per_band capture \<and> ab_channels capture = ec_capture_channels ec"
  by (simp add: canceller_base_simps wf_audio_def num_frames_per_band_def cells_def)

lemma path_part:
  assumes "canceller_base config mc rate ni nc ec" "canceller_mode parts config mc rate ni gs ec" "canceller_setup parts hp config mc rate ni nc"
    "good_capture config rate nc capture lin"
  shows "\<exists>lin' capture' st'. process_capture_frame (run_processor parts) lin capture lc dm sat (path ec) = Some (lin', capture', st') \<and>
    block_processor st' \<noteq> None \<and> wf_audio (NumBandsForRate rate) nc capture' \<and>
    canceller_base config mc rate ni nc (ec\<lparr>path := st'\<rparr>) \<and> canceller_mode parts config mc rate ni gs (ec\<lparr>path := st'\<rparr>) \<and>
    blockwise (run_processor parts) ({(lc \<or> dm, sat)} \<times> Collect (wf_block (NumBandsForRate rate) nc)) (\<lambda>(b, c). b < NumBandsForRate rate \<and> c < nc)
      (path ec) st' (band_of capture) (band_of capture')"
proof -
  let ?nb = "NumBandsForRate rate" and ?ex = "export_linear_aec_output (cfg_filter config)"
  define call where "call = \<lparr>cc_linear = lin, cc_capture = capture, cc_level_change = lc, cc_downmixed = dm, cc_saturated = sat\<rparr>"
  have flags: "call_flags call = (lc \<or> dm, sat)" "cc_capture call = capture" by (simp_all add: call_def call_flags_def)
  have border: "at_border ?nb nc ?ex (path ec)" using assms(1) by (simp add: canceller_base_simps)
  have good: "good_call ?nb nc ?ex call" using assms(4) by (auto simp: good_call_def good_capture_def call_def split: option.splits)
  have "keeps_shape ?nb nc (run_processor parts)" using assms(3) run_processor_shape by (auto simp: canceller_setup_def)
  from capture_step_ok[OF border good this]
  obtain st' lin' capture' where s: "capture_step (run_processor parts) (path ec) call = Some (st', lin', capture')" "at_border ?nb nc ?ex st'"
    "wf_audio ?nb nc capture'"
    "blockwise (run_processor parts) ({(lc \<or> dm, sat)} \<times> Collect (wf_block ?nb nc)) (\<lambda>(b, c). b < ?nb \<and> c < nc) (path ec) st'
       (band_of capture) (band_of capture')"
    unfolding flags by (elim exE conjE) (rule that)
  have run: "process_capture_frame (run_processor parts) lin capture lc dm sat (path ec) = Some (lin', capture', st')"
    using s(1) by (auto simp: capture_step_def call_def split: bind_splits)
  obtain blks blks' where b: "process_blocks (run_processor parts) (block_processor (path ec), linear_output_block (path ec)) blks =
      ((block_processor st', linear_output_block st'), blks')" "set blks \<subseteq> UNIV \<times> Collect (wf_block ?nb nc)"
    using s(4) unfolding blockwise_def by blast
  define multi where "multi = persistent_multichannel_content_detected (detector ec)"
  let ?n = "mode_channels ni multi" and ?cfg = "mode_config config mc multi"
  obtain p h l where m: "num_render_channels_to_aec ec = ?n" "active_config (selector ec) = ?cfg" "l \<in> {0, 32}"
    "block_processor (path ec) = Some p" "bt.parts_ok parts ?cfg rate ?n l h (render_blocker ec, p, render_blk ec)"
    "cells ?nb ?n (\<lambda>b c. aec_samples ?n gs (b, c) = samples (b, c) (rev h) @ fb_buffer (render_blocker ec) ! b ! c)"
    using assms(2) unfolding canceller_mode_def Let_def multi_def[symmetric] by (elim exE bexE conjE) (rule that)
  have "processor_inv parts ?cfg rate ?n h p" "processor_setup parts ?cfg rate ?n" using m(5) by (simp_all add: bt.parts_ok_def block_taker_def)
  from process_blocks_run[OF this b(2), of "linear_output_block (path ec)"]
  obtain p' where p': "block_processor st' = Some p'" "processor_inv parts ?cfg rate ?n h p'" using b(1) m(4) by auto
  have "canceller_mode parts config mc rate ni gs (ec\<lparr>path := st'\<rparr>)"
    unfolding canceller_mode_def Let_def
    by (intro conjI exI[of _ p'] exI[of _ h] bexI[OF _ m(3)])
       (use m p' in \<open>simp_all add: bt.parts_ok_def block_taker_def flip: multi_def\<close>)
  moreover have "canceller_base config mc rate ni nc (ec\<lparr>path := st'\<rparr>)" using assms(1) s(2) by (simp add: canceller_base_simps)
  moreover have "block_processor st' \<noteq> None" using p'(1) by simp
  ultimately show ?thesis using run s(3,4) by (intro exI conjI)
qed

lemma linear_configured: "at_border nb nc ex st \<Longrightarrow> linear_output_framer st \<noteq> None \<longleftrightarrow> ex"
  by (auto simp: at_border_def linear_ok_def split: if_splits)

text \<open>
  The contract of a capture frame: the fixed delay, the render frames that wait in the queue, and
  then the block processor, block by block.
\<close>

definition captures ::
    "('m, 'f, 's, 'k, 'r) parts \<Rightarrow> nat \<Rightarrow> nat \<Rightarrow> bool \<Rightarrow> rat audio_buffer \<Rightarrow> ('m, 'f, 's, 'k, 'r, 'h) echo_canceller \<Rightarrow>
     ('m, 'f, 's, 'k, 'r, 'h) echo_canceller \<Rightarrow> rat audio_buffer \<Rightarrow> bool" where
  "captures parts nb nc lc capture ec ec' capture' \<longleftrightarrow> (\<exists>p delayed.
     (sq_items (transfer_queue ec) = [] \<longrightarrow> p = block_processor (path ec)) \<and>
     (\<forall>b<nb. \<forall>c<nc. delay_of ec (b, c) @ band_of capture (b, c) = band_of delayed (b, c) @ delay_of ec' (b, c)) \<and>
     blockwise (run_processor parts) ({(lc \<or> temporary_multichannel_content_detected (detector ec'), saturated_microphone_signal ec)} \<times> Collect (wf_block nb nc))
       (\<lambda>(b, c). b < nb \<and> c < nc) ((path ec)\<lparr>block_processor := p\<rparr>) (path ec') (band_of delayed) (band_of capture'))"

lemma EmptyRenderQueue_idle: "sq_items (transfer_queue ec) = [] \<Longrightarrow> canceller_base config mc rate ni nc ec \<Longrightarrow> EmptyRenderQueue parts ec = Some ec"
  using sq.remove_none[of kRenderTransferQueueSizeFrames "wf_frame (NumBandsForRate rate) ni" "transfer_queue ec" "queue_output_frame ec"]
  by (simp add: EmptyRenderQueue.simps[of parts ec] canceller_base_simps)

lemma EchoCanceller3_ProcessCapture_ok:
  assumes "canceller_base config mc rate ni nc ec" "canceller_mode parts config mc rate ni gs ec" "canceller_setup parts hp config mc rate ni nc"
    "good_capture config rate nc capture lin" "replay (sq_items (transfer_queue ec)) (detector ec, gs) = (d, gs')" "queue_taken parts ec"
  shows "\<exists>ec' lin' capture'. EchoCanceller3_ProcessCapture parts capture lin lc ec = Some (ec', lin', capture') \<and>
    canceller_base config mc rate ni nc ec' \<and> canceller_mode parts config mc rate ni gs' ec' \<and> detector ec' = d \<and>
    sq_items (transfer_queue ec') = [] \<and> wf_audio (NumBandsForRate rate) nc capture' \<and>
    captures parts (NumBandsForRate rate) nc lc capture ec ec' capture'"
proof -
  have cap: "wf_audio (NumBandsForRate rate) nc capture" using assms(4) by (simp add: good_capture_def)
  have "0 < nc" using assms(3) by (simp add: canceller_setup_def)
  note dims = canceller_bands[OF assms(1) cap setup_bands[OF assms(3)] this]
  have linear: "lin = None \<or> linear_output_framer (path ec) \<noteq> None"
    using linear_configured assms(1,4) by (fastforce simp: canceller_base_simps good_capture_def split: option.splits)
  define ec0 where "ec0 = ec\<lparr>api_call_metrics := fst (ReportCaptureCall (api_call_metrics ec))\<rparr>"
  have e0: "canceller_base config mc rate ni nc ec0" "canceller_mode parts config mc rate ni gs ec0" "detector ec0 = detector ec"
    "transfer_queue ec0 = transfer_queue ec"
    using assms(1,2) by (simp_all add: canceller_base_simps canceller_mode_def ec0_def)
  obtain ec1 delayed where 1: "(if fixed_capture_delay_samples (cfg_delay (active_config (selector ec0))) > 0
       then do { d \<leftarrow> delay_buffer ec0; (d, capture) \<leftarrow> DelaySignal d capture; Some (ec0\<lparr>delay_buffer := Some d\<rparr>, capture) }
       else Some (ec0, capture)) = Some (ec1, delayed)" "wf_audio (NumBandsForRate rate) nc delayed"
    "canceller_base config mc rate ni nc ec1" "canceller_mode parts config mc rate ni gs ec1" "detector ec1 = detector ec0"
    "transfer_queue ec1 = transfer_queue ec0" "path ec1 = path ec0" "saturated_microphone_signal ec1 = saturated_microphone_signal ec0"
    "\<forall>b<NumBandsForRate rate. \<forall>c<nc. delay_of ec0 (b, c) @ band_of capture (b, c) = band_of delayed (b, c) @ delay_of ec1 (b, c)"
    using delay_part[OF e0(1,2) assms(3) cap] by (elim exE conjE) (rule that)
  have "replay (sq_items (transfer_queue ec1)) (detector ec1, gs) = (d, gs')" using assms(5) 1(5,6) e0 by simp
  moreover have "queue_taken parts ec1" using assms(6) 1(6) e0(4) by (simp add: queue_taken_def)
  note EmptyRenderQueue_ok[OF 1(3,4) assms(3) refl _ this]
  ultimately
  obtain ec2 where 2: "EmptyRenderQueue parts ec1 = Some ec2" "canceller_base config mc rate ni nc ec2" "canceller_mode parts config mc rate ni gs' ec2"
    "detector ec2 = d" "same_capture ec1 ec2" "sq_items (transfer_queue ec2) = []" by blast
  have "good_capture config rate nc delayed lin" using assms(4) 1(2) by (simp add: good_capture_def)
  from path_part[OF 2(2,3) assms(3) this, of lc "temporary_multichannel_content_detected (detector ec2)" "saturated_microphone_signal ec2"]
  obtain lin' capture' st' where 3: "process_capture_frame (run_processor parts) lin delayed lc (temporary_multichannel_content_detected (detector ec2))
      (saturated_microphone_signal ec2) (path ec2) = Some (lin', capture', st')" "block_processor st' \<noteq> None" "wf_audio (NumBandsForRate rate) nc capture'"
    "canceller_base config mc rate ni nc (ec2\<lparr>path := st'\<rparr>)" "canceller_mode parts config mc rate ni gs' (ec2\<lparr>path := st'\<rparr>)"
    "blockwise (run_processor parts) ({(lc \<or> temporary_multichannel_content_detected (detector ec2), saturated_microphone_signal ec2)} \<times>
        Collect (wf_block (NumBandsForRate rate) nc)) (\<lambda>(b, c). b < NumBandsForRate rate \<and> c < nc) (path ec2) st' (band_of delayed) (band_of capture')"
    by (elim exE conjE) (rule that)
  have checks: "RTC_DCHECK (ec_num_bands ec = ab_bands capture) = Some ()" "RTC_DCHECK (kSplitBandSize = num_frames_per_band capture) = Some ()"
    "RTC_DCHECK (ab_channels capture = ec_capture_channels ec) = Some ()" "RTC_DCHECK (lin = None \<or> linear_output_framer (path ec) \<noteq> None) = Some ()"
    "RTC_DCHECK (block_processor st' \<noteq> None) = Some ()"
    using dims linear 3(2) by (simp_all add: RTC_DCHECK_def)
  have run: "EchoCanceller3_ProcessCapture parts capture lin lc ec = Some (ec2\<lparr>path := st'\<rparr>, lin', capture')"
    unfolding EchoCanceller3_ProcessCapture_def checks Let_def ec0_def[symmetric] 1(1) by (simp add: 2(1) 3(1) checks(5) del: not_None_eq)
  have same: "path ec2 = (path ec)\<lparr>block_processor := block_processor (path ec2)\<rparr>" "saturated_microphone_signal ec2 = saturated_microphone_signal ec"
    "delay_buffer ec2 = delay_buffer ec1"
    using 2(5) 1(7,8) by (simp_all add: same_capture_def ec0_def)
  have "captures parts (NumBandsForRate rate) nc lc capture ec (ec2\<lparr>path := st'\<rparr>) capture'"
    unfolding captures_def
  proof (intro exI conjI impI)
    show "block_processor (path ec2) = block_processor (path ec)" if "sq_items (transfer_queue ec) = []"
      using EmptyRenderQueue_idle[OF _ 1(3), of parts] that e0(4) 1(6,7) 2(1) by (simp add: ec0_def)
    show "\<forall>b<NumBandsForRate rate. \<forall>c<nc. delay_of ec (b, c) @ band_of capture (b, c) = band_of delayed (b, c) @ delay_of (ec2\<lparr>path := st'\<rparr>) (b, c)"
      using 1(9) same(3) by (simp add: delay_of_def ec0_def)
    show "blockwise (run_processor parts) ({(lc \<or> temporary_multichannel_content_detected (detector (ec2\<lparr>path := st'\<rparr>)), saturated_microphone_signal ec)} \<times>
        Collect (wf_block (NumBandsForRate rate) nc)) (\<lambda>(b, c). b < NumBandsForRate rate \<and> c < nc)
        ((path ec)\<lparr>block_processor := block_processor (path ec2)\<rparr>) (path (ec2\<lparr>path := st'\<rparr>)) (band_of delayed) (band_of capture')"
      using 3(6) unfolding same(2) by (simp flip: same(1))
  qed
  then show ?thesis using run 2(4,6) 3(3-5)
    by (intro exI[of _ "ec2\<lparr>path := st'\<rparr>"] exI[of _ lin'] exI[of _ capture']) simp
qed

lemma EchoCanceller3_ProcessCapture_checked:
  assumes "canceller_base config mc rate ni nc ec" "canceller_mode parts config mc rate ni gs ec" "canceller_setup parts hp config mc rate ni nc"
    "wf_audio (NumBandsForRate rate) nc capture" "\<not> queue_taken parts ec"
  shows "EchoCanceller3_ProcessCapture parts capture lin lc ec = None"
proof -
  define ec0 where "ec0 = ec\<lparr>api_call_metrics := fst (ReportCaptureCall (api_call_metrics ec))\<rparr>"
  have e0: "canceller_base config mc rate ni nc ec0" "canceller_mode parts config mc rate ni gs ec0" "transfer_queue ec0 = transfer_queue ec"
    using assms(1,2) by (simp_all add: canceller_base_simps canceller_mode_def ec0_def)
  obtain ec1 delayed where 1: "(if fixed_capture_delay_samples (cfg_delay (active_config (selector ec0))) > 0
       then do { d \<leftarrow> delay_buffer ec0; (d, capture) \<leftarrow> DelaySignal d capture; Some (ec0\<lparr>delay_buffer := Some d\<rparr>, capture) }
       else Some (ec0, capture)) = Some (ec1, delayed)"
    "canceller_base config mc rate ni nc ec1" "canceller_mode parts config mc rate ni gs ec1" "transfer_queue ec1 = transfer_queue ec0"
    using delay_part[OF e0(1,2) assms(3,4)] by (elim exE conjE) (rule that)
  have "\<not> queue_taken parts ec1" using assms(5) 1(4) e0(3) by (simp add: queue_taken_def)
  from EmptyRenderQueue_checked[OF 1(2,3) assms(3) this] show ?thesis
    unfolding EchoCanceller3_ProcessCapture_def Let_def ec0_def[symmetric] 1(1) by (simp split: bind_split)
qed

section \<open>The other calls\<close>

lemma on_processor_ok:
  assumes "canceller_base config mc rate ni nc ec" "canceller_mode parts config mc rate ni gs ec"
    "\<And>cfg n h p. processor_inv parts cfg rate n h p \<Longrightarrow> processor_inv parts cfg rate n h (f p)"
  shows "canceller_base config mc rate ni nc (on_processor f ec) \<and> canceller_mode parts config mc rate ni gs (on_processor f ec)"
proof
  show "canceller_base config mc rate ni nc (on_processor f ec)"
    using assms(1) by (simp add: canceller_base_simps on_processor_def)
  define multi where "multi = persistent_multichannel_content_detected (detector ec)"
  let ?n = "mode_channels ni multi" and ?cfg = "mode_config config mc multi"
  obtain p h l where m: "num_render_channels_to_aec ec = ?n" "active_config (selector ec) = ?cfg" "l \<in> {0, 32}"
    "block_processor (path ec) = Some p" "bt.parts_ok parts ?cfg rate ?n l h (render_blocker ec, p, render_blk ec)"
    "cells (NumBandsForRate rate) ?n (\<lambda>b c. aec_samples ?n gs (b, c) = samples (b, c) (rev h) @ fb_buffer (render_blocker ec) ! b ! c)"
    using assms(2) unfolding canceller_mode_def Let_def multi_def[symmetric] by (elim exE bexE conjE) (rule that)
  then have "bt.parts_ok parts ?cfg rate ?n l h (render_blocker ec, f p, render_blk ec)"
    using assms(3) by (simp add: bt.parts_ok_def block_taker_def)
  then show "canceller_mode parts config mc rate ni gs (on_processor f ec)"
    unfolding canceller_mode_def Let_def
    by (intro conjI exI[of _ "f p"] exI[of _ h] bexI[OF _ m(3)]) (use m in \<open>simp_all add: on_processor_def flip: multi_def\<close>)
qed

lemma AnalyzeRender_ok:
  assumes "canceller_base config mc rate ni nc ec" "canceller_mode parts config mc rate ni gs ec" "canceller_setup parts hp config mc rate ni nc"
    "wf_audio (NumBandsForRate rate) ni render"
  shows "\<exists>ec'. AnalyzeRender hp render ec = Some ec' \<and> canceller_base config mc rate ni nc ec' \<and> canceller_mode parts config mc rate ni gs ec' \<and>
    sq_items (transfer_queue ec') = take kRenderTransferQueueSizeFrames
      (sq_items (transfer_queue ec) @ [snd (filtered (hp_Process hp) (rw_high_pass (writer ec)) (frame_samples render))])"
proof -
  have w: "writer_ok (NumBandsForRate rate) ni (writer ec)" "sq_ok kRenderTransferQueueSizeFrames (wf_frame (NumBandsForRate rate) ni) (transfer_queue ec)"
    "filter_keeps (hp_Process hp)" "ab_channels render = num_render_input_channels ec"
    using assms(1,3,4) by (simp_all add: canceller_base_simps canceller_setup_def wf_audio_def)
  obtain w' q' where r: "RenderWriter_Insert (hp_Process hp) render (writer ec) (transfer_queue ec) = Some (w', q')"
    "writer_ok (NumBandsForRate rate) ni w'" "sq_ok kRenderTransferQueueSizeFrames (wf_frame (NumBandsForRate rate) ni) q'"
    "sq_items q' = take kRenderTransferQueueSizeFrames
      (sq_items (transfer_queue ec) @ [snd (filtered (hp_Process hp) (rw_high_pass (writer ec)) (frame_samples render))])"
    using RenderWriter_Insert_ok[OF w(1-3) assms(4)] by blast
  have "AnalyzeRender hp render ec = Some (ec\<lparr>writer := w', transfer_queue := q'\<rparr>)"
    using w(4) r(1) by (simp add: AnalyzeRender_def RTC_DCHECK_def)
  then show ?thesis using assms(1,2) r(2-4) by (simp add: canceller_base_simps canceller_mode_def)
qed

lemma path_held_processor: "path_held (st\<lparr>block_processor := p\<rparr>) = path_held st"
  by (simp add: path_held_def in_held_def out_held_def fun_eq_iff)

lemma new_echo_canceller_ok:
  assumes "canceller_setup parts hp config mc rate ni nc"
  shows "\<exists>ec. new_echo_canceller parts hp config mc rate ni nc = Some ec \<and> canceller_base config mc rate ni nc ec \<and>
    canceller_mode parts config mc rate ni [] ec \<and> sq_items (transfer_queue ec) = [] \<and>
    (\<forall>b<NumBandsForRate rate. \<forall>c<nc. path_held (path ec) (b, c) @ delay_of ec (b, c) =
       replicate (64 + fixed_capture_delay_samples (cfg_delay config)) 0)"
proof -
  let ?nb = "NumBandsForRate rate"
  define multi where "multi = (\<not> detect_stereo_content (cfg_multi_channel config) \<and> 1 < ni)"
  let ?cfg = "mode_config config mc multi"
  note pos = setup_bands[OF assms]
  have ni: "0 < ni" "0 < nc" using assms by (simp_all add: canceller_setup_def)
  obtain sel where sel: "new_config_selector config mc ni = Some sel" "active_config sel = ?cfg" "sel_config sel = config" "sel_multichannel_config sel = mc"
    using assms ConfigSelector_Update_mode[of "\<lparr>sel_config = config, sel_multichannel_config = mc, active_config = config\<rparr>" config mc multi]
    by (auto simp: new_config_selector_def canceller_setup_def multi_def split: option.splits)
  obtain hyst where "stereo_detection_hysteresis_seconds (cfg_multi_channel ?cfg) = Finite hyst"
    using assms by (auto simp: canceller_setup_def)
  then obtain det where det: "new_content_detector (detect_stereo_content (cfg_multi_channel ?cfg)) ni
      (stereo_detection_threshold (cfg_multi_channel ?cfg)) (stereo_detection_timeout_threshold_seconds (cfg_multi_channel ?cfg))
      (stereo_detection_hysteresis_seconds (cfg_multi_channel ?cfg)) = Some det"
    "md_detect_stereo_content det \<or> persistent_multichannel_content_detected det = (1 < ni)"
    by (auto simp: new_content_detector_def)
  let ?empty = "replicate ?nb (replicate ni (replicate kSplitBandSize 0)) :: rat list list list"
  have empty: "wf_frame ?nb ni ?empty" by (simp add: wf_frame_def shaped_def cells_def)
  have "0 < kRenderTransferQueueSizeFrames" by (simp add: kRenderTransferQueueSizeFrames_def)
  from new_swap_queue_ok[OF this, of "wf_frame ?nb ni", OF empty]
  obtain q where q: "new_swap_queue kRenderTransferQueueSizeFrames ?empty (Aec3RenderQueueItemVerifier ?nb ni kSplitBandSize) = Some q"
    "sq_ok kRenderTransferQueueSizeFrames (wf_frame ?nb ni) q" "sq_items q = []"
    unfolding verifier_wf by blast
  define ec :: "('a, 'b, 'c, 'd, 'e, 'f) echo_canceller" where
    "ec = \<lparr>ec_config = config, ec_sample_rate_hz = rate, ec_num_bands = ?nb,
       num_render_input_channels = ni, num_render_channels_to_aec = 0, ec_capture_channels = nc,
       selector = sel, detector = det,
       writer = new_render_writer (if high_pass_filter_echo_reference (cfg_filter ?cfg) then Some (hp_new hp ni) else None) ?nb ni,
       transfer_queue = q, queue_output_frame = ?empty,
       render_blocker = new_frame_blocker ?nb ni, render_blk = new_block ?nb ni 0,
       saturated_microphone_signal = False,
       path = new_capture_path 0 None (export_linear_aec_output (cfg_filter ?cfg)) ?nb nc,
       delay_buffer = (if fixed_capture_delay_samples (cfg_delay ?cfg) > 0
                       then Some (new_block_delay_buffer 0 nc ?nb kSplitBandSize (fixed_capture_delay_samples (cfg_delay config)))
                       else None),
       api_call_metrics = new_jitter_metrics\<rparr>"
  have "writer_ok ?nb ni (new_render_writer h ?nb ni)" for h :: "'f option"
    using pos ni empty by (simp add: writer_ok_def new_render_writer_def)
  moreover have "delay_ok ?nb nc n (new_block_delay_buffer (0 :: rat) nc ?nb kSplitBandSize n)" for n
    using pos ni by (auto simp: delay_ok_def new_block_delay_buffer_def shaped_def cells_def)
  ultimately have base: "canceller_base config mc rate ni nc ec"
    using sel det(2) q empty setup_active[OF assms]
    unfolding canceller_base_simps by (simp add: ec_def new_block_def new_capture_path_ok[OF pos ni(2)])
  obtain ec' where e: "EchoCanceller3_Initialize parts ec = Some ec'" "canceller_base config mc rate ni nc ec'" "canceller_mode parts config mc rate ni [] ec'"
    "transfer_queue ec' = transfer_queue ec" "same_capture ec ec'"
    using Initialize_ok[OF base assms] by blast
  have held: "path_held (path ec') (b, c) @ delay_of ec' (b, c) = replicate (64 + fixed_capture_delay_samples (cfg_delay config)) 0"
    if "b < ?nb" "c < nc" for b c
  proof -
    have "path_held (path ec') = path_held (path ec)" "delay_of ec' = delay_of ec"
      using e(5) unfolding same_capture_def by (metis path_held_processor, auto simp: delay_of_def)
    moreover have "path_held (path ec) (b, c) = replicate 64 0" using that by (simp add: ec_def path_held_def)
    moreover have "delay_of ec (b, c) = replicate (fixed_capture_delay_samples (cfg_delay config)) 0"
      using that setup_active(1)[OF assms]
      by (simp add: ec_def delay_of_def delay_held_def new_block_delay_buffer_def rotated_def)
    ultimately show ?thesis by (simp add: replicate_add)
  qed
  have rate: "ValidFullBandRate rate" by (rule setup_rate[OF assms])
  then have "RTC_DCHECK (ValidFullBandRate rate) = Some ()" "RTC_DCHECK (?nb = max rate 16000 div 16000) = Some ()" "RTC_DCHECK (kMaxNumBands \<ge> ?nb) = Some ()"
    by (auto simp: RTC_DCHECK_def ValidFullBandRate_def NumBandsForRate_def kMaxNumBands_def)
  then have "new_echo_canceller parts hp config mc rate ni nc = EchoCanceller3_Initialize parts ec"
    by (simp add: new_echo_canceller_def sel(1,2) det(1) q(1) ec_def Let_def)
  then show ?thesis using e q(3) held by (simp add: ec_def)
qed

section \<open>No call fails\<close>

text \<open>
  The states the calls lead to, with the frames since the last start of the block processor as they
  follow from the contract of the render side.
\<close>

inductive canceller_run ::
    "('m, 'f, 's, 'k, 'r) parts \<Rightarrow> 'h high_pass_class \<Rightarrow> aec3_config \<Rightarrow> aec3_config option \<Rightarrow> nat \<Rightarrow> nat \<Rightarrow> nat \<Rightarrow>
     (bool \<times> rat list list list) list \<Rightarrow> ('m, 'f, 's, 'k, 'r, 'h) echo_canceller \<Rightarrow> bool"
  for parts hp config mc rate ni nc where
  ec_start: "new_echo_canceller parts hp config mc rate ni nc = Some ec \<Longrightarrow> canceller_run parts hp config mc rate ni nc [] ec"
| ec_render: "canceller_run parts hp config mc rate ni nc gs ec \<Longrightarrow> wf_audio (NumBandsForRate rate) ni render \<Longrightarrow>
    AnalyzeRender hp render ec = Some ec' \<Longrightarrow> canceller_run parts hp config mc rate ni nc gs ec'"
| ec_saturation: "canceller_run parts hp config mc rate ni nc gs ec \<Longrightarrow> canceller_run parts hp config mc rate ni nc gs (AnalyzeCapture channels ec)"
| ec_capture: "canceller_run parts hp config mc rate ni nc gs ec \<Longrightarrow> good_capture config rate nc capture lin \<Longrightarrow>
    EchoCanceller3_ProcessCapture parts capture lin lc ec = Some (ec', lin', capture') \<Longrightarrow>
    canceller_run parts hp config mc rate ni nc (snd (replay (sq_items (transfer_queue ec)) (detector ec, gs))) ec'"
| ec_leakage: "canceller_run parts hp config mc rate ni nc gs ec \<Longrightarrow>
    canceller_run parts hp config mc rate ni nc gs (EchoCanceller3_UpdateEchoLeakageStatus parts leakage ec)"
| ec_delay: "canceller_run parts hp config mc rate ni nc gs ec \<Longrightarrow>
    canceller_run parts hp config mc rate ni nc gs (EchoCanceller3_SetAudioBufferDelay delay_ms ec)"
| ec_usage: "canceller_run parts hp config mc rate ni nc gs ec \<Longrightarrow>
    canceller_run parts hp config mc rate ni nc gs (EchoCanceller3_SetCaptureOutputUsage parts used ec)"

lemma canceller_run_inv:
  assumes "canceller_run parts hp config mc rate ni nc gs ec" "canceller_setup parts hp config mc rate ni nc"
  shows "canceller_base config mc rate ni nc ec \<and> canceller_mode parts config mc rate ni gs ec"
  using assms(1)
proof (induction rule: canceller_run.induct)
  case (ec_start ec)
  then show ?case using new_echo_canceller_ok[OF assms(2)] by auto
next
  case (ec_render gs ec render ec')
  then show ?case using AnalyzeRender_ok[of config mc rate ni nc ec parts gs hp render] assms(2) by auto
next
  case (ec_saturation gs ec channels)
  then show ?case by (simp add: AnalyzeCapture_def canceller_base_simps canceller_mode_def)
next
  case (ec_capture gs ec capture lin lc ec' lin' capture')
  obtain d gs' where r: "replay (sq_items (transfer_queue ec)) (detector ec, gs) = (d, gs')" by fastforce
  note i = ec_capture.IH[THEN conjunct1] ec_capture.IH[THEN conjunct2]
  have "wf_audio (NumBandsForRate rate) nc capture" using ec_capture.hyps(2) by (simp add: good_capture_def)
  from EchoCanceller3_ProcessCapture_checked[OF i assms(2) this] have "queue_taken parts ec" using ec_capture.hyps(3) by fastforce
  from EchoCanceller3_ProcessCapture_ok[OF i assms(2) ec_capture.hyps(2) r this, of lc]
  show ?case using ec_capture.hyps(3) r by (elim exE conjE) simp
next
  case (ec_leakage gs ec leakage)
  then show ?case unfolding EchoCanceller3_UpdateEchoLeakageStatus_def by (intro on_processor_ok) (simp_all add: leakage_inv)
next
  case (ec_delay gs ec delay_ms)
  then show ?case unfolding EchoCanceller3_SetAudioBufferDelay_def by (intro on_processor_ok) (simp_all add: delay_inv)
next
  case (ec_usage gs ec used)
  then show ?case unfolding EchoCanceller3_SetCaptureOutputUsage_def by (intro on_processor_ok) (simp_all add: usage_inv)
qed

lemma mode_processor:
  assumes "canceller_mode parts config mc rate ni gs ec"
  shows "\<exists>p h. block_processor (path ec) = Some p \<and>
    num_render_channels_to_aec ec = mode_channels ni (persistent_multichannel_content_detected (detector ec)) \<and>
    cells (NumBandsForRate rate) (num_render_channels_to_aec ec) (\<lambda>b c. aec_samples (num_render_channels_to_aec ec) gs (b, c) =
       samples (b, c) (rev h) @ fb_buffer (render_blocker ec) ! b ! c) \<and>
    block_taker parts (active_config (selector ec)) rate (num_render_channels_to_aec ec) h p"
  using assms unfolding canceller_mode_def Let_def bt.parts_ok_def by auto

text \<open>
  C1: Whatever calls of the echo canceller came before, with frames of the right shape, in a build
  without \<^verbatim>\<open>RTC_DCHECK\<close> the next render frame and the next capture frame fail none of the checks
  modelled here, except that of the offset into the low-rate ring, which such a build leaves out; in a
  build with \<^verbatim>\<open>RTC_DCHECK\<close> that check fails as soon as a capture frame finds a render frame in the
  queue. The setup restricts the configuration: each of the two has a validated delay part whose
  default delay fits into the rings, an internal delay estimate with ordered thresholds and a finite
  stereo hysteresis, the two are compatible, the rate is 16, 32 or 48 kHz, there are channels on both
  sides, the matched filter keeps its lags in range, and the high pass and the echo remover, which is
  made without a failed check, keep the shape of their signals. A capture frame takes all render
  frames out of the queue, in order; a change between mono and stereo content starts the block
  processor anew with the frame that brings it. The frames since then have reached the block processor
  as blocks, and the render delay buffer gives these blocks back.
\<close>
theorem echo_canceller_safe:
  assumes "canceller_setup parts hp config mc rate ni nc" "canceller_run parts hp config mc rate ni nc gs ec"
    "wf_audio (NumBandsForRate rate) ni render" "good_capture config rate nc capture lin"
    "replay (sq_items (transfer_queue ec)) (detector ec, gs) = (d, gs')"
  shows "AnalyzeRender hp render ec \<noteq> None \<and>
    (rtc_dcheck_is_on (p_dsp parts) \<and> sq_items (transfer_queue ec) \<noteq> [] \<longrightarrow> EchoCanceller3_ProcessCapture parts capture lin lc ec = None) \<and>
    (\<not> rtc_dcheck_is_on (p_dsp parts) \<or> sq_items (transfer_queue ec) = [] \<longrightarrow> (\<exists>ec' lin' capture' p h. EchoCanceller3_ProcessCapture parts capture lin lc ec = Some (ec', lin', capture') \<and>
       wf_audio (NumBandsForRate rate) nc capture' \<and> sq_items (transfer_queue ec') = [] \<and> detector ec' = d \<and>
       num_render_channels_to_aec ec' = mode_channels ni (persistent_multichannel_content_detected d) \<and>
       cells (NumBandsForRate rate) (num_render_channels_to_aec ec') (\<lambda>b c.
          aec_samples (num_render_channels_to_aec ec') gs' (b, c) = samples (b, c) (rev h) @ fb_buffer (render_blocker ec') ! b ! c) \<and>
       block_processor (path ec') = Some p \<and>
       (\<forall>k. total_delay (render_buffer p) + int k < int (rings_size (active_config (selector ec'))) \<longrightarrow> GetBlock (render_buffer p) (- int k) =
          Some ((stored (p_dsp parts) (active_config (selector ec')) h @ replicate (rings_size (active_config (selector ec')))
                   (new_block (NumBandsForRate rate) (num_render_channels_to_aec ec') 0)) ! (nat (total_delay (render_buffer p)) + k)))))"
proof (intro conjI impI)
  note i = canceller_run_inv[OF assms(2,1), THEN conjunct1] canceller_run_inv[OF assms(2,1), THEN conjunct2]
  show "AnalyzeRender hp render ec \<noteq> None" using AnalyzeRender_ok[OF i assms(1,3)] by auto
  have cap: "wf_audio (NumBandsForRate rate) nc capture" using assms(4) by (simp add: good_capture_def)
  show "EchoCanceller3_ProcessCapture parts capture lin lc ec = None"
    if "rtc_dcheck_is_on (p_dsp parts) \<and> sq_items (transfer_queue ec) \<noteq> []"
    using EchoCanceller3_ProcessCapture_checked[OF i assms(1) cap] that by (simp add: queue_taken_def)
  assume "\<not> rtc_dcheck_is_on (p_dsp parts) \<or> sq_items (transfer_queue ec) = []"
  then have t: "queue_taken parts ec" by (simp add: queue_taken_def)
  obtain ec' lin' capture' where e: "EchoCanceller3_ProcessCapture parts capture lin lc ec = Some (ec', lin', capture')"
    "canceller_mode parts config mc rate ni gs' ec'" "detector ec' = d" "sq_items (transfer_queue ec') = []" "wf_audio (NumBandsForRate rate) nc capture'"
    using EchoCanceller3_ProcessCapture_ok[OF i assms(1,4,5) t, of lc] by (elim exE conjE) (rule that)
  obtain p h where p: "block_processor (path ec') = Some p"
    "num_render_channels_to_aec ec' = mode_channels ni (persistent_multichannel_content_detected d)"
    "cells (NumBandsForRate rate) (num_render_channels_to_aec ec') (\<lambda>b c. aec_samples (num_render_channels_to_aec ec') gs' (b, c) =
       samples (b, c) (rev h) @ fb_buffer (render_blocker ec') ! b ! c)"
    "block_taker parts (active_config (selector ec')) rate (num_render_channels_to_aec ec') h p"
    using mode_processor[OF e(2)] unfolding e(3) by (elim exE conjE) (rule that)
  have "run_inv (p_dsp parts) (active_config (selector ec')) rate (num_render_channels_to_aec ec') h (render_buffer p)"
    using p(4) by (simp add: block_taker_def processor_inv_def)
  note g = run_inv_GetBlock[OF this]
  show "\<exists>ec' lin' capture' p h. EchoCanceller3_ProcessCapture parts capture lin lc ec = Some (ec', lin', capture') \<and>
       wf_audio (NumBandsForRate rate) nc capture' \<and> sq_items (transfer_queue ec') = [] \<and> detector ec' = d \<and>
       num_render_channels_to_aec ec' = mode_channels ni (persistent_multichannel_content_detected d) \<and>
       cells (NumBandsForRate rate) (num_render_channels_to_aec ec') (\<lambda>b c.
          aec_samples (num_render_channels_to_aec ec') gs' (b, c) = samples (b, c) (rev h) @ fb_buffer (render_blocker ec') ! b ! c) \<and>
       block_processor (path ec') = Some p \<and>
       (\<forall>k. total_delay (render_buffer p) + int k < int (rings_size (active_config (selector ec'))) \<longrightarrow> GetBlock (render_buffer p) (- int k) =
          Some ((stored (p_dsp parts) (active_config (selector ec')) h @ replicate (rings_size (active_config (selector ec')))
                   (new_block (NumBandsForRate rate) (num_render_channels_to_aec ec') 0)) ! (nat (total_delay (render_buffer p)) + k)))"
    by (intro conjI exI) (rule e(1,5,4,3) p(2,3,1) | intro allI impI, rule g, assumption)+
qed

definition demo_high_pass :: "unit high_pass_class" where
  "demo_high_pass = \<lparr>hp_new = (\<lambda>_. ()), hp_Process = (\<lambda>f band. (f, band))\<rparr>"

definition demo_audio :: "nat \<Rightarrow> rat audio_buffer" where
  "demo_audio channels = \<lparr>ab_channels = channels, ab_bands = 1, split_bands = replicate channels [replicate 160 7]\<rparr>"

lemma demo_audio_wf: "wf_audio (NumBandsForRate 16000) n (demo_audio n)"
  by (auto simp: wf_audio_def demo_audio_def NumBandsForRate_def shaped_def cells_def kSplitBandSize_def)

lemma demo_processor_setups: "0 < n \<Longrightarrow> processor_setup demo_parts default_config 16000 n"
  using demo_processor_setup by (simp add: processor_setup_def render_setup_def)

lemma demo_canceller_setup: "canceller_setup demo_parts demo_high_pass default_config None 16000 2 1"
proof -
  have "processor_setup demo_parts default_config 16000 (mode_channels 2 multi)" for multi
    by (rule demo_processor_setups) (simp add: mode_channels_def)
  moreover have "remover_keeps demo_parts (NumBandsForRate 16000) 1"
    by (simp add: remover_keeps_def demo_parts_def wf_block_def)
  ultimately show ?thesis
    by (simp add: canceller_setup_def mode_config_def demo_high_pass_def filter_keeps_def default_config_def)
qed

lemma demo_good_capture: "good_capture default_config 16000 1 (demo_audio 1) None"
  using demo_audio_wf[of 1] by (simp add: good_capture_def default_config_def default_filter_cfg_def)

theorem echo_canceller_safe_witness:
  "\<exists>ec ec' lin' capture'. canceller_run demo_parts demo_high_pass default_config None 16000 2 1 [] ec \<and>
     length (sq_items (transfer_queue ec)) = 1 \<and>
     EchoCanceller3_ProcessCapture demo_parts (demo_audio 1) None False ec = Some (ec', lin', capture') \<and> sq_items (transfer_queue ec') = []"
proof -
  note demo = demo_canceller_setup
  obtain ec0 where z: "new_echo_canceller demo_parts demo_high_pass default_config None 16000 2 1 = Some ec0"
    "canceller_base default_config None 16000 2 1 ec0" "canceller_mode demo_parts default_config None 16000 2 [] ec0"
    "sq_items (transfer_queue ec0) = []"
    using new_echo_canceller_ok[OF demo] by blast
  obtain ec where 1: "AnalyzeRender demo_high_pass (demo_audio 2) ec0 = Some ec" "length (sq_items (transfer_queue ec)) = 1"
    using AnalyzeRender_ok[OF z(2,3) demo demo_audio_wf] z(4) by (auto simp: kRenderTransferQueueSizeFrames_def)
  have run: "canceller_run demo_parts demo_high_pass default_config None 16000 2 1 [] ec"
    by (rule ec_render[OF ec_start[OF z(1)] demo_audio_wf 1(1)])
  obtain d gs' where "replay (sq_items (transfer_queue ec)) (detector ec, []) = (d, gs')" by fastforce
  from echo_canceller_safe[OF demo run demo_audio_wf demo_good_capture this, of False, THEN conjunct2, THEN conjunct2, rule_format]
  show ?thesis using run 1(2) by (elim exE conjE meta_impE) (rule disjI1, simp, intro exI conjI)
qed

section \<open>Silence at the far end\<close>

text \<open>Until the first render frame a processor leaves its blocks alone.\<close>

definition idle :: "('m, 'f, 's, 'k, 'r) parts \<Rightarrow> nat \<Rightarrow> ('m, 'f, 's, 'k, 'r) block_processor option \<Rightarrow> bool" where
  "idle parts rate p \<longleftrightarrow> (\<exists>st cfg n. p = Some st \<and> block_taker parts cfg rate n [] st)"

lemma process_blocks_idle:
  assumes "idle parts rate p" "set blks \<subseteq> UNIV \<times> Collect (wf_block (NumBandsForRate rate) nc)"
  shows "\<exists>p'. process_blocks (run_processor parts) (p, lin) blks = ((p', lin), map snd blks) \<and> idle parts rate p'"
  using assms
proof (induction blks arbitrary: p)
  case (Cons x blks)
  obtain g s blk where x: "x = ((g, s), blk)" by (cases x) auto
  obtain st cfg n where p: "p = Some st" "processor_inv parts cfg rate n [] st" "processor_setup parts cfg rate n"
    using Cons.prems(1) by (auto simp: idle_def block_taker_def)
  have "num_bands blk = NumBandsForRate rate" using Cons.prems(2) by (simp add: x wf_block_def)
  from ProcessCapture_ok[OF p(2,3) this, of g s lin]
  obtain st' where 1: "BlockProcessor_ProcessCapture parts g s lin blk st = Some (st', lin, blk)" "processor_inv parts cfg rate n [] st'"
    by auto
  have "idle parts rate (Some st')" using 1(2) p(3) by (auto simp: idle_def block_taker_def)
  from Cons.IH[OF this] show ?case using Cons.prems(2) 1(1) by (auto simp: x p(1) run_processor_def)
qed simp

lemma mode_idle:
  assumes "canceller_mode parts config mc rate ni [] ec"
  shows "idle parts rate (block_processor (path ec))"
proof -
  obtain p h where p: "block_processor (path ec) = Some p"
    "cells (NumBandsForRate rate) (num_render_channels_to_aec ec) (\<lambda>b c. [] = samples (b, c) (rev h) @ fb_buffer (render_blocker ec) ! b ! c)"
    "block_taker parts (active_config (selector ec)) rate (num_render_channels_to_aec ec) h p"
    using mode_processor[OF assms] by auto
  have pos: "0 < NumBandsForRate rate" "0 < num_render_channels_to_aec ec" using bt.some_cells[OF p(3)] by auto
  have "h = []"
  proof (rule ccontr)
    assume "h \<noteq> []"
    then obtain blk where blk: "blk \<in> set (rev h)" by (cases h) auto
    then have "length (View blk 0 0) = kBlockSize" using p(3) pos by (auto simp: block_taker_def list_all_iff)
    moreover have "samples (0, 0) (rev h) = []" using p(2) pos by (simp add: cells_def)
    ultimately show False using blk by (auto simp: samples_def kBlockSize_def)
  qed
  then show ?thesis using p(1,3) by (auto simp: idle_def)
qed

definition quiet :: "('m, 'f, 's, 'k, 'r) parts \<Rightarrow> aec3_config \<Rightarrow> aec3_config option \<Rightarrow> nat \<Rightarrow> nat \<Rightarrow> nat \<Rightarrow> ('m, 'f, 's, 'k, 'r, 'h) echo_canceller \<Rightarrow> bool" where
  "quiet parts config mc rate ni nc ec \<longleftrightarrow> canceller_base config mc rate ni nc ec \<and> canceller_mode parts config mc rate ni [] ec \<and>
     sq_items (transfer_queue ec) = []"

definition canceller_held :: "('m, 'f, 's, 'k, 'r, 'h) echo_canceller \<Rightarrow> nat \<times> nat \<Rightarrow> rat list" where
  "canceller_held ec p = path_held (path ec) p @ delay_of ec p"

definition capture_call_step where
  "capture_call_step parts ec = (\<lambda>(capture, lin, lc). EchoCanceller3_ProcessCapture parts capture lin lc ec)"

lemma quiet_stage:
  assumes "canceller_setup parts hp config mc rate ni nc \<and> quiet parts config mc rate ni nc ec"
    "case call of (capture, lin, lc) \<Rightarrow> good_capture config rate nc capture lin"
  shows "\<exists>ec' out. capture_call_step parts ec call = Some (ec', out) \<and>
    (canceller_setup parts hp config mc rate ni nc \<and> quiet parts config mc rate ni nc ec') \<and> wf_audio (NumBandsForRate rate) nc (snd out) \<and>
    (\<forall>p. (case p of (b, c) \<Rightarrow> b < NumBandsForRate rate \<and> c < nc) \<longrightarrow>
       canceller_held ec p @ band_of (fst call) p = band_of (snd out) p @ canceller_held ec' p)"
proof -
  obtain capture lin lc where call: "call = (capture, lin, lc)" by (cases call)
  have q: "canceller_base config mc rate ni nc ec" "canceller_mode parts config mc rate ni [] ec" "sq_items (transfer_queue ec) = []"
    "canceller_setup parts hp config mc rate ni nc" "good_capture config rate nc capture lin"
    using assms by (simp_all add: quiet_def call)
  have r: "replay (sq_items (transfer_queue ec)) (detector ec, []) = (detector ec, [])" "queue_taken parts ec" by (simp_all add: q(3) queue_taken_def)
  obtain ec' lin' capture' where e: "EchoCanceller3_ProcessCapture parts capture lin lc ec = Some (ec', lin', capture')"
    "canceller_base config mc rate ni nc ec'" "canceller_mode parts config mc rate ni [] ec'" "sq_items (transfer_queue ec') = []"
    "wf_audio (NumBandsForRate rate) nc capture'" "captures parts (NumBandsForRate rate) nc lc capture ec ec' capture'"
    using EchoCanceller3_ProcessCapture_ok[OF q(1,2,4,5) r, of lc] by (elim exE conjE) (rule that)
  obtain delayed where d: "\<forall>b<NumBandsForRate rate. \<forall>c<nc. delay_of ec (b, c) @ band_of capture (b, c) = band_of delayed (b, c) @ delay_of ec' (b, c)"
    "blockwise (run_processor parts) ({(lc \<or> temporary_multichannel_content_detected (detector ec'), saturated_microphone_signal ec)} \<times>
        Collect (wf_block (NumBandsForRate rate) nc))
       (\<lambda>(b, c). b < NumBandsForRate rate \<and> c < nc) (path ec) (path ec') (band_of delayed) (band_of capture')"
    using e(6) q(3) unfolding captures_def by auto
  obtain blks blks' where b: "process_blocks (run_processor parts) (block_processor (path ec), linear_output_block (path ec)) blks =
      ((block_processor (path ec'), linear_output_block (path ec')), blks')" "set blks \<subseteq> UNIV \<times> Collect (wf_block (NumBandsForRate rate) nc)"
    "\<And>p. (case p of (b, c) \<Rightarrow> b < NumBandsForRate rate \<and> c < nc) \<Longrightarrow>
       in_held (path ec) p @ band_of delayed p = samples p (map snd blks) @ in_held (path ec') p \<and>
       out_held (path ec) p @ samples p blks' = band_of capture' p @ out_held (path ec') p"
    using d(2) unfolding blockwise_def by blast
  have blks': "blks' = map snd blks" using process_blocks_idle[OF mode_idle[OF q(2)] b(2), of "linear_output_block (path ec)"] b(1) by auto
  have "canceller_held ec p @ band_of capture p = band_of capture' p @ canceller_held ec' p"
    if p: "case p of (b, c) \<Rightarrow> b < NumBandsForRate rate \<and> c < nc" for p
  proof -
    have "delay_of ec p @ band_of capture p = band_of delayed p @ delay_of ec' p" using d(1) p by (cases p) simp
    moreover have "path_held (path ec) p @ band_of delayed p = band_of capture' p @ path_held (path ec') p"
      using b(3)[OF p] unfolding path_held_def blks' by (metis append_assoc)
    ultimately show ?thesis unfolding canceller_held_def by (metis append_assoc)
  qed
  then show ?thesis using e q(4) by (simp add: capture_call_step_def call quiet_def)
qed

interpretation qc: sample_stage "capture_call_step parts" "\<lambda>ec. canceller_setup parts hp config mc rate ni nc \<and> quiet parts config mc rate ni nc ec"
    "\<lambda>(capture, lin, lc). good_capture config rate nc capture lin" canceller_held "\<lambda>call. band_of (fst call)" "\<lambda>out. band_of (snd out)"
    "\<lambda>(b, c). b < NumBandsForRate rate \<and> c < nc" "\<lambda>out. wf_audio (NumBandsForRate rate) nc (snd out)"
  for parts hp config mc rate ni nc
  by unfold_locales (rule quiet_stage)

text \<open>
  C12: As long as there is no render frame, the canceller gives the capture signal back with a
  constant delay: a block of 64 samples and the fixed delay of the configuration, whatever the
  other parts of the block processor would do.
\<close>
theorem silent_far_end_delay:
  assumes "canceller_setup parts hp config mc rate ni nc" "new_echo_canceller parts hp config mc rate ni nc = Some ec"
    "list_all (\<lambda>(capture, lin, lc). good_capture config rate nc capture lin) calls" "b < NumBandsForRate rate" "c < nc"
  shows "\<exists>ec' outs. run_steps (capture_call_step parts) ec calls = Some (ec', outs) \<and>
    concat (map (\<lambda>out. band_of (snd out) (b, c)) outs) =
      take (160 * length calls) (replicate (64 + fixed_capture_delay_samples (cfg_delay config)) 0 @ concat (map (\<lambda>call. band_of (fst call) (b, c)) calls))"
proof -
  have q: "canceller_setup parts hp config mc rate ni nc \<and> quiet parts config mc rate ni nc ec"
    and h: "canceller_held ec (b, c) = replicate (64 + fixed_capture_delay_samples (cfg_delay config)) 0"
    using new_echo_canceller_ok[OF assms(1)] assms(1,2,4,5) by (auto simp: quiet_def canceller_held_def)
  from qc.run_fifo[OF q assms(3)] obtain ec' outs where r: "run_steps (capture_call_step parts) ec calls = Some (ec', outs)"
    "length outs = length calls" "list_all (\<lambda>out. wf_audio (NumBandsForRate rate) nc (snd out)) outs"
    "canceller_held ec (b, c) @ concat (map (\<lambda>call. band_of (fst call) (b, c)) calls) =
       concat (map (\<lambda>out. band_of (snd out) (b, c)) outs) @ canceller_held ec' (b, c)"
    using assms(4,5) by auto
  have "length (concat (map (\<lambda>out. band_of (snd out) (b, c)) outs)) = 160 * length calls"
    using r(2) length_bands[OF _ assms(4,5), of "map snd outs"] r(3) by (simp add: comp_def list_all_iff)
  then have "concat (map (\<lambda>out. band_of (snd out) (b, c)) outs) =
      take (160 * length calls) (canceller_held ec (b, c) @ concat (map (\<lambda>call. band_of (fst call) (b, c)) calls))"
    unfolding r(4) by simp
  then show ?thesis using r(1) unfolding h by blast
qed

theorem silent_far_end_delay_witness:
  "\<exists>ec ec' outs. new_echo_canceller demo_parts demo_high_pass default_config None 16000 2 1 = Some ec \<and>
     run_steps (capture_call_step demo_parts) ec [(demo_audio 1, None, False)] = Some (ec', outs) \<and>
     concat (map (\<lambda>out. band_of (snd out) (0, 0)) outs) = replicate 64 0 @ replicate 96 7"
proof -
  obtain ec where ec: "new_echo_canceller demo_parts demo_high_pass default_config None 16000 2 1 = Some ec"
    using new_echo_canceller_ok[OF demo_canceller_setup] by blast
  have "0 < NumBandsForRate 16000" by (simp add: NumBandsForRate_def)
  moreover have "fixed_capture_delay_samples (cfg_delay default_config) = 0" by (simp add: default_config_def default_delay_cfg_def)
  ultimately show ?thesis
    using silent_far_end_delay[OF demo_canceller_setup ec, of "[(demo_audio 1, None, False)]" 0 0] ec demo_good_capture
    by (auto simp: demo_audio_def band_of_def)
qed

end
