(* ===== verification/Aec_Adjust.thy ===== *)
theory Aec_Adjust
  imports Field_Trials Aec_Canceller
begin

text \<open>
  \<^verbatim>\<open>AdjustConfig\<close> of
  \<^verbatim>\<open>crates/fswtch-apm-sys/cpp/modules/audio_processing/aec3/echo_canceller3.cc\<close>: the changes of the
  configuration by field trials, in the order of the code, a part of the function at a time; and the
  creation of the echo canceller with them.
\<close>

section \<open>Switches\<close>

definition enabled :: "field_trials \<Rightarrow> string \<Rightarrow> (aec3_config \<Rightarrow> aec3_config) \<Rightarrow> aec3_config \<Rightarrow> aec3_config" where
  "enabled trials name f c = (if IsEnabled trials name then f c else c)"

text \<open>The first trial of a chain of \<^verbatim>\<open>else if\<close> that is enabled.\<close>

definition first_enabled :: "field_trials \<Rightarrow> (string \<times> cfloat) list \<Rightarrow> (cfloat \<Rightarrow> aec3_config \<Rightarrow> aec3_config) \<Rightarrow> aec3_config \<Rightarrow> aec3_config" where
  "first_enabled trials names f c = (case find (\<lambda>(name, _). IsEnabled trials name) names of Some (_, v) \<Rightarrow> f v c | None \<Rightarrow> c)"

definition adjust_start :: "field_trials \<Rightarrow> aec3_config \<Rightarrow> aec3_config" where
  "adjust_start trials c =
     (let c = enabled trials ''WebRTC-Aec3StereoContentDetectionKillSwitch''
            (cfg_multi_channel_update (detect_stereo_content_update (\<lambda>_. False))) c;
          c = enabled trials ''WebRTC-Aec3AntiHowlingMinimizationKillSwitch''
            (cfg_suppressor_update (high_bands_suppression_update
               (\<lambda>h. h\<lparr>anti_howling_activation_threshold := flt 25, anti_howling_gain := flt (1 / 100)\<rparr>))) c;
          c = enabled trials ''WebRTC-Aec3UseShortConfigChangeDuration''
            (cfg_filter_update (config_change_duration_blocks_update (\<lambda>_. 10))) c;
          c = first_enabled trials
            [(''WebRTC-Aec3UseZeroInitialStateDuration'', Finite 0),
             (''WebRTC-Aec3UseDot1SecondsInitialStateDuration'', flt (1 / 10)),
             (''WebRTC-Aec3UseDot2SecondsInitialStateDuration'', flt (2 / 10)),
             (''WebRTC-Aec3UseDot3SecondsInitialStateDuration'', flt (3 / 10)),
             (''WebRTC-Aec3UseDot6SecondsInitialStateDuration'', flt (6 / 10)),
             (''WebRTC-Aec3UseDot9SecondsInitialStateDuration'', flt (9 / 10)),
             (''WebRTC-Aec3Use1Dot2SecondsInitialStateDuration'', flt (12 / 10)),
             (''WebRTC-Aec3Use1Dot6SecondsInitialStateDuration'', flt (16 / 10)),
             (''WebRTC-Aec3Use2Dot0SecondsInitialStateDuration'', flt 2)]
            (\<lambda>v. cfg_filter_update (initial_state_seconds_update (\<lambda>_. v))) c;
          c = enabled trials ''WebRTC-Aec3HighPassFilterEchoReference''
            (cfg_filter_update (high_pass_filter_echo_reference_update (\<lambda>_. True))) c
      in enabled trials ''WebRTC-Aec3EchoSaturationDetectionKillSwitch''
            (cfg_ep_strength_update (echo_can_saturate_update (\<lambda>_. False))) c)"

text \<open>Both lengths of the reverb change only when both are in the open interval from -1 to 1.\<close>

definition adjust_reverb :: "field_trials \<Rightarrow> aec3_config \<Rightarrow> aec3_config" where
  "adjust_reverb trials c =
     (let ep = cfg_ep_strength c;
          params = ParseFieldTrial [double_field ''default_len'' (default_len ep), double_field ''nearend_len'' (nearend_len ep)]
            (trials ''WebRTC-Aec3UseNearendReverbLen'');
          d = to_float (Get_double (params ! 0)); n = to_float (Get_double (params ! 1))
      in if cf_less (Finite (-1)) d \<and> cf_less d (Finite 1) \<and> cf_less (Finite (-1)) n \<and> cf_less n (Finite 1)
         then c\<lparr>cfg_ep_strength := ep\<lparr>default_len := d, nearend_len := n\<rparr>\<rparr> else c)"

definition adjust_switches :: "field_trials \<Rightarrow> aec3_config \<Rightarrow> aec3_config" where
  "adjust_switches trials c =
     (let c = enabled trials ''WebRTC-Aec3ConservativeTailFreqResponse''
            (cfg_ep_strength_update (use_conservative_tail_frequency_response_update (\<lambda>_. True))) c;
          c = (if IsDisabled trials ''WebRTC-Aec3ConservativeTailFreqResponse''
               then cfg_ep_strength_update (use_conservative_tail_frequency_response_update (\<lambda>_. False)) c else c);
          c = enabled trials ''WebRTC-Aec3ShortHeadroomKillSwitch''
            (cfg_delay_update (delay_headroom_samples_update (\<lambda>_. kBlockSize * 2))) c;
          c = enabled trials ''WebRTC-Aec3ClampInstQualityToZeroKillSwitch''
            (cfg_erle_update (clamp_quality_estimate_to_zero_update (\<lambda>_. False))) c;
          c = enabled trials ''WebRTC-Aec3ClampInstQualityToOneKillSwitch''
            (cfg_erle_update (clamp_quality_estimate_to_one_update (\<lambda>_. False))) c;
          c = enabled trials ''WebRTC-Aec3OnsetDetectionKillSwitch''
            (cfg_erle_update (onset_detection_update (\<lambda>_. False))) c;
          c = enabled trials ''WebRTC-Aec3EnforceRenderDelayEstimationDownmixing''
            (cfg_delay_update (render_alignment_mixing_update (\<lambda>m. m\<lparr>downmix := True, adaptive_selection := False\<rparr>))) c;
          c = enabled trials ''WebRTC-Aec3EnforceCaptureDelayEstimationDownmixing''
            (cfg_delay_update (capture_alignment_mixing_update (\<lambda>m. m\<lparr>downmix := True, adaptive_selection := False\<rparr>))) c;
          c = enabled trials ''WebRTC-Aec3EnforceCaptureDelayEstimationLeftRightPrioritization''
            (cfg_delay_update (capture_alignment_mixing_update (prefer_first_two_channels_update (\<lambda>_. True)))) c;
          c = enabled trials ''WebRTC-Aec3RenderDelayEstimationLeftRightPrioritizationKillSwitch''
            (cfg_delay_update (capture_alignment_mixing_update (prefer_first_two_channels_update (\<lambda>_. False)))) c
      in first_enabled trials
            [(''WebRTC-Aec3SensitiveDominantNearendActivation'', flt (5 / 10)),
             (''WebRTC-Aec3VerySensitiveDominantNearendActivation'', flt (75 / 100))]
            (\<lambda>v. cfg_suppressor_update (dominant_nearend_detection_update (dn_enr_threshold_update (\<lambda>_. v)))) c)"

definition mask_values :: "rat \<Rightarrow> rat \<Rightarrow> masking_thresholds \<Rightarrow> masking_thresholds" where
  "mask_values transparent suppress m = m\<lparr>enr_transparent := flt transparent, enr_suppress := flt suppress\<rparr>"

definition adjust_tunings :: "field_trials \<Rightarrow> aec3_config \<Rightarrow> aec3_config" where
  "adjust_tunings trials c =
     (let c = enabled trials ''WebRTC-Aec3TransparentAntiHowlingGain''
            (cfg_suppressor_update (high_bands_suppression_update (anti_howling_gain_update (\<lambda>_. flt 1)))) c;
          c = enabled trials ''WebRTC-Aec3EnforceMoreTransparentNormalSuppressorTuning''
            (cfg_suppressor_update (normal_tuning_update (mask_lf_update (mask_values (4 / 10) (5 / 10))))) c;
          c = enabled trials ''WebRTC-Aec3EnforceMoreTransparentNearendSuppressorTuning''
            (cfg_suppressor_update (nearend_tuning_update (mask_lf_update (mask_values (129 / 100) (13 / 10))))) c;
          c = enabled trials ''WebRTC-Aec3EnforceMoreTransparentNormalSuppressorHfTuning''
            (cfg_suppressor_update (normal_tuning_update (mask_hf_update (mask_values (3 / 10) (4 / 10))))) c;
          c = enabled trials ''WebRTC-Aec3EnforceMoreTransparentNearendSuppressorHfTuning''
            (cfg_suppressor_update (nearend_tuning_update (mask_hf_update (mask_values (109 / 100) (11 / 10))))) c;
          c = enabled trials ''WebRTC-Aec3EnforceRapidlyAdjustingNormalSuppressorTunings''
            (cfg_suppressor_update (normal_tuning_update (max_inc_factor_update (\<lambda>_. flt (25 / 10))))) c;
          c = enabled trials ''WebRTC-Aec3EnforceRapidlyAdjustingNearendSuppressorTunings''
            (cfg_suppressor_update (nearend_tuning_update (max_inc_factor_update (\<lambda>_. flt (25 / 10))))) c;
          c = enabled trials ''WebRTC-Aec3EnforceSlowlyAdjustingNormalSuppressorTunings''
            (cfg_suppressor_update (normal_tuning_update (max_dec_factor_lf_update (\<lambda>_. flt (2 / 10))))) c;
          c = enabled trials ''WebRTC-Aec3EnforceSlowlyAdjustingNearendSuppressorTunings''
            (cfg_suppressor_update (nearend_tuning_update (max_dec_factor_lf_update (\<lambda>_. flt (2 / 10))))) c;
          c = enabled trials ''WebRTC-Aec3EnforceConservativeHfSuppression''
            (cfg_suppressor_update (conservative_hf_suppression_update (\<lambda>_. True))) c;
          c = enabled trials ''WebRTC-Aec3EnforceStationarityProperties''
            (cfg_echo_audibility_update (use_stationarity_properties_update (\<lambda>_. True))) c;
          c = enabled trials ''WebRTC-Aec3EnforceStationarityPropertiesAtInit''
            (cfg_echo_audibility_update (use_stationarity_properties_at_init_update (\<lambda>_. True))) c;
          c = first_enabled trials
            [(''WebRTC-Aec3EnforceLowActiveRenderLimit'', flt 50), (''WebRTC-Aec3EnforceVeryLowActiveRenderLimit'', flt 30)]
            (\<lambda>v. cfg_render_levels_update (active_render_limit_update (\<lambda>_. v))) c
      in enabled trials ''WebRTC-Aec3NonlinearModeReverbKillSwitch''
            (cfg_echo_model_update (model_reverb_in_nonlinear_mode_update (\<lambda>_. False))) c)"

section \<open>Values\<close>

text \<open>One trial that gives all values of the tuning; they are not checked.\<close>

definition tuning_fields :: "string \<Rightarrow> tuning \<Rightarrow> field_parameter list" where
  "tuning_fields label t =
     [double_field (label @ ''_mask_lf_enr_transparent'') (enr_transparent (mask_lf t)),
      double_field (label @ ''_mask_lf_enr_suppress'') (enr_suppress (mask_lf t)),
      double_field (label @ ''_mask_hf_enr_transparent'') (enr_transparent (mask_hf t)),
      double_field (label @ ''_mask_hf_enr_suppress'') (enr_suppress (mask_hf t)),
      double_field (label @ ''_max_inc_factor'') (max_inc_factor t),
      double_field (label @ ''_max_dec_factor_lf'') (max_dec_factor_lf t)]"

definition set_tuning :: "(nat \<Rightarrow> cfloat) \<Rightarrow> tuning \<Rightarrow> tuning" where
  "set_tuning value t = t\<lparr>mask_lf := (mask_lf t)\<lparr>enr_transparent := value 0, enr_suppress := value 1\<rparr>,
     mask_hf := (mask_hf t)\<lparr>enr_transparent := value 2, enr_suppress := value 3\<rparr>,
     max_inc_factor := value 4, max_dec_factor_lf := value 5\<rparr>"

definition nearend_fields :: "dominant_nearend_cfg \<Rightarrow> field_parameter list" where
  "nearend_fields d =
     [double_field ''dominant_nearend_detection_enr_threshold'' (dn_enr_threshold d),
      double_field ''dominant_nearend_detection_enr_exit_threshold'' (enr_exit_threshold d),
      double_field ''dominant_nearend_detection_snr_threshold'' (dn_snr_threshold d),
      int_field ''dominant_nearend_detection_hold_duration'' (hold_duration d),
      int_field ''dominant_nearend_detection_trigger_threshold'' (trigger_threshold d)]"

definition adjust_override :: "field_trials \<Rightarrow> aec3_config \<Rightarrow> aec3_config" where
  "adjust_override trials c =
     (let s = cfg_suppressor c;
          params = ParseFieldTrial (tuning_fields ''nearend_tuning'' (nearend_tuning s) @ tuning_fields ''normal_tuning'' (normal_tuning s) @
              nearend_fields (dominant_nearend_detection s)) (trials ''WebRTC-Aec3SuppressorTuningOverride'');
          value = (\<lambda>i. to_float (Get_double (params ! i)))
      in c\<lparr>cfg_suppressor := s\<lparr>nearend_tuning := set_tuning value (nearend_tuning s),
           normal_tuning := set_tuning (\<lambda>i. value (6 + i)) (normal_tuning s),
           dominant_nearend_detection := (dominant_nearend_detection s)\<lparr>dn_enr_threshold := value 12, enr_exit_threshold := value 13,
             dn_snr_threshold := value 14, hold_duration := Get_int (params ! 15), trigger_threshold := Get_int (params ! 16)\<rparr>\<rparr>\<rparr>)"

text \<open>Trials for one value each, with its limits.\<close>

definition adjust_tuning_values :: "field_trials \<Rightarrow> string \<Rightarrow> tuning \<Rightarrow> tuning" where
  "adjust_tuning_values trials name t =
     (let value = (\<lambda>what. RetrieveFieldTrialValue_float trials (''WebRTC-Aec3Suppressor'' @ name @ what @ ''Override'') 0 10);
          t = mask_lf_update (enr_transparent_update (value ''LfMaskTransparent'')) t;
          t = mask_lf_update (enr_suppress_update (value ''LfMaskSuppress'')) t;
          t = mask_hf_update (enr_transparent_update (value ''HfMaskTransparent'')) t;
          t = mask_hf_update (enr_suppress_update (value ''HfMaskSuppress'')) t;
          t = max_inc_factor_update (value ''MaxIncFactor'') t
      in max_dec_factor_lf_update (value ''MaxDecFactorLf'') t)"

definition adjust_nearend_values :: "field_trials \<Rightarrow> dominant_nearend_cfg \<Rightarrow> dominant_nearend_cfg" where
  "adjust_nearend_values trials d =
     (let d = dn_enr_threshold_update (RetrieveFieldTrialValue_float trials ''WebRTC-Aec3SuppressorDominantNearendEnrThresholdOverride'' 0 100) d;
          d = enr_exit_threshold_update (RetrieveFieldTrialValue_float trials ''WebRTC-Aec3SuppressorDominantNearendEnrExitThresholdOverride'' 0 100) d;
          d = dn_snr_threshold_update (RetrieveFieldTrialValue_float trials ''WebRTC-Aec3SuppressorDominantNearendSnrThresholdOverride'' 0 100) d;
          d = hold_duration_update (RetrieveFieldTrialValue_int trials ''WebRTC-Aec3SuppressorDominantNearendHoldDurationOverride'' 0 1000) d
      in trigger_threshold_update (RetrieveFieldTrialValue_int trials ''WebRTC-Aec3SuppressorDominantNearendTriggerThresholdOverride'' 0 1000) d)"

definition adjust_suppressor_values :: "field_trials \<Rightarrow> suppressor_cfg \<Rightarrow> suppressor_cfg" where
  "adjust_suppressor_values trials s =
     (let s = nearend_tuning_update (adjust_tuning_values trials ''Nearend'') s;
          s = normal_tuning_update (adjust_tuning_values trials ''Normal'') s;
          s = dominant_nearend_detection_update (adjust_nearend_values trials) s
      in high_bands_suppression_update (anti_howling_gain_update
           (RetrieveFieldTrialValue_float trials ''WebRTC-Aec3SuppressorAntiHowlingGainOverride'' 0 10)) s)"

text \<open>The conversions between \<^verbatim>\<open>size_t\<close> and \<^verbatim>\<open>int\<close>.\<close>

definition size_to_int :: "nat \<Rightarrow> int" where
  "size_to_int n = (int n + 2 ^ 31) mod 2 ^ 32 - 2 ^ 31"

definition int_to_size :: "int \<Rightarrow> nat" where
  "int_to_size i = nat (i mod 2 ^ 64)"

definition adjust_delay_values :: "field_trials \<Rightarrow> aec3_config \<Rightarrow> aec3_config" where
  "adjust_delay_values trials c =
     (let c = cfg_delay_update (delay_estimate_smoothing_update
            (RetrieveFieldTrialValue_float trials ''WebRTC-Aec3DelayEstimateSmoothingOverride'' 0 1)) c;
          c = cfg_delay_update (delay_estimate_smoothing_delay_found_update
            (RetrieveFieldTrialValue_float trials ''WebRTC-Aec3DelayEstimateSmoothingDelayFoundOverride'' 0 1)) c
      in cfg_buffering_update (max_allowed_excess_render_blocks_update (\<lambda>n. int_to_size
            (RetrieveFieldTrialValue_int trials ''WebRTC-Aec3BufferingMaxAllowedExcessRenderBlocksOverride'' 0 20 (size_to_int n)))) c)"

definition AdjustConfig :: "field_trials \<Rightarrow> aec3_config \<Rightarrow> aec3_config" where
  "AdjustConfig trials config =
     (let c = adjust_start trials config; c = adjust_reverb trials c; c = adjust_switches trials c; c = adjust_tunings trials c;
          c = adjust_override trials c; c = cfg_suppressor_update (adjust_suppressor_values trials) c
      in adjust_delay_values trials c)"

text \<open>The constructor of the echo canceller as it is called.\<close>

definition EchoCanceller3_create ::
    "('m, 'f, 's, 'k, 'r) parts \<Rightarrow> 'h high_pass_class \<Rightarrow> field_trials \<Rightarrow> aec3_config \<Rightarrow> aec3_config option \<Rightarrow> nat \<Rightarrow> nat \<Rightarrow> nat \<Rightarrow>
     ('m, 'f, 's, 'k, 'r, 'h) echo_canceller option" where
  "EchoCanceller3_create parts hp trials config multichannel_config sample_rate_hz num_render_channels num_capture_channels =
     new_echo_canceller parts hp (AdjustConfig trials config) multichannel_config sample_rate_hz num_render_channels num_capture_channels"

section \<open>What the trials keep\<close>

lemma find_SomeD: "find P xs = Some x \<Longrightarrow> x \<in> set xs \<and> P x"
  by (induction xs) (auto split: if_splits)

lemma Retrieve_float_cases:
  "RetrieveFieldTrialValue_float trials name lo hi v = v \<or> in_range lo hi (RetrieveFieldTrialValue_float trials name lo hi v)"
  by (simp add: RetrieveFieldTrialValue_float_def Let_def)

lemma Retrieve_float_in_range:
  "in_range a b v \<Longrightarrow> a \<le> lo \<Longrightarrow> hi \<le> b \<Longrightarrow> in_range a b (RetrieveFieldTrialValue_float trials name lo hi v)"
  using Retrieve_float_cases[of trials name lo hi v] by (auto simp: in_range_def split: cfloat.splits)

lemma Retrieve_int_in_range:
  "between a b v \<Longrightarrow> a \<le> lo \<Longrightarrow> hi \<le> b \<Longrightarrow> between a b (RetrieveFieldTrialValue_int trials name lo hi v)"
proof -
  assume r: "between a b v" "a \<le> lo" "hi \<le> b"
  have "lo \<le> trunc x \<and> trunc x \<le> hi" if "of_int lo \<le> x" "x \<le> of_int hi" for x :: rat
    using that by (auto simp: trunc_def le_floor_iff floor_le_iff) linarith+
  then show ?thesis using r by (fastforce simp: RetrieveFieldTrialValue_int_def Let_def between_def)
qed

text \<open>What the render side and the stereo detector depend on; the trials do not touch it.\<close>

definition layout :: "aec3_config \<Rightarrow> (nat \<times> nat \<times> nat \<times> nat \<times> nat \<times> nat) \<times> cfloat \<times> delay_selection_thresholds_cfg \<times> bool \<times> cfloat" where
  "layout c = (let d = cfg_delay c in
     ((default_delay d, down_sampling_factor d, num_filters d, hysteresis_limit_blocks d, fixed_capture_delay_samples d,
       r_length_blocks (refined (cfg_filter c))),
      delay_candidate_detection_threshold d, delay_selection_thresholds d, use_external_delay_estimator d,
      stereo_detection_hysteresis_seconds (cfg_multi_channel c)))"

lemma enabled_same: "(\<And>c. p (f c) = p c) \<Longrightarrow> p c = l \<Longrightarrow> p (enabled trials name f c) = l"
  by (simp add: enabled_def)

lemma first_enabled_same: "(\<And>v c. p (f v c) = p c) \<Longrightarrow> p c = l \<Longrightarrow> p (first_enabled trials names f c) = l"
  by (simp add: first_enabled_def split: option.split)

lemma if_same:
  "(\<And>c. p (cfg_ep_strength_update g c) = p c) \<Longrightarrow> p c = l \<Longrightarrow> p (if b then cfg_ep_strength_update g c else c) = l"
  by simp

lemmas layout_intros = enabled_same[of layout] first_enabled_same[of layout] if_same[of layout]

lemma adjust_start_layout: "layout (adjust_start trials c) = layout c"
  unfolding adjust_start_def Let_def
  by (intro layout_intros; simp add: layout_def Let_def)

lemma adjust_reverb_layout: "layout (adjust_reverb trials c) = layout c"
  by (simp add: adjust_reverb_def layout_def Let_def)

lemma adjust_switches_layout: "layout (adjust_switches trials c) = layout c"
  unfolding adjust_switches_def Let_def
  by (intro layout_intros; simp add: layout_def Let_def)

lemma adjust_tunings_layout: "layout (adjust_tunings trials c) = layout c"
  unfolding adjust_tunings_def Let_def
  by (intro layout_intros; simp add: layout_def Let_def)

lemma adjust_override_layout: "layout (adjust_override trials c) = layout c"
  by (simp add: adjust_override_def layout_def Let_def)

lemma adjust_delay_values_layout: "layout (adjust_delay_values trials c) = layout c"
  by (simp add: adjust_delay_values_def layout_def Let_def)

lemma AdjustConfig_layout: "layout (AdjustConfig trials c) = layout c"
proof -
  have "layout (cfg_suppressor_update f c) = layout c" for f c by (simp add: layout_def Let_def)
  then show ?thesis
    by (simp add: AdjustConfig_def Let_def adjust_delay_values_layout adjust_override_layout adjust_tunings_layout adjust_switches_layout
      adjust_reverb_layout adjust_start_layout)
qed


text \<open>A change of one structure keeps the configuration valid when it keeps the structure valid.\<close>

definition keeps :: "('a \<Rightarrow> bool) \<Rightarrow> ('a \<Rightarrow> 'a) \<Rightarrow> bool" where
  "keeps P f \<longleftrightarrow> (\<forall>x. P x \<longrightarrow> P (f x))"

lemma keeps_enabled: "keeps P f \<Longrightarrow> P c \<Longrightarrow> P (enabled trials name f c)"
  by (simp add: keeps_def enabled_def)

lemma keeps_first_enabled: "list_all (\<lambda>(name, v). keeps P (f v)) names \<Longrightarrow> P c \<Longrightarrow> P (first_enabled trials names f c)"
  by (auto simp: keeps_def first_enabled_def list_all_iff dest!: find_SomeD split: option.split)

lemma keeps_if: "keeps P f \<Longrightarrow> P c \<Longrightarrow> P (if b then f c else c)"
  by (simp add: keeps_def)

lemma keeps_valid:
  "keeps valid_delay g1 \<Longrightarrow> keeps valid_config (cfg_delay_update g1)"
  "keeps valid_filter g2 \<Longrightarrow> (\<And>x. refined (g2 x) = refined x) \<Longrightarrow> keeps valid_config (cfg_filter_update g2)"
  "(\<And>n. keeps (valid_erle n) g3) \<Longrightarrow> keeps valid_config (cfg_erle_update g3)"
  "keeps valid_ep_strength g4 \<Longrightarrow> keeps valid_config (cfg_ep_strength_update g4)"
  "keeps valid_echo_audibility g5 \<Longrightarrow> keeps valid_config (cfg_echo_audibility_update g5)"
  "keeps valid_render_levels g6 \<Longrightarrow> keeps valid_config (cfg_render_levels_update g6)"
  "keeps valid_echo_model g7 \<Longrightarrow> keeps valid_config (cfg_echo_model_update g7)"
  "keeps valid_suppressor g8 \<Longrightarrow> keeps valid_config (cfg_suppressor_update g8)"
  "keeps valid_config (cfg_multi_channel_update g9)" "keeps valid_config (cfg_buffering_update g10)"
  by (simp_all add: keeps_def valid_config_def)

lemma keeps_suppressor:
  "keeps valid_tuning h1 \<Longrightarrow> keeps valid_suppressor (normal_tuning_update h1)"
  "keeps valid_tuning h2 \<Longrightarrow> keeps valid_suppressor (nearend_tuning_update h2)"
  "keeps valid_dominant_nearend h3 \<Longrightarrow> keeps valid_suppressor (dominant_nearend_detection_update h3)"
  "keeps valid_high_bands h4 \<Longrightarrow> keeps valid_suppressor (high_bands_suppression_update h4)"
  "keeps valid_suppressor (conservative_hf_suppression_update h5)"
  by (simp_all add: keeps_def valid_suppressor_def)

lemma keeps_tuning:
  "keeps valid_masking m1 \<Longrightarrow> keeps valid_tuning (mask_lf_update m1)"
  "keeps valid_masking m2 \<Longrightarrow> keeps valid_tuning (mask_hf_update m2)"
  "keeps (in_range 0 100) m3 \<Longrightarrow> keeps valid_tuning (max_inc_factor_update m3)"
  "keeps (in_range 0 100) m4 \<Longrightarrow> keeps valid_tuning (max_dec_factor_lf_update m4)"
  "keeps (in_range 0 100) m5 \<Longrightarrow> keeps valid_masking (enr_transparent_update m5)"
  "keeps (in_range 0 100) m6 \<Longrightarrow> keeps valid_masking (enr_suppress_update m6)"
  by (simp_all add: keeps_def valid_tuning_def valid_masking_def)

lemma keeps_const: "P v \<Longrightarrow> keeps P (\<lambda>_. v)"
  by (simp add: keeps_def)

text \<open>The constants of the function.\<close>

lemma constants_in_range:
  "in_range 0 100 (Finite 0)" "in_range 0 100 (flt (1 / 10))" "in_range 0 100 (flt (2 / 10))" "in_range 0 100 (flt (3 / 10))"
  "in_range 0 100 (flt (6 / 10))" "in_range 0 100 (flt (9 / 10))" "in_range 0 100 (flt (12 / 10))" "in_range 0 100 (flt (16 / 10))" 
  "in_range 0 100 (flt 2)" "in_range 0 (32768 * 32768) (flt 25)" "in_range 0 1 (flt (1 / 100))" "in_range 0 1 (flt 1)"
  "in_range 0 1000000 (flt (5 / 10))" "in_range 0 1000000 (flt (75 / 100))"
  "in_range 0 100 (flt (4 / 10))" "in_range 0 100 (flt (5 / 10))" "in_range 0 100 (flt (129 / 100))" "in_range 0 100 (flt (13 / 10))"
  "in_range 0 100 (flt (109 / 100))" "in_range 0 100 (flt (11 / 10))" "in_range 0 100 (flt (25 / 10))"
  "in_range 0 (32768 * 32768) (flt 50)" "in_range 0 (32768 * 32768) (flt 30)"
  by (simp_all add: flt_1_in_range flt_in_range flt_numeral_in_range) (simp add: in_range_def)

lemma valid_if:
  "keeps valid_config (cfg_ep_strength_update g) \<Longrightarrow> valid_config c \<Longrightarrow> valid_config (if b then cfg_ep_strength_update g c else c)"
  by (simp add: keeps_def)

lemmas valid_intros = keeps_enabled[of valid_config] keeps_first_enabled[of valid_config] valid_if

lemmas keeps_rules = keeps_valid keeps_suppressor keeps_tuning keeps_const

lemma keeps_fields:
  "keeps valid_filter (config_change_duration_blocks_update (\<lambda>_. 10))"
  "in_range 0 100 v \<Longrightarrow> keeps valid_filter (initial_state_seconds_update (\<lambda>_. v))"
  "keeps valid_filter (high_pass_filter_echo_reference_update b)"
  "keeps valid_ep_strength (echo_can_saturate_update b)" "keeps valid_ep_strength (use_conservative_tail_frequency_response_update b)"
  "keeps valid_high_bands (\<lambda>h. h\<lparr>anti_howling_activation_threshold := flt 25, anti_howling_gain := flt (1 / 100)\<rparr>)"
  "keeps valid_delay (delay_headroom_samples_update (\<lambda>_. kBlockSize * 2))"
  "keeps valid_delay (render_alignment_mixing_update m)" "keeps valid_delay (capture_alignment_mixing_update m)"
  "keeps (valid_erle n) (clamp_quality_estimate_to_zero_update b)" "keeps (valid_erle n) (clamp_quality_estimate_to_one_update b)"
  "keeps (valid_erle n) (onset_detection_update b)"
  "in_range 0 1000000 v \<Longrightarrow> keeps valid_dominant_nearend (dn_enr_threshold_update (\<lambda>_. v))"
  "in_range 0 1 v \<Longrightarrow> keeps valid_high_bands (anti_howling_gain_update (\<lambda>_. v))"
  "in_range 0 100 (flt a) \<Longrightarrow> in_range 0 100 (flt e) \<Longrightarrow> keeps valid_masking (mask_values a e)"
  "keeps valid_echo_audibility (use_stationarity_properties_update b)" "keeps valid_echo_audibility (use_stationarity_properties_at_init_update b)"
  "in_range 0 (32768 * 32768) v \<Longrightarrow> keeps valid_render_levels (active_render_limit_update (\<lambda>_. v))"
  "keeps valid_echo_model (model_reverb_in_nonlinear_mode_update b)"
  by (simp_all add: keeps_def valid_filter_def valid_ep_strength_def valid_high_bands_def valid_delay_def valid_erle_def
    valid_dominant_nearend_def valid_masking_def valid_echo_audibility_def valid_render_levels_def valid_echo_model_def mask_values_def
    between_def kBlockSize_def constants_in_range constants_in_range(10)[simplified])

lemma keeps_filter:
  "keeps valid_config (cfg_filter_update (config_change_duration_blocks_update (\<lambda>_. 10)))"
  "in_range 0 100 v \<Longrightarrow> keeps valid_config (cfg_filter_update (initial_state_seconds_update (\<lambda>_. v)))"
  "keeps valid_config (cfg_filter_update (high_pass_filter_echo_reference_update b))"
  by (simp_all add: keeps_rules keeps_fields)

lemma adjust_start_valid: "valid_config c \<Longrightarrow> valid_config (adjust_start trials c)"
  unfolding adjust_start_def Let_def
  by (intro valid_intros) (simp_all only: keeps_filter keeps_rules keeps_fields constants_in_range list.pred_inject prod.case simp_thms)

lemma adjust_switches_valid: "valid_config c \<Longrightarrow> valid_config (adjust_switches trials c)"
  unfolding adjust_switches_def Let_def
  by (intro valid_intros) (simp_all only: keeps_filter keeps_rules keeps_fields constants_in_range list.pred_inject prod.case simp_thms)

lemma adjust_tunings_valid: "valid_config c \<Longrightarrow> valid_config (adjust_tunings trials c)"
  unfolding adjust_tunings_def Let_def
  by (intro valid_intros) (simp_all only: keeps_filter keeps_rules keeps_fields constants_in_range list.pred_inject prod.case simp_thms)

lemma adjust_reverb_valid: "valid_config c \<Longrightarrow> valid_config (adjust_reverb trials c)"
proof -
  have "in_range (-1) 1 v" if "cf_less (Finite (-1)) v" "cf_less v (Finite 1)" for v
    using that by (cases v) (simp_all add: in_range_def)
  then show "valid_config c \<Longrightarrow> valid_config (adjust_reverb trials c)"
    by (simp add: adjust_reverb_def valid_config_def valid_ep_strength_def Let_def)
qed

section \<open>Values of type \<^verbatim>\<open>float\<close>\<close>

definition is_float :: "cfloat \<Rightarrow> bool" where
  "is_float v \<longleftrightarrow> to_float v = v"

lemma is_float_flt: "\<bar>x\<bar> \<le> 2 ^ 100 \<Longrightarrow> is_float (flt x)"
proof -
  assume x: "\<bar>x\<bar> \<le> 2 ^ 100"
  have "\<bar>f32 x\<bar> \<le> \<bar>x\<bar> + (\<bar>x\<bar> / 2 ^ 24 + 1 / 2 ^ 150)" using f32_error[of x] by linarith
  also have "\<dots> < 2 ^ 128" using x by (simp add: field_simps)
  finally show ?thesis by (auto simp: is_float_def to_float_def Let_def abs_less_iff f32_f32)
qed

definition float_tuning :: "tuning \<Rightarrow> bool" where
  "float_tuning t \<longleftrightarrow> is_float (enr_transparent (mask_lf t)) \<and> is_float (enr_suppress (mask_lf t)) \<and>
     is_float (enr_transparent (mask_hf t)) \<and> is_float (enr_suppress (mask_hf t)) \<and> is_float (max_inc_factor t) \<and> is_float (max_dec_factor_lf t)"

definition float_suppressor :: "aec3_config \<Rightarrow> bool" where
  "float_suppressor c \<longleftrightarrow> (let s = cfg_suppressor c; d = dominant_nearend_detection s in
     float_tuning (normal_tuning s) \<and> float_tuning (nearend_tuning s) \<and> is_float (dn_enr_threshold d) \<and>
     is_float (enr_exit_threshold d) \<and> is_float (dn_snr_threshold d) \<and> is_float (anti_howling_gain (high_bands_suppression s)))"

lemma keeps_float:
  "keeps float_tuning h1 \<Longrightarrow> keeps float_suppressor (cfg_suppressor_update (normal_tuning_update h1))"
  "keeps float_tuning h2 \<Longrightarrow> keeps float_suppressor (cfg_suppressor_update (nearend_tuning_update h2))"
  "is_float (flt v) \<Longrightarrow> keeps float_suppressor (cfg_suppressor_update (dominant_nearend_detection_update (dn_enr_threshold_update (\<lambda>_. flt v))))"
  "is_float (flt w) \<Longrightarrow> keeps float_suppressor (cfg_suppressor_update (high_bands_suppression_update (anti_howling_gain_update (\<lambda>_. flt w))))"
  "keeps float_suppressor (cfg_suppressor_update (high_bands_suppression_update
     (\<lambda>h. h\<lparr>anti_howling_activation_threshold := flt 25, anti_howling_gain := flt (1 / 100)\<rparr>)))"
  "keeps float_suppressor (cfg_suppressor_update (conservative_hf_suppression_update h5))"
  "keeps float_suppressor (cfg_delay_update g1)" "keeps float_suppressor (cfg_filter_update g2)" "keeps float_suppressor (cfg_erle_update g3)"
  "keeps float_suppressor (cfg_ep_strength_update g4)" "keeps float_suppressor (cfg_echo_audibility_update g5)"
  "keeps float_suppressor (cfg_render_levels_update g6)" "keeps float_suppressor (cfg_echo_model_update g7)"
  "keeps float_suppressor (cfg_multi_channel_update g8)"
  by (simp_all add: keeps_def float_suppressor_def Let_def is_float_flt)

lemma keeps_float_tuning:
  "is_float (flt a) \<Longrightarrow> is_float (flt b) \<Longrightarrow> keeps float_tuning (mask_lf_update (mask_values a b))"
  "is_float (flt a) \<Longrightarrow> is_float (flt b) \<Longrightarrow> keeps float_tuning (mask_hf_update (mask_values a b))"
  "is_float (flt a) \<Longrightarrow> keeps float_tuning (max_inc_factor_update (\<lambda>_. flt a))"
  "is_float (flt a) \<Longrightarrow> keeps float_tuning (max_dec_factor_lf_update (\<lambda>_. flt a))"
  by (simp_all add: keeps_def float_tuning_def mask_values_def)

lemma constants_float:
  "is_float (flt (5 / 10))" "is_float (flt (75 / 100))" "is_float (flt (4 / 10))" "is_float (flt (3 / 10))"
  "is_float (flt (129 / 100))" "is_float (flt (13 / 10))" "is_float (flt (109 / 100))" "is_float (flt (11 / 10))"
  "is_float (flt (25 / 10))" "is_float (flt (2 / 10))" "is_float (flt 1)"
  by (simp_all add: is_float_flt)

lemma float_if: "float_suppressor c \<Longrightarrow> float_suppressor (if b then cfg_ep_strength_update g c else c)"
  by (simp add: float_suppressor_def)

lemmas float_intros = keeps_enabled[of float_suppressor] keeps_first_enabled[of float_suppressor] float_if

lemma adjust_start_float: "float_suppressor c \<Longrightarrow> float_suppressor (adjust_start trials c)"
  unfolding adjust_start_def Let_def
  by (intro float_intros) (simp_all only: keeps_float list.pred_inject prod.case simp_thms)

lemma adjust_switches_float: "float_suppressor c \<Longrightarrow> float_suppressor (adjust_switches trials c)"
  unfolding adjust_switches_def Let_def
  by (intro float_intros) (simp_all only: keeps_float constants_float list.pred_inject prod.case simp_thms)

lemma adjust_tunings_float: "float_suppressor c \<Longrightarrow> float_suppressor (adjust_tunings trials c)"
  unfolding adjust_tunings_def Let_def
  by (intro float_intros) (simp_all only: keeps_float keeps_float_tuning constants_float list.pred_inject prod.case simp_thms)

lemma adjust_reverb_float: "float_suppressor c \<Longrightarrow> float_suppressor (adjust_reverb trials c)"
  by (simp add: adjust_reverb_def float_suppressor_def Let_def)

text \<open>A trial string without a colon changes no value.\<close>

lemma set_tuning_same: "(\<And>i. i < 6 \<Longrightarrow> value i = to_float (Get_double (tuning_fields label t ! i))) \<Longrightarrow> float_tuning t \<Longrightarrow> set_tuning value t = t"
  by (cases t, cases "mask_lf t", cases "mask_hf t")
    (auto simp: set_tuning_def tuning_fields_def double_field_def Get_double_def float_tuning_def is_float_def)

lemma adjust_override_same:
  assumes "CHR '':'' \<notin> set (trials ''WebRTC-Aec3SuppressorTuningOverride'')" "float_suppressor c"
  shows "adjust_override trials c = c"
proof -
  define s d where "s = cfg_suppressor c" and "d = dominant_nearend_detection s"
  have f: "float_tuning (normal_tuning s)" "float_tuning (nearend_tuning s)"
    "to_float (dn_enr_threshold d) = dn_enr_threshold d" "to_float (enr_exit_threshold d) = enr_exit_threshold d"
    "to_float (dn_snr_threshold d) = dn_snr_threshold d"
    using assms(2) by (simp_all add: float_suppressor_def s_def d_def Let_def is_float_def)
  define params where "params = tuning_fields ''nearend_tuning'' (nearend_tuning s) @ tuning_fields ''normal_tuning'' (normal_tuning s) @ nearend_fields d"
  have l: "length (tuning_fields n t) = 6" for n t by (simp add: tuning_fields_def)
  have "set_tuning (\<lambda>i. to_float (Get_double (params ! i))) (nearend_tuning s) = nearend_tuning s"
    by (rule set_tuning_same[of _ "''nearend_tuning''"]) (simp_all add: params_def nth_append l f)
  moreover have "set_tuning (\<lambda>i. to_float (Get_double (params ! (6 + i)))) (normal_tuning s) = normal_tuning s"
    by (rule set_tuning_same[of _ "''normal_tuning''"]) (simp_all add: params_def nth_append l f)
  moreover have "d\<lparr>dn_enr_threshold := to_float (Get_double (params ! 12)), enr_exit_threshold := to_float (Get_double (params ! 13)),
      dn_snr_threshold := to_float (Get_double (params ! 14)), hold_duration := Get_int (params ! 15), trigger_threshold := Get_int (params ! 16)\<rparr> = d"
    using f(3-5) by (cases d) (simp add: params_def nth_append l nearend_fields_def double_field_def int_field_def Get_double_def Get_int_def)
  moreover have "c\<lparr>cfg_suppressor := s\<lparr>nearend_tuning := nearend_tuning s, normal_tuning := normal_tuning s, dominant_nearend_detection := d\<rparr>\<rparr> = c"
    by (simp add: s_def d_def)
  ultimately show ?thesis
    by (simp only: adjust_override_def Let_def no_colon[OF assms(1)] s_def[symmetric] d_def[symmetric] params_def[symmetric])
qed

lemma Retrieve_float_same: "CHR '':'' \<notin> set (trials name) \<Longrightarrow> is_float v \<Longrightarrow> RetrieveFieldTrialValue_float trials name lo hi v = v"
  by (simp add: RetrieveFieldTrialValue_float_def no_colon double_field_def Get_double_def is_float_def)

lemma Retrieve_int_same: "CHR '':'' \<notin> set (trials name) \<Longrightarrow> RetrieveFieldTrialValue_int trials name lo hi v = v"
  by (simp add: RetrieveFieldTrialValue_int_def no_colon int_field_def Get_int_def)

section \<open>Validity\<close>

lemma Retrieve_float_keeps: "a \<le> lo \<Longrightarrow> hi \<le> b \<Longrightarrow> keeps (in_range a b) (RetrieveFieldTrialValue_float trials name lo hi)"
  by (simp add: keeps_def Retrieve_float_in_range)

lemma Retrieve_int_keeps: "a \<le> lo \<Longrightarrow> hi \<le> b \<Longrightarrow> keeps (between a b) (RetrieveFieldTrialValue_int trials name lo hi)"
  by (simp add: keeps_def Retrieve_int_in_range)

lemma keeps_D: "keeps P f \<Longrightarrow> P x \<Longrightarrow> P (f x)"
  by (simp add: keeps_def)

lemma adjust_tuning_values_valid: "keeps valid_tuning (adjust_tuning_values trials name)"
proof -
  have r: "keeps (in_range 0 100) (RetrieveFieldTrialValue_float trials n 0 10)" for n by (rule Retrieve_float_keeps) simp_all
  have "keeps valid_tuning (mask_lf_update (enr_transparent_update (RetrieveFieldTrialValue_float trials n 0 10)))"
    "keeps valid_tuning (mask_lf_update (enr_suppress_update (RetrieveFieldTrialValue_float trials n 0 10)))"
    "keeps valid_tuning (mask_hf_update (enr_transparent_update (RetrieveFieldTrialValue_float trials n 0 10)))"
    "keeps valid_tuning (mask_hf_update (enr_suppress_update (RetrieveFieldTrialValue_float trials n 0 10)))"
    "keeps valid_tuning (max_inc_factor_update (RetrieveFieldTrialValue_float trials n 0 10))"
    "keeps valid_tuning (max_dec_factor_lf_update (RetrieveFieldTrialValue_float trials n 0 10))" for n
    by (intro keeps_tuning r)+
  note k = this[THEN keeps_D]
  show ?thesis unfolding keeps_def adjust_tuning_values_def Let_def by (intro allI impI k)
qed

lemma adjust_nearend_values_valid: "keeps valid_dominant_nearend (adjust_nearend_values trials)"
  by (simp add: keeps_def adjust_nearend_values_def Let_def valid_dominant_nearend_def Retrieve_float_in_range Retrieve_int_in_range)

lemma adjust_suppressor_values_valid:
  assumes "in_range 0 1 (RetrieveFieldTrialValue_float trials ''WebRTC-Aec3SuppressorAntiHowlingGainOverride'' 0 10
      (anti_howling_gain (high_bands_suppression s)))" "valid_suppressor s"
  shows "valid_suppressor (adjust_suppressor_values trials s)"
  using assms by (simp add: adjust_suppressor_values_def Let_def valid_suppressor_def valid_high_bands_def
    keeps_D[OF adjust_tuning_values_valid] keeps_D[OF adjust_nearend_values_valid])

lemma adjust_delay_values_valid: "valid_config c \<Longrightarrow> valid_config (adjust_delay_values trials c)"
  by (simp add: adjust_delay_values_def Let_def valid_config_def valid_delay_def Retrieve_float_in_range)

definition before_override :: "field_trials \<Rightarrow> aec3_config \<Rightarrow> aec3_config" where
  "before_override trials c = adjust_tunings trials (adjust_switches trials (adjust_reverb trials (adjust_start trials c)))"

lemma before_override_valid: "valid_config c \<Longrightarrow> valid_config (before_override trials c)"
  by (simp add: before_override_def adjust_tunings_valid adjust_switches_valid adjust_reverb_valid adjust_start_valid)

lemma before_override_float: "float_suppressor c \<Longrightarrow> float_suppressor (before_override trials c)"
  by (simp add: before_override_def adjust_tunings_float adjust_switches_float adjust_reverb_float adjust_start_float)

lemma AdjustConfig_split:
  "AdjustConfig trials c = adjust_delay_values trials (cfg_suppressor_update (adjust_suppressor_values trials) (adjust_override trials (before_override trials c)))"
  by (simp add: AdjustConfig_def before_override_def Let_def)

lemma default_float: "float_suppressor default_config"
proof -
  have "float_suppressor default_config = float_suppressor (default_config\<lparr>cfg_suppressor := default_suppressor_cfg\<rparr>)" by (simp add: default_config_def)
  also have \<dots>
    by (simp add: float_suppressor_def Let_def default_suppressor_cfg_def float_tuning_def is_float_flt)
  finally show ?thesis by simp
qed

lemma AdjustConfig_valid:
  assumes "valid_config c" "float_suppressor c" "CHR '':'' \<notin> set (trials ''WebRTC-Aec3SuppressorTuningOverride'')"
    "\<forall>g. in_range 0 1 g \<and> is_float g \<longrightarrow> in_range 0 1 (RetrieveFieldTrialValue_float trials ''WebRTC-Aec3SuppressorAntiHowlingGainOverride'' 0 10 g)"
  shows "valid_config (AdjustConfig trials c)"
proof -
  let ?c = "before_override trials c"
  have v: "valid_config ?c" by (rule before_override_valid[OF assms(1)])
  then have "valid_suppressor (cfg_suppressor ?c)" by (simp add: valid_config_def)
  moreover from this have "in_range 0 1 (anti_howling_gain (high_bands_suppression (cfg_suppressor ?c)))"
    by (simp add: valid_suppressor_def valid_high_bands_def)
  ultimately have "valid_suppressor (adjust_suppressor_values trials (cfg_suppressor ?c))"
    using assms(4) before_override_float[OF assms(2), of trials]
    by (intro adjust_suppressor_values_valid) (auto simp: float_suppressor_def Let_def)
  then have "valid_config (cfg_suppressor_update (adjust_suppressor_values trials) ?c)" using v by (simp add: valid_config_def)
  then show ?thesis
    using adjust_override_same[where trials = trials, OF assms(3) before_override_float[OF assms(2)]] by (simp add: AdjustConfig_split adjust_delay_values_valid)
qed

text \<open>
  C20: The adjusted configuration passes the check like the one it is made of, whatever the
  trials say, but for two: the override of the whole suppressor tuning, and the one of the anti
  howling gain when its value is above 1.
\<close>
theorem adjust_valid:
  assumes "valid_config c" "float_suppressor c" "CHR '':'' \<notin> set (trials ''WebRTC-Aec3SuppressorTuningOverride'')"
    "\<forall>g. in_range 0 1 g \<and> is_float g \<longrightarrow> in_range 0 1 (RetrieveFieldTrialValue_float trials ''WebRTC-Aec3SuppressorAntiHowlingGainOverride'' 0 10 g)"
  shows "Validate (AdjustConfig trials c) = (True, AdjustConfig trials c)"
  using AdjustConfig_valid[OF assms] Validate_limits[of "AdjustConfig trials c"] by (auto simp: limits_def prod_eq_iff)

definition smoothing_trial :: field_trials where
  "smoothing_trial name = (if name = ''WebRTC-Aec3DelayEstimateSmoothingOverride'' then '':0.5'' else '''')"

theorem adjust_valid_witness:
  "Validate (AdjustConfig smoothing_trial default_config) = (True, AdjustConfig smoothing_trial default_config)"
  by (rule adjust_valid[OF default_config_valid default_float]) (simp_all add: smoothing_trial_def Retrieve_float_same)

section \<open>Trials that change nothing\<close>

definition float_config :: "aec3_config \<Rightarrow> bool" where
  "float_config c \<longleftrightarrow> float_suppressor c \<and> is_float (default_len (cfg_ep_strength c)) \<and> is_float (nearend_len (cfg_ep_strength c)) \<and>
     is_float (delay_estimate_smoothing (cfg_delay c)) \<and> is_float (delay_estimate_smoothing_delay_found (cfg_delay c)) \<and>
     max_allowed_excess_render_blocks (cfg_buffering c) < 2 ^ 31"

definition no_switch :: "field_trials \<Rightarrow> bool" where
  "no_switch trials \<longleftrightarrow> (\<forall>name. \<not> IsEnabled trials name \<and> \<not> IsDisabled trials name)"

lemma no_switch_simps:
  assumes "no_switch trials"
  shows "enabled trials name f = (\<lambda>c. c)" "first_enabled trials names g = (\<lambda>c. c)" "\<not> IsDisabled trials name"
  using assms by (auto simp: no_switch_def enabled_def first_enabled_def fun_eq_iff find_None_iff split: option.split dest!: find_SomeD)

lemma no_switch_same:
  assumes "no_switch trials"
  shows "adjust_start trials c = c" "adjust_switches trials c = c" "adjust_tunings trials c = c"
  by (simp_all only: adjust_start_def adjust_switches_def adjust_tunings_def Let_def no_switch_simps[OF assms] if_False)

lemma adjust_reverb_same:
  assumes "CHR '':'' \<notin> set (trials ''WebRTC-Aec3UseNearendReverbLen'')" "float_config c"
  shows "adjust_reverb trials c = c"
  using assms(2) by (simp add: adjust_reverb_def Let_def no_colon[OF assms(1)] double_field_def Get_double_def float_config_def is_float_def)

lemma adjust_tuning_values_same: "\<forall>name. CHR '':'' \<notin> set (trials name) \<Longrightarrow> float_tuning t \<Longrightarrow> adjust_tuning_values trials name t = t"
  by (cases t, cases "mask_lf t", cases "mask_hf t") (simp add: adjust_tuning_values_def Let_def float_tuning_def Retrieve_float_same)

lemma size_int: "n < 2 ^ 31 \<Longrightarrow> int_to_size (size_to_int n) = n"
  by (simp add: size_to_int_def int_to_size_def)

lemma adjust_suppressor_values_same:
  assumes "\<forall>name. CHR '':'' \<notin> set (trials name)" "float_suppressor c"
  shows "cfg_suppressor_update (adjust_suppressor_values trials) c = c"
proof -
  define s where "s = cfg_suppressor c"
  have f: "float_tuning (normal_tuning s)" "float_tuning (nearend_tuning s)" "is_float (dn_enr_threshold (dominant_nearend_detection s))"
    "is_float (enr_exit_threshold (dominant_nearend_detection s))" "is_float (dn_snr_threshold (dominant_nearend_detection s))"
    "is_float (anti_howling_gain (high_bands_suppression s))"
    using assms(2) by (simp_all add: float_suppressor_def s_def Let_def)
  have "adjust_nearend_values trials (dominant_nearend_detection s) = dominant_nearend_detection s"
    using f assms(1) by (cases "dominant_nearend_detection s") (simp add: adjust_nearend_values_def Let_def Retrieve_float_same Retrieve_int_same)
  then have "adjust_suppressor_values trials s = s"
    using f assms(1) by (cases s, cases "high_bands_suppression s")
      (simp add: adjust_suppressor_values_def Let_def adjust_tuning_values_same Retrieve_float_same)
  then show ?thesis by (simp add: s_def)
qed

lemma adjust_delay_values_same:
  assumes "\<forall>name. CHR '':'' \<notin> set (trials name)" "float_config c"
  shows "adjust_delay_values trials c = c"
  using assms by (cases c, cases "cfg_delay c", cases "cfg_buffering c")
    (simp add: adjust_delay_values_def Let_def float_config_def Retrieve_float_same Retrieve_int_same size_int)

lemma default_float_config: "float_config default_config"
proof -
  have "is_float (delay_estimate_smoothing default_delay_cfg)" "is_float (delay_estimate_smoothing_delay_found default_delay_cfg)"
    by (simp_all add: default_delay_cfg_def is_float_flt)
  then show ?thesis using default_float by (simp add: float_config_def) (simp add: default_config_def is_float_flt)
qed

text \<open>
  Trials that are neither enabled nor disabled change nothing unless their string has a
  colon: the view of the library, which has no trial, leaves the configuration as it is, but so
  does a view with the value of an override as such, like 5.
\<close>
lemma plain_trials_ignored:
  assumes "\<forall>name. \<not> IsEnabled trials name \<and> \<not> IsDisabled trials name \<and> CHR '':'' \<notin> set (trials name)" "float_config c"
  shows "AdjustConfig trials c = c"
proof -
  have n: "no_switch trials" and p: "\<forall>name. CHR '':'' \<notin> set (trials name)" using assms(1) by (auto simp: no_switch_def)
  have f: "float_suppressor c" using assms(2) by (simp add: float_config_def)
  have "before_override trials c = c"
    using adjust_reverb_same[where trials = trials, OF p[rule_format] assms(2)] by (simp add: before_override_def no_switch_same[OF n])
  then show ?thesis
    by (simp add: AdjustConfig_split adjust_override_same[where trials = trials, OF p[rule_format] f] adjust_suppressor_values_same[OF p f]
      adjust_delay_values_same[OF p assms(2)])
qed

theorem plain_trials_ignored_witness:
  "AdjustConfig no_trials default_config = default_config \<and>
   AdjustConfig (\<lambda>name. if name = ''WebRTC-Aec3SuppressorNormalMaxIncFactorOverride'' then ''5'' else '''') default_config = default_config"
  using plain_trials_ignored[of no_trials, OF _ default_float_config]
    plain_trials_ignored[of "\<lambda>name. if name = ''WebRTC-Aec3SuppressorNormalMaxIncFactorOverride'' then ''5'' else ''''", OF _ default_float_config]
  by (simp add: no_trials_def IsEnabled_def IsDisabled_def StartsWith_def)

section \<open>The echo canceller with trials\<close>

lemma keeps_delay:
  "keeps valid_delay g1 \<Longrightarrow> keeps (\<lambda>c. valid_delay (cfg_delay c)) (cfg_delay_update g1)"
  "keeps (\<lambda>c. valid_delay (cfg_delay c)) (cfg_filter_update g2)" "keeps (\<lambda>c. valid_delay (cfg_delay c)) (cfg_erle_update g3)"
  "keeps (\<lambda>c. valid_delay (cfg_delay c)) (cfg_ep_strength_update g4)" "keeps (\<lambda>c. valid_delay (cfg_delay c)) (cfg_suppressor_update g5)"
  "keeps (\<lambda>c. valid_delay (cfg_delay c)) (cfg_multi_channel_update g6)"
  by (simp_all add: keeps_def)

text \<open>Of the delay, only the part with the switches and the last one change checked fields.\<close>

lemmas delay_intros = enabled_same[of cfg_delay] first_enabled_same[of cfg_delay]

lemma adjust_start_delay: "cfg_delay (adjust_start trials c) = cfg_delay c"
  unfolding adjust_start_def Let_def by (intro delay_intros; simp)

lemma adjust_tunings_delay: "cfg_delay (adjust_tunings trials c) = cfg_delay c"
  unfolding adjust_tunings_def Let_def by (intro delay_intros; simp)

lemma other_parts_delay:
  "cfg_delay (adjust_reverb trials c) = cfg_delay c" "cfg_delay (adjust_override trials c) = cfg_delay c"
  by (simp_all add: adjust_reverb_def adjust_override_def Let_def)

lemma adjust_switches_delay:
  assumes "valid_delay (cfg_delay c)"
  shows "valid_delay (cfg_delay (adjust_switches trials c))"
proof -
  define P where "P = (\<lambda>c :: aec3_config. valid_delay (cfg_delay c))"
  have "P (if b then cfg_ep_strength_update g c else c) \<longleftrightarrow> P c" for b g c by (simp add: P_def)
  note i = keeps_enabled[of P] keeps_first_enabled[of P] this[THEN iffD2]
  have "P c" using assms by (simp add: P_def)
  then have "P (adjust_switches trials c)"
    unfolding adjust_switches_def Let_def
    by (intro i) (simp_all only: P_def keeps_delay keeps_fields list.pred_inject prod.case simp_thms)
  then show ?thesis by (simp add: P_def)
qed

lemma AdjustConfig_delay: "valid_delay (cfg_delay c) \<Longrightarrow> valid_delay (cfg_delay (AdjustConfig trials c))"
proof -
  have "valid_delay (cfg_delay (adjust_delay_values trials c))" if "valid_delay (cfg_delay c)" for c
    using that by (simp add: adjust_delay_values_def Let_def valid_delay_def Retrieve_float_in_range)
  then show "valid_delay (cfg_delay c) \<Longrightarrow> valid_delay (cfg_delay (AdjustConfig trials c))"
    by (simp add: AdjustConfig_split before_override_def other_parts_delay adjust_start_delay adjust_tunings_delay adjust_switches_delay)
qed

lemma AdjustConfig_setup:
  assumes "processor_setup parts config rate n" "filter_ok parts (AdjustConfig trials config)"
  shows "processor_setup parts (AdjustConfig trials config) rate n"
proof -
  have l: "layout (AdjustConfig trials config) = layout config" by (rule AdjustConfig_layout)
  have v: "valid_delay (cfg_delay (AdjustConfig trials config))"
    using assms(1) by (simp add: AdjustConfig_delay processor_setup_def render_setup_def)
  show ?thesis using assms l v by (simp add: processor_setup_def render_setup_def rings_size_def layout_def Let_def)
qed

text \<open>The echo remover can be made for an adjusted configuration.\<close>

definition remover_made :: "('m, 'f, 's, 'k, 'r) parts \<Rightarrow> aec3_config \<Rightarrow> nat \<Rightarrow> nat \<Rightarrow> nat \<Rightarrow> bool" where
  "remover_made parts config rate ni nc \<longleftrightarrow> (\<forall>multi. p_new_remover parts config rate (mode_channels ni multi) nc \<noteq> None)"

lemma AdjustConfig_canceller_setup:
  assumes "canceller_setup parts hp config None rate ni nc" "filter_ok parts (AdjustConfig trials config)"
    "remover_made parts (AdjustConfig trials config) rate ni nc"
  shows "canceller_setup parts hp (AdjustConfig trials config) None rate ni nc"
  using assms AdjustConfig_setup[OF _ assms(2)] AdjustConfig_layout[of trials config]
  by (simp add: canceller_setup_def mode_config_def layout_def remover_made_def Let_def)

text \<open>
  C21: Field trials cannot spoil what the modelled part of an echo canceller with a single
  configuration needs: if the canceller could be made of the given configuration, and the two parts
  that are not modelled can be made of the adjusted one (the matched filter with its lags in range, and
  the echo remover, whose constructor fails a check of the suppression gain for some trials), then the
  canceller is created from the adjusted configuration and meets all that its calls need.
\<close>
theorem mono_canceller_created:
  assumes "canceller_setup parts hp config None rate ni nc" "filter_ok parts (AdjustConfig trials config)"
    "remover_made parts (AdjustConfig trials config) rate ni nc"
  shows "\<exists>ec. EchoCanceller3_create parts hp trials config None rate ni nc = Some ec \<and>
    canceller_run parts hp (AdjustConfig trials config) None rate ni nc [] ec \<and>
    canceller_setup parts hp (AdjustConfig trials config) None rate ni nc"
proof -
  note s = AdjustConfig_canceller_setup[OF assms]
  obtain ec where "new_echo_canceller parts hp (AdjustConfig trials config) None rate ni nc = Some ec"
    using new_echo_canceller_ok[OF s] by blast
  then show ?thesis using s ec_start unfolding EchoCanceller3_create_def by blast
qed

definition headroom_trial :: field_trials where
  "headroom_trial name = (if name = ''WebRTC-Aec3ShortHeadroomKillSwitch'' then ''Enabled'' else '''')"

theorem mono_canceller_created_witness:
  "\<exists>ec. EchoCanceller3_create demo_parts demo_high_pass headroom_trial default_config None 16000 2 1 = Some ec \<and>
    IsEnabled headroom_trial ''WebRTC-Aec3ShortHeadroomKillSwitch''"
  using mono_canceller_created[OF demo_canceller_setup, of headroom_trial]
  by (auto simp: filter_ok_def demo_parts_def remover_made_def headroom_trial_def IsEnabled_def StartsWith_def)

text \<open>After the first part the fields that two configurations share stay.\<close>

definition shared :: "aec3_config \<Rightarrow> multi_channel_cfg \<times> filter_cfg" where
  "shared c = (cfg_multi_channel c, cfg_filter c)"

lemmas shared_intros = enabled_same[of shared] first_enabled_same[of shared] if_same[of shared]

lemma adjust_switches_shared: "shared (adjust_switches trials c) = shared c"
  unfolding adjust_switches_def Let_def by (intro shared_intros; simp add: shared_def)

lemma adjust_tunings_shared: "shared (adjust_tunings trials c) = shared c"
  unfolding adjust_tunings_def Let_def by (intro shared_intros; simp add: shared_def)

lemma later_parts_shared:
  "shared (adjust_reverb trials c) = shared c" "shared (adjust_override trials c) = shared c"
  "shared (adjust_delay_values trials c) = shared c" "shared (cfg_suppressor_update f c) = shared c"
  by (simp_all add: shared_def adjust_reverb_def adjust_override_def adjust_delay_values_def Let_def)

lemma AdjustConfig_shared: "shared (AdjustConfig trials c) = shared (adjust_start trials c)"
  by (simp add: AdjustConfig_split before_override_def later_parts_shared adjust_switches_shared adjust_tunings_shared)

lemma adjust_start_stereo:
  "detect_stereo_content (cfg_multi_channel (adjust_start trials c)) =
     (detect_stereo_content (cfg_multi_channel c) \<and> \<not> IsEnabled trials ''WebRTC-Aec3StereoContentDetectionKillSwitch'')"
proof -
  note i = enabled_same[of cfg_multi_channel] first_enabled_same[of cfg_multi_channel]
  have "cfg_multi_channel (adjust_start trials c) = cfg_multi_channel (enabled trials ''WebRTC-Aec3StereoContentDetectionKillSwitch''
      (cfg_multi_channel_update (detect_stereo_content_update (\<lambda>_. False))) c)"
    unfolding adjust_start_def Let_def by ((rule i, (simp; fail))+, rule refl)
  then show ?thesis by (simp add: enabled_def)
qed

text \<open>
  The trials are applied to the configuration for one channel only: with a trial that
  switches the stereo detection off, no echo canceller with a second, compatible configuration
  that detects stereo content is created.
\<close>
lemma trial_breaks_multichannel:
  assumes "CompatibleConfigs config m" "detect_stereo_content (cfg_multi_channel m)"
    "IsEnabled trials ''WebRTC-Aec3StereoContentDetectionKillSwitch''"
  shows "EchoCanceller3_create parts hp trials config (Some m) rate ni nc = None"
proof -
  have "cfg_multi_channel (AdjustConfig trials config) = cfg_multi_channel (adjust_start trials config)"
    using AdjustConfig_shared[of trials config] by (simp add: shared_def)
  then have "\<not> CompatibleConfigs (AdjustConfig trials config) m"
    using assms by (simp add: CompatibleConfigs_def adjust_start_stereo)
  then show ?thesis by (simp add: EchoCanceller3_create_def new_echo_canceller_def new_config_selector_def Let_def)
qed

theorem trial_breaks_multichannel_witness:
  "EchoCanceller3_create demo_parts demo_high_pass (\<lambda>name. if name = ''WebRTC-Aec3StereoContentDetectionKillSwitch'' then ''Enabled'' else '''')
     default_config (Some CreateDefaultMultichannelConfig) 48000 2 1 = None"
proof (rule trial_breaks_multichannel)
  show "CompatibleConfigs default_config CreateDefaultMultichannelConfig"
    by (simp add: CompatibleConfigs_def CreateDefaultMultichannelConfig_def Let_def)
  show "detect_stereo_content (cfg_multi_channel CreateDefaultMultichannelConfig)"
    by (simp add: CreateDefaultMultichannelConfig_def Let_def) (simp add: default_config_def)
qed (simp add: IsEnabled_def StartsWith_def)

lemma stod_five: "stod ''5'' = Some (Finite 5)"
proof -
  have "read_mantissa 10 (CHR ''e'') 10 ''5'' = Some 5"
    by (simp add: read_mantissa_def digits_def after_digits_def digit_value_def number_def times_power_def read_exponent_def)
  moreover have "to_double 5 = Some (Finite 5)" using f_numeral(2)[of "Num.Bit1 (Num.Bit0 Num.One)"] by (simp add: to_double_def Let_def)
  moreover have "dropWhile white (takeWhile (\<lambda>c. c \<noteq> CHR 0x00) ''5'') = ''5''" by (simp add: white_def)
  moreover have "read_sign ''5'' = (False, ''5'')" by (simp add: read_sign_def)
  moreover have "map lower_char (take n ''5'') \<noteq> ''inf''" "map lower_char (take n ''5'') \<noteq> ''nan''"
    "take 2 (map lower_char (take 3 ''5'')) \<noteq> ''0x''" for n
    by (auto simp: lower_char_def dest!: arg_cong[where f = length])
  ultimately show ?thesis by (simp only: stod_def Let_def prod.case if_False option.case)
qed

lemma gain_override: "trials name = '':5'' \<Longrightarrow> RetrieveFieldTrialValue_float trials name 0 10 v = Finite 5"
proof -
  assume "trials name = '':5''"
  moreover have "ParseFieldTrial [double_field '''' v] '':5'' = [double_field '''' (Finite 5)]"
    by (simp add: ParseFieldTrial_def parse_segment_def segment_key_def segment_value_def FieldTrialParameter_Parse_def double_field_def
      ParseTypedParameter_double_def stod_five)
  ultimately have "RetrieveFieldTrialValue_float trials name 0 10 v =
      (if in_range 0 10 (to_float (Finite 5)) \<and> to_float (Finite 5) \<noteq> v then to_float (Finite 5) else v)"
    by (simp add: RetrieveFieldTrialValue_float_def double_field_def Get_double_def Let_def)
  moreover have "to_float (Finite 5) = Finite 5" using f_numeral(1)[of "Num.Bit1 (Num.Bit0 Num.One)"] by (simp add: to_float_def Let_def)
  ultimately show ?thesis by (simp add: in_range_def)
qed

text \<open>
  The checks of the suppression gain, which the constructor of the echo remover runs for both tunings.
  They are not among those of the configuration: the override of a single mask value gives a
  configuration that \<^const>\<open>Validate\<close> accepts and whose echo remover fails them, in a build with
  \<^verbatim>\<open>RTC_DCHECK\<close>.
\<close>

definition gain_parameter_checks :: "int \<Rightarrow> int \<Rightarrow> tuning \<Rightarrow> bool" where
  "gain_parameter_checks last_lf first_hf t \<longleftrightarrow> last_lf < first_hf \<and>
     cf_less (enr_transparent (mask_lf t)) (enr_suppress (mask_lf t)) \<and> cf_less (enr_transparent (mask_hf t)) (enr_suppress (mask_hf t))"

definition suppression_gain_checks :: "suppressor_cfg \<Rightarrow> bool" where
  "suppression_gain_checks s \<longleftrightarrow> gain_parameter_checks (last_lf_band s) (first_hf_band s) (nearend_tuning s) \<and>
     gain_parameter_checks (last_lf_band s) (first_hf_band s) (normal_tuning s)"

definition mask_trial :: field_trials where
  "mask_trial name = (if name = ''WebRTC-Aec3SuppressorNormalLfMaskTransparentOverride'' then '':5'' else '''')"

lemma mask_trial_before: "before_override mask_trial default_config = default_config"
proof -
  have "no_switch mask_trial" by (simp add: no_switch_def mask_trial_def IsEnabled_def IsDisabled_def StartsWith_def)
  moreover have "adjust_reverb mask_trial default_config = default_config"
    by (rule adjust_reverb_same[OF _ default_float_config]) (simp add: mask_trial_def)
  ultimately show ?thesis by (simp add: before_override_def no_switch_same)
qed

lemma mask_trial_normal:
  "enr_transparent (mask_lf (normal_tuning (cfg_suppressor (AdjustConfig mask_trial default_config)))) = Finite 5"
  "enr_suppress (mask_lf (normal_tuning (cfg_suppressor (AdjustConfig mask_trial default_config)))) = flt (4 / 10)"
proof -
  have d: "cfg_suppressor (adjust_delay_values mask_trial d) = cfg_suppressor d" for d by (simp add: adjust_delay_values_def Let_def)
  have o: "adjust_override mask_trial default_config = default_config"
    by (rule adjust_override_same[OF _ default_float]) (simp add: mask_trial_def)
  note s = AdjustConfig_split mask_trial_before o d adjust_suppressor_values_def adjust_tuning_values_def
  show "enr_transparent (mask_lf (normal_tuning (cfg_suppressor (AdjustConfig mask_trial default_config)))) = Finite 5"
    by (simp add: s Let_def gain_override mask_trial_def)
  have "enr_suppress (mask_lf (normal_tuning (cfg_suppressor default_config))) = flt (4 / 10)"
    by (simp add: default_config_def default_suppressor_cfg_def)
  then show "enr_suppress (mask_lf (normal_tuning (cfg_suppressor (AdjustConfig mask_trial default_config)))) = flt (4 / 10)"
    by (simp add: s Let_def Retrieve_float_same is_float_flt mask_trial_def)
qed

lemma f32_less:
  assumes "0 \<le> x" "0 \<le> y" "x + (x + y) / 2 ^ 24 + 1 / 2 ^ 149 < y"
  shows "f32 x < f32 y"
  using f32_error[of x] f32_error[of y] assms unfolding abs_le_iff add_divide_distrib by (simp add: field_simps)

lemma mask_override_breaks_checks:
  "suppression_gain_checks (cfg_suppressor default_config) \<and>
   Validate (AdjustConfig mask_trial default_config) = (True, AdjustConfig mask_trial default_config) \<and>
   \<not> suppression_gain_checks (cfg_suppressor (AdjustConfig mask_trial default_config))"
proof (intro conjI)
  show "suppression_gain_checks (cfg_suppressor default_config)"
    by (simp add: suppression_gain_checks_def gain_parameter_checks_def default_config_def default_suppressor_cfg_def f32_less)
  show "Validate (AdjustConfig mask_trial default_config) = (True, AdjustConfig mask_trial default_config)"
    using AdjustConfig_valid[OF default_config_valid default_float, of mask_trial] Validate_limits[of "AdjustConfig mask_trial default_config"]
    by (simp add: mask_trial_def Retrieve_float_same limits_def prod_eq_iff)
  show "\<not> suppression_gain_checks (cfg_suppressor (AdjustConfig mask_trial default_config))"
    using f32_le[of "4 / 10" 1] by (simp add: suppression_gain_checks_def gain_parameter_checks_def mask_trial_normal f32_examples(1))
qed

text \<open>
  The override of the anti howling gain accepts values up to 10, of which the check of the
  configuration allows those up to 1: with the value 5 every adjusted configuration is invalid.
\<close>
lemma gain_override_invalid:
  assumes "trials ''WebRTC-Aec3SuppressorAntiHowlingGainOverride'' = '':5''"
  shows "anti_howling_gain (high_bands_suppression (cfg_suppressor (AdjustConfig trials c))) = Finite 5 \<and>
    \<not> fst (Validate (AdjustConfig trials c))"
proof -
  have "cfg_suppressor (adjust_delay_values trials d) = cfg_suppressor d" for d
    by (simp add: adjust_delay_values_def Let_def)
  then have g: "anti_howling_gain (high_bands_suppression (cfg_suppressor (AdjustConfig trials c))) = Finite 5"
    by (simp add: AdjustConfig_split adjust_suppressor_values_def Let_def gain_override[where trials = trials, OF assms])
  then have "\<not> valid_config (AdjustConfig trials c)"
    by (simp add: valid_config_def valid_suppressor_def valid_high_bands_def in_range_def)
  then show ?thesis using g Validate_limits[of "AdjustConfig trials c"] by (auto simp: limits_def)
qed

theorem gain_override_invalid_witness:
  "valid_config default_config \<and>
   \<not> fst (Validate (AdjustConfig (\<lambda>name. if name = ''WebRTC-Aec3SuppressorAntiHowlingGainOverride'' then '':5'' else '''') default_config))"
  using gain_override_invalid[of "\<lambda>name. if name = ''WebRTC-Aec3SuppressorAntiHowlingGainOverride'' then '':5'' else ''''" default_config]
    default_config_valid by simp

end
