(* ===== verification/Audio_Util.thy ===== *)
theory Audio_Util
  imports Prelude Aec_Config
begin

text \<open>
  The sample conversions of
  \<^verbatim>\<open>crates/fswtch-apm-sys/cpp/common_audio/include/audio_util.h\<close> and \<^verbatim>\<open>audio_util.cc\<close>, between
  16-bit samples, floats in the range of 16-bit samples (S16), and floats from -1 to 1; and the
  conversions between channels in one buffer and channels next to each other. A 16-bit sample is an
  integer, and a theorem says that the results of the conversions are in its range. The powers and
  logarithms of the C library are arguments.
\<close>

section \<open>Samples\<close>

definition S16ToFloat :: "int \<Rightarrow> rat" where
  "S16ToFloat v = f32 (of_int v * (1 / 32768))"

definition copysign :: "rat \<Rightarrow> rat \<Rightarrow> rat" where
  "copysign a v = (if v < 0 then - a else a)"

definition FloatS16ToS16 :: "rat \<Rightarrow> int" where
  "FloatS16ToS16 v = (let v = min v 32767; v = max v (-32768) in trunc (f32 (v + copysign (1 / 2) v)))"

definition FloatToS16 :: "rat \<Rightarrow> int" where
  "FloatToS16 v = (let v = f32 (v * 32768); v = min v 32767; v = max v (-32768) in trunc (f32 (v + copysign (1 / 2) v)))"

definition FloatToFloatS16 :: "rat \<Rightarrow> rat" where
  "FloatToFloatS16 v = (let v = min v 1; v = max v (-1) in f32 (v * 32768))"

definition FloatS16ToFloat :: "rat \<Rightarrow> rat" where
  "FloatS16ToFloat v = (let v = min v 32768; v = max v (-32768) in f32 (v * (1 / 32768)))"

definition DbToRatio :: "(rat \<Rightarrow> rat \<Rightarrow> rat) \<Rightarrow> rat \<Rightarrow> rat" where
  "DbToRatio pow v = pow 10 (f32 (v / 20))"

definition DbfsToFloatS16 :: "(rat \<Rightarrow> rat \<Rightarrow> rat) \<Rightarrow> rat \<Rightarrow> rat" where
  "DbfsToFloatS16 pow v = f32 (DbToRatio pow v * 32768)"

definition kMinDbfs :: rat where "kMinDbfs = f32 (- (90308998699194360 / 1000000000000000))"

definition FloatS16ToDbfs :: "(rat \<Rightarrow> rat) \<Rightarrow> rat \<Rightarrow> rat option" where
  "FloatS16ToDbfs log10 v =
     (if \<not> 0 \<le> v then None else if v \<le> 1 then Some kMinDbfs else Some (f32 (f32 (20 * log10 v) + kMinDbfs)))"

text \<open>The functions on arrays.\<close>

definition S16ToFloat_array :: "int list \<Rightarrow> rat list" where "S16ToFloat_array src = map S16ToFloat src"
definition S16ToFloatS16_array :: "int list \<Rightarrow> rat list" where "S16ToFloatS16_array src = map (\<lambda>v. f32 (of_int v)) src"
definition FloatToS16_array :: "rat list \<Rightarrow> int list" where "FloatToS16_array src = map FloatToS16 src"
definition FloatS16ToS16_array :: "rat list \<Rightarrow> int list" where "FloatS16ToS16_array src = map FloatS16ToS16 src"
definition FloatToFloatS16_array :: "rat list \<Rightarrow> rat list" where "FloatToFloatS16_array src = map FloatToFloatS16 src"
definition FloatS16ToFloat_array :: "rat list \<Rightarrow> rat list" where "FloatS16ToFloat_array src = map FloatS16ToFloat src"

section \<open>Channels\<close>

text \<open>The loop that reads or writes every \<open>n\<close>-th sample.\<close>

primrec read_every :: "nat \<Rightarrow> nat \<Rightarrow> nat \<Rightarrow> 'a list \<Rightarrow> 'a list" where
  "read_every n idx 0 xs = []"
| "read_every n idx (Suc k) xs = xs ! idx # read_every n (idx + n) k xs"

primrec write_every :: "nat \<Rightarrow> nat \<Rightarrow> 'a list \<Rightarrow> 'a list \<Rightarrow> 'a list" where
  "write_every n idx [] out = out"
| "write_every n idx (x # xs) out = write_every n (idx + n) xs (out[idx := x])"

definition Deinterleave :: "nat \<Rightarrow> nat \<Rightarrow> 'a list \<Rightarrow> 'a list list" where
  "Deinterleave num_channels samples_per_channel interleaved =
     map (\<lambda>i. read_every num_channels i samples_per_channel interleaved) [0..<num_channels]"

definition Interleave :: "'a list list \<Rightarrow> 'a list \<Rightarrow> 'a list" where
  "Interleave deinterleaved interleaved =
     fold (\<lambda>i out. write_every (length deinterleaved) i (deinterleaved ! i) out) [0..<length deinterleaved] interleaved"

text \<open>A frame at a time: the sum of its samples, divided toward zero.\<close>

primrec DownmixInterleavedToMono :: "nat \<Rightarrow> nat \<Rightarrow> int list \<Rightarrow> int list" where
  "DownmixInterleavedToMono 0 num_channels interleaved = []"
| "DownmixInterleavedToMono (Suc n) num_channels interleaved =
     cdivi (sum_list (take num_channels interleaved)) (int num_channels) #
     DownmixInterleavedToMono n num_channels (drop num_channels interleaved)"

section \<open>Facts\<close>

definition is_s16 :: "int \<Rightarrow> bool" where "is_s16 v \<longleftrightarrow> -32768 \<le> v \<and> v \<le> 32767"

lemma s16_small: "is_s16 v \<Longrightarrow> \<bar>v\<bar> < 2 ^ 24"
  by (auto simp: is_s16_def abs_if)

lemma f32_half: "\<bar>m\<bar> < 2 ^ 24 \<Longrightarrow> f32 (of_int m / 2) = of_int m / 2"
proof -
  assume "\<bar>m\<bar> < 2 ^ 24"
  then have "\<bar>of_int m :: rat\<bar> < of_int (2 ^ 24)" by (simp only: of_int_less_iff of_int_abs [symmetric])
  then show ?thesis unfolding f32_def
    by (intro round_bits_exact[where e = "-1" and m = m]) (simp_all add: two_pow_def)
qed

lemma f32_scaled: "\<bar>m\<bar> < 2 ^ 24 \<Longrightarrow> f32 (of_int m / 32768) = of_int m / 32768"
proof -
  assume "\<bar>m\<bar> < 2 ^ 24"
  then have "\<bar>of_int m :: rat\<bar> < of_int (2 ^ 24)" by (simp only: of_int_less_iff of_int_abs [symmetric])
  then show ?thesis unfolding f32_def
    by (intro round_bits_exact[where e = "-15" and m = m]) (simp_all add: two_pow_def)
qed

text \<open>Rounding to the nearest integer, away from zero between two.\<close>

definition to_s16 :: "rat \<Rightarrow> int" where
  "to_s16 v = trunc (f32 (v + copysign (1 / 2) v))"

lemma trunc_mono: "x \<le> y \<Longrightarrow> trunc x \<le> trunc y"
  by (auto simp: trunc_def floor_mono intro: order_trans[of _ 0])

lemma trunc_neg: "trunc (- x) = - trunc x"
  by (auto simp: trunc_def)

lemma to_s16_range: "-32768 \<le> v \<Longrightarrow> v \<le> 32767 \<Longrightarrow> is_s16 (to_s16 v)"
proof -
  assume v: "-32768 \<le> v" "v \<le> 32767"
  have "f32 (65535 / 2) = 65535 / 2" "f32 (65537 / 2) = 65537 / 2" using f32_half[of 65535] f32_half[of 65537] by simp_all
  then have b: "f32 (v + copysign (1 / 2) v) \<le> 65535 / 2" "- (65537 / 2) \<le> f32 (v + copysign (1 / 2) v)"
    using v f32_le[of _ "65535 / 2"] f32_ge[of "- (65537 / 2)"] by (auto simp: copysign_def f32_minus)
  have t: "trunc (65535 / 2) = 32767" "trunc (- (65537 / 2)) = -32768" by (simp_all add: trunc_def floor_divide_of_int_eq[of 65535 2, simplified]
        floor_divide_of_int_eq[of 65537 2, simplified])
  show ?thesis using trunc_mono[OF b(1)] trunc_mono[OF b(2)] unfolding t by (simp add: is_s16_def to_s16_def)
qed

lemma to_s16_of_int: "is_s16 v \<Longrightarrow> to_s16 (of_int v) = v"
proof -
  assume v: "is_s16 v"
  define m where "m = (if v < 0 then 2 * v - 1 else 2 * v + 1)"
  have m: "of_int v + copysign (1 / 2) (of_int v) = of_int m / 2" by (simp add: m_def copysign_def field_simps)
  have "\<bar>m\<bar> < 2 ^ 24" using v by (auto simp: m_def is_s16_def)
  then have "to_s16 (of_int v) = trunc (of_int m / 2)" by (simp only: to_s16_def m f32_half)
  also have "\<dots> = v"
    using floor_divide_of_int_eq[of "- m" 2, where 'a = rat] floor_divide_of_int_eq[of m 2, where 'a = rat]
    by (auto simp: trunc_def m_def)
  finally show ?thesis .
qed

lemma FloatS16ToS16_eq: "FloatS16ToS16 v = to_s16 (max (min v 32767) (-32768))"
  by (simp add: FloatS16ToS16_def to_s16_def Let_def)

lemma FloatToS16_eq: "FloatToS16 v = to_s16 (max (min (f32 (v * 32768)) 32767) (-32768))"
  by (simp add: FloatToS16_def to_s16_def Let_def)

lemma conversions_in_range: "is_s16 (FloatS16ToS16 v)" "is_s16 (FloatToS16 v)"
  unfolding FloatS16ToS16_eq FloatToS16_eq by (rule to_s16_range; simp)+

lemma clamp_s16: "is_s16 v \<Longrightarrow> max (min (of_int v) 32767) (-32768) = (of_int v :: rat)"
  by (auto simp: is_s16_def min_def max_def)

lemma FloatS16ToS16_of_int: "is_s16 v \<Longrightarrow> FloatS16ToS16 (of_int v) = v"
  by (simp only: FloatS16ToS16_eq clamp_s16 to_s16_of_int)

lemma S16ToFloat_exact: "is_s16 v \<Longrightarrow> S16ToFloat v = of_int v / 32768"
  using f32_scaled[of v] s16_small[of v] by (simp add: S16ToFloat_def)

lemma FloatToS16_S16ToFloat: "is_s16 v \<Longrightarrow> FloatToS16 (S16ToFloat v) = v"
proof -
  assume v: "is_s16 v"
  have "f32 (S16ToFloat v * 32768) = of_int v" using f32_of_int[of v] s16_small[OF v] v by (simp add: S16ToFloat_exact)
  then show ?thesis using v by (simp only: FloatToS16_eq clamp_s16 to_s16_of_int)
qed

text \<open>The rounding of the sum can lift a number just below a half, so the error may exceed one.\<close>

lemma to_s16_error:
  assumes "-32768 \<le> v" "v \<le> 32767"
  shows "\<bar>of_int (to_s16 v) - v\<bar> \<le> 1 / 2 + 1 / 256"
proof -
  define w where "w = f32 (v + copysign (1 / 2) v)"
  have "\<bar>w - (v + copysign (1 / 2) v)\<bar> \<le> \<bar>v + copysign (1 / 2) v\<bar> / 2 ^ 24 + 1 / 2 ^ 150" unfolding w_def by (rule f32_error)
  also have "\<dots> \<le> 1 / 256" using assms by (auto simp: copysign_def abs_if field_simps)
  finally have e: "\<bar>w - (v + copysign (1 / 2) v)\<bar> \<le> 1 / 256" .
  have f: "of_int \<lfloor>w\<rfloor> \<le> w" "w < of_int \<lfloor>w\<rfloor> + 1" "of_int \<lfloor>- w\<rfloor> \<le> - w" "- w < of_int \<lfloor>- w\<rfloor> + 1" by linarith+
  show ?thesis
  proof (cases "v < 0")
    case True
    then have "w \<le> 0" using f32_mono[of "v + copysign (1 / 2) v" 0] by (simp add: w_def copysign_def)
    then have t: "to_s16 v = - \<lfloor>- w\<rfloor>" by (auto simp: to_s16_def trunc_def w_def)
    have "\<bar>w - (v - 1 / 2)\<bar> \<le> 1 / 256" using e True by (simp add: copysign_def)
    then show ?thesis unfolding t of_int_minus using f(3,4) by linarith
  next
    case False
    then have "0 \<le> w" by (simp add: w_def copysign_def)
    then have t: "to_s16 v = \<lfloor>w\<rfloor>" by (auto simp: to_s16_def trunc_def w_def)
    have "\<bar>w - (v + 1 / 2)\<bar> \<le> 1 / 256" using e False by (simp add: copysign_def)
    then show ?thesis unfolding t using f(1,2) by linarith
  qed
qed

section \<open>Interleaving\<close>

lemma length_write_every [simp]: "length (write_every n idx xs out) = length out"
  by (induction xs arbitrary: idx out) simp_all

lemma nth_read_every: "j < k \<Longrightarrow> read_every n idx k xs ! j = xs ! (idx + j * n)"
  by (induction k arbitrary: idx j) (auto simp: nth_Cons ac_simps split: nat.split)

lemma length_read_every [simp]: "length (read_every n idx k xs) = k"
  by (induction k arbitrary: idx) simp_all

text \<open>What is written at one place stays where the other channels are.\<close>

lemma write_every_other: "(\<And>j. j < length xs \<Longrightarrow> p \<noteq> idx + j * n) \<Longrightarrow> write_every n idx xs out ! p = out ! p"
proof (induction xs arbitrary: idx out)
  case (Cons x xs)
  have "p \<noteq> idx" using Cons.prems[of 0] by simp
  moreover have "p \<noteq> idx + n + j * n" if "j < length xs" for j using Cons.prems[of "Suc j"] that by (simp add: ac_simps)
  ultimately show ?case using Cons.IH[of "idx + n" "out[idx := x]"] by simp
qed simp

lemma write_every_nth:
  assumes "0 < n" "j < length xs" "\<And>j. j < length xs \<Longrightarrow> idx + j * n < length out"
  shows "write_every n idx xs out ! (idx + j * n) = xs ! j"
  using assms(2,3)
proof (induction xs arbitrary: idx out j)
  case (Cons x xs)
  show ?case
  proof (cases j)
    case 0
    have "idx < length out" using Cons.prems(2)[of 0] by simp
    then show ?thesis using 0 write_every_other[of xs idx "idx + n" n "out[idx := x]"] assms(1) by simp
  next
    case (Suc i)
    have "idx + n + k * n < length (out[idx := x])" if "k < length xs" for k using Cons.prems(2)[of "Suc k"] that by (simp add: ac_simps)
    from Cons.IH[of i "idx + n" "out[idx := x]", OF _ this] show ?thesis using Suc Cons.prems(1) by (simp add: ac_simps)
  qed
qed simp

lemma Interleave_nth:
  assumes "\<forall>c\<in>set channels. length c = k" "length out = length channels * k" "i < length channels" "j < k"
  shows "Interleave channels out ! (i + j * length channels) = channels ! i ! j"
proof -
  let ?n = "length channels"
  have n: "0 < ?n" using assms(3) by auto
  have other: "i + j * ?n \<noteq> i' + j' * ?n" if "i' < ?n" "i' \<noteq> i" for i' j'
  proof
    assume "i + j * ?n = i' + j' * ?n"
    then have "(i + j * ?n) mod ?n = (i' + j' * ?n) mod ?n" by simp
    then show False using that assms(3) by simp
  qed
  define f where "f = (\<lambda>i out. write_every ?n i (channels ! i) out)"
  have "length (fold f ks xs) = length xs" for ks and xs :: "'a list" by (induction ks arbitrary: xs) (simp_all add: f_def)
  note l = this
  have keep: "fold f ks xs ! (i + j * ?n) = xs ! (i + j * ?n)" if "\<forall>i'\<in>set ks. i' < ?n \<and> i' \<noteq> i" for ks xs
    using that
  proof (induction ks arbitrary: xs)
    case (Cons a ks)
    then have "a < ?n" "a \<noteq> i" by simp_all
    then have "f a xs ! (i + j * ?n) = xs ! (i + j * ?n)" unfolding f_def by (intro write_every_other other)
    then show ?case using Cons by simp
  qed simp
  have "[0..<i + (?n - i)] = [0..<i] @ [i..<i + (?n - i)]" by (rule upt_add_eq_append) simp
  then have split: "[0..<?n] = [0..<i] @ i # [Suc i..<?n]" using assms(3) by (simp add: upt_conv_Cons)
  have bound: "i + j' * ?n < ?n * k" if "j' < k" for j'
  proof -
    have "i + j' * ?n < ?n + j' * ?n" using assms(3) by simp
    also have "\<dots> = ?n * Suc j'" by simp
    also have "\<dots> \<le> ?n * k" using that by (intro mult_le_mono) simp_all
    finally show ?thesis .
  qed
  have ch: "length (channels ! i) = k" using assms(1,3) by simp
  have "Interleave channels out ! (i + j * ?n) = fold f [Suc i..<?n] (f i (fold f [0..<i] out)) ! (i + j * ?n)"
    unfolding Interleave_def f_def[symmetric] split by simp
  also have "\<dots> = f i (fold f [0..<i] out) ! (i + j * ?n)" by (rule keep) auto
  also have "\<dots> = channels ! i ! j"
  proof -
    have "write_every ?n i (channels ! i) ys ! (i + j * ?n) = channels ! i ! j" if "length ys = ?n * k" for ys
      using that n assms(4) ch bound by (intro write_every_nth) simp_all
    then show ?thesis using l[of "[0..<i]" out] assms(2) by (simp add: f_def)
  qed
  finally show ?thesis .
qed

lemma Deinterleave_Interleave:
  assumes "\<forall>c\<in>set channels. length c = k" "length out = length channels * k"
  shows "Deinterleave (length channels) k (Interleave channels out) = channels"
proof (rule nth_equalityI)
  fix i assume "i < length (Deinterleave (length channels) k (Interleave channels out))"
  then have i: "i < length channels" by (simp add: Deinterleave_def)
  show "Deinterleave (length channels) k (Interleave channels out) ! i = channels ! i"
  proof (rule nth_equalityI)
    show "length (Deinterleave (length channels) k (Interleave channels out) ! i) = length (channels ! i)"
      using i assms(1) by (simp add: Deinterleave_def)
  next
    fix j assume "j < length (Deinterleave (length channels) k (Interleave channels out) ! i)"
    then have "j < k" using i by (simp add: Deinterleave_def)
    then show "Deinterleave (length channels) k (Interleave channels out) ! i ! j = channels ! i ! j"
      using i Interleave_nth[OF assms i] by (simp add: Deinterleave_def nth_read_every)
  qed
qed (simp add: Deinterleave_def)

end
