(* ===== verification/Gain_Limiter.thy ===== *)
theory Gain_Limiter
  imports Audio_Util Aec_Render_Buffer
begin

text \<open>
  The gain control in \<^verbatim>\<open>crates/fswtch-apm-sys/cpp/modules/audio_processing/agc2/\<close>:
  \<^verbatim>\<open>gain_applier.cc\<close>, \<^verbatim>\<open>fixed_digital_level_estimator.cc\<close>, \<^verbatim>\<open>interpolated_gain_curve.cc\<close> and
  \<^verbatim>\<open>limiter.cc\<close>. A \<^verbatim>\<open>float\<close> is a rational, rounded after each operation; the samples are far from
  the end of its range. \<^verbatim>\<open>std::pow\<close> is an argument. The dumps and histograms are left out.
\<close>

section \<open>Signals\<close>

text \<open>A \<^verbatim>\<open>DeinterleavedView\<close>.\<close>

record signal_view =
  view_samples :: nat
  view_channels :: "rat list list"

definition wf_view :: "signal_view \<Rightarrow> bool" where
  "wf_view v \<longleftrightarrow> (\<forall>c\<in>set (view_channels v). length c = view_samples v)"

definition kMinFloatS16Value :: rat where "kMinFloatS16Value = -32768"
definition kMaxFloatS16Value :: rat where "kMaxFloatS16Value = 32767"
definition kSubFramesInFrame :: nat where "kSubFramesInFrame = 20"
definition kMaximalNumberOfSamplesPerChannel :: nat where "kMaximalNumberOfSamplesPerChannel = 480"
definition kInterpolatedGainCurveKneePoints :: nat where "kInterpolatedGainCurveKneePoints = 22"

section \<open>\<^verbatim>\<open>GainApplier\<close>\<close>

definition GainCloseToOne :: "rat \<Rightarrow> bool" where
  "GainCloseToOne gain_factor \<longleftrightarrow>
     f32 (1 - f32 (1 / kMaxFloatS16Value)) \<le> gain_factor \<and> gain_factor \<le> f32 (1 + f32 (1 / kMaxFloatS16Value))"

definition ClipSignal :: "signal_view \<Rightarrow> signal_view" where
  "ClipSignal = view_channels_update (map (map (\<lambda>sample. SafeClamp sample kMinFloatS16Value kMaxFloatS16Value)))"

text \<open>The samples of a channel with a gain that grows by an increment.\<close>

primrec ramp :: "rat \<Rightarrow> rat \<Rightarrow> rat list \<Rightarrow> rat list" where
  "ramp increment gain [] = []"
| "ramp increment gain (sample # rest) = f32 (sample * gain) # ramp increment (f32 (gain + increment)) rest"

definition ApplyGainWithRamping :: "rat \<Rightarrow> rat \<Rightarrow> rat \<Rightarrow> signal_view \<Rightarrow> signal_view" where
  "ApplyGainWithRamping last_gain_linear gain_at_end_of_frame_linear inverse_samples_per_channel frame =
     (if last_gain_linear = gain_at_end_of_frame_linear \<and> GainCloseToOne gain_at_end_of_frame_linear then frame
      else if last_gain_linear = gain_at_end_of_frame_linear
      then view_channels_update (map (map (\<lambda>sample. f32 (sample * gain_at_end_of_frame_linear)))) frame
      else (let increment = f32 (f32 (gain_at_end_of_frame_linear - last_gain_linear) * inverse_samples_per_channel)
            in view_channels_update (map (ramp increment last_gain_linear)) frame))"

record gain_applier =
  hard_clip_samples :: bool
  last_gain_factor :: rat
  current_gain_factor :: rat
  applier_samples_per_channel :: int
  inverse_samples_per_channel :: rat

definition new_gain_applier :: "bool \<Rightarrow> rat \<Rightarrow> gain_applier" where
  "new_gain_applier clip factor = \<lparr>hard_clip_samples = clip, last_gain_factor = factor, current_gain_factor = factor,
     applier_samples_per_channel = -1, inverse_samples_per_channel = -1\<rparr>"

definition GainApplier_Initialize :: "int \<Rightarrow> gain_applier \<Rightarrow> gain_applier option" where
  "GainApplier_Initialize samples ga = do {
     RTC_DCHECK (samples > 0);
     Some (ga\<lparr>applier_samples_per_channel := samples, inverse_samples_per_channel := f32 (1 / of_int samples)\<rparr>) }"

definition SetGainFactor :: "rat \<Rightarrow> gain_applier \<Rightarrow> gain_applier option" where
  "SetGainFactor gain_factor ga = do { RTC_DCHECK (gain_factor > 0); Some (ga\<lparr>current_gain_factor := gain_factor\<rparr>) }"

definition GetGainFactor :: "gain_applier \<Rightarrow> rat" where "GetGainFactor ga = current_gain_factor ga"

definition ApplyGain :: "signal_view \<Rightarrow> gain_applier \<Rightarrow> (gain_applier \<times> signal_view) option" where
  "ApplyGain signal ga = do {
     ga \<leftarrow> (if int (view_samples signal) \<noteq> applier_samples_per_channel ga then GainApplier_Initialize (int (view_samples signal)) ga else Some ga);
     let signal = ApplyGainWithRamping (last_gain_factor ga) (current_gain_factor ga) (inverse_samples_per_channel ga) signal;
     let ga = ga\<lparr>last_gain_factor := current_gain_factor ga\<rparr>;
     Some (ga, if hard_clip_samples ga then ClipSignal signal else signal) }"

section \<open>\<^verbatim>\<open>FixedDigitalLevelEstimator\<close>\<close>

definition kInitialFilterStateLevel :: rat where "kInitialFilterStateLevel = 0"
definition kAttackFilterConstant :: rat where "kAttackFilterConstant = 0"
definition kDecayFilterConstant :: rat where "kDecayFilterConstant = f32 (9971259 / 10 ^ 7)"

record level_estimator =
  filter_state_level :: rat
  samples_in_frame :: nat
  samples_in_sub_frame :: nat

definition CheckParameterCombination :: "level_estimator \<Rightarrow> unit option" where
  "CheckParameterCombination e = do {
     RTC_DCHECK (samples_in_frame e > 0);
     RTC_DCHECK (kSubFramesInFrame \<le> samples_in_frame e);
     RTC_DCHECK (samples_in_frame e mod kSubFramesInFrame = 0);
     RTC_DCHECK (samples_in_sub_frame e > 1) }"

definition CheckedDivExact :: "nat \<Rightarrow> nat \<Rightarrow> nat option" where
  "CheckedDivExact a b = do { RTC_DCHECK (a mod b = 0); Some (a div b) }"

definition Level_SetSamplesPerChannel :: "nat \<Rightarrow> level_estimator \<Rightarrow> level_estimator option" where
  "Level_SetSamplesPerChannel samples_per_channel e = do {
     n \<leftarrow> CheckedDivExact samples_per_channel kSubFramesInFrame;
     let e = e\<lparr>samples_in_frame := samples_per_channel, samples_in_sub_frame := n\<rparr>;
     CheckParameterCombination e;
     Some e }"

definition new_level_estimator :: "nat \<Rightarrow> level_estimator option" where
  "new_level_estimator samples_per_channel = do {
     e \<leftarrow> Level_SetSamplesPerChannel samples_per_channel
       \<lparr>filter_state_level = kInitialFilterStateLevel, samples_in_frame = 0, samples_in_sub_frame = 0\<rparr>;
     CheckParameterCombination e;
     Some e }"

definition Level_Reset :: "level_estimator \<Rightarrow> level_estimator" where
  "Level_Reset e = e\<lparr>filter_state_level := kInitialFilterStateLevel\<rparr>"

text \<open>The largest magnitude of each sub frame, a channel at a time.\<close>

definition channel_envelope :: "nat \<Rightarrow> rat list \<Rightarrow> rat list \<Rightarrow> rat list" where
  "channel_envelope n channel envelope =
     map (\<lambda>sub_frame. foldl (\<lambda>e sample. max e \<bar>sample\<bar>) (envelope ! sub_frame) (take n (drop (sub_frame * n) channel))) [0..<kSubFramesInFrame]"

text \<open>An increase happens one step earlier.\<close>

fun one_step_earlier :: "rat list \<Rightarrow> rat list" where
  "one_step_earlier (a # b # rest) = (if a < b then b else a) # one_step_earlier (b # rest)"
| "one_step_earlier envelope = envelope"

text \<open>The smoothing with its state.\<close>

definition smooth_level :: "rat \<Rightarrow> rat \<Rightarrow> rat" where
  "smooth_level filter_state envelope_value =
     (if envelope_value > filter_state
      then f32 (f32 (envelope_value * f32 (1 - kAttackFilterConstant)) + f32 (filter_state * kAttackFilterConstant))
      else f32 (f32 (envelope_value * f32 (1 - kDecayFilterConstant)) + f32 (filter_state * kDecayFilterConstant)))"

primrec smooth :: "rat \<Rightarrow> rat list \<Rightarrow> rat list" where
  "smooth filter_state [] = []"
| "smooth filter_state (e # rest) = smooth_level filter_state e # smooth (smooth_level filter_state e) rest"

definition ComputeLevel :: "signal_view \<Rightarrow> level_estimator \<Rightarrow> (level_estimator \<times> rat list) option" where
  "ComputeLevel float_frame e = do {
     RTC_DCHECK (length (view_channels float_frame) > 0);
     RTC_DCHECK (view_samples float_frame = samples_in_frame e);
     let envelope = fold (channel_envelope (samples_in_sub_frame e)) (view_channels float_frame) (replicate kSubFramesInFrame 0);
     let envelope = smooth (filter_state_level e) (one_step_earlier envelope);
     Some (e\<lparr>filter_state_level := last envelope\<rparr>, envelope) }"

section \<open>\<^verbatim>\<open>InterpolatedGainCurve\<close>\<close>

definition kMaxInputLevelLinear :: rat where "kMaxInputLevelLinear = f32 (36766300710566735 / 10 ^ 12)"

text \<open>The constants of the curve as they are written, and as floats.\<close>

definition curve_points :: "rat list" where
  "curve_points =
     [30057296875 / 10 ^ 6, 30148986328125 / 10 ^ 9, 3024067578125 / 10 ^ 8, 30424052734375 / 10 ^ 9,
      306074296875 / 10 ^ 7, 30790806640625 / 10 ^ 9, 3097418359375 / 10 ^ 8, 31157560546875 / 10 ^ 9,
      31340939453125 / 10 ^ 9, 3152431640625 / 10 ^ 8, 31707693359375 / 10 ^ 9, 318910703125 / 10 ^ 7,
      32074447265625 / 10 ^ 9, 3225782421875 / 10 ^ 8, 32441201171875 / 10 ^ 9, 32624580078125 / 10 ^ 9,
      3280795703125 / 10 ^ 8, 3299133203125 / 10 ^ 8, 331747109375 / 10 ^ 7, 3335808984375 / 10 ^ 8,
      3354146484375 / 10 ^ 8, 3372484375 / 10 ^ 5, 3381953515625 / 10 ^ 8, 340095390625 / 10 ^ 7,
      3420005859375 / 10 ^ 8, 3438981640625 / 10 ^ 8, 3467448828125 / 10 ^ 8, 35054375 / 10 ^ 3,
      3543486328125 / 10 ^ 8, 3581481640625 / 10 ^ 8, 3619516796875 / 10 ^ 8, 3657503125 / 10 ^ 5]"

definition curve_slopes :: "rat list" where
  "curve_slopes =
     [- (3515235675877192989 / 10 ^ 25), - (1050251626111275982 / 10 ^ 24), - (2085213736791047268 / 10 ^ 24), - (3443004743530764244 / 10 ^ 24),
      - (4773849468620028347 / 10 ^ 24), - (6077375928725814447 / 10 ^ 24), - (7353257842623861507 / 10 ^ 24), - (8601219633419532329 / 10 ^ 24),
      - (9821013009059242904 / 10 ^ 24), - (1101243378798244521 / 10 ^ 23), - (1217532644659513608 / 10 ^ 23), - (1330956911260727793 / 10 ^ 23),
      - (1441507538402220234 / 10 ^ 23), - (1549179251014720649 / 10 ^ 23), - (1653970684856176376 / 10 ^ 23), - (1755882840370759368 / 10 ^ 23),
      - (1854918446042574942 / 10 ^ 23), - (1951086778717581183 / 10 ^ 23), - (2044398024736437947 / 10 ^ 23), - (21348627342376858 / 10 ^ 21),
      - (2222496914328075945 / 10 ^ 23), - (2265374678245279938 / 10 ^ 23), - (2242570917587727308 / 10 ^ 23), - (2220122041762806475 / 10 ^ 23),
      - (219802095671184361 / 10 ^ 22), - (2176260204578284174 / 10 ^ 23), - (2133731686626560986 / 10 ^ 23), - (2092481918225530535 / 10 ^ 23),
      - (2052459603874012828 / 10 ^ 23), - (2013615448959171772 / 10 ^ 23), - (1975903069251216948 / 10 ^ 23), - (1939277899509761482 / 10 ^ 23)]"

definition curve_offsets :: "rat list" where
  "curve_offsets =
     [1010565876960754395 / 10 ^ 18, 1031631827354431152 / 10 ^ 18, 1062929749488830566 / 10 ^ 18, 1104239225387573242 / 10 ^ 18,
      1144973039627075195 / 10 ^ 18, 1185109615325927734 / 10 ^ 18, 1224629044532775879 / 10 ^ 18, 1263512492179870605 / 10 ^ 18,
      1301741957664489746 / 10 ^ 18, 1339300632476806641 / 10 ^ 18, 1376173257827758789 / 10 ^ 18, 1412345528602600098 / 10 ^ 18,
      1447803974151611328 / 10 ^ 18, 1482536554336547852 / 10 ^ 18, 1516532182693481445 / 10 ^ 18, 1549780607223510742 / 10 ^ 18,
      1582272171974182129 / 10 ^ 18, 1613999366760253906 / 10 ^ 18, 1644955039024353027 / 10 ^ 18, 1675132393836975098 / 10 ^ 18,
      1704526185989379883 / 10 ^ 18, 1718986630439758301 / 10 ^ 18, 1711274504661560059 / 10 ^ 18, 1703639745712280273 / 10 ^ 18,
      1696081161499023438 / 10 ^ 18, 1688597679138183594 / 10 ^ 18, 1673851132392883301 / 10 ^ 18, 1659391283988952637 / 10 ^ 18,
      1645209431648254395 / 10 ^ 18, 1631297469139099121 / 10 ^ 18, 1617647409439086914 / 10 ^ 18, 1604251742362976074 / 10 ^ 18]"

definition approximation_params_x :: "rat list" where "approximation_params_x = map f32 curve_points"
definition approximation_params_m :: "rat list" where "approximation_params_m = map f32 curve_slopes"
definition approximation_params_q :: "rat list" where "approximation_params_q = map f32 curve_offsets"

datatype gain_region = kIdentity | kKnee | kLimiter | kSaturation

record curve_stats =
  look_ups_identity_region :: nat
  look_ups_knee_region :: nat
  look_ups_limiter_region :: nat
  look_ups_saturation_region :: nat
  stats_available :: bool
  stats_region :: gain_region
  region_duration_frames :: nat

definition new_stats :: curve_stats where
  "new_stats = \<lparr>look_ups_identity_region = 0, look_ups_knee_region = 0, look_ups_limiter_region = 0, look_ups_saturation_region = 0,
     stats_available = False, stats_region = kIdentity, region_duration_frames = 0\<rparr>"

definition UpdateStats :: "rat \<Rightarrow> curve_stats \<Rightarrow> curve_stats" where
  "UpdateStats input_level stats =
     (let stats = stats\<lparr>stats_available := True\<rparr>;
          (stats, region) =
            (if input_level < approximation_params_x ! 0
             then (stats\<lparr>look_ups_identity_region := look_ups_identity_region stats + 1\<rparr>, kIdentity)
             else if input_level < approximation_params_x ! (kInterpolatedGainCurveKneePoints - 1)
             then (stats\<lparr>look_ups_knee_region := look_ups_knee_region stats + 1\<rparr>, kKnee)
             else if input_level < kMaxInputLevelLinear
             then (stats\<lparr>look_ups_limiter_region := look_ups_limiter_region stats + 1\<rparr>, kLimiter)
             else (stats\<lparr>look_ups_saturation_region := look_ups_saturation_region stats + 1\<rparr>, kSaturation))
      in if region = stats_region stats then stats\<lparr>region_duration_frames := region_duration_frames stats + 1\<rparr>
         else stats\<lparr>region_duration_frames := 0, stats_region := region\<rparr>)"

text \<open>\<^verbatim>\<open>std::lower_bound\<close> on the sorted points.\<close>

definition lower_bound :: "rat list \<Rightarrow> rat \<Rightarrow> nat" where
  "lower_bound xs v = length (takeWhile (\<lambda>x. x < v) xs)"

definition LookUpGain :: "rat \<Rightarrow> rat option" where
  "LookUpGain input_level =
     (if input_level \<le> approximation_params_x ! 0 then Some 1
      else if input_level \<ge> kMaxInputLevelLinear then Some (f32 (32768 / input_level))
      else do {
        let index = int (lower_bound approximation_params_x input_level) - 1;
        RTC_DCHECK (0 \<le> index);
        RTC_DCHECK (index < int (length approximation_params_m));
        let index = nat index;
        RTC_DCHECK (approximation_params_x ! index \<le> input_level);
        RTC_DCHECK (index < length approximation_params_m - 1 \<longrightarrow> input_level \<le> approximation_params_x ! (index + 1));
        let gain = f32 (f32 (approximation_params_m ! index * input_level) + approximation_params_q ! index);
        RTC_DCHECK (0 \<le> gain);
        Some gain })"

definition LookUpGainToApply :: "rat \<Rightarrow> curve_stats \<Rightarrow> (curve_stats \<times> rat) option" where
  "LookUpGainToApply input_level stats = do {
     let stats = UpdateStats input_level stats;
     gain \<leftarrow> LookUpGain input_level;
     Some (stats, gain) }"

section \<open>\<^verbatim>\<open>Limiter\<close>\<close>

definition kAttackFirstSubframeInterpolationPower :: rat where "kAttackFirstSubframeInterpolationPower = 8"

definition InterpolateFirstSubframe :: "(rat \<Rightarrow> rat \<Rightarrow> rat) \<Rightarrow> rat \<Rightarrow> rat \<Rightarrow> nat \<Rightarrow> rat list" where
  "InterpolateFirstSubframe pow last_factor current_factor n =
     map (\<lambda>i. let t = f32 (of_nat i / of_nat n)
              in f32 (f32 (pow (f32 (1 - t)) kAttackFirstSubframeInterpolationPower * f32 (last_factor - current_factor)) + current_factor)) [0..<n]"

definition linear_subframe :: "rat \<Rightarrow> rat \<Rightarrow> nat \<Rightarrow> rat list" where
  "linear_subframe scaling_start scaling_end subframe_size =
     (let scaling_diff = f32 (f32 (scaling_end - scaling_start) / of_nat subframe_size)
      in map (\<lambda>j. f32 (scaling_start + f32 (scaling_diff * of_nat j))) [0..<subframe_size])"

text \<open>The scaling factors of a frame of \<open>n\<close> samples.\<close>

definition ComputePerSampleSubframeFactors :: "(rat \<Rightarrow> rat \<Rightarrow> rat) \<Rightarrow> rat list \<Rightarrow> nat \<Rightarrow> rat list option" where
  "ComputePerSampleSubframeFactors pow scaling_factors n = do {
     let num_subframes = length scaling_factors - 1;
     subframe_size \<leftarrow> CheckedDivExact n num_subframes;
     let is_attack = scaling_factors ! 0 > scaling_factors ! 1;
     let first = (if is_attack then InterpolateFirstSubframe pow (scaling_factors ! 0) (scaling_factors ! 1) subframe_size else []);
     Some (first @ concat (map (\<lambda>i. linear_subframe (scaling_factors ! i) (scaling_factors ! (i + 1)) subframe_size)
        [(if is_attack then 1 else 0)..<num_subframes])) }"

definition ScaleSamples :: "rat list \<Rightarrow> signal_view \<Rightarrow> signal_view option" where
  "ScaleSamples factors signal = do {
     RTC_DCHECK (view_samples signal = length factors);
     Some (view_channels_update (map (\<lambda>channel. map2 (\<lambda>sample factor. SafeClamp (f32 (sample * factor)) kMinFloatS16Value kMaxFloatS16Value) channel factors)) signal) }"

record gain_limiter =
  gain_curve_stats :: curve_stats
  level_est :: level_estimator
  last_scaling_factor :: rat

definition new_limiter :: "nat \<Rightarrow> gain_limiter option" where
  "new_limiter samples_per_channel = do {
     e \<leftarrow> new_level_estimator samples_per_channel;
     RTC_DCHECK (samples_per_channel \<le> kMaximalNumberOfSamplesPerChannel);
     Some \<lparr>gain_curve_stats = new_stats, level_est = e, last_scaling_factor = 1\<rparr> }"

text \<open>The gains for the levels of a frame.\<close>

fun look_up_gains :: "rat list \<Rightarrow> curve_stats \<Rightarrow> (curve_stats \<times> rat list) option" where
  "look_up_gains [] stats = Some (stats, [])"
| "look_up_gains (level # levels) stats = do {
     (stats, gain) \<leftarrow> LookUpGainToApply level stats;
     (stats, gains) \<leftarrow> look_up_gains levels stats;
     Some (stats, gain # gains) }"

definition Limiter_Process :: "(rat \<Rightarrow> rat \<Rightarrow> rat) \<Rightarrow> signal_view \<Rightarrow> gain_limiter \<Rightarrow> (gain_limiter \<times> signal_view) option" where
  "Limiter_Process pow signal l = do {
     RTC_DCHECK (view_samples signal \<le> kMaximalNumberOfSamplesPerChannel);
     (e, level_estimate) \<leftarrow> ComputeLevel signal (level_est l);
     (stats, gains) \<leftarrow> look_up_gains level_estimate (gain_curve_stats l);
     let scaling_factors = last_scaling_factor l # gains;
     factors \<leftarrow> ComputePerSampleSubframeFactors pow scaling_factors (view_samples signal);
     signal \<leftarrow> ScaleSamples factors signal;
     Some (\<lparr>gain_curve_stats = stats, level_est = e, last_scaling_factor = last scaling_factors\<rparr>, signal) }"

definition Limiter_SetSamplesPerChannel :: "nat \<Rightarrow> gain_limiter \<Rightarrow> gain_limiter option" where
  "Limiter_SetSamplesPerChannel samples_per_channel l = do {
     RTC_DCHECK (samples_per_channel \<le> kMaximalNumberOfSamplesPerChannel);
     e \<leftarrow> Level_SetSamplesPerChannel samples_per_channel (level_est l);
     Some (l\<lparr>level_est := e\<rparr>) }"

definition Limiter_Reset :: "gain_limiter \<Rightarrow> gain_limiter" where
  "Limiter_Reset l = l\<lparr>level_est := Level_Reset (level_est l)\<rparr>"

definition LastAudioLevel :: "gain_limiter \<Rightarrow> rat" where
  "LastAudioLevel l = filter_state_level (level_est l)"

definition GetGainCurveStats :: "gain_limiter \<Rightarrow> curve_stats" where
  "GetGainCurveStats l = gain_curve_stats l"

end
