(* ===== verification/Band_Split.thy ===== *)
theory Band_Split
  imports Aec_Capture Gain_Limiter
begin

text \<open>
  The split of a signal into frequency bands and the merge of the bands:
  \<^verbatim>\<open>modules/audio_processing/three_band_filter_bank.cc\<close> and \<^verbatim>\<open>splitting_filter.cc\<close> in
  \<^verbatim>\<open>crates/fswtch-apm-sys/cpp/\<close>, with the two-band functions of
  \<^verbatim>\<open>shims/common_audio/signal_processing/include/signal_processing_library.h\<close>, which put the even
  samples into one band and the odd ones into the other. A \<^verbatim>\<open>float\<close> is a rational that is rounded
  after each operation.
\<close>

section \<open>Loops with checks\<close>

primrec loop_option :: "('i \<Rightarrow> 's \<Rightarrow> 's option) \<Rightarrow> 'i list \<Rightarrow> 's \<Rightarrow> 's option" where
  "loop_option body [] s = Some s"
| "loop_option body (i # is) s = do { s \<leftarrow> body i s; loop_option body is s }"

lemma loop_option_append: "loop_option body (xs @ ys) s = do { s \<leftarrow> loop_option body xs s; loop_option body ys s }"
  by (induction xs arbitrary: s) simp_all

section \<open>\<^verbatim>\<open>ThreeBandFilterBank\<close>\<close>

definition kThreeBands :: nat where [cval]: "kThreeBands = 3"
definition kFullBandSize :: nat where [cval]: "kFullBandSize = 480"
definition kThreeBandSize :: nat where [cval]: "kThreeBandSize = kFullBandSize div kThreeBands"
definition kSparsity :: nat where [cval]: "kSparsity = 4"
definition kStrideLog2 :: nat where [cval]: "kStrideLog2 = 2"
definition kStride :: nat where [cval]: "kStride = 2 ^ kStrideLog2"
definition kNumZeroFilters :: nat where [cval]: "kNumZeroFilters = 2"
definition kFilterSize :: nat where [cval]: "kFilterSize = 4"
definition kMemorySize :: nat where [cval]: "kMemorySize = kFilterSize * kStride - 1"
definition kNumNonZeroFilters :: nat where [cval]: "kNumNonZeroFilters = kSparsity * kThreeBands - kNumZeroFilters"
definition kSubSampling :: nat where [cval]: "kSubSampling = kThreeBands"
definition kZeroFilterIndex1 :: nat where [cval]: "kZeroFilterIndex1 = 3"
definition kZeroFilterIndex2 :: nat where [cval]: "kZeroFilterIndex2 = 9"

definition kFilterCoeffs :: "rat list list" where
  "kFilterCoeffs = map (map (\<lambda>c. f32 (c / 10 ^ 8)))
     [[-47749, -496888, 16547118, 425496], [-173287, -1585778, 14989004, 994113], [-304815, -2536082, 12154542, 1157993],
      [-346946, -2587886, 4760441, 607594], [-154717, -1136076, 1387458, 186353], [186353, 1387458, -1136076, -154717],
      [607594, 4760441, -2587886, -346946], [983212, 8543175, -2982767, -383509], [994113, 14989004, -1585778, -173287],
      [425496, 16547118, -496888, -47749]]"

text \<open>The float nearest to the square root of three.\<close>

definition kSqrt3 :: rat where "kSqrt3 = f32 (1732050807568877293527446341505872367 / 10 ^ 36)"

definition kDctModulation :: "rat list list" where
  "kDctModulation =
     [[2, 2, 2], [kSqrt3, 0, - kSqrt3], [1, -2, 1], [-1, 2, -1], [- kSqrt3, 0, kSqrt3],
      [-2, -2, -2], [- kSqrt3, 0, kSqrt3], [-1, 2, -1], [1, -2, 1], [kSqrt3, 0, - kSqrt3]]"

text \<open>The loop \<^verbatim>\<open>out[k] += x * filter[i]\<close> over the indices \<open>is\<close>.\<close>

definition multiply_add :: "rat list \<Rightarrow> (nat \<Rightarrow> rat) \<Rightarrow> nat list \<Rightarrow> rat \<Rightarrow> rat" where
  "multiply_add coeffs x is out = foldl (\<lambda>out i. f32 (out + f32 (x i * coeffs ! i))) out is"

definition FilterCore :: "rat list \<Rightarrow> rat list \<Rightarrow> nat \<Rightarrow> rat list \<Rightarrow> (rat list \<times> rat list) option" where
  "FilterCore coeffs input in_shift state = do {
     RTC_DCHECK (in_shift \<le> kStride - 1);
     let from_state = map (\<lambda>k. multiply_add coeffs (\<lambda>i. state ! (kMemorySize + k - in_shift - i * kStride)) [0..<kFilterSize] 0) [0..<in_shift];
     let from_both = map (\<lambda>k. let shift = k - in_shift; loop_limit = min kFilterSize (1 + shift div 2 ^ kStrideLog2)
       in multiply_add coeffs (\<lambda>i. state ! (kMemorySize + shift - i * kStride)) [loop_limit..<kFilterSize]
            (multiply_add coeffs (\<lambda>i. input ! (shift - i * kStride)) [0..<loop_limit] 0)) [in_shift..<kFilterSize * kStride];
     let from_input = map (\<lambda>k. multiply_add coeffs (\<lambda>i. input ! (k - in_shift - i * kStride)) [0..<kFilterSize] 0)
       [kFilterSize * kStride..<kThreeBandSize];
     Some (from_state @ from_both @ from_input, drop (kThreeBandSize - kMemorySize) input) }"

record three_band_bank =
  state_analysis :: "rat list list"
  state_synthesis :: "rat list list"

definition new_three_band_bank :: three_band_bank where
  "new_three_band_bank = \<lparr>state_analysis = replicate kNumNonZeroFilters (replicate kMemorySize 0),
     state_synthesis = replicate kNumNonZeroFilters (replicate kMemorySize 0)\<rparr>"

text \<open>The place of a filter in the tables; two filters are zero and skipped.\<close>

definition filter_index :: "nat \<times> nat \<Rightarrow> nat option" where
  "filter_index = (\<lambda>(sampling_index, in_shift).
     let index = sampling_index + in_shift * kSubSampling in
     if index = kZeroFilterIndex1 \<or> index = kZeroFilterIndex2 then None
     else Some (if index < kZeroFilterIndex1 then index else if index < kZeroFilterIndex2 then index - 1 else index - 2))"

text \<open>The order of the two loops.\<close>

definition filter_order :: "(nat \<times> nat) list" where
  "filter_order = List.product [0..<kSubSampling] [0..<kStride]"

definition analysis_step :: "rat list \<Rightarrow> nat \<times> nat \<Rightarrow> rat list list \<times> rat list list \<Rightarrow> (rat list list \<times> rat list list) option" where
  "analysis_step input ds = (\<lambda>(states, out). case filter_index ds of None \<Rightarrow> Some (states, out) | Some f \<Rightarrow> do {
     let in_subsampled = map (\<lambda>k. input ! ((kSubSampling - 1) - fst ds + kSubSampling * k)) [0..<kThreeBandSize];
     (out_subsampled, state) \<leftarrow> FilterCore (kFilterCoeffs ! f) in_subsampled (snd ds) (states ! f);
     Some (states[f := state],
       map (\<lambda>band. map (\<lambda>n. f32 (out ! band ! n + f32 (kDctModulation ! f ! band * out_subsampled ! n))) [0..<kThreeBandSize]) [0..<kThreeBands]) })"

definition ThreeBand_Analysis :: "rat list \<Rightarrow> three_band_bank \<Rightarrow> (three_band_bank \<times> rat list list) option" where
  "ThreeBand_Analysis input bank = do {
     (states, out) \<leftarrow> loop_option (analysis_step input) filter_order
       (state_analysis bank, replicate kThreeBands (replicate kThreeBandSize 0));
     Some (bank\<lparr>state_analysis := states\<rparr>, out) }"

definition modulate_bands :: "rat list \<Rightarrow> rat list list \<Rightarrow> rat list" where
  "modulate_bands dct_modulation bands =
     map (\<lambda>n. foldl (\<lambda>sum band. f32 (sum + f32 (dct_modulation ! band * bands ! band ! n))) 0 [0..<kThreeBands]) [0..<kThreeBandSize]"

text \<open>The samples of \<open>out\<close> with a filter's output added at every third place.\<close>

definition upsample_add :: "nat \<Rightarrow> rat list \<Rightarrow> rat list \<Rightarrow> rat list" where
  "upsample_add upsampling_index out_subsampled out =
     foldl (\<lambda>out k. out[upsampling_index + kSubSampling * k := f32 (out ! (upsampling_index + kSubSampling * k) + f32 (of_nat kSubSampling * out_subsampled ! k))])
       out [0..<kThreeBandSize]"

definition synthesis_step :: "rat list list \<Rightarrow> nat \<times> nat \<Rightarrow> rat list list \<times> rat list \<Rightarrow> (rat list list \<times> rat list) option" where
  "synthesis_step bands us = (\<lambda>(states, out). case filter_index us of None \<Rightarrow> Some (states, out) | Some f \<Rightarrow> do {
     RTC_DCHECK (\<forall>band\<in>{0..<kThreeBands}. length (bands ! band) = kThreeBandSize);
     (out_subsampled, state) \<leftarrow> FilterCore (kFilterCoeffs ! f) (modulate_bands (kDctModulation ! f) bands) (snd us) (states ! f);
     Some (states[f := state], upsample_add (fst us) out_subsampled out) })"

definition ThreeBand_Synthesis :: "rat list list \<Rightarrow> three_band_bank \<Rightarrow> (three_band_bank \<times> rat list) option" where
  "ThreeBand_Synthesis bands bank = do {
     (states, out) \<leftarrow> loop_option (synthesis_step bands) filter_order (state_synthesis bank, replicate kFullBandSize 0);
     Some (bank\<lparr>state_synthesis := states\<rparr>, out) }"

section \<open>\<^verbatim>\<open>ChannelBuffer\<close>\<close>

text \<open>The samples of each channel that is allocated, a band after the other.\<close>

record channel_buffer =
  cb_data :: "rat list list"
  cb_frames :: nat
  cb_channels :: nat
  cb_bands :: nat

definition new_channel_buffer :: "nat \<Rightarrow> nat \<Rightarrow> nat \<Rightarrow> channel_buffer" where
  "new_channel_buffer num_frames channels bands =
     \<lparr>cb_data = replicate channels (replicate num_frames 0), cb_frames = num_frames, cb_channels = channels, cb_bands = bands\<rparr>"

definition frames_per_band :: "channel_buffer \<Rightarrow> nat" where
  "frames_per_band cb = cb_frames cb div cb_bands cb"

definition read_band :: "channel_buffer \<Rightarrow> nat \<Rightarrow> nat \<Rightarrow> rat list" where
  "read_band cb channel band = take (frames_per_band cb) (drop (band * frames_per_band cb) (cb_data cb ! channel))"

definition write_band :: "nat \<Rightarrow> nat \<Rightarrow> rat list \<Rightarrow> channel_buffer \<Rightarrow> channel_buffer" where
  "write_band channel band xs cb = cb\<lparr>cb_data := (cb_data cb)[channel :=
     take (band * frames_per_band cb) (cb_data cb ! channel) @ xs @ drop (band * frames_per_band cb + length xs) (cb_data cb ! channel)]\<rparr>"

definition cb_set_num_channels :: "nat \<Rightarrow> channel_buffer \<Rightarrow> channel_buffer option" where
  "cb_set_num_channels n cb = do { RTC_DCHECK (n \<le> length (cb_data cb)); Some (cb\<lparr>cb_channels := n\<rparr>) }"

section \<open>\<^verbatim>\<open>SplittingFilter\<close>\<close>

definition kTwoBandFilterSamplesPerFrame :: nat where [cval]: "kTwoBandFilterSamplesPerFrame = 320"

definition AnalysisQMF :: "rat list \<Rightarrow> rat list \<times> rat list" where
  "AnalysisQMF in_data = (map (\<lambda>i. in_data ! (2 * i)) [0..<length in_data div 2], map (\<lambda>i. in_data ! (2 * i + 1)) [0..<length in_data div 2])"

definition SynthesisQMF :: "rat list \<Rightarrow> rat list \<Rightarrow> rat list" where
  "SynthesisQMF low_band high_band = concat (map (\<lambda>i. [low_band ! i, high_band ! i]) [0..<length low_band])"

text \<open>The states of the two-band filters are never used, so only their number is kept.\<close>

record splitting_filter =
  sf_bands :: nat
  two_bands_states :: nat
  three_band_filter_banks :: "three_band_bank list"

definition new_splitting_filter :: "nat \<Rightarrow> nat \<Rightarrow> splitting_filter option" where
  "new_splitting_filter channels bands = do {
     RTC_DCHECK (bands = 2 \<or> bands = 3);
     Some \<lparr>sf_bands = bands, two_bands_states = (if bands = 2 then channels else 0),
       three_band_filter_banks = replicate (if bands = 3 then channels else 0) new_three_band_bank\<rparr> }"

definition TwoBandsAnalysis :: "channel_buffer \<Rightarrow> splitting_filter \<times> channel_buffer \<Rightarrow> (splitting_filter \<times> channel_buffer) option" where
  "TwoBandsAnalysis data = (\<lambda>(sf, bands). do {
     RTC_DCHECK (two_bands_states sf = cb_channels data);
     RTC_DCHECK (cb_frames data = kTwoBandFilterSamplesPerFrame);
     bands \<leftarrow> loop_option (\<lambda>i bands. let (low, high) = AnalysisQMF (read_band data i 0)
       in Some (write_band i 1 high (write_band i 0 low bands))) [0..<two_bands_states sf] bands;
     Some (sf, bands) })"

definition TwoBandsSynthesis :: "channel_buffer \<Rightarrow> splitting_filter \<times> channel_buffer \<Rightarrow> (splitting_filter \<times> channel_buffer) option" where
  "TwoBandsSynthesis bands = (\<lambda>(sf, data). do {
     RTC_DCHECK (cb_channels data \<le> two_bands_states sf);
     RTC_DCHECK (cb_frames data = kTwoBandFilterSamplesPerFrame);
     data \<leftarrow> loop_option (\<lambda>i data. Some (write_band i 0 (SynthesisQMF (read_band bands i 0) (read_band bands i 1)) data))
       [0..<cb_channels data] data;
     Some (sf, data) })"

definition ThreeBandsAnalysis :: "channel_buffer \<Rightarrow> splitting_filter \<times> channel_buffer \<Rightarrow> (splitting_filter \<times> channel_buffer) option" where
  "ThreeBandsAnalysis data = (\<lambda>(sf, bands). do {
     RTC_DCHECK (length (three_band_filter_banks sf) = cb_channels data);
     RTC_DCHECK (cb_channels data \<le> length (three_band_filter_banks sf));
     RTC_DCHECK (cb_channels data \<le> cb_channels bands);
     RTC_DCHECK (cb_frames data = kFullBandSize);
     RTC_DCHECK (cb_frames bands = kFullBandSize);
     RTC_DCHECK (cb_bands bands = kThreeBands);
     RTC_DCHECK (frames_per_band bands = kThreeBandSize);
     loop_option (\<lambda>i (sf, bands). do {
       (bank, out) \<leftarrow> ThreeBand_Analysis (read_band data i 0) (three_band_filter_banks sf ! i);
       Some (sf\<lparr>three_band_filter_banks := (three_band_filter_banks sf)[i := bank]\<rparr>,
         fold (\<lambda>band. write_band i band (out ! band)) [0..<kThreeBands] bands) }) [0..<length (three_band_filter_banks sf)] (sf, bands) })"

definition ThreeBandsSynthesis :: "channel_buffer \<Rightarrow> splitting_filter \<times> channel_buffer \<Rightarrow> (splitting_filter \<times> channel_buffer) option" where
  "ThreeBandsSynthesis bands = (\<lambda>(sf, data). do {
     RTC_DCHECK (cb_channels data \<le> length (three_band_filter_banks sf));
     RTC_DCHECK (cb_channels data \<le> cb_channels bands);
     RTC_DCHECK (cb_channels data \<le> length (three_band_filter_banks sf));
     RTC_DCHECK (cb_frames data = kFullBandSize);
     RTC_DCHECK (cb_frames bands = kFullBandSize);
     RTC_DCHECK (cb_bands bands = kThreeBands);
     RTC_DCHECK (frames_per_band bands = kThreeBandSize);
     loop_option (\<lambda>i (sf, data). do {
       (bank, out) \<leftarrow> ThreeBand_Synthesis (map (read_band bands i) [0..<kThreeBands]) (three_band_filter_banks sf ! i);
       Some (sf\<lparr>three_band_filter_banks := (three_band_filter_banks sf)[i := bank]\<rparr>, write_band i 0 out data) }) [0..<cb_channels data] (sf, data) })"

definition Splitting_Analysis :: "channel_buffer \<Rightarrow> splitting_filter \<times> channel_buffer \<Rightarrow> (splitting_filter \<times> channel_buffer) option" where
  "Splitting_Analysis data = (\<lambda>(sf, bands). do {
     RTC_DCHECK (sf_bands sf = cb_bands bands);
     RTC_DCHECK (cb_channels data = cb_channels bands);
     RTC_DCHECK (cb_frames data = frames_per_band bands * cb_bands bands);
     if cb_bands bands = 2 then TwoBandsAnalysis data (sf, bands)
     else if cb_bands bands = 3 then ThreeBandsAnalysis data (sf, bands) else Some (sf, bands) })"

definition Splitting_Synthesis :: "channel_buffer \<Rightarrow> splitting_filter \<times> channel_buffer \<Rightarrow> (splitting_filter \<times> channel_buffer) option" where
  "Splitting_Synthesis bands = (\<lambda>(sf, data). do {
     RTC_DCHECK (sf_bands sf = cb_bands bands);
     RTC_DCHECK (cb_channels data = cb_channels bands);
     RTC_DCHECK (cb_frames data = frames_per_band bands * cb_bands bands);
     if cb_bands bands = 2 then TwoBandsSynthesis bands (sf, data)
     else if cb_bands bands = 3 then ThreeBandsSynthesis bands (sf, data) else Some (sf, data) })"

section \<open>The filters on a stream\<close>

text \<open>
  A stage keeps as much of the past as it needs: when its state fits the first \<open>t\<close> frames of a
  stream, a step on the next frame gives what the stream has there, and the new state fits again.
\<close>

locale positioned_stage =
  fixes step :: "'s \<Rightarrow> 'i \<Rightarrow> ('s \<times> 'o) option"
    and fits :: "'i list \<Rightarrow> nat \<Rightarrow> 's \<Rightarrow> bool"
    and value_at :: "'i list \<Rightarrow> nat \<Rightarrow> 'o"
    and good :: "'i \<Rightarrow> bool"
  assumes stage: "list_all good frames \<Longrightarrow> t < length frames \<Longrightarrow> fits frames t s \<Longrightarrow>
    \<exists>s'. step s (frames ! t) = Some (s', value_at frames t) \<and> fits frames (Suc t) s'"
begin

lemma run_from:
  assumes "list_all good frames" "fits frames t s" "t \<le> length frames"
  shows "\<exists>s'. run_steps step s (drop t frames) = Some (s', map (value_at frames) [t..<length frames]) \<and> fits frames (length frames) s'"
  using assms(2,3)
proof (induction "length frames - t" arbitrary: t s)
  case (Suc n)
  then have t: "t < length frames" by simp
  obtain s1 where s1: "step s (frames ! t) = Some (s1, value_at frames t)" "fits frames (Suc t) s1" using stage[OF assms(1) t Suc.prems(1)] by blast
  have "n = length frames - Suc t" "Suc t \<le> length frames" using Suc.hyps(2) t by simp_all
  from Suc.hyps(1)[OF this(1) s1(2) this(2)] obtain s' where
    s': "run_steps step s1 (drop (Suc t) frames) = Some (s', map (value_at frames) [Suc t..<length frames])" "fits frames (length frames) s'" by blast
  have d: "drop t frames = frames ! t # drop (Suc t) frames" using t by (simp add: Cons_nth_drop_Suc)
  show ?case using s' s1(1) t unfolding d by (simp add: upt_conv_Cons)
qed simp

lemma run_all: "list_all good frames \<Longrightarrow> fits frames 0 s \<Longrightarrow>
    \<exists>s'. run_steps step s frames = Some (s', map (value_at frames) [0..<length frames]) \<and> fits frames (length frames) s'"
  using run_from[of frames 0 s] by simp

end

lemma bank_sizes: "kThreeBands = 3" "kThreeBandSize = 160" "kStride = 4" "kFilterSize = 4" "kMemorySize = 15"
  "2 ^ kStrideLog2 = (4::nat)" "(4::nat) * 4 = 16" "(160::nat) - 15 = 145" "kNumNonZeroFilters = 10" "kSubSampling = 3" "kFullBandSize = 480"
  "(3::nat) - 1 = 2" "(4::nat) - 1 = 3"
  by (simp_all add: cval)

text \<open>The filter a table row stands for, on a signal over all of time.\<close>

definition fir :: "rat list \<Rightarrow> (int \<Rightarrow> rat) \<Rightarrow> int \<Rightarrow> rat" where
  "fir coeffs h m = multiply_add coeffs (\<lambda>i. h (m - 4 * int i)) [0..<4] 0"

lemma upt_join: "i \<le> j \<Longrightarrow> j \<le> k \<Longrightarrow> [i..<j] @ [j..<k] = [i..<k]"
  using upt_add_eq_append[of i j "k - j"] by simp

lemma multiply_add_cong: "(\<And>i. i \<in> set is \<Longrightarrow> x i = y i) \<Longrightarrow> multiply_add coeffs x is out = multiply_add coeffs y is out"
  by (simp add: multiply_add_def cong: foldl_cong)

lemma multiply_add_append: "multiply_add coeffs x js (multiply_add coeffs x is out) = multiply_add coeffs x (is @ js) out"
  by (simp add: multiply_add_def)

text \<open>The three loops, the first two over the boundary to the past, are one filter.\<close>

lemma FilterCore_fir:
  assumes "in_shift \<le> 3" "length input = 160"
    and past: "\<And>j. j < 15 \<Longrightarrow> state ! j = h (int j - 15)"
    and now: "\<And>j. j < 160 \<Longrightarrow> input ! j = h (int j)"
  shows "FilterCore coeffs input in_shift state =
    Some (map (\<lambda>k. fir coeffs h (int k - int in_shift)) [0..<160], map (\<lambda>j. h (145 + int j)) [0..<15])"
proof -
  have 1: "multiply_add coeffs (\<lambda>i. state ! (15 + k - in_shift - i * 4)) [0..<4] 0 = fir coeffs h (int k - int in_shift)"
    if "k < in_shift" for k
    unfolding fir_def
  proof (rule multiply_add_cong)
    fix i assume "i \<in> set [0..<4]"
    then have "15 + k - in_shift - i * 4 < 15" "int (15 + k - in_shift - i * 4) = 15 + int k - int in_shift - int i * 4" using that assms(1) by auto
    then show "state ! (15 + k - in_shift - i * 4) = h (int k - int in_shift - 4 * int i)" using past by (simp add: algebra_simps)
  qed
  have 2: "multiply_add coeffs (\<lambda>i. state ! (15 + (k - in_shift) - i * 4)) [min 4 (1 + (k - in_shift) div 4)..<4]
      (multiply_add coeffs (\<lambda>i. input ! ((k - in_shift) - i * 4)) [0..<min 4 (1 + (k - in_shift) div 4)] 0) = fir coeffs h (int k - int in_shift)"
    if k: "in_shift \<le> k" "k < 16" for k
  proof -
    define l where "l = min 4 (1 + (k - in_shift) div 4)"
    have a: "multiply_add coeffs (\<lambda>i. input ! ((k - in_shift) - i * 4)) [0..<l] 0 = multiply_add coeffs (\<lambda>i. h (int k - int in_shift - 4 * int i)) [0..<l] 0"
    proof (rule multiply_add_cong)
      fix i assume "i \<in> set [0..<l]"
      then have "i < 1 + (k - in_shift) div 4" by (simp only: l_def set_upt atLeastLessThan_iff min_less_iff_conj)
      then have "i \<le> (k - in_shift) div 4" by simp
      then have "i * 4 \<le> k - in_shift" by (simp add: mult.commute less_eq_div_iff_mult_less_eq)
      then have "(k - in_shift) - i * 4 < 160" "int ((k - in_shift) - i * 4) = int k - int in_shift - 4 * int i" using k by auto
      then show "input ! ((k - in_shift) - i * 4) = h (int k - int in_shift - 4 * int i)" using now by simp
    qed
    have b: "multiply_add coeffs (\<lambda>i. state ! (15 + (k - in_shift) - i * 4)) [l..<4] out = multiply_add coeffs (\<lambda>i. h (int k - int in_shift - 4 * int i)) [l..<4] out" for out
    proof (rule multiply_add_cong)
      fix i assume i: "i \<in> set [l..<4]"
      then have "(k - in_shift) div 4 < i" by (auto simp: l_def min_def split: if_splits)
      then have "k - in_shift < i * 4" by (simp add: div_less_iff_less_mult)
      then have "15 + (k - in_shift) - i * 4 < 15" "int (15 + (k - in_shift) - i * 4) - 15 = int k - int in_shift - 4 * int i" using k i by auto
      then show "state ! (15 + (k - in_shift) - i * 4) = h (int k - int in_shift - 4 * int i)" using past by metis
    qed
    have l: "[0..<l] @ [l..<4] = [0..<4]" by (rule upt_join) (simp_all add: l_def)
    show ?thesis unfolding l_def[symmetric] a b multiply_add_append l fir_def ..
  qed
  have 3: "multiply_add coeffs (\<lambda>i. input ! (k - in_shift - i * 4)) [0..<4] 0 = fir coeffs h (int k - int in_shift)"
    if "16 \<le> k" "k < 160" for k
    unfolding fir_def
  proof (rule multiply_add_cong)
    fix i assume "i \<in> set [0..<4]"
    then have "k - in_shift - i * 4 < 160" "int (k - in_shift - i * 4) = int k - int in_shift - 4 * int i" using that assms(1) by auto
    then show "input ! (k - in_shift - i * 4) = h (int k - int in_shift - 4 * int i)" using now by simp
  qed
  have u: "[0..<in_shift] @ [in_shift..<16] @ [16..<160] = [0..<160]"
  proof -
    have "[in_shift..<16] @ [16..<160] = [in_shift..<160]" "[0..<in_shift] @ [in_shift..<160] = [0..<160]"
      by (rule upt_join; use assms(1) in simp)+
    then show ?thesis by (simp only:)
  qed
  have d: "drop 145 input = map (\<lambda>j. h (145 + int j)) [0..<15]"
    by (rule nth_equalityI) (simp_all add: assms(2) now)
  let ?fir = "\<lambda>k. fir coeffs h (int k - int in_shift)"
  have "map (\<lambda>k. multiply_add coeffs (\<lambda>i. state ! (15 + k - in_shift - i * 4)) [0..<4] 0) [0..<in_shift] = map ?fir [0..<in_shift]"
    using 1 by (intro map_cong) simp_all
  moreover have "map (\<lambda>k. multiply_add coeffs (\<lambda>i. state ! (15 + (k - in_shift) - i * 4)) [min 4 (1 + (k - in_shift) div 4)..<4]
      (multiply_add coeffs (\<lambda>i. input ! ((k - in_shift) - i * 4)) [0..<min 4 (1 + (k - in_shift) div 4)] 0)) [in_shift..<16] = map ?fir [in_shift..<16]"
    using 2 by (intro map_cong refl) (simp only: set_upt atLeastLessThan_iff)
  moreover have "map (\<lambda>k. multiply_add coeffs (\<lambda>i. input ! (k - in_shift - i * 4)) [0..<4] 0) [16..<160] = map ?fir [16..<160]"
    using 3 by (intro map_cong refl) (simp only: set_upt atLeastLessThan_iff)
  moreover have "RTC_DCHECK (in_shift \<le> 3) = Some ()" using assms(1) by (simp add: RTC_DCHECK_def)
  ultimately show ?thesis
    by (simp only: FilterCore_def bank_sizes Let_def bind.bind_lunit map_append[symmetric] u d)
qed

section \<open>The loop over the filters\<close>

lemma filter_order_list:
  "filter_order = [(0,0),(0,1),(0,2),(0,3),(1,0),(1,1),(1,2),(1,3),(2,0),(2,1),(2,2),(2,3)]"
  by code_simp

lemma filter_order_facts:
  assumes "ds \<in> set filter_order"
  shows "fst ds < 3" "snd ds \<le> 3" "filter_index ds = Some f \<Longrightarrow> f < 10"
proof -
  have "list_all (\<lambda>ds. fst ds < 3 \<and> snd ds \<le> 3 \<and> (case filter_index ds of None \<Rightarrow> True | Some f \<Rightarrow> f < 10)) filter_order"
    by (simp add: filter_order_list filter_index_def bank_sizes cval)
  then have "fst ds < 3 \<and> snd ds \<le> 3 \<and> (case filter_index ds of None \<Rightarrow> True | Some f \<Rightarrow> f < 10)" using assms unfolding list_all_iff by (rule bspec)
  then show "fst ds < 3" "snd ds \<le> 3" "filter_index ds = Some f \<Longrightarrow> f < 10" by simp_all
qed

lemma filter_index_inj:
  assumes "ds \<in> set filter_order" "ds' \<in> set filter_order" "filter_index ds = Some f" "filter_index ds' = Some f"
  shows "ds = ds'"
proof -
  have "list_all (\<lambda>ds. list_all (\<lambda>ds'. filter_index ds \<noteq> None \<and> filter_index ds = filter_index ds' \<longrightarrow> ds = ds') filter_order) filter_order"
    by (simp add: filter_order_list filter_index_def bank_sizes cval)
  then have "filter_index ds \<noteq> None \<and> filter_index ds = filter_index ds' \<longrightarrow> ds = ds'" using assms(1,2) unfolding list_all_iff by blast
  then show ?thesis using assms(3,4) by simp
qed

lemma distinct_filter_order: "distinct filter_order"
  by (simp add: filter_order_list)

text \<open>The states after some of the filters, and what the filters add to the output.\<close>

definition states_after :: "(nat \<Rightarrow> rat list) \<Rightarrow> (nat \<Rightarrow> rat list) \<Rightarrow> (nat \<times> nat) list \<Rightarrow> rat list list" where
  "states_after old new done = map (\<lambda>f. if Some f \<in> filter_index ` set done then new f else old f) [0..<10]"

definition on_filter :: "(nat \<Rightarrow> 'o \<Rightarrow> 'o) \<Rightarrow> nat \<times> nat \<Rightarrow> 'o \<Rightarrow> 'o" where
  "on_filter add ds out = (case filter_index ds of None \<Rightarrow> out | Some f \<Rightarrow> add f out)"

lemma filter_loop:
  assumes "set done \<subseteq> set filter_order" "distinct done" "I out0"
    and skip: "\<And>ds states out. filter_index ds = None \<Longrightarrow> body ds (states, out) = Some (states, out)"
    and step: "\<And>ds f states out. ds \<in> set filter_order \<Longrightarrow> filter_index ds = Some f \<Longrightarrow> states ! f = old f \<Longrightarrow> I out \<Longrightarrow>
      body ds (states, out) = Some (states[f := new f], add ds f out) \<and> I (add ds f out)"
  shows "loop_option body done (states_after old new [], out0) = Some (states_after old new done, fold (\<lambda>ds. on_filter (add ds) ds) done out0) \<and>
    I (fold (\<lambda>ds. on_filter (add ds) ds) done out0)"
  using assms(1,2)
proof (induction "done" rule: rev_induct)
  case (snoc ds "done")
  define out where "out = fold (\<lambda>ds. on_filter (add ds) ds) done out0"
  have ih: "loop_option body done (states_after old new [], out0) = Some (states_after old new done, out)" "I out"
    using snoc unfolding out_def by simp_all
  show ?case
  proof (cases "filter_index ds")
    case None
    have "states_after old new (done @ [ds]) = states_after old new done"
      by (simp add: states_after_def None image_Un)
    then show ?thesis using ih None skip[OF None] by (simp add: loop_option_append on_filter_def[of _ ds] out_def[symmetric])
  next
    case (Some f)
    have ds: "ds \<in> set filter_order" "ds \<notin> set done" using snoc.prems by auto
    have f: "f < 10" by (rule filter_order_facts(3)[OF ds(1) Some])
    have "Some f \<notin> filter_index ` set done" using filter_index_inj[OF ds(1) _ Some] ds(2) snoc.prems(1) Some by (auto simp: image_iff)
    then have "states_after old new done ! f = old f" using f by (simp add: states_after_def del: upt_Suc)
    from step[OF ds(1) Some this ih(2)]
    have 1: "body ds (states_after old new done, out) = Some ((states_after old new done)[f := new f], add ds f out)" "I (add ds f out)" by simp_all
    have "(states_after old new done)[f := new f] = states_after old new (done @ [ds])"
      using f by (intro nth_equalityI) (auto simp: states_after_def nth_list_update Some simp del: upt_Suc)
    then show ?thesis using ih 1 Some by (simp add: loop_option_append on_filter_def[of _ ds] out_def[symmetric])
  qed
qed (simp add: assms(3))

text \<open>All filters are met, so afterwards the states are new.\<close>

lemma states_after_all: "states_after old new filter_order = map new [0..<10]"
proof -
  have "list_all (\<lambda>f. list_ex (\<lambda>ds. filter_index ds = Some f) filter_order) [0..<10]"
    by code_simp
  then have "Some f \<in> filter_index ` set filter_order" if "f < 10" for f
    using that unfolding list_all_iff list_ex_iff set_upt by (metis atLeastLessThan_iff image_eqI le0)
  then show ?thesis unfolding states_after_def by (intro map_cong refl) simp
qed

lemma states_after_none: "length states = 10 \<Longrightarrow> states_after (\<lambda>f. states ! f) new [] = states"
  by (rule nth_equalityI) (simp_all add: states_after_def del: upt_Suc)

end
