(* ===== verification/Band_Stream.thy ===== *)
theory Band_Stream
  imports Band_Split
begin

text \<open>
  The three-band split and merge over a whole stream. The states the filters keep between two frames
  are exactly the past they need, so working frame by frame gives what one fixed filter gives on the
  stream without its cuts. Both directions are stages of the locale \<^verbatim>\<open>positioned_stage\<close>.
\<close>

section \<open>The analysis of a stream\<close>

text \<open>A stream of frames as a signal over all of time, silent before its start.\<close>

definition frame_sample :: "nat \<Rightarrow> rat list list \<Rightarrow> int \<Rightarrow> rat" where
  "frame_sample len frames j = (if j < 0 then 0 else frames ! nat (j div int len) ! nat (j mod int len))"

lemma frame_sample_at: "j < len \<Longrightarrow> frame_sample len frames (int len * int t + int j) = frames ! t ! j"
proof -
  assume j: "j < len"
  then have "int len * int t + int j = int (len * t + j)" "(len * t + j) div len = t" "(len * t + j) mod len = j" by simp_all
  then have "(int len * int t + int j) div int len = int t" "(int len * int t + int j) mod int len = int j"
    by (simp_all only: zdiv_int[symmetric] zmod_int[symmetric])
  moreover have "\<not> int len * int t + int j < 0" by (simp add: not_less)
  ultimately show ?thesis by (simp add: frame_sample_def)
qed

text \<open>A third of the samples, from the place \<open>d\<close> backward.\<close>

definition branch :: "rat list list \<Rightarrow> nat \<Rightarrow> int \<Rightarrow> rat" where
  "branch frames d m = frame_sample 480 frames (3 * m + 2 - int d)"

definition band_sample :: "rat list list \<Rightarrow> nat \<Rightarrow> int \<Rightarrow> rat" where
  "band_sample frames band n = fold (\<lambda>ds. on_filter (\<lambda>f sum.
     f32 (sum + f32 (kDctModulation ! f ! band * fir (kFilterCoeffs ! f) (branch frames (fst ds)) (n - int (snd ds))))) ds) filter_order 0"

definition bands_at :: "rat list list \<Rightarrow> nat \<Rightarrow> rat list list" where
  "bands_at frames t = map (\<lambda>band. map (\<lambda>k. band_sample frames band (160 * int t + int k)) [0..<160]) [0..<3]"

text \<open>Which third a filter works on.\<close>

definition filter_sampling :: "nat \<Rightarrow> nat" where
  "filter_sampling f = [0, 1, 2, 1, 2, 0, 1, 2, 1, 2] ! f"

lemma filter_sampling_index: "ds \<in> set filter_order \<Longrightarrow> filter_index ds = Some f \<Longrightarrow> filter_sampling f = fst ds"
proof -
  have "list_all (\<lambda>ds. case filter_index ds of None \<Rightarrow> True | Some f \<Rightarrow> filter_sampling f = fst ds) filter_order" by code_simp
  then show "ds \<in> set filter_order \<Longrightarrow> filter_index ds = Some f \<Longrightarrow> filter_sampling f = fst ds" by (auto simp: list_all_iff split: option.splits)
qed

definition analysis_past :: "rat list list \<Rightarrow> nat \<Rightarrow> nat \<Rightarrow> rat list" where
  "analysis_past frames t f = map (\<lambda>j. branch frames (filter_sampling f) (160 * int t + int j - 15)) [0..<15]"

definition analysis_fits :: "rat list list \<Rightarrow> nat \<Rightarrow> three_band_bank \<Rightarrow> bool" where
  "analysis_fits frames t bank \<longleftrightarrow> state_analysis bank = map (analysis_past frames t) [0..<10]"

definition add_bands :: "rat list \<Rightarrow> nat \<Rightarrow> rat list list \<Rightarrow> rat list list" where
  "add_bands sub f out = map (\<lambda>band. map (\<lambda>n. f32 (out ! band ! n + f32 (kDctModulation ! f ! band * sub ! n))) [0..<160]) [0..<3]"

lemma add_bands_nth:
  assumes "band < 3" "n < 160"
  shows "fold (\<lambda>ds. on_filter (\<lambda>f. add_bands (sub ds f) f) ds) L out ! band ! n =
    fold (\<lambda>ds. on_filter (\<lambda>f sum. f32 (sum + f32 (kDctModulation ! f ! band * sub ds f ! n))) ds) L (out ! band ! n)"
  using assms by (induction L arbitrary: out) (simp_all add: on_filter_def add_bands_def split: option.splits del: upt_Suc)

definition band_shape :: "rat list list \<Rightarrow> bool" where
  "band_shape out \<longleftrightarrow> length out = 3 \<and> (\<forall>band<3. length (out ! band) = 160)"

lemma branch_now:
  assumes "d < 3" "j < 160"
  shows "frames ! t ! (2 - d + 3 * j) = branch frames d (160 * int t + int j)"
proof -
  have "2 - d + 3 * j < 480" "3 * (160 * int t + int j) + 2 - int d = int 480 * int t + int (2 - d + 3 * j)" using assms by auto
  then show ?thesis unfolding branch_def by (metis frame_sample_at of_nat_numeral)
qed

lemma analysis_step_at:
  assumes "ds \<in> set filter_order" "filter_index ds = Some f" "states ! f = analysis_past frames t f"
  shows "analysis_step (frames ! t) ds (states, out) =
    Some (states[f := analysis_past frames (Suc t) f],
      add_bands (map (\<lambda>k. fir (kFilterCoeffs ! f) (branch frames (fst ds)) (160 * int t + int k - int (snd ds))) [0..<160]) f out)"
proof -
  let ?h = "\<lambda>j. branch frames (fst ds) (160 * int t + j)"
  note ds = filter_order_facts[OF assms(1)] and d = filter_sampling_index[OF assms(1,2)]
  have fir: "fir c ?h m = fir c (branch frames (fst ds)) (160 * int t + m)" for c m
    unfolding fir_def by (rule multiply_add_cong) (simp add: algebra_simps)
  have "FilterCore (kFilterCoeffs ! f) (map (\<lambda>k. frames ! t ! (2 - fst ds + 3 * k)) [0..<160]) (snd ds) (states ! f) =
    Some (map (\<lambda>k. fir (kFilterCoeffs ! f) ?h (int k - int (snd ds))) [0..<160], map (\<lambda>j. ?h (145 + int j)) [0..<15])"
    using ds(1,2) branch_now[OF ds(1)] by (intro FilterCore_fir) (simp_all add: assms(3) analysis_past_def d add_diff_eq del: upt_Suc Suc_eq_plus1 add_2_eq_Suc)
  moreover have "map (\<lambda>j. ?h (145 + int j)) [0..<15] = analysis_past frames (Suc t) f"
    unfolding analysis_past_def d by (intro map_cong refl) (simp add: algebra_simps)
  ultimately show ?thesis
    by (simp add: analysis_step_def assms(2) bank_sizes add_bands_def fir add_diff_eq del: upt_Suc)
qed

interpretation three_band_analysis: positioned_stage "\<lambda>bank frame. ThreeBand_Analysis frame bank" analysis_fits bands_at "\<lambda>frame. length frame = 480"
proof (unfold_locales, goal_cases)
  case (1 frames t bank)
  let ?new = "analysis_past frames (Suc t)" and ?old = "analysis_past frames t"
  let ?sub = "\<lambda>ds f. map (\<lambda>k. fir (kFilterCoeffs ! f) (branch frames (fst ds)) (160 * int t + int k - int (snd ds))) [0..<160]"
  define out where "out = fold (\<lambda>ds. on_filter (\<lambda>f. add_bands (?sub ds f) f) ds) filter_order (replicate 3 (replicate 160 0))"
  have "length (state_analysis bank) = 10" using 1(3) by (simp add: analysis_fits_def)
  have st: "state_analysis bank = states_after ?old ?new []" using 1(3) by (simp add: analysis_fits_def states_after_def)
  have "loop_option (analysis_step (frames ! t)) filter_order (states_after ?old ?new [], replicate 3 (replicate 160 0)) =
    Some (states_after ?old ?new filter_order, out) \<and> band_shape out"
    unfolding out_def
  proof (rule filter_loop[where I = band_shape])
    fix ds f states and o' :: "rat list list"
    assume "ds \<in> set filter_order" "filter_index ds = Some f" "states ! f = ?old f" "band_shape o'"
    then show "analysis_step (frames ! t) ds (states, o') = Some (states[f := ?new f], add_bands (?sub ds f) f o') \<and> band_shape (add_bands (?sub ds f) f o')"
      using analysis_step_at by (simp add: band_shape_def add_bands_def del: upt_Suc)
  qed (simp_all add: distinct_filter_order band_shape_def analysis_step_def)
  moreover have "out = bands_at frames t" if "band_shape out"
  proof (rule nth_equalityI)
    fix band assume "band < length out"
    then have b: "band < 3" using that by (simp add: band_shape_def)
    show "out ! band = bands_at frames t ! band"
    proof (rule nth_equalityI)
      fix n assume "n < length (out ! band)"
      then have n: "n < 160" using that b by (simp add: band_shape_def)
      show "out ! band ! n = bands_at frames t ! band ! n"
        unfolding out_def add_bands_nth[OF b n] using b n
        by (simp add: bands_at_def band_sample_def del: upt_Suc)
    qed (use that b in \<open>simp add: band_shape_def bands_at_def\<close>)
  qed (use that in \<open>simp add: band_shape_def bands_at_def\<close>)
  ultimately show ?case
    by (auto simp: ThreeBand_Analysis_def bank_sizes st states_after_all analysis_fits_def simp del: upt_Suc)
qed

lemma new_bank_fits: "analysis_fits frames 0 new_three_band_bank"
proof -
  have "analysis_past frames 0 = (\<lambda>f. replicate 15 0)"
    by (intro ext nth_equalityI) (simp_all add: analysis_past_def branch_def frame_sample_def del: upt_Suc)
  then show ?thesis by (simp add: analysis_fits_def new_three_band_bank_def bank_sizes map_replicate_const del: upt_Suc)
qed

text \<open>
  C8: Splitting a stream into bands frame by frame, with the ten saved states, is one fixed filter
  on the whole stream: every sample of a band is the modulated sum of the ten filters at its place.
\<close>
theorem three_band_split_stream:
  assumes "list_all (\<lambda>frame. length frame = 480) frames"
  shows "\<exists>bank. run_steps (\<lambda>bank frame. ThreeBand_Analysis frame bank) new_three_band_bank frames = Some (bank,
    map (\<lambda>t. map (\<lambda>band. map (\<lambda>k. band_sample frames band (160 * int t + int k)) [0..<160]) [0..<3]) [0..<length frames])"
  using three_band_analysis.run_all[OF assms new_bank_fits] unfolding bands_at_def by blast

theorem three_band_split_stream_witness:
  "\<exists>bank. run_steps (\<lambda>bank frame. ThreeBand_Analysis frame bank) new_three_band_bank [replicate 480 1000, replicate 480 (-7)] = Some (bank,
    map (\<lambda>t. map (\<lambda>band. map (\<lambda>k. band_sample [replicate 480 1000, replicate 480 (-7)] band (160 * int t + int k)) [0..<160]) [0..<3]) [0..<2])"
proof -
  have "list_all (\<lambda>frame. length frame = 480) [replicate 480 1000, replicate 480 (-7 :: rat)]"
    by (simp only: list.pred_inject length_replicate simp_thms)
  moreover have "length [x, y] = 2" for x y :: "rat list" by simp
  ultimately show ?thesis using three_band_split_stream[of "[replicate 480 1000, replicate 480 (-7)]"] by (simp only:)
qed

section \<open>The synthesis of a stream\<close>

definition modulated :: "rat list list list \<Rightarrow> nat \<Rightarrow> int \<Rightarrow> rat" where
  "modulated frames f m = (if m < 0 then 0 else
     foldl (\<lambda>sum band. f32 (sum + f32 (kDctModulation ! f ! band * frames ! nat (m div 160) ! band ! nat (m mod 160)))) 0 [0..<3])"

definition merged_sample :: "rat list list list \<Rightarrow> nat \<Rightarrow> int \<Rightarrow> rat" where
  "merged_sample frames u k = fold (\<lambda>us. on_filter (\<lambda>f sum. if fst us \<noteq> u then sum
     else f32 (sum + f32 (3 * fir (kFilterCoeffs ! f) (modulated frames f) (k - int (snd us))))) us) filter_order 0"

definition merged_at :: "rat list list list \<Rightarrow> nat \<Rightarrow> rat list" where
  "merged_at frames t = map (\<lambda>p. merged_sample frames (p mod 3) (160 * int t + int (p div 3))) [0..<480]"

definition synthesis_past :: "rat list list list \<Rightarrow> nat \<Rightarrow> nat \<Rightarrow> rat list" where
  "synthesis_past frames t f = map (\<lambda>j. modulated frames f (160 * int t + int j - 15)) [0..<15]"

definition synthesis_fits :: "rat list list list \<Rightarrow> nat \<Rightarrow> three_band_bank \<Rightarrow> bool" where
  "synthesis_fits frames t bank \<longleftrightarrow> state_synthesis bank = map (synthesis_past frames t) [0..<10]"

lemma upsample_add_nth:
  assumes "length out = 480" "u < 3"
  shows "length (upsample_add u sub out) = 480"
    "p < 480 \<Longrightarrow> upsample_add u sub out ! p = (if p mod 3 = u then f32 (out ! p + f32 (3 * sub ! (p div 3))) else out ! p)"
proof -
  let ?up = "\<lambda>out k. out[u + 3 * k := f32 (out ! (u + 3 * k) + f32 (3 * sub ! k))]"
  have up: "length (foldl ?up out [0..<n]) = 480 \<and> (p < 480 \<longrightarrow> foldl ?up out [0..<n] ! p =
      (if p mod 3 = u \<and> p div 3 < n then f32 (out ! p + f32 (3 * sub ! (p div 3))) else out ! p))" if "n \<le> 160" for n p
    using that
  proof (induction n arbitrary: p)
    case (Suc n)
    define o1 where "o1 = foldl ?up out [0..<n]"
    have ih: "length o1 = 480" "p < 480 \<longrightarrow> o1 ! p = (if p mod 3 = u \<and> p div 3 < n then f32 (out ! p + f32 (3 * sub ! (p div 3))) else out ! p)" for p
      using Suc.IH[of p] Suc.prems unfolding o1_def by simp_all
    have q: "u + 3 * n < 480" "(u + 3 * n) mod 3 = u" "(u + 3 * n) div 3 = n" using assms(2) Suc.prems by simp_all
    have new: "foldl ?up out [0..<Suc n] = ?up o1 n" by (simp add: o1_def)
    show ?case
    proof (cases "p = u + 3 * n")
      case True
      then show ?thesis unfolding new using ih(1) ih(2)[of "u + 3 * n"] q by simp
    next
      case False
      then have "\<not> (p mod 3 = u \<and> p div 3 = n)" by presburger
      then have "(p mod 3 = u \<and> p div 3 < Suc n) = (p mod 3 = u \<and> p div 3 < n)" by linarith
      then show ?thesis unfolding new using ih(1) ih(2)[of p] False by simp
    qed
  qed (simp add: assms(1))
  have d: "upsample_add u sub out = foldl ?up out [0..<160]" by (simp add: upsample_add_def bank_sizes)
  show "length (upsample_add u sub out) = 480" using up[of 160] by (simp add: d)
  assume p: "p < 480"
  then have "p div 3 < 160" by simp
  then show "upsample_add u sub out ! p = (if p mod 3 = u then f32 (out ! p + f32 (3 * sub ! (p div 3))) else out ! p)"
    using up[of 160 p] p by (simp only: d order_refl simp_thms)
qed

lemma upsample_fold_nth:
  assumes "length out = 480" "set L \<subseteq> set filter_order" "p < 480"
  shows "fold (\<lambda>us. on_filter (\<lambda>f. upsample_add (fst us) (sub us f)) us) L out ! p =
    fold (\<lambda>us. on_filter (\<lambda>f sum. if fst us \<noteq> p mod 3 then sum else f32 (sum + f32 (3 * sub us f ! (p div 3)))) us) L (out ! p)"
  using assms(1,2)
proof (induction L arbitrary: out)
  case (Cons us L)
  then have "fst us < 3" using filter_order_facts(1) by simp
  then show ?case using Cons upsample_add_nth[OF Cons.prems(1)] assms(3)
    by (cases "filter_index us") (simp_all add: on_filter_def[of _ us])
qed simp

lemma modulated_at: "j < 160 \<Longrightarrow> modulated frames f (160 * int t + int j) =
    foldl (\<lambda>sum band. f32 (sum + f32 (kDctModulation ! f ! band * frames ! t ! band ! j))) 0 [0..<3]"
proof -
  assume j: "j < 160"
  then have "(160 * int t + int j) div 160 = int t" "(160 * int t + int j) mod 160 = int j" by simp_all
  moreover have "\<not> 160 * int t + int j < 0" by simp
  ultimately show ?thesis by (simp add: modulated_def del: upt_rec_numeral)
qed

lemma synthesis_step_at:
  assumes "us \<in> set filter_order" "filter_index us = Some f" "states ! f = synthesis_past frames t f" "band_shape (frames ! t)"
  shows "synthesis_step (frames ! t) us (states, out) =
    Some (states[f := synthesis_past frames (Suc t) f],
      upsample_add (fst us) (map (\<lambda>k. fir (kFilterCoeffs ! f) (modulated frames f) (160 * int t + int k - int (snd us))) [0..<160]) out)"
proof -
  let ?h = "\<lambda>j. modulated frames f (160 * int t + j)"
  note us = filter_order_facts[OF assms(1)]
  have fir: "fir c ?h m = fir c (modulated frames f) (160 * int t + m)" for c m
    unfolding fir_def by (rule multiply_add_cong) (simp add: algebra_simps)
  have "FilterCore (kFilterCoeffs ! f) (modulate_bands (kDctModulation ! f) (frames ! t)) (snd us) (states ! f) =
    Some (map (\<lambda>k. fir (kFilterCoeffs ! f) ?h (int k - int (snd us))) [0..<160], map (\<lambda>j. ?h (145 + int j)) [0..<15])"
    using us(2) by (intro FilterCore_fir)
      (simp_all add: assms(3) synthesis_past_def add_diff_eq modulate_bands_def bank_sizes modulated_at del: upt_Suc upt_rec_numeral)
  moreover have "map (\<lambda>j. ?h (145 + int j)) [0..<15] = synthesis_past frames (Suc t) f"
    unfolding synthesis_past_def by (intro map_cong refl) (simp add: algebra_simps)
  moreover have "RTC_DCHECK (\<forall>band\<in>{0..<3}. length (frames ! t ! band) = 160) = Some ()"
    using assms(4) by (simp add: RTC_DCHECK_def band_shape_def)
  ultimately show ?thesis
    by (simp add: synthesis_step_def assms(2) bank_sizes fir add_diff_eq del: upt_Suc upt_rec_numeral)
qed

interpretation three_band_synthesis: positioned_stage "\<lambda>bank bands. ThreeBand_Synthesis bands bank" synthesis_fits merged_at band_shape
proof (unfold_locales, goal_cases)
  case (1 frames t bank)
  let ?new = "synthesis_past frames (Suc t)" and ?old = "synthesis_past frames t"
  let ?sub = "\<lambda>us f. map (\<lambda>k. fir (kFilterCoeffs ! f) (modulated frames f) (160 * int t + int k - int (snd us))) [0..<160]"
  have good: "band_shape (frames ! t)" using 1(1,2) by (simp add: list_all_length)
  define out where "out = fold (\<lambda>us. on_filter (\<lambda>f. upsample_add (fst us) (?sub us f)) us) filter_order (replicate 480 0)"
  have st: "state_synthesis bank = states_after ?old ?new []" using 1(3) by (simp add: synthesis_fits_def states_after_def)
  have "loop_option (synthesis_step (frames ! t)) filter_order (states_after ?old ?new [], replicate 480 0) =
    Some (states_after ?old ?new filter_order, out) \<and> length out = 480"
    unfolding out_def
  proof (rule filter_loop[where I = "\<lambda>out. length out = 480"])
    fix us f states and o' :: "rat list"
    assume a: "us \<in> set filter_order" "filter_index us = Some f" "states ! f = ?old f" "length o' = 480"
    show "synthesis_step (frames ! t) us (states, o') = Some (states[f := ?new f], upsample_add (fst us) (?sub us f) o') \<and>
        length (upsample_add (fst us) (?sub us f) o') = 480"
      using synthesis_step_at[OF a(1-3) good] upsample_add_nth(1)[OF a(4) filter_order_facts(1)[OF a(1)]] by blast
  qed (simp_all add: distinct_filter_order synthesis_step_def)
  moreover have "out = merged_at frames t" if "length out = 480"
  proof (rule nth_equalityI)
    fix p assume "p < length out"
    then have p: "p < 480" using that by simp
    then have "p div 3 < 160" by simp
    then have d: "map h [0..<160] ! (p div 3) = h (p div 3)" for h :: "nat \<Rightarrow> rat" by (simp del: upt_Suc)
    have "out ! p = merged_sample frames (p mod 3) (160 * int t + int (p div 3))"
      unfolding out_def upsample_fold_nth[OF length_replicate subset_refl p]
      by (simp only: d merged_sample_def nth_replicate[OF p])
    then show "out ! p = merged_at frames t ! p" using p by (simp add: merged_at_def del: upt_Suc)
  qed (use that in \<open>simp add: merged_at_def\<close>)
  ultimately show ?case
    by (auto simp: ThreeBand_Synthesis_def bank_sizes st states_after_all synthesis_fits_def simp del: upt_Suc)
qed

lemma new_bank_fits_synthesis: "synthesis_fits frames 0 new_three_band_bank"
proof -
  have "synthesis_past frames 0 = (\<lambda>f. replicate 15 0)"
    by (intro ext nth_equalityI) (simp_all add: synthesis_past_def modulated_def del: upt_Suc)
  then show ?thesis by (simp add: synthesis_fits_def new_three_band_bank_def bank_sizes map_replicate_const del: upt_Suc)
qed

lemma three_band_merge_stream:
  assumes "list_all band_shape frames"
  shows "\<exists>bank. run_steps (\<lambda>bank bands. ThreeBand_Synthesis bands bank) new_three_band_bank frames = Some (bank,
    map (merged_at frames) [0..<length frames])"
  using three_band_synthesis.run_all[OF assms new_bank_fits_synthesis] by blast

end
