(* ===== verification/Audio_Buffer.thy ===== *)
theory Audio_Buffer
  imports Band_Stream
begin

text \<open>
  The class \<^verbatim>\<open>AudioBuffer\<close> of \<^verbatim>\<open>crates/fswtch-apm-sys/cpp/modules/audio_processing/audio_buffer.cc\<close>,
  through which the C interfaces move 16-bit samples into channels of floats and back, with the
  resampler, the mixer and the stream configuration of \<^verbatim>\<open>shims/\<close>. A failed check, the use of a
  filter that was not made, and an access behind an array on the stack are \<^const>\<open>None\<close>.
\<close>

section \<open>Stream configuration, resampler, mixer\<close>

record stream_config =
  sc_sample_rate_hz :: int
  sc_num_channels :: nat
  sc_num_frames :: nat

definition GetFrameSize :: "int \<Rightarrow> int" where "GetFrameSize rate = cdivi rate 100"

definition new_stream_config :: "int \<Rightarrow> nat \<Rightarrow> stream_config" where
  "new_stream_config rate channels = \<lparr>sc_sample_rate_hz = rate, sc_num_channels = channels, sc_num_frames = nat (GetFrameSize rate)\<rparr>"

definition Resample :: "rat list \<Rightarrow> nat \<Rightarrow> nat \<Rightarrow> rat list" where
  "Resample source source_frames destination_frames =
     (let n = (if source_frames < destination_frames then source_frames else destination_frames)
      in map (\<lambda>i. source ! i) [0..<n] @ replicate (destination_frames - n) 0)"

definition Mix :: "nat \<Rightarrow> rat list \<Rightarrow> rat list \<Rightarrow> rat list" where
  "Mix num_output_channels channel0 channel1 =
     (if num_output_channels = 1 \<and> length channel0 = length channel1
      then map2 (\<lambda>x y. f32 (1 / 2 * f32 (x + y))) channel0 channel1 else channel0)"

section \<open>The buffer\<close>

datatype DownmixMethod = kAverageChannels | kUseFirstChannel | kAdaptive

definition kSamplesPer32kHzChannel :: nat where [cval]: "kSamplesPer32kHzChannel = 320"
definition kSamplesPer48kHzChannel :: nat where [cval]: "kSamplesPer48kHzChannel = 480"
definition kMaxSamplesPerChannel10ms :: nat where [cval]: "kMaxSamplesPerChannel10ms = 3840"

definition NumBandsFromFramesPerChannel :: "nat \<Rightarrow> nat" where
  "NumBandsFromFramesPerChannel num_frames =
     (if num_frames = kSamplesPer32kHzChannel then 2 else if num_frames = kSamplesPer48kHzChannel then 3 else 1)"

definition GetNumberOfInternalChannelsInBuffer :: "DownmixMethod \<Rightarrow> nat \<Rightarrow> nat \<Rightarrow> nat option" where
  "GetNumberOfInternalChannelsInBuffer method input_channels buffer_channels = do {
     RTC_DCHECK (buffer_channels \<le> input_channels);
     Some (if method = kAdaptive then input_channels else buffer_channels) }"

record apm_buffer =
  downmix_method :: DownmixMethod
  downmix_method_stereo :: DownmixMethod
  input_num_frames :: nat
  input_num_channels :: nat
  buffer_num_frames :: nat
  buffer_num_channels :: nat
  buffer_internal_num_channels :: nat
  output_num_frames :: nat
  buf_num_channels :: nat
  buf_num_bands :: nat
  num_split_frames :: nat
  buf_data :: channel_buffer
  split_data :: "channel_buffer option"
  splitter :: "splitting_filter option"
  downmix_by_averaging :: bool
  channel_for_downmixing :: nat

definition new_apm_buffer :: "nat \<Rightarrow> nat \<Rightarrow> nat \<Rightarrow> nat \<Rightarrow> nat \<Rightarrow> DownmixMethod \<Rightarrow> DownmixMethod \<Rightarrow> apm_buffer option" where
  "new_apm_buffer input_rate input_channels buffer_rate buffer_channels output_rate method method_stereo = do {
     let input_frames = input_rate div 100;
     let buffer_frames = buffer_rate div 100;
     let output_frames = output_rate div 100;
     internal \<leftarrow> GetNumberOfInternalChannelsInBuffer method input_channels buffer_channels;
     let bands = NumBandsFromFramesPerChannel buffer_frames;
     split_frames \<leftarrow> CheckedDivExact buffer_frames bands;
     let averaging = (method = kAverageChannels);
     RTC_DCHECK (input_frames > 0);
     RTC_DCHECK (buffer_frames > 0);
     RTC_DCHECK (output_frames > 0);
     RTC_DCHECK (input_channels > 0);
     RTC_DCHECK (buffer_channels > 0);
     RTC_DCHECK (buffer_channels \<le> input_channels);
     RTC_DCHECK (averaging \<or> input_channels > 0);
     RTC_DCHECK (internal > 0);
     RTC_DCHECK (internal \<le> input_channels);
     RTC_DCHECK (internal \<ge> buffer_channels);
     RTC_DCHECK (buffer_channels = 1 \<or> buffer_channels = input_channels);
     filter \<leftarrow> (if bands > 1 then map_option Some (new_splitting_filter internal bands) else Some None);
     Some \<lparr>downmix_method = method, downmix_method_stereo = method_stereo, input_num_frames = input_frames, input_num_channels = input_channels,
       buffer_num_frames = buffer_frames, buffer_num_channels = buffer_channels, buffer_internal_num_channels = internal,
       output_num_frames = output_frames, buf_num_channels = buffer_channels, buf_num_bands = bands, num_split_frames = split_frames,
       buf_data = new_channel_buffer buffer_frames internal 1,
       split_data = (if bands > 1 then Some (new_channel_buffer buffer_frames internal bands) else None),
       splitter = filter, downmix_by_averaging = averaging, channel_for_downmixing = 0\<rparr> }"

definition buf_set_num_channels :: "nat \<Rightarrow> apm_buffer \<Rightarrow> apm_buffer option" where
  "buf_set_num_channels channels b = do {
     RTC_DCHECK (buffer_num_channels b \<ge> channels);
     data \<leftarrow> cb_set_num_channels channels (buf_data b);
     split \<leftarrow> (case split_data b of None \<Rightarrow> Some None | Some s \<Rightarrow> map_option Some (cb_set_num_channels channels s));
     Some (b\<lparr>buf_num_channels := channels, buf_data := data, split_data := split\<rparr>) }"

definition RestoreNumChannels :: "apm_buffer \<Rightarrow> apm_buffer option" where
  "RestoreNumChannels b = do {
     data \<leftarrow> cb_set_num_channels (buffer_num_channels b) (buf_data b);
     split \<leftarrow> (case split_data b of None \<Rightarrow> Some None | Some s \<Rightarrow> map_option Some (cb_set_num_channels (buffer_num_channels b) s));
     Some (b\<lparr>buf_num_channels := buffer_num_channels b, buf_data := data, split_data := split\<rparr>) }"

definition buf_view :: "apm_buffer \<Rightarrow> signal_view" where
  "buf_view b = \<lparr>view_samples = buffer_num_frames b, view_channels = take (buf_num_channels b) (cb_data (buf_data b))\<rparr>"

text \<open>What a stage that works on the view leaves in the channels.\<close>

definition write_view_back :: "signal_view \<Rightarrow> apm_buffer \<Rightarrow> apm_buffer" where
  "write_view_back v b = b\<lparr>buf_data := (buf_data b)\<lparr>cb_data := view_channels v @ drop (length (view_channels v)) (cb_data (buf_data b))\<rparr>\<rparr>"

definition set_channel :: "nat \<Rightarrow> rat list \<Rightarrow> apm_buffer \<Rightarrow> apm_buffer" where
  "set_channel i xs b = b\<lparr>buf_data := write_band i 0 xs (buf_data b)\<rparr>"

definition channel_data :: "apm_buffer \<Rightarrow> nat \<Rightarrow> rat list" where "channel_data b i = cb_data (buf_data b) ! i"

definition mix_first_channels :: "apm_buffer \<Rightarrow> apm_buffer" where
  "mix_first_channels b = set_channel 0 (Mix (buffer_num_channels b) (channel_data b 0) (channel_data b 1)) b"

section \<open>From 16-bit samples\<close>

definition s16_channel :: "int list \<Rightarrow> apm_buffer \<Rightarrow> nat \<Rightarrow> rat list" where
  "s16_channel interleaved b i = map (\<lambda>x. f32 (of_int x)) (read_every (input_num_channels b) i (input_num_frames b) interleaved)"

definition s16_average :: "int list \<Rightarrow> nat \<Rightarrow> nat \<Rightarrow> rat" where
  "s16_average interleaved n j = f32 (of_int (cdivi (sum_list (take n (drop (j * n) interleaved))) (cast_i16 (int n))))"

text \<open>The array on the stack that the resampler reads from.\<close>

definition resampled :: "apm_buffer \<Rightarrow> rat list \<Rightarrow> rat list option" where
  "resampled b xs =
     (if input_num_frames b \<noteq> buffer_num_frames b
      then do { RTC_DCHECK (input_num_frames b \<le> kMaxSamplesPerChannel10ms); Some (Resample xs (input_num_frames b) (buffer_num_frames b)) }
      else Some xs)"

definition CopyFrom_s16 :: "int list \<Rightarrow> stream_config \<Rightarrow> apm_buffer \<Rightarrow> apm_buffer option" where
  "CopyFrom_s16 interleaved config b = do {
     RTC_DCHECK (sc_num_channels config = input_num_channels b);
     RTC_DCHECK (sc_num_frames config = input_num_frames b);
     b \<leftarrow> RestoreNumChannels b;
     let use_adaptive_downmixing = ((downmix_method b = kAdaptive \<or> downmix_method_stereo b = kAdaptive) \<and> input_num_channels b = 2);
     RTC_DCHECK (\<not> use_adaptive_downmixing \<or> buffer_internal_num_channels b = 2);
     if use_adaptive_downmixing then do {
       b \<leftarrow> loop_option (\<lambda>i b. do { xs \<leftarrow> resampled b (s16_channel interleaved b i); Some (set_channel i xs b) }) [0..<input_num_channels b] b;
       buf_set_num_channels (buffer_num_channels b) (mix_first_channels b) }
     else if buf_num_channels b = 1 then
       (if input_num_channels b = 1 then do {
          xs \<leftarrow> resampled b (map (\<lambda>x. f32 (of_int x)) (take (input_num_frames b) interleaved));
          Some (set_channel 0 xs b) }
        else do {
          downmixed \<leftarrow> (if downmix_by_averaging b
            then do { RTC_DCHECK (cast_i16 (int (input_num_channels b)) \<noteq> 0);
                      Some (map (s16_average interleaved (input_num_channels b)) [0..<input_num_frames b]) }
            else Some (s16_channel interleaved b (channel_for_downmixing b)));
          xs \<leftarrow> resampled b downmixed;
          Some (set_channel 0 xs b) })
     else loop_option (\<lambda>i b. do { xs \<leftarrow> resampled b (s16_channel interleaved b i); Some (set_channel i xs b) }) [0..<buf_num_channels b] b }"

section \<open>From floats\<close>

text \<open>The resampler writes into the channel, which is then converted in place.\<close>

definition float_channel :: "apm_buffer \<Rightarrow> rat list \<Rightarrow> rat list" where
  "float_channel b xs = FloatToFloatS16_array
     (if input_num_frames b \<noteq> buffer_num_frames b then Resample xs (input_num_frames b) (buffer_num_frames b) else take (buffer_num_frames b) xs)"

definition float_average :: "rat list list \<Rightarrow> nat \<Rightarrow> nat \<Rightarrow> rat" where
  "float_average stacked channels i =
     (let kOneByNumChannels = f32 (1 / of_nat channels)
      in f32 (foldl (\<lambda>value j. f32 (value + stacked ! j ! i)) (stacked ! 0 ! i) [1..<channels] * kOneByNumChannels))"

definition CopyFrom_float :: "rat list list \<Rightarrow> stream_config \<Rightarrow> apm_buffer \<Rightarrow> apm_buffer option" where
  "CopyFrom_float stacked config b = do {
     RTC_DCHECK (sc_num_frames config = input_num_frames b);
     RTC_DCHECK (sc_num_channels config = input_num_channels b);
     b \<leftarrow> RestoreNumChannels b;
     let use_adaptive_downmixing = ((downmix_method b = kAdaptive \<or> downmix_method_stereo b = kAdaptive) \<and> buffer_internal_num_channels b = 2);
     if use_adaptive_downmixing then do {
       let b = fold (\<lambda>i b. set_channel i (float_channel b (stacked ! i)) b) [0..<input_num_channels b] b;
       buf_set_num_channels (buffer_num_channels b) (mix_first_channels b) }
     else if input_num_channels b > 1 \<and> buf_num_channels b = 1 then do {
       RTC_DCHECK (kMaxSamplesPerChannel10ms \<ge> input_num_frames b);
       let downmixed_data = (if downmix_by_averaging b then map (float_average stacked (input_num_channels b)) [0..<input_num_frames b]
         else stacked ! channel_for_downmixing b);
       Some (set_channel 0 (float_channel b downmixed_data) b) }
     else Some (fold (\<lambda>i b. set_channel i (float_channel b (stacked ! i)) b) [0..<buf_num_channels b] b) }"

section \<open>To floats and to another buffer\<close>

definition copy_over :: "'a list \<Rightarrow> 'a list \<Rightarrow> 'a list" where "copy_over xs old = xs @ drop (length xs) old"

definition CopyTo_float :: "stream_config \<Rightarrow> rat list list \<Rightarrow> apm_buffer \<Rightarrow> (apm_buffer \<times> rat list list) option" where
  "CopyTo_float config stacked b = do {
     RTC_DCHECK (sc_num_frames config = output_num_frames b);
     let (b, stacked) =
       (if output_num_frames b \<noteq> buffer_num_frames b
        then fold (\<lambda>i (b, stacked). let b = set_channel i (FloatS16ToFloat_array (channel_data b i)) b
               in (b, stacked[i := copy_over (Resample (channel_data b i) (buffer_num_frames b) (output_num_frames b)) (stacked ! i)]))
             [0..<buf_num_channels b] (b, stacked)
        else fold (\<lambda>i (b, stacked). (b, stacked[i := copy_over (FloatS16ToFloat_array (channel_data b i)) (stacked ! i)])) [0..<buf_num_channels b] (b, stacked));
     let stacked = fold (\<lambda>i stacked. stacked[i := copy_over (take (output_num_frames b) (stacked ! 0)) (stacked ! i)])
       [buf_num_channels b..<sc_num_channels config] stacked;
     Some (b, stacked) }"

definition CopyTo_buffer :: "apm_buffer \<Rightarrow> apm_buffer \<Rightarrow> apm_buffer option" where
  "CopyTo_buffer other b = do {
     RTC_DCHECK (buffer_num_frames other = output_num_frames b);
     let other = fold (\<lambda>i other. set_channel i
         (if output_num_frames b \<noteq> buffer_num_frames b then Resample (channel_data b i) (buffer_num_frames b) (buffer_num_frames other)
          else take (buffer_num_frames b) (channel_data b i)) other) [0..<buf_num_channels b] other;
     Some (fold (\<lambda>i other. set_channel i (take (output_num_frames b) (channel_data other 0)) other)
       [buf_num_channels b..<buf_num_channels other] other) }"

section \<open>To 16-bit samples\<close>

definition CopyTo_s16 :: "stream_config \<Rightarrow> int list \<Rightarrow> apm_buffer \<Rightarrow> int list option" where
  "CopyTo_s16 config interleaved b = do {
     let channels = sc_num_channels config;
     RTC_DCHECK (channels = buf_num_channels b \<or> buf_num_channels b = 1);
     RTC_DCHECK (sc_num_frames config = output_num_frames b);
     let resampling_required = (buffer_num_frames b \<noteq> output_num_frames b);
     RTC_DCHECK (\<not> resampling_required \<or> output_num_frames b \<le> kMaxSamplesPerChannel10ms);
     let out = (\<lambda>i. FloatS16ToS16_array (if resampling_required then Resample (channel_data b i) (buffer_num_frames b) (output_num_frames b)
                                        else take (output_num_frames b) (channel_data b i)));
     if buf_num_channels b = 1 then
       Some (copy_over (if channels = 1 then out 0 else concat (map (replicate channels) (out 0))) interleaved)
     else (let interleaved = fold (\<lambda>i. write_every channels i (out i)) [0..<buf_num_channels b] interleaved
           in Some (fold (\<lambda>i interleaved. foldl (\<lambda>interleaved j. interleaved[i + j * channels := interleaved ! (buf_num_channels b + j * channels)])
                interleaved [0..<output_num_frames b]) [buf_num_channels b..<channels] interleaved)) }"

section \<open>Frequency bands\<close>

definition SplitIntoFrequencyBands :: "apm_buffer \<Rightarrow> apm_buffer option" where
  "SplitIntoFrequencyBands b = do {
     sf \<leftarrow> splitter b;
     bands \<leftarrow> split_data b;
     (sf, bands) \<leftarrow> Splitting_Analysis (buf_data b) (sf, bands);
     Some (b\<lparr>splitter := Some sf, split_data := Some bands\<rparr>) }"

definition MergeFrequencyBands :: "apm_buffer \<Rightarrow> apm_buffer option" where
  "MergeFrequencyBands b = do {
     sf \<leftarrow> splitter b;
     bands \<leftarrow> split_data b;
     (sf, data) \<leftarrow> Splitting_Synthesis bands (sf, buf_data b);
     Some (b\<lparr>splitter := Some sf, buf_data := data\<rparr>) }"

text \<open>The bands of a channel: the full band where the buffer has no split data.\<close>

definition split_source :: "apm_buffer \<Rightarrow> channel_buffer" where
  "split_source b = (case split_data b of None \<Rightarrow> buf_data b | Some s \<Rightarrow> s)"

definition buf_split_bands :: "apm_buffer \<Rightarrow> nat \<Rightarrow> rat list list option" where
  "buf_split_bands b channel = do {
     RTC_DCHECK (channel < cb_channels (split_source b));
     Some (map (read_band (split_source b) channel) [0..<cb_bands (split_source b)]) }"

definition ExportSplitChannelData :: "nat \<Rightarrow> apm_buffer \<Rightarrow> int list list option" where
  "ExportSplitChannelData channel b = do {
     bands \<leftarrow> buf_split_bands b channel;
     Some (map (\<lambda>k. FloatS16ToS16_array (take (num_split_frames b) (bands ! k))) [0..<buf_num_bands b]) }"

definition write_split_band :: "nat \<Rightarrow> nat \<Rightarrow> rat list \<Rightarrow> apm_buffer \<Rightarrow> apm_buffer" where
  "write_split_band channel band xs b =
     (case split_data b of None \<Rightarrow> b\<lparr>buf_data := write_band channel band xs (buf_data b)\<rparr>
      | Some s \<Rightarrow> b\<lparr>split_data := Some (write_band channel band xs s)\<rparr>)"

definition ImportSplitChannelData :: "nat \<Rightarrow> int list list \<Rightarrow> apm_buffer \<Rightarrow> apm_buffer option" where
  "ImportSplitChannelData channel split_band_data b = do {
     RTC_DCHECK (channel < cb_channels (split_source b));
     Some (fold (\<lambda>k. write_split_band channel k (map (\<lambda>x. f32 (of_int x)) (take (num_split_frames b) (split_band_data ! k)))) [0..<buf_num_bands b] b) }"

end
