(* ===== verification/High_Pass.thy ===== *)
theory High_Pass
  imports Audio_Buffer Aec_Canceller
begin

text \<open>
  The high pass filter in \<^verbatim>\<open>crates/fswtch-apm-sys/cpp/modules/audio_processing/\<close>:
  \<^verbatim>\<open>utility/cascaded_biquad_filter.cc\<close> and \<^verbatim>\<open>high_pass_filter.cc\<close>. A channel passes three recursive
  filters of second order, each with its last two inputs and outputs as its state.
\<close>

section \<open>\<^verbatim>\<open>CascadedBiQuadFilter\<close>\<close>

record biquad_coefficients =
  coeff_b :: "rat \<times> rat \<times> rat"
  coeff_a :: "rat \<times> rat"

record biquad =
  coefficients :: biquad_coefficients
  bq_x :: "rat \<times> rat"
  bq_y :: "rat \<times> rat"

definition new_biquad :: "biquad_coefficients \<Rightarrow> biquad" where
  "new_biquad c = \<lparr>coefficients = c, bq_x = (0, 0), bq_y = (0, 0)\<rparr>"

definition BiQuad_Reset :: "biquad \<Rightarrow> biquad" where
  "BiQuad_Reset q = q\<lparr>bq_x := (0, 0), bq_y := (0, 0)\<rparr>"

text \<open>The loop over the samples, with the state in local variables.\<close>

fun biquad_loop :: "biquad_coefficients \<Rightarrow> (rat \<times> rat) \<times> (rat \<times> rat) \<Rightarrow> rat list \<Rightarrow> ((rat \<times> rat) \<times> (rat \<times> rat)) \<times> rat list" where
  "biquad_loop c state [] = (state, [])"
| "biquad_loop c ((m_x_0, m_x_1), (m_y_0, m_y_1)) (tmp # x) =
     (let (c_b_0, c_b_1, c_b_2) = coeff_b c; (c_a_0, c_a_1) = coeff_a c;
          y = f32 (f32 (f32 (f32 (f32 (c_b_0 * tmp) + f32 (c_b_1 * m_x_0)) + f32 (c_b_2 * m_x_1)) - f32 (c_a_0 * m_y_0)) - f32 (c_a_1 * m_y_1));
          (state, ys) = biquad_loop c ((tmp, m_x_0), (y, m_y_0)) x
      in (state, y # ys))"

definition ApplyBiQuad :: "rat list \<Rightarrow> biquad \<Rightarrow> biquad \<times> rat list" where
  "ApplyBiQuad x q = (let ((sx, sy), y) = biquad_loop (coefficients q) (bq_x q, bq_y q) x in (q\<lparr>bq_x := sx, bq_y := sy\<rparr>, y))"

definition new_cascade :: "biquad_coefficients list \<Rightarrow> biquad list" where
  "new_cascade cs = map new_biquad cs"

text \<open>In place: the output of a filter is the input of the next.\<close>

primrec Cascade_Process :: "rat list \<Rightarrow> biquad list \<Rightarrow> biquad list \<times> rat list" where
  "Cascade_Process y [] = ([], y)"
| "Cascade_Process y (q # qs) = (let (q, y) = ApplyBiQuad y q; (qs, y) = Cascade_Process y qs in (q # qs, y))"

definition Cascade_Process_into :: "rat list \<Rightarrow> rat list \<Rightarrow> biquad list \<Rightarrow> (biquad list \<times> rat list) option" where
  "Cascade_Process_into x y qs =
     (case qs of [] \<Rightarrow> Some ([], x @ drop (length x) y)
      | q # qs \<Rightarrow> do {
          RTC_DCHECK (length x = length y);
          let (q, y) = ApplyBiQuad x q; (qs, y) = Cascade_Process y qs
          in Some (q # qs, y) })"

definition Cascade_Reset :: "biquad list \<Rightarrow> biquad list" where "Cascade_Reset qs = map BiQuad_Reset qs"

section \<open>\<^verbatim>\<open>HighPassFilter\<close>\<close>

definition float_coefficients :: "rat \<times> rat \<times> rat \<Rightarrow> rat \<times> rat \<Rightarrow> biquad_coefficients" where
  "float_coefficients = (\<lambda>(b0, b1, b2) (a0, a1). \<lparr>coeff_b = (f32 b0, f32 b1, f32 b2), coeff_a = (f32 a0, f32 a1)\<rparr>)"

definition kHighPassFilterCoefficients16kHz :: "biquad_coefficients list" where
  "kHighPassFilterCoefficients16kHz =
     [float_coefficients (8773539420715290582 / 10 ^ 19, - (1754683920749088077 / 10 ^ 18), 8773539420715289472 / 10 ^ 19)
        (- (1881687317862849707 / 10 ^ 18), 8880584644559580410 / 10 ^ 19),
      float_coefficients (1, - (1999810143464515022 / 10 ^ 18), 1) (- (1976035417167170793 / 10 ^ 18), 9779708644868606582 / 10 ^ 19),
      float_coefficients (1, - (1999669231394235469 / 10 ^ 18), 1) (- (1994265767864654482 / 10 ^ 18), 9954861594635392441 / 10 ^ 19)]"

definition kHighPassFilterCoefficients32kHz :: "biquad_coefficients list" where
  "kHighPassFilterCoefficients32kHz =
     [float_coefficients (9102055685511306615 / 10 ^ 19, - (1820404922871161624 / 10 ^ 18), 9102055685511306615 / 10 ^ 19)
        (- (1940710875829138482 / 10 ^ 18), 9423512845457852061 / 10 ^ 19),
      float_coefficients (1, - (1999952541587768806 / 10 ^ 18), 1) (- (1988434609801665420 / 10 ^ 18), 9889212529819323416 / 10 ^ 19),
      float_coefficients (1, - (1999917315632020021 / 10 ^ 18), 1) (- (1997434723613889629 / 10 ^ 18), 9977401885079651978 / 10 ^ 19)]"

definition kHighPassFilterCoefficients48kHz :: "biquad_coefficients list" where
  "kHighPassFilterCoefficients48kHz =
     [float_coefficients (9213790163564168 / 10 ^ 16, - (18427552370064049 / 10 ^ 16), 9213790163564168 / 10 ^ 16)
        (- (19604500061078971 / 10 ^ 16), 9611862979079667 / 10 ^ 16),
      float_coefficients (1, - (19999789078432082 / 10 ^ 16), 1) (- (19923834169149972 / 10 ^ 16), 9926001112941157 / 10 ^ 16),
      float_coefficients (1, - (19999632520325810 / 10 ^ 16), 1) (- (19983570340145236 / 10 ^ 16), 9984928491805198 / 10 ^ 16)]"

definition ChooseCoefficients :: "int \<Rightarrow> biquad_coefficients list option" where
  "ChooseCoefficients sample_rate_hz =
     (if sample_rate_hz = 16000 then Some kHighPassFilterCoefficients16kHz
      else if sample_rate_hz = 32000 then Some kHighPassFilterCoefficients32kHz
      else if sample_rate_hz = 48000 then Some kHighPassFilterCoefficients48kHz
      else None)"

record high_pass_filter =
  hpf_sample_rate_hz :: int
  hpf_filters :: "biquad list list"

definition new_high_pass_filter :: "int \<Rightarrow> nat \<Rightarrow> high_pass_filter option" where
  "new_high_pass_filter sample_rate_hz channels = do {
     cs \<leftarrow> ChooseCoefficients sample_rate_hz;
     Some \<lparr>hpf_sample_rate_hz = sample_rate_hz, hpf_filters = replicate channels (new_cascade cs)\<rparr> }"

definition HighPassFilter_Process :: "rat list list \<Rightarrow> high_pass_filter \<Rightarrow> (high_pass_filter \<times> rat list list) option" where
  "HighPassFilter_Process audio f = do {
     RTC_DCHECK (length (hpf_filters f) = length audio);
     let results = map2 Cascade_Process audio (hpf_filters f);
     Some (f\<lparr>hpf_filters := map fst results\<rparr>, map snd results) }"

text \<open>The method on an audio buffer works on its full band or on the lowest band.\<close>

definition HighPassFilter_Process_buffer :: "bool \<Rightarrow> apm_buffer \<Rightarrow> high_pass_filter \<Rightarrow> (high_pass_filter \<times> apm_buffer) option" where
  "HighPassFilter_Process_buffer use_split_band_data b f = do {
     RTC_DCHECK (length (hpf_filters f) = buf_num_channels b);
     loop_option (\<lambda>k (f, b). do {
       channel \<leftarrow> (if use_split_band_data then map_option (\<lambda>bands. take (num_split_frames b) (bands ! 0)) (buf_split_bands b k)
                    else Some (channel_data b k));
       let (qs, y) = Cascade_Process channel (hpf_filters f ! k);
       let f = f\<lparr>hpf_filters := (hpf_filters f)[k := qs]\<rparr>;
       Some (f, if use_split_band_data then write_split_band k 0 y b else set_channel k y b) }) [0..<buf_num_channels b] (f, b) }"

definition HighPassFilter_Reset :: "high_pass_filter \<Rightarrow> high_pass_filter" where
  "HighPassFilter_Reset f = f\<lparr>hpf_filters := map Cascade_Reset (hpf_filters f)\<rparr>"

definition HighPassFilter_Reset_channels :: "nat \<Rightarrow> high_pass_filter \<Rightarrow> high_pass_filter option" where
  "HighPassFilter_Reset_channels channels f =
     (if channels < length (hpf_filters f) then Some (HighPassFilter_Reset (f\<lparr>hpf_filters := take channels (hpf_filters f)\<rparr>))
      else do {
        cs \<leftarrow> ChooseCoefficients (hpf_sample_rate_hz f);
        Some (f\<lparr>hpf_filters := map Cascade_Reset (hpf_filters f) @ replicate (channels - length (hpf_filters f)) (new_cascade cs)\<rparr>) })"

section \<open>The filter on a stream\<close>

lemma biquad_loop_append:
  "biquad_loop c s (x @ y) = (let (s, u) = biquad_loop c s x; (s, v) = biquad_loop c s y in (s, u @ v))"
  by (induction c s x rule: biquad_loop.induct) (simp_all add: Let_def split: prod.splits)

lemma length_biquad_loop: "length (snd (biquad_loop c s x)) = length x"
proof (induction x arbitrary: s)
  case (Cons tmp x)
  obtain a b c' d where "s = ((a, b), (c', d))" by (metis surj_pair)
  then show ?case using Cons by (simp add: Let_def split_beta)
qed simp

lemma length_ApplyBiQuad: "length (snd (ApplyBiQuad x q)) = length x"
  by (simp add: ApplyBiQuad_def split_beta length_biquad_loop)

lemma coefficients_ApplyBiQuad: "coefficients (fst (ApplyBiQuad x q)) = coefficients q"
  by (simp add: ApplyBiQuad_def split: prod.splits)

lemma ApplyBiQuad_append:
  "ApplyBiQuad (x @ y) q = (let (q, u) = ApplyBiQuad x q; (q, v) = ApplyBiQuad y q in (q, u @ v))"
  by (simp add: ApplyBiQuad_def biquad_loop_append Let_def split: prod.splits)

lemma Cascade_Process_append:
  "Cascade_Process (x @ y) qs = (let (qs, u) = Cascade_Process x qs; (qs, v) = Cascade_Process y qs in (qs, u @ v))"
  by (induction qs arbitrary: x y) (simp_all add: ApplyBiQuad_append Let_def split: prod.splits)

lemma length_Cascade_Process: "length (snd (Cascade_Process y qs)) = length y" "length (fst (Cascade_Process y qs)) = length qs"
  by (induction qs arbitrary: y) (simp_all add: Let_def length_ApplyBiQuad split_beta)

end
