(* ===== verification/Audio_Frames.thy ===== *)
theory Audio_Frames
  imports High_Pass
begin

text \<open>
  Frames of 16-bit samples through an audio buffer of one rate: writing a frame into the buffer leaves
  its samples in the channels, reading the buffer puts the channels back into one frame, and both
  keep the shape of the buffer.
\<close>

section \<open>Frames through a buffer of one rate\<close>

text \<open>A frame in channels, and back.\<close>

definition decode :: "nat \<Rightarrow> nat \<Rightarrow> int list \<Rightarrow> rat list list" where
  "decode n c frame = map (\<lambda>i. map (\<lambda>j. of_int (frame ! (i + j * c))) [0..<n]) [0..<c]"

definition encode :: "nat \<Rightarrow> nat \<Rightarrow> rat list list \<Rightarrow> int list" where
  "encode n c channels = map (\<lambda>p. FloatS16ToS16 (channels ! (p mod c) ! (p div c))) [0..<n * c]"

definition planar :: "nat \<Rightarrow> nat \<Rightarrow> rat list list \<Rightarrow> bool" where
  "planar n c channels \<longleftrightarrow> length channels = c \<and> (\<forall>x\<in>set channels. length x = n)"

lemma planar_decode [simp]: "planar n c (decode n c frame)"
  by (simp add: planar_def decode_def)

lemma frame_place: "p < n * c \<Longrightarrow> p mod c < c \<and> p div c < n \<and> p mod c + p div c * c = (p::nat)"
  by (metis less_mult_imp_div_less mod_div_mult_eq mod_less_divisor mult_0_right not_gr_zero not_less_zero)

lemma frame_place2: "i < c \<Longrightarrow> j < n \<Longrightarrow> i + j * c < n * (c::nat)"
proof -
  assume "i < c" "j < n"
  then have "i + j * c < Suc j * c" "Suc j * c \<le> n * c" by (simp, intro mult_le_mono1, simp)
  then show ?thesis by linarith
qed

lemma encode_decode:
  assumes "length frame = n * c" "list_all is_s16 frame"
  shows "encode n c (decode n c frame) = frame"
proof (rule nth_equalityI)
  fix p assume "p < length (encode n c (decode n c frame))"
  then have p: "p < n * c" by (simp add: encode_def)
  have "is_s16 (frame ! p)" using assms p by (simp add: list_all_length)
  then show "encode n c (decode n c frame) ! p = frame ! p"
    using p frame_place[OF p] by (simp add: encode_def decode_def FloatS16ToS16_of_int)
qed (simp add: encode_def assms(1))

definition split_part_ok :: "nat \<Rightarrow> nat \<Rightarrow> apm_buffer \<Rightarrow> bool" where
  "split_part_ok n c b \<longleftrightarrow> (case split_data b of None \<Rightarrow> buf_num_bands b = 1 \<and> splitter b = None
     | Some s \<Rightarrow> buf_num_bands b > 1 \<and> cb_bands s = buf_num_bands b \<and> cb_frames s = n \<and> cb_channels s = c \<and> planar n c (cb_data s) \<and>
         (\<exists>sf. splitter b = Some sf \<and> sf_bands sf = buf_num_bands b \<and> two_bands_states sf = (if buf_num_bands b = 2 then c else 0) \<and>
            length (three_band_filter_banks sf) = (if buf_num_bands b = 3 then c else 0)))"

definition same_rate :: "nat \<Rightarrow> nat \<Rightarrow> apm_buffer \<Rightarrow> bool" where
  "same_rate n c b \<longleftrightarrow> 0 < n \<and> 0 < c \<and> input_num_frames b = n \<and> buffer_num_frames b = n \<and> output_num_frames b = n \<and>
     input_num_channels b = c \<and> buffer_num_channels b = c \<and> buf_num_channels b = c \<and>
     downmix_method b = kAverageChannels \<and> downmix_method_stereo b = kAverageChannels \<and>
     buf_num_bands b = NumBandsFromFramesPerChannel n \<and> num_split_frames b = n div buf_num_bands b \<and>
     cb_bands (buf_data b) = 1 \<and> cb_frames (buf_data b) = n \<and> cb_channels (buf_data b) = c \<and> planar n c (cb_data (buf_data b)) \<and>
     split_part_ok n c b"

text \<open>The channels of a buffer replaced.\<close>

definition with_channels :: "rat list list \<Rightarrow> apm_buffer \<Rightarrow> apm_buffer" where
  "with_channels xs b = b\<lparr>buf_data := (buf_data b)\<lparr>cb_data := xs\<rparr>\<rparr>"

lemma with_channels_split: "split_part_ok n c (with_channels xs b) = split_part_ok n c b"
  by (cases "split_data b") (simp_all add: split_part_ok_def with_channels_def)

lemma with_channels_same: "same_rate n c b \<Longrightarrow> planar n c xs \<Longrightarrow> same_rate n c (with_channels xs b)"
  by (simp add: same_rate_def with_channels_split) (simp add: with_channels_def)

lemma cb_set_num_channels_same: "cb_channels cb = c \<Longrightarrow> planar n c (cb_data cb) \<Longrightarrow> cb_set_num_channels c cb = Some cb"
  by (cases cb) (simp add: cb_set_num_channels_def RTC_DCHECK_def planar_def)

lemma RestoreNumChannels_same: "same_rate n c b \<Longrightarrow> RestoreNumChannels b = Some b"
  by (cases b) (auto simp: RestoreNumChannels_def same_rate_def split_part_ok_def cb_set_num_channels_same split: option.splits)

lemma new_apm_buffer_same:
  assumes "rate div 100 = n" "0 < n" "0 < c"
  shows "\<exists>b. new_apm_buffer rate c rate c rate kAverageChannels kAverageChannels = Some b \<and> same_rate n c b"
proof -
  consider "n = 320" | "n = 480" | "n \<noteq> 320" "n \<noteq> 480" by blast
  then show ?thesis
    using assms
    by cases (simp_all add: new_apm_buffer_def GetNumberOfInternalChannelsInBuffer_def RTC_DCHECK_def Let_def NumBandsFromFramesPerChannel_def cval
      CheckedDivExact_def new_splitting_filter_def same_rate_def split_part_ok_def new_channel_buffer_def planar_def)
qed

lemma set_channel_data:
  assumes "cb_bands (buf_data b) = 1" "cb_frames (buf_data b) = n" "length (cb_data (buf_data b) ! i) = n" "length xs = n"
  shows "set_channel i xs b = with_channels ((cb_data (buf_data b))[i := xs]) b"
  using assms by (simp add: set_channel_def write_band_def with_channels_def frames_per_band_def)

lemma with_channels_self: "with_channels (cb_data (buf_data b)) b = b"
  by (simp add: with_channels_def)

text \<open>A loop that sets the channels one after the other.\<close>

lemma set_channels_loop:
  assumes "same_rate n c b" "k \<le> c" "\<And>i. i < c \<Longrightarrow> length (f i) = n"
    and body: "\<And>i d. i < c \<Longrightarrow> planar n c d \<Longrightarrow> body i (with_channels d b) = Some (set_channel i (f i) (with_channels d b))"
  shows "loop_option body [0..<k] b = Some (with_channels (map f [0..<k] @ drop k (cb_data (buf_data b))) b)"
  using assms(2)
proof (induction k)
  case 0
  show ?case by (simp add: with_channels_self)
next
  case (Suc k)
  let ?d = "map f [0..<k] @ drop k (cb_data (buf_data b))"
  have l: "length (cb_data (buf_data b)) = c" "\<forall>x\<in>set (cb_data (buf_data b)). length x = n" using assms(1) by (simp_all add: same_rate_def planar_def)
  have d: "planar n c ?d" using l Suc.prems assms(3) by (auto simp: planar_def dest: in_set_dropD)
  have "length (?d ! k) = n" using Suc.prems l by (simp add: nth_append)
  moreover have "cb_bands (buf_data (with_channels ?d b)) = 1" "cb_frames (buf_data (with_channels ?d b)) = n"
    using assms(1) by (simp_all add: with_channels_def same_rate_def)
  ultimately have "set_channel k (f k) (with_channels ?d b) = with_channels (?d[k := f k]) b"
    using assms(3)[of k] Suc.prems set_channel_data[of "with_channels ?d b" n k "f k"] by (simp add: with_channels_def)
  moreover have "?d[k := f k] = map f [0..<Suc k] @ drop (Suc k) (cb_data (buf_data b))"
    using Suc.prems l(1) by (simp add: list_update_append Cons_nth_drop_Suc[symmetric])
  ultimately show ?case using Suc body[OF _ d, of k] by (simp add: loop_option_append)
qed

lemma f32_s16: "is_s16 x \<Longrightarrow> f32 (of_int x) = of_int x"
  using f32_of_int[of x] s16_small[of x] by simp

lemma s16_channel_same:
  assumes "same_rate n c b" "length frame = n * c" "list_all is_s16 frame" "i < c"
  shows "s16_channel frame b i = decode n c frame ! i"
proof (rule nth_equalityI)
  show "length (s16_channel frame b i) = length (decode n c frame ! i)" using assms by (simp add: s16_channel_def decode_def same_rate_def)
next
  fix j assume "j < length (s16_channel frame b i)"
  then have j: "j < n" using assms by (simp add: s16_channel_def same_rate_def)
  have "is_s16 (frame ! (i + j * c))" using assms(2,3) frame_place2[OF assms(4) j] by (simp add: list_all_length)
  then show "s16_channel frame b i ! j = decode n c frame ! i ! j"
    using assms j by (simp add: s16_channel_def decode_def same_rate_def nth_read_every f32_s16)
qed

lemma s16_channel_one: "same_rate n 1 b \<Longrightarrow> length frame = n \<Longrightarrow> map (\<lambda>x. f32 (of_int x)) (take n frame) = s16_channel frame b 0"
  by (rule nth_equalityI) (simp_all add: s16_channel_def same_rate_def nth_read_every)

lemma CopyFrom_same:
  assumes "same_rate n c b" "length frame = n * c" "list_all is_s16 frame" "sc_num_channels cfg = c" "sc_num_frames cfg = n"
  shows "CopyFrom_s16 frame cfg b = Some (with_channels (decode n c frame) b)"
proof -
  have b: "input_num_channels b = c" "input_num_frames b = n" "buffer_num_frames b = n" "buf_num_channels b = c"
    "downmix_method b = kAverageChannels" "downmix_method_stereo b = kAverageChannels" "0 < c" using assms(1) by (simp_all add: same_rate_def)
  show ?thesis
  proof (cases "c = 1")
    case True
    have s: "cb_bands (buf_data b) = 1" "cb_frames (buf_data b) = n" "length (cb_data (buf_data b)) = 1" "length (cb_data (buf_data b) ! 0) = n"
      using assms(1) True by (simp_all add: same_rate_def planar_def)
    have "s16_channel frame b 0 = decode n 1 frame ! 0" using s16_channel_same[of n 1 b frame 0] assms(1-3) True by simp
    then have x: "map (\<lambda>x. f32 (of_int x)) (take n frame) = decode n 1 frame ! 0" using s16_channel_one[of n b frame] assms(1,2) True by simp
    have "set_channel 0 (decode n 1 frame ! 0) b = with_channels (decode n c frame) b"
      using set_channel_data[OF s(1,2,4), of "decode n 1 frame ! 0"] s(3) True by (cases "cb_data (buf_data b)") (simp_all add: decode_def)
    then show ?thesis using True b assms(4,5)
      by (simp add: CopyFrom_s16_def RTC_DCHECK_def RestoreNumChannels_same[OF assms(1)] Let_def resampled_def x)
  next
    case False
    have "loop_option (\<lambda>i b. do { xs \<leftarrow> resampled b (s16_channel frame b i); Some (set_channel i xs b) }) [0..<c] b =
        Some (with_channels (map (\<lambda>i. decode n c frame ! i) [0..<c] @ drop c (cb_data (buf_data b))) b)"
    proof (rule set_channels_loop[OF assms(1) order_refl])
      fix i d assume i: "i < c" "planar n c d"
      have "same_rate n c (with_channels d b)" by (rule with_channels_same[OF assms(1) i(2)])
      from s16_channel_same[OF this assms(2,3) i(1)] b
      show "do { xs \<leftarrow> resampled (with_channels d b) (s16_channel frame (with_channels d b) i); Some (set_channel i xs (with_channels d b)) } =
          Some (set_channel i (decode n c frame ! i) (with_channels d b))"
        by (simp add: resampled_def with_channels_def)
    qed (simp add: decode_def)
    moreover have "map (\<lambda>i. decode n c frame ! i) [0..<c] @ drop c (cb_data (buf_data b)) = decode n c frame"
      using assms(1) by (simp add: same_rate_def planar_def decode_def)
    ultimately show ?thesis using False b assms(4,5)
      by (simp add: CopyFrom_s16_def RTC_DCHECK_def RestoreNumChannels_same[OF assms(1)] Let_def)
  qed
qed

lemma length_fold_write: "length (fold (\<lambda>i. write_every k i (out i)) is xs) = length xs"
  by (induction "is" arbitrary: xs) simp_all

lemma CopyTo_same:
  assumes "same_rate n c b" "length old = n * c" "sc_num_channels cfg = c" "sc_num_frames cfg = n"
  shows "CopyTo_s16 cfg old b = Some (encode n c (cb_data (buf_data b)))"
proof -
  let ?d = "cb_data (buf_data b)"
  have b: "buf_num_channels b = c" "output_num_frames b = n" "buffer_num_frames b = n" "0 < c" "length ?d = c" "\<forall>x\<in>set ?d. length x = n"
    using assms(1) by (simp_all add: same_rate_def planar_def)
  define out where "out = (\<lambda>i. FloatS16ToS16_array (take n (?d ! i)))"
  have o: "out i = map FloatS16ToS16 (?d ! i)" "length (?d ! i) = n" if "i < c" for i using that b(5,6) by (simp_all add: out_def FloatS16ToS16_array_def)
  show ?thesis
  proof (cases "c = 1")
    case True
    have "copy_over (out 0) old = encode n c ?d"
      by (rule nth_equalityI) (use True o[of 0] assms(2) in \<open>simp_all add: copy_over_def encode_def\<close>)
    then show ?thesis using True b assms(3,4)
      by (simp add: CopyTo_s16_def Let_def RTC_DCHECK_def channel_data_def out_def)
  next
    case False
    define r where "r = fold (\<lambda>i. write_every c i (out i)) [0..<c] old"
    have "r = Interleave (map out [0..<c]) old"
      unfolding r_def Interleave_def by (intro List.fold_cong) simp_all
    then have nth: "r ! (i + j * c) = FloatS16ToS16 (?d ! i ! j)" if "i < c" "j < n" for i j
      using Interleave_nth[of "map out [0..<c]" n old i j] that o assms(2) by (simp add: mult.commute)
    have "r = encode n c ?d"
    proof (rule nth_equalityI)
      show "length r = length (encode n c ?d)" by (simp add: r_def length_fold_write encode_def assms(2))
    next
      fix p assume "p < length r"
      then have p: "p < n * c" by (simp add: r_def length_fold_write assms(2))
      show "r ! p = encode n c ?d ! p" using nth[of "p mod c" "p div c"] frame_place[OF p] p by (simp add: encode_def)
    qed
    then show ?thesis using False b assms(3,4)
      by (simp add: CopyTo_s16_def Let_def RTC_DCHECK_def channel_data_def out_def r_def)
  qed
qed

end
