(* ===== verification/Limiter_Safety.thy ===== *)
theory Limiter_Safety
  imports Gain_Limiter
begin

text \<open>
  What the limiter of \<^verbatim>\<open>limiter.cc\<close> guarantees: the gain curve with its rounded constants, the smoothed
  levels, the scaling factors of a frame, the samples it gives out, and that a quiet signal passes
  unchanged.
\<close>

section \<open>The gain curve\<close>

definition curve_ok :: "rat \<times> rat \<times> rat \<times> rat \<Rightarrow> bool" where
  "curve_ok = (\<lambda>(a, b, m, q). - (1 / 20000) \<le> m \<and> m < 0 \<and> 1 \<le> q \<and> q \<le> 2 \<and> 30000 \<le> a \<and> 30000 \<le> b \<and> a \<le> 36767 \<and> b \<le> 36767 \<and>
     m * a + q \<le> 1 + 1 / 10 ^ 6 \<and> 3 / 5 \<le> m * b + q \<and> 0 \<le> 2 * m * (b + 1 / 100) + q \<and> (m * (b + 1 / 100) + q) * (b + 1 / 100) \<le> 32768 + 7 / 10)"

lemma curve_ok_all: "list_all curve_ok (zip curve_points (zip (tl curve_points @ [36766300710566735 / 10 ^ 12]) (zip curve_slopes curve_offsets)))"
  by (simp add: curve_points_def curve_slopes_def curve_offsets_def curve_ok_def)

lemma curve_below_1: "list_all (\<lambda>(a, m, q). m * a + q \<le> 1 - 1 / 10 ^ 5) (zip (tl curve_points) (zip (tl curve_slopes) (tl curve_offsets)))"
  by (simp add: curve_points_def curve_slopes_def curve_offsets_def)

lemma f32_offset_0: "f32 (1010565876960754395 / 10 ^ 18) = 8477241 / 2 ^ 23"
  using f32_nearest[of "-23" "1010565876960754395 / 10 ^ 18" 8477241] by (simp add: two_pow_def abs_if)

text \<open>How far the rounded formula is from the exact one.\<close>

lemma f32_near: "\<bar>x\<bar> \<le> 3 \<Longrightarrow> \<bar>f32 x - x\<bar> \<le> 1 / 4194304"
proof -
  assume "\<bar>x\<bar> \<le> 3"
  then have "\<bar>x\<bar> / 2 ^ 24 + 1 / 2 ^ 150 \<le> 1 / 4194304" by simp
  then show ?thesis using f32_error[of x] by linarith
qed

lemma curve_rounding:
  assumes "- (1 / 20000) \<le> m" "m < 0" "1 \<le> q" "q \<le> 2" "30000 \<le> x" "x \<le> 36768"
  shows "\<bar>f32 (f32 (f32 m * x) + f32 q) - (m * x + q)\<bar> \<le> 1 / 10 ^ 6"
proof -
  have m: "\<bar>f32 m - m\<bar> \<le> 1 / 274877906944" using f32_error[of m] assms(1,2) by (simp add: abs_if)
  have q: "\<bar>f32 q - q\<bar> \<le> 1 / 4194304" using assms(3,4) by (intro f32_near) simp
  have "\<bar>f32 m * x - m * x\<bar> = \<bar>f32 m - m\<bar> * x" using assms(5) by (simp add: abs_mult left_diff_distrib[symmetric])
  also have "\<dots> \<le> 1 / 274877906944 * 36768" using m assms(5,6) by (intro mult_mono) simp_all
  finally have mx: "\<bar>f32 m * x - m * x\<bar> \<le> 1 / 4194304" by simp
  have "- (1 / 20000) * 36768 \<le> m * 36768" using assms(1) by simp
  also have "m * 36768 \<le> m * x" using assms(2,6) by simp
  finally have b: "-2 \<le> m * x" by simp
  have b2: "m * x < 0" using assms(2,5) by (simp add: mult_neg_pos)
  have "\<bar>f32 m * x\<bar> \<le> 3" using mx b b2 unfolding abs_le_iff by (elim conjE, intro conjI; linarith)
  then have u: "\<bar>f32 (f32 m * x) - f32 m * x\<bar> \<le> 1 / 4194304" by (rule f32_near)
  have "\<bar>f32 (f32 m * x) + f32 q\<bar> \<le> 3" using u mx b b2 q assms(3,4) unfolding abs_le_iff by (elim conjE, intro conjI; linarith)
  then have "\<bar>f32 (f32 (f32 m * x) + f32 q) - (f32 (f32 m * x) + f32 q)\<bar> \<le> 1 / 4194304" by (rule f32_near)
  moreover have "4 * (1 / 4194304) \<le> (1 / 10 ^ 6 :: rat)" by simp
  ultimately show "\<bar>f32 (f32 (f32 m * x) + f32 q) - (m * x + q)\<bar> \<le> 1 / 10 ^ 6" using u mx q unfolding abs_le_iff by (elim conjE, intro conjI; linarith)
qed

lemma f32_point: "0 \<le> a \<Longrightarrow> a \<le> 40000 \<Longrightarrow> \<bar>f32 a - a\<bar> \<le> 1 / 100"
proof -
  assume a: "0 \<le> a" "a \<le> 40000"
  then have "\<bar>a\<bar> / 2 ^ 24 + 1 / 2 ^ 150 \<le> 1 / 100" by simp
  then show ?thesis using f32_error[of a] by linarith
qed

text \<open>The parabola that the product with the level is grows up to the end of a piece.\<close>

lemma parabola_mono:
  fixes m q x b :: rat
  assumes "m < 0" "x \<le> b" "0 \<le> 2 * m * b + q"
  shows "(m * x + q) * x \<le> (m * b + q) * b"
proof -
  have "(m * b + q) * b - (m * x + q) * x = (b - x) * (m * (b + x) + q)" by algebra
  moreover have "2 * m * b \<le> m * (b + x)" using assms(1,2) by (simp add: distrib_left mult_left_mono_neg)
  then have "0 \<le> (b - x) * (m * (b + x) + q)" using assms(2,3) by (intro mult_nonneg_nonneg) linarith+
  ultimately show ?thesis by linarith
qed

definition curve_gain :: "rat \<Rightarrow> rat \<Rightarrow> rat \<Rightarrow> rat" where
  "curve_gain m q x = f32 (f32 (f32 m * x) + f32 q)"

lemma curve_piece:
  assumes "curve_ok (a, b, m, q)" "f32 a < x" "x \<le> f32 b"
  shows "1 / 2 \<le> curve_gain m q x" "curve_gain m q x * x \<le> 32769" "m * a + q \<le> 1 - 1 / 10 ^ 5 \<Longrightarrow> curve_gain m q x \<le> 1"
proof -
  have c: "- (1 / 20000) \<le> m" "m < 0" "1 \<le> q" "q \<le> 2" "30000 \<le> a" "b \<le> 36767" "3 / 5 \<le> m * b + q"
    "0 \<le> 2 * m * (b + 1 / 100) + q" "(m * (b + 1 / 100) + q) * (b + 1 / 100) \<le> 32768 + 7 / 10"
    and c10: "30000 \<le> b" "a \<le> 36767"
    using assms(1) by (simp_all add: curve_ok_def)
  have "f32 b \<le> b + 1 / 100" "a \<le> f32 a + 1 / 100"
    using f32_point[of b] f32_point[of a] c(5,6) c10 unfolding abs_le_iff by linarith+
  then have xb: "x \<le> b + 1 / 100" and ax: "a \<le> x + 1 / 100" using assms(2,3) by linarith+
  have "30000 \<le> f32 a" using c(5) f32_of_int[of 30000] by (intro f32_ge) simp_all
  then have x: "30000 \<le> x" "x \<le> 36768" using assms(2) xb c(6) by linarith+
  note r = curve_rounding[OF c(1-4) x, folded curve_gain_def]
  have "m * (b + 1 / 100) \<le> m * x" "m * (x + 1 / 100) \<le> m * a" using c(2) xb ax by (simp_all add: mult_left_mono_neg)
  then have m: "m * b + m * (1 / 100) \<le> m * x" "m * x + m * (1 / 100) \<le> m * a" by (simp_all only: distrib_left)
  show "1 / 2 \<le> curve_gain m q x" using r m(1) c(1,7) unfolding abs_le_iff by simp
  show "curve_gain m q x \<le> 1" if "m * a + q \<le> 1 - 1 / 10 ^ 5" using r m(2) c(1) that unfolding abs_le_iff by simp
  have "curve_gain m q x * x \<le> (m * x + q + 1 / 10 ^ 6) * x" using r x(1) unfolding abs_le_iff by (intro mult_right_mono) simp_all
  also have "\<dots> = (m * x + q) * x + x / 10 ^ 6" by (simp add: distrib_right)
  also have "(m * x + q) * x \<le> 32768 + 7 / 10" using parabola_mono[OF c(2) xb c(8)] c(9) by linarith
  finally show "curve_gain m q x * x \<le> 32769" using x(2) by simp
qed

lemma f32_just_above_1: "f32 (1 + 4 / 10 ^ 8) = 1"
  using f32_nearest[of "-23" "1 + 4 / 10 ^ 8" 8388608] by (simp add: two_pow_def)

lemma curve_first_piece:
  assumes "f32 (curve_points ! 0) < x" "x \<le> 36768"
  shows "curve_gain (curve_slopes ! 0) (curve_offsets ! 0) x \<le> 1"
proof -
  let ?m = "- (3515235675877192989 / 10 ^ 25) :: rat"
  have e: "curve_points ! 0 = 30057296875 / 10 ^ 6" "curve_slopes ! 0 = ?m" "curve_offsets ! 0 = 1010565876960754395 / 10 ^ 18"
    by (simp_all add: curve_points_def curve_slopes_def curve_offsets_def)
  have "\<bar>f32 (30057296875 / 10 ^ 6) - 30057296875 / 10 ^ 6\<bar> \<le> (30057296875 / 10 ^ 6) / 2 ^ 24 + 1 / 2 ^ 150"
    using f32_error[of "30057296875 / 10 ^ 6"] by simp
  also have "\<dots> \<le> 1 / 500" by simp
  finally have "30057 + 294 / 1000 \<le> f32 (30057296875 / 10 ^ 6)" unfolding abs_le_iff by simp
  then have x: "30057 + 294 / 1000 \<le> x" using assms(1) unfolding e by linarith
  have "\<bar>f32 ?m - ?m\<bar> \<le> (3515235675877192989 / 10 ^ 25) / 2 ^ 24 + 1 / 2 ^ 150"
    using f32_error[of ?m] by simp
  then have m: "f32 ?m \<le> - (35152352 / 10 ^ 14)" "- (4 / 10 ^ 7) \<le> f32 ?m" unfolding abs_le_iff by simp_all
  have "f32 ?m * x \<le> - (35152352 / 10 ^ 14) * x" using m(1) x by (intro mult_right_mono) simp_all
  also have "\<dots> \<le> - (35152352 / 10 ^ 14) * (30057 + 294 / 1000)" using x by simp
  finally have p: "f32 ?m * x \<le> - (35152352 / 10 ^ 14) * (30057 + 294 / 1000)" .
  have "- (4 / 10 ^ 7) * x \<le> f32 ?m * x" using m(2) x by (intro mult_right_mono) simp_all
  moreover have "- (1 / 50) \<le> - (4 / 10 ^ 7) * x" using assms(2) by simp
  ultimately have p2: "- (1 / 50) \<le> f32 ?m * x" by linarith
  have "\<bar>f32 (f32 ?m * x) - f32 ?m * x\<bar> \<le> \<bar>f32 ?m * x\<bar> / 2 ^ 24 + 1 / 2 ^ 150" by (rule f32_error)
  also have "\<dots> \<le> (1 / 50) / 2 ^ 24 + 1 / 2 ^ 150" using p p2 by (intro add_right_mono divide_right_mono) (simp_all add: abs_le_iff)
  also have "\<dots> \<le> 2 / 10 ^ 9" by simp
  finally have "f32 (f32 ?m * x) + 8477241 / 2 ^ 23 \<le> 1 + 4 / 10 ^ 8" using p unfolding abs_le_iff by simp
  then have "f32 (f32 (f32 ?m * x) + 8477241 / 2 ^ 23) \<le> 1" using f32_mono f32_just_above_1 by metis
  then show ?thesis unfolding e curve_gain_def f32_offset_0 .
qed

text \<open>What a gain has to be for a level.\<close>

definition limiting_gain :: "rat \<Rightarrow> rat \<Rightarrow> bool" where
  "limiting_gain level gain \<longleftrightarrow> 1 / 2 ^ 85 \<le> gain \<and> gain \<le> 1 \<and> gain * level \<le> 32769 \<and> (level \<le> 36765 \<longrightarrow> 1 / 2 \<le> gain) \<and> (level \<le> 30057 \<longrightarrow> gain = 1)"

lemma curve_lengths: "length curve_points = 32" "length curve_slopes = 32" "length curve_offsets = 32"
  by (simp_all add: curve_points_def curve_slopes_def curve_offsets_def)

lemma curve_piece_ok:
  assumes "i < 32"
  shows "curve_ok (curve_points ! i, (if i < 31 then curve_points ! (i + 1) else 36766300710566735 / 10 ^ 12), curve_slopes ! i, curve_offsets ! i)"
proof -
  let ?z = "zip curve_points (zip (tl curve_points @ [36766300710566735 / 10 ^ 12]) (zip curve_slopes curve_offsets))"
  have "length ?z = 32" by (simp add: curve_lengths)
  then have "curve_ok (?z ! i)" using curve_ok_all assms by (simp add: list_all_length)
  then show ?thesis using assms by (simp add: curve_lengths nth_append nth_tl split: if_splits)
qed

lemma curve_later_piece:
  assumes "i < 31"
  shows "curve_slopes ! (i + 1) * curve_points ! (i + 1) + curve_offsets ! (i + 1) \<le> 1 - 1 / 10 ^ 5"
proof -
  let ?z = "zip (tl curve_points) (zip (tl curve_slopes) (tl curve_offsets))"
  have "length ?z = 31" by (simp add: curve_lengths)
  then have "(\<lambda>(a, m, q). m * a + q \<le> 1 - 1 / 10 ^ 5) (?z ! i)" using curve_below_1 assms by (simp add: list_all_length)
  then show ?thesis using assms by (simp add: curve_lengths nth_tl)
qed

lemma LookUpGain_ok:
  assumes "level \<le> 2 ^ 100"
  shows "\<exists>gain. LookUpGain level = Some gain \<and> limiting_gain level gain"
proof -
  let ?x = approximation_params_x
  have x0: "30057 \<le> ?x ! 0" "?x ! 0 \<le> 30058"
  proof -
    have "?x ! 0 = f32 (30057296875 / 10 ^ 6)" by (simp add: approximation_params_x_def curve_points_def)
    moreover have "f32 30057 = 30057" "f32 30058 = 30058" using f32_of_int[of 30057] f32_of_int[of 30058] by simp_all
    ultimately show "30057 \<le> ?x ! 0" "?x ! 0 \<le> 30058" by (simp_all add: f32_le f32_ge)
  qed
  have mx: "36766 \<le> kMaxInputLevelLinear" "kMaxInputLevelLinear \<le> 36767"
    using f32_of_int[of 36766] f32_of_int[of 36767] by (simp_all add: kMaxInputLevelLinear_def f32_le f32_ge)
  consider "level \<le> ?x ! 0" | "?x ! 0 < level" "kMaxInputLevelLinear \<le> level" | "?x ! 0 < level" "level < kMaxInputLevelLinear" by linarith
  then show ?thesis
  proof cases
    case 1
    then show ?thesis using x0 by (simp add: LookUpGain_def limiting_gain_def)
  next
    case 2
    then have l: "36766 \<le> level" using mx by linarith
    define g where "g = f32 (32768 / level)"
    have "f32 1 = 1" using f32_of_int[of 1] by simp
    then have g1: "g \<le> 1" using l unfolding g_def by (intro f32_le) simp_all
    have tp: "two_pow (-85) = 1 / 2 ^ 85" by (simp add: two_pow_def)
    have "f32 (two_pow (-85)) = two_pow (-85)" by (rule f32_two_pow) simp
    then have "f32 (1 / 2 ^ 85) = 1 / 2 ^ 85" unfolding tp .
    then have g0: "1 / 2 ^ 85 \<le> g" using l assms unfolding g_def by (intro f32_ge) (simp_all add: le_divide_eq)
    have "g \<le> 32768 / level + ((32768 / level) / 2 ^ 24 + 1 / 2 ^ 150)"
      using f32_error[of "32768 / level"] l unfolding g_def abs_le_iff by simp
    then have "g * level \<le> (32768 / level + ((32768 / level) / 2 ^ 24 + 1 / 2 ^ 150)) * level" using l by (intro mult_right_mono) simp_all
    also have "\<dots> = 32768 + (32768 / 2 ^ 24 + level / 2 ^ 150)" using l by (simp add: field_simps)
    also have "\<dots> \<le> 32769" using assms by simp
    finally have "g * level \<le> 32769" .
    then show ?thesis using 2 g0 g1 l mx by (auto simp: LookUpGain_def limiting_gain_def g_def)
  next
    case 3
    define n where "n = lower_bound ?x level"
    have len: "length ?x = 32" "length approximation_params_m = 32" by (simp_all add: approximation_params_x_def approximation_params_m_def curve_lengths)
    obtain a xs where xs: "?x = a # xs" using len by (cases ?x) auto
    have n1: "0 < n" using 3 by (simp add: n_def lower_bound_def xs)
    have n32: "n \<le> 32" unfolding n_def lower_bound_def len(1)[symmetric] by (rule length_takeWhile_le)
    define i where "i = n - 1"
    have i: "i < 32" "n = i + 1" using n1 n32 by (simp_all add: i_def)
    have low: "?x ! i < level"
    proof -
      have "i < length (takeWhile (\<lambda>x. x < level) ?x)" using i by (simp add: n_def lower_bound_def)
      then show ?thesis using nth_mem[of i "takeWhile (\<lambda>x. x < level) ?x"] by (auto simp: takeWhile_nth dest: set_takeWhileD)
    qed
    have high: "level \<le> ?x ! (i + 1)" if "i < 31"
      using nth_length_takeWhile[of "\<lambda>x. x < level" ?x] i(2) that len(1) by (simp add: n_def lower_bound_def)
    let ?b = "if i < 31 then curve_points ! (i + 1) else 36766300710566735 / 10 ^ 12"
    have c: "curve_ok (curve_points ! i, ?b, curve_slopes ! i, curve_offsets ! i)" by (rule curve_piece_ok[OF i(1)])
    have lb: "f32 (curve_points ! i) < level" "level \<le> f32 ?b"
      using low high i(1) 3(2) by (auto simp: approximation_params_x_def curve_lengths kMaxInputLevelLinear_def)
    define g where "g = curve_gain (curve_slopes ! i) (curve_offsets ! i) level"
    have g: "1 / 2 \<le> g" "g * level \<le> 32769" using curve_piece(1,2)[OF c lb] by (simp_all add: g_def)
    have g1: "g \<le> 1"
    proof (cases "i = 0")
      case True
      then show ?thesis using curve_first_piece[of level] lb(1) 3(2) mx(2) by (simp add: g_def)
    next
      case False
      then show ?thesis using curve_piece(3)[OF c lb] curve_later_piece[of "i - 1"] i(1) by (simp add: g_def)
    qed
    have "f32 (f32 (approximation_params_m ! i * level) + approximation_params_q ! i) = g"
      using i(1) by (simp add: g_def curve_gain_def approximation_params_m_def approximation_params_q_def curve_lengths)
    then have "LookUpGain level = Some g"
      using 3 n1 i low high g len
      by (simp add: LookUpGain_def RTC_DCHECK_def n_def[symmetric] nat_diff_distrib del: One_nat_def)
    then show ?thesis using g g1 3 x0 by (auto simp: limiting_gain_def)
  qed
qed

section \<open>Levels\<close>

lemma decay_constants: "kDecayFilterConstant = 16728997 / 2 ^ 24" "f32 (1 - kDecayFilterConstant) = 48219 / 2 ^ 24"
proof -
  show d: "kDecayFilterConstant = 16728997 / 2 ^ 24"
    unfolding kDecayFilterConstant_def using f32_nearest[of "-24" "9971259 / 10 ^ 7" 16728997] by (simp add: two_pow_def abs_if)
  have "1 - kDecayFilterConstant = of_int 48219 * two_pow (-24)" by (simp add: d two_pow_def)
  moreover have "f32 (of_int 48219 * two_pow (-24)) = of_int 48219 * two_pow (-24)"
    unfolding f32_def by (rule round_bits_exact[where e = "-24" and m = 48219]) (simp_all add: two_pow_def)
  ultimately have "f32 (1 - kDecayFilterConstant) = of_int 48219 * two_pow (-24)" by (simp only:)
  then show "f32 (1 - kDecayFilterConstant) = 48219 / 2 ^ 24" by (simp add: two_pow_def)
qed

lemma f32_2_100: "f32 (2 ^ 100) = 2 ^ 100" "f32 (2 ^ 100 * (48219 / 2 ^ 24)) = 2 ^ 100 * (48219 / 2 ^ 24)"
  "f32 (2 ^ 100 * (16728997 / 2 ^ 24)) = 2 ^ 100 * (16728997 / 2 ^ 24)"
proof -
  have a: "f32 (of_int m * two_pow 76) = of_int m * two_pow 76" if "\<bar>m\<bar> < 2 ^ 24" for m
  proof -
    have "\<bar>of_int m :: rat\<bar> < of_int (2 ^ 24)" using that by (simp only: of_int_less_iff of_int_abs [symmetric])
    then show ?thesis unfolding f32_def
      by (intro round_bits_exact[where e = 76 and m = m]) (simp_all add: two_pow_add abs_mult abs_of_pos two_pow_def)
  qed
  show "f32 (2 ^ 100) = 2 ^ 100" using f32_two_pow[of 100] by (simp add: two_pow_def)
  show "f32 (2 ^ 100 * (48219 / 2 ^ 24)) = 2 ^ 100 * (48219 / 2 ^ 24)" using a[of 48219] by (simp add: two_pow_def)
  show "f32 (2 ^ 100 * (16728997 / 2 ^ 24)) = 2 ^ 100 * (16728997 / 2 ^ 24)" using a[of 16728997] by (simp add: two_pow_def)
qed

definition level_range :: "rat \<Rightarrow> bool" where "level_range x \<longleftrightarrow> 0 \<le> x \<and> x \<le> 2 ^ 100"

lemma smooth_attack: "smooth_level s e = f32 (f32 e)" if "e > s"
proof -
  have "f32 1 = 1" using f32_of_int[of 1] by simp
  then show ?thesis using that by (simp add: smooth_level_def kAttackFilterConstant_def f32_f32)
qed

lemma smooth_decay: "smooth_level s e = f32 (f32 (e * (48219 / 2 ^ 24)) + f32 (s * (16728997 / 2 ^ 24)))" if "\<not> e > s"
  using that unfolding smooth_level_def decay_constants(2) unfolding decay_constants(1) by simp

lemma smooth_range:
  assumes "level_range s" "level_range e"
  shows "level_range (smooth_level s e)"
proof (cases "e > s")
  case True
  then show ?thesis using assms by (simp add: smooth_attack level_range_def f32_le f32_2_100 del: power_numeral)
next
  case False
  let ?a = "f32 (e * (48219 / 2 ^ 24))" and ?b = "f32 (s * (16728997 / 2 ^ 24))"
  have "?a \<le> 2 ^ 100 * (48219 / 2 ^ 24)" "?b \<le> 2 ^ 100 * (16728997 / 2 ^ 24)"
    using assms by (intro f32_le f32_2_100; simp add: level_range_def)+
  then have "?a + ?b \<le> 2 ^ 100" by simp
  then have "f32 (?a + ?b) \<le> 2 ^ 100" using f32_2_100(1) by (rule f32_le)
  moreover have "0 \<le> f32 (?a + ?b)" using assms by (simp add: level_range_def)
  ultimately show ?thesis using False by (simp add: smooth_decay level_range_def)
qed

text \<open>Quiet samples keep a quiet state.\<close>

lemma smooth_quiet:
  assumes "0 \<le> s" "s \<le> 30057" "0 \<le> e" "e \<le> 30000"
  shows "0 \<le> smooth_level s e \<and> smooth_level s e \<le> 30057"
proof (cases "e > s")
  case True
  have "f32 30057 = 30057" using f32_of_int[of 30057] by simp
  then show ?thesis using True assms by (simp add: smooth_attack f32_le)
next
  case False
  let ?a = "f32 (e * (48219 / 2 ^ 24))" and ?b = "f32 (s * (16728997 / 2 ^ 24))"
  have "?a \<le> f32 87" using assms by (intro f32_mono) simp
  moreover have "f32 87 = 87" using f32_of_int[of 87] by simp
  moreover have "?b \<le> f32 29971" using assms by (intro f32_mono) simp
  moreover have "f32 29971 = 29971" using f32_of_int[of 29971] by simp
  ultimately have "?a + ?b \<le> 30058" by simp
  have "?a \<le> e * (48219 / 2 ^ 24) + (e * (48219 / 2 ^ 24) / 2 ^ 24 + 1 / 2 ^ 150)"
    using f32_error[of "e * (48219 / 2 ^ 24)"] assms by (simp add: abs_le_iff)
  moreover have "?b \<le> s * (16728997 / 2 ^ 24) + (s * (16728997 / 2 ^ 24) / 2 ^ 24 + 1 / 2 ^ 150)"
    using f32_error[of "s * (16728997 / 2 ^ 24)"] assms by (simp add: abs_le_iff)
  ultimately have "?a + ?b \<le> 30057" using assms by simp
  moreover have "f32 30057 = 30057" using f32_of_int[of 30057] by simp
  ultimately have "f32 (?a + ?b) \<le> 30057" by (intro f32_le)
  moreover have "0 \<le> f32 (?a + ?b)" using assms by simp
  ultimately show ?thesis using False by (simp add: smooth_decay)
qed

lemma length_smooth [simp]: "length (smooth s es) = length es"
  by (induction es arbitrary: s) simp_all

lemma smooth_all:
  assumes "\<And>s e. P s \<Longrightarrow> Q e \<Longrightarrow> P (smooth_level s e)" "P s" "list_all Q es"
  shows "list_all P (smooth s es) \<and> P (last (s # smooth s es))"
  using assms(2,3)
proof (induction es arbitrary: s)
  case (Cons e es)
  then have "P (smooth_level s e)" using assms(1) by simp
  from Cons.IH[OF this] this Cons.prems show ?case by simp
qed simp

lemma length_one_step_earlier [simp]: "length (one_step_earlier es) = length es"
  by (induction es rule: one_step_earlier.induct) simp_all

lemma one_step_earlier_all: "list_all Q es \<Longrightarrow> list_all Q (one_step_earlier es)"
  by (induction es rule: one_step_earlier.induct) auto

lemma foldl_max_range:
  fixes B :: rat
  shows "0 \<le> e \<Longrightarrow> e \<le> B \<Longrightarrow> \<forall>x\<in>set xs. \<bar>x\<bar> \<le> B \<Longrightarrow> 0 \<le> foldl (\<lambda>e x. max e \<bar>x\<bar>) e xs \<and> foldl (\<lambda>e x. max e \<bar>x\<bar>) e xs \<le> B"
  by (induction xs arbitrary: e) auto

definition in_bound :: "rat \<Rightarrow> rat \<Rightarrow> bool" where "in_bound B x \<longleftrightarrow> 0 \<le> x \<and> x \<le> B"

lemma channel_envelope_range:
  assumes "list_all (in_bound B) env" "length env = kSubFramesInFrame" "\<forall>x\<in>set channel. \<bar>x\<bar> \<le> B"
  shows "list_all (in_bound B) (channel_envelope n channel env) \<and> length (channel_envelope n channel env) = kSubFramesInFrame"
proof -
  have "in_bound B (foldl (\<lambda>e x. max e \<bar>x\<bar>) (env ! i) (take n (drop (i * n) channel)))" if "i < kSubFramesInFrame" for i
  proof -
    have "in_bound B (env ! i)" using assms(1,2) that by (simp add: list_all_length)
    moreover have "\<forall>x\<in>set (take n (drop (i * n) channel)). \<bar>x\<bar> \<le> B" using assms(3) by (meson in_set_dropD in_set_takeD)
    ultimately show ?thesis unfolding in_bound_def by (intro foldl_max_range) simp_all
  qed
  then show ?thesis by (simp add: channel_envelope_def list_all_iff)
qed

lemma envelope_range:
  assumes "\<forall>c\<in>set cs. \<forall>x\<in>set c. \<bar>x\<bar> \<le> B" "list_all (in_bound B) env" "length env = kSubFramesInFrame"
  shows "list_all (in_bound B) (fold (channel_envelope n) cs env) \<and> length (fold (channel_envelope n) cs env) = kSubFramesInFrame"
  using assms
proof (induction cs arbitrary: env)
  case (Cons c cs)
  have "list_all (in_bound B) (channel_envelope n c env) \<and> length (channel_envelope n c env) = kSubFramesInFrame"
    using Cons.prems by (intro channel_envelope_range) simp_all
  then show ?case using Cons by simp
qed simp

text \<open>The levels of a frame whose samples are in a bound.\<close>

lemma ComputeLevel_range:
  assumes "0 < length (view_channels v)" "view_samples v = samples_in_frame e" "\<forall>c\<in>set (view_channels v). \<forall>x\<in>set c. \<bar>x\<bar> \<le> B" "0 \<le> B"
    "P (filter_state_level e)" "\<And>s x. P s \<Longrightarrow> in_bound B x \<Longrightarrow> P (smooth_level s x)"
  shows "\<exists>levels s. ComputeLevel v e = Some (e\<lparr>filter_state_level := s\<rparr>, levels) \<and> length levels = 20 \<and> list_all P levels \<and> P s"
proof -
  let ?env = "fold (channel_envelope (samples_in_sub_frame e)) (view_channels v) (replicate kSubFramesInFrame 0)"
  have env: "list_all (in_bound B) ?env" "length ?env = kSubFramesInFrame"
    using envelope_range[OF assms(3), of "replicate kSubFramesInFrame 0"] assms(4) by (simp_all add: in_bound_def list_all_iff)
  let ?levels = "smooth (filter_state_level e) (one_step_earlier ?env)"
  have l: "list_all P ?levels" "length ?levels = 20"
    using smooth_all[of P "in_bound B", OF assms(6) assms(5) one_step_earlier_all[OF env(1)]] env(2) by (simp_all add: kSubFramesInFrame_def)
  then have "P (last ?levels)" by (metis last_in_set length_greater_0_conv list_all_iff zero_less_numeral)
  then show ?thesis using l assms(1,2)
    by (intro exI[of _ ?levels] exI[of _ "last ?levels"]) (simp add: ComputeLevel_def RTC_DCHECK_def Let_def)
qed

section \<open>Scaling factors\<close>

definition scale_range :: "rat \<Rightarrow> bool" where "scale_range x \<longleftrightarrow> 0 \<le> x \<and> x \<le> 1"
definition factor_range :: "rat \<Rightarrow> bool" where "factor_range x \<longleftrightarrow> 1 / 2 ^ 85 \<le> x \<and> x \<le> 1"

lemma f32_tie: "f32 (1 + 1 / 2 ^ 24) = 1"
proof -
  have "expo (1 + 1 / 2 ^ 24) = 0" by (rule expo_eq) (simp_all add: two_pow_def)
  moreover have "round_half_even (8388608 + 1 / 2) = 8388608"
  proof -
    have "\<lfloor>8388608 + 1 / 2 :: rat\<rfloor> = 8388608" by (simp add: floor_eq_iff)
    then show ?thesis by (simp add: round_half_even_def Let_def)
  qed
  ultimately show ?thesis by (simp add: f32_def round_bits_def Let_def two_pow_def add_divide_distrib)
qed

lemma f32_at_most_1: "x \<le> 1 + 1 / 2 ^ 24 \<Longrightarrow> f32 x \<le> 1"
  using f32_mono[of x "1 + 1 / 2 ^ 24"] unfolding f32_tie .

text \<open>The steps of a linear sub frame stay below the whole difference.\<close>

lemma linear_step:
  assumes "0 \<le> D" "1 \<le> n" "n \<le> (24::nat)" "j < n"
  shows "0 \<le> f32 (f32 (f32 D / of_nat n) * of_nat j)" "f32 (f32 (f32 D / of_nat n) * of_nat j) \<le> D + 1 / 2 ^ 140"
proof -
  define d q y where "d = f32 D" and "q = f32 (d / of_nat n)" and "y = f32 (q * of_nat j)"
  have d0: "0 \<le> d" and q0: "0 \<le> q" and y0: "0 \<le> y" using assms(1) by (simp_all add: d_def q_def y_def)
  show "0 \<le> f32 (f32 (f32 D / of_nat n) * of_nat j)" using y0 by (simp only: d_def q_def y_def)
  have d: "d \<le> D + (D / 2 ^ 24 + 1 / 2 ^ 150)" using f32_error[of D] assms(1) unfolding d_def abs_le_iff by simp
  have n: "1 \<le> (of_nat n :: rat)" "(of_nat n :: rat) \<le> 24" using assms(2,3) by simp_all
  have "q \<le> d / of_nat n + (d / of_nat n / 2 ^ 24 + 1 / 2 ^ 150)"
    using f32_error[of "d / of_nat n"] d0 unfolding q_def abs_le_iff by simp
  then have "q * of_nat n \<le> (d / of_nat n + (d / of_nat n / 2 ^ 24 + 1 / 2 ^ 150)) * of_nat n" using n by (intro mult_right_mono) simp_all
  also have "\<dots> = d + (d / 2 ^ 24 + of_nat n / 2 ^ 150)" using n by (simp add: distrib_right)
  also have "\<dots> \<le> d + (d / 2 ^ 24 + 24 / 2 ^ 150)" using n by (intro add_left_mono divide_right_mono) simp_all
  finally have qn: "q * of_nat n \<le> d + (d / 2 ^ 24 + 24 / 2 ^ 150)" .
  have "of_nat j \<le> (of_nat n - 1 :: rat)" using assms(4) by (metis of_nat_1 of_nat_diff of_nat_le_iff Suc_leI Suc_pred add_diff_cancel_left' assms(2) diff_Suc_1 le_Suc_ex plus_1_eq_Suc less_Suc_eq_le)
  then have "q * of_nat j \<le> q * (of_nat n - 1)" using q0 by (intro mult_left_mono)
  also have "\<dots> = q * of_nat n - q" by (simp add: right_diff_distrib)
  finally have 1: "q * of_nat j \<le> q * of_nat n - q" .
  have "q * of_nat n \<le> q * 24" using q0 n by (intro mult_left_mono)
  then have qj: "q * of_nat j \<le> (23 / 24) * (q * of_nat n)" using 1 by simp
  have "0 \<le> q * of_nat j" using q0 by simp
  then have "y \<le> q * of_nat j + (q * of_nat j / 2 ^ 24 + 1 / 2 ^ 150)"
    using f32_error[of "q * of_nat j"] unfolding y_def abs_le_iff by simp
  then have "y \<le> D + 1 / 2 ^ 140" using qj qn d assms(1) by simp
  then show "f32 (f32 (f32 D / of_nat n) * of_nat j) \<le> D + 1 / 2 ^ 140" by (simp only: d_def q_def y_def)
qed

lemma linear_subframe_range:
  assumes "factor_range a" "factor_range b" "1 \<le> n" "n \<le> 24"
  shows "list_all scale_range (linear_subframe a b n)"
proof -
  have "scale_range (f32 (a + f32 (f32 (f32 (b - a) / of_nat n) * of_nat j)))" if "j < n" for j
  proof -
    define y where "y = f32 (f32 (f32 (b - a) / of_nat n) * of_nat j)"
    have ab: "1 / 2 ^ 85 \<le> a" "a \<le> 1" "1 / 2 ^ 85 \<le> b" "b \<le> 1" using assms(1,2) by (simp_all add: factor_range_def)
    have "0 \<le> a + y \<and> a + y \<le> 1 + 1 / 2 ^ 24"
    proof (cases "a \<le> b")
      case True
      then have "0 \<le> y" "y \<le> (b - a) + 1 / 2 ^ 140" using linear_step[of "b - a" n j] assms that by (simp_all add: y_def)
      then show ?thesis using ab by simp
    next
      case False
      define y' where "y' = f32 (f32 (f32 (a - b) / of_nat n) * of_nat j)"
      have "b - a = - (a - b)" by simp
      then have "y = - y'" unfolding y_def y'_def by (simp only: f32_minus minus_divide_left[symmetric] mult_minus_left)
      moreover have "0 \<le> y'" "y' \<le> (a - b) + 1 / 2 ^ 140" using False linear_step[of "a - b" n j] assms that by (simp_all add: y'_def)
      ultimately show ?thesis using ab by simp
    qed
    then show ?thesis unfolding y_def[symmetric] by (simp add: scale_range_def f32_at_most_1)
  qed
  then show ?thesis by (simp add: linear_subframe_def list_all_iff Let_def)
qed

definition pow_ok :: "(rat \<Rightarrow> rat \<Rightarrow> rat) \<Rightarrow> bool" where
  "pow_ok pow \<longleftrightarrow> (\<forall>x. 0 \<le> x \<and> x \<le> 1 \<longrightarrow> 0 \<le> pow x 8 \<and> pow x 8 \<le> 1)"

lemma first_subframe_range:
  assumes "factor_range a" "factor_range b" "b < a" "pow_ok pow"
  shows "list_all scale_range (InterpolateFirstSubframe pow a b n)"
proof -
  have ab: "1 / 2 ^ 85 \<le> b" "a \<le> 1" using assms(1,2) by (simp_all add: factor_range_def)
  have one: "f32 1 = 1" using f32_of_int[of 1] by simp
  have "scale_range (let t = f32 (of_nat i / of_nat n) in f32 (f32 (pow (f32 (1 - t)) 8 * f32 (a - b)) + b))" if "i < n" for i
  proof -
    define t where "t = f32 (of_nat i / of_nat n)"
    have "0 \<le> t" "t \<le> 1" using that one by (simp_all add: t_def f32_le)
    then have "0 \<le> f32 (1 - t)" "f32 (1 - t) \<le> 1" using one by (simp_all add: f32_le)
    then have p: "0 \<le> pow (f32 (1 - t)) 8" "pow (f32 (1 - t)) 8 \<le> 1" using assms(4) by (simp_all add: pow_ok_def)
    define p d where "p = pow (f32 (1 - t)) 8" and "d = f32 (a - b)"
    have d: "0 \<le> d" "d \<le> (a - b) + ((a - b) / 2 ^ 24 + 1 / 2 ^ 150)"
      using assms(3) f32_error[of "a - b"] unfolding d_def abs_le_iff by simp_all
    have "p * d \<le> d" using p d(1) by (simp add: p_def mult_left_le_one_le)
    moreover have "f32 d = d" by (simp add: d_def f32_f32)
    ultimately have "f32 (p * d) \<le> d" by (rule f32_le)
    moreover have "0 \<le> f32 (p * d)" using p d(1) by (simp add: p_def)
    moreover have "(a - b) / 2 ^ 24 \<le> (1 - 1 / 2 ^ 85) / 2 ^ 24" using ab by (intro divide_right_mono) (linarith, simp)
    moreover have "(1 - 1 / 2 ^ 85) / 2 ^ 24 + 1 / 2 ^ 150 \<le> (1 / 2 ^ 24 :: rat)" by simp
    moreover have "0 \<le> b" using ab(1) by (rule order_trans[rotated]) simp
    ultimately have "0 \<le> f32 (p * d) + b \<and> f32 (p * d) + b \<le> 1 + 1 / 2 ^ 24" using d(2) ab(2) by linarith
    then show ?thesis by (simp add: scale_range_def f32_at_most_1 t_def[symmetric] p_def d_def Let_def)
  qed
  then show ?thesis
    by (simp add: InterpolateFirstSubframe_def list_all_iff kAttackFirstSubframeInterpolationPower_def)
qed

section \<open>The limiter\<close>

definition limiter_ok :: "nat \<Rightarrow> gain_limiter \<Rightarrow> bool" where
  "limiter_ok n l \<longleftrightarrow> n mod 20 = 0 \<and> 40 \<le> n \<and> n \<le> 480 \<and> samples_in_frame (level_est l) = n \<and> samples_in_sub_frame (level_est l) = n div 20 \<and>
     level_range (filter_state_level (level_est l)) \<and> factor_range (last_scaling_factor l)"

text \<open>A frame of floats with at least a channel, far from the end of the type.\<close>

definition good_view :: "nat \<Rightarrow> rat \<Rightarrow> signal_view \<Rightarrow> bool" where
  "good_view n B v \<longleftrightarrow> wf_view v \<and> view_samples v = n \<and> view_channels v \<noteq> [] \<and> (\<forall>c\<in>set (view_channels v). \<forall>x\<in>set c. f32 x = x \<and> \<bar>x\<bar> \<le> B)"

lemma look_up_gains_ok:
  assumes "list_all level_range levels"
  shows "\<exists>stats' gains. look_up_gains levels stats = Some (stats', gains) \<and> length gains = length levels \<and>
    list_all2 limiting_gain levels gains"
  using assms
proof (induction levels arbitrary: stats)
  case (Cons level levels)
  then obtain g where g: "LookUpGain level = Some g" "limiting_gain level g" using LookUpGain_ok[of level] by (auto simp: level_range_def)
  obtain stats' gains where "look_up_gains levels (UpdateStats level stats) = Some (stats', gains)" "length gains = length levels"
      "list_all2 limiting_gain levels gains"
    using Cons.IH[of "UpdateStats level stats"] Cons.prems by auto
  then show ?case using g by (simp add: LookUpGainToApply_def Let_def)
qed simp

lemma limiting_factor: "limiting_gain level gain \<Longrightarrow> factor_range gain"
  by (simp add: limiting_gain_def factor_range_def)

lemma gains_range: "list_all2 limiting_gain levels gains \<Longrightarrow> list_all factor_range gains"
  by (induction rule: list_all2_induct) (auto intro: limiting_factor)

lemma length_linear [simp]: "length (linear_subframe a b n) = n"
  by (simp add: linear_subframe_def Let_def)

lemma length_first [simp]: "length (InterpolateFirstSubframe pow a b n) = n"
  by (simp add: InterpolateFirstSubframe_def)

lemma factors_range:
  assumes "list_all factor_range fs" "length fs = 21" "n mod 20 = 0" "40 \<le> n" "n \<le> 480" "pow_ok pow"
  shows "\<exists>factors. ComputePerSampleSubframeFactors pow fs n = Some factors \<and> length factors = n \<and> list_all scale_range factors"
proof -
  let ?s = "n div 20"
  have s: "1 \<le> ?s" "?s \<le> 24" "20 * ?s = n" using assms(3-5) by auto
  have f: "factor_range (fs ! i)" if "i < 21" for i using assms(1,2) that by (simp add: list_all_length)
  have lin: "list_all scale_range (linear_subframe (fs ! i) (fs ! (i + 1)) ?s)" if "i < 20" for i
    using f[of i] f[of "i + 1"] that s by (intro linear_subframe_range) simp_all
  have len: "length (concat (map (\<lambda>i. linear_subframe (fs ! i) (fs ! (i + 1)) ?s) is)) = length is * ?s" for "is"
    by (induction "is") simp_all
  have c: "CheckedDivExact n (length fs - 1) = Some ?s" using assms(2,3) by (simp add: CheckedDivExact_def RTC_DCHECK_def)
  show ?thesis
  proof (cases "fs ! 0 > fs ! 1")
    case True
    have "list_all scale_range (InterpolateFirstSubframe pow (fs ! 0) (fs ! 1) ?s)"
      using f True assms(6) by (intro first_subframe_range) simp_all
    moreover have "list_all scale_range (concat (map (\<lambda>i. linear_subframe (fs ! i) (fs ! (i + 1)) ?s) [1..<20]))"
      using lin by (auto simp: list_all_iff)
    moreover have "length (InterpolateFirstSubframe pow (fs ! 0) (fs ! 1) ?s @ concat (map (\<lambda>i. linear_subframe (fs ! i) (fs ! (i + 1)) ?s) [1..<20])) = n"
      using s len[of "[1..<20]"] by simp
    ultimately show ?thesis using True c assms(2) by (simp add: ComputePerSampleSubframeFactors_def Let_def)
  next
    case False
    have "list_all scale_range (concat (map (\<lambda>i. linear_subframe (fs ! i) (fs ! (i + 1)) ?s) [0..<20]))"
      using lin by (auto simp: list_all_iff)
    moreover have "length (concat (map (\<lambda>i. linear_subframe (fs ! i) (fs ! (i + 1)) ?s) [0..<20])) = n" using s len[of "[0..<20]"] by simp
    ultimately show ?thesis using False c assms(2) by (simp add: ComputePerSampleSubframeFactors_def Let_def)
  qed
qed

text \<open>A sample and what the limiter makes of it.\<close>

definition limited :: "rat \<Rightarrow> rat \<Rightarrow> bool" where
  "limited x y \<longleftrightarrow> -32768 \<le> y \<and> y \<le> 32767 \<and> \<bar>y\<bar> \<le> \<bar>x\<bar> \<and> 0 \<le> x * y"

lemma scaled_limited:
  assumes "f32 x = x" "scale_range f"
  shows "limited x (SafeClamp (f32 (x * f)) kMinFloatS16Value kMaxFloatS16Value)"
proof -
  define y where "y = f32 (x * f)"
  have f: "0 \<le> f" "f \<le> 1" using assms(2) by (simp_all add: scale_range_def)
  have y: "0 \<le> x \<and> 0 \<le> y \<and> y \<le> x \<or> x \<le> 0 \<and> x \<le> y \<and> y \<le> 0"
  proof (cases "0 \<le> x")
    case True
    then have "x * f \<le> x" using f by (simp add: mult_left_le)
    then show ?thesis using True f assms(1) by (auto simp: y_def f32_le)
  next
    case False
    then have "x \<le> x * f" "x * f \<le> 0" using f by (simp_all add: mult_le_cancel_left1 mult_nonpos_nonneg)
    then show ?thesis using False f assms(1) f32_le[of "x * f" 0] by (auto simp: y_def f32_ge)
  qed
  then show ?thesis unfolding y_def[symmetric] kMinFloatS16Value_def kMaxFloatS16Value_def
    by (auto simp: limited_def SafeClamp_def zero_le_mult_iff abs_if)
qed

lemma ScaleSamples_limited:
  assumes "good_view n B v" "length factors = n" "list_all scale_range factors"
  shows "\<exists>v'. ScaleSamples factors v = Some v' \<and> wf_view v' \<and> view_samples v' = n \<and>
    list_all2 (list_all2 limited) (view_channels v) (view_channels v')"
proof -
  have "list_all2 limited c (map2 (\<lambda>sample factor. SafeClamp (f32 (sample * factor)) kMinFloatS16Value kMaxFloatS16Value) c factors)"
    if "length c = n" "\<forall>x\<in>set c. f32 x = x" for c
    using that assms(2,3) scaled_limited by (auto simp: list_all2_conv_all_nth list_all_length)
  then show ?thesis using assms
    by (auto simp: ScaleSamples_def RTC_DCHECK_def good_view_def wf_view_def list_all2_map2 list_all2_same list_all_iff intro!: list.rel_refl_strong)
qed

lemma Limiter_Process_ok:
  assumes "limiter_ok n l" "good_view n (2 ^ 100) v" "pow_ok pow"
  shows "\<exists>l' v'. Limiter_Process pow v l = Some (l', v') \<and> limiter_ok n l' \<and> wf_view v' \<and> view_samples v' = n \<and>
    list_all2 (list_all2 limited) (view_channels v) (view_channels v')"
proof -
  note l = assms(1)[unfolded limiter_ok_def]
  have v: "0 < length (view_channels v)" "view_samples v = n" "\<forall>c\<in>set (view_channels v). \<forall>x\<in>set c. \<bar>x\<bar> \<le> 2 ^ 100"
    using assms(2) by (auto simp: good_view_def)
  have "view_samples v = samples_in_frame (level_est l)" using v l by simp
  from ComputeLevel_range[OF v(1) this v(3), of level_range] l smooth_range
  obtain levels s where lv: "ComputeLevel v (level_est l) = Some ((level_est l)\<lparr>filter_state_level := s\<rparr>, levels)" "length levels = 20"
      "list_all level_range levels" "level_range s"
    by (auto simp: in_bound_def level_range_def)
  obtain stats gains where g: "look_up_gains levels (gain_curve_stats l) = Some (stats, gains)" "length gains = 20"
      "list_all2 limiting_gain levels gains"
    using look_up_gains_ok[OF lv(3), of "gain_curve_stats l"] lv(2) by auto
  have fr: "list_all factor_range (last_scaling_factor l # gains)" using gains_range[OF g(3)] l by simp
  obtain factors where f: "ComputePerSampleSubframeFactors pow (last_scaling_factor l # gains) n = Some factors" "length factors = n" "list_all scale_range factors"
    using factors_range[OF fr _ _ _ _ assms(3), of n] l g(2) by auto
  obtain v' where v': "ScaleSamples factors v = Some v'" "wf_view v'" "view_samples v' = n" "list_all2 (list_all2 limited) (view_channels v) (view_channels v')"
    using ScaleSamples_limited[OF assms(2) f(2,3)] by blast
  have "gains \<noteq> []" using g(2) by auto
  then have "factor_range (last gains)" using gains_range[OF g(3)] by (simp add: list_all_iff)
  then show ?thesis using lv g f v' v l \<open>gains \<noteq> []\<close>
    by (simp add: Limiter_Process_def RTC_DCHECK_def kMaximalNumberOfSamplesPerChannel_def limiter_ok_def)
qed

lemma new_limiter_ok:
  assumes "n mod 20 = 0" "40 \<le> n" "n \<le> 480"
  shows "\<exists>l. new_limiter n = Some l \<and> limiter_ok n l \<and> filter_state_level (level_est l) = 0 \<and> last_scaling_factor l = 1"
  using assms
  by (auto simp: new_limiter_def new_level_estimator_def Level_SetSamplesPerChannel_def CheckedDivExact_def CheckParameterCombination_def
    RTC_DCHECK_def kSubFramesInFrame_def kMaximalNumberOfSamplesPerChannel_def kInitialFilterStateLevel_def limiter_ok_def level_range_def factor_range_def)

text \<open>The states of a limiter.\<close>

inductive limiter_run :: "(rat \<Rightarrow> rat \<Rightarrow> rat) \<Rightarrow> nat \<Rightarrow> gain_limiter \<Rightarrow> bool" for pow n where
  limiter_start: "new_limiter n = Some l \<Longrightarrow> limiter_run pow n l"
| limiter_process: "limiter_run pow n l \<Longrightarrow> good_view n (2 ^ 100) v \<Longrightarrow> Limiter_Process pow v l = Some (l', v') \<Longrightarrow> limiter_run pow n l'"
| limiter_reset: "limiter_run pow n l \<Longrightarrow> limiter_run pow n (Limiter_Reset l)"

lemma limiter_run_ok: "limiter_run pow n l \<Longrightarrow> n mod 20 = 0 \<Longrightarrow> 40 \<le> n \<Longrightarrow> n \<le> 480 \<Longrightarrow> pow_ok pow \<Longrightarrow> limiter_ok n l"
proof (induction rule: limiter_run.induct)
  case (limiter_process l v l' v')
  then show ?case using Limiter_Process_ok[of n l v pow] by auto
next
  case (limiter_reset l)
  then show ?case
    by (simp add: limiter_ok_def Limiter_Reset_def Level_Reset_def kInitialFilterStateLevel_def level_range_def)
next
  case (limiter_start l)
  then show ?case using new_limiter_ok[of n] by auto
qed

text \<open>
  C37: For the frame sizes of 8000 to 48000 Hz, in any sequence of frames and resets, the limiter
  fails no check and never amplifies: each sample keeps its sign, does not grow, and ends in the
  range of 16-bit samples.
\<close>
theorem limiter_safe:
  assumes "limiter_run pow n l" "n mod 20 = 0" "40 \<le> n" "n \<le> 480" "pow_ok pow" "good_view n (2 ^ 100) v"
  shows "\<exists>l' v'. Limiter_Process pow v l = Some (l', v') \<and> limiter_run pow n l' \<and>
    list_all2 (list_all2 (\<lambda>x y. -32768 \<le> y \<and> y \<le> 32767 \<and> \<bar>y\<bar> \<le> \<bar>x\<bar> \<and> 0 \<le> x * y)) (view_channels v) (view_channels v')"
proof -
  obtain l' v' where p: "Limiter_Process pow v l = Some (l', v')" "list_all2 (list_all2 limited) (view_channels v) (view_channels v')"
    using Limiter_Process_ok[OF limiter_run_ok[OF assms(1-5)] assms(6,5)] by blast
  have "limiter_run pow n l'" by (rule limiter_process[OF assms(1,6) p(1)])
  then show ?thesis using p unfolding limited_def by blast
qed

definition demo_pow :: "rat \<Rightarrow> rat \<Rightarrow> rat" where "demo_pow x p = (if p = 8 then x ^ 8 else 0)"

lemma demo_pow_ok: "pow_ok demo_pow"
  by (simp add: pow_ok_def demo_pow_def power_le_one)

definition demo_view :: "rat \<Rightarrow> signal_view" where
  "demo_view x = \<lparr>view_samples = 160, view_channels = [replicate 160 x]\<rparr>"

lemma demo_view_good: "f32 x = x \<Longrightarrow> \<bar>x\<bar> \<le> B \<Longrightarrow> good_view 160 B (demo_view x)"
  by (simp add: good_view_def wf_view_def demo_view_def)

theorem limiter_safe_witness:
  "\<exists>l l' v'. new_limiter 160 = Some l \<and> Limiter_Process demo_pow (demo_view 60000) l = Some (l', v') \<and>
     list_all2 (list_all2 (\<lambda>x y. -32768 \<le> y \<and> y \<le> 32767 \<and> \<bar>y\<bar> \<le> \<bar>x\<bar> \<and> 0 \<le> x * y)) (view_channels (demo_view 60000)) (view_channels v')"
proof -
  obtain l where l: "new_limiter 160 = Some l" using new_limiter_ok[of 160] by auto
  have "f32 60000 = 60000" using f32_of_int[of 60000] by simp
  then have "good_view 160 (2 ^ 100) (demo_view 60000)" by (intro demo_view_good) simp_all
  from limiter_safe[OF limiter_start[OF l] _ _ _ demo_pow_ok this] l show ?thesis by auto
qed

text \<open>A quiet signal passes unchanged.\<close>

definition quiet_limiter :: "nat \<Rightarrow> gain_limiter \<Rightarrow> bool" where
  "quiet_limiter n l \<longleftrightarrow> limiter_ok n l \<and> filter_state_level (level_est l) \<le> 30057 \<and> last_scaling_factor l = 1"

lemma unit_linear: "linear_subframe 1 1 n = replicate n 1"
proof -
  have "f32 1 = 1" using f32_of_int[of 1] by simp
  then show ?thesis by (simp add: linear_subframe_def Let_def map_replicate_trivial)
qed

lemma concat_replicates: "concat (map (\<lambda>i. replicate k x) is) = replicate (length is * k) x"
  by (induction "is") (simp_all add: replicate_add)

lemma unit_factors:
  assumes "n mod 20 = 0" "length fs = 21" "\<forall>x\<in>set fs. x = 1"
  shows "ComputePerSampleSubframeFactors pow fs n = Some (replicate n 1)"
proof -
  have r: "fs ! i = 1" if "i < 21" for i using assms(2,3) that by simp
  have "map (\<lambda>i. linear_subframe (fs ! i) (fs ! (i + 1)) (n div 20)) [0..<20] = map (\<lambda>i. replicate (n div 20) 1) [0..<20]"
    using r unit_linear by (intro map_cong) auto
  then have "concat (map (\<lambda>i. linear_subframe (fs ! i) (fs ! (i + 1)) (n div 20)) [0..<20]) = replicate n 1"
    using assms(1) by (simp only: concat_replicates) (simp add: mult.commute mod_eq_0_iff_dvd)
  then show ?thesis using assms(1,2) r[of 0] r[of 1]
    by (simp add: ComputePerSampleSubframeFactors_def CheckedDivExact_def RTC_DCHECK_def Let_def)
qed

lemma quiet_gains:
  assumes "list_all (\<lambda>level. 0 \<le> level \<and> level \<le> 30057) levels"
  shows "\<exists>stats'. look_up_gains levels stats = Some (stats', replicate (length levels) 1)"
  using assms
proof (induction levels arbitrary: stats)
  case (Cons level levels)
  have "LookUpGain level = Some 1"
    using LookUpGain_ok[of level] Cons.prems by (auto simp: limiting_gain_def)
  then show ?case using Cons.IH[of "UpdateStats level stats"] Cons.prems by (auto simp: LookUpGainToApply_def Let_def)
qed simp

lemma ScaleSamples_unit:
  assumes "good_view n 30000 v"
  shows "ScaleSamples (replicate n 1) v = Some v"
proof -
  have "map2 (\<lambda>sample factor. SafeClamp (f32 (sample * factor)) kMinFloatS16Value kMaxFloatS16Value) c (replicate n 1) = c"
    if "c \<in> set (view_channels v)" for c
  proof (rule nth_equalityI)
    have c: "length c = n" "\<forall>x\<in>set c. f32 x = x \<and> \<bar>x\<bar> \<le> 30000" using assms that by (auto simp: good_view_def wf_view_def)
    then show "length (map2 (\<lambda>sample factor. SafeClamp (f32 (sample * factor)) kMinFloatS16Value kMaxFloatS16Value) c (replicate n 1)) = length c" by simp
    fix i assume "i < length (map2 (\<lambda>sample factor. SafeClamp (f32 (sample * factor)) kMinFloatS16Value kMaxFloatS16Value) c (replicate n 1))"
    then have "i < n" "f32 (c ! i) = c ! i" "\<bar>c ! i\<bar> \<le> 30000" using c by auto
    then show "map2 (\<lambda>sample factor. SafeClamp (f32 (sample * factor)) kMinFloatS16Value kMaxFloatS16Value) c (replicate n 1) ! i = c ! i"
      using c(1) by (simp add: SafeClamp_def kMinFloatS16Value_def kMaxFloatS16Value_def abs_le_iff)
  qed
  then have "map (\<lambda>c. map2 (\<lambda>sample factor. SafeClamp (f32 (sample * factor)) kMinFloatS16Value kMaxFloatS16Value) c (replicate n 1)) (view_channels v)
      = view_channels v" by (simp add: map_idI)
  then show ?thesis using assms by (simp add: ScaleSamples_def RTC_DCHECK_def good_view_def)
qed

lemma Limiter_Process_quiet:
  assumes "quiet_limiter n l" "good_view n 30000 v"
  shows "\<exists>l'. Limiter_Process pow v l = Some (l', v) \<and> quiet_limiter n l'"
proof -
  note l = assms(1)[unfolded quiet_limiter_def limiter_ok_def level_range_def]
  have v: "0 < length (view_channels v)" "view_samples v = n" "\<forall>c\<in>set (view_channels v). \<forall>x\<in>set c. \<bar>x\<bar> \<le> 30000"
    using assms(2) by (auto simp: good_view_def)
  have sz: "view_samples v = samples_in_frame (level_est l)" using v l by simp
  obtain levels s where lv: "ComputeLevel v (level_est l) = Some ((level_est l)\<lparr>filter_state_level := s\<rparr>, levels)" "length levels = 20"
      "list_all (\<lambda>x. 0 \<le> x \<and> x \<le> 30057) levels" "0 \<le> s" "s \<le> 30057"
    using ComputeLevel_range[OF v(1) sz v(3), of "\<lambda>x. 0 \<le> x \<and> x \<le> 30057"] l smooth_quiet by (auto simp: in_bound_def)
  obtain stats where g: "look_up_gains levels (gain_curve_stats l) = Some (stats, replicate 20 1)"
    using quiet_gains[OF lv(3), of "gain_curve_stats l"] lv(2) by auto
  have f: "ComputePerSampleSubframeFactors pow (1 # replicate 20 1) n = Some (replicate n 1)"
    using l by (intro unit_factors) auto
  have "Limiter_Process pow v l = Some (\<lparr>gain_curve_stats = stats, level_est = (level_est l)\<lparr>filter_state_level := s\<rparr>, last_scaling_factor = 1\<rparr>, v)"
    using lv(1) g f ScaleSamples_unit[OF assms(2)] l v(2)
    by (simp add: Limiter_Process_def RTC_DCHECK_def kMaximalNumberOfSamplesPerChannel_def)
  then show ?thesis using lv l by (auto simp: quiet_limiter_def limiter_ok_def level_range_def factor_range_def)
qed

text \<open>A stream of frames through the limiter.\<close>

primrec limit_frames :: "(rat \<Rightarrow> rat \<Rightarrow> rat) \<Rightarrow> signal_view list \<Rightarrow> gain_limiter \<Rightarrow> (gain_limiter \<times> signal_view list) option" where
  "limit_frames pow [] l = Some (l, [])"
| "limit_frames pow (v # vs) l = do {
     (l, v) \<leftarrow> Limiter_Process pow v l;
     (l, vs) \<leftarrow> limit_frames pow vs l;
     Some (l, v # vs) }"

lemma limit_frames_quiet:
  "quiet_limiter n l \<Longrightarrow> list_all (good_view n 30000) frames \<Longrightarrow> \<exists>l'. limit_frames pow frames l = Some (l', frames) \<and> quiet_limiter n l'"
proof (induction frames arbitrary: l)
  case (Cons v vs)
  obtain l1 where "Limiter_Process pow v l = Some (l1, v)" "quiet_limiter n l1"
    using Limiter_Process_quiet[of n l v pow] Cons.prems by auto
  then show ?case using Cons.IH[of l1] Cons.prems by auto
qed simp

text \<open>
  A stream whose samples stay within 30000 passes through a fresh limiter unchanged, for any
  number of frames.
\<close>
lemma limiter_transparent:
  assumes "new_limiter n = Some l" "n mod 20 = 0" "40 \<le> n" "n \<le> 480" "list_all (good_view n 30000) frames"
  shows "\<exists>l'. limit_frames pow frames l = Some (l', frames)"
proof -
  have "quiet_limiter n l" using new_limiter_ok[of n] assms(1-4) by (auto simp: quiet_limiter_def)
  then show ?thesis using limit_frames_quiet[OF _ assms(5)] by blast
qed

lemma limiter_transparent_run:
  "\<exists>l l'. new_limiter 160 = Some l \<and> limit_frames demo_pow [demo_view 30000, demo_view (-1)] l = Some (l', [demo_view 30000, demo_view (-1)])"
proof -
  obtain l where l: "new_limiter 160 = Some l" using new_limiter_ok[of 160] by auto
  have "f32 30000 = 30000" "f32 (-1) = -1" using f32_of_int[of 30000] f32_of_int[of "-1"] by simp_all
  then have "list_all (good_view 160 30000) [demo_view 30000, demo_view (-1)]" by (simp add: demo_view_good)
  from limiter_transparent[OF l _ _ _ this] l show ?thesis by auto
qed

text \<open>
  The gain the curve gives for a level is at most one, is one up to the knee, and brings the
  level to at most 32768 but for the rounding of floats; none of its checks can fail.
\<close>
lemma gain_curve_limits:
  assumes "0 \<le> level" "level \<le> 2 ^ 100"
  shows "\<exists>gain. LookUpGain level = Some gain \<and> 0 \<le> gain \<and> gain \<le> 1 \<and> gain * level \<le> 32769 \<and> (level \<le> 30057 \<longrightarrow> gain = 1)"
  using LookUpGain_ok[of level] assms by (auto simp: limiting_gain_def)

end
