(* ===== verification/Voice_Api.thy ===== *)
theory Voice_Api
  imports Audio_Frames Limiter_Safety Aec_Adjust
begin

text \<open>
  The C interfaces of \<^verbatim>\<open>crates/fswtch-apm-sys/cpp/wrapper/\<close>: \<^verbatim>\<open>agc2_c_api.cc\<close>, \<^verbatim>\<open>hpf_c_api.cc\<close>
  and \<^verbatim>\<open>aec3_c_api.cc\<close>. A handle or a frame that is a null pointer is \<^const>\<open>None\<close>; a frame is
  overwritten in place, so a call returns its status, the handle and the frame. The outer
  \<^const>\<open>None\<close> is a failed check of the classes below, which no status reports. A handle that is
  deleted is gone, and running out of memory is not modelled.
\<close>

section \<open>Gain control\<close>

record agc2_handle =
  fixed_gain_applier :: gain_applier
  agc2_limiter :: gain_limiter
  agc2_buf :: apm_buffer
  agc2_cfg :: stream_config
  limiter_enabled :: bool

definition whole_rate_buffer :: "int \<Rightarrow> nat \<Rightarrow> apm_buffer option" where
  "whole_rate_buffer rate channels = new_apm_buffer (nat rate) channels (nat rate) channels (nat rate) kAverageChannels kAverageChannels"

definition new_Agc2Handle :: "(rat \<Rightarrow> rat \<Rightarrow> rat) \<Rightarrow> rat \<Rightarrow> bool \<Rightarrow> int \<Rightarrow> nat \<Rightarrow> agc2_handle option" where
  "new_Agc2Handle pow fixed_gain_db enable sample_rate_hz channels = do {
     let applier = new_gain_applier False (DbToRatio pow fixed_gain_db);
     limiter \<leftarrow> new_limiter (nat sample_rate_hz div 100);
     buf \<leftarrow> whole_rate_buffer sample_rate_hz channels;
     Some \<lparr>fixed_gain_applier = applier, agc2_limiter = limiter, agc2_buf = buf,
       agc2_cfg = new_stream_config sample_rate_hz channels, limiter_enabled = enable\<rparr> }"

definition fswtch_agc2_create :: "(rat \<Rightarrow> rat \<Rightarrow> rat) \<Rightarrow> rat \<Rightarrow> int \<Rightarrow> int \<Rightarrow> nat \<Rightarrow> agc2_handle option option" where
  "fswtch_agc2_create pow fixed_gain_db enable sample_rate_hz channels =
     (if sample_rate_hz \<le> 0 \<or> channels = 0 then Some None
      else map_option Some (new_Agc2Handle pow fixed_gain_db (enable \<noteq> 0) sample_rate_hz channels))"

definition agc2_process_frame :: "(rat \<Rightarrow> rat \<Rightarrow> rat) \<Rightarrow> int list \<Rightarrow> agc2_handle \<Rightarrow> (agc2_handle \<times> int list) option" where
  "agc2_process_frame pow frame h = do {
     buf \<leftarrow> CopyFrom_s16 frame (agc2_cfg h) (agc2_buf h);
     let v = buf_view buf;
     (applier, v) \<leftarrow> ApplyGain v (fixed_gain_applier h);
     (limiter, v) \<leftarrow> (if limiter_enabled h then Limiter_Process pow v (agc2_limiter h) else Some (agc2_limiter h, v));
     let buf = write_view_back v buf;
     frame \<leftarrow> CopyTo_s16 (agc2_cfg h) frame buf;
     Some (h\<lparr>fixed_gain_applier := applier, agc2_limiter := limiter, agc2_buf := buf\<rparr>, frame) }"

definition fswtch_agc2_process ::
    "(rat \<Rightarrow> rat \<Rightarrow> rat) \<Rightarrow> agc2_handle option \<Rightarrow> int list option \<Rightarrow> nat \<Rightarrow> (int \<times> agc2_handle option \<times> int list option) option" where
  "fswtch_agc2_process pow agc2 frame channels =
     (case (agc2, frame) of
        (Some h, Some xs) \<Rightarrow>
          if channels \<noteq> sc_num_channels (agc2_cfg h) then Some (2, agc2, frame)
          else do { (h, xs) \<leftarrow> agc2_process_frame pow xs h; Some (0, Some h, Some xs) }
      | _ \<Rightarrow> Some (1, agc2, frame))"

section \<open>High pass filter\<close>

record hpf_handle =
  handle_hpf :: high_pass_filter
  hpf_buf :: apm_buffer
  hpf_cfg :: stream_config

definition new_HpfHandle :: "int \<Rightarrow> nat \<Rightarrow> hpf_handle option" where
  "new_HpfHandle sample_rate_hz channels = do {
     hpf \<leftarrow> new_high_pass_filter sample_rate_hz channels;
     buf \<leftarrow> whole_rate_buffer sample_rate_hz channels;
     Some \<lparr>handle_hpf = hpf, hpf_buf = buf, hpf_cfg = new_stream_config sample_rate_hz channels\<rparr> }"

definition fswtch_hpf_create :: "int \<Rightarrow> nat \<Rightarrow> hpf_handle option option" where
  "fswtch_hpf_create sample_rate_hz channels =
     (if sample_rate_hz \<le> 0 \<or> channels = 0 then Some None else map_option Some (new_HpfHandle sample_rate_hz channels))"

definition hpf_process_frame :: "int list \<Rightarrow> hpf_handle \<Rightarrow> (hpf_handle \<times> int list) option" where
  "hpf_process_frame frame h = do {
     buf \<leftarrow> CopyFrom_s16 frame (hpf_cfg h) (hpf_buf h);
     (hpf, buf) \<leftarrow> HighPassFilter_Process_buffer False buf (handle_hpf h);
     frame \<leftarrow> CopyTo_s16 (hpf_cfg h) frame buf;
     Some (h\<lparr>handle_hpf := hpf, hpf_buf := buf\<rparr>, frame) }"

definition fswtch_hpf_process :: "hpf_handle option \<Rightarrow> int list option \<Rightarrow> nat \<Rightarrow> (int \<times> hpf_handle option \<times> int list option) option" where
  "fswtch_hpf_process hpf frame channels =
     (case (hpf, frame) of
        (Some h, Some xs) \<Rightarrow>
          if channels \<noteq> sc_num_channels (hpf_cfg h) then Some (2, hpf, frame)
          else do { (h, xs) \<leftarrow> hpf_process_frame xs h; Some (0, Some h, Some xs) }
      | _ \<Rightarrow> Some (1, hpf, frame))"

section \<open>Echo canceller\<close>

record fswtch_aec3_config =
  filter_refined_length_blocks :: nat
  filter_coarse_length_blocks :: nat
  config_delay_headroom_samples :: nat
  ep_strength_default_len :: cfloat
  config_erle_min :: cfloat
  config_erle_max_l :: cfloat
  config_erle_max_h :: cfloat

definition fswtch_aec3_default_config :: fswtch_aec3_config where
  "fswtch_aec3_default_config = \<lparr>filter_refined_length_blocks = 13, filter_coarse_length_blocks = 13,
     config_delay_headroom_samples = 32, ep_strength_default_len = flt (83 / 100),
     config_erle_min = flt 1, config_erle_max_l = flt 4, config_erle_max_h = flt (15 / 10)\<rparr>"

definition BuildConfig :: "fswtch_aec3_config option \<Rightarrow> aec3_config" where
  "BuildConfig cfg =
     (case cfg of None \<Rightarrow> default_config
      | Some cfg \<Rightarrow>
         (let c = default_config; f = cfg_filter c; e = cfg_erle c in
          c\<lparr>cfg_filter := f\<lparr>refined := (refined f)\<lparr>r_length_blocks := filter_refined_length_blocks cfg\<rparr>,
                            coarse := (coarse f)\<lparr>c_length_blocks := filter_coarse_length_blocks cfg\<rparr>\<rparr>,
            cfg_delay := (cfg_delay c)\<lparr>delay_headroom_samples := config_delay_headroom_samples cfg\<rparr>,
            cfg_ep_strength := (cfg_ep_strength c)\<lparr>default_len := ep_strength_default_len cfg\<rparr>,
            cfg_erle := e\<lparr>erle_min := config_erle_min cfg, erle_max_l := config_erle_max_l cfg, erle_max_h := config_erle_max_h cfg\<rparr>\<rparr>))"

text \<open>The filter class the canceller gets: a filter for 16 kHz, whose check on the channels holds in the canceller.\<close>

definition aec3_high_pass :: "high_pass_filter high_pass_class" where
  "aec3_high_pass = \<lparr>hp_new = (\<lambda>channels. \<lparr>hpf_sample_rate_hz = 16000, hpf_filters = replicate channels (new_cascade kHighPassFilterCoefficients16kHz)\<rparr>),
     hp_Process = (\<lambda>f band. case HighPassFilter_Process band f of None \<Rightarrow> (f, band) | Some r \<Rightarrow> r)\<rparr>"

record ('m, 'f, 's, 'k, 'r) aec3_handle =
  handle_aec :: "('m, 'f, 's, 'k, 'r, high_pass_filter) echo_canceller"
  render_buf :: apm_buffer
  capture_buf :: apm_buffer
  render_cfg :: stream_config
  capture_cfg :: stream_config
  handle_sample_rate_hz :: int

definition new_Aec3Handle ::
    "('m, 'f, 's, 'k, 'r) parts \<Rightarrow> int \<Rightarrow> nat \<Rightarrow> nat \<Rightarrow> fswtch_aec3_config option \<Rightarrow> ('m, 'f, 's, 'k, 'r) aec3_handle option" where
  "new_Aec3Handle parts sample_rate_hz render_channels capture_channels cfg = do {
     aec \<leftarrow> EchoCanceller3_create parts aec3_high_pass no_trials (BuildConfig cfg) None (nat sample_rate_hz) render_channels capture_channels;
     rb \<leftarrow> whole_rate_buffer sample_rate_hz render_channels;
     cb \<leftarrow> whole_rate_buffer sample_rate_hz capture_channels;
     Some \<lparr>handle_aec = aec, render_buf = rb, capture_buf = cb, render_cfg = new_stream_config sample_rate_hz render_channels,
       capture_cfg = new_stream_config sample_rate_hz capture_channels, handle_sample_rate_hz = sample_rate_hz\<rparr> }"

definition fswtch_aec3_create ::
    "('m, 'f, 's, 'k, 'r) parts \<Rightarrow> fswtch_aec3_config option \<Rightarrow> int \<Rightarrow> nat \<Rightarrow> nat \<Rightarrow> ('m, 'f, 's, 'k, 'r) aec3_handle option option" where
  "fswtch_aec3_create parts config sample_rate_hz render_channels capture_channels =
     (if sample_rate_hz \<le> 0 \<or> render_channels = 0 \<or> capture_channels = 0 then Some None
      else (let config = (case config of None \<Rightarrow> Some fswtch_aec3_default_config | Some c \<Rightarrow> Some c)
            in map_option Some (new_Aec3Handle parts sample_rate_hz render_channels capture_channels config)))"

text \<open>The bands of a buffer as the canceller sees them, and what it leaves in them.\<close>

definition aec_view :: "apm_buffer \<Rightarrow> rat audio_buffer" where
  "aec_view b = \<lparr>ab_channels = buf_num_channels b, ab_bands = buf_num_bands b,
     split_bands = map (\<lambda>ch. map (read_band (split_source b) ch) [0..<buf_num_bands b]) [0..<buf_num_channels b]\<rparr>"

definition aec_write :: "rat audio_buffer \<Rightarrow> apm_buffer \<Rightarrow> apm_buffer" where
  "aec_write v b = fold (\<lambda>ch. fold (\<lambda>k. write_split_band ch k (split_bands v ! ch ! k)) [0..<ab_bands v]) [0..<ab_channels v] b"

definition FSWTCH_AEC3_OK :: int where [cval]: "FSWTCH_AEC3_OK = 0"
definition FSWTCH_AEC3_E_NULL_ARG :: int where [cval]: "FSWTCH_AEC3_E_NULL_ARG = 1"
definition FSWTCH_AEC3_E_CHANNELS :: int where [cval]: "FSWTCH_AEC3_E_CHANNELS = 2"

definition fswtch_aec3_analyze_render ::
    "('m, 'f, 's, 'k, 'r) aec3_handle option \<Rightarrow> int list option \<Rightarrow> nat \<Rightarrow> (int \<times> ('m, 'f, 's, 'k, 'r) aec3_handle option) option" where
  "fswtch_aec3_analyze_render aec render channels =
     (case (aec, render) of
        (Some h, Some xs) \<Rightarrow>
          if channels \<noteq> sc_num_channels (render_cfg h) then Some (FSWTCH_AEC3_E_CHANNELS, aec)
          else do {
            buf \<leftarrow> CopyFrom_s16 xs (render_cfg h) (render_buf h);
            buf \<leftarrow> (if buf_num_bands buf > 1 then SplitIntoFrequencyBands buf else Some buf);
            ec \<leftarrow> AnalyzeRender aec3_high_pass (aec_view buf) (handle_aec h);
            Some (FSWTCH_AEC3_OK, Some (h\<lparr>render_buf := buf, handle_aec := ec\<rparr>)) }
      | _ \<Rightarrow> Some (FSWTCH_AEC3_E_NULL_ARG, aec))"

definition aec3_capture_frame ::
    "('m, 'f, 's, 'k, 'r) parts \<Rightarrow> int list \<Rightarrow> bool \<Rightarrow> ('m, 'f, 's, 'k, 'r) aec3_handle \<Rightarrow> (('m, 'f, 's, 'k, 'r) aec3_handle \<times> int list) option" where
  "aec3_capture_frame parts capture level_change h = do {
     buf \<leftarrow> CopyFrom_s16 capture (capture_cfg h) (capture_buf h);
     buf \<leftarrow> (if buf_num_bands buf > 1 then SplitIntoFrequencyBands buf else Some buf);
     let ec = AnalyzeCapture (take (buf_num_channels buf) (cb_data (buf_data buf))) (handle_aec h);
     (ec, _, v) \<leftarrow> EchoCanceller3_ProcessCapture parts (aec_view buf) None level_change ec;
     let buf = aec_write v buf;
     buf \<leftarrow> (if buf_num_bands buf > 1 then MergeFrequencyBands buf else Some buf);
     capture \<leftarrow> CopyTo_s16 (capture_cfg h) capture buf;
     Some (h\<lparr>capture_buf := buf, handle_aec := ec\<rparr>, capture) }"

definition fswtch_aec3_process_capture ::
    "('m, 'f, 's, 'k, 'r) parts \<Rightarrow> ('m, 'f, 's, 'k, 'r) aec3_handle option \<Rightarrow> int list option \<Rightarrow> nat \<Rightarrow> int \<Rightarrow>
     (int \<times> ('m, 'f, 's, 'k, 'r) aec3_handle option \<times> int list option) option" where
  "fswtch_aec3_process_capture parts aec capture channels level_change =
     (case (aec, capture) of
        (Some h, Some xs) \<Rightarrow>
          if channels \<noteq> sc_num_channels (capture_cfg h) then Some (FSWTCH_AEC3_E_CHANNELS, aec, capture)
          else do { (h, xs) \<leftarrow> aec3_capture_frame parts xs (level_change \<noteq> 0) h; Some (FSWTCH_AEC3_OK, Some h, Some xs) }
      | _ \<Rightarrow> Some (FSWTCH_AEC3_E_NULL_ARG, aec, capture))"

definition fswtch_aec3_set_audio_buffer_delay :: "int \<Rightarrow> ('m, 'f, 's, 'k, 'r) aec3_handle option \<Rightarrow> ('m, 'f, 's, 'k, 'r) aec3_handle option" where
  "fswtch_aec3_set_audio_buffer_delay delay_ms aec = map_option (handle_aec_update (EchoCanceller3_SetAudioBufferDelay delay_ms)) aec"

definition fswtch_aec3_active_processing :: "('m, 'f, 's, 'k, 'r) aec3_handle option \<Rightarrow> int" where
  "fswtch_aec3_active_processing aec = (case aec of None \<Rightarrow> 0 | Some h \<Rightarrow> if ActiveProcessing (handle_aec h) then 1 else 0)"

definition fswtch_aec3_get_metrics :: "('m, 'f, 's, 'k, 'r) parts \<Rightarrow> ('m, 'f, 's, 'k, 'r) aec3_handle option \<Rightarrow> (rat \<times> rat \<times> int) option" where
  "fswtch_aec3_get_metrics parts aec = (case aec of None \<Rightarrow> Some (0, 0, 0) | Some h \<Rightarrow> EchoCanceller3_GetMetrics parts (handle_aec h))"

end
