(* ===== verification/Voice_Gain.thy ===== *)
theory Voice_Gain
  imports Voice_Api
begin

text \<open>
  The gain control of the C interface: which rates it can be created for, and what it does to frames.
\<close>

section \<open>Gain control through the C interface\<close>

lemma FloatS16ToS16_sign: "0 \<le> z \<Longrightarrow> 0 \<le> FloatS16ToS16 z" "z \<le> 0 \<Longrightarrow> FloatS16ToS16 z \<le> 0"
proof -
  show "0 \<le> FloatS16ToS16 z" if "0 \<le> z"
  proof -
    define w where "w = max (min z 32767) (- 32768)"
    have w: "0 \<le> w" using that by (simp add: w_def)
    then have "\<not> f32 (w + 1 / 2) < 0" by (simp add: not_less)
    then show ?thesis using w unfolding FloatS16ToS16_def Let_def w_def[symmetric] by (simp add: copysign_def trunc_def)
  qed
  show "FloatS16ToS16 z \<le> 0" if z: "z \<le> 0"
  proof (cases "z = 0")
    case True
    have "f32 (1 / 2) = 1 / 2" using f32_half[of 1] by simp
    then show ?thesis using True by (simp add: FloatS16ToS16_def Let_def copysign_def trunc_def)
  next
    case False
    define w where "w = max (min z 32767) (- 32768)"
    have "w < 0" using False z by (auto simp: w_def)
    moreover have "f32 (w - 1 / 2) \<le> 0" using f32_mono[of "w - 1 / 2" 0] \<open>w < 0\<close> by simp
    ultimately show ?thesis unfolding FloatS16ToS16_def Let_def w_def[symmetric] by (auto simp: copysign_def trunc_def)
  qed
qed

definition agc2_ok :: "rat \<Rightarrow> nat \<Rightarrow> nat \<Rightarrow> agc2_handle \<Rightarrow> bool" where
  "agc2_ok r n c h \<longleftrightarrow> same_rate n c (agc2_buf h) \<and> sc_num_channels (agc2_cfg h) = c \<and> sc_num_frames (agc2_cfg h) = n \<and>
     last_gain_factor (fixed_gain_applier h) = r \<and> current_gain_factor (fixed_gain_applier h) = r \<and>
     \<not> hard_clip_samples (fixed_gain_applier h) \<and> limiter_ok n (agc2_limiter h)"

definition s16_frame :: "nat \<Rightarrow> nat \<Rightarrow> int list \<Rightarrow> bool" where
  "s16_frame n c frame \<longleftrightarrow> length frame = n * c \<and> list_all is_s16 frame"

text \<open>A fixed gain: nothing, or a product for each sample.\<close>

definition gained :: "rat \<Rightarrow> rat \<Rightarrow> rat" where
  "gained r x = (if GainCloseToOne r then x else f32 (x * r))"

lemma ApplyGain_fixed:
  assumes "last_gain_factor ga = r" "current_gain_factor ga = r" "\<not> hard_clip_samples ga" "0 < view_samples v"
  shows "\<exists>ga'. ApplyGain v ga = Some (ga', view_channels_update (map (map (gained r))) v) \<and>
    last_gain_factor ga' = r \<and> current_gain_factor ga' = r \<and> \<not> hard_clip_samples ga'"
  using assms
  by (cases v) (auto simp: ApplyGain_def GainApplier_Initialize_def RTC_DCHECK_def ApplyGainWithRamping_def Let_def gained_def[abs_def])

lemma buf_view_with: "same_rate n c b \<Longrightarrow> planar n c d \<Longrightarrow> buf_view (with_channels d b) = \<lparr>view_samples = n, view_channels = d\<rparr>"
  by (simp add: buf_view_def with_channels_def same_rate_def planar_def)

lemma write_view_with: "planar n c (view_channels v) \<Longrightarrow> planar n c d \<Longrightarrow> write_view_back v (with_channels d b) = with_channels (view_channels v) b"
  by (simp add: write_view_back_def with_channels_def planar_def)

lemma decode_elem: "x \<in> set ch \<Longrightarrow> ch \<in> set (decode n c frame) \<Longrightarrow> s16_frame n c frame \<Longrightarrow> \<exists>k. x = of_int k \<and> k \<in> set frame \<and> is_s16 k"
proof -
  assume a: "x \<in> set ch" "ch \<in> set (decode n c frame)" "s16_frame n c frame"
  then obtain i j where ij: "i < c" "j < n" "x = of_int (frame ! (i + j * c))" by (auto simp: decode_def)
  have "i + j * c < length frame" using frame_place2[OF ij(1,2)] a(3) by (simp add: s16_frame_def)
  then show "\<exists>k. x = of_int k \<and> k \<in> set frame \<and> is_s16 k" using ij(3) a(3) by (auto simp: s16_frame_def list_all_length)
qed

lemma s16_abs: "is_s16 k \<Longrightarrow> \<bar>of_int k :: rat\<bar> \<le> 32768"
  by (auto simp: is_s16_def abs_if)

lemma gained_float:
  assumes "is_s16 k" "0 \<le> r" "r \<le> 2 ^ 80"
  shows "f32 (gained r (of_int k)) = gained r (of_int k)" "\<bar>gained r (of_int k)\<bar> \<le> 2 ^ 100" "0 \<le> of_int k * gained r (of_int k)"
proof -
  show "f32 (gained r (of_int k)) = gained r (of_int k)" using assms(1) by (simp add: gained_def f32_s16 f32_f32)
  have k: "\<bar>of_int k :: rat\<bar> \<le> 32768" by (rule s16_abs[OF assms(1)])
  have "\<bar>of_int k * r\<bar> \<le> 32768 * 2 ^ 80" unfolding abs_mult using k assms by (intro mult_mono) simp_all
  then have kr: "of_int k * r \<le> 2 ^ 100" "- (2 ^ 100) \<le> of_int k * r" unfolding abs_le_iff by simp_all
  have "f32 (of_int k * r) \<le> 2 ^ 100" using kr(1) f32_2_100(1) by (rule f32_le)
  moreover have "- (2 ^ 100) \<le> f32 (of_int k * r)" using kr(2) f32_2_100(1) by (intro f32_ge) (simp_all add: f32_minus)
  moreover have "\<bar>of_int k :: rat\<bar> \<le> 2 ^ 100" using k by simp
  ultimately show "\<bar>gained r (of_int k)\<bar> \<le> 2 ^ 100" by (simp add: gained_def abs_le_iff)
  have "0 \<le> of_int k * f32 (of_int k * r)"
  proof (cases "0 \<le> k")
    case True
    then show ?thesis using assms(2) by simp
  next
    case False
    then have "of_int k * r \<le> 0" using assms(2) by (simp add: mult_nonpos_nonneg)
    then have "f32 (of_int k * r) \<le> 0" using f32_mono[of "of_int k * r" 0] by simp
    then show ?thesis using False by (simp add: mult_nonpos_nonpos)
  qed
  then show "0 \<le> of_int k * gained r (of_int k)" by (simp add: gained_def)
qed

lemma list_all2_planar: "list_all2 (list_all2 P) d d' \<Longrightarrow> planar n c d \<Longrightarrow> planar n c d'"
  by (auto simp: planar_def list_all2_conv_all_nth in_set_conv_nth) (metis nth_mem)

lemma encode_sign:
  assumes "list_all2 (list_all2 (\<lambda>x y. 0 \<le> x * y)) (decode n c frame) d" "s16_frame n c frame"
  shows "list_all2 (\<lambda>x y. is_s16 y \<and> 0 \<le> x * y) frame (encode n c d)"
  unfolding list_all2_conv_all_nth
proof (intro conjI allI impI)
  show "length frame = length (encode n c d)" using assms(2) by (simp add: s16_frame_def encode_def)
next
  fix p assume "p < length frame"
  then have p: "p < n * c" using assms(2) by (simp add: s16_frame_def)
  let ?z = "d ! (p mod c) ! (p div c)"
  show "is_s16 (encode n c d ! p)" using p by (simp add: encode_def conversions_in_range)
  have "length (decode n c frame) = c" "length (decode n c frame ! (p mod c)) = n" using frame_place[OF p] by (simp_all add: decode_def)
  then have "0 \<le> decode n c frame ! (p mod c) ! (p div c) * ?z"
    using list_all2_nthD[OF list_all2_nthD[OF assms(1), of "p mod c"], of "p div c"] frame_place[OF p] by simp
  then have s: "0 \<le> of_int (frame ! p) * ?z" using frame_place[OF p] by (simp add: decode_def)
  then have "0 \<le> frame ! p * FloatS16ToS16 ?z"
    using FloatS16ToS16_sign[of ?z] by (cases "frame ! p" "0 :: int" rule: linorder_cases) (auto simp: zero_le_mult_iff)
  then show "0 \<le> frame ! p * encode n c d ! p" using p by (simp add: encode_def)
qed

lemma sign_trans: "0 \<le> (x::rat) * y \<Longrightarrow> \<bar>z\<bar> \<le> \<bar>y\<bar> \<Longrightarrow> 0 \<le> y * z \<Longrightarrow> 0 \<le> x * z"
  by (auto simp: zero_le_mult_iff)

lemma agc2_process_ok:
  assumes "agc2_ok r n c h" "s16_frame n c frame" "pow_ok pow" "0 \<le> r" "r \<le> 2 ^ 80"
  shows "\<exists>h' out. agc2_process_frame pow frame h = Some (h', out) \<and> agc2_ok r n c h' \<and> limiter_enabled h' = limiter_enabled h \<and>
    list_all2 (\<lambda>x y. is_s16 y \<and> 0 \<le> x * y) frame out"
proof -
  have b: "same_rate n c (agc2_buf h)" and cfg: "sc_num_channels (agc2_cfg h) = c" "sc_num_frames (agc2_cfg h) = n" and l: "limiter_ok n (agc2_limiter h)"
    using assms(1) by (simp_all add: agc2_ok_def)
  have fr: "length frame = n * c" "list_all is_s16 frame" using assms(2) by (simp_all add: s16_frame_def)
  have n0: "0 < n" "0 < c" using b by (simp_all add: same_rate_def)
  let ?d = "decode n c frame"
  let ?v = "\<lparr>view_samples = n, view_channels = map (map (gained r)) ?d\<rparr> :: signal_view"
  obtain ga where ga: "ApplyGain \<lparr>view_samples = n, view_channels = ?d\<rparr> (fixed_gain_applier h) = Some (ga, ?v)"
    "last_gain_factor ga = r" "current_gain_factor ga = r" "\<not> hard_clip_samples ga"
    using ApplyGain_fixed[of "fixed_gain_applier h" r "\<lparr>view_samples = n, view_channels = ?d\<rparr>"] assms(1) n0 by (auto simp: agc2_ok_def)
  have gv: "good_view n (2 ^ 100) ?v"
  proof -
    have "f32 y = y \<and> \<bar>y\<bar> \<le> 2 ^ 100" if ch: "ch \<in> set ?d" and y: "y \<in> set (map (gained r) ch)" for ch y
    proof -
      obtain x where "x \<in> set ch" "y = gained r x" using y by auto
      then obtain k where "y = gained r (of_int k)" "is_s16 k" using decode_elem[OF _ ch assms(2)] by blast
      then show ?thesis using gained_float[OF _ assms(4,5)] by simp
    qed
    moreover have "?d \<noteq> []" using n0(2) by (simp add: decode_def)
    moreover have "wf_view ?v" by (auto simp: wf_view_def decode_def)
    ultimately show ?thesis by (auto simp: good_view_def)
  qed
  have signs: "list_all2 (list_all2 (\<lambda>x y. 0 \<le> x * y)) ?d (map (map (gained r)) ?d)"
  proof -
    have "0 \<le> x * gained r x" if ch: "ch \<in> set ?d" and x: "x \<in> set ch" for ch x
    proof -
      obtain k where "x = of_int k" "is_s16 k" using decode_elem[OF x ch assms(2)] by blast
      then show ?thesis using gained_float(3)[OF _ assms(4,5)] by simp
    qed
    then show ?thesis by (auto simp: list_all2_map2 list_all2_same)
  qed
  obtain l' v where lv: "(if limiter_enabled h then Limiter_Process pow ?v (agc2_limiter h) else Some (agc2_limiter h, ?v)) = Some (l', v)"
    "limiter_ok n l'" "list_all2 (list_all2 (\<lambda>x y. 0 \<le> x * y)) ?d (view_channels v)"
  proof (cases "limiter_enabled h")
    case True
    obtain l' v where p: "Limiter_Process pow ?v (agc2_limiter h) = Some (l', v)" "limiter_ok n l'"
      "list_all2 (list_all2 limited) (map (map (gained r)) ?d) (view_channels v)"
      using Limiter_Process_ok[OF l gv assms(3)] by auto
    have "list_all2 (list_all2 (\<lambda>x y. 0 \<le> x * y)) ?d (view_channels v)"
      using signs p(3) sign_trans unfolding limited_def list_all2_conv_all_nth by fastforce
    then show thesis using that p True by simp
  next
    case False
    then show thesis using that[of "agc2_limiter h" ?v] l signs by simp
  qed
  have pl: "planar n c (view_channels v)" by (rule list_all2_planar[OF lv(3) planar_decode])
  have wb: "write_view_back v (with_channels ?d (agc2_buf h)) = with_channels (view_channels v) (agc2_buf h)"
    by (rule write_view_with[OF pl planar_decode])
  have b': "same_rate n c (with_channels (view_channels v) (agc2_buf h))" by (rule with_channels_same[OF b pl])
  have bv: "buf_view (with_channels ?d (agc2_buf h)) = \<lparr>view_samples = n, view_channels = ?d\<rparr>" by (rule buf_view_with[OF b planar_decode])
  have out: "CopyTo_s16 (agc2_cfg h) frame (with_channels (view_channels v) (agc2_buf h)) = Some (encode n c (view_channels v))"
    using CopyTo_same[OF b' fr(1) cfg] by (simp add: with_channels_def)
  show ?thesis
    using encode_sign[OF lv(3) assms(2)] lv(1,2) ga b' cfg
    by (simp add: agc2_process_frame_def CopyFrom_same[OF b fr cfg] bv wb out agc2_ok_def)
qed

text \<open>A call with a frame, as a step with the handle as its state.\<close>

definition agc2_call :: "(rat \<Rightarrow> rat \<Rightarrow> rat) \<Rightarrow> nat \<Rightarrow> agc2_handle option \<Rightarrow> int list \<Rightarrow> (agc2_handle option \<times> int \<times> int list option) option" where
  "agc2_call pow c h frame = map_option (\<lambda>(status, h, out). (h, status, out)) (fswtch_agc2_process pow h (Some frame) c)"

lemma agc2_call_handle: "sc_num_channels (agc2_cfg h) = c \<Longrightarrow>
    agc2_call pow c (Some h) frame = map_option (\<lambda>(h, out). (Some h, 0, Some out)) (agc2_process_frame pow frame h)"
  by (cases "agc2_process_frame pow frame h") (auto simp: agc2_call_def fswtch_agc2_process_def)

lemma frame_size: "0 < rate \<Longrightarrow> nat (GetFrameSize rate) = nat rate div 100"
  by (simp add: GetFrameSize_def nat_div_distrib)

lemma agc2_create_ok:
  assumes "0 < rate" "nat rate div 100 = n" "n mod 20 = 0" "40 \<le> n" "n \<le> 480" "0 < c"
  shows "\<exists>h. fswtch_agc2_create pow db enable rate c = Some (Some h) \<and> agc2_ok (DbToRatio pow db) n c h \<and>
    quiet_limiter n (agc2_limiter h) \<and> limiter_enabled h = (enable \<noteq> 0)"
proof -
  obtain l where l: "new_limiter n = Some l" "quiet_limiter n l" using new_limiter_ok[OF assms(3-5)] by (auto simp: quiet_limiter_def)
  obtain b where b: "whole_rate_buffer rate c = Some b" "same_rate n c b"
    using new_apm_buffer_same[OF assms(2) _ assms(6)] assms(4) by (auto simp: whole_rate_buffer_def)
  show ?thesis using l b assms(1,6)
    by (auto simp: fswtch_agc2_create_def new_Agc2Handle_def assms(2) agc2_ok_def new_stream_config_def frame_size new_gain_applier_def quiet_limiter_def)
qed

text \<open>
  C38: With a frame size the limiter can divide and any gain up to a factor of two to the power of
  80, a gain control is created and no call with a frame fails: every call reports success, its
  samples are in the range of 16 bits, and none has changed its sign.
\<close>
theorem agc2_safe:
  assumes "0 < rate" "nat rate div 100 = n" "n mod 20 = 0" "40 \<le> n" "n \<le> 480" "0 < c"
    "pow_ok pow" "0 \<le> DbToRatio pow db" "DbToRatio pow db \<le> 2 ^ 80" "list_all (s16_frame n c) frames"
  shows "\<exists>h h' outs. fswtch_agc2_create pow db enable rate c = Some (Some h) \<and>
    run_steps (agc2_call pow c) (Some h) frames = Some (Some h', map (\<lambda>out. (0, Some out)) outs) \<and>
    list_all2 (list_all2 (\<lambda>x y. -32768 \<le> y \<and> y \<le> 32767 \<and> 0 \<le> x * y)) frames outs"
proof -
  obtain h where h: "fswtch_agc2_create pow db enable rate c = Some (Some h)" "agc2_ok (DbToRatio pow db) n c h"
    using agc2_create_ok[OF assms(1-6)] by blast
  have "\<exists>h' outs. run_steps (agc2_call pow c) (Some h) frames = Some (Some h', map (\<lambda>out. (0, Some out)) outs) \<and>
    list_all2 (list_all2 (\<lambda>x y. is_s16 y \<and> 0 \<le> x * y)) frames outs"
    using h(2) assms(10)
  proof (induction frames arbitrary: h)
    case (Cons frame frames)
    obtain h1 out where 1: "agc2_process_frame pow frame h = Some (h1, out)" "agc2_ok (DbToRatio pow db) n c h1"
      "list_all2 (\<lambda>x y. is_s16 y \<and> 0 \<le> x * y) frame out"
      using agc2_process_ok[OF Cons.prems(1) _ assms(7-9)] Cons.prems(2) by fastforce
    obtain h' outs where 2: "run_steps (agc2_call pow c) (Some h1) frames = Some (Some h', map (\<lambda>out. (0, Some out)) outs)"
      "list_all2 (list_all2 (\<lambda>x y. is_s16 y \<and> 0 \<le> x * y)) frames outs" using Cons.IH[OF 1(2)] Cons.prems(2) by auto
    have "sc_num_channels (agc2_cfg h) = c" using Cons.prems(1) by (simp add: agc2_ok_def)
    then show ?case using 1 2 by (intro exI[of _ h'] exI[of _ "out # outs"]) (simp add: agc2_call_handle)
  qed simp
  then show ?thesis using h(1) unfolding is_s16_def conj_assoc by blast
qed

definition unit_pow :: "rat \<Rightarrow> rat \<Rightarrow> rat" where "unit_pow x p = (if p = 8 then x ^ 8 else 1)"

lemma unit_pow_ok: "pow_ok unit_pow"
  by (simp add: pow_ok_def unit_pow_def power_le_one)

lemma f32_zero [simp]: "f32 0 = 0"
  by (simp add: f32_def round_bits_def)

theorem agc2_safe_witness:
  "\<exists>h h' out. fswtch_agc2_create unit_pow 0 1 16000 1 = Some (Some h) \<and>
    run_steps (agc2_call unit_pow 1) (Some h) [replicate 160 (-32768)] = Some (Some h', [(0, Some out)]) \<and>
    list_all2 (\<lambda>x y. -32768 \<le> y \<and> y \<le> 32767 \<and> 0 \<le> x * y) (replicate 160 (-32768)) out"
proof -
  have "list_all (s16_frame 160 1) [replicate 160 (-32768)]" by (simp add: s16_frame_def is_s16_def list_all_iff)
  from agc2_safe[of 16000 160 1 unit_pow 0 "[replicate 160 (-32768)]" 1, OF _ _ _ _ _ _ unit_pow_ok _ _ this]
  show ?thesis by (auto simp: DbToRatio_def unit_pow_def list_all2_Cons1)
qed

lemma GainCloseToOne_1: "GainCloseToOne 1"
proof -
  have "f32 1 = 1" using f32_of_int[of 1] by simp
  moreover have "0 \<le> f32 (1 / kMaxFloatS16Value)" by (simp add: kMaxFloatS16Value_def)
  ultimately show ?thesis by (auto simp: GainCloseToOne_def intro: f32_le f32_ge)
qed

lemma agc2_process_quiet:
  assumes "agc2_ok 1 n c h" "limiter_enabled h \<Longrightarrow> quiet_limiter n (agc2_limiter h)" "s16_frame n c frame"
    "limiter_enabled h \<Longrightarrow> \<forall>x\<in>set frame. \<bar>x\<bar> \<le> 30000"
  shows "\<exists>h'. agc2_process_frame pow frame h = Some (h', frame) \<and> agc2_ok 1 n c h' \<and> limiter_enabled h' = limiter_enabled h \<and>
    (limiter_enabled h' \<longrightarrow> quiet_limiter n (agc2_limiter h'))"
proof -
  have b: "same_rate n c (agc2_buf h)" and cfg: "sc_num_channels (agc2_cfg h) = c" "sc_num_frames (agc2_cfg h) = n"
    using assms(1) by (simp_all add: agc2_ok_def)
  have fr: "length frame = n * c" "list_all is_s16 frame" using assms(3) by (simp_all add: s16_frame_def)
  have n0: "0 < n" "0 < c" using b by (simp_all add: same_rate_def)
  let ?d = "decode n c frame"
  let ?v = "\<lparr>view_samples = n, view_channels = ?d\<rparr> :: signal_view"
  have "map (map (gained 1)) ?d = ?d" by (simp add: gained_def[abs_def] GainCloseToOne_1)
  then obtain ga where ga: "ApplyGain ?v (fixed_gain_applier h) = Some (ga, ?v)"
    "last_gain_factor ga = 1" "current_gain_factor ga = 1" "\<not> hard_clip_samples ga"
    using ApplyGain_fixed[of "fixed_gain_applier h" 1 ?v] assms(1) n0 by (auto simp: agc2_ok_def)
  obtain l' where l': "(if limiter_enabled h then Limiter_Process pow ?v (agc2_limiter h) else Some (agc2_limiter h, ?v)) = Some (l', ?v)"
    "limiter_ok n l'" "limiter_enabled h \<Longrightarrow> quiet_limiter n l'"
  proof (cases "limiter_enabled h")
    case True
    have "f32 y = y \<and> \<bar>y\<bar> \<le> 30000" if ch: "ch \<in> set ?d" and y: "y \<in> set ch" for ch y
    proof -
      obtain k where k: "y = of_int k" "k \<in> set frame" "is_s16 k" using decode_elem[OF y ch assms(3)] by blast
      have "\<bar>k\<bar> \<le> 30000" using assms(4)[OF True] k(2) by blast
      then have "(of_int \<bar>k\<bar> :: rat) \<le> of_int 30000" by (simp only: of_int_le_iff)
      then show ?thesis using k(1,3) by (simp add: f32_s16)
    qed
    moreover have "wf_view ?v" by (auto simp: wf_view_def decode_def)
    moreover have "?d \<noteq> []" using n0(2) by (simp add: decode_def)
    ultimately have "good_view n 30000 ?v" by (simp add: good_view_def)
    from Limiter_Process_quiet[OF assms(2)[OF True] this, of pow] that True show thesis by (auto simp: quiet_limiter_def)
  next
    case False
    then show thesis using that[of "agc2_limiter h"] assms(1) by (simp add: agc2_ok_def)
  qed
  let ?b = "with_channels ?d (agc2_buf h)"
  have b': "same_rate n c ?b" by (rule with_channels_same[OF b planar_decode])
  have bv: "buf_view ?b = ?v" by (rule buf_view_with[OF b planar_decode])
  have wb: "write_view_back ?v ?b = ?b" using write_view_with[of n c ?v ?d "agc2_buf h"] by simp
  have out: "CopyTo_s16 (agc2_cfg h) frame ?b = Some frame"
    using CopyTo_same[OF b' fr(1) cfg] encode_decode[OF fr] by (simp add: with_channels_def)
  show ?thesis
    using l' ga b' cfg by (simp add: agc2_process_frame_def CopyFrom_same[OF b fr cfg] bv wb out agc2_ok_def)
qed

text \<open>
  C7: With a gain of 0 dB the C interface of the gain control gives every frame back bit by bit,
  for any number of channels: always without the limiter, and with it as long as no sample is
  beyond 30000.
\<close>
theorem agc2_transparent:
  assumes "0 < rate" "nat rate div 100 = n" "n mod 20 = 0" "40 \<le> n" "n \<le> 480" "0 < c" "pow 10 0 = 1"
    "list_all (s16_frame n c) frames" "enable \<noteq> 0 \<Longrightarrow> \<forall>frame\<in>set frames. \<forall>x\<in>set frame. \<bar>x\<bar> \<le> 30000"
  shows "\<exists>h h'. fswtch_agc2_create pow 0 enable rate c = Some (Some h) \<and>
    run_steps (agc2_call pow c) (Some h) frames = Some (Some h', map (\<lambda>frame. (0, Some frame)) frames)"
proof -
  have "DbToRatio pow 0 = 1" using assms(7) by (simp add: DbToRatio_def)
  then obtain h where h: "fswtch_agc2_create pow 0 enable rate c = Some (Some h)" "agc2_ok 1 n c h"
    "limiter_enabled h \<longrightarrow> quiet_limiter n (agc2_limiter h)" "limiter_enabled h = (enable \<noteq> 0)"
    using agc2_create_ok[OF assms(1-6), of pow 0 enable] by auto
  have "\<exists>h'. run_steps (agc2_call pow c) (Some h) frames = Some (Some h', map (\<lambda>frame. (0, Some frame)) frames)"
    using h(2-4) assms(8,9)
  proof (induction frames arbitrary: h)
    case (Cons frame frames)
    obtain h1 where 1: "agc2_process_frame pow frame h = Some (h1, frame)" "agc2_ok 1 n c h1" "limiter_enabled h1 = limiter_enabled h"
      "limiter_enabled h1 \<longrightarrow> quiet_limiter n (agc2_limiter h1)"
      using agc2_process_quiet[OF Cons.prems(1), of frame pow] Cons.prems by auto
    obtain h' where 2: "run_steps (agc2_call pow c) (Some h1) frames = Some (Some h', map (\<lambda>frame. (0, Some frame)) frames)"
      using Cons.IH[OF 1(2,4)] 1(3) Cons.prems by auto
    have "sc_num_channels (agc2_cfg h) = c" using Cons.prems(1) by (simp add: agc2_ok_def)
    then show ?case using 1 2 by (intro exI[of _ h']) (simp add: agc2_call_handle)
  qed simp
  then show ?thesis using h(1) by blast
qed

theorem agc2_transparent_witness:
  "\<exists>h h'. fswtch_agc2_create unit_pow 0 1 8000 2 = Some (Some h) \<and>
    run_steps (agc2_call unit_pow 2) (Some h) [replicate 160 30000, replicate 160 (-5)] =
      Some (Some h', [(0, Some (replicate 160 30000)), (0, Some (replicate 160 (-5)))])"
proof -
  have "list_all (s16_frame 80 2) [replicate 160 30000, replicate 160 (-5)]" by (simp add: s16_frame_def is_s16_def list_all_iff)
  from agc2_transparent[of 8000 80 2 unit_pow "[replicate 160 30000, replicate 160 (-5)]" 1, OF _ _ _ _ _ _ _ this]
  show ?thesis by (auto simp: unit_pow_def)
qed

text \<open>
  C39: A gain control is created exactly for the rates whose frame of 10 ms has 40 to 480 samples in
  twenty equal parts; at any other positive rate a check fails instead of a null pointer coming
  back, also at 44100 Hz, which is divisible by 100.
\<close>
theorem agc2_create_rates:
  assumes "0 < rate" "0 < c"
  shows "fswtch_agc2_create pow db enable rate c \<noteq> None \<longleftrightarrow>
    nat rate div 100 mod 20 = 0 \<and> 40 \<le> nat rate div 100 \<and> nat rate div 100 \<le> 480"
proof -
  define n where "n = nat rate div 100"
  have "new_limiter n = None" if "\<not> (n mod 20 = 0 \<and> 40 \<le> n \<and> n \<le> 480)"
    using that
    by (auto simp: new_limiter_def new_level_estimator_def Level_SetSamplesPerChannel_def CheckedDivExact_def CheckParameterCombination_def
      RTC_DCHECK_def kSubFramesInFrame_def kMaximalNumberOfSamplesPerChannel_def split: bind_splits)
  then have none: "fswtch_agc2_create pow db enable rate c = None" if "\<not> (n mod 20 = 0 \<and> 40 \<le> n \<and> n \<le> 480)"
    using that assms unfolding n_def by (simp add: fswtch_agc2_create_def new_Agc2Handle_def Let_def)
  show ?thesis
  proof (cases "n mod 20 = 0 \<and> 40 \<le> n \<and> n \<le> 480")
    case True
    then show ?thesis using agc2_create_ok[OF assms(1) n_def[symmetric] _ _ _ assms(2), of pow db enable] unfolding n_def by fastforce
  next
    case False
    then show ?thesis using none[OF False] unfolding n_def by simp
  qed
qed

theorem agc2_create_rates_witness: "fswtch_agc2_create unit_pow 0 1 44100 1 = None"
  using agc2_create_rates[of 44100 1 unit_pow 0 1] by simp

end
