(* ===== verification/Voice_Filter.thy ===== *)
theory Voice_Filter
  imports Voice_Gain
begin

text \<open>
  The high pass filter of the C interface on a stream of frames.
\<close>

section \<open>High pass filter through the C interface\<close>

definition channel_of :: "nat \<Rightarrow> nat \<Rightarrow> int list \<Rightarrow> nat \<Rightarrow> int list" where
  "channel_of n c frame i = map (\<lambda>j. frame ! (i + j * c)) [0..<n]"

lemma decode_channel: "i < c \<Longrightarrow> decode n c frame ! i = map of_int (channel_of n c frame i)"
  by (simp add: decode_def channel_of_def)

lemma place_mod: "i < c \<Longrightarrow> (i + j * c) mod c = i" "i < c \<Longrightarrow> (i + j * c) div c = (j::nat)"
  by simp_all

lemma channel_encode: "i < c \<Longrightarrow> length (d ! i) = n \<Longrightarrow> channel_of n c (encode n c d) i = map FloatS16ToS16 (d ! i)"
  by (rule nth_equalityI) (simp_all add: channel_of_def encode_def frame_place2 place_mod)

lemma HighPass_Process_same:
  assumes "same_rate n c b" "planar n c d" "length (hpf_filters f) = c"
  defines "r \<equiv> \<lambda>k. Cascade_Process (d ! k) (hpf_filters f ! k)"
  shows "HighPassFilter_Process_buffer False (with_channels d b) f =
    Some (f\<lparr>hpf_filters := map (\<lambda>k. fst (r k)) [0..<c]\<rparr>, with_channels (map (\<lambda>k. snd (r k)) [0..<c]) b)"
proof -
  define body where "body = (\<lambda>k (f :: high_pass_filter, b). do {
       channel \<leftarrow> Some (channel_data b k);
       let (qs, y) = Cascade_Process channel (hpf_filters f ! k);
       let f = f\<lparr>hpf_filters := (hpf_filters f)[k := qs]\<rparr>;
       Some (f, set_channel k y b) })"
  have "loop_option body [0..<k] (f, with_channels d b) =
      Some (f\<lparr>hpf_filters := map (\<lambda>k. fst (r k)) [0..<k] @ drop k (hpf_filters f)\<rparr>, with_channels (map (\<lambda>k. snd (r k)) [0..<k] @ drop k d) b)"
    if "k \<le> c" for k
    using that
  proof (induction k)
    case (Suc k)
    let ?e = "map (\<lambda>k. snd (r k)) [0..<k] @ drop k d" and ?q = "map (\<lambda>k. fst (r k)) [0..<k] @ drop k (hpf_filters f)"
    have k: "k < c" "length d = c" "length (d ! k) = n" using Suc.prems assms(2) by (simp_all add: planar_def)
    have e: "?e ! k = d ! k" "?q ! k = hpf_filters f ! k" using k assms(3) by (simp_all add: nth_append)
    have s: "set_channel k (snd (r k)) (with_channels ?e b) = with_channels (?e[k := snd (r k)]) b"
      using set_channel_data[of "with_channels ?e b" n k "snd (r k)"] e k assms(1)
      by (simp add: with_channels_def same_rate_def r_def length_Cascade_Process)
    have u: "?e[k := snd (r k)] = map (\<lambda>k. snd (r k)) [0..<Suc k] @ drop (Suc k) d"
      "?q[k := fst (r k)] = map (\<lambda>k. fst (r k)) [0..<Suc k] @ drop (Suc k) (hpf_filters f)"
      using k assms(3) by (simp_all add: list_update_append Cons_nth_drop_Suc[symmetric])
    have "body k (f\<lparr>hpf_filters := ?q\<rparr>, with_channels ?e b) =
        Some (f\<lparr>hpf_filters := ?q[k := fst (r k)]\<rparr>, set_channel k (snd (r k)) (with_channels ?e b))"
      using e by (simp add: body_def channel_data_def with_channels_def r_def split_beta Let_def)
    then show ?case using Suc unfolding s u by (simp add: loop_option_append)
  qed simp
  from this[of c] show ?thesis
    using assms(1-3) by (simp add: HighPassFilter_Process_buffer_def RTC_DCHECK_def body_def[symmetric] planar_def)
      (simp add: body_def with_channels_def same_rate_def)
qed

definition hpf_call :: "nat \<Rightarrow> hpf_handle option \<Rightarrow> int list \<Rightarrow> (hpf_handle option \<times> int \<times> int list option) option" where
  "hpf_call c h frame = map_option (\<lambda>(status, h, out). (h, status, out)) (fswtch_hpf_process h (Some frame) c)"

text \<open>A channel of the first frames, and what filtering it leaves.\<close>

definition channel_past :: "nat \<Rightarrow> nat \<Rightarrow> int list list \<Rightarrow> nat \<Rightarrow> nat \<Rightarrow> rat list" where
  "channel_past n c frames t i = map of_int (concat (map (\<lambda>frame. channel_of n c frame i) (take t frames)))"

definition hpf_fits :: "biquad_coefficients list \<Rightarrow> nat \<Rightarrow> nat \<Rightarrow> int list list \<Rightarrow> nat \<Rightarrow> hpf_handle option \<Rightarrow> bool" where
  "hpf_fits cs n c frames t s \<longleftrightarrow> (\<exists>h. s = Some h \<and> same_rate n c (hpf_buf h) \<and> sc_num_channels (hpf_cfg h) = c \<and> sc_num_frames (hpf_cfg h) = n \<and>
     hpf_filters (handle_hpf h) = map (\<lambda>i. fst (Cascade_Process (channel_past n c frames t i) (new_cascade cs))) [0..<c])"

definition hpf_value :: "biquad_coefficients list \<Rightarrow> nat \<Rightarrow> nat \<Rightarrow> int list list \<Rightarrow> nat \<Rightarrow> int \<times> int list option" where
  "hpf_value cs n c frames t = (0, Some (encode n c (map (\<lambda>i. snd (Cascade_Process (decode n c (frames ! t) ! i)
     (fst (Cascade_Process (channel_past n c frames t i) (new_cascade cs))))) [0..<c])))"

lemma channel_past_Suc: "t < length frames \<Longrightarrow> i < c \<Longrightarrow> channel_past n c frames (Suc t) i = channel_past n c frames t i @ decode n c (frames ! t) ! i"
  by (simp add: channel_past_def take_Suc_conv_app_nth decode_channel)

lemma Cascade_Process_split:
  "fst (Cascade_Process (x @ y) qs) = fst (Cascade_Process y (fst (Cascade_Process x qs)))"
  "snd (Cascade_Process (x @ y) qs) = snd (Cascade_Process x qs) @ snd (Cascade_Process y (fst (Cascade_Process x qs)))"
  by (simp_all add: Cascade_Process_append split_beta Let_def)

interpretation hpf_stream: positioned_stage "hpf_call c" "hpf_fits cs n c" "hpf_value cs n c" "s16_frame n c" for cs n c
proof (unfold_locales, goal_cases)
  case (1 frames t s)
  obtain h where h: "s = Some h" "same_rate n c (hpf_buf h)" "sc_num_channels (hpf_cfg h) = c" "sc_num_frames (hpf_cfg h) = n"
    "hpf_filters (handle_hpf h) = map (\<lambda>i. fst (Cascade_Process (channel_past n c frames t i) (new_cascade cs))) [0..<c]"
    using 1(3) by (auto simp: hpf_fits_def)
  let ?frame = "frames ! t"
  have fr: "length ?frame = n * c" "list_all is_s16 ?frame" using 1(1,2) by (simp_all add: list_all_length s16_frame_def)
  let ?d = "decode n c ?frame"
  define r where "r = (\<lambda>k. Cascade_Process (?d ! k) (hpf_filters (handle_hpf h) ! k))"
  have p: "HighPassFilter_Process_buffer False (with_channels ?d (hpf_buf h)) (handle_hpf h) =
      Some ((handle_hpf h)\<lparr>hpf_filters := map (\<lambda>k. fst (r k)) [0..<c]\<rparr>, with_channels (map (\<lambda>k. snd (r k)) [0..<c]) (hpf_buf h))"
    unfolding r_def by (rule HighPass_Process_same[OF h(2) planar_decode]) (simp add: h(5))
  have pl: "planar n c (map (\<lambda>k. snd (r k)) [0..<c])" by (auto simp: planar_def r_def length_Cascade_Process decode_def)
  have b': "same_rate n c (with_channels (map (\<lambda>k. snd (r k)) [0..<c]) (hpf_buf h))" by (rule with_channels_same[OF h(2) pl])
  have ct: "CopyTo_s16 (hpf_cfg h) ?frame (with_channels (map (\<lambda>k. snd (r k)) [0..<c]) (hpf_buf h)) = Some (encode n c (map (\<lambda>k. snd (r k)) [0..<c]))"
    using CopyTo_same[OF b' fr(1) h(3,4)] by (simp add: with_channels_def)
  have new: "map (\<lambda>k. fst (r k)) [0..<c] = map (\<lambda>i. fst (Cascade_Process (channel_past n c frames (Suc t) i) (new_cascade cs))) [0..<c]"
    using 1(2) by (intro map_cong refl) (simp add: r_def h(5) channel_past_Suc Cascade_Process_split)
  have val: "map (\<lambda>k. snd (r k)) [0..<c] =
      map (\<lambda>i. snd (Cascade_Process (?d ! i) (fst (Cascade_Process (channel_past n c frames t i) (new_cascade cs))))) [0..<c]"
    by (intro map_cong refl) (simp add: r_def h(5))
  have hp: "hpf_process_frame ?frame h = Some (h\<lparr>handle_hpf := (handle_hpf h)\<lparr>hpf_filters := map (\<lambda>k. fst (r k)) [0..<c]\<rparr>,
      hpf_buf := with_channels (map (\<lambda>k. snd (r k)) [0..<c]) (hpf_buf h)\<rparr>, encode n c (map (\<lambda>k. snd (r k)) [0..<c]))"
    by (simp add: hpf_process_frame_def CopyFrom_same[OF h(2) fr h(3,4)] p ct)
  show ?case using b' h(3,4) new
    by (simp add: hpf_call_def fswtch_hpf_process_def h(1) hp hpf_value_def val[symmetric] hpf_fits_def)
qed

lemma hpf_create_ok:
  assumes "ChooseCoefficients rate = Some cs" "0 < c"
  shows "\<exists>h. fswtch_hpf_create rate c = Some (Some h) \<and> hpf_fits cs (nat rate div 100) c frames 0 (Some h)"
proof -
  have r: "rate = 16000 \<or> rate = 32000 \<or> rate = 48000" using assms(1) by (simp add: ChooseCoefficients_def split: if_splits)
  then have r0: "0 < rate" "0 < nat rate div 100" by auto
  obtain b where b: "whole_rate_buffer rate c = Some b" "same_rate (nat rate div 100) c b"
    using new_apm_buffer_same[OF refl r0(2) assms(2)] by (auto simp: whole_rate_buffer_def)
  have e: "Cascade_Process [] (new_cascade cs) = (new_cascade cs, [])"
    by (induction cs) (simp_all add: new_cascade_def ApplyBiQuad_def new_biquad_def)
  show ?thesis using b r0 assms
    by (simp add: fswtch_hpf_create_def new_HpfHandle_def new_high_pass_filter_def hpf_fits_def new_stream_config_def frame_size
      channel_past_def e map_replicate_const)
qed

text \<open>
  C9: The high pass filter of the C interface works on each channel on its own and does not depend on
  how the stream is cut into frames: over any number of frames each channel comes out as the three
  recursive filters, started at rest, give it for the whole stream.
\<close>
theorem hpf_stream_filtered:
  assumes "ChooseCoefficients rate = Some cs" "0 < c" "n = nat rate div 100" "list_all (s16_frame n c) frames"
  shows "\<exists>h h' outs. fswtch_hpf_create rate c = Some (Some h) \<and>
    run_steps (hpf_call c) (Some h) frames = Some (h', map (\<lambda>out. (0, Some out)) outs) \<and>
    (\<forall>i<c. concat (map (\<lambda>out. channel_of n c out i) outs) =
      map FloatS16ToS16 (snd (Cascade_Process (map of_int (concat (map (\<lambda>frame. channel_of n c frame i) frames))) (new_cascade cs))))"
proof -
  obtain h where h: "fswtch_hpf_create rate c = Some (Some h)" "hpf_fits cs n c frames 0 (Some h)"
    using hpf_create_ok[OF assms(1,2)] unfolding assms(3) by blast
  obtain h' where run: "run_steps (hpf_call c) (Some h) frames = Some (h', map (hpf_value cs n c frames) [0..<length frames])"
    using hpf_stream.run_all[OF assms(4) h(2)] by blast
  define f where "f = (\<lambda>t i. snd (Cascade_Process (decode n c (frames ! t) ! i) (fst (Cascade_Process (channel_past n c frames t i) (new_cascade cs)))))"
  define outs where "outs = map (\<lambda>t. encode n c (map (f t) [0..<c])) [0..<length frames]"
  have o: "map (hpf_value cs n c frames) [0..<length frames] = map (\<lambda>out. (0, Some out)) outs"
    by (simp add: outs_def hpf_value_def f_def)
  have "concat (map (\<lambda>t. channel_of n c (encode n c (map (f t) [0..<c])) i) [0..<t]) =
      map FloatS16ToS16 (snd (Cascade_Process (channel_past n c frames t i) (new_cascade cs)))" if i: "i < c" and t: "t \<le> length frames" for i t
    using t
  proof (induction t)
    case 0
    have "snd (Cascade_Process [] qs) = []" for qs by (metis length_Cascade_Process(1) length_0_conv)
    then show ?case by (simp add: channel_past_def)
  next
    case (Suc t)
    have "length (f t i) = n" using i by (simp add: f_def length_Cascade_Process decode_def)
    then have "channel_of n c (encode n c (map (f t) [0..<c])) i = map FloatS16ToS16 (f t i)" using i by (simp add: channel_encode)
    then show ?case using Suc i by (simp add: channel_past_Suc Cascade_Process_split f_def)
  qed
  from this[OF _ order_refl] have "\<forall>i<c. concat (map (\<lambda>out. channel_of n c out i) outs) =
      map FloatS16ToS16 (snd (Cascade_Process (map of_int (concat (map (\<lambda>frame. channel_of n c frame i) frames))) (new_cascade cs)))"
    by (simp add: outs_def channel_past_def comp_def)
  then show ?thesis using h(1) run unfolding o by blast
qed

theorem hpf_stream_filtered_witness:
  "\<exists>h h' out. fswtch_hpf_create 16000 1 = Some (Some h) \<and>
    run_steps (hpf_call 1) (Some h) [replicate 160 1000] = Some (h', [(0, Some out)]) \<and>
    channel_of 160 1 out 0 = map FloatS16ToS16 (snd (Cascade_Process (replicate 160 1000) (new_cascade kHighPassFilterCoefficients16kHz)))"
proof -
  have c: "channel_of 160 1 (replicate 160 1000) 0 = replicate 160 1000"
    by (rule nth_equalityI) (simp_all add: channel_of_def del: upt_Suc)
  have fr: "list_all (s16_frame 160 1) [replicate 160 1000]" by (simp add: s16_frame_def is_s16_def list_all_iff)
  have cs: "ChooseCoefficients 16000 = Some kHighPassFilterCoefficients16kHz" by (simp add: ChooseCoefficients_def)
  from hpf_stream_filtered[OF cs _ _ fr] obtain h h' outs where r: "fswtch_hpf_create 16000 1 = Some (Some h)"
    "run_steps (hpf_call 1) (Some h) [replicate 160 1000] = Some (h', map (\<lambda>out. (0, Some out)) outs)"
    "\<forall>i<1. concat (map (\<lambda>out. channel_of 160 1 out i) outs) =
      map FloatS16ToS16 (snd (Cascade_Process (map of_int (concat (map (\<lambda>frame. channel_of 160 1 frame i) [replicate 160 1000]))) (new_cascade kHighPassFilterCoefficients16kHz)))"
    by auto
  have "length outs = 1" using r(2) by (auto split: bind_splits)
  then obtain out where "outs = [out]" by (cases outs) auto
  then show ?thesis using r c by (intro exI[of _ h] exI[of _ h'] exI[of _ out]) (simp add: map_replicate)
qed

end
