(* ===== verification/Voice_Bands.thy ===== *)
theory Voice_Bands
  imports Voice_Filter
begin

text \<open>
  The bands of an audio buffer as the echo canceller sees them: the split and the merge keep the shape
  of the buffer at every supported rate, and at 16 kHz the one band is the channel itself.
\<close>

section \<open>Bands of a buffer\<close>

lemma loop_option_inv:
  assumes "\<And>i s. i \<in> set is \<Longrightarrow> I s \<Longrightarrow> \<exists>s'. body i s = Some s' \<and> I s'" "I s"
  shows "\<exists>s'. loop_option body is s = Some s' \<and> I s'"
  using assms
proof (induction "is" arbitrary: s)
  case (Cons i "is")
  obtain s1 where "body i s = Some s1" "I s1" using Cons.prems by fastforce
  then show ?case using Cons.IH[of s1] Cons.prems by auto
qed simp

lemma fold_inv: "(\<And>i s. i \<in> set is \<Longrightarrow> I s \<Longrightarrow> I (f i s)) \<Longrightarrow> I s \<Longrightarrow> I (fold f is s)"
  by (induction "is" arbitrary: s) simp_all

text \<open>The filter bank works on frames of its size whatever its states are.\<close>

lemma FilterCore_total: "in_shift \<le> 3 \<Longrightarrow> \<exists>r. FilterCore coeffs input in_shift state = Some r"
  by (simp add: FilterCore_def RTC_DCHECK_def bank_sizes Let_def)

lemma ThreeBand_Analysis_total: "\<exists>bank' out. ThreeBand_Analysis input bank = Some (bank', out) \<and> band_shape out"
proof -
  have "\<exists>s'. loop_option (analysis_step input) filter_order (state_analysis bank, replicate 3 (replicate 160 0)) = Some s' \<and> (case s' of (_, out) \<Rightarrow> band_shape out)"
  proof (rule loop_option_inv)
    fix ds and s :: "rat list list \<times> rat list list"
    assume a: "ds \<in> set filter_order" "case s of (_, out) \<Rightarrow> band_shape out"
    obtain states out where s: "s = (states, out)" by fastforce
    show "\<exists>s'. analysis_step input ds s = Some s' \<and> (case s' of (_, out) \<Rightarrow> band_shape out)"
    proof (cases "filter_index ds")
      case None
      then show ?thesis using a s by (simp add: analysis_step_def)
    next
      case (Some f)
      obtain r where "FilterCore (kFilterCoeffs ! f) (map (\<lambda>k. input ! (2 - fst ds + 3 * k)) [0..<160]) (snd ds) (states ! f) = Some r"
        using FilterCore_total[OF filter_order_facts(2)[OF a(1)]] by blast
      then show ?thesis by (simp add: analysis_step_def s Some bank_sizes band_shape_def split_beta del: upt_Suc)
    qed
  qed (simp add: band_shape_def)
  then show ?thesis by (auto simp: ThreeBand_Analysis_def bank_sizes)
qed

lemma ThreeBand_Synthesis_total:
  assumes "band_shape bands"
  shows "\<exists>bank' out. ThreeBand_Synthesis bands bank = Some (bank', out) \<and> length out = 480"
proof -
  have "\<exists>s'. loop_option (synthesis_step bands) filter_order (state_synthesis bank, replicate 480 0) = Some s' \<and> (case s' of (_, out) \<Rightarrow> length out = 480)"
  proof (rule loop_option_inv)
    fix us and s :: "rat list list \<times> rat list"
    assume a: "us \<in> set filter_order" "case s of (_, out) \<Rightarrow> length out = 480"
    obtain states out where s: "s = (states, out)" by fastforce
    show "\<exists>s'. synthesis_step bands us s = Some s' \<and> (case s' of (_, out) \<Rightarrow> length out = 480)"
    proof (cases "filter_index us")
      case None
      then show ?thesis using a s by (simp add: synthesis_step_def)
    next
      case (Some f)
      obtain sub state where r: "FilterCore (kFilterCoeffs ! f) (modulate_bands (kDctModulation ! f) bands) (snd us) (states ! f) = Some (sub, state)"
        using FilterCore_total[OF filter_order_facts(2)[OF a(1)]] by fastforce
      have "RTC_DCHECK (\<forall>band\<in>{0..<3}. length (bands ! band) = 160) = Some ()" using assms by (simp add: RTC_DCHECK_def band_shape_def)
      moreover have "length (upsample_add (fst us) sub out) = 480" using upsample_add_nth(1)[OF _ filter_order_facts(1)[OF a(1)]] a(2) s by simp
      ultimately show ?thesis using r by (simp add: synthesis_step_def s Some bank_sizes)
    qed
  qed simp
  then show ?thesis by (auto simp: ThreeBand_Synthesis_def bank_sizes)
qed

text \<open>Channel buffers of one shape.\<close>

definition cb_shape :: "nat \<Rightarrow> nat \<Rightarrow> nat \<Rightarrow> channel_buffer \<Rightarrow> bool" where
  "cb_shape n c nb cb \<longleftrightarrow> cb_frames cb = n \<and> cb_channels cb = c \<and> cb_bands cb = nb \<and> planar n c (cb_data cb)"

lemma write_band_shape:
  assumes "cb_shape (160 * nb) c nb cb" "0 < nb" "ch < c" "k < nb" "length xs = 160"
  shows "cb_shape (160 * nb) c nb (write_band ch k xs cb)"
proof -
  have l: "length (cb_data cb) = c" "length (cb_data cb ! ch) = 160 * nb" "frames_per_band cb = 160"
    using assms by (simp_all add: cb_shape_def planar_def frames_per_band_def)
  have "k * 160 + 160 \<le> 160 * nb" using assms(4) by simp
  then have "length (take (k * 160) (cb_data cb ! ch) @ xs @ drop (k * 160 + 160) (cb_data cb ! ch)) = 160 * nb"
    using l(2) assms(5) by simp
  then show ?thesis using assms l by (auto simp: cb_shape_def planar_def write_band_def dest!: set_update_subset_insert[THEN subsetD])
qed

lemma write_whole_shape:
  assumes "cb_shape n c 1 cb" "ch < c" "length xs = n"
  shows "cb_shape n c 1 (write_band ch 0 xs cb)"
  using assms by (auto simp: cb_shape_def planar_def write_band_def frames_per_band_def dest!: set_update_subset_insert[THEN subsetD])

lemma length_read_band: "cb_shape (160 * nb) c nb cb \<Longrightarrow> 0 < nb \<Longrightarrow> ch < c \<Longrightarrow> k < nb \<Longrightarrow> length (read_band cb ch k) = 160"
proof -
  assume a: "cb_shape (160 * nb) c nb cb" "0 < nb" "ch < c" "k < nb"
  then have "k * 160 + 160 \<le> 160 * nb" "length (cb_data cb ! ch) = 160 * nb" "frames_per_band cb = 160"
    by (simp_all add: cb_shape_def planar_def frames_per_band_def)
  then show ?thesis by (simp add: read_band_def)
qed

lemma length_read_whole: "cb_shape n c 1 cb \<Longrightarrow> ch < c \<Longrightarrow> read_band cb ch 0 = cb_data cb ! ch"
  by (simp add: cb_shape_def planar_def read_band_def frames_per_band_def)

definition sf_shape :: "nat \<Rightarrow> nat \<Rightarrow> splitting_filter \<Rightarrow> bool" where
  "sf_shape nb c sf \<longleftrightarrow> sf_bands sf = nb \<and> two_bands_states sf = (if nb = 2 then c else 0) \<and>
     length (three_band_filter_banks sf) = (if nb = 3 then c else 0)"

lemma Splitting_Analysis_shape:
  assumes "nb = 2 \<or> nb = 3" "sf_shape nb c sf" "cb_shape (160 * nb) c 1 data" "cb_shape (160 * nb) c nb bands"
  shows "\<exists>sf' bands'. Splitting_Analysis data (sf, bands) = Some (sf', bands') \<and> sf_shape nb c sf' \<and> cb_shape (160 * nb) c nb bands'"
  using assms(1)
proof
  assume nb: "nb = 2"
  have "\<exists>bands'. loop_option (\<lambda>i bands. let (low, high) = AnalysisQMF (read_band data i 0)
      in Some (write_band i 1 high (write_band i 0 low bands))) [0..<c] bands = Some bands' \<and> cb_shape (160 * nb) c nb bands'"
  proof (rule loop_option_inv)
    fix i s assume i: "i \<in> set [0..<c]" "cb_shape (160 * nb) c nb s"
    obtain low high where q: "AnalysisQMF (read_band data i 0) = (low, high)" by fastforce
    have "length (read_band data i 0) = 320" using length_read_whole[OF assms(3), of i] assms(3) i(1) nb by (simp add: cb_shape_def planar_def)
    then have "length low = 160" "length high = 160" using q by (auto simp: AnalysisQMF_def)
    then have "cb_shape (160 * nb) c nb (write_band i 1 high (write_band i 0 low s))"
      using i nb by (intro write_band_shape) simp_all
    then show "\<exists>s'. (let (low, high) = AnalysisQMF (read_band data i 0) in Some (write_band i 1 high (write_band i 0 low s))) = Some s' \<and> cb_shape (160 * nb) c nb s'"
      by (simp add: q)
  qed (use assms(4) in simp)
  then show ?thesis using assms(2-4) nb
    by (auto simp: Splitting_Analysis_def TwoBandsAnalysis_def RTC_DCHECK_def sf_shape_def cb_shape_def frames_per_band_def cval)
next
  assume nb: "nb = 3"
  let ?I = "\<lambda>(sf, bands). sf_shape nb c sf \<and> cb_shape (160 * nb) c nb bands"
  have "\<exists>s'. loop_option (\<lambda>i (sf, bands). do {
       (bank, out) \<leftarrow> ThreeBand_Analysis (read_band data i 0) (three_band_filter_banks sf ! i);
       Some (sf\<lparr>three_band_filter_banks := (three_band_filter_banks sf)[i := bank]\<rparr>,
         fold (\<lambda>band. write_band i band (out ! band)) [0..<3] bands) }) [0..<c] (sf, bands) = Some s' \<and> ?I s'"
  proof (rule loop_option_inv)
    fix i and s :: "splitting_filter \<times> channel_buffer" assume i: "i \<in> set [0..<c]" and I: "?I s"
    obtain sf bands where s: "s = (sf, bands)" by fastforce
    obtain bank out where t: "ThreeBand_Analysis (read_band data i 0) (three_band_filter_banks sf ! i) = Some (bank, out)" "band_shape out"
      using ThreeBand_Analysis_total by blast
    have "cb_shape (160 * nb) c nb (fold (\<lambda>band. write_band i band (out ! band)) [0..<3] bands)"
    proof (rule fold_inv)
      fix band cb assume "band \<in> set [0..<3]" "cb_shape (160 * nb) c nb cb"
      then show "cb_shape (160 * nb) c nb (write_band i band (out ! band) cb)" using i nb t(2) by (intro write_band_shape) (auto simp: band_shape_def)
    qed (use I s in simp)
    moreover have "sf_shape nb c (sf\<lparr>three_band_filter_banks := (three_band_filter_banks sf)[i := bank]\<rparr>)" using I s by (simp add: sf_shape_def)
    ultimately show "\<exists>s'. (case s of (sf, bands) \<Rightarrow> do {
       (bank, out) \<leftarrow> ThreeBand_Analysis (read_band data i 0) (three_band_filter_banks sf ! i);
       Some (sf\<lparr>three_band_filter_banks := (three_band_filter_banks sf)[i := bank]\<rparr>,
         fold (\<lambda>band. write_band i band (out ! band)) [0..<3] bands) }) = Some s' \<and> ?I s'"
      by (simp add: s t(1) del: upt_rec_numeral)
  qed (use assms(2,4) in simp)
  then show ?thesis using assms(2-4) nb
    by (simp add: Splitting_Analysis_def ThreeBandsAnalysis_def RTC_DCHECK_def sf_shape_def cb_shape_def frames_per_band_def bank_sizes del: upt_rec_numeral)
qed

lemma Splitting_Synthesis_shape:
  assumes "nb = 2 \<or> nb = 3" "sf_shape nb c sf" "cb_shape (160 * nb) c 1 data" "cb_shape (160 * nb) c nb bands"
  shows "\<exists>sf' data'. Splitting_Synthesis bands (sf, data) = Some (sf', data') \<and> sf_shape nb c sf' \<and> cb_shape (160 * nb) c 1 data'"
  using assms(1)
proof
  assume nb: "nb = 2"
  have "\<exists>data'. loop_option (\<lambda>i data. Some (write_band i 0 (SynthesisQMF (read_band bands i 0) (read_band bands i 1)) data))
       [0..<c] data = Some data' \<and> cb_shape (160 * nb) c 1 data'"
  proof (rule loop_option_inv)
    fix i s assume i: "i \<in> set [0..<c]" "cb_shape (160 * nb) c 1 s"
    have "length (concat (map (\<lambda>j. [f j, g j]) is)) = 2 * length is" for f g :: "nat \<Rightarrow> rat" and "is" by (induction "is") simp_all
    then have "length (SynthesisQMF (read_band bands i 0) (read_band bands i 1)) = 160 * nb"
      using length_read_band[OF assms(4), of i 0] i nb by (simp add: SynthesisQMF_def)
    then show "\<exists>s'. Some (write_band i 0 (SynthesisQMF (read_band bands i 0) (read_band bands i 1)) s) = Some s' \<and> cb_shape (160 * nb) c 1 s'"
      using write_whole_shape[OF i(2)] i(1) by simp
  qed (use assms(3) in simp)
  then show ?thesis using assms(2-4) nb
    by (auto simp: Splitting_Synthesis_def TwoBandsSynthesis_def RTC_DCHECK_def sf_shape_def cb_shape_def frames_per_band_def cval)
next
  assume nb: "nb = 3"
  let ?I = "\<lambda>(sf, data). sf_shape nb c sf \<and> cb_shape (160 * nb) c 1 data"
  have "\<exists>s'. loop_option (\<lambda>i (sf, data). do {
       (bank, out) \<leftarrow> ThreeBand_Synthesis (map (read_band bands i) [0..<3]) (three_band_filter_banks sf ! i);
       Some (sf\<lparr>three_band_filter_banks := (three_band_filter_banks sf)[i := bank]\<rparr>, write_band i 0 out data) }) [0..<c] (sf, data) = Some s' \<and> ?I s'"
  proof (rule loop_option_inv)
    fix i and s :: "splitting_filter \<times> channel_buffer" assume i: "i \<in> set [0..<c]" and I: "?I s"
    obtain sf data where s: "s = (sf, data)" by fastforce
    have "band_shape (map (read_band bands i) [0..<3])"
      using length_read_band[OF assms(4)] i nb by (simp add: band_shape_def del: upt_rec_numeral)
    then obtain bank out where t: "ThreeBand_Synthesis (map (read_band bands i) [0..<3]) (three_band_filter_banks sf ! i) = Some (bank, out)" "length out = 480"
      using ThreeBand_Synthesis_total by blast
    have "cb_shape (160 * nb) c 1 (write_band i 0 out data)" using I s i t(2) nb by (intro write_whole_shape) simp_all
    moreover have "sf_shape nb c (sf\<lparr>three_band_filter_banks := (three_band_filter_banks sf)[i := bank]\<rparr>)" using I s by (simp add: sf_shape_def)
    ultimately show "\<exists>s'. (case s of (sf, data) \<Rightarrow> do {
       (bank, out) \<leftarrow> ThreeBand_Synthesis (map (read_band bands i) [0..<3]) (three_band_filter_banks sf ! i);
       Some (sf\<lparr>three_band_filter_banks := (three_band_filter_banks sf)[i := bank]\<rparr>, write_band i 0 out data) }) = Some s' \<and> ?I s'"
      by (simp only: s t(1) prod.case bind.bind_lunit) blast
  qed (use assms(2,3) in simp)
  then show ?thesis using assms(2-4) nb
    by (simp add: Splitting_Synthesis_def ThreeBandsSynthesis_def RTC_DCHECK_def sf_shape_def cb_shape_def frames_per_band_def bank_sizes del: upt_rec_numeral)
qed

definition band_buffer :: "nat \<Rightarrow> nat \<Rightarrow> apm_buffer \<Rightarrow> bool" where
  "band_buffer nb c b \<longleftrightarrow> same_rate (160 * nb) c b \<and> nb \<in> {1, 2, 3}"

lemma bands_of_frames: "nb \<in> {1, 2, 3} \<Longrightarrow> NumBandsFromFramesPerChannel (160 * nb) = nb"
  by (auto simp: NumBandsFromFramesPerChannel_def cval)

lemma band_buffer_parts:
  assumes "band_buffer nb c b" "nb \<noteq> 1"
  shows "\<exists>s sf. split_data b = Some s \<and> splitter b = Some sf \<and> sf_shape nb c sf \<and> cb_shape (160 * nb) c nb s \<and>
    cb_shape (160 * nb) c 1 (buf_data b) \<and> buf_num_bands b = nb \<and> (nb = 2 \<or> nb = 3)"
proof -
  have b: "buf_num_bands b = nb" "split_part_ok (160 * nb) c b" "cb_shape (160 * nb) c 1 (buf_data b)" "nb = 2 \<or> nb = 3"
    using assms bands_of_frames[of nb] by (simp_all add: band_buffer_def same_rate_def cb_shape_def)
  show ?thesis
  proof (cases "split_data b")
    case None
    then show ?thesis using b(1,2) assms(2) by (simp add: split_part_ok_def)
  next
    case (Some s)
    then obtain sf where "splitter b = Some sf" "sf_shape nb c sf" "cb_shape (160 * nb) c nb s"
      using b(2) unfolding split_part_ok_def b(1) Some option.case sf_shape_def cb_shape_def by blast
    then show ?thesis using Some b by blast
  qed
qed

lemma band_buffer_one:
  assumes "band_buffer 1 c b"
  shows "split_data b = None" "buf_num_bands b = 1" "buf_num_channels b = c" "cb_bands (buf_data b) = 1" "cb_frames (buf_data b) = 160"
    "length (cb_data (buf_data b)) = c" "\<forall>x\<in>set (cb_data (buf_data b)). length x = 160"
proof -
  show b: "buf_num_bands b = 1" using assms bands_of_frames[of 1] by (simp add: band_buffer_def same_rate_def)
  then show "split_data b = None" using assms by (auto simp: band_buffer_def same_rate_def split_part_ok_def split: option.splits)
qed (use assms in \<open>simp_all add: band_buffer_def same_rate_def planar_def\<close>)

lemma band_buffer_rebuild:
  assumes "band_buffer nb c b" "nb = 2 \<or> nb = 3" "sf_shape nb c sf" "cb_shape (160 * nb) c nb s" "cb_shape (160 * nb) c 1 d"
  shows "band_buffer nb c (b\<lparr>splitter := Some sf, split_data := Some s, buf_data := d\<rparr>)"
proof -
  let ?b = "b\<lparr>splitter := Some sf, split_data := Some s, buf_data := d\<rparr>"
  have "buf_num_bands b = nb" "1 < nb" using assms(1,2) bands_of_frames[of nb] by (auto simp: band_buffer_def same_rate_def)
  then have "split_part_ok (160 * nb) c ?b" using assms(3,4) by (simp add: split_part_ok_def sf_shape_def cb_shape_def)
  moreover have "same_rate (160 * nb) c b" using assms(1) by (simp add: band_buffer_def)
  ultimately have "same_rate (160 * nb) c ?b" using assms(5) unfolding same_rate_def cb_shape_def by simp
  then show ?thesis using assms(1) by (simp add: band_buffer_def)
qed

lemma buffer_updates:
  "b\<lparr>splitter := x, split_data := y, buf_data := buf_data b\<rparr> = b\<lparr>splitter := x, split_data := y\<rparr>"
  "split_data b = y \<Longrightarrow> b\<lparr>splitter := x, split_data := y, buf_data := d\<rparr> = b\<lparr>splitter := x, buf_data := d\<rparr>"
  "splitter b = x \<Longrightarrow> b\<lparr>splitter := x, split_data := y, buf_data := buf_data b\<rparr> = b\<lparr>split_data := y\<rparr>"
  by (cases b; simp)+

lemma band_buffer_rebuild_one:
  assumes "band_buffer 1 c b" "cb_shape 160 c 1 d"
  shows "band_buffer 1 c (b\<lparr>buf_data := d\<rparr>)"
proof -
  have "split_part_ok 160 c (b\<lparr>buf_data := d\<rparr>)"
    using assms(1) band_buffer_one(1)[OF assms(1)] by (simp add: band_buffer_def same_rate_def split_part_ok_def)
  then show ?thesis using assms by (simp add: band_buffer_def same_rate_def cb_shape_def)
qed

definition split_step :: "apm_buffer \<Rightarrow> apm_buffer option" where
  "split_step b = (if buf_num_bands b > 1 then SplitIntoFrequencyBands b else Some b)"

definition merge_step :: "apm_buffer \<Rightarrow> apm_buffer option" where
  "merge_step b = (if buf_num_bands b > 1 then MergeFrequencyBands b else Some b)"

lemma split_step_ok: "band_buffer nb c b \<Longrightarrow> \<exists>b'. split_step b = Some b' \<and> band_buffer nb c b' \<and> (nb = 1 \<longrightarrow> b' = b)"
proof (cases "nb = 1")
  case True
  assume "band_buffer nb c b"
  then show ?thesis using True band_buffer_one(2)[of c b] by (simp add: split_step_def)
next
  case False
  assume b: "band_buffer nb c b"
  then obtain s sf where p: "split_data b = Some s" "splitter b = Some sf" "sf_shape nb c sf" "cb_shape (160 * nb) c nb s"
    "cb_shape (160 * nb) c 1 (buf_data b)" "buf_num_bands b = nb" "nb = 2 \<or> nb = 3" using band_buffer_parts[OF b False] by (elim exE conjE) (rule that)
  obtain sf' s' where a: "Splitting_Analysis (buf_data b) (sf, s) = Some (sf', s')" "sf_shape nb c sf'" "cb_shape (160 * nb) c nb s'"
    using Splitting_Analysis_shape[OF p(7,3,5,4)] by blast
  have "band_buffer nb c (b\<lparr>splitter := Some sf', split_data := Some s'\<rparr>)"
    using band_buffer_rebuild[OF b p(7) a(2,3) p(5)] by (simp only: buffer_updates(1))
  moreover have "split_step b = Some (b\<lparr>splitter := Some sf', split_data := Some s'\<rparr>)"
  proof -
    have "buf_num_bands b > 1" using p(6,7) by linarith
    then show ?thesis by (simp add: split_step_def SplitIntoFrequencyBands_def p(1,2) a(1))
  qed
  ultimately show ?thesis using False by blast
qed

lemma merge_step_ok: "band_buffer nb c b \<Longrightarrow> \<exists>b'. merge_step b = Some b' \<and> band_buffer nb c b' \<and> (nb = 1 \<longrightarrow> b' = b)"
proof (cases "nb = 1")
  case True
  assume "band_buffer nb c b"
  then show ?thesis using True band_buffer_one(2)[of c b] by (simp add: merge_step_def)
next
  case False
  assume b: "band_buffer nb c b"
  then obtain s sf where p: "split_data b = Some s" "splitter b = Some sf" "sf_shape nb c sf" "cb_shape (160 * nb) c nb s"
    "cb_shape (160 * nb) c 1 (buf_data b)" "buf_num_bands b = nb" "nb = 2 \<or> nb = 3" using band_buffer_parts[OF b False] by (elim exE conjE) (rule that)
  obtain sf' d' where a: "Splitting_Synthesis s (sf, buf_data b) = Some (sf', d')" "sf_shape nb c sf'" "cb_shape (160 * nb) c 1 d'"
    using Splitting_Synthesis_shape[OF p(7,3,5,4)] by blast
  have "band_buffer nb c (b\<lparr>splitter := Some sf', buf_data := d'\<rparr>)"
    using band_buffer_rebuild[OF b p(7) a(2) p(4) a(3)] by (simp only: buffer_updates(2)[OF p(1)])
  moreover have "merge_step b = Some (b\<lparr>splitter := Some sf', buf_data := d'\<rparr>)"
  proof -
    have "buf_num_bands b > 1" using p(6,7) by linarith
    then show ?thesis by (simp add: merge_step_def MergeFrequencyBands_def p(1,2) a(1))
  qed
  ultimately show ?thesis using False by blast
qed

section \<open>The canceller's view\<close>

lemma aec_view_wf: "band_buffer nb c b \<Longrightarrow> wf_audio nb c (aec_view b)"
proof -
  assume b: "band_buffer nb c b"
  then have n: "buf_num_bands b = nb" "buf_num_channels b = c" "0 < nb" using bands_of_frames[of nb] by (auto simp: band_buffer_def same_rate_def)
  have s: "cb_shape (160 * nb) c nb (split_source b)"
  proof (cases "nb = 1")
    case True
    then show ?thesis using b band_buffer_one(1)[of c b] by (simp add: split_source_def band_buffer_def same_rate_def cb_shape_def)
  next
    case False
    then show ?thesis using band_buffer_parts[OF b False] by (auto simp: split_source_def)
  qed
  show ?thesis using n length_read_band[OF s n(3)]
    by (auto simp: wf_audio_def aec_view_def shaped_def cells_def kSplitBandSize_def)
qed

lemma aec_write_ok: "band_buffer nb c b \<Longrightarrow> wf_audio nb c v \<Longrightarrow> band_buffer nb c (aec_write v b)"
proof -
  assume b: "band_buffer nb c b" and v: "wf_audio nb c v"
  have nb: "nb \<in> {1, 2, 3}" using b by (simp add: band_buffer_def)
  have step: "band_buffer nb c (write_split_band ch k (split_bands v ! ch ! k) b')" if bb: "band_buffer nb c b'" and "ch < c" "k < nb" for b' ch k
  proof -
    have l: "length (split_bands v ! ch ! k) = 160" using v that by (simp add: wf_audio_def cells_def kSplitBandSize_def)
    show ?thesis
    proof (cases "nb = 1")
      case True
      have b1: "band_buffer 1 c b'" using that(1) True by simp
      have "cb_shape 160 c 1 (buf_data b')" using that(1) True by (simp add: cb_shape_def band_buffer_def same_rate_def)
      then have "cb_shape 160 c 1 (write_band ch k (split_bands v ! ch ! k) (buf_data b'))"
        using write_whole_shape[of 160 c "buf_data b'" ch] \<open>ch < c\<close> \<open>k < nb\<close> True l by simp
      from band_buffer_rebuild_one[OF b1 this] show ?thesis using band_buffer_one(1)[OF b1] True by (simp add: write_split_band_def)
    next
      case False
      obtain s sf where p: "split_data b' = Some s" "splitter b' = Some sf" "sf_shape nb c sf" "cb_shape (160 * nb) c nb s"
        "cb_shape (160 * nb) c 1 (buf_data b')" "nb = 2 \<or> nb = 3" using band_buffer_parts[OF bb False] by (elim exE conjE) (rule that)
      have "cb_shape (160 * nb) c nb (write_band ch k (split_bands v ! ch ! k) s)" using p that l by (intro write_band_shape) auto
      from band_buffer_rebuild[OF bb p(6,3) this p(5)] show ?thesis
        by (simp only: buffer_updates(3)[OF p(2)] write_split_band_def p(1) option.case)
    qed
  qed
  have "band_buffer nb c (fold (\<lambda>ch. fold (\<lambda>k. write_split_band ch k (split_bands v ! ch ! k)) [0..<nb]) [0..<c] b)"
  proof (rule fold_inv)
    fix ch b' assume ch: "ch \<in> set [0..<c]" "band_buffer nb c b'"
    show "band_buffer nb c (fold (\<lambda>k. write_split_band ch k (split_bands v ! ch ! k)) [0..<nb] b')"
      by (rule fold_inv[where I = "band_buffer nb c"]) (use step ch in auto)
  qed (rule b)
  then show ?thesis using v by (simp add: aec_write_def wf_audio_def)
qed

text \<open>With one band the view is the channels.\<close>

lemma aec_view_one: "band_buffer 1 c b \<Longrightarrow> split_bands (aec_view b) = map (\<lambda>ch. [ch]) (cb_data (buf_data b))"
proof -
  assume b: "band_buffer 1 c b"
  note o = band_buffer_one[OF b]
  have "read_band (buf_data b) ch 0 = cb_data (buf_data b) ! ch" if "ch < c" for ch
    using that o by (simp add: read_band_def frames_per_band_def)
  then show ?thesis using o by (intro nth_equalityI) (simp_all add: aec_view_def split_source_def)
qed

lemma aec_write_one:
  assumes "band_buffer 1 c b" "wf_audio 1 c v"
  shows "aec_write v b = with_channels (map (\<lambda>ch. split_bands v ! ch ! 0) [0..<c]) b"
proof -
  note o = band_buffer_one[OF assms(1)]
  have l: "length (split_bands v ! ch ! 0) = 160" if "ch < c" for ch using assms(2) that by (simp add: wf_audio_def cells_def kSplitBandSize_def)
  have "fold (\<lambda>ch. write_split_band ch 0 (split_bands v ! ch ! 0)) [0..<k] b =
      with_channels (map (\<lambda>ch. split_bands v ! ch ! 0) [0..<k] @ drop k (cb_data (buf_data b))) b" if "k \<le> c" for k
    using that
  proof (induction k)
    case (Suc k)
    let ?d = "map (\<lambda>ch. split_bands v ! ch ! 0) [0..<k] @ drop k (cb_data (buf_data b))"
    have "length (?d ! k) = 160" using Suc.prems o(6,7) by (simp add: nth_append)
    then have "write_split_band k 0 (split_bands v ! k ! 0) (with_channels ?d b) = with_channels (?d[k := split_bands v ! k ! 0]) b"
      using o l[of k] Suc.prems by (simp add: write_split_band_def with_channels_def write_band_def frames_per_band_def)
    moreover have "?d[k := split_bands v ! k ! 0] = map (\<lambda>ch. split_bands v ! ch ! 0) [0..<Suc k] @ drop (Suc k) (cb_data (buf_data b))"
      using Suc.prems o(6) by (simp add: list_update_append Cons_nth_drop_Suc[symmetric])
    ultimately show ?case using Suc by simp
  qed (simp add: with_channels_self)
  from this[of c] show ?thesis using assms(2) o(6) by (simp add: aec_write_def wf_audio_def)
qed

end
