(* ===== verification/Voice_Canceller.thy ===== *)
theory Voice_Canceller
  imports Voice_Bands
begin

text \<open>
  The echo canceller of the C interface: how the configuration of a program becomes the configuration
  of the canceller, that no call on frames of the right size fails a check, and that without a render
  signal the calls are a constant delay.
\<close>

section \<open>Echo canceller through the C interface\<close>

text \<open>The configuration the canceller of a handle works with.\<close>

definition api_config :: "fswtch_aec3_config option \<Rightarrow> aec3_config" where
  "api_config cfg = AdjustConfig no_trials (BuildConfig (Some (case cfg of None \<Rightarrow> fswtch_aec3_default_config | Some c \<Rightarrow> c)))"

lemma default_config_built: "BuildConfig (Some fswtch_aec3_default_config) = default_config"
  by (simp add: BuildConfig_def fswtch_aec3_default_config_def default_config_def default_delay_cfg_def default_filter_cfg_def Let_def)

lemma no_trials_start: "adjust_start no_trials c = c"
  by (simp add: adjust_start_def enabled_def first_enabled_def IsEnabled_def no_trials_def StartsWith_def Let_def)

lemma api_config_filter: "cfg_filter (api_config cfg) = cfg_filter (BuildConfig (Some (case cfg of None \<Rightarrow> fswtch_aec3_default_config | Some c \<Rightarrow> c)))"
  using AdjustConfig_shared[of no_trials "BuildConfig (Some (case cfg of None \<Rightarrow> fswtch_aec3_default_config | Some c \<Rightarrow> c))"]
  by (simp add: shared_def no_trials_start api_config_def)

lemma api_config_simps:
  "export_linear_aec_output (cfg_filter (api_config cfg)) = False" "fixed_capture_delay_samples (cfg_delay (api_config cfg)) = 0"
proof -
  show "export_linear_aec_output (cfg_filter (api_config cfg)) = False"
    by (simp add: api_config_filter BuildConfig_def default_config_def default_filter_cfg_def Let_def)
  have "layout (api_config cfg) = layout (BuildConfig (Some (case cfg of None \<Rightarrow> fswtch_aec3_default_config | Some c \<Rightarrow> c)))"
    by (simp only: api_config_def AdjustConfig_layout)
  then show "fixed_capture_delay_samples (cfg_delay (api_config cfg)) = 0"
    by (simp add: layout_def Let_def BuildConfig_def default_config_def default_delay_cfg_def)
qed

text \<open>
  C40: The C interface passes its values on unchecked: the comment says the canceller clamps the
  lengths of the initial filters to those of the filters, but a refined filter shorter than the 12
  blocks of the initial one stays shorter, and the configuration is one the check would repair.
\<close>
theorem api_config_unchecked:
  assumes "filter_refined_length_blocks cfg < 12"
  shows "r_length_blocks (refined (cfg_filter (api_config (Some cfg)))) = filter_refined_length_blocks cfg \<and>
    r_length_blocks (refined_initial (cfg_filter (api_config (Some cfg)))) = 12 \<and>
    \<not> valid_config (api_config (Some cfg))"
  using assms by (simp_all add: api_config_filter BuildConfig_def default_config_def default_filter_cfg_def Let_def valid_config_def valid_filter_def)

theorem api_config_unchecked_witness:
  "\<not> valid_config (api_config (Some (fswtch_aec3_default_config\<lparr>filter_refined_length_blocks := 5\<rparr>)))"
  using api_config_unchecked[of "fswtch_aec3_default_config\<lparr>filter_refined_length_blocks := 5\<rparr>"] by simp

definition aec3_ready ::
    "('m, 'f, 's, 'k, 'r) parts \<Rightarrow> fswtch_aec3_config option \<Rightarrow> nat \<Rightarrow> nat \<Rightarrow> nat \<Rightarrow> (bool \<times> rat list list list) list \<Rightarrow> ('m, 'f, 's, 'k, 'r) aec3_handle \<Rightarrow> bool" where
  "aec3_ready parts cfg rate ni nc gs h \<longleftrightarrow> band_buffer (NumBandsForRate rate) ni (render_buf h) \<and> band_buffer (NumBandsForRate rate) nc (capture_buf h) \<and>
     sc_num_channels (render_cfg h) = ni \<and> sc_num_frames (render_cfg h) = 160 * NumBandsForRate rate \<and>
     sc_num_channels (capture_cfg h) = nc \<and> sc_num_frames (capture_cfg h) = 160 * NumBandsForRate rate \<and>
     canceller_base (api_config cfg) None rate ni nc (handle_aec h) \<and> canceller_mode parts (api_config cfg) None rate ni gs (handle_aec h)"

definition api_setup :: "('m, 'f, 's, 'k, 'r) parts \<Rightarrow> fswtch_aec3_config option \<Rightarrow> nat \<Rightarrow> nat \<Rightarrow> nat \<Rightarrow> bool" where
  "api_setup parts cfg rate ni nc \<longleftrightarrow> canceller_setup parts aec3_high_pass (api_config cfg) None rate ni nc"

lemma aec3_high_pass_keeps: "filter_keeps (hp_Process aec3_high_pass)"
proof -
  have "map length (snd (hp_Process aec3_high_pass f band)) = map length band" for f band
  proof (cases "length (hpf_filters f) = length band")
    case True
    have "map length (map snd (map2 Cascade_Process band (hpf_filters f))) = map length band"
      by (rule nth_equalityI) (use True in \<open>simp_all add: length_Cascade_Process\<close>)
    then show ?thesis using True by (simp add: aec3_high_pass_def HighPassFilter_Process_def RTC_DCHECK_def Let_def)
  qed (simp add: aec3_high_pass_def HighPassFilter_Process_def RTC_DCHECK_def)
  then show ?thesis by (simp add: filter_keeps_def)
qed

lemma rate_frames: "ValidFullBandRate rate \<Longrightarrow> rate div 100 = 160 * NumBandsForRate rate \<and> NumBandsForRate rate \<in> {1, 2, 3}"
  by (auto simp: ValidFullBandRate_def NumBandsForRate_def)

lemma whole_rate_buffer_ok:
  assumes "ValidFullBandRate (nat rate)" "0 < c"
  shows "\<exists>b. whole_rate_buffer rate c = Some b \<and> band_buffer (NumBandsForRate (nat rate)) c b"
  using new_apm_buffer_same[of "nat rate" "160 * NumBandsForRate (nat rate)" c] rate_frames[OF assms(1)] assms(2)
  by (auto simp: whole_rate_buffer_def band_buffer_def)

lemma aec3_create_ok:
  assumes "api_setup parts cfg (nat rate) ni nc"
  shows "\<exists>h. fswtch_aec3_create parts cfg rate ni nc = Some (Some h) \<and> aec3_ready parts cfg (nat rate) ni nc [] h \<and>
    sq_items (transfer_queue (handle_aec h)) = [] \<and>
    (\<forall>b<NumBandsForRate (nat rate). \<forall>c<nc. canceller_held (handle_aec h) (b, c) = replicate 64 0)"
proof -
  note s = assms[unfolded api_setup_def]
  have v: "ValidFullBandRate (nat rate)" "0 < ni" "0 < nc" using setup_rate[OF s] s by (simp_all add: canceller_setup_def)
  then have r: "0 < rate" by (auto simp: ValidFullBandRate_def)
  obtain ec where ec: "new_echo_canceller parts aec3_high_pass (api_config cfg) None (nat rate) ni nc = Some ec"
    "canceller_base (api_config cfg) None (nat rate) ni nc ec" "canceller_mode parts (api_config cfg) None (nat rate) ni [] ec"
    "sq_items (transfer_queue ec) = []"
    "\<forall>b<NumBandsForRate (nat rate). \<forall>c<nc. path_held (path ec) (b, c) @ delay_of ec (b, c) = replicate 64 0"
    using new_echo_canceller_ok[OF s] api_config_simps(2) by auto
  obtain rb cb where b: "whole_rate_buffer rate ni = Some rb" "band_buffer (NumBandsForRate (nat rate)) ni rb"
    "whole_rate_buffer rate nc = Some cb" "band_buffer (NumBandsForRate (nat rate)) nc cb"
    using whole_rate_buffer_ok[OF v(1,2)] whole_rate_buffer_ok[OF v(1,3)] by blast
  have cr: "EchoCanceller3_create parts aec3_high_pass no_trials (BuildConfig (Some (case cfg of None \<Rightarrow> fswtch_aec3_default_config | Some c \<Rightarrow> c))) None (nat rate) ni nc = Some ec"
    using ec(1) by (simp add: EchoCanceller3_create_def api_config_def)
  have c: "(case cfg of None \<Rightarrow> Some fswtch_aec3_default_config | Some c \<Rightarrow> Some c) = Some (case cfg of None \<Rightarrow> fswtch_aec3_default_config | Some c \<Rightarrow> c)"
    by (cases cfg) simp_all
  show ?thesis using b ec(2-5) r v rate_frames[OF v(1)]
    by (simp add: fswtch_aec3_create_def c new_Aec3Handle_def cr aec3_ready_def new_stream_config_def frame_size canceller_held_def)
qed

lemma analyze_render_ok:
  assumes "api_setup parts cfg rate ni nc" "aec3_ready parts cfg rate ni nc gs h" "s16_frame (160 * NumBandsForRate rate) ni xs"
  shows "\<exists>h'. fswtch_aec3_analyze_render (Some h) (Some xs) ni = Some (0, Some h') \<and> aec3_ready parts cfg rate ni nc gs h'"
proof -
  note r = assms(2)[unfolded aec3_ready_def] and s = assms(1)[unfolded api_setup_def]
  let ?nb = "NumBandsForRate rate"
  have b: "same_rate (160 * ?nb) ni (render_buf h)" using r by (simp add: band_buffer_def)
  have fr: "length xs = 160 * ?nb * ni" "list_all is_s16 xs" using assms(3) by (simp_all add: s16_frame_def)
  let ?b = "with_channels (decode (160 * ?nb) ni xs) (render_buf h)"
  have cf: "CopyFrom_s16 xs (render_cfg h) (render_buf h) = Some ?b" using CopyFrom_same[OF b fr] r by simp
  have "band_buffer ?nb ni ?b" using with_channels_same[OF b planar_decode] r by (simp add: band_buffer_def)
  then obtain b' where sp: "split_step ?b = Some b'" "band_buffer ?nb ni b'" using split_step_ok by blast
  obtain ec where ec: "AnalyzeRender aec3_high_pass (aec_view b') (handle_aec h) = Some ec"
    "canceller_base (api_config cfg) None rate ni nc ec" "canceller_mode parts (api_config cfg) None rate ni gs ec"
    using AnalyzeRender_ok[OF _ _ s aec_view_wf[OF sp(2)]] r by blast
  have "fswtch_aec3_analyze_render (Some h) (Some xs) ni = Some (0, Some (h\<lparr>render_buf := b', handle_aec := ec\<rparr>))"
    using r sp(1) ec(1) by (simp add: fswtch_aec3_analyze_render_def cf split_step_def FSWTCH_AEC3_OK_def)
  then show ?thesis using r sp(2) ec by (simp add: aec3_ready_def)
qed

lemma AnalyzeCapture_keeps:
  "canceller_base config mc rate ni nc (AnalyzeCapture channels ec) = canceller_base config mc rate ni nc ec"
  "canceller_mode parts config mc rate ni gs (AnalyzeCapture channels ec) = canceller_mode parts config mc rate ni gs ec"
  "canceller_held (AnalyzeCapture channels ec) p = canceller_held ec p"
  "transfer_queue (AnalyzeCapture channels ec) = transfer_queue ec"
  by (simp_all add: AnalyzeCapture_def canceller_base_simps canceller_mode_def canceller_held_def delay_of_def)

text \<open>The capture frame on its way to the canceller.\<close>

lemma capture_frame_start:
  assumes "api_setup parts cfg rate ni nc" "aec3_ready parts cfg rate ni nc gs h" "s16_frame (160 * NumBandsForRate rate) nc xs"
  shows "\<exists>b ec. CopyFrom_s16 xs (capture_cfg h) (capture_buf h) = Some (with_channels (decode (160 * NumBandsForRate rate) nc xs) (capture_buf h)) \<and>
    split_step (with_channels (decode (160 * NumBandsForRate rate) nc xs) (capture_buf h)) = Some b \<and> band_buffer (NumBandsForRate rate) nc b \<and>
    ec = AnalyzeCapture (take (buf_num_channels b) (cb_data (buf_data b))) (handle_aec h) \<and>
    canceller_base (api_config cfg) None rate ni nc ec \<and> canceller_mode parts (api_config cfg) None rate ni gs ec \<and>
    good_capture (api_config cfg) rate nc (aec_view b) None \<and> transfer_queue ec = transfer_queue (handle_aec h)"
proof -
  note r = assms(2)[unfolded aec3_ready_def] and s = assms(1)[unfolded api_setup_def]
  let ?nb = "NumBandsForRate rate"
  have b: "same_rate (160 * ?nb) nc (capture_buf h)" using r by (simp add: band_buffer_def)
  have fr: "length xs = 160 * ?nb * nc" "list_all is_s16 xs" using assms(3) by (simp_all add: s16_frame_def)
  let ?b = "with_channels (decode (160 * ?nb) nc xs) (capture_buf h)"
  have cf: "CopyFrom_s16 xs (capture_cfg h) (capture_buf h) = Some ?b" using CopyFrom_same[OF b fr] r by simp
  have "band_buffer ?nb nc ?b" using with_channels_same[OF b planar_decode] r by (simp add: band_buffer_def)
  then obtain b' where sp: "split_step ?b = Some b'" "band_buffer ?nb nc b'" using split_step_ok by blast
  have "good_capture (api_config cfg) rate nc (aec_view b') None" using aec_view_wf[OF sp(2)] by (simp add: good_capture_def api_config_simps)
  then show ?thesis using cf sp r by (simp add: AnalyzeCapture_keeps)
qed

lemma capture_frame_checked:
  assumes "api_setup parts cfg rate ni nc" "aec3_ready parts cfg rate ni nc gs h" "s16_frame (160 * NumBandsForRate rate) nc xs"
    "\<not> queue_taken parts (handle_aec h)"
  shows "aec3_capture_frame parts xs lc h = None"
proof -
  obtain b ec where c: "CopyFrom_s16 xs (capture_cfg h) (capture_buf h) = Some (with_channels (decode (160 * NumBandsForRate rate) nc xs) (capture_buf h))"
    "split_step (with_channels (decode (160 * NumBandsForRate rate) nc xs) (capture_buf h)) = Some b"
    "ec = AnalyzeCapture (take (buf_num_channels b) (cb_data (buf_data b))) (handle_aec h)"
    "canceller_base (api_config cfg) None rate ni nc ec" "canceller_mode parts (api_config cfg) None rate ni gs ec"
    "good_capture (api_config cfg) rate nc (aec_view b) None" "transfer_queue ec = transfer_queue (handle_aec h)"
    using capture_frame_start[OF assms(1-3)] by (elim exE conjE) (rule that)
  have "\<not> queue_taken parts ec" "wf_audio (NumBandsForRate rate) nc (aec_view b)"
    using assms(4) c(6,7) by (simp_all add: queue_taken_def good_capture_def)
  from EchoCanceller3_ProcessCapture_checked[OF c(4,5) assms(1)[unfolded api_setup_def] this(2,1)] show ?thesis
    using c(1,2) by (simp add: aec3_capture_frame_def split_step_def Let_def c(3))
qed

lemma capture_frame_ok:
  assumes "api_setup parts cfg rate ni nc" "aec3_ready parts cfg rate ni nc gs h" "s16_frame (160 * NumBandsForRate rate) nc xs"
    "queue_taken parts (handle_aec h)"
  shows "\<exists>h' out gs'. aec3_capture_frame parts xs lc h = Some (h', out) \<and> aec3_ready parts cfg rate ni nc gs' h' \<and>
    s16_frame (160 * NumBandsForRate rate) nc out"
proof -
  note r = assms(2)[unfolded aec3_ready_def] and s = assms(1)[unfolded api_setup_def]
  let ?nb = "NumBandsForRate rate"
  have b: "same_rate (160 * ?nb) nc (capture_buf h)" using r by (simp add: band_buffer_def)
  have fr: "length xs = 160 * ?nb * nc" "list_all is_s16 xs" using assms(3) by (simp_all add: s16_frame_def)
  let ?b = "with_channels (decode (160 * ?nb) nc xs) (capture_buf h)"
  obtain b' ec where cf: "CopyFrom_s16 xs (capture_cfg h) (capture_buf h) = Some ?b" and sp: "split_step ?b = Some b'" "band_buffer ?nb nc b'"
    and ec_def: "ec = AnalyzeCapture (take (buf_num_channels b') (cb_data (buf_data b'))) (handle_aec h)"
    and e: "canceller_base (api_config cfg) None rate ni nc ec" "canceller_mode parts (api_config cfg) None rate ni gs ec"
    and g: "good_capture (api_config cfg) rate nc (aec_view b') None" and q: "transfer_queue ec = transfer_queue (handle_aec h)"
    using capture_frame_start[OF assms(1-3)] by (elim exE conjE) (rule that)
  obtain d gs' where replayed: "replay (sq_items (transfer_queue ec)) (detector ec, gs) = (d, gs')" by fastforce
  have "queue_taken parts ec" using assms(4) q by (simp add: queue_taken_def)
  from EchoCanceller3_ProcessCapture_ok[OF e s g replayed this, of lc]
  obtain ec' lin v where p: "EchoCanceller3_ProcessCapture parts (aec_view b') None lc ec = Some (ec', lin, v)"
    "canceller_base (api_config cfg) None rate ni nc ec'" "canceller_mode parts (api_config cfg) None rate ni gs' ec'" "wf_audio ?nb nc v"
    by (elim exE conjE) (rule that)
  obtain b'' where m: "merge_step (aec_write v b') = Some b''" "band_buffer ?nb nc b''" using merge_step_ok[OF aec_write_ok[OF sp(2) p(4)]] by blast
  have sr: "same_rate (160 * ?nb) nc b''" using m(2) by (simp add: band_buffer_def)
  have ct: "CopyTo_s16 (capture_cfg h) xs b'' = Some (encode (160 * ?nb) nc (cb_data (buf_data b'')))" using CopyTo_same[OF sr fr(1)] r by simp
  have "aec3_capture_frame parts xs lc h = Some (h\<lparr>capture_buf := b'', handle_aec := ec'\<rparr>, encode (160 * ?nb) nc (cb_data (buf_data b'')))"
    using sp(1) p(1) m(1) ct by (simp add: aec3_capture_frame_def cf split_step_def merge_step_def ec_def Let_def)
  moreover have "s16_frame (160 * ?nb) nc (encode (160 * ?nb) nc (cb_data (buf_data b'')))"
    by (simp add: s16_frame_def encode_def list_all_iff conversions_in_range)
  ultimately show ?thesis using r m(2) p by (auto simp: aec3_ready_def)
qed

text \<open>The handles a program can hold.\<close>

inductive aec3_api_run :: "('m, 'f, 's, 'k, 'r) parts \<Rightarrow> fswtch_aec3_config option \<Rightarrow> int \<Rightarrow> nat \<Rightarrow> nat \<Rightarrow> ('m, 'f, 's, 'k, 'r) aec3_handle \<Rightarrow> bool"
  for parts cfg rate ni nc where
  api_create: "fswtch_aec3_create parts cfg rate ni nc = Some (Some h) \<Longrightarrow> aec3_api_run parts cfg rate ni nc h"
| api_render: "aec3_api_run parts cfg rate ni nc h \<Longrightarrow> s16_frame (nat rate div 100) ni xs \<Longrightarrow>
    fswtch_aec3_analyze_render (Some h) (Some xs) ni = Some (status, Some h') \<Longrightarrow> aec3_api_run parts cfg rate ni nc h'"
| api_capture: "aec3_api_run parts cfg rate ni nc h \<Longrightarrow> s16_frame (nat rate div 100) nc xs \<Longrightarrow>
    fswtch_aec3_process_capture parts (Some h) (Some xs) nc lc = Some (status, Some h', out) \<Longrightarrow> aec3_api_run parts cfg rate ni nc h'"
| api_delay: "aec3_api_run parts cfg rate ni nc h \<Longrightarrow> fswtch_aec3_set_audio_buffer_delay delay_ms (Some h) = Some h' \<Longrightarrow> aec3_api_run parts cfg rate ni nc h'"

lemma aec3_api_ready:
  assumes "aec3_api_run parts cfg rate ni nc h" "api_setup parts cfg (nat rate) ni nc"
  shows "\<exists>gs. aec3_ready parts cfg (nat rate) ni nc gs h"
proof -
  have n: "nat rate div 100 = 160 * NumBandsForRate (nat rate)"
    using rate_frames[OF setup_rate[OF assms(2)[unfolded api_setup_def]]] by simp
  from assms(1) show ?thesis
  proof (induction rule: aec3_api_run.induct)
    case (api_create h)
    then show ?case using aec3_create_ok[OF assms(2)] by auto
  next
    case (api_render h xs status h')
    then show ?case using analyze_render_ok[OF assms(2), of _ h xs] unfolding n by auto
  next
    case (api_capture h xs lc status h' out)
    then obtain gs where g: "aec3_ready parts cfg (nat rate) ni nc gs h" by blast
    have nc: "sc_num_channels (capture_cfg h) = nc" using g by (simp add: aec3_ready_def)
    then have "aec3_capture_frame parts xs (lc \<noteq> 0) h \<noteq> None" using api_capture.hyps(3) by (auto simp: fswtch_aec3_process_capture_def split: bind_splits)
    then have "queue_taken parts (handle_aec h)" by (rule contrapos_np) (rule capture_frame_checked[OF assms(2) g api_capture.hyps(2)[unfolded n]])
    then obtain h1 out1 gs' where p: "aec3_capture_frame parts xs (lc \<noteq> 0) h = Some (h1, out1)" "aec3_ready parts cfg (nat rate) ni nc gs' h1"
      using capture_frame_ok[OF assms(2) g] api_capture.hyps(2) unfolding n by blast
    note nc
    then show ?case using api_capture.hyps(3) p by (auto simp: fswtch_aec3_process_capture_def)
  next
    case (api_delay h delay_ms h')
    then obtain gs where g: "aec3_ready parts cfg (nat rate) ni nc gs h" by blast
    have h': "h' = h\<lparr>handle_aec := EchoCanceller3_SetAudioBufferDelay delay_ms (handle_aec h)\<rparr>"
      using api_delay.hyps(2) by (cases h) (auto simp: fswtch_aec3_set_audio_buffer_delay_def)
    have "canceller_base (api_config cfg) None (nat rate) ni nc (EchoCanceller3_SetAudioBufferDelay delay_ms (handle_aec h)) \<and>
        canceller_mode parts (api_config cfg) None (nat rate) ni gs (EchoCanceller3_SetAudioBufferDelay delay_ms (handle_aec h))"
      unfolding EchoCanceller3_SetAudioBufferDelay_def by (rule on_processor_ok) (use g in \<open>simp_all add: aec3_ready_def delay_inv\<close>)
    then show ?case using g unfolding h' by (auto simp: aec3_ready_def)
  qed
qed

text \<open>
  C2: With the setup the canceller needs, the C interface of the echo canceller creates a handle, and
  whatever calls came before, a render frame of the right size is taken with the status of success and
  the metrics can be read. In a build without \<^verbatim>\<open>RTC_DCHECK\<close> a capture frame of the right size is
  taken with the status of success and stays a frame of 16-bit samples: the samples pass the buffers,
  the split into bands, the canceller and the merge, and none of the checks modelled here would fail
  but that of the offset into the low-rate ring. In a build with \<^verbatim>\<open>RTC_DCHECK\<close> this holds as long as no
  render frame waits in the queue; the first capture frame after a render frame fails that check. The
  setup is that of the canceller, for the configuration made of the C structure: a default delay that
  fits into the rings, an internal delay estimate, a rate of 16, 32 or 48 kHz (the code takes 32 kHz,
  although the comment in the header calls it not wired), channels on both sides, a matched filter
  with its lags in range, and an echo remover that is made without a failed check and keeps the shape
  of the blocks.
\<close>
theorem aec3_api_safe:
  assumes "api_setup parts cfg (nat rate) ni nc" "aec3_api_run parts cfg rate ni nc h"
    "s16_frame (nat rate div 100) ni render" "s16_frame (nat rate div 100) nc capture"
  shows "(\<exists>h'. fswtch_aec3_create parts cfg rate ni nc = Some (Some h')) \<and>
    (\<exists>h'. fswtch_aec3_analyze_render (Some h) (Some render) ni = Some (FSWTCH_AEC3_OK, Some h')) \<and>
    (if rtc_dcheck_is_on (p_dsp parts) \<and> sq_items (transfer_queue (handle_aec h)) \<noteq> []
     then fswtch_aec3_process_capture parts (Some h) (Some capture) nc lc = None
     else \<exists>h' out. fswtch_aec3_process_capture parts (Some h) (Some capture) nc lc = Some (FSWTCH_AEC3_OK, Some h', Some out) \<and>
       s16_frame (nat rate div 100) nc out) \<and>
    fswtch_aec3_get_metrics parts (Some h) \<noteq> None"
proof -
  have n: "nat rate div 100 = 160 * NumBandsForRate (nat rate)"
    using rate_frames[OF setup_rate[OF assms(1)[unfolded api_setup_def]]] by simp
  obtain gs where g: "aec3_ready parts cfg (nat rate) ni nc gs h" using aec3_api_ready[OF assms(2,1)] by blast
  have nc: "sc_num_channels (capture_cfg h) = nc" using g by (simp add: aec3_ready_def)
  have "\<exists>h' out. fswtch_aec3_process_capture parts (Some h) (Some capture) nc lc = Some (FSWTCH_AEC3_OK, Some h', Some out) \<and>
       s16_frame (nat rate div 100) nc out" if q: "queue_taken parts (handle_aec h)"
  proof -
    obtain h' out gs' where "aec3_capture_frame parts capture (lc \<noteq> 0) h = Some (h', out)" "s16_frame (nat rate div 100) nc out"
      using capture_frame_ok[OF assms(1) g assms(4)[unfolded n] q] unfolding n by blast
    then show ?thesis by (simp add: fswtch_aec3_process_capture_def nc)
  qed
  moreover have "fswtch_aec3_process_capture parts (Some h) (Some capture) nc lc = None" if "\<not> queue_taken parts (handle_aec h)"
    using capture_frame_checked[OF assms(1) g assms(4)[unfolded n] that] by (simp add: fswtch_aec3_process_capture_def nc)
  ultimately have cap: "if rtc_dcheck_is_on (p_dsp parts) \<and> sq_items (transfer_queue (handle_aec h)) \<noteq> []
      then fswtch_aec3_process_capture parts (Some h) (Some capture) nc lc = None
      else \<exists>h' out. fswtch_aec3_process_capture parts (Some h) (Some capture) nc lc = Some (FSWTCH_AEC3_OK, Some h', Some out) \<and>
        s16_frame (nat rate div 100) nc out" unfolding queue_taken_def by simp
  obtain bp where "block_processor (path (handle_aec h)) = Some bp"
    using g by (auto simp: aec3_ready_def canceller_mode_def Let_def)
  then have "fswtch_aec3_get_metrics parts (Some h) \<noteq> None" by (simp add: fswtch_aec3_get_metrics_def EchoCanceller3_GetMetrics_def)
  then show ?thesis
    using aec3_create_ok[OF assms(1)] analyze_render_ok[OF assms(1) g] assms(3) cap unfolding n FSWTCH_AEC3_OK_def by (intro conjI) blast+
qed

lemma demo_api_setup: "api_setup demo_parts None 16000 2 1"
proof -
  have p: "processor_setup demo_parts default_config 16000 (mode_channels 2 multi)" for multi
    by (rule demo_processor_setups) (simp add: mode_channels_def)
  have "canceller_setup demo_parts aec3_high_pass default_config None 16000 2 1"
    using demo_canceller_setup aec3_high_pass_keeps by (simp add: canceller_setup_def)
  then show ?thesis unfolding api_setup_def api_config_def option.case default_config_built
    by (rule AdjustConfig_canceller_setup) (simp_all add: filter_ok_def remover_made_def, simp add: demo_parts_def)
qed

theorem aec3_api_safe_witness:
  "\<exists>h h' out. fswtch_aec3_create demo_parts None 16000 2 1 = Some (Some h) \<and>
    fswtch_aec3_process_capture demo_parts (Some h) (Some (replicate 160 7)) 1 0 = Some (FSWTCH_AEC3_OK, Some h', Some out) \<and>
    s16_frame 160 1 out"
proof -
  obtain h where h: "fswtch_aec3_create demo_parts None 16000 2 1 = Some (Some h)" using aec3_create_ok[of demo_parts None 16000 2 1] demo_api_setup by auto
  have fr: "s16_frame 160 2 (replicate 320 7)" "s16_frame 160 1 (replicate 160 7)" by (simp_all add: s16_frame_def is_s16_def list_all_iff)
  from aec3_api_safe[of demo_parts None 16000 2 1 h "replicate 320 7" "replicate 160 7" 0, OF _ api_create[OF h]] fr demo_api_setup h
  show ?thesis by auto
qed

section \<open>Silence at the far end\<close>

text \<open>The calls on the capture side, as steps on the handle.\<close>

definition aec3_call ::
    "('m, 'f, 's, 'k, 'r) parts \<Rightarrow> nat \<Rightarrow> ('m, 'f, 's, 'k, 'r) aec3_handle option \<Rightarrow> int list \<times> int \<Rightarrow>
     (('m, 'f, 's, 'k, 'r) aec3_handle option \<times> int \<times> int list option) option" where
  "aec3_call parts c h = (\<lambda>(frame, level_change).
     map_option (\<lambda>(status, h, out). (h, status, out)) (fswtch_aec3_process_capture parts h (Some frame) c level_change))"

definition aec3_quiet :: "('m, 'f, 's, 'k, 'r) parts \<Rightarrow> fswtch_aec3_config option \<Rightarrow> nat \<Rightarrow> nat \<Rightarrow> ('m, 'f, 's, 'k, 'r) aec3_handle option \<Rightarrow> bool" where
  "aec3_quiet parts cfg ni nc s \<longleftrightarrow> api_setup parts cfg 16000 ni nc \<and>
     (\<exists>h. s = Some h \<and> aec3_ready parts cfg 16000 ni nc [] h \<and> sq_items (transfer_queue (handle_aec h)) = [])"

definition api_held :: "('m, 'f, 's, 'k, 'r) aec3_handle option \<Rightarrow> nat \<Rightarrow> int list" where
  "api_held s c = (case s of None \<Rightarrow> [] | Some h \<Rightarrow> map FloatS16ToS16 (canceller_held (handle_aec h) (0, c)))"

lemma NumBandsForRate_16: "NumBandsForRate 16000 = 1"
  by (simp add: NumBandsForRate_def)

lemma channel_s16: "s16_frame n c xs \<Longrightarrow> i < c \<Longrightarrow> map (FloatS16ToS16 \<circ> of_int) (channel_of n c xs i) = channel_of n c xs i"
  by (intro map_idI) (auto simp: channel_of_def s16_frame_def list_all_length FloatS16ToS16_of_int frame_place2)

lemma aec3_quiet_stage:
  assumes "aec3_quiet parts cfg ni nc s" "s16_frame 160 nc (fst call)"
  shows "\<exists>s' out. aec3_call parts nc s call = Some (s', out) \<and> aec3_quiet parts cfg ni nc s' \<and>
    (fst out = 0 \<and> (\<exists>xs. snd out = Some xs \<and> s16_frame 160 nc xs)) \<and>
    (\<forall>c. c < nc \<longrightarrow> api_held s c @ channel_of 160 nc (fst call) c = channel_of 160 nc (the (snd out)) c @ api_held s' c)"
proof -
  obtain h where h: "s = Some h" "aec3_ready parts cfg 16000 ni nc [] h" "sq_items (transfer_queue (handle_aec h)) = []"
    and su: "api_setup parts cfg 16000 ni nc" using assms(1) by (auto simp: aec3_quiet_def)
  obtain xs lc where call: "call = (xs, lc)" by fastforce
  note r = h(2)[unfolded aec3_ready_def NumBandsForRate_16]
  have fr: "length xs = 160 * nc" "list_all is_s16 xs" "s16_frame 160 nc xs" using assms(2) by (simp_all add: s16_frame_def call)
  have bb: "band_buffer 1 nc (capture_buf h)" using r by simp
  have b: "same_rate 160 nc (capture_buf h)" using bb by (simp add: band_buffer_def)
  let ?d = "decode 160 nc xs"
  let ?b = "with_channels ?d (capture_buf h)"
  have cf: "CopyFrom_s16 xs (capture_cfg h) (capture_buf h) = Some ?b" using CopyFrom_same[OF b fr(1,2)] r by simp
  have b1: "band_buffer 1 nc ?b" using with_channels_same[OF b planar_decode] bb by (simp add: band_buffer_def)
  define ec where "ec = AnalyzeCapture (take (buf_num_channels ?b) (cb_data (buf_data ?b))) (handle_aec h)"
  have q: "canceller_setup parts aec3_high_pass (api_config cfg) None 16000 ni nc \<and> quiet parts (api_config cfg) None 16000 ni nc ec"
    using r h(3) su by (simp add: api_setup_def quiet_def ec_def AnalyzeCapture_keeps)
  have g: "good_capture (api_config cfg) 16000 nc (aec_view ?b) None"
    using aec_view_wf[OF b1] by (simp add: good_capture_def api_config_simps NumBandsForRate_16)
  have "case (aec_view ?b, None, lc \<noteq> 0) of (capture, lin, lc) \<Rightarrow> good_capture (api_config cfg) 16000 nc capture lin" using g by simp
  from quiet_stage[OF q this]
  obtain ec' lin v where p: "EchoCanceller3_ProcessCapture parts (aec_view ?b) None (lc \<noteq> 0) ec = Some (ec', lin, v)"
    "quiet parts (api_config cfg) None 16000 ni nc ec'" "wf_audio 1 nc v"
    and eq: "\<And>c. c < nc \<Longrightarrow> canceller_held ec (0, c) @ band_of (aec_view ?b) (0, c) = band_of v (0, c) @ canceller_held ec' (0, c)"
    by (auto simp: capture_call_step_def NumBandsForRate_16)
  let ?v = "map (\<lambda>ch. split_bands v ! ch ! 0) [0..<nc]"
  have w: "aec_write v ?b = with_channels ?v (capture_buf h)" using aec_write_one[OF b1 p(3)] by (simp add: with_channels_def)
  have pl: "planar 160 nc ?v" using p(3) by (auto simp: planar_def wf_audio_def cells_def kSplitBandSize_def)
  have b2: "band_buffer 1 nc (with_channels ?v (capture_buf h))" using with_channels_same[OF b pl] bb by (simp add: band_buffer_def)
  then have sr: "same_rate 160 nc (with_channels ?v (capture_buf h))" by (simp add: band_buffer_def)
  have ct: "CopyTo_s16 (capture_cfg h) xs (with_channels ?v (capture_buf h)) = Some (encode 160 nc ?v)"
    using CopyTo_same[OF sr fr(1)] r by (simp add: with_channels_def)
  let ?h = "h\<lparr>capture_buf := with_channels ?v (capture_buf h), handle_aec := ec'\<rparr>"
  have "aec3_capture_frame parts xs (lc \<noteq> 0) h = Some (?h, encode 160 nc ?v)"
    using p(1) ct band_buffer_one(2)[OF b1] band_buffer_one(2)[OF b2] by (simp add: aec3_capture_frame_def cf ec_def Let_def w)
  then have out: "aec3_call parts nc s call = Some (Some ?h, 0, Some (encode 160 nc ?v))"
    using r by (simp add: aec3_call_def call h(1) fswtch_aec3_process_capture_def FSWTCH_AEC3_OK_def)
  have s16: "s16_frame 160 nc (encode 160 nc ?v)" by (simp add: s16_frame_def encode_def list_all_iff conversions_in_range)
  have ready: "aec3_quiet parts cfg ni nc (Some ?h)"
    using p(2) b2 r su by (simp add: aec3_quiet_def aec3_ready_def quiet_def NumBandsForRate_16)
  have "api_held s c @ channel_of 160 nc xs c = channel_of 160 nc (encode 160 nc ?v) c @ api_held (Some ?h) c" if c: "c < nc" for c
  proof -
    have "band_of (aec_view ?b) (0, c) = map of_int (channel_of 160 nc xs c)"
    proof -
      have "split_bands (aec_view ?b) = map (\<lambda>ch. [ch]) ?d" using aec_view_one[OF b1] by (simp add: with_channels_def)
      then show ?thesis using c by (simp add: band_of_def decode_channel[symmetric]) (simp add: decode_def)
    qed
    then have "map FloatS16ToS16 (canceller_held ec (0, c)) @ channel_of 160 nc xs c =
        map FloatS16ToS16 (band_of v (0, c)) @ map FloatS16ToS16 (canceller_held ec' (0, c))"
      using arg_cong[OF eq[OF c], of "map FloatS16ToS16"] channel_s16[OF fr(3) c] by simp
    moreover have "channel_of 160 nc (encode 160 nc ?v) c = map FloatS16ToS16 (band_of v (0, c))"
      using channel_encode[of c nc ?v 160] c pl by (simp add: band_of_def planar_def)
    ultimately show ?thesis by (simp add: api_held_def h(1) ec_def AnalyzeCapture_keeps)
  qed
  then show ?thesis using out s16 ready by (intro exI[of _ "Some ?h"] exI[of _ "(0, Some (encode 160 nc ?v))"]) (simp add: call)
qed

interpretation api_stage: sample_stage "aec3_call parts nc" "aec3_quiet parts cfg ni nc" "\<lambda>call. s16_frame 160 nc (fst call)" api_held
    "\<lambda>call. channel_of 160 nc (fst call)" "\<lambda>out. channel_of 160 nc (the (snd out))" "\<lambda>c. c < nc"
    "\<lambda>out. fst out = 0 \<and> (\<exists>xs. snd out = Some xs \<and> s16_frame 160 nc xs)"
  for parts cfg ni nc
  by unfold_locales (rule aec3_quiet_stage)

text \<open>
  C3: As long as the program hands over no render frame, the C interface of the echo canceller gives
  every capture channel back at 16 kHz bit by bit, with a constant delay of 64 samples that starts with zeros:
  the conversions, the buffers, the framing into blocks and the canceller itself change nothing.
\<close>
theorem aec3_silent_far_end:
  assumes "api_setup parts cfg 16000 ni nc" "list_all (\<lambda>call. s16_frame 160 nc (fst call)) calls"
  shows "\<exists>h h' outs. fswtch_aec3_create parts cfg 16000 ni nc = Some (Some h) \<and>
    run_steps (aec3_call parts nc) (Some h) calls = Some (h', map (\<lambda>out. (0, Some out)) outs) \<and>
    (\<forall>c<nc. concat (map (\<lambda>out. channel_of 160 nc out c) outs) =
       take (160 * length calls) (replicate 64 0 @ concat (map (\<lambda>call. channel_of 160 nc (fst call) c) calls)))"
proof -
  have zero: "FloatS16ToS16 0 = 0" using FloatS16ToS16_of_int[of 0] by (simp add: is_s16_def)
  obtain h where h: "fswtch_aec3_create parts cfg 16000 ni nc = Some (Some h)" "aec3_quiet parts cfg ni nc (Some h)"
    and held: "\<And>c. c < nc \<Longrightarrow> api_held (Some h) c = replicate 64 0"
    using aec3_create_ok[of parts cfg 16000 ni nc] assms(1)
    by (auto simp: aec3_quiet_def NumBandsForRate_16 api_held_def zero)
  obtain h' rs where r: "run_steps (aec3_call parts nc) (Some h) calls = Some (h', rs)" "length rs = length calls"
    "list_all (\<lambda>out. fst out = 0 \<and> (\<exists>xs. snd out = Some xs \<and> s16_frame 160 nc xs)) rs"
    and eq: "\<And>c. c < nc \<Longrightarrow> api_held (Some h) c @ concat (map (\<lambda>call. channel_of 160 nc (fst call) c) calls) =
      concat (map (\<lambda>out. channel_of 160 nc (the (snd out)) c) rs) @ api_held h' c"
    using api_stage.run_fifo[OF h(2) assms(2)] by blast
  define outs where "outs = map (\<lambda>out. the (snd out)) rs"
  have rs: "rs = map (\<lambda>out. (0, Some out)) outs"
    using r(3) unfolding outs_def by (induction rs) auto
  have "concat (map (\<lambda>out. channel_of 160 nc out c) outs) =
      take (160 * length calls) (replicate 64 0 @ concat (map (\<lambda>call. channel_of 160 nc (fst call) c) calls))" if c: "c < nc" for c
  proof -
    have "length (concat (map (\<lambda>out. channel_of 160 nc out c) outs)) = 160 * length outs"
      by (induction outs) (simp_all add: channel_of_def)
    moreover have "length outs = length calls" using r(2) by (simp add: outs_def)
    moreover have "replicate 64 0 @ concat (map (\<lambda>call. channel_of 160 nc (fst call) c) calls) =
        concat (map (\<lambda>out. channel_of 160 nc out c) outs) @ api_held h' c"
      using eq[OF c] held[OF c] by (simp add: outs_def comp_def)
    ultimately show ?thesis by simp
  qed
  then show ?thesis using h(1) r(1) unfolding rs by blast
qed

theorem aec3_silent_far_end_witness:
  "\<exists>h h' out. fswtch_aec3_create demo_parts None 16000 2 1 = Some (Some h) \<and>
    run_steps (aec3_call demo_parts 1) (Some h) [(replicate 160 7, 0)] = Some (h', [(0, Some out)]) \<and>
    channel_of 160 1 out 0 = replicate 64 0 @ replicate 96 7"
proof -
  have fr: "list_all (\<lambda>call. s16_frame 160 1 (fst call)) [(replicate 160 7, 0 :: int)]" by (simp add: s16_frame_def is_s16_def list_all_iff)
  have setup_ok: "api_setup demo_parts None 16000 2 1" using demo_api_setup by simp
  have ch: "channel_of 160 1 (replicate 160 7) 0 = replicate 160 7" by (rule nth_equalityI) (simp_all add: channel_of_def del: upt_Suc)
  from aec3_silent_far_end[OF setup_ok fr] obtain h h' outs where r: "fswtch_aec3_create demo_parts None 16000 2 1 = Some (Some h)"
    "run_steps (aec3_call demo_parts 1) (Some h) [(replicate 160 7, 0)] = Some (h', map (\<lambda>out. (0, Some out)) outs)"
    "concat (map (\<lambda>out. channel_of 160 1 out 0) outs) = take 160 (replicate 64 0 @ replicate 160 7)"
    by (auto simp: ch[unfolded One_nat_def])
  have "length outs = 1" using r(2) by (auto split: bind_splits)
  then obtain out where "outs = [out]" by (cases outs) auto
  then show ?thesis using r by (intro exI[of _ h] exI[of _ h'] exI[of _ out]) simp
qed

end
